(* ===== verification/Prelude.thy ===== *)
theory Prelude
  imports Main
begin

text \<open>
  Shared vocabulary of the development: the collections of facts the component proofs use,
  generic lemmas on lists, repetition of words and bounded searches, and the pieces of the C++
  standard library that several components call (decimal rendering, prefix and substring tests).
\<close>

named_theorems table_simps \<open>facts on the factorisation table of the path compressor\<close>
named_theorems sem_simps \<open>meaning of the solver terms built by the program\<close>
named_theorems exec_simps \<open>one-step equations of the symbolic executor\<close>

section \<open>Lists and repeated words\<close>

definition rep :: "nat \<Rightarrow> 'a list \<Rightarrow> 'a list" where
  "rep n w = concat (replicate n w)"

lemma rep_0 [simp]: "rep 0 w = []"
  by (simp add: rep_def)

lemma rep_Suc [simp]: "rep (Suc n) w = w @ rep n w"
  by (simp add: rep_def)

lemma rep_Nil [simp]: "rep n [] = []"
  by (induction n) simp_all

lemma rep_comm: "rep n w @ w = w @ rep n w"
  by (induction n) simp_all

lemma rep_Suc_end: "rep (Suc n) w = rep n w @ w"
  by (simp add: rep_comm)

lemma rep_add: "rep (m + n) w = rep m w @ rep n w"
  by (induction m) simp_all

lemma length_rep [simp]: "length (rep n w) = n * length w"
  by (induction n) simp_all

lemma rep_eq_Nil [simp]: "rep n w = [] \<longleftrightarrow> n = 0 \<or> w = []"
  by (metis length_0_conv length_rep mult_is_0)

lemma rep_1 [simp]: "rep 1 w = w" and rep_one [simp]: "rep (Suc 0) w = w"
  by (simp_all add: rep_def)

lemma nth_rep:
  assumes "i < n * length w"
  shows "rep n w ! i = w ! (i mod length w)"
  using assms
proof (induction n arbitrary: i)
  case 0
  then show ?case by simp
next
  case (Suc n)
  show ?case
  proof (cases "i < length w")
    case True
    then show ?thesis by (simp add: nth_append)
  next
    case False
    then have "rep (Suc n) w ! i = rep n w ! (i - length w)"
      by (simp add: nth_append)
    also have "\<dots> = w ! ((i - length w) mod length w)"
      using Suc False by simp
    finally show ?thesis
      using False by (simp add: le_mod_geq)
  qed
qed

lemma take_drop_split: "i \<le> j \<Longrightarrow> take j xs = take i xs @ take (j - i) (drop i xs)"
  by (metis le_add_diff_inverse take_add)

lemma drop_suffix_append:
  assumes "start \<le> length xs" and "take n (drop start xs) = w" and "n = length w"
  shows "take (start + n) xs = take start xs @ w"
  using assms by (simp add: take_add)

section \<open>Bounded searches\<close>

lemma list_all_upt: "list_all P [m..<n] \<longleftrightarrow> (\<forall>i. m \<le> i \<and> i < n \<longrightarrow> P i)"
  by (auto simp: list_all_iff)

section \<open>Rendering and searching strings\<close>

text \<open>\<open>std::to_string\<close> on an unsigned value and on a signed one.\<close>

fun nat_to_string :: "nat \<Rightarrow> string" where
  "nat_to_string n =
     (if n < 10 then [char_of (48 + n)]
      else nat_to_string (n div 10) @ [char_of (48 + n mod 10)])"

declare nat_to_string.simps [simp del]

definition int_to_string :: "int \<Rightarrow> string" where
  "int_to_string i = (if i < 0 then CHR ''-'' # nat_to_string (nat (- i))
                      else nat_to_string (nat i))"

text \<open>\<open>starts_with\<close>, \<open>ends_with\<close> and \<open>find(s) != npos\<close>.\<close>

definition starts_with :: "string \<Rightarrow> string \<Rightarrow> bool" where
  "starts_with s p = (take (length p) s = p)"

definition ends_with :: "string \<Rightarrow> string \<Rightarrow> bool" where
  "ends_with s p = (length p \<le> length s \<and> drop (length s - length p) s = p)"

fun contains_str :: "string \<Rightarrow> string \<Rightarrow> bool" where
  "contains_str [] p = (p = [])"
| "contains_str (c # s) p = (starts_with (c # s) p \<or> contains_str s p)"

text \<open>Reading the digits back: the rendering determines the number.\<close>

fun digits_value :: "nat \<Rightarrow> string \<Rightarrow> nat" where
  "digits_value acc [] = acc"
| "digits_value acc (c # s) = digits_value (10 * acc + (of_char c - 48)) s"

lemma digits_value_append: "digits_value acc (s @ t) = digits_value (digits_value acc s) t"
  by (induction s arbitrary: acc) simp_all

lemma digits_value_nat_to_string: "digits_value 0 (nat_to_string n) = n"
proof (induction n rule: nat_to_string.induct)
  case (1 n)
  show ?case
  proof (cases "n < 10")
    case True
    then have "of_char (char_of (48 + n) :: char) = 48 + n"
      by (simp add: of_char_of)
    with True show ?thesis by (simp add: nat_to_string.simps [of n])
  next
    case False
    have "n mod 10 < 10" by simp
    then have "48 + n mod 10 < 256" by linarith
    then have "of_char (char_of (48 + n mod 10) :: char) = 48 + n mod 10"
      by (simp add: of_char_of)
    with False "1.IH" show ?thesis
      by (simp add: nat_to_string.simps [of n] digits_value_append)
  qed
qed

lemma nat_to_string_inject [simp]: "nat_to_string m = nat_to_string n \<longleftrightarrow> m = n"
  by (metis digits_value_nat_to_string)

lemma nat_to_string_nonempty [simp]: "nat_to_string n \<noteq> []"
  by (subst nat_to_string.simps) simp

lemma starts_with_append [simp]: "starts_with (p @ s) p"
  by (simp add: starts_with_def)

lemma starts_with_iff: "starts_with s p \<longleftrightarrow> (\<exists>t. s = p @ t)"
  by (metis append_eq_conv_conj append_take_drop_id starts_with_def)

lemma contains_str_iff: "contains_str s p \<longleftrightarrow> (\<exists>a b. s = a @ p @ b)"
proof (induction s)
  case Nil
  then show ?case by simp
next
  case (Cons c s)
  have "contains_str (c # s) p \<longleftrightarrow> (\<exists>t. c # s = p @ t) \<or> (\<exists>a b. s = a @ p @ b)"
    by (simp add: Cons.IH starts_with_iff)
  also have "\<dots> \<longleftrightarrow> (\<exists>a b. c # s = a @ p @ b)"
    by (metis append_Cons append_Nil list.inject list.exhaust)
  finally show ?case .
qed


lemma nat_to_string_digits [simp]: "nat_to_string 0 = ''0''" "nat_to_string (Suc 0) = ''1''"
  "nat_to_string 2 = ''2''"
  by code_simp+

text \<open>The digits at the front of a string, and \<open>strtoull\<close>: the value and the rest of the string.\<close>

definition is_digit :: "char \<Rightarrow> bool" where
  "is_digit c = (48 \<le> (of_char c :: nat) \<and> (of_char c :: nat) \<le> 57)"

definition is_space :: "char \<Rightarrow> bool" where
  "is_space c = ((of_char c :: nat) = 32 \<or> (9 \<le> (of_char c :: nat) \<and> (of_char c :: nat) \<le> 13))"

definition strtoull :: "string \<Rightarrow> nat \<times> string" where
  "strtoull text =
     (let body = dropWhile is_space text;
          negative = (body \<noteq> [] \<and> hd body = CHR ''-'');
          digits = (if body \<noteq> [] \<and> (hd body = CHR ''-'' \<or> hd body = CHR ''+'') then tl body else body);
          number = takeWhile is_digit digits;
          n = digits_value 0 number
      in if number = [] then (0, text)
         else (if n \<ge> 2 ^ 64 then 2 ^ 64 - 1 else if negative then (2 ^ 64 - n) mod 2 ^ 64 else n,
               dropWhile is_digit digits))"

end
