(* ===== verification/Path_Expression.thy ===== *)
theory Path_Expression
  imports Prelude "HOL-Library.Word" "HOL-Library.List_Lexorder" "HOL-Library.Product_Lexorder"
begin

text \<open>
  The deterministic path compressor (lib/PathExpression.h, lib/PathExpression.cpp) and the exact
  per-loop path prefixes it reads (lib/state.h, \<open>LoopPathExpressionState\<close>).  A completed loop
  iteration is a 32-bit symbol; the compressor factors the observed word into powers of primitive
  words by a minimum-cost table and proposes candidates of the form \<open>Q star^*\<close>.
  \<open>std::size_t\<close> values are natural numbers; the one place where their width matters is the value
  \<open>numeric_limits<size_t>::max()\<close>, used as infinity and to invert the order of exponents.
\<close>

section \<open>Data\<close>

type_synonym path_symbol = "32 word"
type_synonym path_word = "path_symbol list"

datatype path_power = Power (pp_root: path_word) (pp_exponent: nat)

datatype path_schema = Schema
  (closed_prefix: "path_power list") (star: path_word)
  (observed_star_exponent: nat) (score: nat)

definition size_max :: nat where
  "size_max = 2 ^ 64 - 1"

text \<open>The defaulted three-way comparison of the structure is the lexicographic one.\<close>

instantiation path_power :: linorder
begin

definition less_eq_path_power :: "path_power \<Rightarrow> path_power \<Rightarrow> bool" where
  "less_eq_path_power p q \<longleftrightarrow> (pp_root p, pp_exponent p) \<le> (pp_root q, pp_exponent q)"

definition less_path_power :: "path_power \<Rightarrow> path_power \<Rightarrow> bool" where
  "less_path_power p q \<longleftrightarrow> (pp_root p, pp_exponent p) < (pp_root q, pp_exponent q)"

instance
  by standard
    (auto simp: less_eq_path_power_def less_path_power_def path_power.expand)

end

section \<open>Primitive words and powers\<close>

definition has_period :: "path_word \<Rightarrow> nat \<Rightarrow> bool" where
  "has_period word period = list_all (\<lambda>i. word ! i = word ! (i mod period)) [0..<length word]"

definition is_primitive_path_word :: "path_word \<Rightarrow> bool" where
  "is_primitive_path_word word =
     (word \<noteq> [] \<and>
      list_all (\<lambda>period. length word mod period \<noteq> 0 \<or> \<not> has_period word period)
        [1..<length word])"

fun append_copies :: "path_word \<Rightarrow> path_word \<Rightarrow> nat \<Rightarrow> path_word" where
  "append_copies result root 0 = result"
| "append_copies result root (Suc count) = append_copies (result @ root) root count"

definition expand_path_powers :: "path_power list \<Rightarrow> path_word" where
  "expand_path_powers powers =
     foldl (\<lambda>result power. append_copies result (pp_root power) (pp_exponent power)) [] powers"

section \<open>The factorisation table\<close>

definition block_weight :: nat where "block_weight = 2"
definition exponent_weight :: nat where "exponent_weight = 1"
definition star_weight :: nat where "star_weight = 2"

text \<open>\<open>std::bit_width\<close>: the number of binary digits.\<close>

fun exponent_bits :: "nat \<Rightarrow> nat" where
  "exponent_bits n = (if n = 0 then 0 else Suc (exponent_bits (n div 2)))"

declare exponent_bits.simps [simp del]

definition block_cost :: "path_word \<Rightarrow> nat \<Rightarrow> nat" where
  "block_cost root exponent =
     block_weight + length root + exponent_weight * exponent_bits exponent"

definition word_equal_at :: "path_word \<Rightarrow> nat \<Rightarrow> path_word \<Rightarrow> bool" where
  "word_equal_at text position word =
     (if position + length word > length text then False
      else take (length word) (drop position text) = word)"

record factor_choice =
  present :: bool
  predecessor :: nat
  choice_root :: path_word
  choice_exponent :: nat

definition no_choice :: factor_choice where
  "no_choice = \<lparr>present = False, predecessor = 0, choice_root = [], choice_exponent = 0\<rparr>"

definition choice_key ::
    "nat \<Rightarrow> nat \<Rightarrow> path_word \<Rightarrow> nat \<Rightarrow> nat \<times> nat \<times> nat \<times> path_word \<times> nat" where
  "choice_key cost pred root exponent =
     (cost, pred, length root, root, size_max - exponent)"

record choice_table =
  costs :: "nat list"
  choices :: "factor_choice list"

text \<open>One improvement step of the inner loop.\<close>

definition relax :: "nat \<Rightarrow> path_word \<Rightarrow> nat \<Rightarrow> nat \<Rightarrow> choice_table \<Rightarrow> choice_table" where
  "relax i root exponent fin table =
     (let cost = costs table ! i + block_cost root exponent;
          candidate = choice_key cost i root exponent;
          old = choices table ! fin;
          improve = (\<not> present old \<or>
            candidate < choice_key (costs table ! fin) (predecessor old)
                          (choice_root old) (choice_exponent old))
      in if improve
         then table\<lparr>costs := (costs table)[fin := cost],
                    choices := (choices table)[fin := \<lparr>present = True, predecessor = i,
                                  choice_root = root, choice_exponent = exponent\<rparr>]\<rparr>
         else table)"

text \<open>
  The loop over the exponents of one root.  The caller only passes nonempty roots (lengths start
  at 1), which is what makes the loop stop; the model carries that test in the guard.
\<close>

function power_loop ::
    "path_word \<Rightarrow> nat \<Rightarrow> path_word \<Rightarrow> nat \<Rightarrow> nat \<Rightarrow> choice_table \<Rightarrow> choice_table" where
  "power_loop prefix i root exponent fin table =
     (if root \<noteq> [] \<and> word_equal_at prefix fin root
      then power_loop prefix i root (exponent + 1) (fin + length root)
             (relax i root (exponent + 1) (fin + length root) table)
      else table)"
  by pat_completeness auto
termination
  by (relation "measure (\<lambda>(prefix, i, root, exponent, fin, table). Suc (length prefix) - fin)")
    (auto simp: word_equal_at_def simp flip: length_greater_0_conv split: if_splits)

declare power_loop.simps [simp del]

definition root_step ::
    "path_word \<Rightarrow> nat \<Rightarrow> nat \<Rightarrow> choice_table \<Rightarrow> choice_table" where
  "root_step prefix i len table =
     (let root = take len (drop i prefix)
      in if \<not> is_primitive_path_word root then table
         else power_loop prefix i root 0 i table)"

definition position_step ::
    "path_word \<Rightarrow> nat \<Rightarrow> nat \<Rightarrow> choice_table \<Rightarrow> choice_table" where
  "position_step prefix max_root_length i table =
     (if costs table ! i = size_max then table
      else let max_length = min max_root_length (length prefix - i)
           in fold (root_step prefix i) [1..<Suc max_length] table)"

definition initial_table :: "path_word \<Rightarrow> choice_table" where
  "initial_table prefix =
     \<lparr>costs = (replicate (length prefix + 1) size_max)[0 := 0],
      choices = replicate (length prefix + 1) no_choice\<rparr>"

definition factor_table :: "path_word \<Rightarrow> nat \<Rightarrow> choice_table" where
  "factor_table prefix max_root_length =
     fold (position_step prefix max_root_length) [0..<length prefix] (initial_table prefix)"

text \<open>
  Reading a factorisation back.  A missing or malformed entry makes the code return the empty
  list; the accumulator is the list before \<open>std::reverse\<close>.
\<close>

function backtrack_loop :: "choice_table \<Rightarrow> nat \<Rightarrow> path_power list \<Rightarrow> path_power list" where
  "backtrack_loop table fin reversed =
     (if fin = 0 then rev reversed
      else let choice = choices table ! fin
           in if \<not> present choice \<or> choice_exponent choice = 0 \<or> predecessor choice \<ge> fin then []
              else backtrack_loop table (predecessor choice)
                     (reversed @ [Power (choice_root choice) (choice_exponent choice)]))"
  by pat_completeness auto
termination
  by (relation "measure (\<lambda>(table, fin, reversed). fin)") auto

declare backtrack_loop.simps [simp del]

definition backtrack :: "choice_table \<Rightarrow> nat \<Rightarrow> path_power list" where
  "backtrack table fin = backtrack_loop table fin []"

section \<open>Compression\<close>

text \<open>The run of copies of the root at the end of the prefix.\<close>

function suffix_run :: "path_word \<Rightarrow> path_word \<Rightarrow> nat \<Rightarrow> nat \<Rightarrow> nat \<times> nat" where
  "suffix_run prefix root exponent start =
     (if root \<noteq> [] \<and> start \<ge> length root \<and> word_equal_at prefix (start - length root) root
      then suffix_run prefix root (exponent + 1) (start - length root)
      else (exponent, start))"
  by pat_completeness auto
termination
  by (relation "measure (\<lambda>(prefix, root, exponent, start). start)")
    (auto simp flip: length_greater_0_conv)

declare suffix_run.simps [simp del]

definition candidate_for ::
    "choice_table \<Rightarrow> path_word \<Rightarrow> nat \<Rightarrow> nat \<Rightarrow> path_schema option" where
  "candidate_for table prefix evidence_threshold len =
     (let root = drop (length prefix - len) prefix
      in if \<not> is_primitive_path_word root then None
         else let (exponent, start) = suffix_run prefix root 0 (length prefix)
              in if exponent < evidence_threshold then None
                 else let closed = backtrack table start
                      in if start \<noteq> 0 \<and> closed = [] then None
                         else Some (Schema closed root exponent
                                (costs table ! start + star_weight + len +
                                 exponent_weight * exponent_bits exponent)))"

definition candidate_key ::
    "path_schema \<Rightarrow> nat \<times> nat \<times> nat \<times> path_word \<times> path_power list" where
  "candidate_key c =
     (score c, size_max - observed_star_exponent c, length (star c), star c, closed_prefix c)"

definition candidates_at ::
    "path_word \<Rightarrow> nat \<Rightarrow> nat \<Rightarrow> path_schema list" where
  "candidates_at prefix max_root_length evidence_threshold =
     (let table = factor_table prefix max_root_length;
          max_length = min max_root_length (length prefix)
      in List.map_filter (candidate_for table prefix evidence_threshold) [1..<Suc max_length])"

function compress_path_prefix :: "path_word \<Rightarrow> nat \<Rightarrow> nat \<Rightarrow> nat \<Rightarrow> path_schema list" where
  "compress_path_prefix prefix max_root_length beam_width evidence_threshold =
     (if prefix = [] \<or> max_root_length = 0 \<or> beam_width = 0 then []
      else let threshold = max evidence_threshold 1;
               candidates = candidates_at prefix max_root_length threshold
           in if candidates = [] \<and> threshold > 1
              then compress_path_prefix prefix max_root_length beam_width 1
              else take beam_width (remdups_adj (sort_key candidate_key candidates)))"
  by pat_completeness auto
termination
  by (relation "measure (\<lambda>(prefix, m, beam, threshold). threshold)") auto

declare compress_path_prefix.simps [simp del]

section \<open>Rendering\<close>

definition render_path_word :: "path_word \<Rightarrow> string" where
  "render_path_word word =
     concat (map (\<lambda>i. (if i \<noteq> 0 then ''.'' else '''') @ ''p'' @ nat_to_string (unat (word ! i)))
       [0..<length word])"

definition render_path_schema :: "path_schema \<Rightarrow> string" where
  "render_path_schema candidate =
     (let (out, first) =
        foldl (\<lambda>(out, first) power.
            (out @ (if \<not> first then '' '' else '''') @ ''('' @ render_path_word (pp_root power) @
             '')^'' @ nat_to_string (pp_exponent power), False))
          ('''', True) (closed_prefix candidate)
      in out @ (if \<not> first then '' '' else '''') @ ''('' @ render_path_word (star candidate) @ '')^*'')"

end
