(* ===== verification/Path_Factorisation.thy ===== *)
theory Path_Factorisation
  imports Path_Expression
begin

text \<open>
  Correctness of the path compressor: primitivity is the algebraic notion (no proper power), the
  table of factorisations is exact (every entry is the cost of a cheapest factorisation into
  powers of short primitive words, and reading an entry back yields one), and the candidates the
  compressor returns are exact decompositions of the observed prefix.
\<close>

section \<open>Primitive words\<close>

lemma has_period_rep:
  assumes "length word = k * period"
  shows "has_period word period \<longleftrightarrow> word = rep k (take period word)"
proof (cases "word = []")
  case True
  then show ?thesis by (simp add: has_period_def)
next
  case False
  then have "k * period \<noteq> 0" using assms by (metis length_0_conv)
  then have k: "k \<noteq> 0" and p: "period > 0" and le: "period \<le> length word"
    using assms by simp_all
  then have len: "length (take period word) = period" by simp
  have ix: "rep k (take period word) ! i = word ! (i mod period)" if "i < length word" for i
    using that p len assms by (simp add: nth_rep)
  have "word = rep k (take period word) \<longleftrightarrow>
    (\<forall>i < length word. word ! i = rep k (take period word) ! i)"
    using assms len by (auto simp: list_eq_iff_nth_eq)
  then show ?thesis
    using ix by (auto simp: has_period_def list_all_upt)
qed

lemma is_primitive_iff:
  "is_primitive_path_word w \<longleftrightarrow> w \<noteq> [] \<and> (\<forall>r k. k \<ge> 2 \<longrightarrow> w \<noteq> rep k r)"
proof (cases "w = []")
  case True
  then show ?thesis by (simp add: is_primitive_path_word_def)
next
  case False
  show ?thesis
  proof
    assume prim: "is_primitive_path_word w"
    have "w \<noteq> rep k r" if k: "k \<ge> 2" for r k
    proof
      assume w: "w = rep k r"
      have r: "r \<noteq> []" using False w by (metis rep_Nil)
      have len: "length w = k * length r" using w by simp
      have "k = Suc (k - 1)" using k by simp
      then have "take (length r) w = r" using w by (metis append_eq_conv_conj rep_Suc)
      then have "has_period w (length r)"
        using has_period_rep [OF len] w by simp
      moreover have "1 \<le> length r" using r by (cases r) simp_all
      moreover have "length r < length w"
      proof -
        have "2 * length r \<le> length w" using k len by simp
        then show ?thesis using \<open>1 \<le> length r\<close> by simp
      qed
      moreover have "length w mod length r = 0" by (simp add: len)
      moreover have "\<forall>p. 1 \<le> p \<and> p < length w \<longrightarrow> length w mod p \<noteq> 0 \<or> \<not> has_period w p"
        using prim unfolding is_primitive_path_word_def list_all_upt by (rule conjunct2)
      ultimately show False by metis
    qed
    then show "w \<noteq> [] \<and> (\<forall>r k. k \<ge> 2 \<longrightarrow> w \<noteq> rep k r)" using False by blast
  next
    assume *: "w \<noteq> [] \<and> (\<forall>r k. k \<ge> 2 \<longrightarrow> w \<noteq> rep k r)"
    have "\<not> has_period w p" if p: "1 \<le> p" "p < length w" "length w mod p = 0" for p
    proof
      assume per: "has_period w p"
      obtain k where k: "length w = k * p" using p(3) by (metis mod_0_imp_dvd dvdE mult.commute)
      then have "w = rep k (take p w)" using has_period_rep per by blast
      moreover have "k \<ge> 2"
        using k p by (cases k; cases "k - 1") auto
      ultimately show False using * by blast
    qed
    then show "is_primitive_path_word w"
      using False by (auto simp: is_primitive_path_word_def list_all_upt)
  qed
qed

lemma primitive_nonempty: "is_primitive_path_word w \<Longrightarrow> w \<noteq> []"
  by (simp add: is_primitive_path_word_def)

lemma primitive_singleton [simp]: "is_primitive_path_word [x]"
  by (simp add: is_primitive_path_word_def)

section \<open>Expansion\<close>

lemma append_copies_rep [simp]: "append_copies result root n = result @ rep n root"
  by (induction n arbitrary: result) simp_all

lemma expand_eq_concat:
  "expand_path_powers ps = concat (map (\<lambda>p. rep (pp_exponent p) (pp_root p)) ps)"
proof -
  have "foldl (\<lambda>r p. append_copies r (pp_root p) (pp_exponent p)) acc ps =
    acc @ concat (map (\<lambda>p. rep (pp_exponent p) (pp_root p)) ps)" for acc
    by (induction ps arbitrary: acc) simp_all
  then show ?thesis by (simp add: expand_path_powers_def)
qed

lemma expand_Nil [simp]: "expand_path_powers [] = []"
  by (simp add: expand_eq_concat)

lemma expand_append [simp]:
  "expand_path_powers (ps @ qs) = expand_path_powers ps @ expand_path_powers qs"
  by (simp add: expand_eq_concat)

lemma expand_single [simp]: "expand_path_powers [p] = rep (pp_exponent p) (pp_root p)"
  by (simp add: expand_eq_concat)

section \<open>Costs\<close>

lemma exponent_bits_0 [simp]: "exponent_bits 0 = 0"
  by (simp add: exponent_bits.simps)

lemma exponent_bits_1 [simp]: "exponent_bits (Suc 0) = 1"
  by (simp add: exponent_bits.simps)

lemma exponent_bits_bounds: "n > 0 \<Longrightarrow> 2 ^ (exponent_bits n - 1) \<le> n \<and> n < 2 ^ exponent_bits n"
proof (induction n rule: exponent_bits.induct)
  case (1 n)
  show ?case
  proof (cases "n = 1")
    case False
    with 1 have "n div 2 > 0" by auto
    with 1 have ih: "2 ^ (exponent_bits (n div 2) - 1) \<le> n div 2"
      "n div 2 < 2 ^ exponent_bits (n div 2)" by auto
    obtain b where b: "exponent_bits (n div 2) = Suc b"
      using \<open>n div 2 > 0\<close> by (simp add: exponent_bits.simps [of "n div 2"])
    have "2 * 2 ^ b \<le> n" and "n < 4 * 2 ^ b" using ih b by simp_all
    then show ?thesis using b \<open>n > 0\<close> by (simp add: exponent_bits.simps [of n])
  qed simp
qed

lemma exponent_bits_le: "exponent_bits n \<le> n"
proof (induction n rule: exponent_bits.induct)
  case (1 n)
  show ?case
  proof (cases "n = 0")
    case False
    with 1 have "exponent_bits (n div 2) \<le> n div 2" by blast
    with False show ?thesis by (subst exponent_bits.simps) auto
  qed simp
qed

lemma block_cost_le:
  assumes "root \<noteq> []" and "e > 0"
  shows "block_cost root e \<le> 4 * (e * length root)"
proof -
  obtain l where l: "length root = Suc l" using assms(1) by (cases root) auto
  obtain f where f: "e = Suc f" using assms(2) by (cases e) auto
  show ?thesis
    using exponent_bits_le [of e]
    by (simp add: block_cost_def block_weight_def exponent_weight_def l f)
qed

lemma block_cost_single [simp]: "block_cost [x] (Suc 0) = 4"
  by (simp add: block_cost_def block_weight_def exponent_weight_def)

section \<open>The table invariant\<close>

text \<open>An edge of the factorisation graph: a power of a short primitive word that occurs at a position.\<close>

definition valid_edge :: "path_word \<Rightarrow> nat \<Rightarrow> nat \<Rightarrow> path_word \<Rightarrow> nat \<Rightarrow> bool" where
  "valid_edge prefix m i root e \<longleftrightarrow>
     is_primitive_path_word root \<and> length root \<le> m \<and> e \<ge> 1 \<and>
     i + e * length root \<le> length prefix \<and>
     take (e * length root) (drop i prefix) = rep e root"

definition edge_target :: "nat \<times> path_word \<times> nat \<Rightarrow> nat" where
  "edge_target = (\<lambda>(i, root, e). i + e * length root)"

definition entry_key :: "choice_table \<Rightarrow> nat \<Rightarrow> nat \<times> nat \<times> nat \<times> path_word \<times> nat" where
  "entry_key T fin = choice_key (costs T ! fin) (predecessor (choices T ! fin))
     (choice_root (choices T ! fin)) (choice_exponent (choices T ! fin))"

definition edge_key ::
    "choice_table \<Rightarrow> nat \<times> path_word \<times> nat \<Rightarrow> nat \<times> nat \<times> nat \<times> path_word \<times> nat" where
  "edge_key T = (\<lambda>(i, root, e). choice_key (costs T ! i + block_cost root e) i root e)"

text \<open>
  The invariant, for the set of edges relaxed so far: an entry is present exactly when some edge
  reaches it, it records one of these edges with that edge's cost, and no relaxed edge has a
  smaller key.
\<close>

definition table_shape :: "nat \<Rightarrow> choice_table \<Rightarrow> bool" where
  "table_shape n T \<longleftrightarrow>
     length (costs T) = Suc n \<and> length (choices T) = Suc n \<and> costs T ! 0 = 0"

definition edge_of_choice :: "factor_choice \<Rightarrow> nat \<times> path_word \<times> nat" where
  "edge_of_choice c = (predecessor c, choice_root c, choice_exponent c)"

definition edge_cost :: "choice_table \<Rightarrow> nat \<times> path_word \<times> nat \<Rightarrow> nat" where
  "edge_cost T = (\<lambda>(i, root, e). costs T ! i + block_cost root e)"

definition entry_ok :: "(nat \<times> path_word \<times> nat) set \<Rightarrow> choice_table \<Rightarrow> nat \<Rightarrow> bool" where
  "entry_ok E T fin \<longleftrightarrow>
     (if present (choices T ! fin)
      then edge_of_choice (choices T ! fin) \<in> E \<and>
           edge_target (edge_of_choice (choices T ! fin)) = fin \<and>
           costs T ! fin = edge_cost T (edge_of_choice (choices T ! fin))
      else fin > 0 \<longrightarrow> costs T ! fin = size_max)"

definition edge_ok :: "choice_table \<Rightarrow> nat \<times> path_word \<times> nat \<Rightarrow> bool" where
  "edge_ok T x \<longleftrightarrow>
     present (choices T ! edge_target x) \<and> entry_key T (edge_target x) \<le> edge_key T x"

definition table_inv ::
    "nat \<Rightarrow> (nat \<times> path_word \<times> nat) set \<Rightarrow> choice_table \<Rightarrow> bool" where
  "table_inv n E T \<longleftrightarrow>
     table_shape n T \<and> (\<forall>x\<in>E. fst x < edge_target x \<and> edge_target x \<le> n) \<and>
     (\<forall>fin\<le>n. entry_ok E T fin) \<and> (\<forall>x\<in>E. edge_ok T x)"

lemma initial_table_entries:
  "table_shape (length prefix) (initial_table prefix)"
  "j \<le> length prefix \<Longrightarrow> \<not> present (choices (initial_table prefix) ! j)"
  "0 < j \<Longrightarrow> j \<le> length prefix \<Longrightarrow> costs (initial_table prefix) ! j = size_max"
  by (simp_all add: table_shape_def initial_table_def no_choice_def nth_Cons' del: replicate_Suc)

lemma table_inv_initial: "table_inv (length prefix) {} (initial_table prefix)"
  by (simp add: table_inv_def entry_ok_def initial_table_entries)

lemma table_inv_shape: "table_inv n E T \<Longrightarrow> table_shape n T"
  by (simp add: table_inv_def)

lemma table_inv_present:
  assumes "table_inv n E T" "fin \<le> n" "present (choices T ! fin)"
  shows "edge_of_choice (choices T ! fin) \<in> E"
    and "edge_target (edge_of_choice (choices T ! fin)) = fin"
    and "costs T ! fin = edge_cost T (edge_of_choice (choices T ! fin))"
  using assms by (simp_all add: table_inv_def entry_ok_def edge_ok_def)

lemma table_inv_absent:
  assumes "table_inv n E T" "fin \<le> n" "\<not> present (choices T ! fin)" "fin > 0"
  shows "costs T ! fin = size_max"
  using assms by (simp add: table_inv_def entry_ok_def)

lemma table_inv_edge:
  assumes "table_inv n E T" "x \<in> E"
  shows "fst x < edge_target x" "edge_target x \<le> n" "present (choices T ! edge_target x)"
    and "entry_key T (edge_target x) \<le> edge_key T x"
  using assms by (simp_all add: table_inv_def entry_ok_def edge_ok_def)

lemma choice_key_cost_le: "choice_key c i r e \<le> choice_key c' i' r' e' \<Longrightarrow> c \<le> c'"
  by (auto simp: choice_key_def less_eq_prod_simp)

text \<open>Writing one entry leaves the others and the keys of the edges from earlier positions alone.\<close>

definition set_entry :: "nat \<Rightarrow> path_word \<Rightarrow> nat \<Rightarrow> nat \<Rightarrow> choice_table \<Rightarrow> choice_table" where
  "set_entry i root e fin T =
     T\<lparr>costs := (costs T)[fin := costs T ! i + block_cost root e],
       choices := (choices T)[fin := \<lparr>present = True, predecessor = i, choice_root = root,
                                       choice_exponent = e\<rparr>]\<rparr>"

lemma relax_eq:
  "relax i root e fin T =
     (if \<not> present (choices T ! fin) \<or> edge_key T (i, root, e) < entry_key T fin
      then set_entry i root e fin T else T)"
  by (simp add: relax_def set_entry_def edge_key_def entry_key_def Let_def)

lemma set_entry_other:
  assumes "j \<noteq> fin"
  shows "costs (set_entry i root e fin T) ! j = costs T ! j"
    and "choices (set_entry i root e fin T) ! j = choices T ! j"
    and "entry_key (set_entry i root e fin T) j = entry_key T j"
  using assms by (simp_all add: set_entry_def entry_key_def)

lemma set_entry_at:
  assumes "table_shape n T" "fin \<le> n" "i < fin"
  shows "present (choices (set_entry i root e fin T) ! fin)"
    and "edge_of_choice (choices (set_entry i root e fin T) ! fin) = (i, root, e)"
    and "costs (set_entry i root e fin T) ! fin = edge_cost T (i, root, e)"
    and "entry_key (set_entry i root e fin T) fin = edge_key T (i, root, e)"
  using assms by (simp_all add: set_entry_def table_shape_def edge_of_choice_def edge_cost_def
      entry_key_def edge_key_def)

lemma set_entry_edges:
  assumes "fst x < fin"
  shows "edge_key (set_entry i root e fin T) x = edge_key T x"
    and "edge_cost (set_entry i root e fin T) x = edge_cost T x"
  using assms by (cases x; simp add: edge_key_def edge_cost_def set_entry_other)+

lemma set_entry_shape:
  assumes "table_shape n T" "i < fin"
  shows "table_shape n (set_entry i root e fin T)"
  using assms by (simp add: table_shape_def set_entry_def)

lemma table_inv_set_entry:
  assumes inv: "table_inv n E T"
    and src: "\<And>x. x \<in> E \<Longrightarrow> fst x < fin"
    and fin: "edge_target (i, root, e) = fin" "i < fin" "fin \<le> n"
    and better: "present (choices T ! fin) \<Longrightarrow> edge_key T (i, root, e) \<le> entry_key T fin"
  shows "table_inv n (insert (i, root, e) E) (set_entry i root e fin T)" (is "table_inv n ?E ?T")
proof -
  note shape = table_inv_shape [OF inv]
  note at = set_entry_at [OF shape fin(3,2), of root e]
  have fst_lt: "fst x < fin" if "x \<in> ?E" for x
    using that src [of x] fin(2) by (cases "x \<in> E") auto
  have entry: "entry_ok ?E ?T j" if j: "j \<le> n" for j
  proof (cases "j = fin")
    case True
    then show ?thesis using at fin by (simp add: entry_ok_def set_entry_edges(2))
  next
    case False
    note old = set_entry_other [OF False, of i root e T]
    show ?thesis
    proof (cases "present (choices T ! j)")
      case True
      note p = table_inv_present [OF inv j True]
      have "fst (edge_of_choice (choices T ! j)) < fin" using p(1) src by blast
      with p show ?thesis by (simp add: entry_ok_def old True set_entry_edges(2))
    next
      case False
      with table_inv_absent [OF inv j False] show ?thesis by (simp add: entry_ok_def old)
    qed
  qed
  have minimal: "edge_ok ?T x" if x: "x \<in> ?E" for x
  proof (cases "x = (i, root, e)")
    case True
    then show ?thesis using at fin by (simp add: edge_ok_def set_entry_edges(1))
  next
    case False
    then have xE: "x \<in> E" using x by simp
    note ed = table_inv_edge [OF inv xE]
    have key: "edge_key ?T x = edge_key T x" using fst_lt [OF x] by (simp add: set_entry_edges)
    show ?thesis
    proof (cases "edge_target x = fin")
      case True
      then have "edge_key T (i, root, e) \<le> edge_key T x" using better ed(3,4) by (simp add: order_trans)
      then show ?thesis using True at key by (simp add: edge_ok_def)
    next
      case False
      then show ?thesis using ed set_entry_other [OF False] key by (simp add: edge_ok_def)
    qed
  qed
  have "fst x < edge_target x \<and> edge_target x \<le> n" if "x \<in> ?E" for x
    using table_inv_edge(1,2) [OF inv, of x] fin that by (cases "x \<in> E") auto
  then show ?thesis
    unfolding table_inv_def using entry minimal set_entry_shape [OF shape fin(2)] by simp
qed

lemma table_inv_relax:
  assumes inv: "table_inv n E T"
    and src: "\<And>x. x \<in> E \<Longrightarrow> fst x < fin"
    and fin: "edge_target (i, root, e) = fin" "i < fin" "fin \<le> n"
  shows "table_inv n (insert (i, root, e) E) (relax i root e fin T)"
proof (cases "\<not> present (choices T ! fin) \<or> edge_key T (i, root, e) < entry_key T fin")
  case True
  then have "relax i root e fin T = set_entry i root e fin T" by (simp add: relax_eq)
  then show ?thesis using table_inv_set_entry [OF inv src fin] True by auto
next
  case False
  then have "present (choices T ! fin)" "entry_key T fin \<le> edge_key T (i, root, e)" by auto
  moreover have "relax i root e fin T = T" using False by (simp add: relax_eq)
  ultimately show ?thesis using inv fin by (simp add: table_inv_def entry_ok_def edge_ok_def)
qed

section \<open>The loops of the table\<close>

lemma take_add_eq_append:
  assumes "length a + length b \<le> length ys"
  shows "take (length a + length b) ys = a @ b \<longleftrightarrow>
    take (length a) ys = a \<and> take (length b) (drop (length a) ys) = b"
  using assms by (simp add: take_add append_eq_append_conv)

lemma word_equal_at_extends:
  assumes "take (e * length root) (drop i prefix) = rep e root"
    and "i + e * length root \<le> length prefix"
  shows "word_equal_at prefix (i + e * length root) root \<longleftrightarrow>
    i + Suc e * length root \<le> length prefix \<and>
    take (Suc e * length root) (drop i prefix) = rep (Suc e) root"
proof (cases "i + Suc e * length root \<le> length prefix")
  case True
  then have "length (rep e root) + length root \<le> length (drop i prefix)" by simp
  from take_add_eq_append [OF this] show ?thesis
    using assms True by (simp add: word_equal_at_def rep_comm [symmetric] add.commute
        add.left_commute del: append_take_drop_id)
qed (simp add: word_equal_at_def algebra_simps)

text \<open>A power that occurs carries every smaller power at the same position.\<close>

lemma valid_edge_less:
  assumes "valid_edge prefix m i root e" "1 \<le> e'" "e' \<le> e"
  shows "valid_edge prefix m i root e'"
proof -
  obtain d where d: "e = e' + d" using assms(3) le_Suc_ex by blast
  have "take (e' * length root) (take (e * length root) (drop i prefix)) =
      take (e' * length root) (rep e root)"
    using assms(1) by (simp add: valid_edge_def)
  moreover have "take (e' * length root) (rep e root) = rep e' root"
    by (simp add: d rep_add)
  moreover have "e' * length root \<le> e * length root" using assms(3) by simp
  ultimately have "take (e' * length root) (drop i prefix) = rep e' root"
    by (simp add: min_absorb1)
  then show ?thesis using assms d by (simp add: valid_edge_def algebra_simps)
qed

definition root_edges :: "path_word \<Rightarrow> nat \<Rightarrow> nat \<Rightarrow> path_word \<Rightarrow> nat \<Rightarrow> (nat \<times> path_word \<times> nat) set" where
  "root_edges prefix m i root e = {(i, root, e') |e'. e < e' \<and> valid_edge prefix m i root e'}"

lemma power_loop_inv:
  assumes inv: "table_inv (length prefix) E T"
    and src: "\<And>x. x \<in> E \<Longrightarrow> fst x \<le> i"
    and root: "is_primitive_path_word root" "length root \<le> m"
    and fin: "fin = i + e * length root" "fin \<le> length prefix"
    and occ: "take (e * length root) (drop i prefix) = rep e root"
  shows "table_inv (length prefix) (E \<union> root_edges prefix m i root e)
    (power_loop prefix i root e fin T)"
  using inv src fin occ root
proof (induction prefix i root e fin T arbitrary: E rule: power_loop.induct)
  case (1 prefix i root e fin T)
  note root = "1.prems"(6,7)
  have ne: "root \<noteq> []" using root(1) primitive_nonempty by blast
  note ext = word_equal_at_extends [OF "1.prems"(5)]
  show ?case
  proof (cases "word_equal_at prefix fin root")
    case True
    let ?x = "(i, root, Suc e)"
    let ?T = "relax i root (Suc e) (fin + length root) T"
    have occ': "fin + length root \<le> length prefix"
      "take (Suc e * length root) (drop i prefix) = rep (Suc e) root"
      using ext True "1.prems"(3,4) by (simp_all add: algebra_simps)
    have edge: "valid_edge prefix m i root (Suc e)"
      using root occ' "1.prems"(3) by (simp add: valid_edge_def algebra_simps)
    have tgt: "edge_target ?x = fin + length root"
      by (simp add: edge_target_def "1.prems"(3))
    have lt: "i < fin + length root" using ne "1.prems"(3) by simp
    have step: "table_inv (length prefix) (insert ?x E) ?T"
      using "1.prems"(1,2) lt occ'(1) tgt by (intro table_inv_relax) (auto intro: le_less_trans)
    have src': "fst x \<le> i" if "x \<in> insert ?x E" for x
      using that "1.prems"(2) [of x] by (cases "x \<in> E") auto
    have "table_inv (length prefix) (insert ?x E \<union> root_edges prefix m i root (e + 1))
        (power_loop prefix i root (e + 1) (fin + length root) (relax i root (e + 1) (fin + length root) T))"
      by (rule "1.IH") (use ne True step src' "1.prems"(3) occ' root in \<open>simp_all add: algebra_simps\<close>)
    moreover have "insert ?x E \<union> root_edges prefix m i root (e + 1) = E \<union> root_edges prefix m i root e"
      using edge by (auto simp: root_edges_def Suc_lessI)
    ultimately show ?thesis
      using ne True by (simp add: power_loop.simps [of prefix i root e])
  next
    case False
    have "root_edges prefix m i root e = {}"
    proof -
      have "\<not> valid_edge prefix m i root e'" if "e < e'" for e'
        using valid_edge_less [of prefix m i root e' "Suc e"] that False ext "1.prems"(3,4)
        by (auto simp: valid_edge_def)
      then show ?thesis by (auto simp: root_edges_def)
    qed
    then show ?thesis using False "1.prems"(1) by (simp add: power_loop.simps [of prefix i root e])
  qed
qed

definition edges_before :: "path_word \<Rightarrow> nat \<Rightarrow> nat \<Rightarrow> (nat \<times> path_word \<times> nat) set" where
  "edges_before prefix m k = {(i, root, e) |i root e. i < k \<and> valid_edge prefix m i root e}"

definition edges_upto ::
    "path_word \<Rightarrow> nat \<Rightarrow> nat \<Rightarrow> nat \<Rightarrow> (nat \<times> path_word \<times> nat) set" where
  "edges_upto prefix m i len =
     {(i, root, e) |root e. length root \<le> len \<and> valid_edge prefix m i root e}"

text \<open>The root of a valid edge is the word read at its position.\<close>

lemma valid_edge_root:
  assumes "valid_edge prefix m i root e"
  shows "root = take (length root) (drop i prefix)" "root \<noteq> []"
    "i + length root \<le> length prefix" "i < length prefix" "length root \<le> m"
proof -
  have v: "valid_edge prefix m i root 1"
    using valid_edge_less [OF assms, of 1] assms by (simp add: valid_edge_def)
  show ne: "root \<noteq> []" using assms primitive_nonempty by (auto simp: valid_edge_def)
  show "root = take (length root) (drop i prefix)" "i + length root \<le> length prefix"
      "length root \<le> m"
    using v by (simp_all add: valid_edge_def)
  then show "i < length prefix" using ne by (cases root) auto
qed

lemma edges_upto_Suc:
  assumes "Suc len \<le> m" "i + Suc len \<le> length prefix"
    and "root = take (Suc len) (drop i prefix)"
  shows "edges_upto prefix m i (Suc len) =
    edges_upto prefix m i len \<union>
      (if is_primitive_path_word root then root_edges prefix m i root 0 else {})" (is "?L = ?R")
proof -
  have "x \<in> ?R" if x: "x \<in> ?L" for x
  proof -
    obtain r e where r: "x = (i, r, e)" "length r \<le> Suc len" "valid_edge prefix m i r e"
      using x by (auto simp: edges_upto_def)
    show ?thesis
    proof (cases "length r = Suc len")
      case True
      then have "r = root" using valid_edge_root(1) [OF r(3)] assms by simp
      then show ?thesis using r by (auto simp: root_edges_def valid_edge_def)
    next
      case False
      then show ?thesis using r by (auto simp: edges_upto_def)
    qed
  qed
  moreover have "x \<in> ?L" if "x \<in> ?R" for x
    using that assms by (auto simp: edges_upto_def root_edges_def split: if_splits)
  ultimately show ?thesis by blast
qed

lemma root_step_inv:
  assumes "table_inv (length prefix) (E \<union> edges_upto prefix m i len) T"
    and "\<And>x. x \<in> E \<Longrightarrow> fst x \<le> i"
    and "Suc len \<le> m" "i + Suc len \<le> length prefix"
  shows "table_inv (length prefix) (E \<union> edges_upto prefix m i (Suc len))
    (root_step prefix i (Suc len) T)"
proof -
  define root where "root = take (Suc len) (drop i prefix)"
  have len: "length root = Suc len" using assms(4) by (simp add: root_def)
  note eq = edges_upto_Suc [OF assms(3,4) root_def]
  show ?thesis
  proof (cases "is_primitive_path_word root")
    case True
    have src: "fst x \<le> i" if "x \<in> E \<union> edges_upto prefix m i len" for x
      using that assms(2) [of x] by (cases "x \<in> E") (auto simp: edges_upto_def)
    have "table_inv (length prefix) ((E \<union> edges_upto prefix m i len) \<union> root_edges prefix m i root 0)
        (power_loop prefix i root 0 i T)"
      using assms(3,4) len by (intro power_loop_inv [OF assms(1) src True]) simp_all
    then show ?thesis
      using True by (simp add: eq root_step_def Let_def Un_assoc flip: root_def)
  next
    case False
    then show ?thesis using assms(1) by (simp add: eq root_step_def Let_def flip: root_def)
  qed
qed

lemma root_steps_inv:
  assumes "table_inv (length prefix) E T" "\<And>x. x \<in> E \<Longrightarrow> fst x \<le> i"
    and "len \<le> m" "i + len \<le> length prefix"
  shows "table_inv (length prefix) (E \<union> edges_upto prefix m i len)
    (fold (root_step prefix i) [1..<Suc len] T)"
  using assms(3,4)
proof (induction len)
  case 0
  have "edges_upto prefix m i 0 = {}"
    by (auto simp: edges_upto_def valid_edge_def is_primitive_path_word_def)
  then show ?case using assms(1) by simp
next
  case (Suc len)
  then have "table_inv (length prefix) (E \<union> edges_upto prefix m i len)
    (fold (root_step prefix i) [1..<Suc len] T)" by simp
  from root_step_inv [OF this assms(2)] Suc.prems show ?case by simp
qed

lemma edges_before_Suc:
  "edges_before prefix m (Suc i) =
     edges_before prefix m i \<union> edges_upto prefix m i (min m (length prefix - i))"
proof -
  have "length r \<le> min m (length prefix - i)" if "valid_edge prefix m i r e" for r e
    using valid_edge_root [OF that] by simp
  then show ?thesis
    by (auto simp: edges_before_def edges_upto_def less_Suc_eq)
qed

text \<open>The one-letter edges make every position reachable at cost four per letter.\<close>

lemma valid_edge_letter:
  assumes "i < length prefix" "m \<ge> 1"
  shows "valid_edge prefix m i [prefix ! i] 1"
  using assms by (simp add: valid_edge_def take_Suc_conv_app_nth [of 0] Cons_nth_drop_Suc [symmetric])

lemma table_cost_le_edge:
  assumes "table_inv n E T" "(i, root, e) \<in> E"
  shows "costs T ! (i + e * length root) \<le> costs T ! i + block_cost root e"
proof -
  have "entry_key T (i + e * length root) \<le> edge_key T (i, root, e)"
    using table_inv_edge(4) [OF assms] by (simp add: edge_target_def)
  then show ?thesis
    unfolding entry_key_def edge_key_def by (auto dest: choice_key_cost_le)
qed

lemma table_cost_le:
  assumes inv: "table_inv (length prefix) (edges_before prefix m k) T"
    and m: "m \<ge> 1" and j: "j \<le> k" "j \<le> length prefix"
  shows "costs T ! j \<le> 4 * j"
  using j
proof (induction j)
  case 0
  then show ?case using table_inv_shape [OF inv] by (simp add: table_shape_def)
next
  case (Suc j)
  then have "(j, [prefix ! j], 1) \<in> edges_before prefix m k"
    using valid_edge_letter [of j prefix m] m by (simp add: edges_before_def)
  from table_cost_le_edge [OF inv this] Suc show ?case by simp
qed

lemma position_step_inv:
  assumes inv: "table_inv (length prefix) (edges_before prefix m i) T"
    and m: "m \<ge> 1" and i: "i < length prefix" and size: "4 * length prefix < size_max"
  shows "table_inv (length prefix) (edges_before prefix m (Suc i)) (position_step prefix m i T)"
proof -
  have "costs T ! i \<noteq> size_max"
    using table_cost_le [OF inv m order_refl] i size by simp
  moreover have "x \<in> edges_before prefix m i \<Longrightarrow> fst x \<le> i" for x
    by (auto simp: edges_before_def)
  ultimately show ?thesis
    using root_steps_inv [OF inv, of i "min m (length prefix - i)"] i
    by (simp add: position_step_def edges_before_Suc Let_def)
qed

lemma factor_table_inv:
  assumes m: "m \<ge> 1" and size: "4 * length prefix < size_max"
  shows "table_inv (length prefix) (edges_before prefix m (length prefix)) (factor_table prefix m)"
proof -
  have "table_inv (length prefix) (edges_before prefix m k)
      (fold (position_step prefix m) [0..<k] (initial_table prefix))" if "k \<le> length prefix" for k
    using that
  proof (induction k)
    case 0
    have "edges_before prefix m 0 = {}" by (simp add: edges_before_def)
    then show ?case by (simp add: table_inv_initial)
  next
    case (Suc k)
    then show ?case using position_step_inv [OF _ m _ size] by simp
  qed
  then show ?thesis by (simp add: factor_table_def)
qed

section \<open>Cheapest factorisations\<close>

text \<open>
  The specification: a factorisation of a word into powers of short primitive words, and its cost.
\<close>

definition is_factorisation :: "nat \<Rightarrow> path_power list \<Rightarrow> path_word \<Rightarrow> bool" where
  "is_factorisation m ps w \<longleftrightarrow>
     (\<forall>p\<in>set ps. is_primitive_path_word (pp_root p) \<and> length (pp_root p) \<le> m \<and> pp_exponent p \<ge> 1) \<and>
     expand_path_powers ps = w"

definition factorisation_cost :: "path_power list \<Rightarrow> nat" where
  "factorisation_cost ps = sum_list (map (\<lambda>p. block_cost (pp_root p) (pp_exponent p)) ps)"

lemma factorisation_snoc:
  "is_factorisation m (ps @ [p]) w \<longleftrightarrow>
     is_primitive_path_word (pp_root p) \<and> length (pp_root p) \<le> m \<and> pp_exponent p \<ge> 1 \<and>
     (\<exists>v. is_factorisation m ps v \<and> w = v @ rep (pp_exponent p) (pp_root p))"
  by (auto simp: is_factorisation_def)

lemma factorisation_cost_simps [simp]:
  "factorisation_cost [] = 0"
  "factorisation_cost (ps @ qs) = factorisation_cost ps + factorisation_cost qs"
  "factorisation_cost [p] = block_cost (pp_root p) (pp_exponent p)"
  by (simp_all add: factorisation_cost_def)

lemma factor_table_lower_bound:
  assumes inv: "table_inv (length prefix) (edges_before prefix m (length prefix)) T"
    and fact: "is_factorisation m ps (take fin prefix)" and fin: "fin \<le> length prefix"
  shows "costs T ! fin \<le> factorisation_cost ps"
  using fact fin
proof (induction ps arbitrary: fin rule: rev_induct)
  case Nil
  then have "fin = 0 \<or> prefix = []" by (auto simp: is_factorisation_def)
  then show ?case using table_inv_shape [OF inv] Nil by (auto simp: table_shape_def)
next
  case (snoc p ps)
  let ?w = "rep (pp_exponent p) (pp_root p)"
  obtain v where v: "is_factorisation m ps v" "take fin prefix = v @ ?w"
    and p: "is_primitive_path_word (pp_root p)" "length (pp_root p) \<le> m" "pp_exponent p \<ge> 1"
    using snoc.prems(1) by (auto simp: factorisation_snoc)
  let ?i = "length v"
  have fin: "fin = ?i + pp_exponent p * length (pp_root p)"
    using arg_cong [OF v(2), of length] snoc.prems(2) by simp
  have take_i: "take ?i prefix = v"
    using arg_cong [OF v(2), of "take ?i"] fin by (simp add: min_absorb1)
  have "take (fin - ?i) (drop ?i prefix) = ?w"
    using arg_cong [OF v(2), of "drop ?i"] by (simp add: drop_take)
  then have edge: "valid_edge prefix m ?i (pp_root p) (pp_exponent p)"
    using p fin snoc.prems(2) by (simp add: valid_edge_def)
  then have "(?i, pp_root p, pp_exponent p) \<in> edges_before prefix m (length prefix)"
    using valid_edge_root(4) by (auto simp: edges_before_def)
  from table_cost_le_edge [OF inv this]
  have "costs T ! fin \<le> costs T ! ?i + block_cost (pp_root p) (pp_exponent p)"
    by (simp add: fin)
  moreover have "costs T ! ?i \<le> factorisation_cost ps"
    using snoc.IH [of ?i] v(1) take_i fin snoc.prems(2) by simp
  ultimately show ?case by simp
qed

text \<open>The factorisation an entry records, followed back to the start of the word.\<close>

lemma backtrack_loop_exact:
  assumes inv: "table_inv (length prefix) (edges_before prefix m (length prefix)) T"
    and m: "m \<ge> 1" and size: "4 * length prefix < size_max" and fin: "fin \<le> length prefix"
  shows "\<exists>ps. backtrack_loop T fin reversed = ps @ rev reversed \<and>
    is_factorisation m ps (take fin prefix) \<and> factorisation_cost ps = costs T ! fin"
  using inv fin
proof (induction T fin reversed rule: backtrack_loop.induct)
  case (1 T fin reversed)
  note inv = "1.prems"(1) and fin = "1.prems"(2)
  show ?case
  proof (cases "fin = 0")
    case True
    have "costs T ! 0 = 0" using table_inv_shape [OF inv] by (simp add: table_shape_def)
    then show ?thesis
      using True by (intro exI [of _ "[]"]) (simp add: backtrack_loop.simps [of T 0] is_factorisation_def)
  next
    case False
    have present: "present (choices T ! fin)"
      using table_inv_absent [OF inv fin] table_cost_le [OF inv m fin fin]
        size False fin by fastforce
    obtain i root e where c: "edge_of_choice (choices T ! fin) = (i, root, e)"
      by (cases "edge_of_choice (choices T ! fin)") auto
    note edge = table_inv_present [OF inv fin present, unfolded c]
    have v: "valid_edge prefix m i root e" using edge(1) by (simp add: edges_before_def)
    have i: "i < fin" using table_inv_edge(1) [OF inv edge(1)] edge(2) by simp
    have sel: "predecessor (choices T ! fin) = i" "choice_root (choices T ! fin) = root"
      "choice_exponent (choices T ! fin) = e"
      using c by (simp_all add: edge_of_choice_def)
    have e: "e \<noteq> 0" using v by (simp add: valid_edge_def)
    have step: "backtrack_loop T fin reversed = backtrack_loop T i (reversed @ [Power root e])"
      using False present i e by (simp add: backtrack_loop.simps [of T fin] Let_def sel)
    have "\<exists>ps. backtrack_loop T i (reversed @ [Power root e]) = ps @ rev (reversed @ [Power root e]) \<and>
        is_factorisation m ps (take i prefix) \<and> factorisation_cost ps = costs T ! i"
      using "1.IH" [OF False refl] present i e inv fin sel by simp
    then obtain ps where ps: "backtrack_loop T fin reversed = (ps @ [Power root e]) @ rev reversed"
        "is_factorisation m ps (take i prefix)" "factorisation_cost ps = costs T ! i"
      using step by auto
    have tgt: "fin = i + e * length root" using edge(2) by (simp add: edge_target_def)
    then have "take fin prefix = take i prefix @ rep e root"
      using v by (simp add: valid_edge_def take_add)
    then have "is_factorisation m (ps @ [Power root e]) (take fin prefix)"
      using ps(2) v by (simp add: factorisation_snoc valid_edge_def)
    moreover have "factorisation_cost (ps @ [Power root e]) = costs T ! fin"
      using ps(3) edge(3) by (simp add: edge_cost_def)
    ultimately show ?thesis using ps(1) by blast
  qed
qed

lemma backtrack_exact:
  assumes "m \<ge> 1" "4 * length prefix < size_max" "fin \<le> length prefix"
  shows "is_factorisation m (backtrack (factor_table prefix m) fin) (take fin prefix)"
    and "factorisation_cost (backtrack (factor_table prefix m) fin) = costs (factor_table prefix m) ! fin"
  using backtrack_loop_exact [OF factor_table_inv [OF assms(1,2)] assms, of "[]"]
  by (auto simp: backtrack_def)

lemma backtrack_minimal:
  assumes "m \<ge> 1" "4 * length prefix < size_max" "fin \<le> length prefix"
    and "is_factorisation m ps (take fin prefix)"
  shows "factorisation_cost (backtrack (factor_table prefix m) fin) \<le> factorisation_cost ps"
  using backtrack_exact(2) [OF assms(1-3)]
    factor_table_lower_bound [OF factor_table_inv [OF assms(1,2)] assms(4,3)] by simp

section \<open>Candidates\<close>

text \<open>The run at the end of the word is the largest one.\<close>

lemma suffix_run_spec:
  assumes "root \<noteq> []" "start \<le> length prefix"
  shows "\<exists>k s. suffix_run prefix root e start = (e + k, s) \<and> s + k * length root = start \<and>
    take (k * length root) (drop s prefix) = rep k root \<and>
    (\<forall>k' s'. s' + k' * length root = start \<and>
       take (k' * length root) (drop s' prefix) = rep k' root \<longrightarrow> k' \<le> k)"
  using assms
proof (induction prefix root e start rule: suffix_run.induct)
  case (1 prefix root e start)
  let ?l = "length root"
  show ?case
  proof (cases "start \<ge> ?l \<and> word_equal_at prefix (start - ?l) root")
    case True
    have "start - ?l \<le> length prefix" using "1.prems" by simp
    then obtain k s where ks: "suffix_run prefix root (e + 1) (start - ?l) = (e + 1 + k, s)"
      "s + k * ?l = start - ?l" "take (k * ?l) (drop s prefix) = rep k root"
      "\<And>k' s'. s' + k' * ?l = start - ?l \<Longrightarrow> take (k' * ?l) (drop s' prefix) = rep k' root \<Longrightarrow> k' \<le> k"
      using "1.IH" True "1.prems" by blast
    have at: "take ?l (drop (start - ?l) prefix) = root"
      using True by (simp add: word_equal_at_def split: if_splits)
    have s: "s + Suc k * ?l = start" using ks(2) conjunct1 [OF True] by simp
    have "drop (k * ?l) (drop s prefix) = drop (start - ?l) prefix"
      using ks(2) by (simp add: add.commute)
    then have "take (k * ?l + ?l) (drop s prefix) = rep k root @ root"
      using ks(3) at unfolding take_add by simp
    then have "take (Suc k * ?l) (drop s prefix) = rep k root @ root"
      by (simp add: add.commute)
    then have occ: "take (Suc k * ?l) (drop s prefix) = rep (Suc k) root"
      by (simp only: rep_Suc_end)
    have max: "k' \<le> Suc k"
      if k': "s' + k' * ?l = start" "take (k' * ?l) (drop s' prefix) = rep k' root" for k' s'
    proof (cases k')
      case (Suc k'')
      have "take (k'' * ?l) (take (k' * ?l) (drop s' prefix)) = take (k'' * ?l) (rep (Suc k'') root)"
        using k'(2) Suc by simp
      then have "take (k'' * ?l) (drop s' prefix) = rep k'' root"
        by (simp add: Suc rep_Suc_end min_absorb1 del: rep_Suc)
      moreover have "s' + k'' * ?l = start - ?l" using k'(1) Suc by simp
      ultimately show ?thesis using ks(4) Suc by blast
    qed simp
    have "suffix_run prefix root e start = (e + Suc k, s)"
      using True "1.prems" ks(1) by (simp add: suffix_run.simps [of prefix root e start])
    then show ?thesis using s occ max by blast
  next
    case False
    have "k' = 0" if k': "s' + k' * ?l = start" "take (k' * ?l) (drop s' prefix) = rep k' root" for k' s'
    proof (rule ccontr)
      assume "k' \<noteq> 0"
      then obtain k'' where Suc: "k' = Suc k''" by (cases k') auto
      have "drop (k'' * ?l) (take (k' * ?l) (drop s' prefix)) = drop (k'' * ?l) (rep (Suc k'') root)"
        using k'(2) Suc by simp
      then have "take ?l (drop (s' + k'' * ?l) prefix) = root"
        by (simp add: Suc rep_Suc_end drop_take algebra_simps del: rep_Suc)
      moreover have "s' + k'' * ?l = start - ?l" using k'(1) Suc by simp
      ultimately have "take ?l (drop (start - ?l) prefix) = root" by simp
      moreover have "start \<ge> ?l" using k'(1) Suc by simp
      ultimately show False using False "1.prems" by (simp add: word_equal_at_def)
    qed
    then show ?thesis
      using False by (intro exI [of _ 0] exI [of _ start]) (auto simp: suffix_run.simps [of prefix root e start])
  qed
qed

text \<open>
  What a candidate is: the closed part is a factorisation, the starred word is a short primitive
  word, together they spell the prefix, the run of the starred word is the whole run at the end,
  and the score is the sum of the costs of the two parts.
\<close>

definition exact_schema :: "nat \<Rightarrow> path_word \<Rightarrow> path_schema \<Rightarrow> bool" where
  "exact_schema m prefix c \<longleftrightarrow>
     is_factorisation m (closed_prefix c) (expand_path_powers (closed_prefix c)) \<and>
     is_primitive_path_word (star c) \<and> length (star c) \<le> m \<and>
     observed_star_exponent c \<ge> 1 \<and>
     prefix = expand_path_powers (closed_prefix c) @ rep (observed_star_exponent c) (star c) \<and>
     (\<forall>u k. prefix = u @ rep k (star c) \<longrightarrow> k \<le> observed_star_exponent c) \<and>
     score c = factorisation_cost (closed_prefix c) + star_weight + length (star c) +
       exponent_weight * exponent_bits (observed_star_exponent c)"

lemma suffix_run_whole:
  assumes "root \<noteq> []" "drop (length prefix - length root) prefix = root" "length root \<le> length prefix"
  shows "\<exists>k s. suffix_run prefix root 0 (length prefix) = (k, s) \<and> 1 \<le> k \<and> s \<le> length prefix \<and>
    prefix = take s prefix @ rep k root \<and> (\<forall>u k'. prefix = u @ rep k' root \<longrightarrow> k' \<le> k)"
proof -
  obtain k s where ks: "suffix_run prefix root 0 (length prefix) = (k, s)"
    "s + k * length root = length prefix" "take (k * length root) (drop s prefix) = rep k root"
    and max: "\<And>k' s'. s' + k' * length root = length prefix \<Longrightarrow>
      take (k' * length root) (drop s' prefix) = rep k' root \<Longrightarrow> k' \<le> k"
    using suffix_run_spec [OF assms(1) order_refl, of prefix 0] unfolding add_0 by blast
  have mx: "k' \<le> k" if "prefix = u @ rep k' root" for u k'
    using max [of "length u" k'] that by simp
  have "prefix = take (length prefix - length root) prefix @ rep 1 root"
    using assms(2) by (metis append_take_drop_id rep_1)
  then have "1 \<le> k" by (rule mx)
  moreover have "prefix = take s prefix @ rep k root"
  proof -
    have "k * length root = length (drop s prefix)" using ks(2) by simp
    then have "drop s prefix = rep k root" using ks(3) by simp
    then show ?thesis by (metis append_take_drop_id)
  qed
  ultimately show ?thesis using ks(1,2) mx by (intro exI [of _ k] exI [of _ s]) auto
qed

lemma candidate_for_spec:
  assumes m: "m \<ge> 1" and size: "4 * length prefix < size_max"
    and len: "1 \<le> len" "len \<le> m" "len \<le> length prefix"
  shows "candidate_for (factor_table prefix m) prefix thr len = None \<longleftrightarrow>
      \<not> is_primitive_path_word (drop (length prefix - len) prefix) \<or>
      \<not> (\<exists>u. \<exists>k\<ge>thr. prefix = u @ rep k (drop (length prefix - len) prefix))"
    and "candidate_for (factor_table prefix m) prefix thr len = Some c \<Longrightarrow>
      exact_schema m prefix c \<and> star c = drop (length prefix - len) prefix \<and>
      observed_star_exponent c \<ge> thr \<and>
      (\<forall>ps. is_factorisation m ps (expand_path_powers (closed_prefix c)) \<longrightarrow>
        factorisation_cost (closed_prefix c) \<le> factorisation_cost ps)"
proof -
  let ?T = "factor_table prefix m"
  define root where "root = drop (length prefix - len) prefix"
  have lr: "length root = len" using len by (simp add: root_def)
  have ne: "root \<noteq> []" using lr len by auto
  have at: "drop (length prefix - length root) prefix = root" using lr by (simp add: root_def)
  obtain k s where ks: "suffix_run prefix root 0 (length prefix) = (k, s)" "1 \<le> k"
      "s \<le> length prefix" "prefix = take s prefix @ rep k root"
      and max: "\<And>u k'. prefix = u @ rep k' root \<Longrightarrow> k' \<le> k"
    using suffix_run_whole [OF ne at] lr len by auto
  note bt = backtrack_exact [OF m size ks(3)]
  have "expand_path_powers (backtrack ?T s) = take s prefix"
    using bt(1) by (simp add: is_factorisation_def)
  then have closed: "\<not> (s \<noteq> 0 \<and> backtrack ?T s = [])" using ks(3) ne lr len by auto
  let ?c = "Schema (backtrack ?T s) root k (costs ?T ! s + star_weight + len +
      exponent_weight * exponent_bits k)"
  have eq: "candidate_for ?T prefix thr len =
      (if \<not> is_primitive_path_word root \<or> k < thr then None else Some ?c)"
    using closed ks(1) by (auto simp: candidate_for_def Let_def simp flip: root_def)
  have "k < thr \<longleftrightarrow> \<not> (\<exists>u. \<exists>k'\<ge>thr. prefix = u @ rep k' root)"
    using max ks(4) by (metis le_less_trans not_le)
  then show "candidate_for ?T prefix thr len = None \<longleftrightarrow>
      \<not> is_primitive_path_word (drop (length prefix - len) prefix) \<or>
      \<not> (\<exists>u. \<exists>k\<ge>thr. prefix = u @ rep k (drop (length prefix - len) prefix))"
    unfolding root_def [symmetric] by (simp add: eq)
  assume "candidate_for ?T prefix thr len = Some c"
  then have c: "c = ?c" "is_primitive_path_word root" "k \<ge> thr"
    by (auto simp: eq split: if_splits)
  have ex: "expand_path_powers (closed_prefix c) = take s prefix" using bt(1) by (simp add: c is_factorisation_def)
  have "exact_schema m prefix c"
    unfolding exact_schema_def ex using bt c ks(2,4) max len lr by simp
  then show "exact_schema m prefix c \<and> star c = drop (length prefix - len) prefix \<and>
      observed_star_exponent c \<ge> thr \<and>
      (\<forall>ps. is_factorisation m ps (expand_path_powers (closed_prefix c)) \<longrightarrow>
        factorisation_cost (closed_prefix c) \<le> factorisation_cost ps)"
    unfolding ex using c backtrack_minimal [OF m size ks(3)] by (simp add: root_def)
qed

section \<open>The list of candidates\<close>

lemma set_candidates_at:
  "set (candidates_at prefix m thr) =
     {c. \<exists>len. 1 \<le> len \<and> len \<le> m \<and> len \<le> length prefix \<and>
        candidate_for (factor_table prefix m) prefix thr len = Some c}"
  by (auto simp: candidates_at_def Let_def List.map_filter_def simp del: upt_Suc) force

lemma candidates_at_exact:
  assumes "m \<ge> 1" "4 * length prefix < size_max" "c \<in> set (candidates_at prefix m thr)"
  shows "exact_schema m prefix c" "observed_star_exponent c \<ge> thr"
proof -
  obtain len where len: "1 \<le> len" "len \<le> m" "len \<le> length prefix"
    "candidate_for (factor_table prefix m) prefix thr len = Some c"
    using assms(3) unfolding set_candidates_at by blast
  from candidate_for_spec(2) [OF assms(1,2) len]
  show "exact_schema m prefix c" "observed_star_exponent c \<ge> thr" by blast+
qed

lemma candidates_at_complete:
  assumes m: "m \<ge> 1" "4 * length prefix < size_max"
    and c: "exact_schema m prefix c" "observed_star_exponent c \<ge> thr"
  shows "\<exists>d\<in>set (candidates_at prefix m thr). star d = star c \<and>
    observed_star_exponent d = observed_star_exponent c \<and> score d \<le> score c"
proof -
  let ?len = "length (star c)"
  note ex = c(1) [unfolded exact_schema_def]
  obtain k where k: "observed_star_exponent c = Suc k"
    using ex by (cases "observed_star_exponent c") auto
  have p: "prefix = (expand_path_powers (closed_prefix c) @ rep k (star c)) @ star c"
    using ex k by (simp add: rep_comm)
  have len: "1 \<le> ?len" "?len \<le> m" "?len \<le> length prefix"
    using ex primitive_nonempty [of "star c"] arg_cong [OF p, of length]
    by (simp_all add: Suc_leI)
  have "drop (length prefix - ?len) prefix = star c"
    by (subst (2) p) (simp add: arg_cong [OF p, of length])
  note star = this
  have "candidate_for (factor_table prefix m) prefix thr ?len \<noteq> None"
    unfolding candidate_for_spec(1) [OF m len] star using ex c(2) by blast
  then obtain d where d: "candidate_for (factor_table prefix m) prefix thr ?len = Some d" by blast
  note spec = candidate_for_spec(2) [OF m len d, unfolded star]
  note ed = conjunct1 [OF spec, unfolded exact_schema_def]
  have "observed_star_exponent d = observed_star_exponent c"
    using ex ed spec by (metis order_antisym)
  moreover from this have "expand_path_powers (closed_prefix d) = expand_path_powers (closed_prefix c)"
    using ex ed spec by (metis append_same_eq)
  then have "factorisation_cost (closed_prefix d) \<le> factorisation_cost (closed_prefix c)"
    using spec ex by metis
  ultimately have "score d \<le> score c" using ex ed spec by simp
  moreover have "d \<in> set (candidates_at prefix m thr)"
    unfolding set_candidates_at using len d by blast
  ultimately show ?thesis using spec \<open>observed_star_exponent d = _\<close> by blast
qed

lemma candidates_at_one_nonempty:
  assumes "m \<ge> 1" "4 * length prefix < size_max" "prefix \<noteq> []"
  shows "candidates_at prefix m 1 \<noteq> []"
proof -
  have len: "1 \<le> (1::nat)" "1 \<le> length prefix" using assms(3) by (auto simp: Suc_leI)
  have l: "drop (length prefix - 1) prefix = [last prefix]"
    using assms(3) by (metis append_butlast_last_id append_eq_conv_conj length_butlast)
  have "prefix = butlast prefix @ rep 1 [last prefix]" using assms(3) by simp
  then have "\<exists>u. \<exists>k\<ge>1. prefix = u @ rep k [last prefix]" by blast
  then have "candidate_for (factor_table prefix m) prefix 1 1 \<noteq> None"
    unfolding candidate_for_spec(1) [OF assms(1,2) len(1) assms(1) len(2)] l by simp
  then show ?thesis
    using assms(1) len(2) set_candidates_at [of prefix m 1] by fastforce
qed

lemma compress_unfold:
  assumes "prefix \<noteq> []" "m \<noteq> 0" "beam \<noteq> 0"
  shows "compress_path_prefix prefix m beam thr =
    (let used = (if candidates_at prefix m (max thr 1) = [] then 1 else max thr 1)
     in take beam (remdups_adj (sort_key candidate_key (candidates_at prefix m used))))"
proof (cases "candidates_at prefix m (max thr 1) = [] \<and> max thr 1 > 1")
  case True
  then show ?thesis
    using assms by (subst compress_path_prefix.simps, subst compress_path_prefix.simps) (simp add: Let_def)
next
  case False
  then show ?thesis
    using assms by (subst compress_path_prefix.simps) (auto simp: Let_def max_def split: if_splits)
qed

lemma compress_empty [simp]:
  "compress_path_prefix [] m beam thr = []" "compress_path_prefix prefix 0 beam thr = []"
  "compress_path_prefix prefix m 0 thr = []"
  by (simp_all add: compress_path_prefix.simps)

lemma exact_exponent_le:
  assumes "exact_schema m prefix c"
  shows "observed_star_exponent c \<le> length prefix"
proof -
  note ex = assms [unfolded exact_schema_def]
  have "star c \<noteq> []" using ex primitive_nonempty by blast
  then have "observed_star_exponent c \<le> observed_star_exponent c * length (star c)"
    by (cases "star c") simp_all
  also have "\<dots> \<le> length prefix" using ex by (metis le_add2 length_append length_rep)
  finally show ?thesis .
qed

lemma candidate_key_inject:
  assumes "candidate_key c = candidate_key d"
    and "observed_star_exponent c \<le> size_max" "observed_star_exponent d \<le> size_max"
  shows "c = d"
  using assms by (intro path_schema.expand) (auto simp: candidate_key_def)

lemma sort_unique_strict:
  assumes "\<And>x y. x \<in> set xs \<Longrightarrow> y \<in> set xs \<Longrightarrow> f x = f y \<Longrightarrow> x = y"
  shows "sorted_wrt (\<lambda>x y. f x < f y) (remdups_adj (sort_key f xs))"
proof -
  have "sorted_wrt (\<lambda>x y. f x < f y) (remdups_adj ys)"
    if "sorted (map f ys)" "inj_on f (set ys)" for ys
    using that
  proof (induction ys rule: remdups_adj.induct)
    case (3 x y ys)
    show ?case
    proof (cases "x = y")
      case True
      then show ?thesis using 3 by simp
    next
      case False
      have xy: "f x < f y"
        using 3(3,4) False by (simp add: inj_on_def less_le)
      have "f x < f z" if z: "z \<in> set (y # ys)" for z
        using xy 3(3) z by (auto intro: less_le_trans)
      moreover have "sorted_wrt (\<lambda>x y. f x < f y) (remdups_adj (y # ys))"
        using 3(2) [OF False] 3(3,4) by (simp add: inj_on_def)
      ultimately show ?thesis using False by simp
    qed
  qed simp_all
  then show ?thesis using assms by (simp add: inj_on_def)
qed

lemma compress_result:
  assumes m: "m \<ge> 1" "4 * length prefix < size_max" and ne: "prefix \<noteq> []" "beam \<ge> 1"
  obtains used where "used = max thr 1 \<or> used = 1 \<and> candidates_at prefix m (max thr 1) = []"
    "candidates_at prefix m used \<noteq> []"
    "compress_path_prefix prefix m beam thr =
       take beam (remdups_adj (sort_key candidate_key (candidates_at prefix m used)))"
proof -
  define used where "used = (if candidates_at prefix m (max thr 1) = [] then 1 else max thr 1)"
  have "compress_path_prefix prefix m beam thr =
       take beam (remdups_adj (sort_key candidate_key (candidates_at prefix m used)))"
    using compress_unfold [of prefix m beam thr] assms by (simp add: used_def Let_def)
  moreover have "candidates_at prefix m used \<noteq> []"
    using candidates_at_one_nonempty [OF m ne(1)] by (simp add: used_def)
  moreover have "used = max thr 1 \<or> used = 1 \<and> candidates_at prefix m (max thr 1) = []"
    by (simp add: used_def)
  ultimately show ?thesis using that by blast
qed

lemma candidates_sorted_strict:
  assumes m: "m \<ge> 1" "4 * length prefix < size_max"
  shows "sorted_wrt (\<lambda>c d. candidate_key c < candidate_key d)
    (remdups_adj (sort_key candidate_key (candidates_at prefix m used)))"
proof (rule sort_unique_strict)
  fix c d assume cd: "c \<in> set (candidates_at prefix m used)" "d \<in> set (candidates_at prefix m used)"
    and key: "candidate_key c = candidate_key d"
  have "observed_star_exponent x \<le> size_max" if "x \<in> set (candidates_at prefix m used)" for x
    using exact_exponent_le [OF candidates_at_exact(1) [OF m that]] m(2) by simp
  then show "c = d" using candidate_key_inject [OF key] cd by blast
qed

lemma compress_nonempty:
  assumes "m \<ge> 1" "4 * length prefix < size_max" "prefix \<noteq> []" "beam \<ge> 1"
  shows "compress_path_prefix prefix m beam thr \<noteq> []"
proof -
  obtain used where used: "candidates_at prefix m used \<noteq> []"
    "compress_path_prefix prefix m beam thr =
       take beam (remdups_adj (sort_key candidate_key (candidates_at prefix m used)))"
    using compress_result [OF assms] by blast
  have "remdups_adj (sort_key candidate_key (candidates_at prefix m used)) \<noteq> []"
    using used(1) by (metis remdups_adj_set set_empty set_sort)
  then show ?thesis using assms(4) by (simp add: used(2))
qed

section \<open>Properties\<close>

text \<open>The primitivity test of the compressor decides the algebraic notion: a word is accepted
  exactly when it is nonempty and not a proper power of another word.\<close>

theorem primitive_path_word_correct:
  "is_primitive_path_word w \<longleftrightarrow> w \<noteq> [] \<and> \<not> (\<exists>r k. k \<ge> 2 \<and> w = rep k r)"
  using is_primitive_iff by blast

text \<open>C25: every entry of the factorisation table is exact.  Reading the entry of a position back
  gives a factorisation of the prefix up to that position into powers of primitive words of at
  most the allowed length, its cost is the entry, and no factorisation is cheaper.\<close>

theorem factor_table_optimal:
  assumes "m \<ge> 1" "4 * length prefix < size_max" "fin \<le> length prefix"
  shows "is_factorisation m (backtrack (factor_table prefix m) fin) (take fin prefix) \<and>
    factorisation_cost (backtrack (factor_table prefix m) fin) = costs (factor_table prefix m) ! fin \<and>
    (\<forall>ps. is_factorisation m ps (take fin prefix) \<longrightarrow>
       costs (factor_table prefix m) ! fin \<le> factorisation_cost ps)"
  using backtrack_exact [OF assms] backtrack_minimal [OF assms] by auto

theorem factor_table_optimal_witness:
  "costs (factor_table [1, 2, 1, 2, 3] 2) ! 4 \<le> factorisation_cost [Power [1, 2] 2]"
proof -
  have "is_factorisation 2 [Power [1, 2] 2] (take 4 [1, 2, 1, 2, 3])"
    by (simp add: is_factorisation_def expand_eq_concat is_primitive_path_word_def has_period_def
        numeral_2_eq_2)
  then show ?thesis
    using factor_table_optimal [of 2 "[1, 2, 1, 2, 3]" 4]
    by (simp add: size_max_def del: factorisation_cost_simps)
qed

text \<open>C38: every candidate the compressor returns is an exact description of the observed prefix:
  its closed part is a factorisation into powers of short primitive words, its starred word is
  short and primitive, together they spell the prefix with the largest possible run of the starred
  word, and its score is the cost of the two parts.  Unless no description has the demanded
  evidence, the run of every candidate has it.\<close>

theorem compress_candidates_exact:
  assumes "m \<ge> 1" "4 * length prefix < size_max" "c \<in> set (compress_path_prefix prefix m beam thr)"
  shows "exact_schema m prefix c \<and>
    (observed_star_exponent c \<ge> thr \<or>
     \<not> (\<exists>d. exact_schema m prefix d \<and> observed_star_exponent d \<ge> thr))"
proof -
  have ne: "prefix \<noteq> []" "beam \<ge> 1" using assms(3) by (auto simp: Suc_le_eq intro: gr0I)
  obtain used where used: "used = max thr 1 \<or> used = 1 \<and> candidates_at prefix m (max thr 1) = []"
    "compress_path_prefix prefix m beam thr =
       take beam (remdups_adj (sort_key candidate_key (candidates_at prefix m used)))"
    using compress_result [OF assms(1,2) ne] by blast
  have c: "c \<in> set (candidates_at prefix m used)"
    using assms(3) set_take_subset unfolding used(2) by fastforce
  note exact = candidates_at_exact [OF assms(1,2) c]
  show ?thesis
  proof (cases "used = max thr 1")
    case True
    then show ?thesis using exact by simp
  next
    case False
    then have none: "candidates_at prefix m (max thr 1) = []" using used(1) by blast
    have "\<not> observed_star_exponent d \<ge> thr" if d: "exact_schema m prefix d" for d
    proof
      assume "observed_star_exponent d \<ge> thr"
      then have "observed_star_exponent d \<ge> max thr 1" using d by (simp add: exact_schema_def)
      from candidates_at_complete [OF assms(1,2) d this] none show False by auto
    qed
    then show ?thesis using exact(1) by blast
  qed
qed

theorem compress_candidates_exact_witness:
  "exact_schema 2 [1, 2, 1, 2] (hd (compress_path_prefix [1, 2, 1, 2] 2 1 2))"
proof -
  let ?r = "compress_path_prefix [1, 2, 1, 2] 2 1 2"
  have ne: "?r \<noteq> []"
    by (rule compress_nonempty) (simp_all add: size_max_def)
  show ?thesis
    using compress_candidates_exact [of 2 "[1, 2, 1, 2]" "hd ?r" 1 2] hd_in_set [OF ne]
    by (simp add: size_max_def)
qed

text \<open>The list of candidates is nonempty, has at most the beam's length, is strictly sorted by
  the candidate order, and starts with a candidate whose score no exact description with the
  demanded evidence undercuts.\<close>

theorem compress_ranked:
  assumes "m \<ge> 1" "4 * length prefix < size_max" "prefix \<noteq> []" "beam \<ge> 1"
  shows "compress_path_prefix prefix m beam thr \<noteq> [] \<and>
    length (compress_path_prefix prefix m beam thr) \<le> beam \<and>
    sorted_wrt (\<lambda>c d. candidate_key c < candidate_key d) (compress_path_prefix prefix m beam thr) \<and>
    (\<forall>d. exact_schema m prefix d \<and> observed_star_exponent d \<ge> thr \<longrightarrow>
       score (hd (compress_path_prefix prefix m beam thr)) \<le> score d)"
proof -
  obtain used where used: "used = max thr 1 \<or> used = 1 \<and> candidates_at prefix m (max thr 1) = []"
    "candidates_at prefix m used \<noteq> []"
    "compress_path_prefix prefix m beam thr =
       take beam (remdups_adj (sort_key candidate_key (candidates_at prefix m used)))"
    using compress_result [OF assms] by blast
  let ?all = "remdups_adj (sort_key candidate_key (candidates_at prefix m used))"
  note strict = candidates_sorted_strict [OF assms(1,2), of used]
  have ne: "?all \<noteq> []" using used(2) by (metis remdups_adj_set set_empty set_sort)
  have "sorted_wrt (\<lambda>c d. candidate_key c < candidate_key d) (take beam ?all)"
    using strict by (rule sorted_wrt_take)
  moreover have "score (hd (take beam ?all)) \<le> score d"
    if d: "exact_schema m prefix d" "observed_star_exponent d \<ge> thr" for d
  proof -
    have d1: "observed_star_exponent d \<ge> max thr 1" using d by (simp add: exact_schema_def)
    then have "used = max thr 1"
      using used(1) candidates_at_complete [OF assms(1,2) d(1), of "max thr 1"] by auto
    with d1 obtain e where e: "e \<in> set ?all" "score e \<le> score d"
      using candidates_at_complete [OF assms(1,2) d(1), of used] by auto
    have "candidate_key (hd ?all) \<le> candidate_key e"
      using strict e(1) ne by (cases ?all) auto
    then have "score (hd ?all) \<le> score e" by (auto simp: candidate_key_def less_eq_prod_simp)
    moreover have "hd (take beam ?all) = hd ?all" using assms(4) by (cases ?all; cases beam) auto
    ultimately show ?thesis using e(2) by simp
  qed
  ultimately show ?thesis using ne assms(4) by (auto simp: used(3))
qed

theorem compress_ranked_witness:
  "compress_path_prefix [1, 2, 1, 2] 2 3 2 \<noteq> []"
  using compress_ranked [of 2 "[1, 2, 1, 2]" 3 2] by (simp add: size_max_def)

end
