(* ===== verification/Z3_Term.thy ===== *)
theory Z3_Term
  imports Prelude
begin

unbundle bit_operations_syntax

text \<open>
  The solver terms the program builds.  The terms are the data the C++ code constructs through
  the public operators of the solver's interface; their meaning is the SMT-LIB one.  The solver
  itself (its simplifier, its satisfiability check, its models, its printer) is not part of the
  repository: it is a record of functions that the definitions take as a parameter, and the
  documented behaviour the code relies on is the predicate \<open>z3_ok\<close>.
\<close>

section \<open>Sorts, operators and terms\<close>

datatype z3sort = BoolSort | IntSort | BvSort nat

datatype z3op =
    ONum int | OTrue | OFalse | OBvNum int nat
  | OUninterp string z3sort
  | OAdd | OSub | OUMinus | OMul | OIDiv | OMod | ORem
  | OLe | OLt | OGe | OGt | OEq | ODistinct | OIte
  | OAnd | OOr | ONot | OImplies | OXor
  | OInt2Bv nat | OBv2Int | OBAdd nat | OBMul nat | OBAnd nat | OBOr nat | OBXor nat
  | OBShl nat | OBLshr nat | OBAshr nat | OBSub nat | OBSDiv nat | OBSRem nat

text \<open>A quantifier binds integer constants by name; the flag tells \<open>forall\<close> from \<open>exists\<close>.\<close>

datatype z3expr = App z3op "z3expr list" | Quant bool "string list" z3expr

text \<open>The operators of the C++ interface.\<close>

abbreviation z_int :: "int \<Rightarrow> z3expr" where "z_int n \<equiv> App (ONum n) []"
abbreviation z_true :: z3expr where "z_true \<equiv> App OTrue []"
abbreviation z_false :: z3expr where "z_false \<equiv> App OFalse []"
abbreviation z_const :: "string \<Rightarrow> z3sort \<Rightarrow> z3expr" where "z_const x s \<equiv> App (OUninterp x s) []"
abbreviation z_int_const :: "string \<Rightarrow> z3expr" where "z_int_const x \<equiv> z_const x IntSort"
abbreviation z_add where "z_add a b \<equiv> App OAdd [a, b]"
abbreviation z_sub where "z_sub a b \<equiv> App OSub [a, b]"
abbreviation z_mul where "z_mul a b \<equiv> App OMul [a, b]"
abbreviation z_div where "z_div a b \<equiv> App OIDiv [a, b]"
abbreviation z_mod where "z_mod a b \<equiv> App OMod [a, b]"
abbreviation z_neg where "z_neg a \<equiv> App OUMinus [a]"
abbreviation z_le where "z_le a b \<equiv> App OLe [a, b]"
abbreviation z_lt where "z_lt a b \<equiv> App OLt [a, b]"
abbreviation z_ge where "z_ge a b \<equiv> App OGe [a, b]"
abbreviation z_gt where "z_gt a b \<equiv> App OGt [a, b]"
abbreviation z_eq where "z_eq a b \<equiv> App OEq [a, b]"
abbreviation z_ne where "z_ne a b \<equiv> App ODistinct [a, b]"
abbreviation z_ite where "z_ite c a b \<equiv> App OIte [c, a, b]"
abbreviation z_and where "z_and a b \<equiv> App OAnd [a, b]"
abbreviation z_or where "z_or a b \<equiv> App OOr [a, b]"
abbreviation z_not where "z_not a \<equiv> App ONot [a]"
abbreviation z_implies where "z_implies a b \<equiv> App OImplies [a, b]"
abbreviation z_xor where "z_xor a b \<equiv> App OXor [a, b]"

text \<open>\<open>z3::mk_and\<close> and \<open>z3::mk_or\<close> on a vector.\<close>

abbreviation mk_and :: "z3expr list \<Rightarrow> z3expr" where "mk_and es \<equiv> App OAnd es"
abbreviation mk_or :: "z3expr list \<Rightarrow> z3expr" where "mk_or es \<equiv> App OOr es"

fun sort_of :: "z3expr \<Rightarrow> z3sort" where
  "sort_of (App f es) =
     (case f of
        OUninterp _ s \<Rightarrow> s
      | OBvNum _ w \<Rightarrow> BvSort w | OInt2Bv w \<Rightarrow> BvSort w
      | OBAdd w \<Rightarrow> BvSort w | OBMul w \<Rightarrow> BvSort w
      | OBAnd w \<Rightarrow> BvSort w | OBOr w \<Rightarrow> BvSort w | OBXor w \<Rightarrow> BvSort w
      | OBShl w \<Rightarrow> BvSort w | OBLshr w \<Rightarrow> BvSort w | OBAshr w \<Rightarrow> BvSort w
      | OBSub w \<Rightarrow> BvSort w | OBSDiv w \<Rightarrow> BvSort w | OBSRem w \<Rightarrow> BvSort w
      | OIte \<Rightarrow> (case es of [_, a, _] \<Rightarrow> sort_of a | _ \<Rightarrow> IntSort)
      | OTrue \<Rightarrow> BoolSort | OFalse \<Rightarrow> BoolSort
      | OLe \<Rightarrow> BoolSort | OLt \<Rightarrow> BoolSort | OGe \<Rightarrow> BoolSort | OGt \<Rightarrow> BoolSort
      | OEq \<Rightarrow> BoolSort | ODistinct \<Rightarrow> BoolSort
      | OAnd \<Rightarrow> BoolSort | OOr \<Rightarrow> BoolSort | ONot \<Rightarrow> BoolSort
      | OImplies \<Rightarrow> BoolSort | OXor \<Rightarrow> BoolSort
      | _ \<Rightarrow> IntSort)"
| "sort_of (Quant _ _ _) = BoolSort"

definition is_bool :: "z3expr \<Rightarrow> bool" where "is_bool e = (sort_of e = BoolSort)"
definition is_int :: "z3expr \<Rightarrow> bool" where "is_int e = (sort_of e = IntSort)"

fun is_app :: "z3expr \<Rightarrow> bool" where
  "is_app (App _ _) = True" | "is_app (Quant _ _ _) = False"

text \<open>\<open>expr::is_const\<close>: an application without arguments, interpreted or not.\<close>

fun is_const :: "z3expr \<Rightarrow> bool" where
  "is_const (App _ es) = (es = [])" | "is_const (Quant _ _ _) = False"

fun is_numeral :: "z3expr \<Rightarrow> bool" where
  "is_numeral (App (ONum _) []) = True"
| "is_numeral (App (OBvNum _ _) []) = True"
| "is_numeral _ = False"

fun args :: "z3expr \<Rightarrow> z3expr list" where
  "args (App _ es) = es" | "args (Quant _ _ _) = []"

fun has_kind :: "z3op \<Rightarrow> z3expr \<Rightarrow> bool" where
  "has_kind f (App g _) = (f = g)" | "has_kind f (Quant _ _ _) = False"

fun is_uninterpreted :: "z3expr \<Rightarrow> bool" where
  "is_uninterpreted (App (OUninterp _ _) _) = True" | "is_uninterpreted _ = False"

section \<open>Meaning\<close>

datatype z3val = VBool bool | VInt int | VBv nat int

type_synonym interp = "string \<Rightarrow> z3val list \<Rightarrow> z3val"

primrec int_of :: "z3val \<Rightarrow> int" where
  "int_of (VBool b) = of_bool b" | "int_of (VInt i) = i" | "int_of (VBv w i) = i"

primrec bool_of :: "z3val \<Rightarrow> bool" where
  "bool_of (VBool b) = b" | "bool_of (VInt i) = (i \<noteq> 0)" | "bool_of (VBv w i) = (i \<noteq> 0)"

primrec val_sort :: "z3val \<Rightarrow> z3sort" where
  "val_sort (VBool b) = BoolSort" | "val_sort (VInt i) = IntSort" | "val_sort (VBv w i) = BvSort w"

primrec coerce :: "z3sort \<Rightarrow> z3val \<Rightarrow> z3val" where
  "coerce BoolSort v = VBool (bool_of v)"
| "coerce IntSort v = VInt (int_of v)"
| "coerce (BvSort w) v = VBv w (int_of v mod 2 ^ w)"

text \<open>Division and remainder of SMT-LIB: the remainder is never negative.\<close>

definition smt_div :: "int \<Rightarrow> int \<Rightarrow> int" where
  "smt_div a b = (if b > 0 then a div b else - (a div (- b)))"

definition smt_mod :: "int \<Rightarrow> int \<Rightarrow> int" where
  "smt_mod a b = a mod \<bar>b\<bar>"

text \<open>The two's-complement reading of a residue.\<close>

definition signed_of :: "nat \<Rightarrow> int \<Rightarrow> int" where
  "signed_of w i = (let r = i mod 2 ^ w in if r \<ge> 2 ^ (w - 1) then r - 2 ^ w else r)"

fun distinct_vals :: "z3val list \<Rightarrow> bool" where
  "distinct_vals [] = True"
| "distinct_vals (v # vs) = (v \<notin> set vs \<and> distinct_vals vs)"

fun bin_int :: "(int \<Rightarrow> int \<Rightarrow> int) \<Rightarrow> z3val list \<Rightarrow> int" where
  "bin_int f [a, b] = f (int_of a) (int_of b)" | "bin_int f _ = 0"

fun bin_pred :: "(int \<Rightarrow> int \<Rightarrow> bool) \<Rightarrow> z3val list \<Rightarrow> bool" where
  "bin_pred f [a, b] = f (int_of a) (int_of b)" | "bin_pred f _ = False"

definition bv_result :: "nat \<Rightarrow> int \<Rightarrow> z3val" where
  "bv_result w i = VBv w (i mod 2 ^ w)"

text \<open>
  The value of one application.  Division and remainder by zero are uninterpreted, as in SMT-LIB;
  a conditional has the sort of its first branch.
\<close>

fun apply_op :: "interp \<Rightarrow> z3op \<Rightarrow> z3val list \<Rightarrow> z3val" where
  "apply_op I (ONum n) vs = VInt n"
| "apply_op I OTrue vs = VBool True"
| "apply_op I OFalse vs = VBool False"
| "apply_op I (OBvNum n w) vs = bv_result w n"
| "apply_op I (OUninterp x s) vs = coerce s (I x vs)"
| "apply_op I OAdd vs = VInt (sum_list (map int_of vs))"
| "apply_op I OSub vs = VInt (case vs of [] \<Rightarrow> 0 | v # r \<Rightarrow> foldl (-) (int_of v) (map int_of r))"
| "apply_op I OUMinus vs = VInt (case vs of [v] \<Rightarrow> - int_of v | _ \<Rightarrow> 0)"
| "apply_op I OMul vs = VInt (prod_list (map int_of vs))"
| "apply_op I OIDiv vs = VInt (bin_int (\<lambda>a b. if b = 0 then int_of (I ''div0'' [VInt a]) else smt_div a b) vs)"
| "apply_op I OMod vs = VInt (bin_int (\<lambda>a b. if b = 0 then int_of (I ''mod0'' [VInt a]) else smt_mod a b) vs)"
| "apply_op I ORem vs = VInt (bin_int (\<lambda>a b. if b = 0 then int_of (I ''rem0'' [VInt a])
     else if b > 0 then smt_mod a b else - smt_mod a b) vs)"
| "apply_op I OLe vs = VBool (bin_pred (\<le>) vs)"
| "apply_op I OLt vs = VBool (bin_pred (<) vs)"
| "apply_op I OGe vs = VBool (bin_pred (\<ge>) vs)"
| "apply_op I OGt vs = VBool (bin_pred (>) vs)"
| "apply_op I OEq vs = VBool (case vs of [a, b] \<Rightarrow> a = b | _ \<Rightarrow> False)"
| "apply_op I ODistinct vs = VBool (distinct_vals vs)"
| "apply_op I OIte vs = (case vs of [c, a, b] \<Rightarrow>
       if bool_of c then a else if val_sort b = val_sort a then b else coerce (val_sort a) b
     | _ \<Rightarrow> VInt 0)"
| "apply_op I OAnd vs = VBool (list_all bool_of vs)"
| "apply_op I OOr vs = VBool (list_ex bool_of vs)"
| "apply_op I ONot vs = VBool (case vs of [v] \<Rightarrow> \<not> bool_of v | _ \<Rightarrow> False)"
| "apply_op I OImplies vs = VBool (case vs of [a, b] \<Rightarrow> bool_of a \<longrightarrow> bool_of b | _ \<Rightarrow> False)"
| "apply_op I OXor vs = VBool (case vs of [a, b] \<Rightarrow> bool_of a \<noteq> bool_of b | _ \<Rightarrow> False)"
| "apply_op I (OInt2Bv w) vs = bv_result w (case vs of [v] \<Rightarrow> int_of v | _ \<Rightarrow> 0)"
| "apply_op I OBv2Int vs = VInt (case vs of [VBv w i] \<Rightarrow> signed_of w i | [v] \<Rightarrow> int_of v | _ \<Rightarrow> 0)"
| "apply_op I (OBAdd w) vs = bv_result w (bin_int (+) vs)"
| "apply_op I (OBMul w) vs = bv_result w (bin_int (*) vs)"
| "apply_op I (OBAnd w) vs = bv_result w (bin_int (AND) vs)"
| "apply_op I (OBOr w) vs = bv_result w (bin_int (OR) vs)"
| "apply_op I (OBXor w) vs = bv_result w (bin_int (XOR) vs)"
| "apply_op I (OBShl w) vs = bv_result w (bin_int (\<lambda>a b. push_bit (nat b) a) vs)"
| "apply_op I (OBLshr w) vs = bv_result w (bin_int (\<lambda>a b. drop_bit (nat b) (a mod 2 ^ w)) vs)"
| "apply_op I (OBAshr w) vs = bv_result w (bin_int (\<lambda>a b. drop_bit (nat b) (signed_of w a)) vs)"
| "apply_op I (OBSub w) vs = bv_result w (bin_int (-) vs)"
| "apply_op I (OBSDiv w) vs = bv_result w (bin_int (\<lambda>a b.
     if signed_of w b = 0 then (if signed_of w a < 0 then 1 else - 1)
     else sgn (signed_of w a) * sgn (signed_of w b) * (\<bar>signed_of w a\<bar> div \<bar>signed_of w b\<bar>)) vs)"
| "apply_op I (OBSRem w) vs = bv_result w (bin_int (\<lambda>a b.
     if signed_of w b = 0 then a
     else sgn (signed_of w a) * (\<bar>signed_of w a\<bar> mod \<bar>signed_of w b\<bar>)) vs)"

definition bind_ints :: "interp \<Rightarrow> string list \<Rightarrow> int list \<Rightarrow> interp" where
  "bind_ints I xs vs = (\<lambda>f as. if as = [] then
     (case map_of (zip xs vs) f of Some v \<Rightarrow> VInt v | None \<Rightarrow> I f as) else I f as)"

fun eval :: "interp \<Rightarrow> z3expr \<Rightarrow> z3val" where
  "eval I (App f es) = apply_op I f (map (eval I) es)"
| "eval I (Quant universal xs b) =
     VBool (if universal
            then \<forall>vs. length vs = length xs \<longrightarrow> bool_of (eval (bind_ints I xs vs) b)
            else \<exists>vs. length vs = length xs \<and> bool_of (eval (bind_ints I xs vs) b))"

definition ival :: "interp \<Rightarrow> z3expr \<Rightarrow> int" where "ival I e = int_of (eval I e)"
definition holds :: "interp \<Rightarrow> z3expr \<Rightarrow> bool" where "holds I e = bool_of (eval I e)"

text \<open>The value of a term has the term's sort.\<close>

lemma val_sort_coerce [simp]: "val_sort (coerce s v) = s"
  by (cases s) simp_all

lemma coerce_id [simp]: "val_sort v = s \<Longrightarrow> s = BoolSort \<or> s = IntSort \<Longrightarrow> coerce s v = v"
  by (cases v) auto

lemma val_sort_bv_result [simp]: "val_sort (bv_result w i) = BvSort w"
  by (simp add: bv_result_def)

lemma val_sort_eval [simp]: "val_sort (eval I e) = sort_of e"
proof (induction e arbitrary: I)
  case (App f es)
  show ?case
  proof (cases f)
    case OIte
    show ?thesis
    proof (cases "\<exists>c a b. es = [c, a, b]")
      case True
      then obtain c a b where "es = [c, a, b]" by blast
      then show ?thesis using OIte App.IH [of a] by simp
    next
      case False
      then show ?thesis using OIte by (auto split: list.splits)
    qed
  qed simp_all
qed simp

lemma eval_bool: "is_bool e \<Longrightarrow> eval I e = VBool (holds I e)"
  using val_sort_eval [of I e] by (cases "eval I e") (simp_all add: is_bool_def holds_def)

lemma eval_int: "is_int e \<Longrightarrow> eval I e = VInt (ival I e)"
  using val_sort_eval [of I e] by (cases "eval I e") (simp_all add: is_int_def ival_def)

section \<open>Evaluating the terms the program builds\<close>

lemma int_of_coerce [simp]: "int_of (coerce IntSort v) = int_of v"
  by simp

lemma holds_not_false [sem_simps]: "holds I z_true" "\<not> holds I z_false"
  by (simp_all add: holds_def)

lemma holds_connectives [sem_simps]:
  "holds I (App OAnd es) \<longleftrightarrow> (\<forall>e\<in>set es. holds I e)"
  "holds I (App OOr es) \<longleftrightarrow> (\<exists>e\<in>set es. holds I e)"
  "holds I (z_not a) \<longleftrightarrow> \<not> holds I a"
  "holds I (z_implies a b) \<longleftrightarrow> (holds I a \<longrightarrow> holds I b)"
  "holds I (z_xor a b) \<longleftrightarrow> holds I a \<noteq> holds I b"
  by (auto simp: holds_def list_all_iff list_ex_iff)

lemma holds_comparisons [sem_simps]:
  "holds I (z_le a b) \<longleftrightarrow> ival I a \<le> ival I b"
  "holds I (z_lt a b) \<longleftrightarrow> ival I a < ival I b"
  "holds I (z_ge a b) \<longleftrightarrow> ival I a \<ge> ival I b"
  "holds I (z_gt a b) \<longleftrightarrow> ival I a > ival I b"
  by (simp_all add: holds_def ival_def)

lemma holds_eq [sem_simps]: "holds I (z_eq a b) \<longleftrightarrow> eval I a = eval I b"
  and holds_ne [sem_simps]: "holds I (z_ne a b) \<longleftrightarrow> eval I a \<noteq> eval I b"
  by (simp_all add: holds_def)

lemma ival_arith [sem_simps]:
  "ival I (z_int n) = n"
  "ival I (z_add a b) = ival I a + ival I b"
  "ival I (z_sub a b) = ival I a - ival I b"
  "ival I (z_mul a b) = ival I a * ival I b"
  "ival I (z_neg a) = - ival I a"
  by (simp_all add: ival_def)

lemma ival_div [sem_simps]:
  "ival I b \<noteq> 0 \<Longrightarrow> ival I (z_div a b) = smt_div (ival I a) (ival I b)"
  "ival I b \<noteq> 0 \<Longrightarrow> ival I (z_mod a b) = smt_mod (ival I a) (ival I b)"
  by (simp_all add: ival_def)

lemma eval_ite: "sort_of a = sort_of b \<Longrightarrow> eval I (z_ite c a b) = (if holds I c then eval I a else eval I b)"
  by (simp add: holds_def)

lemma ival_ite [sem_simps]:
  "is_int a \<Longrightarrow> ival I (z_ite c a b) = (if holds I c then ival I a else ival I b)"
  by (simp add: ival_def holds_def is_int_def)

lemma holds_ite [sem_simps]:
  "is_bool a \<Longrightarrow> holds I (z_ite c a b) \<longleftrightarrow> (if holds I c then holds I a else holds I b)"
  by (simp add: holds_def is_bool_def)

lemma is_int_simps [simp, sem_simps]:
  "is_int (z_int n)" "is_int (z_add a b)" "is_int (z_sub a b)" "is_int (z_mul a b)"
  "is_int (z_neg a)" "is_int (z_div a b)" "is_int (z_mod a b)"
  "is_int (z_ite c a b) = is_int a" "is_int (z_int_const x)"
  by (simp_all add: is_int_def)

lemma is_bool_simps [simp, sem_simps]:
  "is_bool z_true" "is_bool z_false" "is_bool (App OAnd es)" "is_bool (App OOr es)"
  "is_bool (z_not a)" "is_bool (z_le a b)" "is_bool (z_lt a b)" "is_bool (z_ge a b)"
  "is_bool (z_gt a b)" "is_bool (z_eq a b)" "is_bool (z_ne a b)" "is_bool (z_ite c a b) = is_bool a"
  "\<not> is_bool (z_int n)"
  by (simp_all add: is_bool_def)

lemma holds_ival: "is_bool e \<Longrightarrow> ival I e = of_bool (holds I e)"
  by (simp add: ival_def eval_bool)

lemma eval_eq_ival: "is_int a \<Longrightarrow> is_int b \<Longrightarrow> eval I a = eval I b \<longleftrightarrow> ival I a = ival I b"
  by (simp add: eval_int)

lemma smt_div_mod: "b \<noteq> 0 \<Longrightarrow> a = b * smt_div a b + smt_mod a b"
  using mult_div_mod_eq [of b a] mult_div_mod_eq [of "- b" a]
  by (auto simp: smt_div_def smt_mod_def abs_if)

lemma smt_mod_range: "b \<noteq> 0 \<Longrightarrow> 0 \<le> smt_mod a b \<and> smt_mod a b < \<bar>b\<bar>"
  by (simp add: smt_mod_def)

section \<open>Substitution\<close>

text \<open>
  \<open>expr::substitute\<close> replaces all the source terms at once.  Bound names are not touched.
\<close>

fun substitute :: "(z3expr \<times> z3expr) list \<Rightarrow> z3expr \<Rightarrow> z3expr" where
  "substitute s (App f es) =
     (case map_of s (App f es) of
        Some d \<Rightarrow> d
      | None \<Rightarrow> App f (map (substitute s) es))"
| "substitute s (Quant q xs b) =
     (case map_of s (Quant q xs b) of
        Some d \<Rightarrow> d
      | None \<Rightarrow> Quant q xs (substitute (filter (\<lambda>(v, _). v \<notin> set (map z_int_const xs)) s) b))"

fun quantifier_free :: "z3expr \<Rightarrow> bool" where
  "quantifier_free (App f es) = list_all quantifier_free es"
| "quantifier_free (Quant _ _ _) = False"

text \<open>The interpretation that gives the substituted constants the values of their replacements.\<close>

definition subst_interp :: "interp \<Rightarrow> (z3expr \<times> z3expr) list \<Rightarrow> interp" where
  "subst_interp I s = (\<lambda>x vs. if vs = [] then
     (case map_of s (z_int_const x) of Some d \<Rightarrow> eval I d | None \<Rightarrow> I x vs) else I x vs)"

fun subterms :: "z3expr \<Rightarrow> z3expr list" where
  "subterms (App f es) = App f es # concat (map subterms es)"
| "subterms (Quant q xs b) = Quant q xs b # subterms b"

definition int_substitution :: "(z3expr \<times> z3expr) list \<Rightarrow> bool" where
  "int_substitution s \<longleftrightarrow> (\<forall>(v, d)\<in>set s. is_int d \<and> (\<exists>x. v = z_int_const x))"

definition well_named :: "(z3expr \<times> z3expr) list \<Rightarrow> z3expr \<Rightarrow> bool" where
  "well_named s e \<longleftrightarrow> (\<forall>x s'. z_const x s' \<in> set (subterms e) \<longrightarrow>
     map_of s (z_int_const x) \<noteq> None \<longrightarrow> s' = IntSort)"

lemma int_substitution_lookup:
  assumes "int_substitution s" "map_of s v = Some d"
  shows "is_int d \<and> (\<exists>x. v = z_int_const x)"
  using map_of_SomeD [OF assms(2)] assms(1) by (auto simp: int_substitution_def)

lemma eval_substitute:
  assumes "int_substitution s"
  shows "quantifier_free e \<Longrightarrow> well_named s e \<Longrightarrow> eval I (substitute s e) = eval (subst_interp I s) e"
proof (induction e)
  case (App f es)
  show ?case
  proof (cases "map_of s (App f es)")
    case (Some d)
    from int_substitution_lookup [OF assms this] obtain x where
      d: "is_int d" "App f es = z_int_const x" by blast
    then show ?thesis using Some by (simp add: subst_interp_def eval_int)
  next
    case None
    have IH: "map (eval I) (map (substitute s) es) = map (eval (subst_interp I s)) es"
      using App by (fastforce simp: well_named_def list_all_iff)
    show ?thesis
    proof (cases "\<exists>x s'. f = OUninterp x s'")
      case True
      then obtain x s' where f: "f = OUninterp x s'" by blast
      have "subst_interp I s x (map (eval (subst_interp I s)) es) = I x (map (eval (subst_interp I s)) es)"
        if "es = []"
        using App.prems(2) None that f
        by (cases "s' = IntSort") (force simp: subst_interp_def well_named_def split: option.splits)+
      then have "subst_interp I s x (map (eval (subst_interp I s)) es) = I x (map (eval (subst_interp I s)) es)"
        by (cases es) (simp_all add: subst_interp_def)
      then show ?thesis using IH None f by (simp del: map_map)
    next
      case False
      have "subst_interp I s g [v] = I g [v]" for g v by (simp add: subst_interp_def)
      then have "apply_op (subst_interp I s) f vs = apply_op I f vs" for vs
        using False by (cases f) (auto cong: if_cong)
      then show ?thesis using IH None by (simp del: map_map)
    qed
  qed
qed simp

section \<open>The solver\<close>

datatype check_result = Sat | Unsat | Unknown

text \<open>
  The functions of the solver the program calls: the simplifier, the satisfiability check of a
  list of assertions, the model and the unsatisfiable core of the last check, the printer, and
  the two passes.
\<close>

record z3_api =
  z_simplify :: "z3expr \<Rightarrow> z3expr"
  z_check :: "z3expr list \<Rightarrow> check_result"
  z_model :: "z3expr list \<Rightarrow> interp"
  z_core :: "z3expr list \<Rightarrow> z3expr list \<Rightarrow> z3expr list"
  z_string :: "z3expr \<Rightarrow> string"
  z_elim_ite :: "z3expr \<Rightarrow> z3expr list"
  z_qe :: "z3expr \<Rightarrow> z3expr list"

text \<open>The documented behaviour: answers are right, and an unknown answer says nothing.\<close>

definition simplify_ok :: "z3_api \<Rightarrow> bool" where
  "simplify_ok z \<longleftrightarrow> (\<forall>I e. eval I (z_simplify z e) = eval I e)"

definition check_ok :: "z3_api \<Rightarrow> bool" where
  "check_ok z \<longleftrightarrow>
     (\<forall>fs. z_check z fs = Unsat \<longrightarrow> \<not> (\<exists>I. \<forall>f\<in>set fs. holds I f)) \<and>
     (\<forall>fs. z_check z fs = Sat \<longrightarrow> (\<forall>f\<in>set fs. holds (z_model z fs) f))"

definition core_ok :: "z3_api \<Rightarrow> bool" where
  "core_ok z \<longleftrightarrow> (\<forall>fs ls. z_check z (fs @ ls) = Unsat \<longrightarrow>
     set (z_core z fs ls) \<subseteq> set ls \<and>
     \<not> (\<exists>I. (\<forall>f\<in>set fs. holds I f) \<and> (\<forall>l\<in>set (z_core z fs ls). holds I l)))"

lemma simplify_okD: "simplify_ok z \<Longrightarrow> eval I (z_simplify z e) = eval I e"
  by (simp add: simplify_ok_def)

lemma holds_simplify [sem_simps]: "simplify_ok z \<Longrightarrow> holds I (z_simplify z e) = holds I e"
  by (simp add: simplify_ok_def holds_def)

lemma ival_simplify [sem_simps]: "simplify_ok z \<Longrightarrow> ival I (z_simplify z e) = ival I e"
  by (simp add: simplify_ok_def ival_def)

lemma sort_simplify: "simplify_ok z \<Longrightarrow> sort_of (z_simplify z e) = sort_of e"
  by (metis simplify_okD val_sort_eval)

lemma check_unsat: "check_ok z \<Longrightarrow> z_check z fs = Unsat \<Longrightarrow> \<exists>f\<in>set fs. \<not> holds I f"
  by (auto simp: check_ok_def)

lemma check_sat: "check_ok z \<Longrightarrow> z_check z fs = Sat \<Longrightarrow> f \<in> set fs \<Longrightarrow> holds (z_model z fs) f"
  by (auto simp: check_ok_def)

section \<open>A solver for closed formulas\<close>

text \<open>
  A small instance of the parameter, used to show that the hypotheses can be met: it evaluates
  formulas without uninterpreted symbols and answers unknown on the others.
\<close>

fun closed_op :: "z3op \<Rightarrow> bool" where
  "closed_op (OUninterp _ _) = False"
| "closed_op OIDiv = False" | "closed_op OMod = False" | "closed_op ORem = False"
| "closed_op _ = True"

fun closed_term :: "z3expr \<Rightarrow> bool" where
  "closed_term (App f es) = (closed_op f \<and> list_all closed_term es)"
| "closed_term (Quant _ _ _) = False"

definition zero_interp :: interp where "zero_interp = (\<lambda>_ _. VInt 0)"

definition closed_z3 :: z3_api where
  "closed_z3 = \<lparr>z_simplify = (\<lambda>e. e),
     z_check = (\<lambda>fs. if list_all closed_term fs
        then (if list_all (holds zero_interp) fs then Sat else Unsat) else Unknown),
     z_model = (\<lambda>_. zero_interp), z_core = (\<lambda>fs ls. ls), z_string = (\<lambda>_. []),
     z_elim_ite = (\<lambda>e. [e]), z_qe = (\<lambda>e. [e])\<rparr>"

lemma apply_closed_op: "closed_op f \<Longrightarrow> apply_op I f vs = apply_op J f vs"
  by (cases f) auto

lemma eval_closed: "closed_term e \<Longrightarrow> eval I e = eval J e"
proof (induction e)
  case (App f es)
  then have "map (eval I) es = map (eval J) es" by (auto simp: list_all_iff)
  moreover have "closed_op f" using App.prems by simp
  ultimately show ?case unfolding eval.simps by (metis apply_closed_op)
qed simp

lemma holds_closed: "closed_term e \<Longrightarrow> holds I e = holds J e"
  unfolding holds_def by (metis eval_closed)

lemma closed_z3_simplify [simp]: "simplify_ok closed_z3"
  by (simp add: simplify_ok_def closed_z3_def)

lemma closed_z3_check [simp]: "check_ok closed_z3"
proof -
  have "\<exists>f\<in>set fs. \<not> holds I f" if "z_check closed_z3 fs = Unsat" for fs I
    using that holds_closed [of _ I zero_interp]
    by (auto simp: closed_z3_def list_all_iff split: if_splits)
  moreover have "\<forall>f\<in>set fs. holds (z_model closed_z3 fs) f" if "z_check closed_z3 fs = Sat" for fs
    using that by (auto simp: closed_z3_def list_all_iff split: if_splits)
  ultimately show ?thesis unfolding check_ok_def by blast
qed

lemma closed_z3_core [simp]: "core_ok closed_z3"
  unfolding core_ok_def
proof (intro allI impI)
  fix fs ls assume "z_check closed_z3 (fs @ ls) = Unsat"
  then have "\<exists>f\<in>set (fs @ ls). \<not> holds I f" for I
    using check_unsat [OF closed_z3_check] by blast
  moreover have "z_core closed_z3 fs ls = ls" by (simp add: closed_z3_def)
  ultimately show "set (z_core closed_z3 fs ls) \<subseteq> set ls \<and>
     \<not> (\<exists>I. (\<forall>f\<in>set fs. holds I f) \<and> (\<forall>l\<in>set (z_core closed_z3 fs ls). holds I l))"
    by auto
qed

end
