(* ===== verification/Formula_Logic.thy ===== *)
theory Formula_Logic
  imports Z3_Term "HOL-Library.List_Lexorder" "HOL-Library.Char_ord"
begin

text \<open>
  Formula manipulation: lib/common.cpp (index products, applications of a function) and
  lib/logics.cpp (piecewise expressions, case merging, conjunction minimisation, normal forms).
  The solver is the parameter \<open>z\<close>.
\<close>

section \<open>Index products\<close>

text \<open>
  \<open>cartesian_product(vec, start)\<close>.  The assertion that the vector is nonempty is a precondition of
  every caller; past the end the code is never called.
\<close>

function cartesian_product :: "nat list \<Rightarrow> nat \<Rightarrow> nat list list" where
  "cartesian_product vec start =
     (if start \<ge> length vec then []
      else if start = length vec - 1 then map (\<lambda>i. [i]) [0..<vec ! start]
      else let sub_res = cartesian_product vec (start + 1)
           in concat (map (\<lambda>i. map (\<lambda>sub. i # sub) sub_res) [0..<vec ! start]))"
  by pat_completeness auto
termination
  by (relation "measure (\<lambda>(vec, start). length vec - start)") auto

declare cartesian_product.simps [simp del]

fun get_app_of :: "z3expr \<Rightarrow> z3op \<Rightarrow> z3expr list" where
  "get_app_of (App g es) f =
     (if g = f then [App g es] else []) @ concat (map (\<lambda>a. get_app_of a f) es)"
| "get_app_of (Quant q xs b) f = []"

fun get_func_apps :: "z3expr \<Rightarrow> z3expr list" where
  "get_func_apps (App g es) =
     (if es = [] then []
      else case g of
          OUninterp _ _ \<Rightarrow> [App g es]
        | _ \<Rightarrow> concat (map get_func_apps es))"
| "get_func_apps (Quant q xs b) = []"

definition can_flat :: "z3op \<Rightarrow> bool" where
  "can_flat f = (case f of OAdd \<Rightarrow> True | OMul \<Rightarrow> True | OBAdd _ \<Rightarrow> True | OBMul _ \<Rightarrow> True
     | OBAnd _ \<Rightarrow> True | OBOr _ \<Rightarrow> True | OBXor _ \<Rightarrow> True | _ \<Rightarrow> False)"

section \<open>Questions to the solver\<close>

definition implies :: "z3_api \<Rightarrow> z3expr \<Rightarrow> z3expr \<Rightarrow> bool" where
  "implies z a b = (z_check z [a, z_not b] = Unsat)"

definition conditionally_eq :: "z3_api \<Rightarrow> z3expr \<Rightarrow> z3expr \<Rightarrow> z3expr \<Rightarrow> bool" where
  "conditionally_eq z cond e1 e2 = (z_check z [cond, z_ne e1 e2] = Unsat)"

definition is_feasible :: "z3_api \<Rightarrow> z3expr \<Rightarrow> z3expr option \<Rightarrow> bool" where
  "is_feasible z fml assumption =
     (z_check z ((case assumption of Some a \<Rightarrow> [a] | None \<Rightarrow> []) @ [fml]) = Sat)"

definition is_equivalent :: "z3_api \<Rightarrow> z3expr \<Rightarrow> z3expr \<Rightarrow> bool" where
  "is_equivalent z f1 f2 = (z_check z [z_ne f1 f2] = Unsat)"

section \<open>Piecewise expressions\<close>

text \<open>Two vectors of the same size are a list of pairs of a condition and an expression.\<close>

type_synonym cases = "(z3expr \<times> z3expr) list"

text \<open>The cases that agree with the pivot wherever they apply, and one pass of the loop.\<close>

definition merged_cases :: "z3_api \<Rightarrow> cases \<Rightarrow> nat \<Rightarrow> nat list" where
  "merged_cases z cs pivot =
     filter (\<lambda>i. i \<noteq> pivot \<and> conditionally_eq z (fst (cs ! i)) (snd (cs ! pivot)) (snd (cs ! i)))
       [0..<length cs]"

definition merge_pivot :: "z3_api \<Rightarrow> cases \<Rightarrow> nat \<Rightarrow> cases" where
  "merge_pivot z cs pivot =
     (let merged = merged_cases z cs pivot;
          pivot_cond = foldl (\<lambda>c i. z_or c (fst (cs ! i))) (fst (cs ! pivot)) merged
      in map (\<lambda>i. if i = pivot then (pivot_cond, snd (cs ! i)) else cs ! i)
           (filter (\<lambda>i. i \<notin> set merged) [0..<length cs]))"

definition next_pivot :: "z3_api \<Rightarrow> cases \<Rightarrow> nat \<Rightarrow> nat" where
  "next_pivot z cs pivot =
     (let merged = merged_cases z cs pivot
      in if merged \<noteq> [] then length (filter (\<lambda>i. i \<notin> set merged) [0..<pivot]) + 1 else pivot + 1)"

lemma merged_cases_bounds: "i \<in> set (merged_cases z cs pivot) \<Longrightarrow> i < length cs \<and> i \<noteq> pivot"
  by (simp add: merged_cases_def)

lemma merge_pivot_progress:
  assumes "pivot < length cs"
  shows "length (merge_pivot z cs pivot) - next_pivot z cs pivot < length cs - pivot"
proof -
  let ?keep = "\<lambda>i. i \<notin> set (merged_cases z cs pivot)"
  have split: "[0..<length cs] = [0..<pivot] @ pivot # [Suc pivot..<length cs]"
    using assms upt_add_eq_append [of 0 pivot "length cs - pivot"] by (simp add: upt_conv_Cons)
  have "pivot \<notin> set (merged_cases z cs pivot)" by (simp add: merged_cases_def)
  then have len: "length (merge_pivot z cs pivot) =
      length (filter ?keep [0..<pivot]) + 1 + length (filter ?keep [Suc pivot..<length cs])"
    by (simp add: merge_pivot_def Let_def split)
  have "length (filter ?keep [Suc pivot..<length cs]) \<le> length cs - Suc pivot"
    by (metis length_filter_le length_upt)
  moreover have "length (filter ?keep [0..<pivot]) \<le> pivot"
    by (metis length_filter_le length_upt minus_nat.diff_0)
  ultimately show ?thesis
    using len assms by (auto simp: next_pivot_def Let_def)
qed

function merge_from :: "z3_api \<Rightarrow> cases \<Rightarrow> nat \<Rightarrow> cases" where
  "merge_from z cs pivot =
     (if pivot < length cs then merge_from z (merge_pivot z cs pivot) (next_pivot z cs pivot) else cs)"
  by pat_completeness auto
termination
  by (relation "measure (\<lambda>(z, cs, pivot). length cs - pivot)") (auto simp: merge_pivot_progress)

declare merge_from.simps [simp del]

definition merge_cases :: "z3_api \<Rightarrow> cases \<Rightarrow> cases" where
  "merge_cases z cs = merge_from z cs 0"

section \<open>Variables\<close>

text \<open>
  \<open>std::set<z3::expr, expr_compare>\<close>: ordered by the printed form, one element per printed form.
\<close>

definition var_insert :: "z3_api \<Rightarrow> z3expr \<Rightarrow> z3expr list \<Rightarrow> z3expr list" where
  "var_insert z v vars =
     (if list_ex (\<lambda>w. z_string z w = z_string z v) vars then vars
      else insort_key (z_string z) v vars)"

fun collect_vars_rec :: "z3_api \<Rightarrow> z3expr \<Rightarrow> z3expr list \<Rightarrow> z3expr list" where
  "collect_vars_rec z (App g es) vars =
     (if es = [] \<and> is_uninterpreted (App g es) then var_insert z (App g es) vars
      else fold (collect_vars_rec z) es vars)"
| "collect_vars_rec z (Quant q xs b) vars = vars"

definition collect_vars :: "z3_api \<Rightarrow> z3expr \<Rightarrow> z3expr list" where
  "collect_vars z e = collect_vars_rec z e []"

definition collect_aux_vars :: "z3_api \<Rightarrow> z3expr \<Rightarrow> z3expr list" where
  "collect_aux_vars z e = filter (\<lambda>v. contains_str (z_string z v) ''!'') (collect_vars z e)"

text \<open>\<open>z3::exists\<close> over constants.\<close>

fun const_name :: "z3expr \<Rightarrow> string" where
  "const_name (App (OUninterp x _) _) = x" | "const_name _ = []"

definition z_exists :: "z3expr list \<Rightarrow> z3expr \<Rightarrow> z3expr" where
  "z_exists vars b = Quant False (map const_name vars) b"

definition z_forall :: "z3expr list \<Rightarrow> z3expr \<Rightarrow> z3expr" where
  "z_forall vars b = Quant True (map const_name vars) b"

section \<open>Conditional terms\<close>

text \<open>
  The assertion after quantifier elimination only checks the result; a violation stops the
  program, which is the value \<open>None\<close> of the checked variant of a definition.  Here it holds by
  the documented behaviour of the solver passes (lemma \<open>eliminate_ite_sound\<close>), and the model computes
  the returned term.
\<close>

definition eliminate_ite :: "z3_api \<Rightarrow> z3expr \<Rightarrow> z3expr" where
  "eliminate_ite z e =
     (let eliminated = mk_or (z_elim_ite z e);
          aux_vars = collect_aux_vars z eliminated
      in z_simplify z
           (if aux_vars \<noteq> []
            then z_simplify z (mk_or (z_qe z (z_exists aux_vars eliminated)))
            else eliminated))"

fun aux_expr2piecewise :: "z3_api \<Rightarrow> z3expr \<Rightarrow> z3expr \<Rightarrow> cases" where
  "aux_expr2piecewise z (App f es) cur_cond =
     (if es = [] then [(cur_cond, App f es)]
      else case (f, es) of
        (OIte, [cond, then_expr, else_expr]) \<Rightarrow>
          aux_expr2piecewise z then_expr (z_and cond cur_cond) @
          aux_expr2piecewise z else_expr (z_and (z_not cond) cur_cond)
      | _ \<Rightarrow>
          let arg_cases = map (\<lambda>a. merge_cases z
                (map (\<lambda>(c, x). (eliminate_ite z c, x)) (aux_expr2piecewise z a z_true))) es
          in map (\<lambda>indices.
                let chosen = map2 (\<lambda>cs i. cs ! i) arg_cases indices
                in (z_and (foldl (\<lambda>acc cx. z_and acc (fst cx)) z_true chosen) cur_cond,
                    App f (map snd chosen)))
             (cartesian_product (map length arg_cases) 0))"
| "aux_expr2piecewise z (Quant q xs b) cur_cond = [(cur_cond, Quant q xs b)]"

declare aux_expr2piecewise.simps [simp del]

definition expr2piecewise :: "z3_api \<Rightarrow> z3expr \<Rightarrow> cases" where
  "expr2piecewise z e =
     merge_cases z (map (\<lambda>(c, x). (eliminate_ite z c, x)) (aux_expr2piecewise z e z_true))"

text \<open>
  The sizes always agree here, so the size test of the code never throws; the empty vector is
  undefined behaviour in the code (\<open>back()\<close>), a missing value here.
\<close>

definition piecewise2ite :: "z3_api \<Rightarrow> cases \<Rightarrow> z3expr option" where
  "piecewise2ite z cs =
     (if length cs = 1 then Some (snd (cs ! 0))
      else let new_cases = merge_cases z cs
           in if new_cases = [] then None
              else Some (foldr (\<lambda>cx ite_expr. z_ite (fst cx) (snd cx) ite_expr)
                           (butlast new_cases) (snd (last new_cases))))"

section \<open>Conjunctions\<close>

definition get_expr_vec_except :: "z3expr list \<Rightarrow> nat \<Rightarrow> z3expr list" where
  "get_expr_vec_except vec pivot = take pivot vec @ drop (Suc pivot) vec"

function minimize_conjunction ::
    "z3_api \<Rightarrow> z3expr list \<Rightarrow> nat \<Rightarrow> z3expr option \<Rightarrow> z3expr list" where
  "minimize_conjunction z conjunction pivot assumption =
     (let assumed = (case assumption of Some a \<Rightarrow> a | None \<Rightarrow> z_true)
      in if pivot \<ge> length conjunction then conjunction
         else let pivot_expr = conjunction ! pivot;
                  remaining = get_expr_vec_except conjunction pivot
              in if z_check z ([z_true, assumed] @ remaining @ [z_not pivot_expr]) = Unsat
                 then minimize_conjunction z remaining pivot (Some assumed)
                 else minimize_conjunction z conjunction (pivot + 1) (Some assumed))"
  by pat_completeness auto
termination
  by (relation "measure (\<lambda>(z, c, p, a). length c - p)") (auto simp: get_expr_vec_except_def)

declare minimize_conjunction.simps [simp del]

section \<open>Atoms and literals\<close>

text \<open>
  \<open>t.arg(0)\<close> on an application without arguments throws: a Boolean constant has no answer.
\<close>

fun is_atom :: "z3expr \<Rightarrow> bool option" where
  "is_atom (App k es) =
     (if \<not> is_bool (App k es) then Some False
      else if k \<in> {OAnd, OOr, OImplies} then Some False
      else if k \<in> {OTrue, OFalse, OXor, ONot} then Some False
      else case es of [] \<Rightarrow> None | a # _ \<Rightarrow> Some (\<not> is_bool a))"
| "is_atom (Quant _ _ _) = Some False"

definition is_literal :: "z3expr \<Rightarrow> bool option" where
  "is_literal e =
     (case is_atom e of
        None \<Rightarrow> None
      | Some True \<Rightarrow> Some True
      | Some False \<Rightarrow> (case e of App ONot [a] \<Rightarrow> is_atom a | _ \<Rightarrow> Some False))"

definition is_ge :: "z3expr \<Rightarrow> bool" where "is_ge e = has_kind OGe e"
definition is_le :: "z3expr \<Rightarrow> bool" where "is_le e = has_kind OLe e"
definition is_eq :: "z3expr \<Rightarrow> bool" where "is_eq e = has_kind OEq e"
definition is_lt :: "z3expr \<Rightarrow> bool" where "is_lt e = has_kind OLt e"
definition is_gt :: "z3expr \<Rightarrow> bool" where "is_gt e = has_kind OGt e"

text \<open>The state of the traversal: the printed forms seen and the atoms found.\<close>

fun atoms_rec :: "z3_api \<Rightarrow> z3expr \<Rightarrow> string list \<times> z3expr list \<Rightarrow> (string list \<times> z3expr list) option"
  where
  "atoms_rec z (App k es) (visited, atms) =
     (if z_string z (App k es) \<in> set visited then Some (visited, atms)
      else case is_atom (App k es) of
          None \<Rightarrow> None
        | Some atom \<Rightarrow>
            fold (\<lambda>a st. case st of None \<Rightarrow> None | Some s \<Rightarrow> atoms_rec z a s) es
              (Some (z_string z (App k es) # visited, if atom then atms @ [App k es] else atms)))"
| "atoms_rec z (Quant q xs b) (visited, atms) = Some (z_string z (Quant q xs b) # visited, atms)"

definition atoms :: "z3_api \<Rightarrow> z3expr \<Rightarrow> z3expr list option" where
  "atoms z fml = map_option snd (atoms_rec z fml ([], []))"

definition atom2literal :: "interp \<Rightarrow> z3expr \<Rightarrow> z3expr" where
  "atom2literal m a = (if holds m a then a else z_not a)"

section \<open>Normal forms\<close>

text \<open>
  The assertion that the literals contradict the formula is part of the model: when it fails
  there is no result.
\<close>

definition implicant :: "z3_api \<Rightarrow> z3expr list \<Rightarrow> z3expr \<Rightarrow> z3expr list \<Rightarrow> z3expr option" where
  "implicant z atms fml snot =
     (let lits = map (atom2literal (z_model z snot)) atms
      in if z_check z ([fml] @ lits) \<noteq> Unsat then None
         else Some (mk_or (map z_not (minimize_conjunction z (z_core z [fml] lits) 0 None))))"

partial_function (option) cnf_loop ::
    "z3_api \<Rightarrow> z3expr \<Rightarrow> z3expr list \<Rightarrow> z3expr list \<Rightarrow> z3expr list \<Rightarrow> z3expr list option" where
  "cnf_loop z fml atms snot cnf_clauses =
     (if z_check z snot = Sat
      then (case implicant z atms fml snot of
              None \<Rightarrow> None
            | Some clause \<Rightarrow>
                cnf_loop z fml atms (snot @ [clause]) (cnf_clauses @ [z_simplify z clause]))
      else Some cnf_clauses)"

definition to_cnf :: "z3_api \<Rightarrow> z3expr \<Rightarrow> z3expr list option" where
  "to_cnf z fml =
     (case atoms z fml of
        None \<Rightarrow> None
      | Some atms \<Rightarrow> cnf_loop z fml atms [z_not fml] [])"

fun clause2list :: "z3expr \<Rightarrow> z3expr list" where
  "clause2list (App f es) = (if f = OOr then concat (map clause2list es) else [App f es])"
| "clause2list (Quant q xs b) = [Quant q xs b]"

definition to_dnf :: "z3_api \<Rightarrow> z3expr \<Rightarrow> z3expr list option" where
  "to_dnf z fml =
     map_option (map (\<lambda>clause. mk_and (map z_not (clause2list clause)))) (to_cnf z (z_not fml))"

function dnf_rec :: "z3expr list \<Rightarrow> z3expr list list" where
  "dnf_rec clauses =
     (if clauses = [] then []
      else let last_clause = clause2list (last clauses)
           in if length clauses = 1 then [last_clause]
              else concat (map (\<lambda>conjunct. map (\<lambda>literal. conjunct @ [literal]) last_clause)
                     (dnf_rec (butlast clauses))))"
  by pat_completeness auto
termination
  by (relation "measure length") auto

declare dnf_rec.simps [simp del]

definition logic_simplify :: "z3_api \<Rightarrow> z3expr \<Rightarrow> z3expr option" where
  "logic_simplify z fml = map_option (\<lambda>cnf. mk_and (map (z_simplify z) cnf)) (to_cnf z fml)"

text \<open>
  \<open>simplify(expr, assumption)\<close>.  The call of \<open>minimize_conjunction\<close> passes the assumption where
  the pivot index is expected; the handle converts to the number 1 and no assumption is passed.
\<close>

definition clause_literals :: "z3expr \<Rightarrow> z3expr list" where
  "clause_literals clause =
     (if has_kind OOr clause then map z_not (args clause) else [z_not clause])"

definition simplify_clause :: "z3_api \<Rightarrow> z3expr list \<Rightarrow> z3expr \<Rightarrow> z3expr list" where
  "simplify_clause z assumed clause =
     (if z_check z (assumed @ [z_not clause]) = Sat
      then [mk_or (map z_not (minimize_conjunction z (clause_literals clause) 1 None))]
      else [])"

definition simplify :: "z3_api \<Rightarrow> z3expr \<Rightarrow> z3expr option \<Rightarrow> z3expr option" where
  "simplify z e assumption =
     map_option (\<lambda>clauses. mk_and (concat (map
         (simplify_clause z (case assumption of Some a \<Rightarrow> [a] | None \<Rightarrow> [])) clauses)))
       (to_cnf z (z_simplify z e))"

fun restrict_cases :: "z3_api \<Rightarrow> z3expr \<Rightarrow> cases \<Rightarrow> cases option" where
  "restrict_cases z domain [] = Some []"
| "restrict_cases z domain ((c, x) # cs) =
     (case simplify z c (Some domain) of
        None \<Rightarrow> None
      | Some restricted \<Rightarrow>
          map_option (\<lambda>rest. if z_check z [domain, restricted] = Sat then (restricted, x) # rest else rest)
            (restrict_cases z domain cs))"

definition restrict_to_domain :: "z3_api \<Rightarrow> z3expr \<Rightarrow> z3expr \<Rightarrow> z3expr option" where
  "restrict_to_domain z f domain =
     (case restrict_cases z domain (expr2piecewise z f) of
        None \<Rightarrow> None
      | Some feasible \<Rightarrow> piecewise2ite z feasible)"

section \<open>Linear literals\<close>

text \<open>\<open>normalize\<close>: the literal as \<open>e >= 0\<close>; a violated assertion has no result.\<close>

definition linear_side :: "z3expr \<Rightarrow> z3expr option" where
  "linear_side atom =
     (case args atom of
        [a, b] \<Rightarrow>
          let lhs = z_sub a b
          in if is_ge atom then Some lhs
             else if is_le atom then Some (z_neg lhs)
             else if is_lt atom then Some (z_sub (z_neg lhs) (z_int 1))
             else if is_gt atom then Some (z_sub lhs (z_int 1))
             else if is_eq atom then Some lhs
             else None
      | _ \<Rightarrow> None)"

definition linear_normalize :: "z3expr \<Rightarrow> z3expr option" where
  "linear_normalize literal =
     (if is_literal literal \<noteq> Some True then None
      else let negated = has_kind ONot literal;
               atom = (if negated then args literal ! 0 else literal)
           in map_option (\<lambda>lhs. z_ge (if negated then z_sub (z_neg lhs) (z_int 1) else lhs) (z_int 0))
                (linear_side atom))"

definition get_coeff :: "z3_api \<Rightarrow> z3expr \<Rightarrow> z3expr \<Rightarrow> z3expr" where
  "get_coeff z e var = z_simplify z (z_sub e (substitute [(var, z_sub var (z_int 1))] e))"

end
