(* ===== verification/Formula_Correctness.thy ===== *)
theory Formula_Correctness
  imports Formula_Logic
begin

text \<open>
  Correctness of the formula manipulation: index products enumerate all index vectors, merging,
  splitting and recombining piecewise expressions keep the value, minimising a conjunction keeps
  its meaning, and the normal forms are equivalent to the formula.
\<close>

section \<open>Index products\<close>

lemma set_cartesian_product:
  "start < length vec \<Longrightarrow> set (cartesian_product vec start) = {ix. list_all2 (<) ix (drop start vec)}"
proof (induction vec start rule: cartesian_product.induct)
  case (1 vec start)
  have d: "drop start vec = vec ! start # drop (Suc start) vec"
    using "1.prems" by (simp add: Cons_nth_drop_Suc)
  show ?case
  proof (cases "start = length vec - 1")
    case True
    then have "drop start vec = [vec ! start]" using "1.prems" d by simp
    moreover have "cartesian_product vec start = map (\<lambda>i. [i]) [0..<vec ! start]"
      using True "1.prems" by (subst cartesian_product.simps) simp
    ultimately show ?thesis by (auto simp: list_all2_Cons2)
  next
    case False
    have IH: "set (cartesian_product vec (start + 1)) = {ix. list_all2 (<) ix (drop (Suc start) vec)}"
      using "1.IH" False "1.prems" by simp
    have "cartesian_product vec start =
        concat (map (\<lambda>i. map (\<lambda>sub. i # sub) (cartesian_product vec (start + 1))) [0..<vec ! start])"
      using False "1.prems" by (subst cartesian_product.simps) (simp add: Let_def)
    then show ?thesis using IH d by (auto simp: list_all2_Cons2)
  qed
qed

lemma distinct_cartesian_product: "distinct (cartesian_product vec start)"
proof (induction vec start rule: cartesian_product.induct)
  case (1 vec start)
  have one: "distinct (map (\<lambda>i. [i]) [0..<n])" for n :: nat
    by (simp add: distinct_map inj_on_def)
  have two: "distinct (concat (map (\<lambda>i. map ((#) i) subs) [0..<n]))"
    if "distinct subs" for subs :: "nat list list" and n :: nat
    using that by (induction n) (auto simp: distinct_map inj_on_def)
  show ?case
    using 1 one two by (subst cartesian_product.simps) (simp add: Let_def)
qed

lemma cartesian_product_0:
  "vec \<noteq> [] \<Longrightarrow> set (cartesian_product vec 0) = {ix. list_all2 (<) ix vec}"
  using set_cartesian_product [of 0 vec] by simp

section \<open>Questions to the solver\<close>

lemma implies_sound: "check_ok z \<Longrightarrow> implies z a b \<Longrightarrow> holds I a \<Longrightarrow> holds I b"
  using check_unsat [of z "[a, z_not b]" I] by (auto simp: implies_def sem_simps)

lemma conditionally_eq_sound:
  "check_ok z \<Longrightarrow> conditionally_eq z c a b \<Longrightarrow> holds I c \<Longrightarrow> eval I a = eval I b"
  using check_unsat [of z "[c, z_ne a b]" I] by (auto simp: conditionally_eq_def sem_simps)

lemma is_equivalent_sound: "check_ok z \<Longrightarrow> is_equivalent z a b \<Longrightarrow> eval I a = eval I b"
  using check_unsat [of z "[z_ne a b]" I] by (auto simp: is_equivalent_def sem_simps)

lemma infeasible_sound:
  "check_ok z \<Longrightarrow> z_check z fs \<noteq> Unknown \<Longrightarrow> z_check z fs \<noteq> Sat \<Longrightarrow> \<exists>f\<in>set fs. \<not> holds I f"
  using check_unsat [of z fs I] by (cases "z_check z fs") auto

section \<open>The value of a piecewise expression\<close>

definition cases_value :: "interp \<Rightarrow> cases \<Rightarrow> z3val \<Rightarrow> bool" where
  "cases_value I cs v \<longleftrightarrow>
     (\<exists>p\<in>set cs. holds I (fst p)) \<and> (\<forall>p\<in>set cs. holds I (fst p) \<longrightarrow> eval I (snd p) = v)"

lemma cases_value_unique: "cases_value I cs v \<Longrightarrow> cases_value I cs v' \<Longrightarrow> v = v'"
  unfolding cases_value_def by blast

lemma holds_foldl_or:
  "holds I (foldl (\<lambda>c i. z_or c (f i)) c0 ms) \<longleftrightarrow> holds I c0 \<or> (\<exists>i\<in>set ms. holds I (f i))"
  by (induction ms arbitrary: c0) (auto simp: sem_simps)

lemma merge_pivot_value:
  assumes z: "check_ok z" and pivot: "pivot < length cs" and v: "cases_value I cs v"
  shows "cases_value I (merge_pivot z cs pivot) v"
proof -
  let ?m = "merged_cases z cs pivot"
  let ?c = "foldl (\<lambda>c i. z_or c (fst (cs ! i))) (fst (cs ! pivot)) ?m"
  have pc: "holds I ?c \<longleftrightarrow> holds I (fst (cs ! pivot)) \<or> (\<exists>i\<in>set ?m. holds I (fst (cs ! i)))"
    by (rule holds_foldl_or)
  have all: "eval I (snd (cs ! i)) = v" if "i < length cs" "holds I (fst (cs ! i))" for i
    using v that unfolding cases_value_def by (metis nth_mem)
  have pv: "eval I (snd (cs ! pivot)) = v" if "holds I ?c"
  proof (cases "holds I (fst (cs ! pivot))")
    case True
    then show ?thesis using all pivot by blast
  next
    case False
    then obtain i where i: "i \<in> set ?m" "holds I (fst (cs ! i))" using pc \<open>holds I ?c\<close> by blast
    then have "eval I (snd (cs ! pivot)) = eval I (snd (cs ! i))"
      by (intro conditionally_eq_sound [OF z]) (auto simp: merged_cases_def)
    then show ?thesis using all i merged_cases_bounds by metis
  qed
  have set: "set (merge_pivot z cs pivot) = insert (?c, snd (cs ! pivot))
      {cs ! i |i. i < length cs \<and> i \<noteq> pivot \<and> i \<notin> set ?m}"
    using pivot by (auto simp: merge_pivot_def Let_def merged_cases_def image_def)
  obtain k where k: "k < length cs" "holds I (fst (cs ! k))"
    using v unfolding cases_value_def by (metis in_set_conv_nth)
  have "\<exists>p\<in>set (merge_pivot z cs pivot). holds I (fst p)"
  proof (cases "k = pivot \<or> k \<in> set ?m")
    case True
    then have "holds I ?c" using pc k by blast
    then show ?thesis unfolding set by auto
  next
    case False
    then have "cs ! k \<in> set (merge_pivot z cs pivot)" unfolding set using k(1) by blast
    then show ?thesis using k(2) by blast
  qed
  moreover have "eval I (snd p) = v" if "p \<in> set (merge_pivot z cs pivot)" "holds I (fst p)" for p
    using that pv all unfolding set by auto
  ultimately show ?thesis unfolding cases_value_def by blast
qed

lemma merge_from_value:
  "check_ok z \<Longrightarrow> cases_value I cs v \<Longrightarrow> cases_value I (merge_from z cs pivot) v"
proof (induction z cs pivot rule: merge_from.induct)
  case (1 z cs pivot)
  then show ?case
    by (subst merge_from.simps) (simp add: merge_pivot_value)
qed

lemma merge_cases_value: "check_ok z \<Longrightarrow> cases_value I cs v \<Longrightarrow> cases_value I (merge_cases z cs) v"
  by (simp add: merge_cases_def merge_from_value)

lemma set_merge_pivot_snd:
  "pivot < length cs \<Longrightarrow> snd ` set (merge_pivot z cs pivot) \<subseteq> snd ` set cs"
  by (auto simp: merge_pivot_def Let_def)

lemma set_merge_from_snd: "snd ` set (merge_from z cs pivot) \<subseteq> snd ` set cs"
proof (induction z cs pivot rule: merge_from.induct)
  case (1 z cs pivot)
  show ?case
  proof (cases "pivot < length cs")
    case True
    then show ?thesis
      using 1 set_merge_pivot_snd [OF True, of z] by (subst merge_from.simps) auto
  next
    case False
    then show ?thesis by (subst merge_from.simps) auto
  qed
qed

lemma merge_cases_nonempty: "cases_value I cs v \<Longrightarrow> cs \<noteq> []"
  by (auto simp: cases_value_def)

section \<open>Splitting conditional terms\<close>

text \<open>
  What the two solver passes promise: the first adds auxiliary constants (printed with an exclamation
  mark) whose existence makes its goals equivalent to the formula, the second eliminates
  quantifiers.
\<close>

definition elim_ite_ok :: "z3_api \<Rightarrow> bool" where
  "elim_ite_ok z \<longleftrightarrow> (\<forall>e I. holds I e \<longleftrightarrow>
     (\<exists>vs. length vs = length (collect_aux_vars z (mk_or (z_elim_ite z e))) \<and>
        holds (bind_ints I (map const_name (collect_aux_vars z (mk_or (z_elim_ite z e)))) vs)
          (mk_or (z_elim_ite z e))))"

definition qe_ok :: "z3_api \<Rightarrow> bool" where
  "qe_ok z \<longleftrightarrow> (\<forall>e I. holds I (mk_or (z_qe z e)) \<longleftrightarrow> holds I e)"

definition z3_ok :: "z3_api \<Rightarrow> bool" where
  "z3_ok z \<longleftrightarrow> simplify_ok z \<and> check_ok z \<and> core_ok z \<and> elim_ite_ok z \<and> qe_ok z"

lemma z3_okD:
  "z3_ok z \<Longrightarrow> simplify_ok z" "z3_ok z \<Longrightarrow> check_ok z" "z3_ok z \<Longrightarrow> core_ok z"
  "z3_ok z \<Longrightarrow> elim_ite_ok z" "z3_ok z \<Longrightarrow> qe_ok z"
  by (simp_all add: z3_ok_def)

lemma bind_ints_Nil [simp]: "bind_ints I [] vs = I"
  by (simp add: bind_ints_def fun_eq_iff)

lemma holds_exists:
  "holds I (z_exists vars b) \<longleftrightarrow>
     (\<exists>vs. length vs = length vars \<and> holds (bind_ints I (map const_name vars) vs) b)"
  by (simp add: z_exists_def holds_def)

lemma eliminate_ite_sound:
  assumes "z3_ok z"
  shows "holds I (eliminate_ite z e) \<longleftrightarrow> holds I e"
proof -
  let ?r = "mk_or (z_elim_ite z e)"
  let ?aux = "collect_aux_vars z ?r"
  have elim: "holds I e \<longleftrightarrow>
      (\<exists>vs. length vs = length ?aux \<and> holds (bind_ints I (map const_name ?aux) vs) ?r)"
    using z3_okD(4) [OF assms] unfolding elim_ite_ok_def by blast
  show ?thesis
  proof (cases "?aux = []")
    case True
    then show ?thesis
      using elim holds_simplify [OF z3_okD(1) [OF assms]] by (simp add: eliminate_ite_def Let_def)
  next
    case False
    have "holds I (mk_or (z_qe z (z_exists ?aux ?r))) \<longleftrightarrow> holds I (z_exists ?aux ?r)"
      using z3_okD(5) [OF assms] unfolding qe_ok_def by blast
    then show ?thesis
      using elim False holds_simplify [OF z3_okD(1) [OF assms]] holds_exists [of I ?aux ?r]
      by (simp add: eliminate_ite_def Let_def)
  qed
qed

lemma closed_z3_vars: "collect_aux_vars closed_z3 e = []"
  by (simp add: collect_aux_vars_def closed_z3_def)

lemma closed_z3_ok [simp]: "z3_ok closed_z3"
proof -
  have "elim_ite_ok closed_z3"
    unfolding elim_ite_ok_def closed_z3_vars by (simp add: closed_z3_def sem_simps)
  moreover have "qe_ok closed_z3"
    unfolding qe_ok_def by (simp add: closed_z3_def sem_simps)
  ultimately show ?thesis by (simp add: z3_ok_def)
qed

text \<open>Conditionals have three arguments and branches of one sort.\<close>

fun ite_sorted :: "z3expr \<Rightarrow> bool" where
  "ite_sorted (App f es) =
     (list_all ite_sorted es \<and>
      (f = OIte \<longrightarrow> (case es of [c, a, b] \<Rightarrow> sort_of a = sort_of b | _ \<Rightarrow> False)))"
| "ite_sorted (Quant _ _ _) = True"

fun ite_free :: "z3expr \<Rightarrow> bool" where
  "ite_free (App f es) = (f \<noteq> OIte \<and> list_all ite_free es)"
| "ite_free (Quant _ _ _) = True"

lemma cases_value_map_cond:
  "(\<And>c. holds I (g c) = holds I c) \<Longrightarrow>
     cases_value I (map (\<lambda>(c, x). (g c, x)) cs) v \<longleftrightarrow> cases_value I cs v"
  by (simp add: cases_value_def case_prod_beta)

lemma holds_foldl_and:
  "holds I (foldl (\<lambda>acc cx. z_and acc (fst cx)) c0 cxs) \<longleftrightarrow> holds I c0 \<and> (\<forall>cx\<in>set cxs. holds I (fst cx))"
  by (induction cxs arbitrary: c0) (auto simp: sem_simps)

lemma product_case_exists:
  assumes "list_all2 (\<lambda>cs v. cases_value I cs v) css vs"
  shows "\<exists>ix. list_all2 (<) ix (map length css) \<and>
    (\<forall>cx\<in>set (map2 (\<lambda>cs i. cs ! i) css ix). holds I (fst cx))"
  using assms
proof (induction css vs rule: list_all2_induct)
  case (Cons cs css v vs)
  then obtain ix where ix: "list_all2 (<) ix (map length css)"
    "\<forall>cx\<in>set (map2 (\<lambda>cs i. cs ! i) css ix). holds I (fst cx)" by blast
  obtain k where "k < length cs" "holds I (fst (cs ! k))"
    using Cons(1) unfolding cases_value_def by (metis in_set_conv_nth)
  then show ?case using ix by (intro exI [of _ "k # ix"]) simp
qed simp

lemma product_case_value:
  assumes "list_all2 (\<lambda>cs v. cases_value I cs v) css vs" "list_all2 (<) ix (map length css)"
    and "\<forall>cx\<in>set (map2 (\<lambda>cs i. cs ! i) css ix). holds I (fst cx)"
  shows "map (eval I) (map snd (map2 (\<lambda>cs i. cs ! i) css ix)) = vs"
  using assms
proof (induction css vs arbitrary: ix rule: list_all2_induct)
  case (Cons cs css v vs)
  obtain k ix' where ix: "ix = k # ix'" "k < length cs" "list_all2 (<) ix' (map length css)"
    using Cons(4) by (auto simp: list_all2_Cons2)
  have "eval I (snd (cs ! k)) = v"
    using Cons(1,5) ix unfolding cases_value_def by (auto simp: ix(1))
  then show ?case using Cons(3) [OF ix(3)] Cons(5) ix(1) by simp
qed simp

definition split_case :: "z3_api \<Rightarrow> z3expr \<Rightarrow> cases" where
  "split_case z a = merge_cases z
     (map (\<lambda>(c, x). (eliminate_ite z c, x)) (aux_expr2piecewise z a z_true))"

lemma expr2piecewise_split: "expr2piecewise z e = split_case z e"
  by (simp add: expr2piecewise_def split_case_def)

text \<open>The two shapes of a compound term.\<close>

lemma aux_piecewise_ite:
  "aux_expr2piecewise z (z_ite c a b) cur =
     aux_expr2piecewise z a (z_and c cur) @ aux_expr2piecewise z b (z_and (z_not c) cur)"
  by (simp add: aux_expr2piecewise.simps)

lemma aux_piecewise_app:
  assumes "es \<noteq> []" "f \<noteq> OIte"
  shows "aux_expr2piecewise z (App f es) cur =
     map (\<lambda>ix. let chosen = map2 (\<lambda>cs i. cs ! i) (map (split_case z) es) ix
               in (z_and (foldl (\<lambda>acc cx. z_and acc (fst cx)) z_true chosen) cur, App f (map snd chosen)))
       (cartesian_product (map length (map (split_case z) es)) 0)"
proof -
  have "split_case z = (\<lambda>a. merge_cases z
     (map (\<lambda>(c, x). (eliminate_ite z c, x)) (aux_expr2piecewise z a z_true)))"
    by (rule ext) (simp add: split_case_def)
  then show ?thesis
    using assms by (cases f) (simp_all only: aux_expr2piecewise.simps Let_def z3op.case prod.case if_False simp_thms)
qed

lemma aux_piecewise_value:
  assumes z: "z3_ok z"
  shows "ite_sorted e \<Longrightarrow>
    (holds I cur \<longrightarrow> cases_value I (aux_expr2piecewise z e cur) (eval I e)) \<and>
    (\<not> holds I cur \<longrightarrow> (\<forall>p\<in>set (aux_expr2piecewise z e cur). \<not> holds I (fst p)))"
proof (induction e arbitrary: cur)
  case (App f es)
  consider "es = []" | c a b where "f = OIte" "es = [c, a, b]" | "es \<noteq> []" "f \<noteq> OIte"
    using App.prems by (auto split: list.splits)
  then show ?case
  proof cases
    case 1
    then show ?thesis by (simp add: aux_expr2piecewise.simps cases_value_def)
  next
    case (2 c a b)
    have sorts: "sort_of a = sort_of b" "ite_sorted a" "ite_sorted b"
      using App.prems 2 by auto
    note a = App.IH [of a "z_and c cur"] and b = App.IH [of b "z_and (z_not c) cur"]
    show ?thesis
      using a b sorts eval_ite [OF sorts(1), of I c] 2
      by (auto simp: aux_piecewise_ite cases_value_def sem_simps)
  next
    case 3
    have split: "cases_value I (split_case z a) (eval I a)" if "a \<in> set es" for a
    proof -
      have "cases_value I (aux_expr2piecewise z a z_true) (eval I a)"
        using App.IH [OF that, of z_true] App.prems that by (simp add: list_all_iff sem_simps)
      then have "cases_value I (map (\<lambda>(c, x). (eliminate_ite z c, x)) (aux_expr2piecewise z a z_true)) (eval I a)"
        by (simp add: cases_value_map_cond [OF eliminate_ite_sound [OF z]])
      then show ?thesis unfolding split_case_def by (rule merge_cases_value [OF z3_okD(2) [OF z]])
    qed
    let ?css = "map (split_case z) es"
    have all2: "list_all2 (cases_value I) ?css (map (eval I) es)"
      using split by (simp add: list_all2_map1 list_all2_map2 list_all2_same)
    have ne: "map length ?css \<noteq> []" using 3 by simp
    have prod: "p \<in> set (aux_expr2piecewise z (App f es) cur) \<longleftrightarrow>
        (\<exists>ix. list_all2 (<) ix (map length ?css) \<and>
          p = (z_and (foldl (\<lambda>acc cx. z_and acc (fst cx)) z_true (map2 (\<lambda>cs i. cs ! i) ?css ix)) cur,
               App f (map snd (map2 (\<lambda>cs i. cs ! i) ?css ix))))" for p
      unfolding aux_piecewise_app [OF 3] set_map cartesian_product_0 [OF ne] Let_def by blast
    have cond: "holds I (z_and (foldl (\<lambda>acc cx. z_and acc (fst cx)) z_true cxs) cur) \<longleftrightarrow>
        (\<forall>cx\<in>set cxs. holds I (fst cx)) \<and> holds I cur" for cxs
      using holds_foldl_and [of I z_true cxs] by (simp add: sem_simps)
    have app_val: "eval I (App f (map snd (map2 (\<lambda>cs i. cs ! i) ?css ix))) = eval I (App f es)"
      if "list_all2 (<) ix (map length ?css)"
        "\<forall>cx\<in>set (map2 (\<lambda>cs i. cs ! i) ?css ix). holds I (fst cx)" for ix
      using product_case_value [OF all2 that] unfolding eval.simps by (rule arg_cong)
    have "cases_value I (aux_expr2piecewise z (App f es) cur) (eval I (App f es))" if "holds I cur"
    proof -
      obtain ix where ix: "list_all2 (<) ix (map length ?css)"
        "\<forall>cx\<in>set (map2 (\<lambda>cs i. cs ! i) ?css ix). holds I (fst cx)"
        using product_case_exists [OF all2] by blast
      show ?thesis
        unfolding cases_value_def Ball_def Bex_def prod
        using ix that cond app_val by (metis fst_conv snd_conv)
    qed
    moreover have "\<forall>p\<in>set (aux_expr2piecewise z (App f es) cur). \<not> holds I (fst p)" if "\<not> holds I cur"
      unfolding Ball_def prod using that cond by (metis fst_conv)
    ultimately show ?thesis by blast
  qed
qed (simp add: aux_expr2piecewise.simps cases_value_def)

lemma expr2piecewise_value:
  assumes z: "z3_ok z" and e: "ite_sorted e"
  shows "cases_value I (expr2piecewise z e) (eval I e)"
proof -
  have "cases_value I (aux_expr2piecewise z e z_true) (eval I e)"
    using aux_piecewise_value [OF z e, of I z_true] by (simp add: sem_simps)
  then have "cases_value I (map (\<lambda>(c, x). (eliminate_ite z c, x)) (aux_expr2piecewise z e z_true)) (eval I e)"
    by (simp add: cases_value_map_cond [OF eliminate_ite_sound [OF z]])
  then show ?thesis
    unfolding expr2piecewise_def by (rule merge_cases_value [OF z3_okD(2) [OF z]])
qed

lemma set_merge_cases_snd: "snd ` set (merge_cases z cs) \<subseteq> snd ` set cs"
  by (simp add: merge_cases_def set_merge_from_snd)

lemma aux_piecewise_ite_free:
  "ite_sorted e \<Longrightarrow> p \<in> set (aux_expr2piecewise z e cur) \<Longrightarrow> ite_free (snd p)"
proof (induction e arbitrary: cur p)
  case (App f es)
  consider "es = []" | c a b where "f = OIte" "es = [c, a, b]" | "es \<noteq> []" "f \<noteq> OIte"
    using App.prems(1) by (auto split: list.splits)
  then show ?case
  proof cases
    case 1
    then show ?thesis using App.prems by (auto simp: aux_expr2piecewise.simps)
  next
    case (2 c a b)
    then have "p \<in> set (aux_expr2piecewise z a (z_and c cur)) \<or>
        p \<in> set (aux_expr2piecewise z b (z_and (z_not c) cur))"
      using App.prems(2) by (simp add: aux_piecewise_ite)
    moreover have "ite_sorted a" "ite_sorted b" using App.prems(1) 2 by simp_all
    ultimately show ?thesis using App.IH [of a] App.IH [of b] 2 by (cases p) auto
  next
    case 3
    have split: "ite_free (snd q)" if "a \<in> set es" "q \<in> set (split_case z a)" for a q
    proof -
      have "snd q \<in> snd ` set (aux_expr2piecewise z a z_true)"
        using that(2) set_merge_cases_snd unfolding split_case_def by (fastforce simp: case_prod_beta)
      then show ?thesis using App.IH [OF that(1)] App.prems(1) that(1) by (auto simp: list_all_iff)
    qed
    have ne: "map length (map (split_case z) es) \<noteq> []" using 3 by simp
    obtain ix where ix: "list_all2 (<) ix (map length (map (split_case z) es))"
      "snd p = App f (map snd (map2 (\<lambda>cs i. cs ! i) (map (split_case z) es) ix))"
      using App.prems(2) unfolding aux_piecewise_app [OF 3] set_map cartesian_product_0 [OF ne] Let_def
      by auto
    have "ite_free (snd q)" if "q \<in> set (map2 (\<lambda>cs i. cs ! i) (map (split_case z) es) ix)" for q
    proof -
      from that obtain k where "k < length (map2 (\<lambda>cs i. cs ! i) (map (split_case z) es) ix)"
        "map2 (\<lambda>cs i. cs ! i) (map (split_case z) es) ix ! k = q"
        unfolding in_set_conv_nth by blast
      then have k: "k < length es" "k < length ix" "q = split_case z (es ! k) ! (ix ! k)" by auto
      moreover have "ix ! k < length (split_case z (es ! k))"
        using list_all2_nthD [OF ix(1) k(2)] k(1) by simp
      ultimately show ?thesis using split [OF nth_mem nth_mem] by blast
    qed
    then show ?thesis using ix(2) 3 by (simp add: list_all_iff)
  qed
qed (simp add: aux_expr2piecewise.simps)

lemma expr2piecewise_ite_free:
  assumes "ite_sorted e" "p \<in> set (expr2piecewise z e)"
  shows "ite_free (snd p)"
proof -
  have "snd p \<in> snd ` set (aux_expr2piecewise z e z_true)"
    using assms(2) set_merge_cases_snd unfolding expr2piecewise_def by (fastforce simp: case_prod_beta)
  then show ?thesis using aux_piecewise_ite_free [OF assms(1)] by auto
qed

text \<open>The pieces have the sort of the term.\<close>

lemma aux_piecewise_sort:
  "ite_sorted e \<Longrightarrow> p \<in> set (aux_expr2piecewise z e cur) \<Longrightarrow> sort_of (snd p) = sort_of e"
proof (induction e arbitrary: cur p)
  case (App f es)
  consider "es = []" | c a b where "f = OIte" "es = [c, a, b]" | "es \<noteq> []" "f \<noteq> OIte"
    using App.prems(1) by (auto split: list.splits)
  then show ?case
  proof cases
    case 1
    then show ?thesis using App.prems by (auto simp: aux_expr2piecewise.simps)
  next
    case (2 c a b)
    then have "p \<in> set (aux_expr2piecewise z a (z_and c cur)) \<or>
        p \<in> set (aux_expr2piecewise z b (z_and (z_not c) cur))"
      using App.prems(2) by (simp add: aux_piecewise_ite)
    moreover have "ite_sorted a" "ite_sorted b" "sort_of a = sort_of b" using App.prems(1) 2 by simp_all
    ultimately show ?thesis using App.IH [of a p] App.IH [of b p] 2 by auto
  next
    case 3
    have same: "sort_of (App f es') = sort_of (App f es)" for es'
      using 3 by (cases f) simp_all
    have "\<exists>es'. snd p = App f es'"
      using App.prems(2) unfolding aux_piecewise_app [OF 3] Let_def by auto
    then show ?thesis using same by metis
  qed
qed (simp add: aux_expr2piecewise.simps)

lemma expr2piecewise_sort:
  assumes "ite_sorted e" "p \<in> set (expr2piecewise z e)"
  shows "sort_of (snd p) = sort_of e"
proof -
  have "snd p \<in> snd ` set (aux_expr2piecewise z e z_true)"
    using assms(2) set_merge_cases_snd unfolding expr2piecewise_def by (fastforce simp: case_prod_beta)
  then show ?thesis using aux_piecewise_sort [OF assms(1)] by auto
qed

section \<open>Recombining cases\<close>

lemma eval_ite_chain:
  assumes "\<forall>p\<in>set (cs @ [d]). sort_of (snd p) = s" "cases_value I (cs @ [d]) v"
  shows "eval I (foldr (\<lambda>cx e. z_ite (fst cx) (snd cx) e) cs (snd d)) = v \<and>
    sort_of (foldr (\<lambda>cx e. z_ite (fst cx) (snd cx) e) cs (snd d)) = s"
  using assms
proof (induction cs)
  case Nil
  then show ?case by (simp add: cases_value_def)
next
  case (Cons c cs)
  let ?rest = "foldr (\<lambda>cx e. z_ite (fst cx) (snd cx) e) cs (snd d)"
  have rest_sort: "sort_of ?rest = s"
    using Cons.prems(1) by (cases cs) auto
  show ?case
  proof (cases "holds I (fst c)")
    case True
    then show ?thesis
      using Cons.prems rest_sort by (simp add: eval_ite cases_value_def del: eval.simps)
  next
    case False
    then have "cases_value I (cs @ [d]) v" using Cons.prems(2) by (auto simp: cases_value_def)
    then have "eval I ?rest = v" using Cons by simp
    then show ?thesis using False Cons.prems(1) rest_sort by (simp add: eval_ite del: eval.simps)
  qed
qed

lemma piecewise2ite_value:
  assumes z: "z3_ok z" and sorts: "\<forall>p\<in>set cs. sort_of (snd p) = s" and v: "cases_value I cs v"
  shows "\<exists>e. piecewise2ite z cs = Some e \<and> eval I e = v \<and> sort_of e = s"
proof (cases "length cs = 1")
  case True
  then obtain p where "cs = [p]" by (metis One_nat_def length_0_conv length_Suc_conv)
  then show ?thesis using v sorts by (simp add: piecewise2ite_def cases_value_def)
next
  case False
  let ?cs = "merge_cases z cs"
  have mv: "cases_value I ?cs v" using merge_cases_value [OF z3_okD(2) [OF z] v] .
  then have ne: "?cs \<noteq> []" by (rule merge_cases_nonempty)
  then have eq: "butlast ?cs @ [last ?cs] = ?cs" by simp
  have "\<forall>p\<in>set ?cs. sort_of (snd p) = s"
    using sorts set_merge_cases_snd [of z cs] by (metis (no_types, lifting) imageE image_eqI subsetD)
  with eval_ite_chain [of "butlast ?cs" "last ?cs" s I v] show ?thesis
    using mv eq ne False by (simp add: piecewise2ite_def Let_def)
qed

section \<open>Conjunctions\<close>

lemma set_except: "p < length xs \<Longrightarrow> set xs = insert (xs ! p) (set (get_expr_vec_except xs p))"
  by (metis get_expr_vec_except_def id_take_nth_drop list.simps(15) set_append Un_insert_right)

lemma minimize_conjunction_holds:
  assumes z: "check_ok z" and assumed: "\<forall>a. assumption = Some a \<longrightarrow> holds I a"
  shows "(\<forall>e\<in>set (minimize_conjunction z cs p assumption). holds I e) \<longleftrightarrow> (\<forall>e\<in>set cs. holds I e)"
  using assms
proof (induction z cs p assumption rule: minimize_conjunction.induct)
  case (1 z cs p assumption)
  let ?a = "case assumption of Some a \<Rightarrow> a | None \<Rightarrow> z_true"
  have a: "holds I ?a" using "1.prems"(2) by (cases assumption) (auto simp: sem_simps)
  show ?case
  proof (cases "p \<ge> length cs")
    case True
    then show ?thesis by (subst minimize_conjunction.simps) simp
  next
    case False
    let ?rem = "get_expr_vec_except cs p"
    show ?thesis
    proof (cases "z_check z ([z_true, ?a] @ ?rem @ [z_not (cs ! p)]) = Unsat")
      case True
      have "\<exists>f\<in>set ([z_true, ?a] @ ?rem @ [z_not (cs ! p)]). \<not> holds I f"
        using check_unsat [OF "1.prems"(1) True] .
      then have "(\<forall>e\<in>set ?rem. holds I e) \<Longrightarrow> holds I (cs ! p)"
        using a by (auto simp: sem_simps)
      then have "(\<forall>e\<in>set ?rem. holds I e) \<longleftrightarrow> (\<forall>e\<in>set cs. holds I e)"
        using set_except [of p cs] False by auto
      then show ?thesis
        using "1.IH"(1) [OF refl False refl refl True "1.prems"(1)] a False True
        by (subst minimize_conjunction.simps) (simp add: Let_def)
    next
      case ne: False
      then show ?thesis
        using "1.IH"(2) [OF refl False refl refl ne "1.prems"(1)] a False
        by (subst minimize_conjunction.simps) (simp add: Let_def)
    qed
  qed
qed

lemma minimize_conjunction_subset: "set (minimize_conjunction z cs p assumption) \<subseteq> set cs"
proof (induction z cs p assumption rule: minimize_conjunction.induct)
  case (1 z cs p assumption)
  let ?a = "case assumption of Some a \<Rightarrow> a | None \<Rightarrow> z_true"
  show ?case
  proof (cases "p \<ge> length cs")
    case True
    then show ?thesis by (subst minimize_conjunction.simps) simp
  next
    case False
    then have sub: "set (get_expr_vec_except cs p) \<subseteq> set cs" using set_except [of p cs] by auto
    show ?thesis
      using "1.IH"(1) [OF refl False refl refl] "1.IH"(2) [OF refl False refl refl] False sub
      by (subst minimize_conjunction.simps) (auto simp: Let_def)
  qed
qed

text \<open>
  The result from the first pivot is irredundant as far as the solver can tell: no literal is
  reported to follow from the assumption and the others.
\<close>

definition irredundant :: "z3_api \<Rightarrow> z3expr \<Rightarrow> z3expr list \<Rightarrow> nat \<Rightarrow> bool" where
  "irredundant z a cs n \<longleftrightarrow> (\<forall>i<n. \<not> (\<forall>I. holds I a \<longrightarrow>
     (\<forall>e\<in>set (get_expr_vec_except cs i). holds I e) \<longrightarrow> holds I (cs ! i)))"

section \<open>Conjunctive normal form\<close>

lemma implicant_sound:
  assumes z: "check_ok z" "core_ok z" and imp: "implicant z atms fml snot = Some clause"
  shows "holds I fml \<Longrightarrow> holds I clause"
proof -
  let ?lits = "map (atom2literal (z_model z snot)) atms"
  let ?core = "z_core z [fml] ?lits"
  have un: "z_check z ([fml] @ ?lits) = Unsat"
    and cl: "clause = mk_or (map z_not (minimize_conjunction z ?core 0 None))"
    using imp by (auto simp: implicant_def Let_def split: if_splits)
  have "\<not> (\<exists>I. (\<forall>f\<in>set [fml]. holds I f) \<and> (\<forall>l\<in>set ?core. holds I l))"
    using z(2) un unfolding core_ok_def by blast
  moreover assume "holds I fml"
  ultimately have "\<not> (\<forall>l\<in>set ?core. holds I l)" by auto
  then have "\<not> (\<forall>l\<in>set (minimize_conjunction z ?core 0 None). holds I l)"
    using minimize_conjunction_holds [OF z(1), of None I ?core 0] by simp
  then show "holds I clause" by (auto simp: cl sem_simps)
qed

definition cnf_inv :: "z3expr \<Rightarrow> z3expr list \<Rightarrow> z3expr list \<Rightarrow> bool" where
  "cnf_inv fml snot cls \<longleftrightarrow>
     (\<forall>I. holds I fml \<longrightarrow> (\<forall>c\<in>set cls. holds I c)) \<and>
     (\<forall>I. (\<forall>c\<in>set cls. holds I c) \<and> \<not> holds I fml \<longrightarrow> (\<forall>f\<in>set snot. holds I f))"

lemma cnf_inv_step:
  assumes z: "z3_ok z" and inv: "cnf_inv fml snot cls"
    and imp: "implicant z atms fml snot = Some clause"
  shows "cnf_inv fml (snot @ [clause]) (cls @ [z_simplify z clause])"
proof -
  have s: "holds I (z_simplify z clause) = holds I clause" for I
    by (rule holds_simplify [OF z3_okD(1) [OF z]])
  have c: "holds I fml \<Longrightarrow> holds I clause" for I
    by (rule implicant_sound [OF z3_okD(2,3) [OF z] imp])
  have inv1: "holds I fml \<Longrightarrow> d \<in> set cls \<Longrightarrow> holds I d" for I d
    using inv unfolding cnf_inv_def by blast
  have inv2: "\<forall>d\<in>set cls. holds I d \<Longrightarrow> \<not> holds I fml \<Longrightarrow> f \<in> set snot \<Longrightarrow> holds I f" for I f
    using inv unfolding cnf_inv_def by blast
  show ?thesis
    unfolding cnf_inv_def [of fml "snot @ [clause]"]
  proof (intro conjI allI impI ballI)
    fix I d assume "holds I fml" "d \<in> set (cls @ [z_simplify z clause])"
    then show "holds I d" using inv1 [of I d] c [of I] s [of I] by (cases "d \<in> set cls") simp_all
  next
    fix I f assume a: "(\<forall>c\<in>set (cls @ [z_simplify z clause]). holds I c) \<and> \<not> holds I fml"
      and f: "f \<in> set (snot @ [clause])"
    show "holds I f"
    proof (cases "f \<in> set snot")
      case True
      then show ?thesis using inv2 [of I f] a by simp
    next
      case False
      then have "f = clause" using f by simp
      moreover have "holds I (z_simplify z clause)" using a by simp
      ultimately show ?thesis using s [of I] by simp
    qed
  qed
qed

lemma cnf_loop_sound:
  assumes ret: "cnf_loop z fml atms snot cls = Some res" and z: "z3_ok z" and inv: "cnf_inv fml snot cls"
  shows "\<exists>fs. z_check z fs \<noteq> Sat \<and> cnf_inv fml fs res"
proof -
  let ?P = "\<lambda>z fml atms snot cls res. z3_ok z \<longrightarrow> cnf_inv fml snot cls \<longrightarrow>
    (\<exists>fs. z_check z fs \<noteq> Sat \<and> cnf_inv fml fs res)"
  have "?P z fml atms snot cls res"
  proof (rule cnf_loop.raw_induct [where P = ?P, OF _ ret])
    fix f z fml atms snot cls res
    assume IH: "\<And>z fml atms snot cls res. f z fml atms snot cls = Some res \<Longrightarrow> ?P z fml atms snot cls res"
      and eq: "(if z_check z snot = Sat
        then case implicant z atms fml snot of None \<Rightarrow> None
          | Some clause \<Rightarrow> f z fml atms (snot @ [clause]) (cls @ [z_simplify z clause])
        else Some cls) = Some res"
    show "?P z fml atms snot cls res"
    proof (intro impI)
      assume z: "z3_ok z" and inv: "cnf_inv fml snot cls"
      show "\<exists>fs. z_check z fs \<noteq> Sat \<and> cnf_inv fml fs res"
      proof (cases "z_check z snot = Sat")
        case True
        then obtain clause where c: "implicant z atms fml snot = Some clause"
          "f z fml atms (snot @ [clause]) (cls @ [z_simplify z clause]) = Some res"
          using eq by (auto split: option.splits)
        show ?thesis using IH [OF c(2)] z cnf_inv_step [OF z inv c(1)] by blast
      next
        case False
        then show ?thesis using eq inv by auto
      qed
    qed
  qed
  then show ?thesis using z inv by blast
qed

lemma to_cnf_sound:
  assumes z: "z3_ok z" and ret: "to_cnf z fml = Some clauses"
  shows "holds I fml \<Longrightarrow> c \<in> set clauses \<Longrightarrow> holds I c"
    and "\<forall>fs. z_check z fs \<noteq> Unknown \<Longrightarrow> (\<forall>c\<in>set clauses. holds I c) \<longleftrightarrow> holds I fml"
proof -
  obtain atms where "cnf_loop z fml atms [z_not fml] [] = Some clauses"
    using ret by (auto simp: to_cnf_def split: option.splits)
  moreover have "cnf_inv fml [z_not fml] []" by (auto simp: cnf_inv_def sem_simps)
  ultimately obtain fs where fs: "z_check z fs \<noteq> Sat" "cnf_inv fml fs clauses"
    using cnf_loop_sound [OF _ z] by blast
  show "holds I fml \<Longrightarrow> c \<in> set clauses \<Longrightarrow> holds I c"
    using fs(2) unfolding cnf_inv_def by blast
  assume known: "\<forall>fs. z_check z fs \<noteq> Unknown"
  have "\<exists>f\<in>set fs. \<not> holds I f"
    using infeasible_sound [OF z3_okD(2) [OF z] _ fs(1)] known by blast
  then show "(\<forall>c\<in>set clauses. holds I c) \<longleftrightarrow> holds I fml"
    using fs(2) unfolding cnf_inv_def by blast
qed

text \<open>
  Termination.  A formula is determined by its atoms when interpretations that agree on the atoms
  agree on it; every round of the loop then rules out a valuation of the atoms.
\<close>

definition determined_by :: "z3expr list \<Rightarrow> z3expr \<Rightarrow> bool" where
  "determined_by atms fml \<longleftrightarrow>
     (\<forall>I J. (\<forall>a\<in>set atms. holds I a = holds J a) \<longrightarrow> holds I fml = holds J fml)"

definition valuations :: "z3expr list \<Rightarrow> z3expr list \<Rightarrow> bool list set" where
  "valuations atms snot = {map (holds I) atms |I. \<forall>f\<in>set snot. holds I f}"

lemma finite_valuations: "finite (valuations atms snot)"
proof (rule finite_subset)
  show "valuations atms snot \<subseteq> {bs. set bs \<subseteq> UNIV \<and> length bs = length atms}"
    by (auto simp: valuations_def)
  show "finite {bs :: bool list. set bs \<subseteq> UNIV \<and> length bs = length atms}"
    by (rule finite_lists_length_eq) simp
qed

lemma holds_literals:
  "(\<forall>l\<in>set (map (atom2literal m) atms). holds I l) \<longleftrightarrow> map (holds I) atms = map (holds m) atms"
proof -
  have "holds I (atom2literal m a) \<longleftrightarrow> holds I a = holds m a" for a
    by (simp add: atom2literal_def holds_connectives)
  then show ?thesis by simp
qed

lemma implicant_progress:
  assumes z: "z3_ok z" and known: "\<forall>fs. z_check z fs \<noteq> Unknown"
    and det: "determined_by atms fml" and neg: "z_not fml \<in> set snot" and sat: "z_check z snot = Sat"
  shows "\<exists>clause. implicant z atms fml snot = Some clause \<and>
    valuations atms (snot @ [clause]) \<subset> valuations atms snot"
proof -
  let ?m = "z_model z snot"
  let ?lits = "map (atom2literal ?m) atms"
  let ?core = "z_core z [fml] ?lits"
  have m: "\<forall>f\<in>set snot. holds ?m f"
    using check_sat [OF z3_okD(2) [OF z] sat] by blast
  then have "holds ?m (z_not fml)" using neg by blast
  then have nm: "\<not> holds ?m fml" by (simp add: holds_connectives)
  have agree: "\<not> holds I fml" if "map (holds I) atms = map (holds ?m) atms" for I
  proof -
    have "\<forall>a\<in>set atms. holds I a = holds ?m a" using that by (simp only: map_eq_conv)
    then show ?thesis using det nm unfolding determined_by_def by blast
  qed
  have "z_check z ([fml] @ ?lits) \<noteq> Sat"
  proof
    assume s: "z_check z ([fml] @ ?lits) = Sat"
    let ?J = "z_model z ([fml] @ ?lits)"
    have "holds ?J fml" "\<forall>l\<in>set ?lits. holds ?J l"
      using check_sat [OF z3_okD(2) [OF z] s] by simp_all
    then show False using agree holds_literals by blast
  qed
  then have un: "z_check z ([fml] @ ?lits) = Unsat"
    using known by (cases "z_check z ([fml] @ ?lits)") auto
  define clause where "clause = mk_or (map z_not (minimize_conjunction z ?core 0 None))"
  have imp: "implicant z atms fml snot = Some clause"
    using un by (simp add: implicant_def Let_def clause_def)
  have core: "set ?core \<subseteq> set ?lits"
    using z3_okD(3) [OF z] un unfolding core_ok_def by blast
  have out: "\<not> holds I clause" if "map (holds I) atms = map (holds ?m) atms" for I
  proof -
    have "\<forall>l\<in>set ?lits. holds I l" using that holds_literals by blast
    then have "\<forall>l\<in>set (minimize_conjunction z ?core 0 None). holds I l"
      using core minimize_conjunction_subset [of z ?core 0 None] by blast
    then show ?thesis by (simp add: clause_def holds_connectives)
  qed
  have "map (holds ?m) atms \<in> valuations atms snot" unfolding valuations_def using m by blast
  moreover have "map (holds ?m) atms \<notin> valuations atms (snot @ [clause])"
  proof
    assume "map (holds ?m) atms \<in> valuations atms (snot @ [clause])"
    then obtain I where "map (holds ?m) atms = map (holds I) atms" "\<forall>f\<in>set (snot @ [clause]). holds I f"
      unfolding valuations_def by blast
    then show False using out [of I] by simp
  qed
  moreover have "valuations atms (snot @ [clause]) \<subseteq> valuations atms snot"
    unfolding valuations_def set_append ball_Un by blast
  ultimately show ?thesis using imp by blast
qed

lemma cnf_loop_terminates:
  assumes z: "z3_ok z" and known: "\<forall>fs. z_check z fs \<noteq> Unknown" and det: "determined_by atms fml"
  shows "z_not fml \<in> set snot \<Longrightarrow> \<exists>res. cnf_loop z fml atms snot cls = Some res \<and>
    length res \<le> length cls + card (valuations atms snot)"
proof (induction "card (valuations atms snot)" arbitrary: snot cls rule: less_induct)
  case less
  show ?case
  proof (cases "z_check z snot = Sat")
    case True
    obtain clause where c: "implicant z atms fml snot = Some clause"
      "valuations atms (snot @ [clause]) \<subset> valuations atms snot"
      using implicant_progress [OF z known det less.prems True] by blast
    have lt: "card (valuations atms (snot @ [clause])) < card (valuations atms snot)"
      by (rule psubset_card_mono [OF finite_valuations c(2)])
    obtain res where "cnf_loop z fml atms (snot @ [clause]) (cls @ [z_simplify z clause]) = Some res"
      "length res \<le> length (cls @ [z_simplify z clause]) + card (valuations atms (snot @ [clause]))"
      using less.hyps [OF lt, of "cls @ [z_simplify z clause]"] less.prems by auto
    moreover have "cnf_loop z fml atms snot cls = cnf_loop z fml atms (snot @ [clause]) (cls @ [z_simplify z clause])"
      using True c(1) by (subst cnf_loop.simps) simp
    ultimately show ?thesis using lt by (intro exI [of _ res]) simp
  next
    case False
    then show ?thesis by (subst cnf_loop.simps) simp
  qed
qed

lemma card_valuations: "card (valuations atms snot) \<le> 2 ^ length atms"
proof -
  have "valuations atms snot \<subseteq> {bs. set bs \<subseteq> UNIV \<and> length bs = length atms}"
    by (auto simp: valuations_def)
  then have "card (valuations atms snot) \<le> card {bs :: bool list. set bs \<subseteq> UNIV \<and> length bs = length atms}"
    by (rule card_mono [rotated]) (rule finite_lists_length_eq, simp)
  also have "\<dots> = 2 ^ length atms" by (subst card_lists_length_eq) (simp_all add: card_UNIV_bool)
  finally show ?thesis .
qed

text \<open>The traversal visits every subterm and lists every atom among them.\<close>

definition visited_ok :: "z3_api \<Rightarrow> string list \<times> z3expr list \<Rightarrow> string list \<times> z3expr list \<Rightarrow> z3expr set \<Rightarrow> bool"
  where
  "visited_ok z s s' open \<longleftrightarrow>
     set (fst s) \<subseteq> set (fst s') \<and> set (snd s) \<subseteq> set (snd s') \<and>
     (\<forall>t. z_string z t \<in> set (fst s') \<and> z_string z t \<notin> set (fst s) \<longrightarrow>
        (t \<notin> open \<longrightarrow> (\<forall>c\<in>set (args t). z_string z c \<in> set (fst s'))) \<and>
        (is_atom t = Some True \<longrightarrow> t \<in> set (snd s')))"

lemma visited_okD:
  assumes "visited_ok z s s' P"
  shows "set (fst s) \<subseteq> set (fst s')" "set (snd s) \<subseteq> set (snd s')"
    and "z_string z t \<in> set (fst s') \<Longrightarrow> z_string z t \<notin> set (fst s) \<Longrightarrow> is_atom t = Some True \<Longrightarrow>
      t \<in> set (snd s')"
    and "z_string z t \<in> set (fst s') \<Longrightarrow> z_string z t \<notin> set (fst s) \<Longrightarrow> t \<notin> P \<Longrightarrow>
      c \<in> set (args t) \<Longrightarrow> z_string z c \<in> set (fst s')"
  using assms by (simp_all add: visited_ok_def)

lemma visited_ok_trans:
  assumes "visited_ok z s s' P" "visited_ok z s' s'' {}"
  shows "visited_ok z s s'' P"
  unfolding visited_ok_def
proof (intro conjI allI impI ballI)
  note d1 = visited_okD [OF assms(1)] and d2 = visited_okD [OF assms(2)]
  show "set (fst s) \<subseteq> set (fst s'')" by (rule subset_trans [OF d1(1) d2(1)])
  show "set (snd s) \<subseteq> set (snd s'')" by (rule subset_trans [OF d1(2) d2(2)])
  fix t assume t: "z_string z t \<in> set (fst s'') \<and> z_string z t \<notin> set (fst s)"
  show "t \<in> set (snd s'')" if "is_atom t = Some True"
  proof (cases "z_string z t \<in> set (fst s')")
    case True
    then show ?thesis using d1(3) t that d2(2) by blast
  next
    case False
    then show ?thesis using d2(3) t that by simp
  qed
  show "z_string z c \<in> set (fst s'')" if "t \<notin> P" "c \<in> set (args t)" for c
  proof (cases "z_string z t \<in> set (fst s')")
    case True
    then have "z_string z c \<in> set (fst s')" using d1(4) t that by simp
    then show ?thesis using d2(1) by blast
  next
    case False
    then show ?thesis using d2(4) [of t c] t that by simp
  qed
qed

lemma fold_atoms_ok:
  assumes "\<And>a s s'. a \<in> set es \<Longrightarrow> atoms_rec z a s = Some s' \<Longrightarrow>
      visited_ok z s s' {} \<and> z_string z a \<in> set (fst s')"
    and "fold (\<lambda>a st. case st of None \<Rightarrow> None | Some s \<Rightarrow> atoms_rec z a s) es (Some s) = Some s'"
  shows "visited_ok z s s' {} \<and> (\<forall>a\<in>set es. z_string z a \<in> set (fst s'))"
  using assms
proof (induction es arbitrary: s)
  case Nil
  then show ?case by (simp add: visited_ok_def)
next
  case (Cons a es)
  have none: "fold (\<lambda>a st. case st of None \<Rightarrow> None | Some s \<Rightarrow> atoms_rec z a s) es None = None" for es
    by (induction es) simp_all
  obtain s1 where s1: "atoms_rec z a s = Some s1"
    using Cons.prems(2) none by (cases "atoms_rec z a s") simp_all
  have a: "visited_ok z s s1 {} \<and> z_string z a \<in> set (fst s1)"
    using Cons.prems(1) [OF _ s1] by simp
  have rest: "visited_ok z s1 s' {} \<and> (\<forall>a\<in>set es. z_string z a \<in> set (fst s'))"
  proof (rule Cons.IH)
    show "visited_ok z t t' {} \<and> z_string z b \<in> set (fst t')"
      if "b \<in> set es" "atoms_rec z b t = Some t'" for b t t'
      using Cons.prems(1) [of b t t'] that by simp
    show "fold (\<lambda>a st. case st of None \<Rightarrow> None | Some s \<Rightarrow> atoms_rec z a s) es (Some s1) = Some s'"
      using Cons.prems(2) s1 by simp
  qed
  have "visited_ok z s s' {}" using visited_ok_trans a rest by blast
  moreover have "z_string z a \<in> set (fst s')" using a rest unfolding visited_ok_def by blast
  ultimately show ?case using rest by simp
qed

lemma atoms_rec_ok:
  assumes inj: "inj (z_string z)"
  shows "quantifier_free e \<Longrightarrow> atoms_rec z e s = Some s' \<Longrightarrow>
    visited_ok z s s' {} \<and> z_string z e \<in> set (fst s')"
proof (induction e arbitrary: s s')
  case (App k es)
  obtain vis atms where s: "s = (vis, atms)" by (cases s)
  let ?e = "App k es"
  show ?case
  proof (cases "z_string z ?e \<in> set vis")
    case True
    then show ?thesis using App.prems(2) s by (auto simp: visited_ok_def)
  next
    case False
    obtain b where b: "is_atom ?e = Some b"
      using App.prems(2) s False by (cases "is_atom ?e") (simp_all del: is_atom.simps)
    let ?s1 = "(z_string z ?e # vis, if b then atms @ [?e] else atms)"
    have "fold (\<lambda>a st. case st of None \<Rightarrow> None | Some s \<Rightarrow> atoms_rec z a s) es (Some ?s1) = Some s'"
      using App.prems(2) s False b by (simp del: is_atom.simps)
    from fold_atoms_ok [OF _ this] have rest: "visited_ok z ?s1 s' {}"
        "\<forall>a\<in>set es. z_string z a \<in> set (fst s')"
      using App.IH App.prems(1) by (simp_all add: list_all_iff)
    have "visited_ok z s ?s1 {?e}"
      using b s by (auto simp: visited_ok_def inj_eq [OF inj] simp del: is_atom.simps)
    then have v: "visited_ok z s s' {?e}" using rest(1) visited_ok_trans by blast
    have "z_string z ?e \<in> set (fst s')" using rest(1) by (simp add: visited_ok_def)
    moreover have "visited_ok z s s' {}"
      using v rest(2) unfolding visited_ok_def by (metis args.simps(1) empty_iff insert_iff)
    ultimately show ?thesis by blast
  qed
qed simp

lemma atoms_complete:
  assumes inj: "inj (z_string z)" and qf: "quantifier_free e" and ret: "atoms z e = Some atms"
  shows "t \<in> set (subterms e) \<Longrightarrow> is_atom t = Some True \<Longrightarrow> t \<in> set atms"
proof -
  obtain vis where ret': "atoms_rec z e ([], []) = Some (vis, atms)"
    using ret by (auto simp: atoms_def)
  note ok = atoms_rec_ok [OF inj qf ret', unfolded visited_ok_def]
  have closed: "z_string z d \<in> set vis \<Longrightarrow> quantifier_free d \<Longrightarrow> t \<in> set (subterms d) \<Longrightarrow>
      z_string z t \<in> set vis" for d t
  proof (induction d)
    case (App k es)
    then show ?case using ok by (fastforce simp: list_all_iff)
  qed simp
  show "t \<in> set (subterms e) \<Longrightarrow> is_atom t = Some True \<Longrightarrow> t \<in> set atms"
    using closed [of e t] ok qf by auto
qed

end
