(* ===== verification/Formula_Simplify.thy ===== *)
theory Formula_Simplify
  imports Formula_Correctness "HOL-Library.Countable"
begin

text \<open>
  The normal form on propositional combinations of atoms, simplification under an assumption,
  restriction to a domain, and the normal form of linear literals; with the properties of the
  whole component.
\<close>

section \<open>Propositional combinations\<close>

fun propositional :: "z3expr \<Rightarrow> bool" where
  "propositional (App k es) =
     (is_bool (App k es) \<and>
      (if k \<in> {OAnd, OOr, OImplies, OTrue, OFalse, OXor, ONot} then list_all propositional es
       else if is_atom (App k es) = Some True then list_all quantifier_free es
       else k \<in> {OEq, ODistinct, OIte} \<and> list_all propositional es))"
| "propositional (Quant _ _ _) = False"

lemma propositional_bool: "propositional e \<Longrightarrow> is_bool e"
  by (cases e) simp_all

lemma propositional_quantifier_free: "propositional e \<Longrightarrow> quantifier_free e"
  by (induction e) (auto simp: list_all_iff split: if_splits)

lemma self_subterm: "e \<in> set (subterms e)"
  by (cases e) simp_all

lemma eval_propositional:
  "propositional e \<Longrightarrow> \<forall>t\<in>set (subterms e). is_atom t = Some True \<longrightarrow> holds I t = holds J t \<Longrightarrow>
     eval I e = eval J e"
proof (induction e)
  case (App k es)
  show ?case
  proof (cases "is_atom (App k es) = Some True")
    case True
    then have "holds I (App k es) = holds J (App k es)"
      using App.prems(2) self_subterm by blast
    then show ?thesis
      using eval_bool [OF propositional_bool [OF App.prems(1)]] by (simp del: eval.simps)
  next
    case False
    have args: "list_all propositional es" and op: "closed_op k"
      using App.prems(1) False by (auto split: if_splits simp del: is_atom.simps)
    have "map (eval I) es = map (eval J) es"
    proof (rule map_cong [OF refl])
      fix a assume a: "a \<in> set es"
      show "eval I a = eval J a"
        using App.IH [OF a] App.prems(2) args a by (auto simp: list_all_iff)
    qed
    then show ?thesis unfolding eval.simps by (metis apply_closed_op [OF op])
  qed
qed simp

lemma propositional_determined:
  assumes "inj (z_string z)" "propositional e" "atoms z e = Some atms"
  shows "determined_by atms e"
  unfolding determined_by_def
proof (intro allI impI)
  fix I J assume agree: "\<forall>a\<in>set atms. holds I a = holds J a"
  have "eval I e = eval J e"
    using atoms_complete [OF assms(1) propositional_quantifier_free [OF assms(2)] assms(3)] agree
    by (intro eval_propositional [OF assms(2)]) blast
  then show "holds I e = holds J e" by (simp add: holds_def)
qed

lemma to_cnf_total:
  assumes "z3_ok z" "\<forall>fs. z_check z fs \<noteq> Unknown" "inj (z_string z)"
    and "propositional fml" "atoms z fml = Some atms"
  shows "\<exists>clauses. to_cnf z fml = Some clauses \<and> length clauses \<le> 2 ^ length atms \<and>
    (\<forall>I. (\<forall>c\<in>set clauses. holds I c) = holds I fml)"
proof -
  obtain clauses where c: "cnf_loop z fml atms [z_not fml] [] = Some clauses"
    "length clauses \<le> card (valuations atms [z_not fml])"
    using cnf_loop_terminates [OF assms(1,2) propositional_determined [OF assms(3-5)], of "[z_not fml]" "[]"]
    by auto
  then have ret: "to_cnf z fml = Some clauses" using assms(5) by (simp add: to_cnf_def)
  then show ?thesis
    using to_cnf_sound(2) [OF assms(1) ret assms(2)] c(2) card_valuations [of atms "[z_not fml]"] by auto
qed

section \<open>Simplification under an assumption\<close>

lemma clause_literals_holds:
  "(\<forall>l\<in>set (clause_literals c). holds I l) \<longleftrightarrow> \<not> holds I c"
proof (cases c)
  case (App f es)
  then show ?thesis by (auto simp: clause_literals_def holds_connectives)
qed (simp add: clause_literals_def holds_connectives)

lemma simplify_clause_holds:
  assumes z: "check_ok z" and known: "z_check z (assumed @ [z_not c]) \<noteq> Unknown"
    and a: "\<forall>a\<in>set assumed. holds I a"
  shows "(\<forall>d\<in>set (simplify_clause z assumed c). holds I d) \<longleftrightarrow> holds I c"
proof (cases "z_check z (assumed @ [z_not c]) = Sat")
  case True
  let ?m = "minimize_conjunction z (clause_literals c) 1 None"
  have "(\<forall>l\<in>set ?m. holds I l) \<longleftrightarrow> \<not> holds I c"
    using minimize_conjunction_holds [OF z, of None I "clause_literals c" 1] clause_literals_holds
    by simp
  then have "holds I (mk_or (map z_not ?m)) \<longleftrightarrow> holds I c"
    by (simp add: holds_connectives) blast
  moreover have "simplify_clause z assumed c = [mk_or (map z_not ?m)]"
    using True by (simp add: simplify_clause_def)
  ultimately show ?thesis by simp
next
  case False
  then have "\<exists>f\<in>set (assumed @ [z_not c]). \<not> holds I f"
    using infeasible_sound [OF z known] by blast
  then have "holds I c" using a by (auto simp: holds_connectives)
  then show ?thesis using False by (simp add: simplify_clause_def)
qed

lemma simplify_holds:
  assumes z: "z3_ok z" and known: "\<forall>fs. z_check z fs \<noteq> Unknown"
    and ret: "simplify z e assumption = Some r" and a: "\<forall>a. assumption = Some a \<longrightarrow> holds I a"
  shows "holds I r \<longleftrightarrow> holds I e"
proof -
  let ?as = "case assumption of Some a \<Rightarrow> [a] | None \<Rightarrow> []"
  obtain cs where cs: "to_cnf z (z_simplify z e) = Some cs"
      "r = mk_and (concat (map (simplify_clause z ?as) cs))"
    using ret by (auto simp: simplify_def)
  have as: "\<forall>a\<in>set ?as. holds I a" using a by (cases assumption) simp_all
  have "holds I r \<longleftrightarrow> (\<forall>c\<in>set cs. \<forall>d\<in>set (simplify_clause z ?as c). holds I d)"
    by (auto simp: cs(2) holds_connectives)
  also have "\<dots> \<longleftrightarrow> (\<forall>c\<in>set cs. holds I c)"
    using simplify_clause_holds [OF z3_okD(2) [OF z] _ as] known by blast
  also have "\<dots> \<longleftrightarrow> holds I (z_simplify z e)"
    by (rule to_cnf_sound(2) [OF z cs(1) known])
  finally show ?thesis using holds_simplify [OF z3_okD(1) [OF z]] by blast
qed

section \<open>Restriction to a domain\<close>

lemma restrict_cases_value:
  assumes z: "z3_ok z" and known: "\<forall>fs. z_check z fs \<noteq> Unknown" and dom: "holds I domain"
  shows "restrict_cases z domain cs = Some rs \<Longrightarrow>
    (\<forall>p\<in>set rs. \<exists>c. (c, snd p) \<in> set cs \<and> holds I (fst p) = holds I c) \<and>
    (\<forall>q\<in>set cs. holds I (fst q) \<longrightarrow> (\<exists>p\<in>set rs. snd p = snd q \<and> holds I (fst p)))"
proof (induction cs arbitrary: rs)
  case (Cons q cs)
  obtain c x where q: "q = (c, x)" by (cases q)
  obtain r rest where r: "simplify z c (Some domain) = Some r" "restrict_cases z domain cs = Some rest"
      "rs = (if z_check z [domain, r] = Sat then (r, x) # rest else rest)"
    using Cons.prems q by (auto split: option.splits)
  have eq: "holds I r \<longleftrightarrow> holds I c"
    using simplify_holds [OF z known r(1)] dom by simp
  have out: "\<not> holds I c" if "z_check z [domain, r] \<noteq> Sat"
  proof -
    have "\<exists>f\<in>set [domain, r]. \<not> holds I f"
      using infeasible_sound [OF z3_okD(2) [OF z] _ that] known by blast
    then show ?thesis using dom eq by auto
  qed
  note ih = Cons.IH [OF r(2)]
  have sub: "set rest \<subseteq> set rs" "set rs \<subseteq> insert (r, x) (set rest)" using r(3) by auto
  have first: "\<exists>c'. (c', snd p) \<in> set (q # cs) \<and> holds I (fst p) = holds I c'" if p: "p \<in> set rs" for p
  proof (cases "p = (r, x)")
    case True
    then show ?thesis using eq q by (intro exI [of _ c]) simp
  next
    case False
    then have "p \<in> set rest" using p sub(2) by blast
    then obtain c' where "(c', snd p) \<in> set cs" "holds I (fst p) = holds I c'" using ih by blast
    then show ?thesis by (intro exI [of _ c']) simp
  qed
  have second: "\<exists>p\<in>set rs. snd p = snd q' \<and> holds I (fst p)"
    if q': "q' \<in> set (q # cs)" "holds I (fst q')" for q'
  proof (cases "q' = q")
    case True
    then have "holds I c" using q' q by simp
    then have "(r, x) \<in> set rs" "holds I r" using out eq r(3) by auto
    then show ?thesis using True q by (intro bexI [of _ "(r, x)"]) simp_all
  next
    case False
    then have "q' \<in> set cs" using q' by simp
    then obtain p where "p \<in> set rest" "snd p = snd q'" "holds I (fst p)" using ih q'(2) by blast
    then show ?thesis using sub(1) by blast
  qed
  show ?case using first second by blast
qed simp

lemma restrict_to_domain_value:
  assumes z: "z3_ok z" and known: "\<forall>fs. z_check z fs \<noteq> Unknown"
    and f: "ite_sorted f"
    and ret: "restrict_to_domain z f domain = Some g" and dom: "holds I domain"
  shows "eval I g = eval I f"
proof -
  obtain rs where rs: "restrict_cases z domain (expr2piecewise z f) = Some rs" "piecewise2ite z rs = Some g"
    using ret by (auto simp: restrict_to_domain_def split: option.splits)
  note rv = restrict_cases_value [OF z known dom rs(1)]
  note pv = expr2piecewise_value [OF z f, of I]
  have v: "cases_value I rs (eval I f)"
    unfolding cases_value_def
  proof (intro conjI ballI impI)
    show "\<exists>p\<in>set rs. holds I (fst p)" using rv pv unfolding cases_value_def by blast
    fix p assume "p \<in> set rs" "holds I (fst p)"
    then obtain c where "(c, snd p) \<in> set (expr2piecewise z f)" "holds I c" using rv by blast
    then show "eval I (snd p) = eval I f" using pv unfolding cases_value_def by fastforce
  qed
  have "\<forall>p\<in>set rs. sort_of (snd p) = sort_of f" using rv expr2piecewise_sort [OF f] by fastforce
  from piecewise2ite_value [OF z this v] rs(2) show ?thesis by auto
qed

section \<open>Linear literals\<close>

text \<open>The comparison a literal makes, on the difference of its two sides.\<close>

definition is_inequality :: "z3expr \<Rightarrow> bool" where
  "is_inequality e \<longleftrightarrow> (\<exists>a b. is_int a \<and> is_int b \<and> e \<in> {z_le a b, z_lt a b, z_ge a b, z_gt a b})"

lemma is_inequality_atom: "is_inequality e \<Longrightarrow> is_atom e = Some True"
  by (auto simp: is_inequality_def is_bool_def is_int_def)

lemma linear_normalize_inequality:
  assumes "is_inequality a"
  shows "\<exists>n. linear_normalize a = Some n \<and> holds I n = holds I a"
    and "\<exists>n. linear_normalize (z_not a) = Some n \<and> holds I n = (\<not> holds I a)"
  using assms
  by (auto simp: is_inequality_def linear_normalize_def is_literal_def linear_side_def is_ge_def
      is_le_def is_lt_def is_gt_def is_eq_def is_bool_def is_int_def
      holds_comparisons holds_connectives ival_arith)

text \<open>On an equality the result is only the side that is compared with zero.\<close>

lemma linear_normalize_equality:
  assumes "is_int a" "is_int b"
  shows "linear_normalize (z_eq a b) = Some (z_ge (z_sub a b) (z_int 0))"
    and "linear_normalize (z_not (z_eq a b)) =
      Some (z_ge (z_sub (z_neg (z_sub a b)) (z_int 1)) (z_int 0))"
  using assms
  by (simp_all add: linear_normalize_def is_literal_def linear_side_def is_ge_def
      is_le_def is_lt_def is_gt_def is_eq_def is_bool_def is_int_def)

section \<open>An ideal solver\<close>

text \<open>
  An ideal solver, which decides every question: it shows that the hypotheses of the results that
  need decisions can be met together.
\<close>

instance z3sort :: countable
  by countable_datatype

instance z3op :: countable
  by countable_datatype

instance z3expr :: countable
  by countable_datatype

definition ideal_z3 :: z3_api where
  "ideal_z3 = \<lparr>z_simplify = (\<lambda>e. e),
     z_check = (\<lambda>fs. if \<exists>I. \<forall>f\<in>set fs. holds I f then Sat else Unsat),
     z_model = (\<lambda>fs. SOME I. \<forall>f\<in>set fs. holds I f), z_core = (\<lambda>fs ls. ls),
     z_string = (\<lambda>e. nat_to_string (to_nat e)),
     z_elim_ite = (\<lambda>e. [e]), z_qe = (\<lambda>e. [e])\<rparr>"

lemma ideal_z3_known: "z_check ideal_z3 fs \<noteq> Unknown"
  by (simp add: ideal_z3_def)

lemma ideal_z3_inj: "inj (z_string ideal_z3)"
  by (simp add: ideal_z3_def inj_def)

lemma digit_char: "(n::nat) < 10 \<Longrightarrow> (char_of (48 + n) :: char) \<noteq> CHR ''!''"
proof
  assume n: "n < 10" and "(char_of (48 + n) :: char) = CHR ''!''"
  then have "of_char (char_of (48 + n) :: char) = (of_char CHR ''!'' :: nat)" by simp
  then show False using n by (simp add: of_char_of)
qed

lemma nat_to_string_no_mark: "CHR ''!'' \<notin> set (nat_to_string n)"
proof (induction n rule: nat_to_string.induct)
  case (1 n)
  have "(char_of (48 + n mod 10) :: char) \<noteq> CHR ''!''" by (rule digit_char) simp
  then show ?case
    using 1 digit_char [of n] by (subst nat_to_string.simps) auto
qed

lemma ideal_z3_vars: "collect_aux_vars ideal_z3 e = []"
proof -
  have "\<not> contains_str (nat_to_string n) ''!''" for n
    using nat_to_string_no_mark [of n] by (auto simp: contains_str_iff)
  then show ?thesis by (simp add: collect_aux_vars_def ideal_z3_def)
qed

lemma ideal_z3_ok: "z3_ok ideal_z3"
proof -
  have "elim_ite_ok ideal_z3"
    unfolding elim_ite_ok_def ideal_z3_vars by (simp add: ideal_z3_def holds_connectives)
  moreover have "qe_ok ideal_z3"
    unfolding qe_ok_def by (simp add: ideal_z3_def holds_connectives)
  moreover have "simplify_ok ideal_z3" by (simp add: simplify_ok_def ideal_z3_def)
  moreover have "check_ok ideal_z3"
  proof -
    have "\<forall>f\<in>set fs. holds (SOME I. \<forall>f\<in>set fs. holds I f) f" if "\<exists>I. \<forall>f\<in>set fs. holds I f" for fs
      using someI_ex [OF that] .
    then show ?thesis by (auto simp: check_ok_def ideal_z3_def)
  qed
  moreover have "core_ok ideal_z3"
    unfolding core_ok_def by (auto simp: ideal_z3_def split: if_splits)
  ultimately show ?thesis by (simp add: z3_ok_def)
qed

lemma ideal_atoms:
  "propositional (z_lt (z_int_const x) (z_int n))"
  "atoms ideal_z3 (z_lt (z_int_const x) (z_int n)) = Some [z_lt (z_int_const x) (z_int n)]"
proof -
  have "z_string ideal_z3 a = z_string ideal_z3 b \<longleftrightarrow> a = b" for a b
    using ideal_z3_inj by (simp add: inj_eq)
  then show "propositional (z_lt (z_int_const x) (z_int n))"
    "atoms ideal_z3 (z_lt (z_int_const x) (z_int n)) = Some [z_lt (z_int_const x) (z_int n)]"
    by (simp_all add: atoms_def is_bool_def)
qed

section \<open>Properties\<close>

text \<open>The index product enumerates, without repetition, exactly the index vectors that are
  below the given sizes in every component.\<close>

theorem cartesian_product_correct:
  assumes "vec \<noteq> []"
  shows "set (cartesian_product vec 0) = {ix. list_all2 (<) ix vec} \<and> distinct (cartesian_product vec 0)"
  using assms by (simp add: cartesian_product_0 distinct_cartesian_product)

theorem cartesian_product_correct_witness: "[1, 0] \<in> set (cartesian_product [2, 1] 0)"
  using cartesian_product_correct [of "[2, 1]"] by simp

text \<open>splitting a term into a piecewise expression keeps its value: in every interpretation
  some condition holds, every piece whose condition holds has the value of the term, and no piece
  contains a conditional outside quantifiers.\<close>

theorem expr2piecewise_correct:
  assumes "z3_ok z" "ite_sorted e"
  shows "cases_value I (expr2piecewise z e) (eval I e) \<and>
    list_all (\<lambda>p. ite_free (snd p) \<and> sort_of (snd p) = sort_of e) (expr2piecewise z e)"
  using expr2piecewise_value [OF assms] expr2piecewise_ite_free [OF assms(2)]
    expr2piecewise_sort [OF assms(2)] by (simp add: list_all_iff)

theorem expr2piecewise_correct_witness:
  "cases_value zero_interp (expr2piecewise closed_z3 (z_add (z_ite (z_lt (z_int 1) (z_int 2)) (z_int 3) (z_int 4)) (z_int 5)))
     (VInt 8)"
  using expr2piecewise_correct [of closed_z3
      "z_add (z_ite (z_lt (z_int 1) (z_int 2)) (z_int 3) (z_int 4)) (z_int 5)" zero_interp]
  by simp

text \<open>Recombining a piecewise expression after merging its cases gives a term with the value of
  the pieces.\<close>

theorem piecewise2ite_correct:
  assumes "z3_ok z" "\<forall>p\<in>set cs. sort_of (snd p) = s" "cases_value I cs v"
  shows "\<exists>e. piecewise2ite z cs = Some e \<and> eval I e = v"
  using piecewise2ite_value [OF assms] by blast

theorem piecewise2ite_correct_witness:
  "\<exists>e. piecewise2ite closed_z3 [(z_false, z_int 1), (z_true, z_int 2)] = Some e \<and>
    eval zero_interp e = VInt 2"
  using piecewise2ite_correct
    [of closed_z3 "[(z_false, z_int 1), (z_true, z_int 2)]" IntSort zero_interp "VInt 2"]
  by (simp add: cases_value_def sem_simps)

text \<open>Minimising a conjunction only drops literals and keeps its meaning under the
  assumption.\<close>

theorem minimize_conjunction_correct:
  assumes "check_ok z" "holds I a"
  shows "set (minimize_conjunction z cs p (Some a)) \<subseteq> set cs \<and>
    (\<forall>e\<in>set (minimize_conjunction z cs p (Some a)). holds I e) = (\<forall>e\<in>set cs. holds I e)"
  using minimize_conjunction_subset minimize_conjunction_holds [OF assms(1), of "Some a" I] assms(2)
  by simp

theorem minimize_conjunction_correct_witness:
  "set (minimize_conjunction closed_z3 [z_true, z_false] 0 (Some z_true)) \<subseteq> {z_true, z_false}"
  using minimize_conjunction_correct [of closed_z3 zero_interp z_true "[z_true, z_false]" 0]
  by (simp add: sem_simps)



text \<open>C36: simplifying a formula under an assumption gives a formula that is equivalent wherever the
  assumption holds, provided the solver decides every question.\<close>

theorem simplify_correct:
  assumes "z3_ok z" "\<forall>fs. z_check z fs \<noteq> Unknown" "simplify z e (Some a) = Some r" "holds I a"
  shows "holds I r = holds I e"
  using simplify_holds [OF assms(1-3)] assms(4) by simp

theorem simplify_correct_witness:
  "\<exists>r. simplify ideal_z3 (z_lt (z_int_const ''x'') (z_int 2)) (Some z_true) = Some r \<and>
    (\<forall>I. holds I r = holds I (z_lt (z_int_const ''x'') (z_int 2)))"
proof -
  let ?f = "z_lt (z_int_const ''x'') (z_int 2)"
  obtain cs where "to_cnf ideal_z3 ?f = Some cs"
    using to_cnf_total [OF ideal_z3_ok _ ideal_z3_inj ideal_atoms] ideal_z3_known by blast
  moreover have "z_simplify ideal_z3 ?f = ?f" by (simp add: ideal_z3_def)
  ultimately obtain r where r: "simplify ideal_z3 ?f (Some z_true) = Some r"
    by (simp add: simplify_def)
  show ?thesis
    using simplify_correct [OF ideal_z3_ok _ r] ideal_z3_known r by (simp add: holds_not_false)
qed

text \<open>
  A solver that decides two questions about one formula and gives up on all others, as a time
  limit would make it do.
\<close>

definition negative_x :: z3expr where
  "negative_x = z_lt (z_int_const ''x'') (z_int 0)"

definition limited_z3 :: z3_api where
  "limited_z3 = \<lparr>z_simplify = (\<lambda>e. e),
     z_check = (\<lambda>fs. if fs = [z_not negative_x] then Sat
                else if fs = [negative_x, z_not negative_x] then Unsat else Unknown),
     z_model = (\<lambda>_. zero_interp), z_core = (\<lambda>fs ls. ls), z_string = (\<lambda>_. []),
     z_elim_ite = (\<lambda>e. [e]), z_qe = (\<lambda>e. [e])\<rparr>"

lemma limited_z3_ok: "z3_ok limited_z3"
proof -
  have aux: "collect_aux_vars limited_z3 e = []" for e
    by (simp add: collect_aux_vars_def limited_z3_def)
  have un: "z_check limited_z3 fs = Unsat \<Longrightarrow> fs = [negative_x, z_not negative_x]" for fs
    by (simp add: limited_z3_def split: if_splits)
  have sat: "z_check limited_z3 fs = Sat \<Longrightarrow> fs = [z_not negative_x]" for fs
    by (simp add: limited_z3_def split: if_splits)
  have zero: "\<not> holds zero_interp negative_x"
    by (simp add: negative_x_def holds_comparisons ival_arith) (simp add: ival_def zero_interp_def)
  have "simplify_ok limited_z3" by (simp add: simplify_ok_def limited_z3_def)
  moreover have "check_ok limited_z3"
    unfolding check_ok_def
  proof (intro conjI allI impI)
    fix fs assume "z_check limited_z3 fs = Unsat"
    then have "fs = [negative_x, z_not negative_x]" by (rule un)
    then show "\<not> (\<exists>I. \<forall>f\<in>set fs. holds I f)" by (simp add: holds_connectives)
  next
    fix fs assume "z_check limited_z3 fs = Sat"
    then have "fs = [z_not negative_x]" by (rule sat)
    then show "\<forall>f\<in>set fs. holds (z_model limited_z3 fs) f"
      using zero by (simp add: limited_z3_def holds_connectives)
  qed
  moreover have "core_ok limited_z3"
    unfolding core_ok_def
  proof (intro allI impI)
    fix fs ls assume "z_check limited_z3 (fs @ ls) = Unsat"
    then have "fs @ ls = [negative_x, z_not negative_x]" by (rule un)
    then have "negative_x \<in> set fs \<union> set ls" "z_not negative_x \<in> set fs \<union> set ls"
      by (metis list.set_intros set_append)+
    moreover have "z_core limited_z3 fs ls = ls" by (simp add: limited_z3_def)
    ultimately show "set (z_core limited_z3 fs ls) \<subseteq> set ls \<and>
        \<not> (\<exists>I. (\<forall>f\<in>set fs. holds I f) \<and> (\<forall>l\<in>set (z_core limited_z3 fs ls). holds I l))"
      by (metis Un_iff holds_connectives(3) subset_refl)
  qed
  moreover have "elim_ite_ok limited_z3"
    unfolding elim_ite_ok_def aux by (simp add: limited_z3_def holds_connectives)
  moreover have "qe_ok limited_z3"
    unfolding qe_ok_def by (simp add: limited_z3_def holds_connectives)
  ultimately show ?thesis by (simp add: z3_ok_def)
qed

lemma limited_z3_check:
  "z_check limited_z3 [z_not negative_x] = Sat"
  "z_check limited_z3 [negative_x, z_not negative_x] = Unsat"
  "fs \<noteq> [z_not negative_x] \<Longrightarrow> fs \<noteq> [negative_x, z_not negative_x] \<Longrightarrow> z_check limited_z3 fs = Unknown"
  by (simp_all add: limited_z3_def negative_x_def)

lemma limited_z3_fields:
  "z_simplify limited_z3 e = e" "z_core limited_z3 fs ls = ls" "z_model limited_z3 fs = zero_interp"
  "z_string limited_z3 e = []"
  by (simp_all add: limited_z3_def)

lemma limited_cnf:
  "to_cnf limited_z3 negative_x = Some [mk_or [z_not (z_not negative_x)]]"
proof -
  have atoms: "atoms limited_z3 negative_x = Some [negative_x]"
    by (simp add: negative_x_def atoms_def limited_z3_fields is_bool_def)
  have lit: "atom2literal zero_interp negative_x = z_not negative_x"
    by (simp add: atom2literal_def negative_x_def holds_comparisons ival_arith)
       (simp add: ival_def zero_interp_def)
  have min: "minimize_conjunction limited_z3 [z_not negative_x] 0 None = [z_not negative_x]"
    by (subst minimize_conjunction.simps, subst minimize_conjunction.simps)
       (simp add: limited_z3_check get_expr_vec_except_def)
  have imp: "implicant limited_z3 [negative_x] negative_x [z_not negative_x] =
      Some (mk_or [z_not (z_not negative_x)])"
    by (simp add: implicant_def limited_z3_fields lit min limited_z3_check)
  show ?thesis
    by (simp add: to_cnf_def atoms) (subst cnf_loop.simps, subst cnf_loop.simps,
        simp add: limited_z3_check imp limited_z3_fields)
qed

text \<open>Without decisions the simplifier is unsound: a clause is kept only when the solver reports
  that its negation is satisfiable, so an unknown answer drops it.  A sound solver that gives up
  makes the simplifier turn a formula that is not valid into a valid one.\<close>

theorem simplify_unknown_unsound:
  "\<exists>z e r. z3_ok z \<and> simplify z e None = Some r \<and> (\<forall>I. holds I r) \<and> \<not> (\<forall>I. holds I e)"
proof -
  have "simplify limited_z3 negative_x None = Some (mk_and [])"
  proof -
    have "simplify_clause limited_z3 [] (mk_or [z_not (z_not negative_x)]) = []"
      by (simp add: simplify_clause_def limited_z3_check(3) negative_x_def)
    then show ?thesis by (simp add: simplify_def limited_z3_fields limited_cnf)
  qed
  moreover have "\<not> holds zero_interp negative_x"
    by (simp add: negative_x_def holds_comparisons ival_arith) (simp add: ival_def zero_interp_def)
  moreover have "holds I (mk_and [])" for I by (simp add: holds_connectives)
  ultimately show ?thesis using limited_z3_ok by blast
qed

end
