(* ===== verification/Integer_Semantics.thy ===== *)
theory Integer_Semantics
  imports Z3_Term "HOL-Library.Word" "HOL-Library.Signed_Division"
begin

unbundle bit_operations_syntax

text \<open>
  Machine integers as solver terms over mathematical integers (lib/IntegerSemantics.h) and the
  width-free variant (lib/RelaxedIntegerSemantics.h), with the theorems that relate the terms to
  the two's-complement operations on words.
\<close>

section \<open>Terms for machine integers\<close>

definition as_int :: "z3expr \<Rightarrow> z3expr" where
  "as_int v = (if is_bool v then z_ite v (z_int 1) (z_int 0) else v)"

definition to_bv :: "z3expr \<Rightarrow> nat \<Rightarrow> z3expr" where
  "to_bv v width = App (OInt2Bv width) [as_int v]"

definition from_bv :: "z3expr \<Rightarrow> nat \<Rightarrow> z3expr" where
  "from_bv v width =
     (if width = 1 then z_eq v (App (OBvNum 1 1) []) else App OBv2Int [v])"

fun double_times :: "nat \<Rightarrow> z3expr \<Rightarrow> z3expr" where
  "double_times 0 result = result"
| "double_times (Suc n) result = double_times n (z_mul result (z_int 2))"

definition power_of_two :: "z3_api \<Rightarrow> nat \<Rightarrow> z3expr" where
  "power_of_two z exponent = z_simplify z (double_times exponent (z_int 1))"

definition as_unsigned :: "z3_api \<Rightarrow> z3expr \<Rightarrow> nat \<Rightarrow> z3expr" where
  "as_unsigned z v width =
     (if is_bool v then as_int v
      else z_simplify z (z_mod (as_int v) (power_of_two z width)))"

definition as_signed :: "z3_api \<Rightarrow> z3expr \<Rightarrow> nat \<Rightarrow> z3expr" where
  "as_signed z v width =
     (if width = 1 \<and> is_bool v then z_ite v (z_int (- 1)) (z_int 0)
      else let unsigned_value = as_unsigned z v width;
               modulus = power_of_two z width
           in z_simplify z (z_ite (z_ge unsigned_value (power_of_two z (width - 1)))
                (z_sub unsigned_value modulus) unsigned_value))"

definition z_abs :: "z3expr \<Rightarrow> z3expr" where
  "z_abs v = z_ite (z_lt v (z_int 0)) (z_neg v) v"

definition signed_div :: "z3_api \<Rightarrow> z3expr \<Rightarrow> z3expr \<Rightarrow> z3expr" where
  "signed_div z lhs rhs =
     (let left = as_int lhs; right = as_int rhs;
          quotient = z_div (z_abs left) (z_abs right)
      in z_simplify z (z_ite (z_ne (z_lt left (z_int 0)) (z_lt right (z_int 0)))
           (z_neg quotient) quotient))"

definition signed_rem :: "z3_api \<Rightarrow> z3expr \<Rightarrow> z3expr \<Rightarrow> z3expr" where
  "signed_rem z lhs rhs =
     (let left = as_int lhs; right = as_int rhs;
          remainder = z_mod (z_abs left) (z_abs right)
      in z_simplify z (z_ite (z_lt left (z_int 0)) (z_neg remainder) remainder))"

definition signed_min :: "z3_api \<Rightarrow> nat \<Rightarrow> z3expr" where
  "signed_min z width = z_neg (power_of_two z (width - 1))"

definition signed_max :: "z3_api \<Rightarrow> nat \<Rightarrow> z3expr" where
  "signed_max z width = z_sub (power_of_two z (width - 1)) (z_int 1)"

definition in_signed_range :: "z3_api \<Rightarrow> z3expr \<Rightarrow> nat \<Rightarrow> z3expr" where
  "in_signed_range z v width =
     z_and (z_ge (as_int v) (signed_min z width)) (z_le (as_int v) (signed_max z width))"

definition in_unsigned_range :: "z3_api \<Rightarrow> z3expr \<Rightarrow> nat \<Rightarrow> z3expr" where
  "in_unsigned_range z v width =
     z_and (z_ge (as_int v) (z_int 0)) (z_lt (as_int v) (power_of_two z width))"

section \<open>Width-free operations\<close>

datatype bitwise_operation = BitAnd | BitOr | BitXor

fun numeral_value :: "z3expr \<Rightarrow> int option" where
  "numeral_value (App (ONum n) []) = Some n" | "numeral_value _ = None"

text \<open>The loop over the digits of the mask0, with its limit of 4096 digits.\<close>

fun intersection_loop :: "z3expr \<Rightarrow> nat \<Rightarrow> int \<Rightarrow> nat \<Rightarrow> z3expr \<Rightarrow> z3expr option" where
  "intersection_loop lhs mask0 weight digits intersection =
     (if mask0 = 0 then Some intersection
      else if digits + 1 > 4096 then None
      else intersection_loop lhs (mask0 div 2) (weight * 2) (digits + 1)
             (if mask0 mod 2 \<noteq> 0
              then z_add intersection
                     (z_mul (z_mod (z_div lhs (z_int weight)) (z_int 2)) (z_int weight))
              else intersection))"

declare intersection_loop.simps [simp del]

definition integer_bitwise :: "z3_api \<Rightarrow> z3expr \<Rightarrow> z3expr \<Rightarrow> bitwise_operation \<Rightarrow> z3expr option" where
  "integer_bitwise z lhs0 rhs0 operation =
     (let lhs1 = z_simplify z (as_int lhs0); rhs1 = z_simplify z (as_int rhs0)
      in if lhs1 = rhs1 then Some (if operation = BitXor then z_int 0 else lhs1)
         else let (lhs, rhs) = (if numeral_value rhs1 = None then (rhs1, lhs1) else (lhs1, rhs1))
         in case numeral_value rhs of
              None \<Rightarrow> None
            | Some m \<Rightarrow>
                let negative = m < 0; mask0 = nat (if negative then - m - 1 else m)
                in case intersection_loop lhs mask0 1 0 (z_int 0) of
                     None \<Rightarrow> None
                   | Some i \<Rightarrow>
                       let intersection = (if negative then z_sub lhs i else i)
                       in if operation = BitAnd then Some (z_simplify z intersection)
                          else Some (z_simplify z (z_sub (z_add lhs rhs)
                                 (z_mul intersection (z_int (if operation = BitOr then 1 else 2))))))"

definition integer_shift_factor :: "z3_api \<Rightarrow> z3expr \<Rightarrow> z3expr option" where
  "integer_shift_factor z amount0 =
     (case numeral_value (z_simplify z (as_int amount0)) of
        None \<Rightarrow> None
      | Some shift \<Rightarrow>
          if shift < 0 then Some (z_int 1)
          else if shift > 4096 then None
          else Some (z_int (push_bit (nat shift) 1)))"

section \<open>Meaning of the terms\<close>

definition integer_term :: "z3expr \<Rightarrow> bool" where
  "integer_term v \<longleftrightarrow> is_int v \<or> is_bool v"

lemma is_int_as_int [simp]: "integer_term v \<Longrightarrow> is_int (as_int v)"
  by (auto simp: as_int_def integer_term_def)

lemma ival_as_int [simp]: "ival I (as_int v) = ival I v"
  by (auto simp: as_int_def sem_simps holds_ival)

lemma ival_double_times: "ival I (double_times n r) = ival I r * 2 ^ n"
  by (induction n arbitrary: r) (simp_all add: ival_arith)

lemma ival_power_of_two [simp]: "simplify_ok z \<Longrightarrow> ival I (power_of_two z n) = 2 ^ n"
  by (simp add: power_of_two_def ival_simplify ival_double_times ival_arith)

lemma is_int_simplify [simp]: "simplify_ok z \<Longrightarrow> is_int (z_simplify z e) = is_int e"
  by (simp add: is_int_def sort_simplify)

lemma ival_as_unsigned:
  assumes "simplify_ok z" "is_int v"
  shows "ival I (as_unsigned z v width) = ival I v mod 2 ^ width"
proof -
  have "\<not> is_bool v" using assms(2) by (simp add: is_int_def is_bool_def)
  then show ?thesis
    using assms(1) by (simp add: as_unsigned_def ival_simplify ival_div smt_mod_def)
qed

lemma ival_as_unsigned_bool:
  "is_bool v \<Longrightarrow> ival I (as_unsigned z v width) = of_bool (holds I v)"
  by (simp add: as_unsigned_def holds_ival)

lemma is_int_as_unsigned [simp]:
  "simplify_ok z \<Longrightarrow> integer_term v \<Longrightarrow> is_int (as_unsigned z v width)"
  by (auto simp: as_unsigned_def)

lemma ival_as_signed:
  assumes "simplify_ok z" "is_int v"
  shows "ival I (as_signed z v width) = signed_of width (ival I v)"
proof -
  have "\<not> is_bool v" using assms(2) by (simp add: is_int_def is_bool_def)
  then show ?thesis
    using assms ival_as_unsigned [OF assms]
    by (simp add: as_signed_def Let_def ival_simplify ival_ite holds_comparisons ival_arith
        signed_of_def integer_term_def)
qed

lemma ival_as_signed_bool:
  "is_bool v \<Longrightarrow> ival I (as_signed z v 1) = - of_bool (holds I v)"
  by (simp add: as_signed_def ival_ite ival_arith)

lemma ival_z_abs: "is_int v \<Longrightarrow> ival I (z_abs v) = \<bar>ival I v\<bar>"
  by (simp add: z_abs_def ival_ite holds_comparisons ival_arith)

lemma holds_sign_ne:
  "holds I (z_ne (z_lt a (z_int 0)) (z_lt b (z_int 0))) \<longleftrightarrow> (ival I a < 0) \<noteq> (ival I b < 0)"
  by (simp add: holds_ne ival_def)

lemma ival_signed_div:
  assumes "simplify_ok z" "integer_term a" "integer_term b" "ival I b \<noteq> 0"
  shows "ival I (signed_div z a b) = ival I a sdiv ival I b"
proof -
  have ints: "is_int (as_int a)" "is_int (as_int b)" using assms by simp_all
  have q: "ival I (z_div (z_abs (as_int a)) (z_abs (as_int b))) = \<bar>ival I a\<bar> div \<bar>ival I b\<bar>"
    using assms(4) ints by (simp add: ival_div ival_z_abs smt_div_def)
  show ?thesis
    using assms(1,4) q
    by (simp add: signed_div_def Let_def ival_simplify ival_ite holds_sign_ne ival_arith
        signed_divide_int_def sgn_if)
qed

lemma ival_signed_rem:
  assumes "simplify_ok z" "integer_term a" "integer_term b" "ival I b \<noteq> 0"
  shows "ival I (signed_rem z a b) = ival I a smod ival I b"
proof -
  have ints: "is_int (as_int a)" "is_int (as_int b)" using assms by simp_all
  have r: "ival I (z_mod (z_abs (as_int a)) (z_abs (as_int b))) = \<bar>ival I a\<bar> mod \<bar>ival I b\<bar>"
    using assms(4) ints by (simp add: ival_div ival_z_abs smt_mod_def)
  have "ival I a smod ival I b = sgn (ival I a) * (\<bar>ival I a\<bar> mod \<bar>ival I b\<bar>)"
    by (simp add: signed_modulo_int_def)
  then show ?thesis
    using assms(1,4) r
    by (simp add: signed_rem_def Let_def ival_simplify ival_ite holds_comparisons ival_arith sgn_if)
qed

lemma holds_in_signed_range:
  assumes "simplify_ok z"
  shows "holds I (in_signed_range z v width) \<longleftrightarrow>
    - (2 ^ (width - 1)) \<le> ival I v \<and> ival I v < 2 ^ (width - 1)"
  using assms by (auto simp: in_signed_range_def signed_min_def signed_max_def holds_connectives
      holds_comparisons ival_arith)

lemma holds_in_unsigned_range:
  assumes "simplify_ok z"
  shows "holds I (in_unsigned_range z v width) \<longleftrightarrow> 0 \<le> ival I v \<and> ival I v < 2 ^ width"
  using assms by (auto simp: in_unsigned_range_def holds_connectives holds_comparisons ival_arith)

section \<open>The words behind the terms\<close>

lemma signed_of_word: "signed_of LENGTH('a) i = sint (word_of_int i :: 'a::len word)"
proof -
  have w: "LENGTH('a) \<ge> 1" by (simp add: Suc_leI)
  let ?r = "i mod 2 ^ LENGTH('a)"
  have r: "0 \<le> ?r" "?r < 2 ^ LENGTH('a)" by simp_all
  have "sint (word_of_int i :: 'a word) =
      (i + 2 ^ (LENGTH('a) - 1)) mod 2 ^ LENGTH('a) - 2 ^ (LENGTH('a) - 1)"
    by (rule int_word_sint)
  also have "\<dots> = (if ?r \<ge> 2 ^ (LENGTH('a) - 1) then ?r - 2 ^ LENGTH('a) else ?r)"
  proof -
    have "(i + 2 ^ (LENGTH('a) - 1)) mod 2 ^ LENGTH('a) =
        (?r + 2 ^ (LENGTH('a) - 1)) mod 2 ^ LENGTH('a)"
      by (simp add: mod_add_left_eq)
    moreover have p: "(2::int) ^ LENGTH('a) = 2 * 2 ^ (LENGTH('a) - 1)"
      using w by (metis Suc_diff_1 less_le_trans power_Suc zero_less_one)
    moreover have "(?r + 2 ^ (LENGTH('a) - 1)) mod 2 ^ LENGTH('a) =
        (if ?r \<ge> 2 ^ (LENGTH('a) - 1) then ?r + 2 ^ (LENGTH('a) - 1) - 2 ^ LENGTH('a)
         else ?r + 2 ^ (LENGTH('a) - 1))"
    proof (cases "?r \<ge> 2 ^ (LENGTH('a) - 1)")
      case True
      have "(?r + 2 ^ (LENGTH('a) - 1) - 2 ^ LENGTH('a)) mod 2 ^ LENGTH('a) =
          ?r + 2 ^ (LENGTH('a) - 1) - 2 ^ LENGTH('a)"
      proof (rule mod_pos_pos_trivial)
        have h: "(0::int) \<le> 2 ^ (LENGTH('a) - 1)" by simp
        show "0 \<le> ?r + 2 ^ (LENGTH('a) - 1) - 2 ^ LENGTH('a)" using True p by linarith
        show "?r + 2 ^ (LENGTH('a) - 1) - 2 ^ LENGTH('a) < 2 ^ LENGTH('a)"
          using r(2) p h by linarith
      qed
      then show ?thesis using True by (metis mod_add_self2 diff_add_cancel)
    next
      case False
      then show ?thesis using r p by (simp add: mod_pos_pos_trivial)
    qed
    ultimately show ?thesis by simp
  qed
  finally show ?thesis by (simp add: signed_of_def Let_def)
qed

lemma unsigned_word: "i mod 2 ^ LENGTH('a) = uint (word_of_int i :: 'a::len word)"
  by (simp add: uint_word_of_int)

text \<open>An integer represents a word when it has the word's residue.\<close>

definition represents :: "int \<Rightarrow> 'a::len word \<Rightarrow> bool" where
  "represents i w \<longleftrightarrow> word_of_int i = w"

lemma represents_sint [simp]: "represents (sint w) w"
  by (simp add: represents_def)

lemma represents_uint [simp]: "represents (uint w) w"
  by (simp add: represents_def)

lemma represents_arith:
  assumes "represents i v" "represents j w"
  shows "represents (i + j) (v + w)" "represents (i - j) (v - w)" "represents (i * j) (v * w)"
  using assms by (auto simp: represents_def)

lemma represents_signed:
  assumes "represents i (w :: 'a::len word)"
  shows "signed_of LENGTH('a) i = sint w"
  using assms by (simp add: signed_of_word represents_def)

lemma represents_unsigned:
  assumes "represents i (w :: 'a::len word)"
  shows "i mod 2 ^ LENGTH('a) = uint w"
  using assms by (simp add: unsigned_word represents_def)

section \<open>Bitwise operations with a constant mask\<close>

lemma smt_div_pow: "smt_div a (2 ^ k) = a div 2 ^ k"
  by (simp add: smt_div_def)

text \<open>The loop adds the digits of the operand that the mask selects.\<close>

lemma and_step: "(a :: int) AND int m = (if odd m then a mod 2 else 0) + 2 * ((a div 2) AND int (m div 2))"
  by (subst and_int.rec [of a "int m"]) (auto simp: zdiv_int mod_2_eq_odd)

lemma intersection_loop_value:
  "intersection_loop lhs m (2 ^ k) d i0 = Some r \<Longrightarrow>
     ival I r = ival I i0 + 2 ^ k * ((ival I lhs div 2 ^ k) AND int m)"
proof (induction m arbitrary: k d i0 rule: less_induct)
  case (less m)
  show ?case
  proof (cases "m = 0")
    case True
    then show ?thesis using less.prems by (simp add: intersection_loop.simps)
  next
    case False
    let ?w = "2 ^ k :: int"
    let ?i = "if m mod 2 \<noteq> 0
      then z_add i0 (z_mul (z_mod (z_div lhs (z_int ?w)) (z_int 2)) (z_int ?w)) else i0"
    have "intersection_loop lhs (m div 2) (2 ^ Suc k) (d + 1) ?i = Some r"
      using less.prems False by (subst (asm) intersection_loop.simps) (simp add: mult.commute split: if_splits)
    then have "ival I r = ival I ?i + 2 ^ Suc k * ((ival I lhs div 2 ^ Suc k) AND int (m div 2))"
      using less.IH [of "m div 2" "Suc k" "d + 1" ?i] False by simp
    moreover have "ival I ?i = ival I i0 + (if odd m then (ival I lhs div 2 ^ k) mod 2 else 0) * ?w"
      by (simp add: ival_arith ival_div smt_div_pow smt_mod_def odd_iff_mod_2_eq_one)
    moreover have "ival I lhs div 2 ^ Suc k = ival I lhs div 2 ^ k div 2"
      by (simp add: zdiv_zmult2_eq power_Suc2 del: power_Suc)
    ultimately show ?thesis
      by (simp add: and_step [of "ival I lhs div 2 ^ k" m] algebra_simps)
  qed
qed

lemma intersection_loop_sort: "intersection_loop lhs m w d i0 = Some r \<Longrightarrow> is_int i0 \<Longrightarrow> is_int r"
  by (induction lhs m w d i0 rule: intersection_loop.induct)
    (subst (asm) intersection_loop.simps, auto split: if_splits)

text \<open>The loop ends for every mask of at most 4096 digits.\<close>

lemma intersection_loop_total:
  "m < 2 ^ (4096 - d) \<Longrightarrow> d \<le> 4096 \<Longrightarrow> \<exists>r. intersection_loop lhs m w d i0 = Some r"
proof (induction m arbitrary: w d i0 rule: less_induct)
  case (less m)
  show ?case
  proof (cases "m = 0")
    case True
    then show ?thesis by (simp add: intersection_loop.simps)
  next
    case False
    have d: "d < 4096"
    proof (rule ccontr)
      assume "\<not> d < 4096"
      then show False using less.prems False by simp
    qed
    then have "4096 - d = Suc (4096 - Suc d)" by simp
    then have "m div 2 < 2 ^ (4096 - Suc d)" using less.prems(1) by simp
    then have "\<exists>r. intersection_loop lhs (m div 2) (w * 2) (Suc d) i1 = Some r" for i1
      using less.IH [of "m div 2"] False d by simp
    then show ?thesis using False d by (subst intersection_loop.simps) simp
  qed
qed

fun bitwise_result :: "bitwise_operation \<Rightarrow> int \<Rightarrow> int \<Rightarrow> int" where
  "bitwise_result BitAnd a b = a AND b"
| "bitwise_result BitOr a b = a OR b"
| "bitwise_result BitXor a b = a XOR b"

lemma or_and_int: "(a::int) OR b = a + b - (a AND b)"
  using disjunctive_add_eq_or [of "a AND NOT b" b] plus_and_or [of a b] by simp

lemma xor_and_int: "(a::int) XOR b = a + b - 2 * (a AND b)"
proof -
  have "(a XOR b) AND (a AND b) = 0" by (rule bit_eqI) (auto simp: bit_simps)
  then have "(a XOR b) + (a AND b) = (a XOR b) OR (a AND b)" by (rule disjunctive_add_eq_or)
  also have "\<dots> = a OR b" by (rule bit_eqI) (auto simp: bit_simps)
  finally show ?thesis by (simp add: or_and_int)
qed

lemma and_negative_mask: "(a::int) AND m = a - (a AND (- m - 1))"
proof -
  have n: "- m - 1 = NOT m" by (simp add: not_int_def)
  have "(a AND m) AND (a AND NOT m) = 0" by (rule bit_eqI) (auto simp: bit_simps)
  then have "(a AND m) + (a AND NOT m) = (a AND m) OR (a AND NOT m)" by (rule disjunctive_add_eq_or)
  also have "\<dots> = a" by (rule bit_eqI) (auto simp: bit_simps)
  finally show ?thesis unfolding n by simp
qed

lemma numeral_valueD: "numeral_value e = Some m \<Longrightarrow> e = z_int m"
  by (cases e rule: numeral_value.cases) auto

lemma integer_bitwise_value:
  assumes z: "simplify_ok z" and ret: "integer_bitwise z a b op = Some r"
  shows "ival I r = bitwise_result op (ival I a) (ival I b)"
proof -
  let ?l = "z_simplify z (as_int a)" and ?r = "z_simplify z (as_int b)"
  have iv: "ival I ?l = ival I a" "ival I ?r = ival I b"
    using z by (simp_all add: ival_simplify)
  show ?thesis
  proof (cases "?l = ?r")
    case True
    then have same: "ival I a = ival I b" using iv by simp
    have "r = (if op = BitXor then z_int 0 else ?l)"
      using ret True by (auto simp: integer_bitwise_def Let_def split: if_splits)
    then show ?thesis using iv same by (cases op) (simp_all add: ival_arith)
  next
    case False
    obtain lhs rhs where sw: "(lhs, rhs) = (if numeral_value ?r = None then (?r, ?l) else (?l, ?r))"
      by (metis surj_pair)
    obtain m where m: "numeral_value rhs = Some m"
      using ret False sw by (cases "numeral_value rhs") (auto simp: integer_bitwise_def Let_def split: if_splits)
    let ?mask = "nat (if m < 0 then - m - 1 else m)"
    obtain i where i: "intersection_loop lhs ?mask 1 0 (z_int 0) = Some i"
      using ret False sw m by (auto simp: integer_bitwise_def Let_def split: if_splits option.splits)
    let ?inter = "if m < 0 then z_sub lhs i else i"
    have r: "r = z_simplify z (if op = BitAnd then ?inter
        else z_sub (z_add lhs rhs) (z_mul ?inter (z_int (if op = BitOr then 1 else 2))))"
      using ret False sw m i by (auto simp: integer_bitwise_def Let_def split: if_splits)
    have "ival I i = ival I lhs AND int ?mask"
      using intersection_loop_value [of lhs ?mask 0 0 "z_int 0" i I] i by (simp add: ival_arith)
    then have inter: "ival I ?inter = ival I lhs AND m"
      using and_negative_mask [of "ival I lhs" m] by (auto simp: ival_arith)
    have rm: "ival I rhs = m" using numeral_valueD [OF m] by (simp add: ival_arith)
    have "ival I r = bitwise_result op (ival I lhs) m"
      using inter rm z
      by (cases op) (simp_all add: r ival_simplify ival_arith or_and_int xor_and_int)
    moreover have "bitwise_result op (ival I lhs) (ival I rhs) = bitwise_result op (ival I a) (ival I b)"
      using sw iv by (cases op) (auto simp: and.commute or.commute xor.commute split: if_splits)
    ultimately show ?thesis using rm by simp
  qed
qed

lemma integer_shift_factor_value:
  assumes "simplify_ok z" "integer_shift_factor z a = Some f"
  shows "ival I f = (if ival I a < 0 then 1 else 2 ^ nat (ival I a)) \<and> ival I a \<le> 4096"
proof -
  obtain s where s: "numeral_value (z_simplify z (as_int a)) = Some s"
    using assms(2) by (auto simp: integer_shift_factor_def split: option.splits)
  have "ival I (z_simplify z (as_int a)) = s"
    using numeral_valueD [OF s] by (simp add: ival_arith)
  then have "ival I a = s" using assms(1) by (simp add: ival_simplify)
  then show ?thesis
    using assms(2) s by (auto simp: integer_shift_factor_def ival_arith push_bit_eq_mult split: if_splits)
qed

section \<open>Properties\<close>

text \<open>Reading an integer term as a signed or an unsigned value of a width gives the two's-complement
  reading of the word it represents.\<close>

theorem as_signed_unsigned_correct:
  fixes w :: "'a::len word"
  assumes "simplify_ok z" "is_int v" "represents (ival I v) w"
  shows "ival I (as_signed z v LENGTH('a)) = sint w \<and> ival I (as_unsigned z v LENGTH('a)) = uint w"
  using ival_as_signed [OF assms(1,2)] ival_as_unsigned [OF assms(1,2)]
    represents_signed [OF assms(3)] represents_unsigned [OF assms(3)] by simp

theorem as_signed_unsigned_correct_witness:
  "ival zero_interp (as_signed closed_z3 (z_int 255) 8) = - 1 \<and>
   ival zero_interp (as_unsigned closed_z3 (z_int 255) 8) = 255"
  using as_signed_unsigned_correct [of closed_z3 "z_int 255" zero_interp "255 :: 8 word"]
  by (simp add: represents_def ival_arith)

text \<open>The quotient and remainder terms are the truncated division and its remainder.\<close>

theorem signed_division_correct:
  assumes "simplify_ok z" "integer_term a" "integer_term b" "ival I b \<noteq> 0"
  shows "ival I (signed_div z a b) = ival I a sdiv ival I b \<and>
    ival I (signed_rem z a b) = ival I a smod ival I b"
  using ival_signed_div [OF assms] ival_signed_rem [OF assms] by simp

theorem signed_division_correct_witness:
  "ival zero_interp (signed_div closed_z3 (z_int (- 7)) (z_int 2)) = - 3 \<and>
   ival zero_interp (signed_rem closed_z3 (z_int (- 7)) (z_int 2)) = - 1"
  using signed_division_correct [of closed_z3 "z_int (- 7)" "z_int 2" zero_interp]
  by (simp add: integer_term_def ival_arith signed_divide_int_def signed_modulo_int_def)

text \<open>The width-free bitwise term for a constant mask has the value of the bitwise operation on
  infinite two's-complement integers, whatever operand holds the mask.\<close>

theorem integer_bitwise_correct:
  assumes "simplify_ok z" "integer_bitwise z a b op = Some r"
  shows "ival I r = bitwise_result op (ival I a) (ival I b)"
  by (rule integer_bitwise_value [OF assms])

theorem integer_bitwise_correct_witness:
  "ival zero_interp (the (integer_bitwise closed_z3 (z_int 13) (z_int 6) BitAnd)) = 13 AND 6"
proof -
  have "\<exists>i. intersection_loop (z_int 13) 6 1 0 (z_int 0) = Some i"
    by (rule intersection_loop_total) simp_all
  then obtain r where r: "integer_bitwise closed_z3 (z_int 13) (z_int 6) BitAnd = Some r"
    by (auto simp: integer_bitwise_def closed_z3_def as_int_def)
  show ?thesis
    using integer_bitwise_correct [OF closed_z3_simplify r, of zero_interp] r by (simp add: ival_arith)
qed

end
