(* ===== verification/Expression.thy ===== *)
theory Expression
  imports Formula_Simplify Integer_Semantics
begin

text \<open>
  Conditional symbolic expressions (lib/Expr.h, lib/Expr.cpp): parallel vectors of conditions,
  expressions and definedness conditions, and the operators that combine them case by case.
\<close>

section \<open>Data and operators\<close>

record expression =
  conditions :: "z3expr list"
  expressions :: "z3expr list"
  definitions :: "z3expr list"

definition expression_cases :: "z3expr list \<Rightarrow> z3expr list \<Rightarrow> expression" where
  "expression_cases conds exprs =
     \<lparr>conditions = conds, expressions = exprs, definitions = map (\<lambda>_. z_true) exprs\<rparr>"

definition expression_of :: "z3_api \<Rightarrow> z3expr \<Rightarrow> expression" where
  "expression_of z e =
     (let pieces = expr2piecewise z e
      in \<lparr>conditions = map fst pieces, expressions = map snd pieces,
          definitions = map (\<lambda>_. z_true) pieces\<rparr>)"

text \<open>The default constructor.\<close>

definition empty_expression :: expression where
  "empty_expression = \<lparr>conditions = [], expressions = [], definitions = []\<rparr>"

definition bin_operator ::
    "z3_api \<Rightarrow> (z3expr \<Rightarrow> z3expr \<Rightarrow> z3expr) \<Rightarrow> expression \<Rightarrow> expression \<Rightarrow> expression" where
  "bin_operator z op lhs rhs =
     (let cond_at = (\<lambda>ix. z_and (conditions lhs ! (ix ! 0)) (conditions rhs ! (ix ! 1)));
          kept = filter (\<lambda>ix. is_feasible z (cond_at ix) None)
                   (cartesian_product [length (conditions lhs), length (conditions rhs)] 0)
      in \<lparr>conditions = map cond_at kept,
          expressions = map (\<lambda>ix. op (expressions lhs ! (ix ! 0)) (expressions rhs ! (ix ! 1))) kept,
          definitions = map (\<lambda>ix. z_and (definitions lhs ! (ix ! 0)) (definitions rhs ! (ix ! 1))) kept\<rparr>)"

definition e_add where "e_add z = bin_operator z (\<lambda>a b. z_add a b)"
definition e_sub where "e_sub z = bin_operator z (\<lambda>a b. z_sub a b)"
definition e_mul where "e_mul z = bin_operator z (\<lambda>a b. z_mul a b)"
definition e_div where "e_div z = bin_operator z (\<lambda>a b. z_simplify z (z_div a b))"
definition e_mod where "e_mod z = bin_operator z (\<lambda>a b. z_mod a b)"
definition e_eq where "e_eq z = bin_operator z (\<lambda>a b. z_eq a b)"
definition e_ne where "e_ne z = bin_operator z (\<lambda>a b. z_ne a b)"
definition e_lt where "e_lt z = bin_operator z (\<lambda>a b. z_lt a b)"
definition e_le where "e_le z = bin_operator z (\<lambda>a b. z_le a b)"
definition e_gt where "e_gt z = bin_operator z (\<lambda>a b. z_gt a b)"
definition e_ge where "e_ge z = bin_operator z (\<lambda>a b. z_ge a b)"
definition e_and where "e_and z = bin_operator z (\<lambda>a b. z_and a b)"
definition e_or where "e_or z = bin_operator z (\<lambda>a b. z_or a b)"
definition e_xor where "e_xor z = bin_operator z (\<lambda>a b. z_xor a b)"

definition e_not :: "expression \<Rightarrow> expression" where
  "e_not E = E\<lparr>expressions := map (\<lambda>e. if is_bool e then z_not e else z_eq e (z_int 0)) (expressions E)\<rparr>"

definition e_neg :: "expression \<Rightarrow> expression" where
  "e_neg E = E\<lparr>expressions := map (\<lambda>e. z_neg e) (expressions E)\<rparr>"

text \<open>A size mismatch throws, an empty vector has no last case.\<close>

definition as_expr :: "z3_api \<Rightarrow> expression \<Rightarrow> z3expr option" where
  "as_expr z E =
     (if length (conditions E) \<noteq> length (expressions E) then None
      else piecewise2ite z (zip (conditions E) (expressions E)))"

definition defined_term :: "z3_api \<Rightarrow> expression \<Rightarrow> z3expr option" where
  "defined_term z E =
     (if definitions E = [] then Some z_true
      else if length (conditions E) \<noteq> length (definitions E) then None
      else piecewise2ite z (zip (conditions E) (definitions E)))"

text \<open>The loop of \<open>push_front\<close>: every old condition is restricted to the complement of the earlier ones.\<close>

fun shadowed :: "z3_api \<Rightarrow> z3expr \<Rightarrow> z3expr list \<Rightarrow> z3expr list option" where
  "shadowed z acc_cond [] = Some []"
| "shadowed z acc_cond (c # cs) =
     (case simplify z (z_and (z_not acc_cond) c) None of
        None \<Rightarrow> None
      | Some d \<Rightarrow> map_option (\<lambda>ds. d # ds) (shadowed z (z_or acc_cond c) cs))"

definition push_front :: "z3_api \<Rightarrow> z3expr \<Rightarrow> expression \<Rightarrow> expression \<Rightarrow> expression option" where
  "push_front z condition e E =
     (case (as_expr z e, defined_term z e, shadowed z condition (conditions E)) of
        (Some x, Some d, Some cs) \<Rightarrow>
          Some \<lparr>conditions = condition # cs, expressions = x # expressions E,
                definitions = d # definitions E\<rparr>
      | _ \<Rightarrow> None)"

definition subs :: "z3_api \<Rightarrow> z3expr list \<Rightarrow> expression list \<Rightarrow> expression \<Rightarrow> expression option" where
  "subs z src dst E =
     (if length src \<noteq> length dst \<or> list_ex (\<lambda>d. as_expr z d = None) dst then None
      else let s = zip src (map (\<lambda>d. the (as_expr z d)) dst)
           in Some \<lparr>conditions = map (substitute s) (conditions E),
                    expressions = map (\<lambda>e. z_simplify z (substitute s e)) (expressions E),
                    definitions = map (\<lambda>d. z_simplify z (substitute s d)) (definitions E)\<rparr>)"

section \<open>The value of a conditional expression\<close>

definition expr_wf :: "expression \<Rightarrow> bool" where
  "expr_wf E \<longleftrightarrow> length (expressions E) = length (conditions E) \<and>
     length (definitions E) = length (conditions E)"

text \<open>
  An expression denotes a value and a definedness when some condition holds and every case whose
  condition holds has them.
\<close>

definition denotes :: "interp \<Rightarrow> expression \<Rightarrow> z3val \<Rightarrow> bool \<Rightarrow> bool" where
  "denotes I E v d \<longleftrightarrow> expr_wf E \<and>
     (\<exists>i<length (conditions E). holds I (conditions E ! i)) \<and>
     (\<forall>i<length (conditions E). holds I (conditions E ! i) \<longrightarrow>
        eval I (expressions E ! i) = v \<and> holds I (definitions E ! i) = d)"

lemma denotes_wf: "denotes I E v d \<Longrightarrow> expr_wf E"
  by (simp add: denotes_def)

lemma denotes_unique: "denotes I E v d \<Longrightarrow> denotes I E v' d' \<Longrightarrow> v = v' \<and> d = d'"
  unfolding denotes_def by blast

lemma denotes_cases_value:
  "denotes I E v d \<Longrightarrow> cases_value I (zip (conditions E) (expressions E)) v"
  unfolding denotes_def expr_wf_def cases_value_def
  by (auto simp: set_zip in_set_conv_nth)

lemma denotes_expression_of:
  assumes "z3_ok z" "ite_sorted e"
  shows "denotes I (expression_of z e) (eval I e) True"
proof -
  define ps where "ps = expr2piecewise z e"
  have v: "cases_value I ps (eval I e)"
    unfolding ps_def by (rule expr2piecewise_value [OF assms])
  obtain i where i: "i < length ps" "holds I (fst (ps ! i))"
    using v unfolding cases_value_def by (metis in_set_conv_nth)
  have all: "eval I (snd (ps ! i)) = eval I e" if "i < length ps" "holds I (fst (ps ! i))" for i
    using v that unfolding cases_value_def by (metis nth_mem)
  have eq: "expression_of z e = \<lparr>conditions = map fst ps, expressions = map snd ps,
      definitions = map (\<lambda>_. z_true) ps\<rparr>"
    by (simp add: expression_of_def ps_def Let_def)
  show ?thesis
    unfolding denotes_def expr_wf_def eq using i all by (auto simp: holds_not_false)
qed

lemma product2:
  "set (cartesian_product [m, n] 0) = {[i, j] |i j. i < m \<and> j < n}"
  by (subst cartesian_product_0) (auto simp: list_all2_Cons2)

lemma feasible_if_holds:
  assumes "check_ok z" "z_check z [c] \<noteq> Unknown" "holds I c"
  shows "is_feasible z c None"
  using infeasible_sound [OF assms(1,2), of I] assms(3) by (auto simp: is_feasible_def)

lemma denotes_bin_operator:
  assumes z: "check_ok z" "\<forall>fs. z_check z fs \<noteq> Unknown"
    and l: "denotes I L v d" and r: "denotes I R w e"
    and op: "\<And>x y. eval I x = v \<Longrightarrow> eval I y = w \<Longrightarrow> eval I (op x y) = u"
  shows "denotes I (bin_operator z op L R) u (d \<and> e)"
proof -
  define c where "c = (\<lambda>ix. z_and (conditions L ! (ix ! 0)) (conditions R ! (ix ! 1)))"
  define K where "K = filter (\<lambda>ix. is_feasible z (c ix) None)
    (cartesian_product [length (conditions L), length (conditions R)] 0)"
  have B: "bin_operator z op L R = \<lparr>conditions = map c K,
      expressions = map (\<lambda>ix. op (expressions L ! (ix ! 0)) (expressions R ! (ix ! 1))) K,
      definitions = map (\<lambda>ix. z_and (definitions L ! (ix ! 0)) (definitions R ! (ix ! 1))) K\<rparr>"
    by (simp add: bin_operator_def Let_def K_def c_def)
  have holds_c: "holds I (c [i, j]) \<longleftrightarrow> holds I (conditions L ! i) \<and> holds I (conditions R ! j)" for i j
    by (simp add: c_def holds_connectives)
  have kept: "ix \<in> set K \<longleftrightarrow> (\<exists>i j. ix = [i, j] \<and> i < length (conditions L) \<and>
      j < length (conditions R) \<and> is_feasible z (c ix) None)" for ix
    by (auto simp: K_def product2)
  obtain i j where ij: "i < length (conditions L)" "holds I (conditions L ! i)"
      "j < length (conditions R)" "holds I (conditions R ! j)"
    using l r unfolding denotes_def by blast
  then have h: "holds I (c [i, j])" by (simp add: holds_c)
  have "is_feasible z (c [i, j]) None"
    using feasible_if_holds [OF z(1) _ h] z(2) by simp
  then have "[i, j] \<in> set K" using kept ij by blast
  then obtain k where k: "k < length K" "K ! k = [i, j]" by (metis in_set_conv_nth)
  then have some: "\<exists>k<length K. holds I (c (K ! k))" using h by auto
  have all: "eval I (op (expressions L ! (K ! k ! 0)) (expressions R ! (K ! k ! 1))) = u \<and>
      (holds I (definitions L ! (K ! k ! 0)) \<and> holds I (definitions R ! (K ! k ! 1))) = (d \<and> e)"
    if kb: "k < length K" "holds I (c (K ! k))" for k
  proof -
    obtain i j where ij: "K ! k = [i, j]" "i < length (conditions L)" "j < length (conditions R)"
      using kept nth_mem [OF kb(1)] by blast
    have hl: "holds I (conditions L ! i)" and hr: "holds I (conditions R ! j)"
      using kb(2) holds_c unfolding ij(1) by blast+
    have "eval I (expressions L ! i) = v \<and> holds I (definitions L ! i) = d"
      using l ij(2) hl unfolding denotes_def by blast
    moreover have "eval I (expressions R ! j) = w \<and> holds I (definitions R ! j) = e"
      using r ij(3) hr unfolding denotes_def by blast
    ultimately show ?thesis using op ij(1) by simp
  qed
  show ?thesis
    unfolding denotes_def expr_wf_def B using some all by (auto simp: holds_connectives)
qed

definition expr_sort :: "expression \<Rightarrow> z3sort \<Rightarrow> bool" where
  "expr_sort E s \<longleftrightarrow> (\<forall>e\<in>set (expressions E). sort_of e = s)"

lemma as_expr_value:
  assumes z: "z3_ok z" and d: "denotes I E v d" and s: "expr_sort E s"
  shows "\<exists>e. as_expr z E = Some e \<and> eval I e = v \<and> sort_of e = s"
proof -
  have wf: "length (conditions E) = length (expressions E)"
    using d by (simp add: denotes_def expr_wf_def)
  have "\<forall>p\<in>set (zip (conditions E) (expressions E)). sort_of (snd p) = s"
    using s by (auto simp: expr_sort_def dest: set_zip_rightD)
  from piecewise2ite_value [OF z this denotes_cases_value [OF d]] show ?thesis
    by (simp add: as_expr_def wf)
qed

lemma denotes_definitions:
  assumes "denotes I E v d"
  shows "cases_value I (zip (conditions E) (map (\<lambda>e. z_ite e z_true z_false) (definitions E))) (VBool d)"
  using assms unfolding denotes_def expr_wf_def cases_value_def
  by (auto simp: set_zip holds_def)

lemma defined_term_holds:
  assumes z: "z3_ok z" and den: "denotes I E v d" and b: "\<forall>e\<in>set (definitions E). is_bool e"
  shows "\<exists>t. defined_term z E = Some t \<and> holds I t = d"
proof -
  have wf: "length (conditions E) = length (definitions E)" "definitions E \<noteq> []"
    using den by (auto simp: denotes_def expr_wf_def)
  have sorts: "\<forall>p\<in>set (zip (conditions E) (definitions E)). sort_of (snd p) = BoolSort"
    using b by (auto simp: is_bool_def dest: set_zip_rightD)
  have "eval I (definitions E ! i) = VBool d"
    if "i < length (conditions E)" "holds I (conditions E ! i)" for i
    using den that b wf eval_bool [of "definitions E ! i" I] by (auto simp: denotes_def)
  then have "cases_value I (zip (conditions E) (definitions E)) (VBool d)"
    using den wf by (auto simp: cases_value_def set_zip denotes_def)
  from piecewise2ite_value [OF z sorts this] obtain t where
    "piecewise2ite z (zip (conditions E) (definitions E)) = Some t" "eval I t = VBool d" by blast
  then show ?thesis using wf by (auto simp: defined_term_def holds_def)
qed

lemma denotes_e_not:
  assumes "denotes I E v d" "\<forall>e\<in>set (expressions E). is_bool e \<or> is_int e"
  shows "denotes I (e_not E) (VBool (\<not> bool_of v)) d"
proof -
  have "eval I (if is_bool e then z_not e else z_eq e (z_int 0)) = VBool (\<not> bool_of v)"
    if "e \<in> set (expressions E)" "eval I e = v" for e
    using that assms(2) val_sort_eval [of I e] by (cases v) (auto simp: is_bool_def is_int_def)
  then show ?thesis
    using assms(1) unfolding denotes_def expr_wf_def e_not_def
    by (auto simp del: eval.simps)
qed

section \<open>Conditional update\<close>

lemma shadowed_holds:
  assumes z: "z3_ok z" and known: "\<forall>fs. z_check z fs \<noteq> Unknown"
  shows "shadowed z acc cs = Some ds \<Longrightarrow> length ds = length cs \<and>
    (\<forall>i<length cs. holds I (ds ! i) \<longleftrightarrow>
       \<not> holds I acc \<and> (\<forall>j<i. \<not> holds I (cs ! j)) \<and> holds I (cs ! i))"
proof (induction cs arbitrary: acc ds)
  case (Cons c cs)
  obtain d ds' where d: "simplify z (z_and (z_not acc) c) None = Some d"
      "shadowed z (z_or acc c) cs = Some ds'" "ds = d # ds'"
    using Cons.prems by (auto split: option.splits)
  have hd: "holds I d \<longleftrightarrow> \<not> holds I acc \<and> holds I c"
    using simplify_holds [OF z known d(1), of I] by (simp add: holds_connectives)
  note ih = Cons.IH [OF d(2)]
  have "holds I (ds ! i) \<longleftrightarrow>
      \<not> holds I acc \<and> (\<forall>j<i. \<not> holds I ((c # cs) ! j)) \<and> holds I ((c # cs) ! i)"
    if i: "i < length (c # cs)" for i
  proof (cases i)
    case 0
    then show ?thesis using hd d(3) by simp
  next
    case (Suc k)
    then have "holds I (ds' ! k) \<longleftrightarrow>
        \<not> holds I (z_or acc c) \<and> (\<forall>j<k. \<not> holds I (cs ! j)) \<and> holds I (cs ! k)"
      using ih i by simp
    moreover have "(\<forall>j<Suc k. \<not> holds I ((c # cs) ! j)) \<longleftrightarrow>
        \<not> holds I c \<and> (\<forall>j<k. \<not> holds I (cs ! j))"
      unfolding All_less_Suc2 by simp
    ultimately show ?thesis using d(3) Suc by (auto simp: holds_connectives)
  qed
  then show ?case using ih d(3) by simp
qed simp

lemma denotes_push_front:
  assumes z: "z3_ok z" and known: "\<forall>fs. z_check z fs \<noteq> Unknown"
    and X: "denotes I X w e" "expr_sort X s" "\<forall>d\<in>set (definitions X). is_bool d"
    and E: "denotes I E v d" and ret: "push_front z c X E = Some F"
  shows "denotes I F (if holds I c then w else v) (if holds I c then e else d)"
proof -
  obtain x where x: "as_expr z X = Some x" "eval I x = w"
    using as_expr_value [OF z X(1,2)] by blast
  obtain t where t: "defined_term z X = Some t" "holds I t = e"
    using defined_term_holds [OF z X(1,3)] by blast
  obtain cs where cs: "shadowed z c (conditions E) = Some cs"
      "F = \<lparr>conditions = c # cs, expressions = x # expressions E, definitions = t # definitions E\<rparr>"
    using ret x(1) t(1) by (auto simp: push_front_def split: option.splits)
  note sh = shadowed_holds [OF z known cs(1), of I]
  have wf: "expr_wf F" using denotes_wf [OF E] sh by (simp add: expr_wf_def cs(2))
  have rest: "\<not> holds I c \<and> eval I (expressions E ! i) = v \<and> holds I (definitions E ! i) = d"
    if "i < length cs" "holds I (cs ! i)" for i
    using that sh E unfolding denotes_def by auto
  have some: "\<exists>i<length (conditions F). holds I (conditions F ! i)"
  proof (cases "holds I c")
    case True
    then show ?thesis by (intro exI [of _ 0]) (simp add: cs(2))
  next
    case False
    have ex: "\<exists>i. i < length (conditions E) \<and> holds I (conditions E ! i)"
      using E unfolding denotes_def by blast
    define i where "i = (LEAST i. i < length (conditions E) \<and> holds I (conditions E ! i))"
    have i: "i < length (conditions E)" "holds I (conditions E ! i)"
      using LeastI_ex [OF ex] unfolding i_def by blast+
    have "\<not> holds I (conditions E ! j)" if "j < i" for j
      using not_less_Least [of j "\<lambda>i. i < length (conditions E) \<and> holds I (conditions E ! i)"] that i
      unfolding i_def [symmetric] by auto
    then have "holds I (cs ! i)" using sh i False by blast
    then show ?thesis using i sh by (intro exI [of _ "Suc i"]) (simp add: cs(2))
  qed
  have "eval I (expressions F ! i) = (if holds I c then w else v) \<and>
      holds I (definitions F ! i) = (if holds I c then e else d)"
    if "i < length (conditions F)" "holds I (conditions F ! i)" for i
    using that rest x(2) t(2) by (cases i) (auto simp: cs(2))
  then show ?thesis unfolding denotes_def using wf some by blast
qed

section \<open>Properties\<close>

text \<open>The sum operator, as an instance of the general statement.\<close>

lemma eval_add_int: "eval I a = VInt i \<Longrightarrow> eval I b = VInt j \<Longrightarrow> eval I (z_add a b) = VInt (i + j)"
  by simp

definition single_case :: "z3expr \<Rightarrow> expression" where
  "single_case e = \<lparr>conditions = [z_true], expressions = [e], definitions = [z_true]\<rparr>"

lemma denotes_single_case: "denotes I (single_case e) (eval I e) True"
  by (simp add: denotes_def single_case_def expr_wf_def holds_not_false)

text \<open>A binary operator on conditional expressions denotes the operation on the values of its
  operands, and is defined exactly when both are, provided the solver decides the feasibility of
  the combined cases.\<close>

theorem bin_operator_correct:
  assumes "check_ok z" "\<forall>fs. z_check z fs \<noteq> Unknown" "denotes I L v d" "denotes I R w e"
    and "\<And>x y. eval I x = v \<Longrightarrow> eval I y = w \<Longrightarrow> eval I (op x y) = u"
  shows "denotes I (bin_operator z op L R) u (d \<and> e)"
  by (rule denotes_bin_operator [OF assms])

theorem bin_operator_correct_witness:
  "denotes zero_interp (e_add ideal_z3 (single_case (z_int 3)) (single_case (z_int 4))) (VInt 7) (True \<and> True)"
  unfolding e_add_def
  by (rule bin_operator_correct [OF z3_okD(2) [OF ideal_z3_ok] _ denotes_single_case denotes_single_case])
    (simp_all add: ideal_z3_known)



text \<open>A solver that always gives up is sound, and loses every case of a binary operator.\<close>

definition silent_z3 :: z3_api where
  "silent_z3 = closed_z3\<lparr>z_check := (\<lambda>_. Unknown)\<rparr>"

lemma silent_z3_ok: "z3_ok silent_z3"
proof -
  have aux: "collect_aux_vars silent_z3 e = []" for e
    by (simp add: collect_aux_vars_def silent_z3_def closed_z3_def)
  have "elim_ite_ok silent_z3"
    unfolding elim_ite_ok_def aux by (simp add: silent_z3_def closed_z3_def holds_connectives)
  moreover have "qe_ok silent_z3"
    unfolding qe_ok_def by (simp add: silent_z3_def closed_z3_def holds_connectives)
  moreover have "simplify_ok silent_z3" "check_ok silent_z3" "core_ok silent_z3"
    by (simp_all add: simplify_ok_def check_ok_def core_ok_def silent_z3_def closed_z3_def)
  ultimately show ?thesis by (simp add: z3_ok_def)
qed

text \<open>An unknown answer to the feasibility question drops the case: with a sound solver that gives
  up, no binary operator has a case left, so its result denotes no value.\<close>

theorem bin_operator_unknown_loses_cases:
  "\<exists>z. z3_ok z \<and> (\<forall>op L R. conditions (bin_operator z op L R) = [] \<and>
     as_expr z (bin_operator z op L R) = None)"
proof -
  have "z_check silent_z3 fs = Unknown" for fs by (simp add: silent_z3_def)
  then have "conditions (bin_operator silent_z3 op L R) = []" for op L R
    by (simp add: bin_operator_def is_feasible_def Let_def)
  moreover have "as_expr silent_z3 (bin_operator silent_z3 op L R) = None" for op L R
    using calculation [of op L R]
    by (simp add: as_expr_def piecewise2ite_def merge_cases_def merge_from.simps)
  ultimately show ?thesis using silent_z3_ok by blast
qed

end
