(* ===== verification/Summaries.thy ===== *)
theory Summaries
  imports Expression
begin

text \<open>
  The summaries of functions and loops (lib/FunctionSummary.h, lib/FunctionSummary.cpp,
  lib/LoopSummary.h, lib/LoopSummary.cpp): what the summarizers produce and the executor applies.
  Values, loops and functions of the analysed module are identified by natural numbers; a map of
  closed forms is the list of its entries in the order of its keys.
\<close>

type_synonym value_id = nat
type_synonym loop_id = nat
type_synonym function_id = nat
type_synonym closed_forms = "(z3expr \<times> z3expr) list"

datatype veri_result = HOLD | FAIL | VERIUNKNOWN

text \<open>Substitution asserts that the two vectors have the same length.\<close>

definition substitute_all :: "z3expr list \<Rightarrow> z3expr list \<Rightarrow> z3expr \<Rightarrow> z3expr option" where
  "substitute_all src dst e = (if length src = length dst then Some (substitute (zip src dst) e) else None)"

section \<open>Functions\<close>

record function_summary =
  fs_params :: "z3expr list"
  fs_value :: expression
  fs_over_approx :: closed_forms
  fs_exit_condition :: "z3expr option"
  fs_iteration_condition :: "z3expr option"
  fs_initial_params :: "z3expr list"
  fs_final_params :: "z3expr list"
  fs_relational_condition :: "z3expr option"

definition exact_function_summary :: "z3_api \<Rightarrow> z3expr list \<Rightarrow> z3expr \<Rightarrow> function_summary" where
  "exact_function_summary z params summary =
     \<lparr>fs_params = params, fs_value = expression_of z summary, fs_over_approx = [],
      fs_exit_condition = None, fs_iteration_condition = None, fs_initial_params = [],
      fs_final_params = [], fs_relational_condition = None\<rparr>"

definition over_approx_function_summary ::
    "z3expr list \<Rightarrow> closed_forms \<Rightarrow> z3expr \<Rightarrow> z3expr \<Rightarrow> z3expr list \<Rightarrow> z3expr list \<Rightarrow> z3expr \<Rightarrow>
     function_summary" where
  "over_approx_function_summary params over_approx exit_c iteration initial final relational =
     \<lparr>fs_params = params, fs_value = empty_expression, fs_over_approx = over_approx,
      fs_exit_condition = Some exit_c, fs_iteration_condition = Some iteration,
      fs_initial_params = initial, fs_final_params = final, fs_relational_condition = Some relational\<rparr>"

definition function_over_approximated :: "function_summary \<Rightarrow> bool" where
  "function_over_approximated fs = (fs_over_approx fs \<noteq> [] \<or> fs_relational_condition fs \<noteq> None)"

definition get_exit_condition :: "function_summary \<Rightarrow> z3expr" where
  "get_exit_condition fs = (case fs_exit_condition fs of Some c \<Rightarrow> c | None \<Rightarrow> z_true)"

definition get_iteration_condition :: "function_summary \<Rightarrow> z3expr" where
  "get_iteration_condition fs = (case fs_iteration_condition fs of Some c \<Rightarrow> c | None \<Rightarrow> z_true)"

definition get_relational_condition :: "function_summary \<Rightarrow> z3expr" where
  "get_relational_condition fs = (case fs_relational_condition fs of Some c \<Rightarrow> c | None \<Rightarrow> z_true)"

definition evaluate_function :: "z3_api \<Rightarrow> function_summary \<Rightarrow> expression list \<Rightarrow> expression option" where
  "evaluate_function z fs actuals =
     (if length actuals \<noteq> length (fs_params fs) then None else subs z (fs_params fs) actuals (fs_value fs))"

section \<open>Loops\<close>

record loop_summary =
  ls_params :: "z3expr list"
  ls_modified :: "value_id list"
  ls_exact :: "z3expr list"
  ls_closed_forms :: "z3expr list"
  ls_over_approx :: closed_forms
  ls_constraints :: z3expr
  ls_count :: "z3expr option"
  ls_is_over_approx :: bool
  ls_invariant_results :: "veri_result list"

definition exact_loop_summary ::
    "z3expr list \<Rightarrow> z3expr list \<Rightarrow> z3expr list \<Rightarrow> z3expr \<Rightarrow> value_id list \<Rightarrow> z3expr option \<Rightarrow> loop_summary" where
  "exact_loop_summary params exact_values closed constraints modified count =
     \<lparr>ls_params = params, ls_modified = modified, ls_exact = exact_values, ls_closed_forms = closed,
      ls_over_approx = [], ls_constraints = constraints, ls_count = count, ls_is_over_approx = False,
      ls_invariant_results = []\<rparr>"

definition over_approx_loop_summary ::
    "z3expr list \<Rightarrow> z3expr list \<Rightarrow> z3expr list \<Rightarrow> closed_forms \<Rightarrow> z3expr \<Rightarrow> z3expr option \<Rightarrow> loop_summary" where
  "over_approx_loop_summary params exact_values closed over_approx constraints count =
     \<lparr>ls_params = params, ls_modified = [], ls_exact = exact_values, ls_closed_forms = closed,
      ls_over_approx = over_approx, ls_constraints = constraints, ls_count = count,
      ls_is_over_approx = True, ls_invariant_results = []\<rparr>"

definition map_options :: "('a \<Rightarrow> 'b option) \<Rightarrow> 'a list \<Rightarrow> 'b list option" where
  "map_options f xs = (if list_ex (\<lambda>x. f x = None) xs then None else Some (map (\<lambda>x. the (f x)) xs))"

definition evaluate_loop :: "loop_summary \<Rightarrow> z3expr list \<Rightarrow> z3expr list option" where
  "evaluate_loop ls actuals =
     (if ls_is_over_approx ls
      then map_options (\<lambda>(lhs, rhs). map_option (z_eq lhs) (substitute_all (ls_params ls) actuals rhs))
             (ls_over_approx ls)
      else map_options (substitute_all (ls_params ls) actuals) (ls_closed_forms ls))"

definition evaluate_expr :: "loop_summary \<Rightarrow> z3expr \<Rightarrow> z3expr option" where
  "evaluate_expr ls e = substitute_all (ls_params ls) (ls_closed_forms ls) e"

definition add_invariant_result :: "veri_result \<Rightarrow> loop_summary \<Rightarrow> loop_summary" where
  "add_invariant_result r ls = ls\<lparr>ls_invariant_results := ls_invariant_results ls @ [r]\<rparr>"

definition set_modified_values :: "value_id list \<Rightarrow> loop_summary \<Rightarrow> loop_summary" where
  "set_modified_values vs ls = ls\<lparr>ls_modified := vs\<rparr>"

definition add_modified_value :: "value_id \<Rightarrow> loop_summary \<Rightarrow> loop_summary" where
  "add_modified_value v ls = ls\<lparr>ls_modified := ls_modified ls @ [v]\<rparr>"

definition set_over_approximated :: "bool \<Rightarrow> loop_summary \<Rightarrow> loop_summary" where
  "set_over_approximated b ls = ls\<lparr>ls_is_over_approx := b\<rparr>"

definition add_closed_form :: "z3expr \<Rightarrow> z3expr \<Rightarrow> loop_summary \<Rightarrow> loop_summary" where
  "add_closed_form param closed ls =
     ls\<lparr>ls_params := ls_params ls @ [param], ls_closed_forms := ls_closed_forms ls @ [closed]\<rparr>"

end
