(* ===== verification/Rec_Worker.thy ===== *)
theory Rec_Worker
  imports Prelude "HOL-Library.Word"
begin

text \<open>
  The client of the external recurrence solver (lib/rec_solver.cpp, RecurrenceSolverWorker): requests
  and responses over the pipes of a child process, the cache of answers, one retry with a new
  process.  The child is a parameter: for every exchange it says whether the request can be written and
  which bytes it answers.  Trace files are left out.
\<close>

section \<open>Options\<close>

text \<open>\<open>std::stoi\<close>: blanks, a sign, digits; None stands for its exceptions.\<close>

definition stoi :: "string \<Rightarrow> int option" where
  "stoi text =
     (let body = dropWhile is_space text;
          negative = (body \<noteq> [] \<and> hd body = CHR ''-'');
          digits = (if body \<noteq> [] \<and> (hd body = CHR ''-'' \<or> hd body = CHR ''+'') then tl body else body);
          number = takeWhile is_digit digits;
          n = (if negative then - int (digits_value 0 number) else int (digits_value 0 number))
      in if number = [] \<or> n < - (2 ^ 31) \<or> n \<ge> 2 ^ 31 then None else Some n)"

type_synonym environment = "string \<Rightarrow> string option"

definition env_int :: "environment \<Rightarrow> string \<Rightarrow> int \<Rightarrow> int" where
  "env_int env name default_value =
     (case env name of
        None \<Rightarrow> default_value
      | Some raw \<Rightarrow>
          if raw = [] then default_value
          else (case stoi raw of Some n \<Rightarrow> n | None \<Rightarrow> default_value))"

definition env_string :: "environment \<Rightarrow> string \<Rightarrow> string" where
  "env_string env name = (case env name of Some raw \<Rightarrow> raw | None \<Rightarrow> [])"

definition request_timeout_ms :: "environment \<Rightarrow> int" where
  "request_timeout_ms env = env_int env ''ARITHEXE_SOLVER_TIMEOUT_MS'' 60000"

definition newline :: char where "newline = CHR 0x0A"

definition make_cache_key :: "environment \<Rightarrow> string \<Rightarrow> string \<Rightarrow> string" where
  "make_cache_key env recurrence ind_var =
     ''ind='' @ ind_var @ [newline] @
     ''bounded='' @ env_string env ''ARITHEXE_ENABLE_BOUNDED_CFINITE'' @ [newline] @
     ''strategy='' @ env_string env ''ARITHEXE_POLY_EXPR_STRATEGY'' @ [newline] @
     ''order='' @ env_string env ''ARITHEXE_POLY_EXPR_ORDER'' @ [newline] @
     ''degree='' @ env_string env ''ARITHEXE_POLY_EXPR_DEGREE'' @ [newline] @
     recurrence"

section \<open>The child process and the state of the client\<close>

datatype worker_error =
  SolverRequestError string | SolverTimeoutError string | RuntimeError string

text \<open>
  How the bytes a child sends end: the pipe breaks with a message, or nothing more comes until the
  timeout.  Writing a request may fail in the same two ways.
\<close>

datatype stream_end = Broken string | Stalled

datatype child_answer = Answered string stream_end | NotWritten stream_end

record child_process =
  start_error :: "nat \<Rightarrow> string option"
  respond :: "nat \<Rightarrow> string \<Rightarrow> child_answer"

record solver_worker =
  worker_running :: bool
  next_request_id :: "64 word"
  unread :: string
  response_cache :: "string \<rightharpoonup> string"
  exchanges :: nat

definition new_worker :: solver_worker where
  "new_worker = \<lparr>worker_running = False, next_request_id = 1, unread = [],
     response_cache = Map.empty, exchanges = 0\<rparr>"

definition stop_worker :: "solver_worker \<Rightarrow> solver_worker" where
  "stop_worker w = w\<lparr>worker_running := False, unread := []\<rparr>"

text \<open>Starting may fail at the pipes or the fork.\<close>

definition ensure_started :: "child_process \<Rightarrow> solver_worker \<Rightarrow> (worker_error + unit) \<times> solver_worker" where
  "ensure_started P w =
     (if worker_running w then (Inr (), w)
      else (let w' = w\<lparr>exchanges := exchanges w + 1\<rparr>
            in case start_error P (exchanges w) of
                 Some message \<Rightarrow> (Inl (RuntimeError message), w')
               | None \<Rightarrow> (Inr (), w'\<lparr>worker_running := True\<rparr>)))"

section \<open>Reading a response\<close>

definition end_error :: "int \<Rightarrow> string \<Rightarrow> stream_end \<Rightarrow> worker_error" where
  "end_error timeout_ms action ending =
     (case ending of
        Broken message \<Rightarrow> RuntimeError message
      | Stalled \<Rightarrow> SolverTimeoutError (''timed out while trying to '' @ action @ '' after '' @
          int_to_string timeout_ms @ '' ms''))"

fun read_line :: "int \<Rightarrow> stream_end \<Rightarrow> string \<Rightarrow> string \<Rightarrow> worker_error + string \<times> string" where
  "read_line timeout_ms ending line [] = Inl (end_error timeout_ms ''read response header'' ending)"
| "read_line timeout_ms ending line (c # bytes) =
     (if c = newline then Inr (line, bytes)
      else if length line + 1 > 4096
      then Inl (RuntimeError ''solver worker response header is too long'')
      else read_line timeout_ms ending (line @ [c]) bytes)"

definition read_exact :: "int \<Rightarrow> stream_end \<Rightarrow> nat \<Rightarrow> string \<Rightarrow> worker_error + string \<times> string" where
  "read_exact timeout_ms ending wanted bytes =
     (if wanted \<le> length bytes then Inr (take wanted bytes, drop wanted bytes)
      else Inl (end_error timeout_ms ''read response payload'' ending))"

text \<open>Extraction of a word and of a number from a string stream; None is the failure of the stream.\<close>

definition read_token :: "string \<Rightarrow> (string \<times> string) option" where
  "read_token text =
     (let body = dropWhile is_space text; token = takeWhile (\<lambda>c. \<not> is_space c) body
      in if token = [] then None else Some (token, dropWhile (\<lambda>c. \<not> is_space c) body))"

definition read_size :: "string \<Rightarrow> nat option" where
  "read_size text =
     (let body = dropWhile is_space text;
          negative = (body \<noteq> [] \<and> hd body = CHR ''-'');
          digits = (if body \<noteq> [] \<and> (hd body = CHR ''-'' \<or> hd body = CHR ''+'') then tl body else body);
          number = takeWhile is_digit digits;
          n = digits_value 0 number
      in if number = [] \<or> n \<ge> 2 ^ 64 then None
         else Some (if negative then (2 ^ 64 - n) mod 2 ^ 64 else n))"

definition parse_header :: "string \<Rightarrow> (string \<times> string \<times> nat) option" where
  "parse_header header =
     (case read_token header of
        None \<Rightarrow> None
      | Some (status, rest) \<Rightarrow>
          (case read_token rest of
             None \<Rightarrow> None
           | Some (response_id, rest') \<Rightarrow>
               (case read_size rest' of None \<Rightarrow> None | Some payload_size \<Rightarrow> Some (status, response_id, payload_size))))"

text \<open>The answer to a request and the bytes that stay in the pipe.\<close>

definition receive :: "int \<Rightarrow> string \<Rightarrow> string \<Rightarrow> stream_end \<Rightarrow> (worker_error + string) \<times> string" where
  "receive timeout_ms request_id bytes ending =
     (case read_line timeout_ms ending [] bytes of
        Inl e \<Rightarrow> (Inl e, [])
      | Inr (header, rest) \<Rightarrow>
          (case parse_header header of
             None \<Rightarrow> (Inl (RuntimeError (''invalid solver worker response header: '' @ header)), rest)
           | Some (status, response_id, payload_size) \<Rightarrow>
               (case read_exact timeout_ms ending payload_size rest of
                  Inl e \<Rightarrow> (Inl e, [])
                | Inr (payload, rest') \<Rightarrow>
                    if response_id \<noteq> request_id
                    then (Inl (RuntimeError ''solver worker response id mismatch''), rest')
                    else if status = ''OK'' then (Inr payload, rest')
                    else if status = ''ERR'' then (Inl (SolverRequestError payload), rest')
                    else (Inl (RuntimeError (''unknown solver worker response status: '' @ status)), rest'))))"

section \<open>Requests\<close>

definition request_header :: "string \<Rightarrow> string \<Rightarrow> string \<Rightarrow> string" where
  "request_header request_id recurrence ind_var =
     ''SOLVE '' @ request_id @ '' '' @ nat_to_string (length ind_var) @ '' '' @
     nat_to_string (length recurrence) @ [newline]"

definition send_solve_request ::
    "child_process \<Rightarrow> environment \<Rightarrow> string \<Rightarrow> string \<Rightarrow> solver_worker \<Rightarrow>
     (worker_error + string) \<times> solver_worker" where
  "send_solve_request P env recurrence ind_var w =
     (let request_id = nat_to_string (unat (next_request_id w));
          timeout_ms = request_timeout_ms env;
          w' = w\<lparr>next_request_id := next_request_id w + 1, exchanges := exchanges w + 1\<rparr>
      in case respond P (exchanges w) (request_header request_id recurrence ind_var @ ind_var @ recurrence) of
           NotWritten ending \<Rightarrow> (Inl (end_error timeout_ms ''write request'' ending), w')
         | Answered bytes ending \<Rightarrow>
             (let (answer, rest) = receive timeout_ms request_id (unread w @ bytes) ending
              in (answer, w'\<lparr>unread := rest\<rparr>)))"

text \<open>One pass of the loop: a request error keeps the child, every other error stops it.\<close>

definition attempt ::
    "child_process \<Rightarrow> environment \<Rightarrow> string \<Rightarrow> string \<Rightarrow> solver_worker \<Rightarrow>
     (worker_error + string) \<times> solver_worker" where
  "attempt P env recurrence ind_var w =
     (case ensure_started P w of
        (Inl e, w1) \<Rightarrow> (Inl e, stop_worker w1)
      | (Inr _, w1) \<Rightarrow>
          (case send_solve_request P env recurrence ind_var w1 of
             (Inr smt2, w2) \<Rightarrow>
               (Inr smt2, w2\<lparr>response_cache := (response_cache w2)(make_cache_key env recurrence ind_var \<mapsto> smt2)\<rparr>)
           | (Inl (SolverRequestError m), w2) \<Rightarrow> (Inl (SolverRequestError m), w2)
           | (Inl e, w2) \<Rightarrow> (Inl e, stop_worker w2)))"

fun attempts ::
    "nat \<Rightarrow> child_process \<Rightarrow> environment \<Rightarrow> string \<Rightarrow> string \<Rightarrow> string \<Rightarrow> solver_worker \<Rightarrow>
     (worker_error + string) \<times> solver_worker" where
  "attempts 0 P env recurrence ind_var last_error w =
     (Inl (RuntimeError (''recurrence solver worker failed: '' @ last_error)), w)"
| "attempts (Suc n) P env recurrence ind_var last_error w =
     (case attempt P env recurrence ind_var w of
        (Inl (RuntimeError e), w') \<Rightarrow> attempts n P env recurrence ind_var e w'
      | result \<Rightarrow> result)"

definition worker_solve ::
    "child_process \<Rightarrow> environment \<Rightarrow> string \<Rightarrow> string \<Rightarrow> solver_worker \<Rightarrow>
     (worker_error + string) \<times> solver_worker" where
  "worker_solve P env recurrence ind_var w =
     (case response_cache w (make_cache_key env recurrence ind_var) of
        Some smt2 \<Rightarrow> (Inr smt2, w)
      | None \<Rightarrow> attempts 2 P env recurrence ind_var [] w)"

section \<open>Reading back what a child renders\<close>

lemma nat_to_string_is_digits: "list_all is_digit (nat_to_string n)"
proof (induction n rule: nat_to_string.induct)
  case (1 n)
  have "n mod 10 < 10" by simp
  then have "48 + n mod 10 < 256" by linarith
  then have "is_digit (char_of (48 + n mod 10))"
    using \<open>n mod 10 < 10\<close> by (simp add: is_digit_def of_char_of)
  moreover have "is_digit (char_of (48 + n))" if "n < 10"
    using that by (simp add: is_digit_def of_char_of)
  ultimately show ?case
    using 1 by (cases "n < 10") (simp_all add: nat_to_string.simps [of n])
qed

lemma digit_no_space: "is_digit c \<Longrightarrow> \<not> is_space c \<and> c \<noteq> newline \<and> c \<noteq> CHR ''-'' \<and> c \<noteq> CHR ''+''"
  by (auto simp: is_digit_def is_space_def newline_def)

lemma digits_no_space: "c \<in> set (nat_to_string n) \<Longrightarrow> is_digit c"
  using nat_to_string_is_digits [of n] by (auto simp: list_all_iff)

lemma blank_is_space [simp]: "is_space (CHR '' '')"
  by (simp add: is_space_def)

lemma read_token_word:
  assumes "t \<noteq> []" "\<forall>c\<in>set t. \<not> is_space c"
  shows "read_token (t @ CHR '' '' # s) = Some (t, CHR '' '' # s)"
    and "read_token (CHR '' '' # t @ CHR '' '' # s) = Some (t, CHR '' '' # s)"
proof -
  have body: "dropWhile is_space (t @ CHR '' '' # s) = t @ CHR '' '' # s"
    using assms by (cases t) auto
  have word: "takeWhile (\<lambda>c. \<not> is_space c) (t @ CHR '' '' # s) = t"
    "dropWhile (\<lambda>c. \<not> is_space c) (t @ CHR '' '' # s) = CHR '' '' # s"
    using assms by (auto simp: takeWhile_append dropWhile_append)
  show "read_token (t @ CHR '' '' # s) = Some (t, CHR '' '' # s)"
    using assms(1) by (simp add: read_token_def body word)
  show "read_token (CHR '' '' # t @ CHR '' '' # s) = Some (t, CHR '' '' # s)"
    using assms(1) by (simp add: read_token_def body word)
qed

lemma read_size_number:
  assumes "n < 2 ^ 64"
  shows "read_size (CHR '' '' # nat_to_string n) = Some n"
proof -
  obtain c s where cs: "nat_to_string n = c # s" by (cases "nat_to_string n") auto
  have c: "\<not> is_space c" "c \<noteq> CHR ''-''" "c \<noteq> CHR ''+''"
    using digit_no_space [OF digits_no_space, of c n] cs by auto
  have "dropWhile is_space (nat_to_string n) = nat_to_string n" using c(1) by (simp add: cs)
  moreover have "takeWhile is_digit (nat_to_string n) = nat_to_string n"
    using nat_to_string_is_digits [of n] by (simp add: list_all_iff)
  ultimately show ?thesis
    using assms c cs digits_value_nat_to_string [of n] unfolding read_size_def
    by (simp add: Let_def)
qed

lemma read_line_ends:
  "newline \<notin> set header \<Longrightarrow> length line + length header \<le> 4096 \<Longrightarrow>
   read_line timeout_ms ending line (header @ newline # bytes) = Inr (line @ header, bytes)"
  by (induction header arbitrary: line) auto

text \<open>What a child that keeps the protocol writes.\<close>

definition response :: "string \<Rightarrow> string \<Rightarrow> string \<Rightarrow> string" where
  "response status request_id payload =
     status @ CHR '' '' # request_id @ CHR '' '' # nat_to_string (length payload) @ newline # payload"

lemma parse_rendered_header:
  assumes "status \<noteq> []" "\<forall>c\<in>set status. \<not> is_space c" "payload_size < 2 ^ 64"
  shows "parse_header (status @ CHR '' '' # nat_to_string n @ CHR '' '' # nat_to_string payload_size) =
     Some (status, nat_to_string n, payload_size)"
proof -
  have "\<forall>c\<in>set (nat_to_string n). \<not> is_space c" using digit_no_space digits_no_space by blast
  then show ?thesis
    using read_token_word [OF assms(1,2)] read_token_word(2) [of "nat_to_string n"] read_size_number [OF assms(3)]
    by (simp add: parse_header_def)
qed

lemma receive_response:
  assumes "status = ''OK'' \<or> status = ''ERR''" "length payload < 2 ^ 64"
    "length (nat_to_string n) + length (nat_to_string (length payload)) \<le> 4091"
  shows "receive timeout_ms (nat_to_string n) (response status (nat_to_string n) payload @ rest) ending =
     (if status = ''OK'' then Inr payload else Inl (SolverRequestError payload), rest)"
proof -
  let ?header = "status @ CHR '' '' # nat_to_string n @ CHR '' '' # nat_to_string (length payload)"
  have st: "status \<noteq> []" "\<forall>c\<in>set status. \<not> is_space c" "newline \<notin> set status" "length status \<le> 3"
    using assms(1) by (auto simp: is_space_def newline_def)
  have "newline \<notin> set (nat_to_string k)" for k
    using digit_no_space digits_no_space by blast
  moreover have "newline \<noteq> CHR '' ''" by (simp add: newline_def)
  ultimately have "newline \<notin> set ?header" using st by auto
  moreover have "length ?header \<le> 4096" using st(4) assms(3) by simp
  ultimately have "read_line timeout_ms ending [] (?header @ newline # payload @ rest) = Inr (?header, payload @ rest)"
    using read_line_ends [of ?header "[]" timeout_ms ending "payload @ rest"] by simp
  then have "read_line timeout_ms ending [] (response status (nat_to_string n) payload @ rest) =
      Inr (?header, payload @ rest)"
    by (simp add: response_def)
  then show ?thesis
    using assms(1) parse_rendered_header [OF st(1,2) assms(2), of n]
    by (auto simp: receive_def read_exact_def)
qed

section \<open>The client\<close>

lemma cache_key_inject:
  assumes "newline \<notin> set ind" "newline \<notin> set ind'"
  shows "make_cache_key env r ind = make_cache_key env r' ind' \<longleftrightarrow> r = r' \<and> ind = ind'"
proof
  assume eq: "make_cache_key env r ind = make_cache_key env r' ind'"
  have until: "takeWhile (\<lambda>c. c \<noteq> newline) (s @ newline # t) = s" if "newline \<notin> set s" for s t
    using that by (induction s) auto
  have "ind = ind'"
    using arg_cong [OF eq, of "\<lambda>k. takeWhile (\<lambda>c. c \<noteq> newline) (drop 4 k)"] assms
    by (simp add: make_cache_key_def until)
  then show "r = r' \<and> ind = ind'" using eq by (simp add: make_cache_key_def)
qed simp

lemma attempt_success:
  "attempt P env r ind w = (Inr smt2, w') \<Longrightarrow> response_cache w' (make_cache_key env r ind) = Some smt2"
  by (auto simp: attempt_def split: prod.splits sum.splits worker_error.splits)

lemma attempts_success:
  "attempts n P env r ind e w = (Inr smt2, w') \<Longrightarrow> response_cache w' (make_cache_key env r ind) = Some smt2"
proof (induction n arbitrary: e w)
  case (Suc n)
  then show ?case
    using attempt_success [of P env r ind w]
    by (auto split: prod.splits sum.splits worker_error.splits)
qed simp

text \<open>An answer is asked for once: the next request of the same key finds it.\<close>

lemma worker_solve_again:
  "worker_solve P env r ind w = (Inr smt2, w') \<Longrightarrow> worker_solve P' env r ind w' = (Inr smt2, w')"
  using attempts_success [of 2 P env r ind "[]" w smt2 w']
  by (auto simp: worker_solve_def split: option.splits)

lemma send_keeps_cache:
  "response_cache (snd (send_solve_request P env r ind w)) = response_cache w"
  by (simp add: send_solve_request_def Let_def split: child_answer.splits prod.splits)

lemma start_keeps_cache: "response_cache (snd (ensure_started P w)) = response_cache w"
  by (simp add: ensure_started_def Let_def split: option.splits)

lemma attempt_cache_only_on_success:
  "response_cache (snd (attempt P env r ind w)) =
     (case fst (attempt P env r ind w) of
        Inr smt2 \<Rightarrow> (response_cache w)(make_cache_key env r ind \<mapsto> smt2)
      | Inl _ \<Rightarrow> response_cache w)"
proof -
  obtain s w1 where s: "ensure_started P w = (s, w1)" by fastforce
  obtain a w2 where a: "send_solve_request P env r ind w1 = (a, w2)" by fastforce
  have "response_cache w1 = response_cache w" "response_cache w2 = response_cache w1"
    using start_keeps_cache [of P w] send_keeps_cache [of P env r ind w1] s a by simp_all
  then show ?thesis
    by (auto simp: attempt_def s a stop_worker_def split: sum.splits worker_error.splits)
qed

text \<open>A child that is stopped does not keep bytes for the next one.\<close>

definition worker_ok :: "solver_worker \<Rightarrow> bool" where
  "worker_ok w \<longleftrightarrow> (worker_running w \<or> unread w = [])"

lemma attempt_keeps_ok: "worker_ok w \<Longrightarrow> worker_ok (snd (attempt P env r ind w))"
proof -
  assume ok: "worker_ok w"
  obtain s w1 where s: "ensure_started P w = (s, w1)" by fastforce
  obtain a w2 where a: "send_solve_request P env r ind w1 = (a, w2)" by fastforce
  have "worker_running w1" if "s = Inr ()"
    using s that by (auto simp: ensure_started_def Let_def split: if_splits option.splits)
  moreover have "worker_running w2 = worker_running w1"
    using a by (auto simp: send_solve_request_def Let_def split: child_answer.splits prod.splits)
  ultimately show ?thesis
    using ok by (auto simp: attempt_def s a worker_ok_def stop_worker_def split: sum.splits worker_error.splits)
qed

lemma attempts_keep_ok: "worker_ok w \<Longrightarrow> worker_ok (snd (attempts n P env r ind e w))"
proof (induction n arbitrary: e w)
  case (Suc n)
  then show ?case
    using attempt_keeps_ok [of w P env r ind]
    by (auto split: prod.splits sum.splits worker_error.splits)
qed simp

lemma worker_solve_keeps_ok: "worker_ok w \<Longrightarrow> worker_ok (snd (worker_solve P env r ind w))"
  by (auto simp: worker_solve_def attempts_keep_ok split: option.splits)

text \<open>A fresh child that answers a request within the protocol is understood at the first attempt, and the
  answer is returned to every later request of the same key without any child.\<close>

theorem worker_solve_answer:
  assumes miss: "response_cache w (make_cache_key env r ind) = None"
    and fresh: "\<not> worker_running w" "unread w = []" "start_error P (exchanges w) = None"
    and answer: "respond P (exchanges w + 1)
        (request_header (nat_to_string (unat (next_request_id w))) r ind @ ind @ r) =
        Answered (response ''OK'' (nat_to_string (unat (next_request_id w))) smt2) ending"
    and small: "length smt2 < 2 ^ 64"
      "length (nat_to_string (unat (next_request_id w))) + length (nat_to_string (length smt2)) \<le> 4091"
  shows "\<exists>w'. worker_solve P env r ind w = (Inr smt2, w') \<and>
    (\<forall>P'. worker_solve P' env r ind w' = (Inr smt2, w'))"
proof -
  let ?w1 = "w\<lparr>exchanges := exchanges w + 1, worker_running := True\<rparr>"
  have "ensure_started P w = (Inr (), ?w1)"
    using fresh(1,3) by (simp add: ensure_started_def Let_def)
  moreover have "fst (send_solve_request P env r ind ?w1) = Inr smt2"
    using answer fresh(2) receive_response [of "''OK''" smt2 "unat (next_request_id w)" _ "[]" ending] small
    by (simp add: send_solve_request_def Let_def)
  ultimately have "fst (attempt P env r ind w) = Inr smt2"
    by (auto simp: attempt_def split: prod.splits sum.splits)
  then have "fst (worker_solve P env r ind w) = Inr smt2"
    using miss by (auto simp: worker_solve_def eval_nat_numeral split: prod.splits sum.splits)
  then obtain w' where "worker_solve P env r ind w = (Inr smt2, w')" by (metis prod.collapse)
  then show ?thesis using worker_solve_again by blast
qed

definition prompt_child :: child_process where
  "prompt_child = \<lparr>start_error = (\<lambda>_. None),
     respond = (\<lambda>n request. Answered (response ''OK'' ''1'' ''(= x 1)'') Stalled)\<rparr>"

theorem worker_solve_answer_witness:
  "\<exists>w. worker_solve prompt_child (\<lambda>_. None) ''x = 1;'' ''n'' new_worker = (Inr ''(= x 1)'', w) \<and>
    (\<forall>P. worker_solve P (\<lambda>_. None) ''x = 1;'' ''n'' w = (Inr ''(= x 1)'', w))"
proof (rule worker_solve_answer)
  have "length (nat_to_string (length ''(= x 1)'')) = 1" by code_simp
  then show "length (nat_to_string (unat (next_request_id new_worker))) +
      length (nat_to_string (length ''(= x 1)'')) \<le> 4091"
    by (simp add: new_worker_def del: list.size) simp
qed (simp_all add: new_worker_def prompt_child_def)

end
