(* ===== verification/Session.thy ===== *)
theory Session
  imports Path_Expression Summaries Rec_Worker
begin

text \<open>
  The state shared by one verification run (lib/VerificationSession.h, lib/VerificationSession.cpp),
  the symbol table and the cache of function values (lib/SymbolTable.h, lib/cache.h, lib/cache.cpp)
  and the activation of a session in a thread.  Pointers to values, instructions, loops and
  functions of the analysed module are identified by natural numbers.
\<close>

section \<open>Interfaces\<close>

text \<open>A table from keys to values: what a lookup returns after an insertion.\<close>

locale lookup_table =
  fixes empty_table :: 't
    and lookup :: "'t \<Rightarrow> 'k \<Rightarrow> 'v option"
    and insert_key :: "'k \<Rightarrow> 'v \<Rightarrow> 't \<Rightarrow> 't"
  assumes lookup_empty: "lookup empty_table k = None"
    and lookup_insert: "lookup (insert_key k v t) k' = (if k' = k then Some v else lookup t k')"
begin

definition insert_all :: "('k \<times> 'v) list \<Rightarrow> 't \<Rightarrow> 't" where
  "insert_all kvs t = fold (\<lambda>(k, v). insert_key k v) kvs t"

lemma lookup_insert_all:
  "lookup (insert_all kvs t) k = (case map_of (rev kvs) k of Some v \<Rightarrow> Some v | None \<Rightarrow> lookup t k)"
  unfolding insert_all_def
  by (induction kvs arbitrary: t) (auto simp: lookup_insert map_add_def split: option.splits)

lemma last_insertion_wins:
  "lookup (insert_key k v (insert_all kvs t)) k = Some v"
  by (simp add: lookup_insert)

end

text \<open>A supply of numbers per key: each request returns the next number of its key.\<close>

locale number_supply =
  fixes current_number :: "'s \<Rightarrow> 'k \<Rightarrow> nat"
    and advance :: "'k \<Rightarrow> 's \<Rightarrow> 's"
  assumes advance_number:
    "current_number (advance k s) k' = current_number s k' + (if k' = k then 1 else 0)"
begin

fun requests :: "'k list \<Rightarrow> 's \<Rightarrow> ('k \<times> nat) list" where
  "requests [] s = []"
| "requests (k # ks) s = (k, current_number s k) # requests ks (advance k s)"

lemma requests_ge: "(k, n) \<in> set (requests ks s) \<Longrightarrow> current_number s k \<le> n"
proof (induction ks s rule: requests.induct)
  case (2 k' ks s)
  then show ?case using advance_number [of k' s k] by (auto split: if_splits)
qed simp

lemma requests_distinct: "distinct (requests ks s)"
proof (induction ks s rule: requests.induct)
  case (2 k ks s)
  have "(k, current_number s k) \<notin> set (requests ks (advance k s))"
    using requests_ge [of k "current_number s k" ks "advance k s"] advance_number [of k s k] by auto
  then show ?case using 2 by simp
qed simp

end

section \<open>Symbol table\<close>

text \<open>\<open>SymbolTable\<close>: a map; updating an absent variable is an assertion failure.\<close>

type_synonym 'v symbol_table = "value_id \<rightharpoonup> 'v"

definition insert_or_assign :: "value_id \<Rightarrow> 'v \<Rightarrow> 'v symbol_table \<Rightarrow> 'v symbol_table" where
  "insert_or_assign symbol v table = table(symbol \<mapsto> v)"

definition update_variable :: "value_id \<Rightarrow> 'v \<Rightarrow> 'v symbol_table \<Rightarrow> 'v symbol_table option" where
  "update_variable symbol v table =
     (if table symbol \<noteq> None then Some (table(symbol \<mapsto> v)) else None)"

definition get_value :: "'v symbol_table \<Rightarrow> value_id \<Rightarrow> 'v option" where
  "get_value table symbol = table symbol"

interpretation symbols: lookup_table Map.empty get_value insert_or_assign
  by unfold_locales (simp_all add: get_value_def insert_or_assign_def)

section \<open>Cache of function values\<close>

record func_cache =
  cached :: "function_id \<rightharpoonup> (int list \<rightharpoonup> int)"
  visited_funcs :: "function_id set"

definition empty_cache :: func_cache where
  "empty_cache = \<lparr>cached = Map.empty, visited_funcs = {}\<rparr>"

definition get_func_value :: "func_cache \<Rightarrow> function_id \<Rightarrow> int list \<Rightarrow> int option" where
  "get_func_value c func actuals =
     (case cached c func of
        Some func_cache \<Rightarrow> func_cache actuals
      | None \<Rightarrow> None)"

definition cache_func_value :: "function_id \<Rightarrow> int list \<Rightarrow> int \<Rightarrow> func_cache \<Rightarrow> func_cache" where
  "cache_func_value func actuals v c =
     (let entry = (case cached c func of Some m \<Rightarrow> m | None \<Rightarrow> Map.empty)
      in c\<lparr>cached := (cached c)(func \<mapsto> entry(actuals \<mapsto> v))\<rparr>)"

definition is_visited :: "func_cache \<Rightarrow> function_id \<Rightarrow> bool" where
  "is_visited c func = (func \<in> visited_funcs c)"

definition mark_visited :: "function_id \<Rightarrow> func_cache \<Rightarrow> func_cache" where
  "mark_visited func c = c\<lparr>visited_funcs := insert func (visited_funcs c)\<rparr>"

definition clear_cache :: "func_cache \<Rightarrow> func_cache" where
  "clear_cache c = c\<lparr>cached := Map.empty, visited_funcs := {}\<rparr>"

interpretation calls: lookup_table empty_cache "\<lambda>c (f, actuals). get_func_value c f actuals"
    "\<lambda>(f, actuals) v c. cache_func_value f actuals v c"
  by unfold_locales
    (auto simp: get_func_value_def cache_func_value_def empty_cache_def Let_def
      split: option.splits if_splits)

section \<open>The session\<close>

type_synonym path_decision = "nat \<times> 32 word"

text \<open>The certified exit of a counted loop, with its live-ins as parameters (lib/PathAccelerator.h).\<close>

record nested_path_summary =
  nps_inputs :: "value_id list"
  nps_parameters :: "z3expr list"
  nps_outputs :: "value_id list"
  nps_values :: "z3expr list"
  nps_domain :: z3expr
  nps_count :: z3expr
  nps_exit :: nat
  nps_word :: path_word

record session =
  ignore_bitwidth :: bool
  instruction_cache :: "value_id \<rightharpoonup> nat"
  function_summaries :: "function_id \<rightharpoonup> function_summary"
  loop_summaries :: "loop_id \<rightharpoonup> loop_summary"
  function_cache :: func_cache
  call_value_counters :: "value_id \<rightharpoonup> nat"
  failed_loops :: "loop_id set"
  memory_object_name_counters :: "string \<rightharpoonup> nat"
  loop_path_alphabets :: "loop_id \<rightharpoonup> (path_decision list \<rightharpoonup> path_symbol)"
  next_path_symbol :: path_symbol
  path_expression_id :: "64 word"
  path_compressions :: "64 word"
  path_accelerations :: "64 word"
  path_affine_templates :: "64 word"
  nested_path_summaries :: "loop_id \<rightharpoonup> nested_path_summary"
  nested_path_summaries_built :: "64 word"
  recurrence_worker :: "solver_worker option"

definition new_session :: session where
  "new_session = \<lparr>ignore_bitwidth = False, instruction_cache = Map.empty, function_summaries = Map.empty,
     loop_summaries = Map.empty, function_cache = empty_cache,
     call_value_counters = Map.empty, failed_loops = {}, memory_object_name_counters = Map.empty,
     loop_path_alphabets = Map.empty, next_path_symbol = 1, path_expression_id = 1,
     path_compressions = 0, path_accelerations = 0, path_affine_templates = 0,
     nested_path_summaries = Map.empty, nested_path_summaries_built = 0, recurrence_worker = None\<rparr>"

definition set_ignore_bitwidth_constraints :: "bool \<Rightarrow> session \<Rightarrow> session" where
  "set_ignore_bitwidth_constraints enabled s = s\<lparr>ignore_bitwidth := enabled\<rparr>"

definition uses_integer_relaxation :: "session \<Rightarrow> bool" where
  "uses_integer_relaxation s = ignore_bitwidth s"

definition ignores_integer_width :: "session \<Rightarrow> nat \<Rightarrow> bool" where
  "ignores_integer_width s width = (ignore_bitwidth s \<and> width > 1)"

definition counter_of :: "('k \<rightharpoonup> nat) \<Rightarrow> 'k \<Rightarrow> nat" where
  "counter_of m k = (case m k of Some n \<Rightarrow> n | None \<Rightarrow> 0)"

definition next_call_value_id :: "value_id \<Rightarrow> session \<Rightarrow> nat \<times> session" where
  "next_call_value_id v s =
     (let n = counter_of (call_value_counters s) v
      in (n, s\<lparr>call_value_counters := (call_value_counters s)(v \<mapsto> n + 1)\<rparr>))"

definition loop_summary_failed :: "session \<Rightarrow> loop_id \<Rightarrow> bool" where
  "loop_summary_failed s loop = (loop \<in> failed_loops s)"

definition mark_loop_summary_failed :: "loop_id \<Rightarrow> session \<Rightarrow> session" where
  "mark_loop_summary_failed loop s = s\<lparr>failed_loops := insert loop (failed_loops s)\<rparr>"

text \<open>\<open>operator[]\<close> creates a missing entry with the value zero and nothing increments it.\<close>

definition memory_object_name_id :: "string \<Rightarrow> session \<Rightarrow> nat \<times> session" where
  "memory_object_name_id name s =
     (let n = counter_of (memory_object_name_counters s) name
      in (n, s\<lparr>memory_object_name_counters := (memory_object_name_counters s)(name \<mapsto> n)\<rparr>))"

definition intern_loop_path ::
    "loop_id \<Rightarrow> path_decision list \<Rightarrow> session \<Rightarrow> path_symbol \<times> session" where
  "intern_loop_path loop decisions s =
     (let alphabet = (case loop_path_alphabets s loop of Some a \<Rightarrow> a | None \<Rightarrow> Map.empty)
      in case alphabet decisions of
           Some symbol \<Rightarrow> (symbol, s\<lparr>loop_path_alphabets := (loop_path_alphabets s)(loop \<mapsto> alphabet)\<rparr>)
         | None \<Rightarrow>
             let symbol = next_path_symbol s
             in (symbol, s\<lparr>next_path_symbol := symbol + 1,
                  loop_path_alphabets := (loop_path_alphabets s)(loop \<mapsto> alphabet(decisions \<mapsto> symbol))\<rparr>))"

definition next_path_expression_id :: "session \<Rightarrow> 64 word \<times> session" where
  "next_path_expression_id s = (path_expression_id s, s\<lparr>path_expression_id := path_expression_id s + 1\<rparr>)"

definition note_path_compression :: "session \<Rightarrow> session" where
  "note_path_compression s = s\<lparr>path_compressions := path_compressions s + 1\<rparr>"

definition note_path_acceleration :: "session \<Rightarrow> session" where
  "note_path_acceleration s = s\<lparr>path_accelerations := path_accelerations s + 1\<rparr>"

definition note_path_affine_template :: "session \<Rightarrow> session" where
  "note_path_affine_template s = s\<lparr>path_affine_templates := path_affine_templates s + 1\<rparr>"

definition note_nested_path_summary :: "session \<Rightarrow> session" where
  "note_nested_path_summary s = s\<lparr>nested_path_summaries_built := nested_path_summaries_built s + 1\<rparr>"

text \<open>The client of the recurrence solver is made at its first use.\<close>

definition recurrence_solver_worker :: "session \<Rightarrow> solver_worker \<times> session" where
  "recurrence_solver_worker s =
     (let w = (case recurrence_worker s of Some w \<Rightarrow> w | None \<Rightarrow> new_worker)
      in (w, s\<lparr>recurrence_worker := Some w\<rparr>))"

definition clear_module_state :: "session \<Rightarrow> session" where
  "clear_module_state s = s\<lparr>instruction_cache := Map.empty, function_summaries := Map.empty,
     loop_summaries := Map.empty, function_cache := clear_cache (function_cache s),
     call_value_counters := Map.empty, failed_loops := {}, memory_object_name_counters := Map.empty,
     loop_path_alphabets := Map.empty, nested_path_summaries := Map.empty,
     nested_path_summaries_built := 0, recurrence_worker := None, next_path_symbol := 1, path_expression_id := 1,
     path_compressions := 0, path_accelerations := 0, path_affine_templates := 0\<rparr>"

interpretation call_ids: number_supply "\<lambda>s v. counter_of (call_value_counters s) v"
    "\<lambda>v s. snd (next_call_value_id v s)"
  by unfold_locales (simp add: next_call_value_id_def counter_of_def Let_def)

section \<open>Activation\<close>

text \<open>The thread-local pointers to the active session and its analysis manager.\<close>

record thread =
  active_session :: "nat option"
  active_manager :: "nat option"

definition activate :: "nat \<Rightarrow> nat \<Rightarrow> thread \<Rightarrow> (nat option \<times> nat option) \<times> thread" where
  "activate sess manager th =
     ((active_session th, active_manager th),
      th\<lparr>active_session := Some sess, active_manager := Some manager\<rparr>)"

definition deactivate :: "nat option \<times> nat option \<Rightarrow> thread \<Rightarrow> thread" where
  "deactivate previous th = th\<lparr>active_session := fst previous, active_manager := snd previous\<rparr>"

text \<open>No active session is the exception of \<open>current\<close>.\<close>

definition current_session :: "thread \<Rightarrow> nat option" where
  "current_session th = active_session th"

text \<open>Scopes that nest: each activation lives as long as its block.\<close>

datatype scope = Scope nat nat "scope list"

fun run_scope :: "scope \<Rightarrow> thread \<Rightarrow> thread"
  and run_scopes :: "scope list \<Rightarrow> thread \<Rightarrow> thread" where
  "run_scope (Scope sess manager inner) th =
     (let (previous, th') = activate sess manager th
      in deactivate previous (run_scopes inner th'))"
| "run_scopes [] th = th"
| "run_scopes (s # ss) th = run_scopes ss (run_scope s th)"

section \<open>Path alphabets\<close>

definition symbol_of :: "session \<Rightarrow> loop_id \<times> path_decision list \<Rightarrow> path_symbol option" where
  "symbol_of s = (\<lambda>(loop, d). case loop_path_alphabets s loop of Some a \<Rightarrow> a d | None \<Rightarrow> None)"

definition alphabet_inv :: "session \<Rightarrow> bool" where
  "alphabet_inv s \<longleftrightarrow>
     (\<forall>k n. symbol_of s k = Some n \<longrightarrow> unat n < unat (next_path_symbol s)) \<and>
     (\<forall>k k' n. symbol_of s k = Some n \<and> symbol_of s k' = Some n \<longrightarrow> k = k')"

lemma alphabet_inv_new: "alphabet_inv (clear_module_state s)"
  by (simp add: alphabet_inv_def symbol_of_def clear_module_state_def)

lemma symbol_of_intern:
  "symbol_of (snd (intern_loop_path loop d s)) k =
     (if k = (loop, d) then Some (fst (intern_loop_path loop d s)) else symbol_of s k)"
  by (auto simp: symbol_of_def intern_loop_path_def Let_def split: option.splits if_splits prod.splits)

lemma fst_intern:
  "fst (intern_loop_path loop d s) =
     (case symbol_of s (loop, d) of Some n \<Rightarrow> n | None \<Rightarrow> next_path_symbol s)"
  by (auto simp: symbol_of_def intern_loop_path_def Let_def split: option.splits)

lemma next_symbol_intern:
  "next_path_symbol (snd (intern_loop_path loop d s)) =
     (case symbol_of s (loop, d) of Some n \<Rightarrow> next_path_symbol s | None \<Rightarrow> next_path_symbol s + 1)"
  by (auto simp: symbol_of_def intern_loop_path_def Let_def split: option.splits)

lemma unat_next_symbol:
  assumes "unat (n :: path_symbol) + 1 < 2 ^ 32"
  shows "unat (n + 1) = unat n + 1"
  using assms by (simp add: unat_add_lem [THEN iffD1])

lemma alphabet_inv_intern:
  assumes inv: "alphabet_inv s" and room: "unat (next_path_symbol s) + 1 < 2 ^ 32"
  shows "alphabet_inv (snd (intern_loop_path loop d s)) \<and>
    unat (next_path_symbol (snd (intern_loop_path loop d s))) \<le> unat (next_path_symbol s) + 1"
proof (cases "symbol_of s (loop, d)")
  case None
  have nx: "unat (next_path_symbol (snd (intern_loop_path loop d s))) = unat (next_path_symbol s) + 1"
    using None unat_next_symbol [OF room] by (simp add: next_symbol_intern)
  have lt: "unat n < unat (next_path_symbol s)" if "symbol_of s k = Some n" for k n
    using inv that unfolding alphabet_inv_def by blast
  have fresh: "symbol_of s k \<noteq> Some (next_path_symbol s)" for k
    using lt by blast
  have inj: "symbol_of s k = Some n \<Longrightarrow> symbol_of s k' = Some n \<Longrightarrow> k = k'" for k k' n
    using inv unfolding alphabet_inv_def by blast
  show ?thesis
    unfolding alphabet_inv_def symbol_of_intern fst_intern nx
    using None lt fresh inj by (auto simp: less_Suc_eq split: if_splits)
next
  case (Some n)
  have "symbol_of (snd (intern_loop_path loop d s)) = symbol_of s"
    using Some by (auto simp: fun_eq_iff symbol_of_intern fst_intern)
  moreover have "next_path_symbol (snd (intern_loop_path loop d s)) = next_path_symbol s"
    using Some by (simp add: next_symbol_intern)
  ultimately show ?thesis using inv by (simp add: alphabet_inv_def)
qed

fun intern_all :: "(loop_id \<times> path_decision list) list \<Rightarrow> session \<Rightarrow> path_symbol list \<times> session" where
  "intern_all [] s = ([], s)"
| "intern_all ((loop, d) # ks) s =
     (let (n, s') = intern_loop_path loop d s; (ns, s'') = intern_all ks s' in (n # ns, s''))"

lemma intern_all_symbols:
  "alphabet_inv s \<Longrightarrow> unat (next_path_symbol s) + length ks < 2 ^ 32 \<Longrightarrow>
     intern_all ks s = (ns, s') \<Longrightarrow>
     alphabet_inv s' \<and> length ns = length ks \<and> (\<forall>i<length ks. symbol_of s' (ks ! i) = Some (ns ! i)) \<and>
     (\<forall>k n. symbol_of s k = Some n \<longrightarrow> symbol_of s' k = Some n)"
proof (induction ks s arbitrary: ns s' rule: intern_all.induct)
  case (1 s)
  then show ?case by auto
next
  case (2 loop d ks s)
  let ?r = "intern_loop_path loop d s"
  obtain ns0 where ns0: "intern_all ks (snd ?r) = (ns0, s')" "ns = fst ?r # ns0"
    using "2.prems"(3) by (auto simp: Let_def split: prod.splits)
  have room: "unat (next_path_symbol s) + 1 < 2 ^ 32" using "2.prems"(2) by simp
  note step = alphabet_inv_intern [OF "2.prems"(1) room, of loop d]
  have ih: "alphabet_inv s' \<and> length ns0 = length ks \<and>
      (\<forall>i<length ks. symbol_of s' (ks ! i) = Some (ns0 ! i)) \<and>
      (\<forall>k n. symbol_of (snd ?r) k = Some n \<longrightarrow> symbol_of s' k = Some n)"
    using "2.IH" [of ?r "fst ?r" "snd ?r" ns0 s'] step "2.prems"(2) ns0(1) by simp
  have first: "symbol_of s' (loop, d) = Some (fst ?r)"
    using ih by (simp add: symbol_of_intern)
  have mono: "symbol_of s' k = Some n" if "symbol_of s k = Some n" for k n
  proof -
    have "symbol_of (snd ?r) k = Some n"
      using that by (auto simp: symbol_of_intern fst_intern)
    then show ?thesis using ih by blast
  qed
  have "symbol_of s' (((loop, d) # ks) ! i) = Some (ns ! i)" if "i < length ((loop, d) # ks)" for i
    using that first ih ns0(2) by (cases i) auto
  then show ?case using ih ns0(2) mono by simp
qed

lemma run_scopes_id: "\<forall>s\<in>set ss. \<forall>th. run_scope s th = th \<Longrightarrow> run_scopes ss th = th"
  by (induction ss arbitrary: th) simp_all

section \<open>Properties\<close>

text \<open>C32: as long as the 32-bit counter has room, the symbols a session hands out identify the loop and
  the decisions: two requests get the same symbol exactly when they agree.\<close>

theorem loop_path_symbols_injective:
  assumes "length ks < 2 ^ 32 - 1" "i < length ks" "j < length ks"
  shows "fst (intern_all ks (clear_module_state s)) ! i = fst (intern_all ks (clear_module_state s)) ! j
    \<longleftrightarrow> ks ! i = ks ! j"
proof -
  let ?s = "clear_module_state s"
  obtain ns s' where r: "intern_all ks ?s = (ns, s')" by fastforce
  have "unat (next_path_symbol ?s) + length ks < 2 ^ 32"
    using assms(1) by (simp add: clear_module_state_def)
  note all = intern_all_symbols [OF alphabet_inv_new this r]
  have si: "symbol_of s' (ks ! i) = Some (ns ! i)" "symbol_of s' (ks ! j) = Some (ns ! j)"
    using all assms by blast+
  have inj: "symbol_of s' k = Some n \<Longrightarrow> symbol_of s' k' = Some n \<Longrightarrow> k = k'" for k k' n
    using all unfolding alphabet_inv_def by blast
  have "ns ! i = ns ! j \<longleftrightarrow> ks ! i = ks ! j"
    using si inj [of "ks ! i" "ns ! i" "ks ! j"] by auto
  then show ?thesis by (simp add: r)
qed

theorem loop_path_symbols_injective_witness:
  "fst (intern_all [(0, []), (1, [])] (clear_module_state new_session)) ! 0 \<noteq>
   fst (intern_all [(0, []), (1, [])] (clear_module_state new_session)) ! 1"
  using loop_path_symbols_injective [of "[(0, []), (1, [])]" 0 1 new_session] by simp

text \<open>Clearing the module state is the state of a new session, except for the choice of integer
  semantics.\<close>

theorem clear_module_state_fresh:
  "clear_module_state s = set_ignore_bitwidth_constraints (uses_integer_relaxation s) new_session"
  by (cases s) (simp add: clear_module_state_def new_session_def set_ignore_bitwidth_constraints_def
      uses_integer_relaxation_def clear_cache_def empty_cache_def)

text \<open>Activations nest: after any tree of activation scopes the thread has its previous session
  and manager again.\<close>

theorem activation_restores: "run_scope sc th = th"
proof -
  have "\<forall>th. run_scope sc th = th"
  proof (induction sc)
    case (Scope sess manager inner)
    then show ?case
      using run_scopes_id [of inner] by (simp add: activate_def deactivate_def)
  qed
  then show ?thesis by blast
qed

text \<open>The name counter of memory objects never advances.\<close>

lemma memory_object_name_id_constant:
  assumes "counter_of (memory_object_name_counters s) name = n"
  shows "fst (memory_object_name_id name s) = n \<and>
    counter_of (memory_object_name_counters (snd (memory_object_name_id name s))) name' =
    counter_of (memory_object_name_counters s) name'"
  using assms by (auto simp: memory_object_name_id_def counter_of_def Let_def)


fun name_ids :: "string list \<Rightarrow> session \<Rightarrow> nat list" where
  "name_ids [] s = []"
| "name_ids (x # xs) s = (let (n, s') = memory_object_name_id x s in n # name_ids xs s')"

lemma name_ids_zero:
  "\<forall>x. counter_of (memory_object_name_counters s) x = 0 \<Longrightarrow> name_ids xs s = replicate (length xs) 0"
proof (induction xs s rule: name_ids.induct)
  case (2 x xs s)
  have "fst (memory_object_name_id x s) = 0"
    "\<forall>y. counter_of (memory_object_name_counters (snd (memory_object_name_id x s))) y = 0"
    using memory_object_name_id_constant [of s x 0] 2(2) by auto
  then show ?case using "2.IH" by (auto simp: Let_def split: prod.splits)
qed simp

end
