(* ===== verification/Memory_Model.thy ===== *)
theory Memory_Model
  imports Expression Session
begin

text \<open>
  The memory of the symbolic executor: memory objects (lib/MemoryObject.h, lib/MemoryObject.cpp),
  the stack of frames (lib/MStack.h, lib/MStack.cpp) and the whole memory (lib/Memory.h,
  lib/Memory.cpp).  A violated assertion, an out-of-range element access or a missing case is the
  value \<open>None\<close>.  Names of values come from the analysed module: the parameter \<open>nm\<close>.
\<close>

section \<open>Memory objects\<close>

datatype location = STACK | HEAP | GLOBAL

record mem_address =
  addr_loc :: location
  addr_base :: expression
  addr_offset :: "expression list"

record memory_object =
  obj_llvm_value :: value_id
  obj_addr :: mem_address
  obj_value :: expression
  obj_ptr_value :: "mem_address option"
  obj_indices :: "z3expr list"
  obj_sizes :: "expression list"
  obj_signed :: bool
  obj_name :: string
  obj_constraints :: "z3expr option"

text \<open>The constructor appends the session's number for the name.\<close>

definition new_object ::
    "session \<Rightarrow> value_id \<Rightarrow> mem_address \<Rightarrow> expression \<Rightarrow> mem_address option \<Rightarrow> z3expr list \<Rightarrow>
     expression list \<Rightarrow> string \<Rightarrow> memory_object" where
  "new_object s v addr val ptr indices sizes name =
     \<lparr>obj_llvm_value = v, obj_addr = addr, obj_value = val, obj_ptr_value = ptr,
      obj_indices = indices, obj_sizes = sizes, obj_signed = True,
      obj_name = name @ nat_to_string (fst (memory_object_name_id name s)), obj_constraints = None\<rparr>"

definition is_pointer :: "memory_object \<Rightarrow> bool" where
  "is_pointer obj = (obj_ptr_value obj \<noteq> None)"

definition is_scalar :: "memory_object \<Rightarrow> bool" where
  "is_scalar obj = (\<not> is_pointer obj \<and> length (obj_indices obj) = 0)"

definition is_array :: "memory_object \<Rightarrow> bool" where
  "is_array obj = (\<not> is_pointer obj \<and> \<not> is_scalar obj)"

definition zero_index :: expression where
  "zero_index = expression_cases [z_true] [z_int 0]"

definition read_at :: "z3_api \<Rightarrow> expression list \<Rightarrow> memory_object \<Rightarrow> expression option" where
  "read_at z index obj =
     (let index' = (if index = [] \<and> obj_sizes obj \<noteq> []
                    then replicate (length (obj_sizes obj)) (expression_of z (z_int 0)) else index)
      in if length index' \<noteq> length (obj_sizes obj) then None
         else subs z (obj_indices obj) index' (obj_value obj))"

definition read_object :: "z3_api \<Rightarrow> memory_object \<Rightarrow> expression option" where
  "read_object z obj = read_at z (replicate (length (obj_sizes obj)) zero_index) obj"

definition write_object :: "expression \<Rightarrow> memory_object \<Rightarrow> memory_object" where
  "write_object v obj = obj\<lparr>obj_value := v\<rparr>"

fun index_condition :: "z3_api \<Rightarrow> z3expr \<Rightarrow> z3expr list \<Rightarrow> expression list \<Rightarrow> z3expr option" where
  "index_condition z acc (i # idx) (e # es) =
     (case as_expr z e of
        None \<Rightarrow> None
      | Some t \<Rightarrow> index_condition z (z_and acc (z_eq i t)) idx es)"
| "index_condition z acc [] (e # es) = None"
| "index_condition z acc idx [] = Some acc"

definition write_at ::
    "z3_api \<Rightarrow> expression list \<Rightarrow> expression \<Rightarrow> memory_object \<Rightarrow> memory_object option" where
  "write_at z index v obj =
     (let index' = (if index = [] \<and> obj_sizes obj \<noteq> []
                    then replicate (length (obj_sizes obj)) (expression_of z (z_int 0)) else index)
      in if length index' \<noteq> length (obj_sizes obj) then None
         else case index_condition z z_true (obj_indices obj) index' of
                None \<Rightarrow> None
              | Some c \<Rightarrow> map_option (\<lambda>val. obj\<lparr>obj_value := val\<rparr>) (push_front z c v (obj_value obj)))"

definition get_signature :: "memory_object \<Rightarrow> z3expr" where
  "get_signature obj = App (OUninterp (obj_name obj) IntSort) (obj_indices obj)"

text \<open>No pointer value is the exception of \<open>get_ptr_value\<close>.\<close>

definition get_ptr_value :: "memory_object \<Rightarrow> mem_address option" where
  "get_ptr_value obj = obj_ptr_value obj"

section \<open>The stack\<close>

record stack_frame =
  frame_prev_pc :: "value_id option"
  frame_base :: expression
  temp_objects :: "value_id \<rightharpoonup> memory_object"
  frame_func :: "function_id option"

record mstack =
  frames :: "stack_frame list"
  stack_objects :: "memory_object list"
  value_counter :: "value_id \<rightharpoonup> nat"

text \<open>The copy constructor does not copy the counters.\<close>

definition copy_mstack :: "mstack \<Rightarrow> mstack" where
  "copy_mstack m = m\<lparr>value_counter := Map.empty\<rparr>"

definition array_index :: "nat \<Rightarrow> z3expr" where
  "array_index i = z_int_const (''array_i'' @ nat_to_string i)"

definition push_frame :: "z3_api \<Rightarrow> function_id option \<Rightarrow> mstack \<Rightarrow> mstack" where
  "push_frame z func m =
     m\<lparr>frames := \<lparr>frame_prev_pc = None,
                   frame_base = expression_of z (z_int (int (length (stack_objects m)))),
                   temp_objects = Map.empty, frame_func = func\<rparr> # frames m\<rparr>"

definition numeral_of :: "z3_api \<Rightarrow> expression \<Rightarrow> nat option" where
  "numeral_of z e =
     (case as_expr z e of
        None \<Rightarrow> None
      | Some t \<Rightarrow> (case numeral_value t of
            None \<Rightarrow> None
          | Some n \<Rightarrow> if n < 0 then None else Some (nat n)))"

definition pop_frame :: "z3_api \<Rightarrow> mstack \<Rightarrow> (stack_frame \<times> mstack) option" where
  "pop_frame z m =
     (case frames m of
        [] \<Rightarrow> None
      | f # fs \<Rightarrow>
          map_option (\<lambda>n. (f, m\<lparr>frames := fs, stack_objects := take n (stack_objects m)\<rparr>))
            (numeral_of z (frame_base f)))"

definition get_top_objects :: "z3_api \<Rightarrow> mstack \<Rightarrow> memory_object list option" where
  "get_top_objects z m =
     (case frames m of
        [] \<Rightarrow> None
      | f # fs \<Rightarrow> map_option (\<lambda>n. drop n (stack_objects m)) (numeral_of z (frame_base f)))"

definition frame_put_temp :: "session \<Rightarrow> (value_id \<Rightarrow> string) \<Rightarrow> value_id \<Rightarrow> expression \<Rightarrow> stack_frame \<Rightarrow> stack_frame"
  where
  "frame_put_temp s nm v e f =
     f\<lparr>temp_objects := (temp_objects f)(v \<mapsto>
        new_object s v \<lparr>addr_loc = STACK, addr_base = e, addr_offset = []\<rparr> e None [] [] (nm v))\<rparr>"

definition frame_put_ptr :: "session \<Rightarrow> (value_id \<Rightarrow> string) \<Rightarrow> value_id \<Rightarrow> mem_address \<Rightarrow> stack_frame \<Rightarrow> stack_frame"
  where
  "frame_put_ptr s nm v p f =
     f\<lparr>temp_objects := (temp_objects f)(v \<mapsto>
        new_object s v \<lparr>addr_loc = STACK, addr_base = empty_expression, addr_offset = []\<rparr>
          empty_expression (Some p) [] [] (nm v))\<rparr>"

definition on_top :: "(stack_frame \<Rightarrow> stack_frame) \<Rightarrow> mstack \<Rightarrow> mstack option" where
  "on_top g m = (case frames m of [] \<Rightarrow> None | f # fs \<Rightarrow> Some (m\<lparr>frames := g f # fs\<rparr>))"

definition stack_allocate ::
    "z3_api \<Rightarrow> session \<Rightarrow> (value_id \<Rightarrow> string) \<Rightarrow> value_id \<Rightarrow> z3expr list \<Rightarrow> mstack \<Rightarrow> mstack option" where
  "stack_allocate z s nm v dims m =
     (let addr = \<lparr>addr_loc = STACK,
                  addr_base = expression_of z (z_int (int (length (stack_objects m)))), addr_offset = []\<rparr>;
          indices = map array_index [0..<length dims];
          name = nm v @ nat_to_string (counter_of (value_counter m) v) @ ''_undef'';
          sizes = map (expression_of z) (filter is_numeral dims);
          undef = expression_of z (App (OUninterp name IntSort) indices);
          obj = new_object s v addr undef None indices sizes (nm v)
      in on_top (frame_put_ptr s nm v addr)
           (m\<lparr>value_counter := (value_counter m)(v \<mapsto> counter_of (value_counter m) v + 1),
              stack_objects := stack_objects m @ [obj]\<rparr>))"

definition find_object :: "value_id \<Rightarrow> memory_object list \<Rightarrow> memory_object option" where
  "find_object v objs = find (\<lambda>obj. obj_llvm_value obj = v) objs"

definition stack_get_object :: "value_id \<Rightarrow> mstack \<Rightarrow> memory_object option" where
  "stack_get_object v m =
     (case frames m of
        [] \<Rightarrow> None
      | f # fs \<Rightarrow> (case temp_objects f v of
            Some obj \<Rightarrow> Some obj
          | None \<Rightarrow> find_object v (stack_objects m)))"

definition nth_option :: "'a list \<Rightarrow> nat \<Rightarrow> 'a option" where
  "nth_option xs i = (if i < length xs then Some (xs ! i) else None)"

definition stack_object_at :: "z3_api \<Rightarrow> mem_address \<Rightarrow> mstack \<Rightarrow> memory_object option" where
  "stack_object_at z addr m =
     (if addr_loc addr \<noteq> STACK then None
      else case numeral_of z (addr_base addr) of
             None \<Rightarrow> None
           | Some n \<Rightarrow> nth_option (stack_objects m) n)"

definition stack_load :: "z3_api \<Rightarrow> mem_address \<Rightarrow> mstack \<Rightarrow> expression option" where
  "stack_load z addr m =
     (case stack_object_at z addr m of
        None \<Rightarrow> None
      | Some obj \<Rightarrow> read_at z (addr_offset addr) obj)"

definition stack_store :: "z3_api \<Rightarrow> mem_address \<Rightarrow> expression \<Rightarrow> mstack \<Rightarrow> mstack option" where
  "stack_store z addr v m =
     (if addr_loc addr \<noteq> STACK then None
      else case numeral_of z (addr_base addr) of
             None \<Rightarrow> None
           | Some n \<Rightarrow>
               (case nth_option (stack_objects m) n of
                  None \<Rightarrow> None
                | Some obj \<Rightarrow>
                    map_option (\<lambda>obj'. m\<lparr>stack_objects := (stack_objects m)[n := obj']\<rparr>)
                      (write_at z (addr_offset addr) v obj)))"

definition get_stack_arrays :: "mstack \<Rightarrow> memory_object list" where
  "get_stack_arrays m = filter is_array (stack_objects m)"

section \<open>The whole memory\<close>

record memory =
  m_stack :: mstack
  m_objects :: "memory_object list"
  m_variables :: "memory_object list"

definition new_memory :: memory where
  "new_memory = \<lparr>m_stack = \<lparr>frames = [], stack_objects = [], value_counter = Map.empty\<rparr>,
     m_objects = [], m_variables = []\<rparr>"

definition copy_memory :: "memory \<Rightarrow> memory" where
  "copy_memory m = m\<lparr>m_stack := copy_mstack (m_stack m)\<rparr>"

definition get_z3_name :: "string \<Rightarrow> string" where
  "get_z3_name name = ''ari_'' @ map (\<lambda>c. if c = CHR ''.'' then CHR ''_'' else c) name"

definition heap_address :: "z3_api \<Rightarrow> nat \<Rightarrow> mem_address" where
  "heap_address z i =
     \<lparr>addr_loc = HEAP, addr_base = expression_of z (z_int (int i)), addr_offset = []\<rparr>"

text \<open>The new object and the variable that points to it.\<close>

definition heap_index :: "nat \<Rightarrow> z3expr" where
  "heap_index i = z_int_const (''i'' @ nat_to_string i)"

definition heap_alloca ::
    "z3_api \<Rightarrow> session \<Rightarrow> (value_id \<Rightarrow> string) \<Rightarrow> value_id \<Rightarrow> z3expr list \<Rightarrow> memory \<Rightarrow> memory" where
  "heap_alloca z s nm v dims m =
     (let addr = heap_address z (length (m_objects m));
          indices = map heap_index [0..<length dims];
          sizes = map (expression_of z) dims;
          name = get_z3_name (nm v);
          obj = new_object s v addr (expression_of z (App (OUninterp name IntSort) indices)) None
                  indices sizes name;
          variable = new_object s v (heap_address z (length (m_variables m))) empty_expression
                  (Some addr) indices sizes name
      in m\<lparr>m_objects := m_objects m @ [obj], m_variables := m_variables m @ [variable]\<rparr>)"

text \<open>
  What the analysed module says of a global variable: its type and its initialiser.  Other
  initialisers leave the value unset, which has no meaning here.
\<close>

datatype global_type = GlobalArray nat | GlobalInt | GlobalOther
datatype global_init = ZeroInit | DataInit bool "int list" | IntInit int | OtherInit

fun element_constraints :: "string \<Rightarrow> nat \<Rightarrow> int list \<Rightarrow> z3expr \<Rightarrow> z3expr" where
  "element_constraints f i [] acc = acc"
| "element_constraints f i (v # vs) acc =
     element_constraints f (i + 1) vs
       (z_and acc (z_eq (App (OUninterp f IntSort) [z_int (int i)]) (z_int v)))"

definition global_value ::
    "(value_id \<Rightarrow> string) \<Rightarrow> value_id \<Rightarrow> global_type \<Rightarrow> global_init \<Rightarrow> (z3expr option \<times> z3expr \<times> z3expr list)" where
  "global_value nm gv ty ini =
     (case ty of
        GlobalArray n \<Rightarrow>
          (Some (App (OUninterp (nm gv) IntSort) [array_index 0]),
           (case ini of
              ZeroInit \<Rightarrow> element_constraints (nm gv) 0 (replicate n 0) z_true
            | DataInit c_string vs \<Rightarrow>
                if c_string then z_true else element_constraints (nm gv) 0 vs z_true
            | _ \<Rightarrow> z_true),
           [z_int (int n)])
      | GlobalInt \<Rightarrow> (case ini of IntInit v \<Rightarrow> Some (z_int v) | _ \<Rightarrow> None, z_true, [])
      | GlobalOther \<Rightarrow> (None, z_true, []))"

definition add_global ::
    "z3_api \<Rightarrow> session \<Rightarrow> (value_id \<Rightarrow> string) \<Rightarrow> value_id \<Rightarrow> global_type \<Rightarrow> global_init \<Rightarrow> memory \<Rightarrow> memory option"
  where
  "add_global z s nm gv ty ini m =
     (case global_value nm gv ty ini of
        (None, _, _) \<Rightarrow> None
      | (Some val, constraints, dims) \<Rightarrow>
          let m' = heap_alloca z s nm gv dims m; i = length (m_objects m);
              obj = (write_object (expression_of z val) (m_objects m' ! i))\<lparr>obj_constraints := Some constraints\<rparr>
          in Some (m'\<lparr>m_objects := (m_objects m')[i := obj]\<rparr>))"

definition get_object :: "value_id \<Rightarrow> memory \<Rightarrow> memory_object option" where
  "get_object v m =
     (case stack_get_object v (m_stack m) of
        Some obj \<Rightarrow> Some obj
      | None \<Rightarrow> find_object v (m_variables m))"

definition object_at :: "z3_api \<Rightarrow> mem_address \<Rightarrow> memory \<Rightarrow> memory_object option" where
  "object_at z addr m =
     (if addr_loc addr = STACK then stack_object_at z addr (m_stack m)
      else case numeral_of z (addr_base addr) of
             None \<Rightarrow> None
           | Some n \<Rightarrow> nth_option (m_objects m) n)"

definition replace_object_at :: "z3_api \<Rightarrow> mem_address \<Rightarrow> memory_object \<Rightarrow> memory \<Rightarrow> memory" where
  "replace_object_at z addr obj m =
     (case numeral_of z (addr_base addr) of
        None \<Rightarrow> m
      | Some n \<Rightarrow>
          if addr_loc addr = STACK
          then m\<lparr>m_stack := (m_stack m)\<lparr>stack_objects := (stack_objects (m_stack m))[n := obj]\<rparr>\<rparr>
          else m\<lparr>m_objects := (m_objects m)[n := obj]\<rparr>)"

definition store :: "z3_api \<Rightarrow> mem_address \<Rightarrow> expression \<Rightarrow> memory \<Rightarrow> memory option" where
  "store z target val m =
     (case object_at z target m of
        None \<Rightarrow> None
      | Some obj \<Rightarrow>
          if is_scalar obj then Some (replace_object_at z target (write_object val obj) m)
          else if is_array obj
          then map_option (\<lambda>obj'. replace_object_at z target obj' m) (write_at z (addr_offset target) val obj)
          else Some m)"

definition get_arrays :: "memory \<Rightarrow> memory_object list" where
  "get_arrays m = get_stack_arrays (m_stack m) @ filter is_array (m_objects m)"

definition allocate ::
    "z3_api \<Rightarrow> session \<Rightarrow> (value_id \<Rightarrow> string) \<Rightarrow> value_id \<Rightarrow> z3expr list \<Rightarrow> memory \<Rightarrow> memory option" where
  "allocate z s nm v dims m =
     map_option (\<lambda>st. m\<lparr>m_stack := st\<rparr>) (stack_allocate z s nm v dims (m_stack m))"

definition put_temp ::
    "session \<Rightarrow> (value_id \<Rightarrow> string) \<Rightarrow> value_id \<Rightarrow> expression \<Rightarrow> memory \<Rightarrow> memory option" where
  "put_temp s nm v e m =
     map_option (\<lambda>st. m\<lparr>m_stack := st\<rparr>) (on_top (frame_put_temp s nm v e) (m_stack m))"

definition put_ptr ::
    "session \<Rightarrow> (value_id \<Rightarrow> string) \<Rightarrow> value_id \<Rightarrow> mem_address \<Rightarrow> memory \<Rightarrow> memory option" where
  "put_ptr s nm v p m =
     map_option (\<lambda>st. m\<lparr>m_stack := st\<rparr>) (on_top (frame_put_ptr s nm v p) (m_stack m))"

definition get_object_pointed_by :: "z3_api \<Rightarrow> value_id \<Rightarrow> memory \<Rightarrow> memory_object option" where
  "get_object_pointed_by z v m =
     (case get_object v m of
        Some obj \<Rightarrow> (case obj_ptr_value obj of Some addr \<Rightarrow> object_at z addr m | None \<Rightarrow> None)
      | None \<Rightarrow> None)"

definition memory_push :: "z3_api \<Rightarrow> function_id option \<Rightarrow> memory \<Rightarrow> memory" where
  "memory_push z func m = m\<lparr>m_stack := push_frame z func (m_stack m)\<rparr>"

definition memory_pop :: "z3_api \<Rightarrow> memory \<Rightarrow> (stack_frame \<times> memory) option" where
  "memory_pop z m = map_option (\<lambda>(f, st). (f, m\<lparr>m_stack := st\<rparr>)) (pop_frame z (m_stack m))"

definition get_accessible_objects :: "z3_api \<Rightarrow> memory \<Rightarrow> memory_object list option" where
  "get_accessible_objects z m = map_option (\<lambda>os. os @ m_objects m) (get_top_objects z (m_stack m))"

section \<open>Numbers as addresses\<close>

lemma expression_of_int:
  "expression_of z (z_int n) =
     \<lparr>conditions = [eliminate_ite z z_true], expressions = [z_int n], definitions = [z_true]\<rparr>"
  by (simp add: expression_of_def expr2piecewise_def aux_expr2piecewise.simps merge_cases_def
      merge_from.simps merge_pivot_def next_pivot_def merged_cases_def)

lemma as_expr_of_int [simp]: "as_expr z (expression_of z (z_int n)) = Some (z_int n)"
  by (simp add: expression_of_int as_expr_def piecewise2ite_def)

lemma numeral_of_int [simp]: "numeral_of z (expression_of z (z_int (int n))) = Some n"
  by (simp add: numeral_of_def)

end
