(* ===== verification/Memory_Correctness.thy ===== *)
theory Memory_Correctness
  imports Memory_Model
begin

text \<open>
  Correctness of the memory: temporaries behave like a table, calls restore the stack, writing an
  array object updates the function it denotes at one index, and what the model shows about
  global arrays.
\<close>

section \<open>Temporaries\<close>

definition fresh_frame :: stack_frame where
  "fresh_frame = \<lparr>frame_prev_pc = None, frame_base = empty_expression, temp_objects = Map.empty,
     frame_func = None\<rparr>"

interpretation temps: lookup_table fresh_frame "\<lambda>f v. map_option obj_value (temp_objects f v)"
    "frame_put_temp s nm" for s nm
  by unfold_locales (simp_all add: fresh_frame_def frame_put_temp_def new_object_def)

interpretation pointers: lookup_table fresh_frame "\<lambda>f v. Option.bind (temp_objects f v) obj_ptr_value"
    "frame_put_ptr s nm" for s nm
  by unfold_locales (simp_all add: fresh_frame_def frame_put_ptr_def new_object_def)

lemma get_object_put_temp:
  assumes "put_temp s nm v e m = Some m'"
  shows "map_option obj_value (get_object v m') = Some e"
    and "w \<noteq> v \<Longrightarrow> get_object w m' = get_object w m"
proof -
  obtain f fs where f: "frames (m_stack m) = f # fs"
    using assms by (auto simp: put_temp_def on_top_def split: list.splits)
  then have m': "m' = m\<lparr>m_stack := (m_stack m)\<lparr>frames := frame_put_temp s nm v e f # fs\<rparr>\<rparr>"
    using assms by (simp add: put_temp_def on_top_def)
  show "map_option obj_value (get_object v m') = Some e"
    by (simp add: m' get_object_def stack_get_object_def frame_put_temp_def new_object_def)
  show "w \<noteq> v \<Longrightarrow> get_object w m' = get_object w m"
    by (simp add: m' f get_object_def stack_get_object_def frame_put_temp_def split: option.splits)
qed

section \<open>Calls and the stack\<close>

text \<open>What a function may do to the memory between its call and its return.\<close>

datatype mem_op =
    PutTemp value_id expression
  | PutPtr value_id mem_address
  | Alloc value_id "z3expr list"
  | StoreAt mem_address expression

fun run_op :: "z3_api \<Rightarrow> session \<Rightarrow> (value_id \<Rightarrow> string) \<Rightarrow> mem_op \<Rightarrow> memory \<Rightarrow> memory option" where
  "run_op z s nm (PutTemp v e) m = put_temp s nm v e m"
| "run_op z s nm (PutPtr v p) m = put_ptr s nm v p m"
| "run_op z s nm (Alloc v dims) m = allocate z s nm v dims m"
| "run_op z s nm (StoreAt a e) m = store z a e m"

fun run_ops :: "z3_api \<Rightarrow> session \<Rightarrow> (value_id \<Rightarrow> string) \<Rightarrow> mem_op list \<Rightarrow> memory \<Rightarrow> memory option" where
  "run_ops z s nm [] m = Some m"
| "run_ops z s nm (op # ops) m =
     (case run_op z s nm op m of None \<Rightarrow> None | Some m' \<Rightarrow> run_ops z s nm ops m')"

definition stores_nothing :: "mem_op list \<Rightarrow> bool" where
  "stores_nothing ops \<longleftrightarrow> (\<forall>a e. StoreAt a e \<notin> set ops)"

text \<open>The callee's frame stays on top of the caller's, with its base, and no caller object goes.\<close>

definition callee_inv :: "mstack \<Rightarrow> expression \<Rightarrow> nat \<Rightarrow> mstack \<Rightarrow> bool" where
  "callee_inv caller base n m \<longleftrightarrow>
     (\<exists>f. frames m = f # frames caller \<and> frame_base f = base) \<and> n \<le> length (stack_objects m)"

lemma replace_object_frames [simp]:
  "frames (m_stack (replace_object_at z a obj m)) = frames (m_stack m)"
  "length (stack_objects (m_stack (replace_object_at z a obj m))) = length (stack_objects (m_stack m))"
  by (simp_all add: replace_object_at_def split: option.splits)

lemma store_frames:
  "store z a e m = Some m' \<Longrightarrow> frames (m_stack m') = frames (m_stack m) \<and>
     length (stack_objects (m_stack m')) = length (stack_objects (m_stack m))"
  by (auto simp: store_def split: option.splits if_splits)

lemma run_op_callee:
  assumes "run_op z s nm op m = Some m'" "callee_inv caller base n (m_stack m)"
  shows "callee_inv caller base n (m_stack m')"
proof (cases op)
  case (StoreAt a e)
  then show ?thesis using assms store_frames [of z a e m m'] by (simp add: callee_inv_def)
qed (use assms in \<open>auto simp: callee_inv_def put_temp_def put_ptr_def allocate_def stack_allocate_def
    on_top_def frame_put_temp_def frame_put_ptr_def Let_def split: list.splits\<close>)

lemma run_op_prefix:
  assumes "run_op z s nm op m = Some m'" "\<forall>a e. op \<noteq> StoreAt a e"
  shows "\<exists>os. stack_objects (m_stack m') = stack_objects (m_stack m) @ os"
  using assms
  by (cases op) (auto simp: put_temp_def put_ptr_def allocate_def stack_allocate_def on_top_def Let_def
      split: list.splits)

lemma run_ops_callee:
  "run_ops z s nm ops m = Some m' \<Longrightarrow> callee_inv caller base n (m_stack m) \<Longrightarrow>
     callee_inv caller base n (m_stack m')"
  by (induction ops arbitrary: m) (auto split: option.splits dest: run_op_callee)

lemma run_ops_prefix:
  "run_ops z s nm ops m = Some m' \<Longrightarrow> stores_nothing ops \<Longrightarrow>
     \<exists>os. stack_objects (m_stack m') = stack_objects (m_stack m) @ os"
proof (induction ops arbitrary: m)
  case (Cons op ops)
  then obtain m1 where m1: "run_op z s nm op m = Some m1" "run_ops z s nm ops m1 = Some m'"
    by (auto split: option.splits)
  have "stores_nothing ops" "\<forall>a e. op \<noteq> StoreAt a e"
    using Cons.prems(2) by (auto simp: stores_nothing_def)
  then show ?case
    using run_op_prefix [OF m1(1)] Cons.IH [OF m1(2)] by auto
qed simp

lemma pop_after_push:
  assumes "callee_inv st (expression_of z (z_int (int (length (stack_objects st))))) (length (stack_objects st)) m"
  shows "\<exists>f m'. pop_frame z m = Some (f, m') \<and> frames m' = frames st \<and>
    stack_objects m' = take (length (stack_objects st)) (stack_objects m)"
proof -
  obtain f where "frames m = f # frames st"
    "frame_base f = expression_of z (z_int (int (length (stack_objects st))))"
    using assms by (auto simp: callee_inv_def)
  then show ?thesis by (simp add: pop_frame_def)
qed

section \<open>Arrays\<close>

text \<open>
  An array object denotes a function of its indices: its value in the interpretation that binds
  the index constants.
\<close>

definition index_names :: "memory_object \<Rightarrow> string list" where
  "index_names obj = map const_name (obj_indices obj)"

definition int_indices :: "memory_object \<Rightarrow> bool" where
  "int_indices obj \<longleftrightarrow> obj_indices obj = map z_int_const (index_names obj) \<and> distinct (index_names obj)"

definition object_denotes :: "interp \<Rightarrow> memory_object \<Rightarrow> int list \<Rightarrow> z3val \<Rightarrow> bool \<Rightarrow> bool" where
  "object_denotes I obj ks v d \<longleftrightarrow> denotes (bind_ints I (index_names obj) ks) (obj_value obj) v d"

definition terms_ok :: "string list \<Rightarrow> expression \<Rightarrow> bool" where
  "terms_ok xs E \<longleftrightarrow> (\<forall>e\<in>set (conditions E @ expressions E @ definitions E). quantifier_free e \<and>
     (\<forall>x s. z_const x s \<in> set (subterms e) \<and> x \<in> set xs \<longrightarrow> s = IntSort))"

lemma map_of_zip_consts:
  assumes "length xs = length ts"
  shows "map_of (zip (map z_int_const xs) ts) (z_int_const x) = map_of (zip xs ts) x"
  using assms by (induction xs ts rule: list_induct2) simp_all

lemma subst_interp_bind:
  assumes "length xs = length ts" "\<forall>t\<in>set ts. is_int t"
  shows "subst_interp I (zip (map z_int_const xs) ts) = bind_ints I xs (map (ival I) ts)"
proof (intro ext)
  fix x vs
  have "(case map_of (zip xs ts) x of Some d \<Rightarrow> eval I d | None \<Rightarrow> I x vs) =
      (case map_of (zip xs (map (ival I) ts)) x of Some v \<Rightarrow> VInt v | None \<Rightarrow> I x vs)"
    using assms by (induction xs ts rule: list_induct2) (auto simp: eval_int)
  then show "subst_interp I (zip (map z_int_const xs) ts) x vs = bind_ints I xs (map (ival I) ts) x vs"
    by (simp add: subst_interp_def bind_ints_def map_of_zip_consts [OF assms(1)])
qed

lemma well_named_zip:
  assumes "terms_ok xs E" "e \<in> set (conditions E @ expressions E @ definitions E)"
    and "length xs = length ts"
  shows "well_named (zip (map z_int_const xs) ts) e" "quantifier_free e"
proof -
  show "quantifier_free e" using assms(1,2) by (simp add: terms_ok_def)
  have "x \<in> set xs" if "map_of (zip (map z_int_const xs) ts) (z_int_const x) \<noteq> None" for x
    using that assms(3) unfolding map_of_zip_consts [OF assms(3)] by (auto dest: map_of_SomeD set_zip_leftD)
  then show "well_named (zip (map z_int_const xs) ts) e"
    using assms(1,2) unfolding well_named_def terms_ok_def by blast
qed

lemma denotes_subs:
  assumes z: "simplify_ok z" and len: "length xs = length dst"
    and ts: "\<forall>d\<in>set dst. as_expr z d \<noteq> None \<and> is_int (the (as_expr z d))"
    and ok: "terms_ok xs E"
    and den: "denotes (bind_ints I xs (map (\<lambda>d. ival I (the (as_expr z d))) dst)) E v w"
  shows "\<exists>F. subs z (map z_int_const xs) dst E = Some F \<and> denotes I F v w"
proof -
  let ?ts = "map (\<lambda>d. the (as_expr z d)) dst"
  let ?s = "zip (map z_int_const xs) ?ts"
  let ?J = "bind_ints I xs (map (ival I) ?ts)"
  have J: "subst_interp I ?s = ?J"
    using subst_interp_bind [of xs ?ts I] len ts by simp
  have sub: "int_substitution ?s"
    unfolding int_substitution_def
  proof (clarify, intro conjI)
    fix a b assume ab: "(a, b) \<in> set ?s"
    show "is_int b" using set_zip_rightD [OF ab] ts by auto
    show "\<exists>x. a = z_int_const x" using set_zip_leftD [OF ab] by auto
  qed
  have ev: "eval I (substitute ?s e) = eval ?J e"
    if "e \<in> set (conditions E @ expressions E @ definitions E)" for e
  proof -
    have l: "length xs = length ?ts" using len by simp
    show ?thesis
      using eval_substitute [OF sub well_named_zip(2) [OF ok that l] well_named_zip(1) [OF ok that l], of I]
      unfolding J .
  qed
  define F where "F = \<lparr>conditions = map (substitute ?s) (conditions E),
    expressions = map (\<lambda>e. z_simplify z (substitute ?s e)) (expressions E),
    definitions = map (\<lambda>d. z_simplify z (substitute ?s d)) (definitions E)\<rparr>"
  have "\<not> list_ex (\<lambda>d. as_expr z d = None) dst" using ts by (auto simp: list_ex_iff)
  then have F: "subs z (map z_int_const xs) dst E = Some F"
    using len by (simp add: subs_def F_def Let_def)
  have den': "denotes ?J E v w" using den by (simp add: comp_def)
  have wf: "length (expressions E) = length (conditions E)" "length (definitions E) = length (conditions E)"
    using den' by (simp_all add: denotes_def expr_wf_def)
  have at: "holds I (conditions F ! i) = holds ?J (conditions E ! i)"
    "eval I (expressions F ! i) = eval ?J (expressions E ! i)"
    "holds I (definitions F ! i) = holds ?J (definitions E ! i)" if "i < length (conditions E)" for i
    using that wf ev [of "conditions E ! i"] ev [of "expressions E ! i"] ev [of "definitions E ! i"]
    by (simp_all add: F_def holds_def simplify_okD [OF z])
  have "length (conditions F) = length (conditions E)" "expr_wf F"
    using wf by (simp_all add: F_def expr_wf_def)
  then have "denotes I F v w" using den' at unfolding denotes_def by auto
  then show ?thesis using F by blast
qed

text \<open>Reading an array object at given indices is applying the function it denotes.\<close>

lemma read_at_denotes:
  assumes z: "simplify_ok z" and obj: "int_indices obj" "terms_ok (index_names obj) (obj_value obj)"
    and len: "length index = length (obj_sizes obj)" "length index = length (obj_indices obj)"
    and ts: "\<forall>d\<in>set index. as_expr z d \<noteq> None \<and> is_int (the (as_expr z d))"
    and den: "object_denotes I obj (map (\<lambda>d. ival I (the (as_expr z d))) index) v w"
  shows "\<exists>F. read_at z index obj = Some F \<and> denotes I F v w"
proof -
  have names: "length (index_names obj) = length index" using len by (simp add: index_names_def)
  have "obj_indices obj = map z_int_const (index_names obj)" using obj(1) by (simp add: int_indices_def)
  then have "read_at z index obj = subs z (map z_int_const (index_names obj)) index (obj_value obj)"
    using len by (cases "index = []") (simp_all add: read_at_def)
  then show ?thesis
    using denotes_subs [OF z names ts obj(2)] den by (simp add: object_denotes_def)
qed


text \<open>The condition of a write: every index constant equals its index.\<close>

lemma bind_ints_nth:
  assumes "distinct xs" "length vs = length xs" "k < length xs"
  shows "eval (bind_ints I xs vs) (z_int_const (xs ! k)) = VInt (vs ! k)"
proof -
  have "map_of (zip xs vs) (xs ! k) = Some (vs ! k)"
    using assms by (simp add: map_of_zip_nth)
  then show ?thesis by (simp add: bind_ints_def)
qed

lemma index_condition_holds:
  "index_condition z acc idx es = Some c \<Longrightarrow> length es = length idx \<Longrightarrow>
     \<forall>d\<in>set es. as_expr z d \<noteq> None \<Longrightarrow>
     holds J c \<longleftrightarrow> holds J acc \<and> map (eval J) idx = map (\<lambda>d. eval J (the (as_expr z d))) es"
proof (induction z acc idx es arbitrary: c rule: index_condition.induct)
  case (1 z acc i idx e es)
  then obtain t where t: "as_expr z e = Some t" "index_condition z (z_and acc (z_eq i t)) idx es = Some c"
    by (auto split: option.splits)
  then show ?case using "1.IH" [OF t] "1.prems"
    by (auto simp: holds_connectives holds_eq)
qed simp_all

lemma index_condition_bound:
  assumes "index_condition z z_true (obj_indices obj) index = Some c" "int_indices obj"
    and "length index = length (obj_indices obj)" "length ks = length (obj_indices obj)"
    and ts: "\<forall>d\<in>set index. as_expr z d \<noteq> None \<and> is_int (the (as_expr z d)) \<and>
      eval (bind_ints I (index_names obj) ks) (the (as_expr z d)) = eval I (the (as_expr z d))"
  shows "holds (bind_ints I (index_names obj) ks) c \<longleftrightarrow>
    ks = map (\<lambda>d. ival I (the (as_expr z d))) index"
proof -
  let ?J = "bind_ints I (index_names obj) ks"
  have names: "distinct (index_names obj)" "length (index_names obj) = length ks"
    "obj_indices obj = map z_int_const (index_names obj)"
    using assms(2,4) by (simp_all add: int_indices_def index_names_def)
  have l: "map (eval ?J) (obj_indices obj) = map VInt ks"
    using names bind_ints_nth [OF names(1), of ks _ I] by (auto intro!: nth_equalityI)
  have r: "map (\<lambda>d. eval ?J (the (as_expr z d))) index = map (\<lambda>d. VInt (ival I (the (as_expr z d)))) index"
    using ts by (auto simp: eval_int)
  have "holds ?J c \<longleftrightarrow> map VInt ks = map VInt (map (\<lambda>d. ival I (the (as_expr z d))) index)"
    using index_condition_holds [OF assms(1), of ?J] assms(3) ts l r
    by (simp add: holds_not_false comp_def)
  also have "\<dots> \<longleftrightarrow> ks = map (\<lambda>d. ival I (the (as_expr z d))) index"
    by (metis inj_map_eq_map inj_onI z3val.inject(2))
  finally show ?thesis .
qed

lemma write_at_denotes:
  assumes z: "z3_ok z" and known: "\<forall>fs. z_check z fs \<noteq> Unknown"
    and obj: "int_indices obj" "length (obj_indices obj) = length (obj_sizes obj)"
    and len: "length index = length (obj_sizes obj)" "length ks = length (obj_sizes obj)"
    and ts: "\<forall>d\<in>set index. as_expr z d \<noteq> None \<and> is_int (the (as_expr z d)) \<and>
      eval (bind_ints I (index_names obj) ks) (the (as_expr z d)) = eval I (the (as_expr z d))"
    and X: "denotes (bind_ints I (index_names obj) ks) X w e" "expr_sort X s"
      "\<forall>d\<in>set (definitions X). is_bool d"
    and old: "object_denotes I obj ks v d"
    and ret: "write_at z index X obj = Some obj'"
  shows "object_denotes I obj' ks
    (if ks = map (\<lambda>d. ival I (the (as_expr z d))) index then w else v)
    (if ks = map (\<lambda>d. ival I (the (as_expr z d))) index then e else d)"
proof -
  have nz: "\<not> (index = [] \<and> obj_sizes obj \<noteq> [])" using len by auto
  obtain c where c: "index_condition z z_true (obj_indices obj) index = Some c"
      "\<exists>val. push_front z c X (obj_value obj) = Some val \<and> obj' = obj\<lparr>obj_value := val\<rparr>"
    using ret len nz unfolding write_at_def Let_def by (auto split: option.splits if_splits)
  then obtain val where val: "push_front z c X (obj_value obj) = Some val" "obj' = obj\<lparr>obj_value := val\<rparr>"
    by blast
  have "holds (bind_ints I (index_names obj) ks) c \<longleftrightarrow> ks = map (\<lambda>d. ival I (the (as_expr z d))) index"
    by (rule index_condition_bound [OF c(1) obj(1) _ _ ts]) (simp_all add: len obj(2))
  moreover have "denotes (bind_ints I (index_names obj) ks) (obj_value obj) v d"
    using old by (simp add: object_denotes_def)
  ultimately have "denotes (bind_ints I (index_names obj) ks) val
      (if ks = map (\<lambda>d. ival I (the (as_expr z d))) index then w else v)
      (if ks = map (\<lambda>d. ival I (the (as_expr z d))) index then e else d)"
    using denotes_push_front [OF z known X _ val(1)] by simp
  then show ?thesis by (simp add: object_denotes_def index_names_def val(2))
qed

section \<open>Properties\<close>

lemma call_restores:
  assumes "run_ops z s nm ops (memory_push z func m) = Some m1"
  shows "\<exists>f m2. memory_pop z m1 = Some (f, m2) \<and> frames (m_stack m2) = frames (m_stack m) \<and>
    length (stack_objects (m_stack m2)) = length (stack_objects (m_stack m)) \<and>
    (stores_nothing ops \<longrightarrow> stack_objects (m_stack m2) = stack_objects (m_stack m))"
proof -
  let ?n = "length (stack_objects (m_stack m))"
  have inv: "callee_inv (m_stack m) (expression_of z (z_int (int ?n))) ?n (m_stack m1)"
    by (rule run_ops_callee [OF assms]) (simp add: callee_inv_def memory_push_def push_frame_def)
  obtain f st where st: "pop_frame z (m_stack m1) = Some (f, st)" "frames st = frames (m_stack m)"
      "stack_objects st = take ?n (stack_objects (m_stack m1))"
    using pop_after_push [OF inv] by blast
  have "?n \<le> length (stack_objects (m_stack m1))" using inv by (simp add: callee_inv_def)
  moreover have "stack_objects st = stack_objects (m_stack m)" if "stores_nothing ops"
    using run_ops_prefix [OF assms that] st(3) by (auto simp: memory_push_def push_frame_def)
  ultimately show ?thesis using st by (auto simp: memory_pop_def)
qed




definition sample_array :: memory_object where
  "sample_array = \<lparr>obj_llvm_value = 0,
     obj_addr = \<lparr>addr_loc = HEAP, addr_base = single_case (z_int 0), addr_offset = []\<rparr>,
     obj_value = single_case (z_int 5), obj_ptr_value = None, obj_indices = [heap_index 0],
     obj_sizes = [single_case (z_int 4)], obj_signed = True, obj_name = ''ari_a'', obj_constraints = None\<rparr>"

lemma sample_index: "int_indices sample_array" "index_names sample_array = [''i0'']"
  by (simp_all add: int_indices_def index_names_def sample_array_def heap_index_def)



lemma merge_single: "merge_cases z [p] = [p]"
  by (cases p) (simp add: merge_cases_def merge_from.simps merge_pivot_def next_pivot_def merged_cases_def)

lemma cartesian_product_one: "cartesian_product [Suc 0] 0 = [[0]]"
  by code_simp

lemma expression_of_global:
  "\<exists>c. expression_of z (App (OUninterp f IntSort) [array_index i]) =
     \<lparr>conditions = [c], expressions = [App (OUninterp f IntSort) [array_index i]],
      definitions = [z_true]\<rparr>"
proof -
  let ?x = "array_index i"
  have x: "aux_expr2piecewise z ?x c = [(c, ?x)]" for c
    by (simp add: array_index_def aux_expr2piecewise.simps)
  have "\<exists>c. aux_expr2piecewise z (App (OUninterp f IntSort) [?x]) z_true = [(c, App (OUninterp f IntSort) [?x])]"
    by (subst aux_expr2piecewise.simps) (simp add: x merge_single cartesian_product_one)
  then show ?thesis
    by (auto simp: expression_of_def expr2piecewise_def merge_single)
qed

lemma array_index_not_heap_index: "array_index i \<noteq> heap_index j"
  by (simp add: array_index_def heap_index_def)

text \<open>The value of a global array is a term in the constant of the stack's indices, while the object
  is indexed by the constant of the heap's: before any write, reading it at any two indices gives
  the same term.\<close>

theorem global_array_read_ignores_index:
  "\<exists>obj m'. add_global z s nm gv (GlobalArray n) ini m = Some m' \<and> m_objects m' = m_objects m @ [obj] \<and>
     (\<forall>i. map_option expressions (read_at z [expression_of z (z_int i)] obj) =
        Some [z_simplify z (App (OUninterp (nm gv) IntSort) [array_index 0])])"
proof -
  obtain c where v: "global_value nm gv (GlobalArray n) ini =
      (Some (App (OUninterp (nm gv) IntSort) [array_index 0]), c, [z_int (int n)])"
    by (simp add: global_value_def)
  let ?A = "App (OUninterp (nm gv) IntSort) [array_index 0]"
  let ?name = "get_z3_name (nm gv)"
  define E where "E = expression_of z ?A"
  obtain cond where E: "E = \<lparr>conditions = [cond], expressions = [?A], definitions = [z_true]\<rparr>"
    using expression_of_global [of z "nm gv" 0] unfolding E_def by blast
  define m1 where "m1 = heap_alloca z s nm gv [z_int (int n)] m"
  obtain obj0 where obj0: "m_objects m1 = m_objects m @ [obj0]"
      "obj_indices obj0 = [heap_index 0]" "length (obj_sizes obj0) = 1"
  proof
    show "m_objects m1 = m_objects m @ [last (m_objects m1)]"
      "obj_indices (last (m_objects m1)) = [heap_index 0]" "length (obj_sizes (last (m_objects m1))) = 1"
      by (simp_all add: m1_def heap_alloca_def Let_def new_object_def)
  qed
  define obj where "obj = obj0\<lparr>obj_value := E, obj_constraints := Some c\<rparr>"
  have a: "add_global z s nm gv (GlobalArray n) ini m =
      Some (m1\<lparr>m_objects := m_objects m @ [obj]\<rparr>)"
    by (simp add: add_global_def v Let_def m1_def [symmetric] obj0 obj_def E_def write_object_def)
  have "map_option expressions (read_at z [expression_of z (z_int i)] obj) = Some [z_simplify z ?A]" for i
  proof -
    have "read_at z [expression_of z (z_int i)] obj = subs z [heap_index 0] [expression_of z (z_int i)] E"
      using obj0 by (simp add: read_at_def obj_def)
    moreover have "substitute [(heap_index 0, z_int i)] ?A = ?A"
      by (simp add: array_index_def heap_index_def)
    ultimately show ?thesis
      by (simp add: subs_def E Let_def)
  qed
  then show ?thesis using a by (intro exI [of _ obj] exI [of _ "m1\<lparr>m_objects := m_objects m @ [obj]\<rparr>"]) simp
qed

end
