(* ===== verification/Llvm_Module.thy ===== *)
theory Llvm_Module
  imports Memory_Model
begin

text \<open>
  The analysed module as the program sees it through the LLVM interface, and the functions of
  lib/AInstruction.cpp that read only the module: the signed-representation analysis, the recursion
  test, the names of source types.  Values, blocks, loops and functions are identified by numbers;
  what the LLVM library computes on them (loop information, the call graph, the stripping of pointer
  casts) is data of the record.
\<close>

section \<open>Types, instructions and modules\<close>

type_synonym block_id = nat

datatype llvm_type = IntTy nat | PtrTy | FloatTy | OtherTy

datatype opcode = OpAdd | OpSub | OpMul | OpSDiv | OpUDiv | OpSRem | OpURem
  | OpAnd | OpOr | OpXor | OpShl | OpLShr | OpAShr | OpOther

datatype predicate = P_EQ | P_NE | P_SLT | P_SLE | P_SGT | P_SGE | P_ULT | P_ULE | P_UGT | P_UGE

record inst_flags =
  no_signed_wrap :: bool
  no_unsigned_wrap :: bool
  exact :: bool

text \<open>
  The instructions the program executes.  A call has its callee when it resolves to a function, and
  its arguments with their \<open>noundef\<close> attribute; an allocation whether it has a size operand and the
  number of elements of an array type; a debug instruction the value it describes and the bit size of
  its variable.
\<close>

datatype instruction =
    Binary opcode inst_flags value_id value_id
  | ICmp predicate value_id value_id
  | Call "function_id option" "(value_id \<times> bool) list"
  | CondBr value_id block_id block_id
  | Br block_id
  | Ret "value_id option"
  | ZExt value_id
  | SExt value_id
  | Trunc value_id
  | Phi "(block_id \<times> value_id) list"
  | Select value_id value_id value_id
  | Load value_id
  | Store value_id value_id
  | Gep value_id "value_id list"
  | Alloca bool "nat option"
  | DbgDeclare value_id
  | DbgValue value_id nat
  | DbgOther
  | OtherInstruction

text \<open>A constant has its signed and its unsigned reading.\<close>

datatype value_kind =
    ConstInt int int
  | Undef
  | Argument
  | Inst instruction
  | OtherValue

text \<open>The extension attributes of the result of a call, on the call or on its callee.\<close>

record ret_extension =
  zero_extended :: bool
  sign_extended :: bool

datatype di_encoding = DwBoolean | DwUnsigned | DwUnsignedChar | DwSigned | DwSignedChar | DwOther

datatype di_type = DiBasic di_encoding nat | DiDerived "di_type option" | DiOther

record llvm_module =
  kind_of :: "value_id \<Rightarrow> value_kind"
  ty_of :: "value_id \<Rightarrow> llvm_type"
  name_of :: "value_id \<Rightarrow> string"
  block_of :: "value_id \<Rightarrow> block_id"
  function_of :: "block_id \<Rightarrow> function_id"
  insts_of :: "block_id \<Rightarrow> value_id list"
  blocks_of :: "function_id \<Rightarrow> block_id list"
  args_of :: "function_id \<Rightarrow> value_id list"
  func_name :: "function_id \<Rightarrow> string"
  exact_definition :: "function_id \<Rightarrow> bool"
  call_extension :: "value_id \<Rightarrow> ret_extension"
  callees_of :: "function_id \<Rightarrow> function_id list"
  all_functions :: "function_id list"
  all_values :: "value_id list"
  strip_casts :: "value_id \<Rightarrow> value_id"
  loop_for :: "block_id \<Rightarrow> loop_id option"
  loop_blocks :: "loop_id \<Rightarrow> block_id list"
  loop_header :: "loop_id \<Rightarrow> block_id"
  loop_parent :: "loop_id \<Rightarrow> loop_id option"
  sub_loops :: "loop_id \<Rightarrow> loop_id list"
  loop_latches :: "loop_id \<Rightarrow> block_id list"
  loop_exit_block :: "loop_id \<Rightarrow> block_id option"
  dominates :: "block_id \<Rightarrow> block_id \<Rightarrow> bool"
  source_variables :: "value_id \<Rightarrow> (string \<times> di_type) list"
  module_globals :: "(value_id \<times> global_type \<times> global_init) list"

text \<open>\<open>getIntegerBitWidth\<close> asserts an integer type.\<close>

fun int_width :: "llvm_type \<Rightarrow> nat option" where
  "int_width (IntTy w) = Some w"
| "int_width _ = None"

definition is_int_ty :: "llvm_module \<Rightarrow> value_id \<Rightarrow> bool" where
  "is_int_ty m v = (int_width (ty_of m v) \<noteq> None)"

definition is_ptr_ty :: "llvm_module \<Rightarrow> value_id \<Rightarrow> bool" where
  "is_ptr_ty m v = (ty_of m v = PtrTy)"

definition is_phi :: "llvm_module \<Rightarrow> value_id \<Rightarrow> bool" where
  "is_phi m v = (case kind_of m v of Inst (Phi _) \<Rightarrow> True | _ \<Rightarrow> False)"

definition is_dbg :: "llvm_module \<Rightarrow> value_id \<Rightarrow> bool" where
  "is_dbg m v = (case kind_of m v of
     Inst (DbgDeclare _) \<Rightarrow> True | Inst (DbgValue _ _) \<Rightarrow> True | Inst DbgOther \<Rightarrow> True | _ \<Rightarrow> False)"

text \<open>The positions in a block the program asks for.\<close>

definition phis_of :: "llvm_module \<Rightarrow> block_id \<Rightarrow> value_id list" where
  "phis_of m b = takeWhile (is_phi m) (insts_of m b)"

definition first_non_phi_or_dbg :: "llvm_module \<Rightarrow> block_id \<Rightarrow> value_id option" where
  "first_non_phi_or_dbg m b = find (\<lambda>i. \<not> is_phi m i \<and> \<not> is_dbg m i) (insts_of m b)"

definition first_without_debug :: "llvm_module \<Rightarrow> block_id \<Rightarrow> value_id option" where
  "first_without_debug m b = find (\<lambda>i. \<not> is_dbg m i) (insts_of m b)"

definition get_next_instruction :: "llvm_module \<Rightarrow> value_id \<Rightarrow> value_id option" where
  "get_next_instruction m i =
     (case dropWhile (\<lambda>j. j \<noteq> i) (insts_of m (block_of m i)) of
        _ # j # _ \<Rightarrow> Some j
      | _ \<Rightarrow> None)"

definition loop_contains :: "llvm_module \<Rightarrow> loop_id \<Rightarrow> block_id \<Rightarrow> bool" where
  "loop_contains m l b = (b \<in> set (loop_blocks m l))"

definition is_first_header_phi :: "llvm_module \<Rightarrow> value_id \<Rightarrow> loop_id option \<Rightarrow> bool" where
  "is_first_header_phi m phi l =
     (case l of
        None \<Rightarrow> False
      | Some loop \<Rightarrow> (case phis_of m (loop_header m loop) of [] \<Rightarrow> False | p # _ \<Rightarrow> phi = p))"

section \<open>Names of source types\<close>

fun source_type_name :: "di_type \<Rightarrow> string" where
  "source_type_name (DiBasic enc width) =
     (case enc of
        DwBoolean \<Rightarrow> ''_Bool''
      | DwOther \<Rightarrow> ''int''
      | _ \<Rightarrow>
          if enc = DwUnsigned \<or> enc = DwUnsignedChar
          then (if width \<le> 8 then ''unsigned char'' else if width \<le> 16 then ''unsigned short''
                else if width \<le> 32 then ''unsigned int'' else ''unsigned long long'')
          else (if width \<le> 8 then ''signed char'' else if width \<le> 16 then ''short''
                else if width \<le> 32 then ''int'' else ''long long''))"
| "source_type_name (DiDerived None) = ''int''"
| "source_type_name (DiDerived (Some base)) = source_type_name base"
| "source_type_name DiOther = ''int''"

definition source_variable :: "llvm_module \<Rightarrow> value_id \<Rightarrow> (string \<times> string) option" where
  "source_variable m v =
     (case filter (\<lambda>(name, _). name \<noteq> []) (source_variables m v) of
        [] \<Rightarrow> None
      | (name, ty) # _ \<Rightarrow> Some (name, source_type_name ty))"

section \<open>Depth-first searches with early exit\<close>

text \<open>
  Visiting a list until an answer is \<open>stop\<close>: the visitor returns an answer and the new set of
  visited nodes, or nothing when its fuel is used up.
\<close>

fun visit_until :: "bool \<Rightarrow> ('s \<Rightarrow> 'a \<Rightarrow> (bool \<times> 's) option) \<Rightarrow> 's \<Rightarrow> 'a list \<Rightarrow> (bool \<times> 's) option" where
  "visit_until stop f s [] = Some (\<not> stop, s)"
| "visit_until stop f s (x # xs) =
     (case f s x of
        None \<Rightarrow> None
      | Some (r, s') \<Rightarrow> if r = stop then Some (stop, s') else visit_until stop f s' xs)"

lemma visit_until_cong [fundef_cong]:
  assumes "\<And>s x. x \<in> set xs \<Longrightarrow> f s x = g s x"
  shows "visit_until stop f s xs = visit_until stop g s xs"
  using assms
  by (induction xs arbitrary: s) (simp_all split: option.splits)

section \<open>Canonical signed representations\<close>

datatype visit_state = Visiting | Canonical | NonCanonical

text \<open>The base of a chain of address computations; the fuel bounds its length.\<close>

fun underlying_pointer :: "llvm_module \<Rightarrow> nat \<Rightarrow> value_id \<Rightarrow> value_id" where
  "underlying_pointer m 0 v = strip_casts m v"
| "underlying_pointer m (Suc n) v =
     (case kind_of m (strip_casts m v) of
        Inst (Gep p _) \<Rightarrow> underlying_pointer m n p
      | _ \<Rightarrow> strip_casts m v)"

definition base_of :: "llvm_module \<Rightarrow> value_id \<Rightarrow> value_id" where
  "base_of m v = underlying_pointer m (length (all_values m)) v"

text \<open>The values stored anywhere in the function through a pointer with the given base.\<close>

definition stored_values :: "llvm_module \<Rightarrow> function_id \<Rightarrow> value_id \<Rightarrow> value_id list" where
  "stored_values m f base =
     concat (map (\<lambda>i. case kind_of m i of
         Inst (Store p v) \<Rightarrow> if base_of m p = base then [v] else []
       | _ \<Rightarrow> []) (concat (map (insts_of m) (blocks_of m f))))"

text \<open>
  What decides a value: an answer at once, or the answers of other values.  An integer call is taken
  as canonical, arithmetic without the no-signed-wrap flag is not.
\<close>

datatype canonical_shape = Decided bool | AllCanonical "value_id list"

definition canonical_shape_of :: "llvm_module \<Rightarrow> value_id \<Rightarrow> canonical_shape" where
  "canonical_shape_of m v =
     (case kind_of m v of
        ConstInt _ _ \<Rightarrow> Decided True
      | Undef \<Rightarrow> Decided True
      | Argument \<Rightarrow> Decided True
      | Inst (SExt _) \<Rightarrow> Decided True
      | Inst (ZExt _) \<Rightarrow> Decided True
      | Inst (Trunc _) \<Rightarrow> Decided True
      | Inst (ICmp _ _ _) \<Rightarrow> Decided True
      | Inst (Call _ _) \<Rightarrow> Decided (is_int_ty m v)
      | Inst (Binary op fl _ _) \<Rightarrow>
          Decided (op \<in> {OpSDiv, OpSRem, OpAnd, OpOr, OpXor, OpShl, OpLShr, OpAShr} \<or> no_signed_wrap fl)
      | Inst (Phi inc) \<Rightarrow> AllCanonical (map snd inc)
      | Inst (Load p) \<Rightarrow>
          (case stored_values m (function_of m (block_of m v)) (base_of m p) of
             [] \<Rightarrow> Decided False
           | vs \<Rightarrow> AllCanonical vs)
      | Inst (Select _ a b) \<Rightarrow> AllCanonical [a, b]
      | _ \<Rightarrow> Decided False)"

fun visit_canonical ::
    "llvm_module \<Rightarrow> nat \<Rightarrow> (value_id \<rightharpoonup> visit_state) \<Rightarrow> value_id \<Rightarrow> (bool \<times> (value_id \<rightharpoonup> visit_state)) option"
  where
  "visit_canonical m 0 visited v = None"
| "visit_canonical m (Suc n) visited v =
     (case visited v of
        Some st \<Rightarrow> Some (st \<noteq> NonCanonical, visited)
      | None \<Rightarrow>
          (case (case canonical_shape_of m v of
                   Decided c \<Rightarrow> Some (c, visited(v \<mapsto> Visiting))
                 | AllCanonical vs \<Rightarrow>
                     visit_until False (visit_canonical m n) (visited(v \<mapsto> Visiting)) vs) of
             None \<Rightarrow> None
           | Some (c, visited') \<Rightarrow>
               Some (c, visited'(v \<mapsto> (if c then Canonical else NonCanonical)))))"

definition has_canonical_signed_representation :: "llvm_module \<Rightarrow> value_id \<Rightarrow> bool" where
  "has_canonical_signed_representation m v =
     (case visit_canonical m (length (all_values m) + 1) Map.empty v of
        Some (c, _) \<Rightarrow> c
      | None \<Rightarrow> False)"

section \<open>Recursion\<close>

text \<open>The search of the call graph: true when the target is a callee on the way.\<close>

fun visit_calls ::
    "llvm_module \<Rightarrow> function_id \<Rightarrow> nat \<Rightarrow> function_id set \<Rightarrow> function_id \<Rightarrow> (bool \<times> function_id set) option"
  where
  "visit_calls m target 0 visited f = None"
| "visit_calls m target (Suc n) visited f =
     (if f \<in> visited then Some (False, visited)
      else visit_until True
             (\<lambda>vis g. if g = target then Some (True, vis) else visit_calls m target n vis g)
             (insert f visited) (callees_of m f))"

definition is_recursive :: "llvm_module \<Rightarrow> function_id \<Rightarrow> bool" where
  "is_recursive m f =
     (case visit_calls m f (length (all_functions m) + 1) {} f of
        Some (r, _) \<Rightarrow> r
      | None \<Rightarrow> False)"

end
