(* ===== verification/Llvm_Analysis.thy ===== *)
theory Llvm_Analysis
  imports Llvm_Module
begin

text \<open>
  Correctness of the searches over the module: both end within the fuel their callers give, the
  signed-representation analysis accepts exactly the values whose reachable sources are all accepted,
  and the recursion test finds exactly the cycles of the call graph.
\<close>

section \<open>The representation analysis\<close>

fun sources :: "canonical_shape \<Rightarrow> value_id list" where
  "sources (Decided c) = []"
| "sources (AllCanonical vs) = vs"

definition source_edges :: "llvm_module \<Rightarrow> (value_id \<times> value_id) set" where
  "source_edges m = {(v, w). w \<in> set (sources (canonical_shape_of m v))}"

definition bad_value :: "llvm_module \<Rightarrow> value_id \<Rightarrow> bool" where
  "bad_value m v \<longleftrightarrow> canonical_shape_of m v = Decided False"

text \<open>A visited set in which every finished value is good and has only visited sources.\<close>

definition settled :: "llvm_module \<Rightarrow> (value_id \<rightharpoonup> visit_state) \<Rightarrow> bool" where
  "settled m vis \<longleftrightarrow> (\<forall>v. vis v \<noteq> Some NonCanonical) \<and>
     (\<forall>v. vis v = Some Canonical \<longrightarrow> \<not> bad_value m v \<and> set (sources (canonical_shape_of m v)) \<subseteq> dom vis)"

definition pending :: "(value_id \<rightharpoonup> visit_state) \<Rightarrow> value_id set" where
  "pending vis = {v. vis v = Some Visiting}"

text \<open>What a visitor that answers \<open>True\<close> does to the visited set.\<close>

definition advances :: "llvm_module \<Rightarrow> (value_id \<rightharpoonup> visit_state) \<Rightarrow> (value_id \<rightharpoonup> visit_state) \<Rightarrow> bool" where
  "advances m vis vis' \<longleftrightarrow> settled m vis' \<and> pending vis' = pending vis \<and> dom vis \<subseteq> dom vis'"

lemma visit_until_true:
  assumes "visit_until False f vis xs = Some (True, vis')" "settled m vis"
    and "\<And>vis x vis'. x \<in> set xs \<Longrightarrow> settled m vis \<Longrightarrow> f vis x = Some (True, vis') \<Longrightarrow>
      advances m vis vis' \<and> x \<in> dom vis'"
  shows "advances m vis vis' \<and> set xs \<subseteq> dom vis'"
  using assms
proof (induction xs arbitrary: vis)
  case Nil
  then show ?case by (simp add: advances_def)
next
  case (Cons x xs)
  obtain vis1 where v1: "f vis x = Some (True, vis1)" "visit_until False f vis1 xs = Some (True, vis')"
    using Cons.prems(1) by (auto split: option.splits if_splits)
  have 1: "advances m vis vis1 \<and> x \<in> dom vis1"
    using Cons.prems(3) [OF _ Cons.prems(2) v1(1)] by simp
  then have s1: "settled m vis1" by (simp add: advances_def)
  have 2: "advances m vis1 vis' \<and> set xs \<subseteq> dom vis'"
  proof (rule Cons.IH [OF v1(2) s1])
    fix vis y vis' assume "y \<in> set xs" "settled m vis" "f vis y = Some (True, vis')"
    then show "advances m vis vis' \<and> y \<in> dom vis'" using Cons.prems(3) [of y] by simp
  qed
  have "settled m vis'" "pending vis' = pending vis" using 1 2 by (simp_all add: advances_def)
  moreover have "dom vis1 \<subseteq> dom vis'" "dom vis \<subseteq> dom vis1" "x \<in> dom vis1"
    using 1 2 unfolding advances_def by blast+
  ultimately show ?case using 2 unfolding advances_def list.set by blast
qed

lemma visit_true:
  "visit_canonical m n vis v = Some (True, vis') \<Longrightarrow> settled m vis \<Longrightarrow>
     advances m vis vis' \<and> v \<in> dom vis'"
proof (induction n arbitrary: vis v vis')
  case (Suc n)
  show ?case
  proof (cases "vis v")
    case (Some st)
    then show ?thesis using Suc.prems by (auto simp: advances_def)
  next
    case None
    let ?vis = "vis(v \<mapsto> Visiting)"
    have s: "settled m ?vis" using Suc.prems(2) None by (auto simp: settled_def)
    have p: "pending ?vis = insert v (pending vis)" "v \<notin> pending vis"
      using None by (auto simp: pending_def)
    have fin: ?thesis
      if q: "vis' = q(v \<mapsto> Canonical)" "advances m ?vis q" "\<not> bad_value m v"
        "set (sources (canonical_shape_of m v)) \<subseteq> dom q" for q
    proof -
      have "pending vis' = pending q - {v}" using q(1) by (auto simp: pending_def)
      then have "pending vis' = pending vis" using q(2) p by (simp add: advances_def)
      moreover have "settled m vis'" using q by (auto simp: settled_def advances_def)
      moreover have "dom vis \<subseteq> dom vis' \<and> v \<in> dom vis'" using q by (auto simp: advances_def)
      ultimately show ?thesis unfolding advances_def by blast
    qed
    show ?thesis
    proof (cases "canonical_shape_of m v")
      case (Decided c)
      then have c: "vis' = ?vis(v \<mapsto> Canonical)" "c"
        using Suc.prems(1) None by (auto simp del: fun_upd_upd)
      then show ?thesis by (intro fin [OF c(1)]) (use s Decided c(2) in \<open>simp_all add: bad_value_def advances_def\<close>)
    next
      case (AllCanonical vs)
      then obtain q where q: "visit_until False (visit_canonical m n) ?vis vs = Some (True, q)"
          "vis' = q(v \<mapsto> Canonical)"
        using Suc.prems(1) None by (auto split: option.splits)
      have "advances m ?vis q \<and> set vs \<subseteq> dom q"
        by (rule visit_until_true [OF q(1) s]) (use Suc.IH in blast)
      then show ?thesis by (intro fin [OF q(2)]) (use AllCanonical in \<open>auto simp: bad_value_def\<close>)
    qed
  qed
qed simp

lemma visit_until_false:
  assumes "visit_until False f vis xs = Some (False, vis')" "settled m vis"
    and "\<And>vis x vis'. x \<in> set xs \<Longrightarrow> settled m vis \<Longrightarrow> f vis x = Some (True, vis') \<Longrightarrow> settled m vis'"
    and "\<And>vis x vis'. x \<in> set xs \<Longrightarrow> settled m vis \<Longrightarrow> f vis x = Some (False, vis') \<Longrightarrow> P x"
  shows "\<exists>x\<in>set xs. P x"
  using assms
proof (induction xs arbitrary: vis)
  case (Cons x xs)
  obtain r vis1 where v1: "f vis x = Some (r, vis1)" using Cons.prems(1) by (auto split: option.splits)
  show ?case
  proof (cases r)
    case True
    then have rest: "visit_until False f vis1 xs = Some (False, vis')" using Cons.prems(1) v1 by simp
    have s1: "settled m vis1" using Cons.prems(3) [of x vis vis1] Cons.prems(2) v1 True by simp
    have "\<exists>x\<in>set xs. P x"
    proof (rule Cons.IH [OF rest s1])
      fix vis y vis' assume y: "y \<in> set xs" "settled m vis"
      show "f vis y = Some (True, vis') \<Longrightarrow> settled m vis'" using Cons.prems(3) [of y] y by simp
      show "f vis y = Some (False, vis') \<Longrightarrow> P y" using Cons.prems(4) [of y] y by simp
    qed
    then show ?thesis by simp
  next
    case False
    then show ?thesis using Cons.prems(4) [of x vis vis1] Cons.prems(2) v1 by simp
  qed
qed simp

lemma visit_false:
  "visit_canonical m n vis v = Some (False, vis') \<Longrightarrow> settled m vis \<Longrightarrow>
     \<exists>w. (v, w) \<in> (source_edges m)\<^sup>* \<and> bad_value m w"
proof (induction n arbitrary: vis v vis')
  case (Suc n)
  have None: "vis v = None"
    using Suc.prems by (auto simp: settled_def split: option.splits)
  let ?vis = "vis(v \<mapsto> Visiting)"
  have s: "settled m ?vis" using Suc.prems(2) None by (auto simp: settled_def)
  show ?case
  proof (cases "canonical_shape_of m v")
    case (Decided c)
    then have "bad_value m v" using Suc.prems(1) None by (auto simp: bad_value_def)
    then show ?thesis by blast
  next
    case (AllCanonical vs)
    then obtain q where q: "visit_until False (visit_canonical m n) ?vis vs = Some (False, q)"
      using Suc.prems(1) None by (auto split: option.splits)
    have "\<exists>x\<in>set vs. \<exists>w. (x, w) \<in> (source_edges m)\<^sup>* \<and> bad_value m w"
      by (rule visit_until_false [OF q s])
        (use visit_true Suc.IH in \<open>auto simp: advances_def\<close>)
    then obtain x w where "x \<in> set vs" "(x, w) \<in> (source_edges m)\<^sup>*" "bad_value m w" by blast
    moreover have "(v, x) \<in> source_edges m"
      using AllCanonical \<open>x \<in> set vs\<close> by (simp add: source_edges_def)
    ultimately show ?thesis by (meson converse_rtrancl_into_rtrancl)
  qed
qed simp

subsection \<open>The fuel is enough\<close>

text \<open>A visitor that only adds to its visited set returns when it has more fuel than nodes left.\<close>

lemma visit_until_total:
  assumes "\<And>s x. x \<in> set xs \<Longrightarrow> Q s \<Longrightarrow> \<exists>r s'. f s x = Some (r, s') \<and> Q s'" "Q s"
  shows "\<exists>r s'. visit_until stop f s xs = Some (r, s') \<and> Q s'"
  using assms
proof (induction xs arbitrary: s)
  case (Cons x xs)
  obtain r s1 where s1: "f s x = Some (r, s1)" "Q s1"
    using Cons.prems(1) [of x s] Cons.prems(2) by auto
  have "\<exists>r s'. visit_until stop f s1 xs = Some (r, s') \<and> Q s'"
    by (rule Cons.IH [OF _ s1(2)]) (simp add: Cons.prems(1))
  then show ?case using s1 by simp
qed simp

lemma visit_canonical_total:
  "finite V \<Longrightarrow> (\<forall>w\<in>V. set (sources (canonical_shape_of m w)) \<subseteq> V) \<Longrightarrow> v \<in> V \<Longrightarrow>
     card (V - dom vis) < n \<Longrightarrow>
     \<exists>r vis'. visit_canonical m n vis v = Some (r, vis') \<and> dom vis \<subseteq> dom vis'"
proof (induction n arbitrary: vis v)
  case (Suc n)
  show ?case
  proof (cases "vis v")
    case None
    let ?vis = "vis(v \<mapsto> Visiting)"
    have less: "card (V - dom ?vis) < n"
    proof -
      have "V - dom ?vis \<subset> V - dom vis" using Suc.prems(3) None by auto
      then have "card (V - dom ?vis) < card (V - dom vis)"
        using Suc.prems(1) by (simp add: psubset_card_mono)
      then show ?thesis using Suc.prems(4) by simp
    qed
    show ?thesis
    proof (cases "canonical_shape_of m v")
      case (AllCanonical vs)
      have sub: "set vs \<subseteq> V" using Suc.prems(2,3) AllCanonical by force
      have "\<exists>r s'. visit_until False (visit_canonical m n) ?vis vs = Some (r, s') \<and> dom ?vis \<subseteq> dom s'"
      proof (rule visit_until_total)
        fix s :: "value_id \<rightharpoonup> visit_state" and x
        assume x: "x \<in> set vs" "dom ?vis \<subseteq> dom s"
        have "V - dom s \<subseteq> V - dom ?vis" using x(2) by blast
        then have "card (V - dom s) < n"
          using less Suc.prems(1) by (meson card_mono finite_Diff le_less_trans)
        moreover have "x \<in> V" using sub x(1) by blast
        ultimately have "\<exists>r s'. visit_canonical m n s x = Some (r, s') \<and> dom s \<subseteq> dom s'"
          using Suc.IH Suc.prems(1,2) by blast
        then show "\<exists>r s'. visit_canonical m n s x = Some (r, s') \<and> dom ?vis \<subseteq> dom s'" using x(2) by blast
      qed simp
      then obtain r s' where s': "visit_until False (visit_canonical m n) ?vis vs = Some (r, s')"
          "dom ?vis \<subseteq> dom s'" by blast
      have "dom vis \<subseteq> dom (s'(v \<mapsto> q))" for q using s'(2) by (simp add: subset_insertI2)
      then show ?thesis using s'(1) None AllCanonical by auto
    qed (use None in auto)
  qed auto
qed simp

text \<open>The values a module lists contain every source of a listed value.\<close>

definition module_closed :: "llvm_module \<Rightarrow> bool" where
  "module_closed m \<longleftrightarrow>
     (\<forall>v\<in>set (all_values m). set (sources (canonical_shape_of m v)) \<subseteq> set (all_values m))"

lemma settled_empty [simp]: "settled m Map.empty"
  by (simp add: settled_def)

lemma settled_closed:
  assumes "settled m vis" "pending vis = {}" "v \<in> dom vis" "(v, w) \<in> (source_edges m)\<^sup>*"
  shows "w \<in> dom vis \<and> \<not> bad_value m w"
proof -
  have good: "\<not> bad_value m x \<and> set (sources (canonical_shape_of m x)) \<subseteq> dom vis" if x: "x \<in> dom vis" for x
  proof -
    from x obtain st where st: "vis x = Some st" by blast
    have "st = Canonical"
      using assms(1,2) st by (cases st) (auto simp: settled_def pending_def)
    then show ?thesis using assms(1) st unfolding settled_def by blast
  qed
  from assms(4) have "w \<in> dom vis"
    by (induction rule: rtrancl_induct) (use assms(3) good in \<open>auto simp: source_edges_def\<close>)
  then show ?thesis using good by blast
qed

text \<open>C34: the representation analysis ends within the fuel its caller gives and accepts a value exactly
  when no value it depends on, through phi nodes, selects and the stores to a loaded object, is
  rejected; cycles of phi nodes count as accepted.\<close>

theorem canonical_analysis_correct:
  assumes "module_closed m" "v \<in> set (all_values m)"
  shows "has_canonical_signed_representation m v \<longleftrightarrow>
    (\<forall>w. (v, w) \<in> (source_edges m)\<^sup>* \<longrightarrow> \<not> bad_value m w)"
proof -
  let ?V = "set (all_values m)"
  have "card (?V - dom (Map.empty :: value_id \<rightharpoonup> visit_state)) < length (all_values m) + 1"
    using card_length [of "all_values m"] by simp
  then obtain r vis where r: "visit_canonical m (length (all_values m) + 1) Map.empty v = Some (r, vis)"
    using visit_canonical_total [of ?V m v Map.empty "length (all_values m) + 1"] assms
    unfolding module_closed_def by auto
  then have iff: "has_canonical_signed_representation m v \<longleftrightarrow> r"
    by (simp add: has_canonical_signed_representation_def)
  show ?thesis
  proof (cases r)
    case True
    then have r1: "visit_canonical m (length (all_values m) + 1) Map.empty v = Some (True, vis)"
      using r by simp
    have a: "advances m Map.empty vis" "v \<in> dom vis"
      using visit_true [OF r1 settled_empty] by blast+
    then have "settled m vis" "pending vis = {}" by (simp_all add: advances_def pending_def)
    then show ?thesis using settled_closed a(2) iff True by blast
  next
    case False
    then show ?thesis using visit_false r iff by (metis settled_empty)
  qed
qed

text \<open>A module with a phi cycle over a constant, and a sum without flags.\<close>

definition no_flags :: inst_flags where
  "no_flags = \<lparr>no_signed_wrap = False, no_unsigned_wrap = False, exact = False\<rparr>"

definition sample_kind :: "value_id \<Rightarrow> value_kind" where
  "sample_kind v = (if v = 0 then ConstInt 1 1 else if v = 1 then Inst (Phi [(0, 0), (1, 2)])
     else if v = 2 then Inst (Select 0 1 0) else if v = 3 then Inst (Binary OpAdd no_flags 0 1)
     else if v = 4 then Inst (Phi [(0, 1), (1, 3)]) else OtherValue)"

definition sample_module :: llvm_module where
  "sample_module = \<lparr>kind_of = sample_kind, ty_of = (\<lambda>_. IntTy 32), name_of = (\<lambda>_. ''x''),
     block_of = (\<lambda>_. 0), function_of = (\<lambda>_. 0), insts_of = (\<lambda>_. [1, 2, 3, 4]), blocks_of = (\<lambda>_. [0]),
     args_of = (\<lambda>_. []), func_name = (\<lambda>_. ''main''), exact_definition = (\<lambda>_. True),
     call_extension = (\<lambda>_. \<lparr>zero_extended = False, sign_extended = False\<rparr>),
     callees_of = (\<lambda>f. if f = 0 then [1] else if f = 1 then [2, 1] else []),
     all_functions = [0, 1, 2], all_values = [0, 1, 2, 3, 4], strip_casts = (\<lambda>v. v),
     loop_for = (\<lambda>_. None), loop_blocks = (\<lambda>_. []), loop_header = (\<lambda>_. 0), loop_parent = (\<lambda>_. None),
     sub_loops = (\<lambda>_. []), loop_latches = (\<lambda>_. []),
     loop_exit_block = (\<lambda>_. None), dominates = (=), source_variables = (\<lambda>_. []), module_globals = []\<rparr>"

lemma sample_kinds: "kind_of sample_module = sample_kind" "all_values sample_module = [0, 1, 2, 3, 4]"
  by (simp_all add: sample_module_def)

lemma sample_closed: "module_closed sample_module"
  by (simp add: module_closed_def sample_kinds canonical_shape_of_def sample_kind_def no_flags_def)

theorem canonical_analysis_correct_witness:
  "has_canonical_signed_representation sample_module 1 \<and>
   (\<nexists>w. (1, w) \<in> (source_edges sample_module)\<^sup>* \<and> bad_value sample_module w) \<and>
   \<not> has_canonical_signed_representation sample_module 4 \<and>
   (\<exists>w. (4, w) \<in> (source_edges sample_module)\<^sup>* \<and> bad_value sample_module w)"
proof -
  have run: "has_canonical_signed_representation sample_module 1"
    "\<not> has_canonical_signed_representation sample_module 4"
    by (simp_all add: has_canonical_signed_representation_def sample_kinds canonical_shape_of_def
        sample_kind_def no_flags_def numeral_eq_Suc)
  have "1 \<in> set (all_values sample_module)" "4 \<in> set (all_values sample_module)"
    by (simp_all add: sample_kinds)
  then show ?thesis using run canonical_analysis_correct [OF sample_closed] by blast
qed

section \<open>The call graph\<close>

definition call_edges :: "llvm_module \<Rightarrow> (function_id \<times> function_id) set" where
  "call_edges m = {(f, g). g \<in> set (callees_of m f)}"

lemma visit_until_found:
  assumes "visit_until True f s xs = Some (True, s')"
  shows "\<exists>x\<in>set xs. \<exists>s s'. f s x = Some (True, s')"
  using assms
  by (induction xs arbitrary: s) (fastforce split: option.splits if_splits)+

lemma visit_calls_sound:
  "visit_calls m t n vis f = Some (True, vis') \<Longrightarrow> (f, t) \<in> (call_edges m)\<^sup>+"
proof (induction n arbitrary: vis f vis')
  case (Suc n)
  let ?step = "\<lambda>vis g. if g = t then Some (True, vis) else visit_calls m t n vis g"
  have "visit_until True ?step (insert f vis) (callees_of m f) = Some (True, vis')"
    using Suc.prems by (simp split: if_splits)
  from visit_until_found [OF this] obtain g s s' where
    g: "g \<in> set (callees_of m f)" "?step s g = Some (True, s')" by blast
  have e: "(f, g) \<in> call_edges m" using g(1) by (simp add: call_edges_def)
  show ?case
  proof (cases "g = t")
    case True
    then show ?thesis using e by blast
  next
    case False
    then have "(g, t) \<in> (call_edges m)\<^sup>+" using g(2) Suc.IH by simp
    then show ?thesis using e by (meson trancl_into_trancl2)
  qed
qed simp

text \<open>
  A search that finds nothing leaves a visited set in which every node added has only visited callees,
  none of them the target, except the nodes still open.
\<close>

definition explored :: "llvm_module \<Rightarrow> function_id \<Rightarrow> function_id set \<Rightarrow> function_id set \<Rightarrow> bool" where
  "explored m t opened vis \<longleftrightarrow> (\<forall>f\<in>vis - opened. set (callees_of m f) \<subseteq> vis - {t})"

lemma visit_until_none:
  assumes "visit_until True f s xs = Some (False, s')" "Q s"
    and "\<And>s x s'. x \<in> set xs \<Longrightarrow> Q s \<Longrightarrow> f s x = Some (False, s') \<Longrightarrow> Q s' \<and> R x s'"
    and "\<And>s x y s'. R x s \<Longrightarrow> y \<in> set xs \<Longrightarrow> Q s \<Longrightarrow> f s y = Some (False, s') \<Longrightarrow> R x s'"
  shows "Q s' \<and> (\<forall>x\<in>set xs. R x s')"
proof -
  have "\<forall>y\<in>D. R y s \<Longrightarrow> set ys \<subseteq> set xs \<Longrightarrow> visit_until True f s ys = Some (False, s') \<Longrightarrow> Q s \<Longrightarrow>
      Q s' \<and> (\<forall>x\<in>D \<union> set ys. R x s')" for D ys s
  proof (induction ys arbitrary: D s)
    case (Cons y ys)
    obtain s1 where s1: "f s y = Some (False, s1)" "visit_until True f s1 ys = Some (False, s')"
      using Cons.prems(3) by (auto split: option.splits if_splits)
    have y: "y \<in> set xs" using Cons.prems(2) by simp
    have "Q s1" "R y s1" using assms(3) [OF y Cons.prems(4) s1(1)] by simp_all
    moreover have "\<forall>x\<in>D. R x s1" using assms(4) [OF _ y Cons.prems(4) s1(1)] Cons.prems(1) by blast
    ultimately have "Q s' \<and> (\<forall>x\<in>insert y D \<union> set ys. R x s')"
      by (intro Cons.IH) (use s1 Cons.prems(2) in auto)
    then show ?case by simp
  qed simp
  from this [of "{}" s xs] assms(1,2) show ?thesis by simp
qed

lemma visit_calls_complete:
  "visit_calls m t n vis f = Some (False, vis') \<Longrightarrow> explored m t opened vis \<Longrightarrow> opened \<subseteq> vis \<Longrightarrow>
     explored m t opened vis' \<and> vis \<subseteq> vis' \<and> f \<in> vis'"
proof (induction n arbitrary: vis f vis' opened)
  case (Suc n)
  show ?case
  proof (cases "f \<in> vis")
    case True
    then show ?thesis using Suc.prems by auto
  next
    case False
    let ?step = "\<lambda>vis g. if g = t then Some (True, vis) else visit_calls m t n vis g"
    let ?Q = "\<lambda>s. explored m t (insert f opened) s \<and> insert f vis \<subseteq> s"
    have run: "visit_until True ?step (insert f vis) (callees_of m f) = Some (False, vis')"
      using Suc.prems False by simp
    have q0: "?Q (insert f vis)" using Suc.prems(2) by (auto simp: explored_def)
    have "?Q vis' \<and> (\<forall>g\<in>set (callees_of m f). g \<in> vis' - {t})"
    proof (rule visit_until_none [where Q = ?Q and R = "\<lambda>g s. g \<in> s - {t}", OF run q0])
      fix s x s' assume s: "x \<in> set (callees_of m f)" "?Q s" "?step s x = Some (False, s')"
      then have "x \<noteq> t" "visit_calls m t n s x = Some (False, s')" by (auto split: if_splits)
      then show "?Q s' \<and> x \<in> s' - {t}"
        using Suc.IH [of s x s' "insert f opened"] s(2) Suc.prems(3) by auto
    next
      fix s x y s' assume s: "x \<in> s - {t}" "y \<in> set (callees_of m f)" "?Q s" "?step s y = Some (False, s')"
      then have "visit_calls m t n s y = Some (False, s')" by (auto split: if_splits)
      then show "x \<in> s' - {t}"
        using Suc.IH [of s y s' "insert f opened"] s Suc.prems(3) by auto
    qed
    then show ?thesis by (auto simp: explored_def)
  qed
qed simp

lemma visit_calls_total:
  "finite V \<Longrightarrow> (\<forall>g\<in>V. set (callees_of m g) \<subseteq> V) \<Longrightarrow> f \<in> V \<Longrightarrow> card (V - vis) < n \<Longrightarrow>
     \<exists>r vis'. visit_calls m t n vis f = Some (r, vis') \<and> vis \<subseteq> vis'"
proof (induction n arbitrary: vis f)
  case (Suc n)
  show ?case
  proof (cases "f \<in> vis")
    case False
    have "V - insert f vis \<subset> V - vis" using Suc.prems(3) False by auto
    then have "card (V - insert f vis) < card (V - vis)"
      using Suc.prems(1) by (simp add: psubset_card_mono)
    then have less: "card (V - insert f vis) < n" using Suc.prems(4) by simp
    let ?step = "\<lambda>vis g. if g = t then Some (True, vis) else visit_calls m t n vis g"
    have "\<exists>r s'. visit_until True ?step (insert f vis) (callees_of m f) = Some (r, s') \<and> insert f vis \<subseteq> s'"
    proof (rule visit_until_total)
      fix s x assume x: "x \<in> set (callees_of m f)" "insert f vis \<subseteq> s"
      have "card (V - s) < n"
        using less x(2) Suc.prems(1) by (meson Diff_mono card_mono finite_Diff le_less_trans order_refl)
      moreover have "x \<in> V" using x(1) Suc.prems(2,3) by blast
      ultimately have "\<exists>r vis'. visit_calls m t n s x = Some (r, vis') \<and> s \<subseteq> vis'"
        using Suc.IH Suc.prems(1,2) by blast
      then show "\<exists>r s'. ?step s x = Some (r, s') \<and> insert f vis \<subseteq> s'" using x(2) by auto
    qed simp
    then obtain r s' where "visit_until True ?step (insert f vis) (callees_of m f) = Some (r, s')"
        "vis \<subseteq> s'" by blast
    then show ?thesis using False by simp
  qed (simp add: exI [of _ False])
qed simp

text \<open>C40: the recursion test ends within the fuel its caller gives and holds exactly for the functions on
  a cycle of the call graph.\<close>

theorem is_recursive_correct:
  assumes "\<forall>g\<in>set (all_functions m). set (callees_of m g) \<subseteq> set (all_functions m)"
    and "f \<in> set (all_functions m)"
  shows "is_recursive m f \<longleftrightarrow> (f, f) \<in> (call_edges m)\<^sup>+"
proof -
  have "card (set (all_functions m) - {}) < length (all_functions m) + 1"
    using card_length [of "all_functions m"] by simp
  then obtain r vis where r: "visit_calls m f (length (all_functions m) + 1) {} f = Some (r, vis)"
    using visit_calls_total [OF finite_set assms] by blast
  have "(f, f) \<notin> (call_edges m)\<^sup>+" if "\<not> r"
  proof
    assume cycle: "(f, f) \<in> (call_edges m)\<^sup>+"
    have r0: "visit_calls m f (length (all_functions m) + 1) {} f = Some (False, vis)"
      using r that by simp
    have "explored m f {} {}" by (simp add: explored_def)
    from visit_calls_complete [OF r0 this] have e: "explored m f {} vis" "f \<in> vis" by simp_all
    have "(f, g) \<in> (call_edges m)\<^sup>+ \<Longrightarrow> g \<in> vis - {f}" for g
      by (induction rule: trancl_induct) (use e in \<open>auto simp: explored_def call_edges_def\<close>)
    then show False using cycle by blast
  qed
  moreover have "(f, f) \<in> (call_edges m)\<^sup>+" if "r"
    using r that visit_calls_sound [of m f "length (all_functions m) + 1" "{}" f vis] by (cases r) auto
  moreover have "is_recursive m f \<longleftrightarrow> r" using r by (simp add: is_recursive_def)
  ultimately show ?thesis by blast
qed

theorem is_recursive_correct_witness:
  "is_recursive sample_module 1 \<and> (1, 1) \<in> (call_edges sample_module)\<^sup>+ \<and>
   \<not> is_recursive sample_module 0 \<and> (0, 0) \<notin> (call_edges sample_module)\<^sup>+"
proof -
  have closed: "\<forall>g\<in>set (all_functions sample_module).
      set (callees_of sample_module g) \<subseteq> set (all_functions sample_module)"
    by (simp add: sample_module_def)
  have "1 \<in> set (all_functions sample_module)" "0 \<in> set (all_functions sample_module)"
    by (simp_all add: sample_module_def)
  moreover have "is_recursive sample_module 1" "\<not> is_recursive sample_module 0"
    by (simp_all add: is_recursive_def sample_module_def numeral_eq_Suc)
  ultimately show ?thesis using is_recursive_correct [OF closed] by blast
qed

end
