(* ===== verification/Exec_State.thy ===== *)
theory Exec_State
  imports Llvm_Module
begin

text \<open>
  The state of a symbolic execution (lib/state.h, lib/state.cpp), the diagnostics of lib/common.h and
  the way operations fail.  An operation is a function of the session that returns a value and the new
  session, or an error: a failed assertion, an exception of the verifier with its kind, another
  exception, a floating-point value, for which the terms of this development have no sort, or the end
  of the fuel of an execution that may not return.
\<close>

section \<open>Diagnostics and errors\<close>


datatype test_result = FEASIBLE | UNFEASIBLE | TESTUNKNOWN

datatype issue_kind = FrontendCommand | FrontendIRParse | UnsupportedSemantics | RecurrenceSolver
  | Z3Unknown | OverApproximation | IncompleteCounterexample | UnknownState

fun issue_string :: "issue_kind \<Rightarrow> string" where
  "issue_string FrontendCommand = ''frontend-command''"
| "issue_string FrontendIRParse = ''frontend-ir-parse''"
| "issue_string UnsupportedSemantics = ''unsupported-semantics''"
| "issue_string RecurrenceSolver = ''recurrence-solver''"
| "issue_string Z3Unknown = ''z3-unknown''"
| "issue_string OverApproximation = ''over-approximation''"
| "issue_string IncompleteCounterexample = ''incomplete-counterexample''"
| "issue_string UnknownState = ''unknown-state''"

datatype exec_error = AssertionFailed | VerifierError issue_kind | RuntimeError | FloatingPoint | NotReturned

type_synonym 'a exec = "session \<Rightarrow> exec_error + ('a \<times> session)"

definition give :: "'a \<Rightarrow> 'a exec" where
  "give x = (\<lambda>s. Inr (x, s))"

definition fail :: "exec_error \<Rightarrow> 'a exec" where
  "fail e = (\<lambda>s. Inl e)"

definition bind_exec :: "'a exec \<Rightarrow> ('a \<Rightarrow> 'b exec) \<Rightarrow> 'b exec" where
  "bind_exec a f = (\<lambda>s. case a s of Inl e \<Rightarrow> Inl e | Inr (x, s') \<Rightarrow> f x s')"

text \<open>A missing value is a failed assertion, unless another error is named.\<close>

definition need :: "exec_error \<Rightarrow> 'a option \<Rightarrow> 'a exec" where
  "need e x = (case x of None \<Rightarrow> fail e | Some y \<Rightarrow> give y)"

definition with_session :: "(session \<Rightarrow> 'a \<times> session) \<Rightarrow> 'a exec" where
  "with_session f = (\<lambda>s. Inr (f s))"

definition ask :: "(session \<Rightarrow> 'a) \<Rightarrow> 'a exec" where
  "ask f = (\<lambda>s. Inr (f s, s))"

fun each :: "('a \<Rightarrow> 'b exec) \<Rightarrow> 'a list \<Rightarrow> 'b list exec" where
  "each f [] = give []"
| "each f (x # xs) = bind_exec (f x) (\<lambda>y. bind_exec (each f xs) (\<lambda>ys. give (y # ys)))"

fun fold_exec :: "('a \<Rightarrow> 'b \<Rightarrow> 'b exec) \<Rightarrow> 'a list \<Rightarrow> 'b \<Rightarrow> 'b exec" where
  "fold_exec f [] acc = give acc"
| "fold_exec f (x # xs) acc = bind_exec (f x acc) (fold_exec f xs)"

lemma bind_exec_Inr [exec_simps]:
  "bind_exec a f s = Inr r \<longleftrightarrow> (\<exists>x s'. a s = Inr (x, s') \<and> f x s' = Inr r)"
  by (auto simp: bind_exec_def split: sum.splits)

lemma exec_results [exec_simps]:
  "give x s = Inr (y, s') \<longleftrightarrow> y = x \<and> s' = s"
  "fail e s = Inr r \<longleftrightarrow> False"
  "need e v s = Inr (y, s') \<longleftrightarrow> v = Some y \<and> s' = s"
  "with_session f s = Inr (y, s') \<longleftrightarrow> f s = (y, s')"
  "ask g s = Inr (y, s') \<longleftrightarrow> y = g s \<and> s' = s"
  by (auto simp: give_def fail_def need_def with_session_def ask_def split: option.splits)

lemma bind_exec_simps [exec_simps]:
  "bind_exec (give x) f s = f x s"
  "bind_exec (ask g) f s = f (g s) s"
  "bind_exec (fail e) f s = Inl e"
  "bind_exec (need e (Some x)) f s = f x s"
  "bind_exec (with_session h) f s = f (fst (h s)) (snd (h s))"
  by (simp_all add: bind_exec_def give_def ask_def fail_def need_def with_session_def split: prod.splits)

section \<open>Path expressions of loops\<close>

text \<open>A segment of the exact prefix: an explicit word, or a root raised to a symbolic power.\<close>

record prefix_segment =
  explicit_word :: path_word
  symbolic_power :: "(path_word \<times> z3expr) option"

definition explicit_segment :: "path_word \<Rightarrow> prefix_segment" where
  "explicit_segment w = \<lparr>explicit_word = w, symbolic_power = None\<rparr>"

definition symbolic_segment :: "path_word \<Rightarrow> z3expr \<Rightarrow> prefix_segment" where
  "symbolic_segment root exponent = \<lparr>explicit_word = [], symbolic_power = Some (root, exponent)\<rparr>"

record loop_path_state =
  lp_prefix :: "prefix_segment list"
  lp_candidates :: "path_schema list"
  decision_cursor :: nat
  cursor_initialized :: bool

definition new_loop_path :: loop_path_state where
  "new_loop_path = \<lparr>lp_prefix = [], lp_candidates = [], decision_cursor = 0, cursor_initialized = False\<rparr>"

definition append_symbol :: "path_symbol \<Rightarrow> loop_path_state \<Rightarrow> loop_path_state" where
  "append_symbol symbol h =
     (if lp_prefix h = [] \<or> symbolic_power (last (lp_prefix h)) \<noteq> None
      then h\<lparr>lp_prefix := lp_prefix h @ [explicit_segment [symbol]]\<rparr>
      else h\<lparr>lp_prefix := butlast (lp_prefix h) @
             [(last (lp_prefix h))\<lparr>explicit_word := explicit_word (last (lp_prefix h)) @ [symbol]\<rparr>]\<rparr>)"

definition append_symbolic_power :: "path_word \<Rightarrow> z3expr \<Rightarrow> loop_path_state \<Rightarrow> loop_path_state" where
  "append_symbolic_power root exponent h =
     h\<lparr>lp_prefix := lp_prefix h @ [symbolic_segment root exponent]\<rparr>"

definition concrete_frontier :: "loop_path_state \<Rightarrow> path_word" where
  "concrete_frontier h =
     (if lp_prefix h = [] \<or> symbolic_power (last (lp_prefix h)) \<noteq> None then []
      else explicit_word (last (lp_prefix h)))"

section \<open>States\<close>

datatype status = RUNNING | TERMINATED | VERIFYING | TESTING | REACH_ERROR | UNKNOWN | FAILED

text \<open>A nondeterministic call: one value, or a function or a sequence of values with their number; a
  sequence is a lambda term, its bound index and its body.\<close>

record nondet_call =
  nd_call :: value_id
  nd_value :: "z3expr option"
  nd_values :: "(string \<times> z3sort) option"
  nd_count :: "z3expr option"
  nd_sequence :: "(string \<times> z3expr) option"

definition nondet_single :: "value_id \<Rightarrow> z3expr \<Rightarrow> nondet_call" where
  "nondet_single i v = \<lparr>nd_call = i, nd_value = Some v, nd_values = None, nd_count = None, nd_sequence = None\<rparr>"

definition nondet_function :: "value_id \<Rightarrow> string \<times> z3sort \<Rightarrow> z3expr \<Rightarrow> nondet_call" where
  "nondet_function i f n = \<lparr>nd_call = i, nd_value = None, nd_values = Some f, nd_count = Some n, nd_sequence = None\<rparr>"

definition nondet_sequence :: "value_id \<Rightarrow> string \<times> z3expr \<Rightarrow> z3expr \<Rightarrow> nondet_call" where
  "nondet_sequence i q n = \<lparr>nd_call = i, nd_value = None, nd_values = None, nd_count = Some n, nd_sequence = Some q\<rparr>"

record loop_certificate =
  cert_loop :: loop_id
  cert_variables :: "(value_id \<times> string \<times> string \<times> z3expr) list"

record function_certificate =
  cert_function :: function_id
  cert_parameters :: "(string \<times> z3expr) list"
  cert_result :: z3expr

text \<open>The dynamic class of a state; a loop state has the condition inside the loop, the loop that is
  summarised and the counters of unknown calls.\<close>

datatype state_class =
    PlainState
  | LoopState expression "loop_id option" "value_id \<rightharpoonup> z3expr"
  | RecState

record exec_state =
  path_condition :: expression
  pc :: "value_id option"
  prev_pc :: "value_id option"
  mem :: memory
  trace :: "block_id list"
  status_of :: status
  verification_condition :: expression
  summary_invariants :: "expression list"
  is_over_approx :: bool
  nondet_calls :: "nondet_call list"
  counterexample_complete :: bool
  loop_certificates :: "loop_certificate list"
  function_certificates :: "function_certificate list"
  path_decisions :: "path_decision list"
  loop_path_expressions :: "loop_id \<rightharpoonup> loop_path_state"
  class_of :: state_class

definition new_state ::
    "z3_api \<Rightarrow> value_id option \<Rightarrow> value_id option \<Rightarrow> memory \<Rightarrow> expression \<Rightarrow> block_id list \<Rightarrow> exec_state" where
  "new_state z pc0 prev m cond tr =
     \<lparr>path_condition = cond, pc = pc0, prev_pc = prev, mem = m, trace = tr, status_of = RUNNING,
      verification_condition = expression_of z z_true, summary_invariants = [], is_over_approx = False,
      nondet_calls = [], counterexample_complete = True, loop_certificates = [],
      function_certificates = [], path_decisions = [], loop_path_expressions = Map.empty,
      class_of = PlainState\<rparr>"

text \<open>The copy constructors: the memory is copied, and a copied loop state has no counters.\<close>

definition copy_state :: "exec_state \<Rightarrow> exec_state" where
  "copy_state st = st\<lparr>mem := copy_memory (mem st), class_of := PlainState\<rparr>"

definition as_loop_state :: "z3_api \<Rightarrow> exec_state \<Rightarrow> exec_state" where
  "as_loop_state z st =
     st\<lparr>mem := copy_memory (mem st), class_of := LoopState (expression_of z z_true) None Map.empty\<rparr>"

definition as_rec_state :: "exec_state \<Rightarrow> exec_state" where
  "as_rec_state st = st\<lparr>mem := copy_memory (mem st), class_of := RecState\<rparr>"

definition copy_loop_state :: "exec_state \<Rightarrow> exec_state" where
  "copy_loop_state st =
     st\<lparr>mem := copy_memory (mem st),
        class_of := (case class_of st of LoopState c l _ \<Rightarrow> LoopState c l Map.empty | k \<Rightarrow> k)\<rparr>"

definition is_summarizing :: "exec_state \<Rightarrow> bool" where
  "is_summarizing st = (case class_of st of PlainState \<Rightarrow> False | _ \<Rightarrow> True)"

definition clone_state_preserving_type :: "exec_state \<Rightarrow> exec_state" where
  "clone_state_preserving_type st =
     (case class_of st of
        RecState \<Rightarrow> as_rec_state st
      | LoopState _ _ _ \<Rightarrow> copy_loop_state st
      | PlainState \<Rightarrow> copy_state st)"

section \<open>Operations\<close>

definition normalize_bool :: "z3expr \<Rightarrow> z3expr" where
  "normalize_bool e = (if is_int e then z_ne e (z_int 0) else e)"

definition append_condition :: "z3_api \<Rightarrow> expression \<Rightarrow> exec_state \<Rightarrow> exec_state option" where
  "append_condition z c st =
     (case (as_expr z (path_condition st), as_expr z c, defined_term z c) of
        (Some current, Some appended, Some d) \<Rightarrow>
          Some (st\<lparr>path_condition := expression_cases [z_true]
            [z_and (z_and (normalize_bool current) d) (normalize_bool appended)]\<rparr>)
      | _ \<Rightarrow> None)"

text \<open>In a loop state, a branch that stays in the loop and a select also extend the condition inside
  the loop; any other instruction is a failed assertion.\<close>

definition append_path_condition ::
    "z3_api \<Rightarrow> llvm_module \<Rightarrow> expression \<Rightarrow> exec_state \<Rightarrow> exec_state option" where
  "append_path_condition z m c st =
     (case append_condition z c st of
        None \<Rightarrow> None
      | Some st' \<Rightarrow>
          (case class_of st of
             LoopState inner l counters \<Rightarrow>
               (case (pc st, as_expr z c) of
                  (Some i, Some e) \<Rightarrow>
                    (case loop_for m (block_of m i) of
                       None \<Rightarrow> None
                     | Some loop \<Rightarrow>
                         let inner' = e_and z inner (expression_of z (normalize_bool e))
                         in case kind_of m i of
                              Inst (CondBr _ t f) \<Rightarrow>
                                Some (if loop_contains m loop t \<and> loop_contains m loop f
                                      then st'\<lparr>class_of := LoopState inner' l counters\<rparr> else st')
                            | Inst (Br _) \<Rightarrow> Some st'
                            | Inst (Select _ _ _) \<Rightarrow> Some (st'\<lparr>class_of := LoopState inner' l counters\<rparr>)
                            | _ \<Rightarrow> None)
                | _ \<Rightarrow> None)
           | _ \<Rightarrow> Some st'))"

definition undef_name :: "nat \<Rightarrow> string" where
  "undef_name n = ''ari_undef_'' @ nat_to_string n"

definition evaluate :: "z3_api \<Rightarrow> llvm_module \<Rightarrow> exec_state \<Rightarrow> value_id \<Rightarrow> bool \<Rightarrow> expression exec" where
  "evaluate z m st v is_signed =
     (case kind_of m v of
        Undef \<Rightarrow>
          bind_exec (with_session (next_call_value_id v)) (\<lambda>n.
            case ty_of m v of
              IntTy w \<Rightarrow> give (expression_of z (z_const (undef_name n) (if w = 1 then BoolSort else IntSort)))
            | FloatTy \<Rightarrow> fail FloatingPoint
            | _ \<Rightarrow> fail AssertionFailed)
      | ConstInt sval uval \<Rightarrow>
          (if ty_of m v = IntTy 1
           then give (expression_of z (if sval \<noteq> 0 then z_true else z_false))
           else give (expression_of z (z_int (if is_signed then sval else uval))))
      | _ \<Rightarrow>
          bind_exec (need AssertionFailed (get_object v (mem st))) (\<lambda>obj.
            need AssertionFailed (read_object z obj)))"

definition step_pc :: "llvm_module \<Rightarrow> value_id option \<Rightarrow> exec_state \<Rightarrow> exec_state" where
  "step_pc m next st =
     st\<lparr>prev_pc := pc st,
        pc := (case next of Some i \<Rightarrow> Some i | None \<Rightarrow> Option.bind (pc st) (get_next_instruction m))\<rparr>"

definition store_temp :: "llvm_module \<Rightarrow> value_id \<Rightarrow> expression \<Rightarrow> exec_state \<Rightarrow> exec_state exec" where
  "store_temp m v e st = (\<lambda>s. case put_temp s (name_of m) v e (mem st) of
     None \<Rightarrow> Inl AssertionFailed
   | Some mem' \<Rightarrow> Inr (st\<lparr>mem := mem'\<rparr>, s))"

definition incoming_value :: "llvm_module \<Rightarrow> value_id \<Rightarrow> block_id \<Rightarrow> value_id option" where
  "incoming_value m phi b = (case kind_of m phi of Inst (Phi inc) \<Rightarrow> map_of inc b | _ \<Rightarrow> None)"

text \<open>All incoming values are evaluated before any node is assigned.\<close>

definition execute_phi_bundle :: "z3_api \<Rightarrow> llvm_module \<Rightarrow> exec_state \<Rightarrow> exec_state exec" where
  "execute_phi_bundle z m st =
     (case pc st of
        None \<Rightarrow> fail AssertionFailed
      | Some i \<Rightarrow>
          let phis = phis_of m (block_of m i)
          in if trace st = [] \<or> phis = [] \<or> hd phis \<noteq> i then fail AssertionFailed
             else bind_exec (each (\<lambda>phi.
                    bind_exec (need AssertionFailed (incoming_value m phi (last (trace st)))) (\<lambda>v.
                      bind_exec (evaluate z m st v True) (\<lambda>e. give (phi, e)))) phis) (\<lambda>incoming.
                  bind_exec (fold_exec (\<lambda>(phi, e). store_temp m phi e) incoming st) (\<lambda>st'.
                    bind_exec (need AssertionFailed (first_non_phi_or_dbg m (block_of m i))) (\<lambda>next.
                      give (step_pc m (Some next) st')))))"

definition unsigned_inputs :: "string list" where
  "unsigned_inputs = [''__VERIFIER_nondet_uchar'', ''__VERIFIER_nondet_ushort'',
     ''__VERIFIER_nondet_uint'', ''__VERIFIER_nondet_ulong'', ''__VERIFIER_nondet_ulonglong'']"

definition signed_inputs :: "string list" where
  "signed_inputs = [''__VERIFIER_nondet_schar'', ''__VERIFIER_nondet_short'',
     ''__VERIFIER_nondet_int'', ''__VERIFIER_nondet_long'', ''__VERIFIER_nondet_longlong'']"

text \<open>The domain of an input by its name; no domain is known for other functions.\<close>

definition input_domain :: "z3_api \<Rightarrow> string \<Rightarrow> ret_extension \<Rightarrow> nat \<Rightarrow> z3expr \<Rightarrow> z3expr option" where
  "input_domain z name ext width v =
     (if name \<in> set unsigned_inputs then Some (in_unsigned_range z v width)
      else if name \<in> set signed_inputs then Some (in_signed_range z v width)
      else if name = ''__VERIFIER_nondet_bool'' then Some (z_and (z_ge v (z_int 0)) (z_le v (z_int 1)))
      else if name = ''__VERIFIER_nondet_char''
      then Some (if zero_extended ext \<and> \<not> sign_extended ext then in_unsigned_range z v width
                 else if sign_extended ext \<and> \<not> zero_extended ext then in_signed_range z v width
                 else z_and (z_ge v (signed_min z width)) (z_lt v (power_of_two z width)))
      else None)"

definition constrain_nondet_input ::
    "z3_api \<Rightarrow> llvm_module \<Rightarrow> value_id \<Rightarrow> expression \<Rightarrow> exec_state \<Rightarrow> exec_state exec" where
  "constrain_nondet_input z m call v st =
     bind_exec (ask uses_integer_relaxation) (\<lambda>relaxed.
       case (ty_of m call, kind_of m call) of
         (IntTy w, Inst (Call (Some f) _)) \<Rightarrow>
           if \<not> relaxed \<or> w = 1 \<or> input_domain z (func_name m f) (call_extension m call) w (z_int 0) = None
           then give st
           else bind_exec (need AssertionFailed (as_expr z v)) (\<lambda>e.
                  bind_exec (need AssertionFailed (input_domain z (func_name m f) (call_extension m call) w e)) (\<lambda>dom.
                    need AssertionFailed (append_condition z (expression_of z (z_simplify z dom)) st)))
       | _ \<Rightarrow> give st)"

text \<open>The model of the path condition.  The assertion on the answer lets an unknown answer through.\<close>

definition get_model :: "z3_api \<Rightarrow> exec_state \<Rightarrow> interp exec" where
  "get_model z st =
     bind_exec (need AssertionFailed (as_expr z (path_condition st))) (\<lambda>c.
       if z_check z [c] = Unsat then fail AssertionFailed else give (z_model z [c]))"

text \<open>The value of a term in a model, as a literal.\<close>

definition model_eval :: "interp \<Rightarrow> z3expr \<Rightarrow> z3expr" where
  "model_eval M e =
     (if is_bool e then (if holds M e then z_true else z_false) else z_int (ival M e))"

definition is_concrete :: "z3_api \<Rightarrow> exec_state \<Rightarrow> expression \<Rightarrow> expression \<Rightarrow> bool exec" where
  "is_concrete z st e concrete =
     bind_exec (need AssertionFailed (as_expr z (path_condition st))) (\<lambda>c.
       bind_exec (need AssertionFailed (as_expr z e)) (\<lambda>t.
         bind_exec (need AssertionFailed (as_expr z concrete)) (\<lambda>k.
           give (z_check z [c, z_ne k t] = Unsat))))"

end
