(* ===== verification/State_Correctness.thy ===== *)
theory State_Correctness
  imports Exec_State Memory_Correctness Llvm_Analysis
begin

text \<open>
  Correctness of the state operations: appending to the path condition is conjunction, phi nodes are
  assigned in parallel, the domains of inputs are the machine ranges, the exact prefix of a loop grows
  by one symbol at a time.
\<close>

section \<open>Running operations in sequence\<close>

lemma each_results:
  "each f xs s = Inr (ys, s') \<Longrightarrow> list_all2 (\<lambda>x y. \<exists>s1 s2. f x s1 = Inr (y, s2)) xs ys"
  by (induction xs arbitrary: s ys) (auto simp: exec_simps)

lemma fold_exec_append:
  "fold_exec f (xs @ ys) acc = bind_exec (fold_exec f xs acc) (fold_exec f ys)"
  by (induction xs arbitrary: acc) (auto simp: bind_exec_def give_def split: sum.splits)

section \<open>Path conditions\<close>

lemma holds_normalize_bool:
  "holds I (normalize_bool e) \<longleftrightarrow> (if is_int e then ival I e \<noteq> 0 else holds I e)"
  by (simp add: normalize_bool_def holds_ne eval_int ival_arith)

lemma as_expr_single [simp]: "as_expr z (expression_cases [c] [e]) = Some e"
  by (simp add: as_expr_def expression_cases_def piecewise2ite_def)

lemma append_condition_eq:
  assumes "append_condition z c st = Some st'"
  shows "\<exists>p e d. as_expr z (path_condition st) = Some p \<and> as_expr z c = Some e \<and> defined_term z c = Some d \<and>
    as_expr z (path_condition st') = Some (z_and (z_and (normalize_bool p) d) (normalize_bool e)) \<and>
    st' = st\<lparr>path_condition := path_condition st'\<rparr>"
  using assms by (auto simp: append_condition_def split: option.splits)

text \<open>Appending a condition makes the path condition hold exactly where it held before, the condition
  is defined, and the condition is true, an integer condition being true when it is not zero; nothing
  else of the state changes.\<close>

theorem append_condition_correct:
  assumes "z3_ok z" "append_condition z c st = Some st'"
    and "denotes I c v d" "expr_sort c s" "\<forall>e\<in>set (definitions c). is_bool e"
    and "denotes I (path_condition st) (VBool p) q" "expr_sort (path_condition st) BoolSort"
  shows "denotes I (path_condition st') (VBool (p \<and> d \<and> (if s = IntSort then v \<noteq> VInt 0 else bool_of v))) True \<and>
    expr_sort (path_condition st') BoolSort \<and> st' = st\<lparr>path_condition := path_condition st'\<rparr>"
proof -
  obtain pe e de where r: "as_expr z (path_condition st) = Some pe" "as_expr z c = Some e"
      "defined_term z c = Some de"
      "path_condition st' = expression_cases [z_true] [z_and (z_and (normalize_bool pe) de) (normalize_bool e)]"
      "st' = st\<lparr>path_condition := path_condition st'\<rparr>"
    using assms(2) by (auto simp: append_condition_def split: option.splits)
  have pe: "eval I pe = VBool p" "sort_of pe = BoolSort"
    using as_expr_value [OF assms(1,6,7)] r(1) by auto
  have e: "eval I e = v" "sort_of e = s" using as_expr_value [OF assms(1,3,4)] r(2) by auto
  have de: "holds I de = d" using defined_term_holds [OF assms(1,3,5)] r(3) by auto
  have h: "holds I pe = p" "holds I e = bool_of v" "is_int e \<Longrightarrow> v = VInt (ival I e)"
    using pe e eval_int [of e I] by (simp_all add: holds_def)
  have "\<not> is_int pe" using pe by (simp add: is_int_def)
  then have "holds I (normalize_bool pe) = p" using h by (simp add: holds_normalize_bool)
  moreover have "holds I (normalize_bool e) = (if s = IntSort then v \<noteq> VInt 0 else bool_of v)"
    using e(2) h by (auto simp: holds_normalize_bool is_int_def)
  ultimately have "holds I (z_and (z_and (normalize_bool pe) de) (normalize_bool e)) =
      (p \<and> d \<and> (if s = IntSort then v \<noteq> VInt 0 else bool_of v))"
    using de by (simp add: holds_connectives)
  then have "denotes I (path_condition st') (VBool (p \<and> d \<and> (if s = IntSort then v \<noteq> VInt 0 else bool_of v))) True"
    unfolding r(4) by (simp add: denotes_def expr_wf_def expression_cases_def holds_not_false eval_bool
        del: eval.simps)
  moreover have "expr_sort (path_condition st') BoolSort"
    by (simp add: r(4) expr_sort_def expression_cases_def)
  ultimately show ?thesis using r(5) by blast
qed

definition sample_state :: exec_state where
  "sample_state = new_state closed_z3 (Some 0) None (memory_push closed_z3 None new_memory)
     (expression_cases [z_true] [z_true]) [0]"

theorem append_condition_correct_witness:
  "\<exists>st'. append_condition closed_z3 (single_case (z_int 3)) sample_state = Some st' \<and>
     denotes zero_interp (path_condition st') (VBool True) True"
proof -
  have "\<exists>st'. append_condition closed_z3 (single_case (z_int 3)) sample_state = Some st'"
    by (simp add: append_condition_def sample_state_def new_state_def)
      (simp add: as_expr_def defined_term_def piecewise2ite_def single_case_def)
  then obtain st' where st': "append_condition closed_z3 (single_case (z_int 3)) sample_state = Some st'"
    by blast
  have p: "denotes zero_interp (path_condition sample_state) (VBool True) True"
    "expr_sort (path_condition sample_state) BoolSort"
    by (simp_all add: denotes_def expr_sort_def expr_wf_def sample_state_def new_state_def expression_cases_def
        holds_not_false)
  have s: "expr_sort (single_case (z_int 3)) IntSort" "\<forall>e\<in>set (definitions (single_case (z_int 3))). is_bool e"
    by (simp_all add: expr_sort_def single_case_def)
  have "denotes zero_interp (single_case (z_int 3)) (VInt 3) True"
    using denotes_single_case [of zero_interp "z_int 3"] by simp
  from append_condition_correct [OF closed_z3_ok st' this s p] st' show ?thesis by auto
qed


section \<open>Phi nodes\<close>

lemma store_temp_object:
  assumes "store_temp m v e st s = Inr (st', s')"
  shows "map_option obj_value (get_object v (mem st')) = Some e"
    and "w \<noteq> v \<Longrightarrow> get_object w (mem st') = get_object w (mem st)"
    and "\<exists>x. st' = st\<lparr>mem := x\<rparr>" "s' = s"
proof -
  obtain x where x: "put_temp s (name_of m) v e (mem st) = Some x" "st' = st\<lparr>mem := x\<rparr>" "s' = s"
    using assms by (auto simp: store_temp_def split: option.splits)
  show "map_option obj_value (get_object v (mem st')) = Some e"
    using get_object_put_temp(1) [OF x(1)] x(2) by simp
  show "w \<noteq> v \<Longrightarrow> get_object w (mem st') = get_object w (mem st)"
    using get_object_put_temp(2) [OF x(1)] x(2) by simp
  show "\<exists>x. st' = st\<lparr>mem := x\<rparr>" "s' = s" using x by auto
qed

lemma fold_store_other:
  "fold_exec (\<lambda>(phi, e). store_temp m phi e) xs st s = Inr (st', s') \<Longrightarrow> w \<notin> fst ` set xs \<Longrightarrow>
     get_object w (mem st') = get_object w (mem st) \<and> (\<exists>x. st' = st\<lparr>mem := x\<rparr>)"
proof (induction xs arbitrary: st s)
  case (Cons x xs)
  obtain v e where x: "x = (v, e)" by force
  then obtain st1 s1 where r: "store_temp m v e st s = Inr (st1, s1)"
      "fold_exec (\<lambda>(phi, e). store_temp m phi e) xs st1 s1 = Inr (st', s')"
    using Cons.prems(1) by (auto simp: exec_simps)
  have 1: "get_object w (mem st') = get_object w (mem st1)" "\<exists>x. st' = st1\<lparr>mem := x\<rparr>"
    using Cons.IH [OF r(2)] Cons.prems(2) by simp_all
  have 2: "get_object w (mem st1) = get_object w (mem st)" "\<exists>x. st1 = st\<lparr>mem := x\<rparr>"
    using store_temp_object(2,3) [OF r(1)] Cons.prems(2) x by simp_all
  then show ?case using 1 by auto
next
  case Nil
  have "st = st\<lparr>mem := mem st\<rparr>" by simp
  then have "\<exists>x. st = st\<lparr>mem := x\<rparr>" by (rule exI)
  moreover have "st' = st" using Nil by (simp add: exec_simps)
  ultimately show ?case by simp
qed

lemma fold_store_value:
  "fold_exec (\<lambda>(phi, e). store_temp m phi e) xs st s = Inr (st', s') \<Longrightarrow> distinct (map fst xs) \<Longrightarrow>
     (v, e) \<in> set xs \<Longrightarrow> map_option obj_value (get_object v (mem st')) = Some e"
proof (induction xs arbitrary: st s)
  case (Cons x xs)
  obtain w a where x: "x = (w, a)" by force
  then obtain st1 s1 where r: "store_temp m w a st s = Inr (st1, s1)"
      "fold_exec (\<lambda>(phi, e). store_temp m phi e) xs st1 s1 = Inr (st', s')"
    using Cons.prems(1) by (auto simp: exec_simps)
  show ?case
  proof (cases "(v, e) \<in> set xs")
    case True
    then show ?thesis using Cons.IH [OF r(2)] Cons.prems(2) by simp
  next
    case False
    then have "v = w" "e = a" "v \<notin> fst ` set xs" using Cons.prems x by auto
    then show ?thesis using fold_store_other [OF r(2)] store_temp_object(1) [OF r(1)] by simp
  qed
qed simp

text \<open>C30: at the entry of a block all its phi nodes take, at the same time, the values their incoming
  values have in the state before the bundle; every other value of the frame is unchanged.\<close>

theorem phi_bundle_parallel:
  assumes "execute_phi_bundle z m st s = Inr (st', s')" "pc st = Some i"
    and "distinct (insts_of m (block_of m i))"
  shows "(\<forall>phi\<in>set (phis_of m (block_of m i)).
      \<exists>v e s1 s2. incoming_value m phi (last (trace st)) = Some v \<and>
        evaluate z m st v True s1 = Inr (e, s2) \<and>
        map_option obj_value (get_object phi (mem st')) = Some e) \<and>
    (\<forall>w. w \<notin> set (phis_of m (block_of m i)) \<longrightarrow> get_object w (mem st') = get_object w (mem st))"
proof -
  let ?phis = "phis_of m (block_of m i)"
  let ?rhs = "\<lambda>phi. bind_exec (need AssertionFailed (incoming_value m phi (last (trace st))))
    (\<lambda>v. bind_exec (evaluate z m st v True) (\<lambda>e. give (phi, e)))"
  obtain inc s1 st1 s2 nx where r: "each ?rhs ?phis s = Inr (inc, s1)"
      "fold_exec (\<lambda>(phi, e). store_temp m phi e) inc st s1 = Inr (st1, s2)" "st' = step_pc m (Some nx) st1"
    using assms(1) unfolding execute_phi_bundle_def assms(2) Let_def
    by (auto simp: exec_simps split: if_splits)
  have inc: "list_all2 (\<lambda>phi ie. fst ie = phi \<and> (\<exists>v s1 s2. incoming_value m phi (last (trace st)) = Some v \<and>
      evaluate z m st v True s1 = Inr (snd ie, s2))) ?phis inc"
    using each_results [OF r(1)] by (rule list_all2_mono) (auto simp: exec_simps, blast)
  then have fsts: "map fst inc = ?phis"
    by (auto simp: list_all2_conv_all_nth intro!: nth_equalityI)
  have dist: "distinct ?phis"
    using assms(3) unfolding phis_of_def by (metis distinct_append takeWhile_dropWhile_id)
  have mem: "mem st' = mem st1" by (simp add: r(3) step_pc_def)
  have "\<exists>v e s1 s2. incoming_value m phi (last (trace st)) = Some v \<and> evaluate z m st v True s1 = Inr (e, s2) \<and>
      map_option obj_value (get_object phi (mem st')) = Some e" if phi: "phi \<in> set ?phis" for phi
  proof -
    obtain k where k: "k < length inc" "fst (inc ! k) = phi"
      using phi unfolding fsts [symmetric] by (auto simp: in_set_conv_nth)
    then have "map_option obj_value (get_object phi (mem st')) = Some (snd (inc ! k))"
      unfolding mem using fold_store_value [OF r(2)] dist fsts nth_mem [OF k(1)]
      by (metis prod.collapse)
    then show ?thesis using list_all2_nthD2 [OF inc k(1)] k(2) by auto
  qed
  moreover have "get_object w (mem st') = get_object w (mem st)" if "w \<notin> set ?phis" for w
    using fold_store_other [OF r(2)] that unfolding fsts [symmetric] mem by simp
  ultimately show ?thesis by blast
qed


text \<open>Two phi nodes that swap the values of two earlier temporaries.\<close>

definition swap_module :: llvm_module where
  "swap_module = sample_module\<lparr>
     kind_of := (\<lambda>v. if v = 4 then Inst (Phi [(9, 6)]) else if v = 6 then Inst (Phi [(9, 4)])
       else Inst (Ret None)),
     insts_of := (\<lambda>_. [4, 6, 8])\<rparr>"

definition number_temp :: "value_id \<Rightarrow> int \<Rightarrow> stack_frame \<Rightarrow> stack_frame" where
  "number_temp v n = frame_put_temp new_session (\<lambda>_. ''x'') v (single_case (z_int n))"

definition swap_state :: exec_state where
  "swap_state = sample_state\<lparr>pc := Some 4, trace := [9],
     mem := new_memory\<lparr>m_stack := \<lparr>frames = [number_temp 4 5 (number_temp 6 7 fresh_frame)],
       stack_objects = [], value_counter = Map.empty\<rparr>\<rparr>\<rparr>"

lemma swap_objects:
  "get_object 4 (mem swap_state) = Some (new_object new_session 4
     \<lparr>addr_loc = STACK, addr_base = single_case (z_int 5), addr_offset = []\<rparr> (single_case (z_int 5)) None [] [] ''x'')"
  "get_object 6 (mem swap_state) = Some (new_object new_session 6
     \<lparr>addr_loc = STACK, addr_base = single_case (z_int 7), addr_offset = []\<rparr> (single_case (z_int 7)) None [] [] ''x'')"
  by (simp_all add: swap_state_def get_object_def stack_get_object_def number_temp_def frame_put_temp_def)

lemma swap_evaluate:
  "evaluate closed_z3 swap_module swap_state 4 True s = Inr (single_case (z_int 5), s)"
  "evaluate closed_z3 swap_module swap_state 6 True s = Inr (single_case (z_int 7), s)"
  by (simp_all add: evaluate_def swap_module_def swap_objects bind_exec_def need_def give_def
      read_object_def read_at_def new_object_def subs_def single_case_def closed_z3_def)

theorem phi_bundle_parallel_witness:
  "\<exists>st' s'. execute_phi_bundle closed_z3 swap_module swap_state new_session = Inr (st', s') \<and>
     map_option obj_value (get_object 4 (mem st')) = Some (single_case (z_int 7)) \<and>
     map_option obj_value (get_object 6 (mem st')) = Some (single_case (z_int 5))"
proof -
  have m: "phis_of swap_module 0 = [4, 6]" "insts_of swap_module 0 = [4, 6, 8]" "pc swap_state = Some 4"
    "incoming_value swap_module 4 9 = Some 6"
    "incoming_value swap_module 6 9 = Some 4" "trace swap_state = [9]"
    "block_of swap_module 4 = 0" "first_non_phi_or_dbg swap_module 0 = Some 8"
    by (simp_all add: phis_of_def is_phi_def is_dbg_def swap_module_def sample_module_def swap_state_def
        incoming_value_def first_non_phi_or_dbg_def)
  have put: "\<exists>x. store_temp swap_module v e st s = Inr (st\<lparr>mem := x\<rparr>, s) \<and> frames (m_stack x) \<noteq> []"
    if "frames (m_stack (mem st)) \<noteq> []" for v e st s
    using that by (cases "frames (m_stack (mem st))") (auto simp: store_temp_def put_temp_def on_top_def)
  have fr: "frames (m_stack (mem swap_state)) \<noteq> []" by (simp add: swap_state_def)
  obtain x1 where x1: "store_temp swap_module 4 (single_case (z_int 7)) swap_state new_session =
      Inr (swap_state\<lparr>mem := x1\<rparr>, new_session)" "frames (m_stack x1) \<noteq> []" using put [OF fr] by blast
  obtain x2 where x2: "store_temp swap_module 6 (single_case (z_int 5)) (swap_state\<lparr>mem := x1\<rparr>) new_session =
      Inr (swap_state\<lparr>mem := x1, mem := x2\<rparr>, new_session)"
  proof -
    have "frames (m_stack (mem (swap_state\<lparr>mem := x1\<rparr>))) \<noteq> []" using x1(2) by simp
    from put [OF this] that show ?thesis by blast
  qed
  have "\<exists>st' s'. execute_phi_bundle closed_z3 swap_module swap_state new_session = Inr (st', s')"
    unfolding execute_phi_bundle_def m(3) Let_def option.case m(7)
    by (simp add: m swap_evaluate bind_exec_def need_def give_def x1(1) x2 del: exec_state.update_convs)
  then obtain st' s' where r: "execute_phi_bundle closed_z3 swap_module swap_state new_session = Inr (st', s')"
    by blast
  have p: "(\<forall>phi\<in>{4, 6}. \<exists>v e s1 s2. incoming_value swap_module phi 9 = Some v \<and>
      evaluate closed_z3 swap_module swap_state v True s1 = Inr (e, s2) \<and>
      map_option obj_value (get_object phi (mem st')) = Some e)"
    using phi_bundle_parallel [OF r m(3)] by (simp add: m)
  have "incoming_value swap_module 4 9 = Some 6" "incoming_value swap_module 6 9 = Some 4"
    using m(4,5) .
  then show ?thesis using r p by (auto simp: swap_evaluate)
qed

section \<open>Path prefixes\<close>

definition explicit_prefix :: "loop_path_state \<Rightarrow> path_word" where
  "explicit_prefix h = concat (map explicit_word (lp_prefix h))"

lemma append_symbol_prefix:
  "explicit_prefix (append_symbol x h) = explicit_prefix h @ [x]"
  "concrete_frontier (append_symbol x h) = concrete_frontier h @ [x]"
proof -
  show "explicit_prefix (append_symbol x h) = explicit_prefix h @ [x]"
    by (cases "lp_prefix h" rule: rev_cases)
      (simp_all add: explicit_prefix_def append_symbol_def explicit_segment_def)
  show "concrete_frontier (append_symbol x h) = concrete_frontier h @ [x]"
    by (auto simp: concrete_frontier_def append_symbol_def explicit_segment_def)
qed

lemma append_power_prefix:
  "concrete_frontier (append_symbolic_power r e h) = []"
  "explicit_prefix (append_symbolic_power r e h) = explicit_prefix h"
  by (simp_all add: concrete_frontier_def explicit_prefix_def append_symbolic_power_def symbolic_segment_def)


section \<open>Inputs\<close>

text \<open>The range a recognised input has in the machine.\<close>

definition input_range :: "string \<Rightarrow> ret_extension \<Rightarrow> nat \<Rightarrow> int set" where
  "input_range name ext w =
     (let unsigned_set = {0..<2 ^ w}; signed_set = {- (2 ^ (w - 1))..<2 ^ (w - 1)} in
      if name \<in> set unsigned_inputs then unsigned_set
      else if name \<in> set signed_inputs then signed_set
      else if name = ''__VERIFIER_nondet_bool'' then {0..1}
      else if zero_extended ext \<and> \<not> sign_extended ext then unsigned_set
      else if sign_extended ext \<and> \<not> zero_extended ext then signed_set
      else signed_set \<union> unsigned_set)"

lemma input_domain_holds:
  assumes "simplify_ok z" "input_domain z name ext w v = Some d"
  shows "holds I d \<longleftrightarrow> ival I v \<in> input_range name ext w"
proof -
  have half: "(2 :: int) ^ (w - 1) \<le> 2 ^ w" "0 < (2 :: int) ^ (w - 1)"
    by (simp_all add: power_increasing)
  have s: "holds I (in_signed_range z v w) \<longleftrightarrow> ival I v \<in> {- (2 ^ (w - 1))..<2 ^ (w - 1)}"
    using holds_in_signed_range [OF assms(1), of I v w] by auto
  have u: "holds I (in_unsigned_range z v w) \<longleftrightarrow> ival I v \<in> {0..<2 ^ w}"
    using holds_in_unsigned_range [OF assms(1), of I v w] by auto
  have c: "holds I (z_and (z_ge v (signed_min z w)) (z_lt v (power_of_two z w))) \<longleftrightarrow>
      ival I v \<in> {- (2 ^ (w - 1))..<2 ^ (w - 1)} \<union> {0..<2 ^ w}"
  proof -
    have "(- (2 ^ (w - 1)) \<le> k \<and> k < 2 ^ w) \<longleftrightarrow> k \<in> {- (2 ^ (w - 1))..<2 ^ (w - 1)} \<union> {0..<2 ^ w}" for k :: int
      using half unfolding Un_iff atLeastLessThan_iff by linarith
    then show ?thesis
      using assms(1) by (simp add: holds_connectives holds_comparisons signed_min_def ival_arith)
  qed
  have b: "holds I (z_and (z_ge v (z_int 0)) (z_le v (z_int 1))) \<longleftrightarrow> ival I v \<in> {0..1}"
    by (auto simp: holds_connectives holds_comparisons ival_arith)
  let ?un = "name \<in> set unsigned_inputs" and ?sn = "name \<in> set signed_inputs"
  let ?bn = "name = ''__VERIFIER_nondet_bool''" and ?z = "zero_extended ext" and ?s = "sign_extended ext"
  consider "?un" | "\<not> ?un" "?sn" | "\<not> ?un" "\<not> ?sn" "?bn" | "\<not> ?un" "\<not> ?sn" "\<not> ?bn" "?z" "\<not> ?s"
    | "\<not> ?un" "\<not> ?sn" "\<not> ?bn" "?s" "\<not> ?z" | "\<not> ?un" "\<not> ?sn" "\<not> ?bn" "?s = ?z" by blast
  then show ?thesis
  proof cases
    case 1
    then have "d = in_unsigned_range z v w" "input_range name ext w = {0..<2 ^ w}"
      using assms(2) by (simp_all add: input_domain_def input_range_def)
    then show ?thesis using u by simp
  next
    case 2
    then have "d = in_signed_range z v w" "input_range name ext w = {- (2 ^ (w - 1))..<2 ^ (w - 1)}"
      using assms(2) by (simp_all add: input_domain_def input_range_def)
    then show ?thesis using s by simp
  next
    case 3
    then have "d = z_and (z_ge v (z_int 0)) (z_le v (z_int 1))" "input_range name ext w = {0..1}"
      using assms(2) by (simp_all add: input_domain_def input_range_def)
    then show ?thesis using b by simp
  next
    case 4
    then have "d = in_unsigned_range z v w" "input_range name ext w = {0..<2 ^ w}"
      using assms(2) by (simp_all add: input_domain_def input_range_def split: if_splits)
    then show ?thesis using u by simp
  next
    case 5
    then have "d = in_signed_range z v w" "input_range name ext w = {- (2 ^ (w - 1))..<2 ^ (w - 1)}"
      using assms(2) by (simp_all add: input_domain_def input_range_def split: if_splits)
    then show ?thesis using s by simp
  next
    case 6
    then have "d = z_and (z_ge v (signed_min z w)) (z_lt v (power_of_two z w))"
      "input_range name ext w = {- (2 ^ (w - 1))..<2 ^ (w - 1)} \<union> {0..<2 ^ w}"
      using assms(2) by (simp_all add: input_domain_def input_range_def split: if_splits)
    then show ?thesis using c by simp
  qed
qed

text \<open>In the integer-relaxed mode the domain imposed on a recognised input is exactly the range of its
  machine type, and the union of both ranges for a plain character of unknown signedness.\<close>

theorem input_domain_correct:
  assumes "simplify_ok z" "input_domain z name ext w v = Some d"
  shows "holds I d \<longleftrightarrow> ival I v \<in> input_range name ext w"
  by (rule input_domain_holds [OF assms])

theorem input_domain_correct_witness:
  "\<exists>d. input_domain closed_z3 ''__VERIFIER_nondet_uchar'' \<lparr>zero_extended = False, sign_extended = False\<rparr> 8
     (z_int_const ''x'') = Some d \<and> (\<forall>I. holds I d \<longleftrightarrow> ival I (z_int_const ''x'') \<in> {0..<256})"
proof -
  obtain d where d: "input_domain closed_z3 ''__VERIFIER_nondet_uchar''
      \<lparr>zero_extended = False, sign_extended = False\<rparr> 8 (z_int_const ''x'') = Some d"
    by (simp add: input_domain_def unsigned_inputs_def)
  have "holds I d \<longleftrightarrow> ival I (z_int_const ''x'') \<in> {0..<256}" for I
    using input_domain_correct [OF closed_z3_simplify d, of I]
    by (simp add: input_range_def unsigned_inputs_def)
  then show ?thesis using d by blast
qed

text \<open>The assertion on the solver's answer in the model query also passes when the solver gives up:
  an infeasible state can get a model.\<close>

theorem get_model_of_infeasible_state:
  "\<exists>z st M. z3_ok z \<and> as_expr z (path_condition st) = Some z_false \<and>
     get_model z st new_session = Inr (M, new_session)"
proof -
  define st where "st = sample_state\<lparr>path_condition := expression_cases [z_true] [z_false]\<rparr>"
  have "as_expr silent_z3 (path_condition st) = Some z_false" by (simp add: st_def)
  moreover have "z_check silent_z3 fs = Unknown" for fs by (simp add: silent_z3_def)
  ultimately show ?thesis
    using silent_z3_ok by (intro exI [of _ silent_z3] exI [of _ st])
      (simp add: get_model_def bind_exec_def need_def give_def)
qed

end
