(* ===== verification/Integer_Instructions.thy ===== *)
theory Integer_Instructions
  imports Exec_State
begin

text \<open>
  The integer instructions of the symbolic executor (lib/AInstruction.cpp): the relaxed arithmetic over
  unbounded integers, the fixed-width arithmetic with its definedness conditions, comparisons, casts,
  and the mapping of an operation over the cases of conditional expressions.
\<close>

section \<open>Options read from the environment\<close>

definition positive_environment_size :: "string option \<Rightarrow> nat \<Rightarrow> nat" where
  "positive_environment_size entry default_value =
     (case entry of
        None \<Rightarrow> default_value
      | Some text \<Rightarrow>
          if text = [] then default_value
          else let (parsed, rest) = strtoull text
               in if rest \<noteq> [] \<or> parsed = 0 then default_value else parsed)"

definition force_path_expression_mode :: "string option \<Rightarrow> bool" where
  "force_path_expression_mode entry = (entry = Some ''1'')"

section \<open>Unbounded integers\<close>

text \<open>The value and the definedness of an operation in the relaxed mode.\<close>

definition relaxed_integer_binary ::
    "z3_api \<Rightarrow> z3expr \<Rightarrow> z3expr \<Rightarrow> opcode \<Rightarrow> nat \<Rightarrow> bool \<Rightarrow> exec_error + (z3expr \<times> z3expr)" where
  "relaxed_integer_binary z lhs rhs op width is_exact =
     (let left = as_int lhs; right = as_int rhs;
          a = z_ne left (z_int 0); b = z_ne right (z_int 0);
          nonzero = z_ne right (z_int 0);
          unsupported = Inl (VerifierError UnsupportedSemantics);
          done = (\<lambda>v d. Inr (z_simplify z v, z_simplify z d));
          bitwise = (\<lambda>f. case integer_bitwise z left right f of
              None \<Rightarrow> unsupported
            | Some v \<Rightarrow> done v z_true);
          shift = (\<lambda>f checked. case integer_shift_factor z right of
              None \<Rightarrow> unsupported
            | Some factor \<Rightarrow>
                done (f factor)
                  (if checked \<and> is_exact
                   then z_and (z_ge right (z_int 0)) (z_eq (z_mod left factor) (z_int 0))
                   else z_ge right (z_int 0)))
      in if width = 1
         then (case op of
                 OpAdd \<Rightarrow> Inr (z_ne a b, z_true) | OpSub \<Rightarrow> Inr (z_ne a b, z_true)
               | OpXor \<Rightarrow> Inr (z_ne a b, z_true)
               | OpMul \<Rightarrow> Inr (z_and a b, z_true) | OpAnd \<Rightarrow> Inr (z_and a b, z_true)
               | OpOr \<Rightarrow> Inr (z_or a b, z_true)
               | _ \<Rightarrow> unsupported)
         else (case op of
                 OpAdd \<Rightarrow> done (z_add left right) z_true
               | OpSub \<Rightarrow> done (z_sub left right) z_true
               | OpMul \<Rightarrow> done (z_mul left right) z_true
               | OpSDiv \<Rightarrow>
                   done (signed_div z left right)
                     (if is_exact then z_and nonzero (z_eq (signed_rem z left right) (z_int 0)) else nonzero)
               | OpUDiv \<Rightarrow>
                   done (z_div left right)
                     (if is_exact then z_and nonzero (z_eq (z_mod left right) (z_int 0)) else nonzero)
               | OpSRem \<Rightarrow> done (signed_rem z left right) nonzero
               | OpURem \<Rightarrow> done (z_mod left right) nonzero
               | OpAnd \<Rightarrow> bitwise BitAnd
               | OpOr \<Rightarrow> bitwise BitOr
               | OpXor \<Rightarrow> bitwise BitXor
               | OpShl \<Rightarrow> shift (\<lambda>factor. z_mul left factor) False
               | OpLShr \<Rightarrow> shift (\<lambda>factor. z_div left factor) True
               | OpAShr \<Rightarrow> shift (\<lambda>factor. z_div left factor) True
               | OpOther \<Rightarrow> unsupported))"

section \<open>Operations on conditional expressions\<close>

fun map_cases ::
    "z3_api \<Rightarrow> (z3expr \<Rightarrow> z3expr \<Rightarrow> (z3expr \<times> z3expr) exec) \<Rightarrow> expression \<Rightarrow> expression \<Rightarrow> nat list list \<Rightarrow>
     expression exec" where
  "map_cases z op lhs rhs [] = give empty_expression"
| "map_cases z op lhs rhs (ix # ixs) =
     (let i = ix ! 0; j = ix ! 1; condition = z_and (conditions lhs ! i) (conditions rhs ! j)
      in if \<not> is_feasible z condition None then map_cases z op lhs rhs ixs
         else bind_exec (op (expressions lhs ! i) (expressions rhs ! j)) (\<lambda>(v, d).
                bind_exec (map_cases z op lhs rhs ixs) (\<lambda>E.
                  give \<lparr>conditions = condition # conditions E, expressions = v # expressions E,
                    definitions = z_and (z_and (definitions lhs ! i) (definitions rhs ! j)) d
                      # definitions E\<rparr>)))"

definition map_integer_binary ::
    "z3_api \<Rightarrow> (z3expr \<Rightarrow> z3expr \<Rightarrow> (z3expr \<times> z3expr) exec) \<Rightarrow> expression \<Rightarrow> expression \<Rightarrow> expression exec" where
  "map_integer_binary z op lhs rhs =
     map_cases z op lhs rhs (cartesian_product [length (conditions lhs), length (conditions rhs)] 0)"

definition map_integer_unary :: "(z3expr \<Rightarrow> z3expr) \<Rightarrow> expression \<Rightarrow> expression" where
  "map_integer_unary op E = E\<lparr>expressions := map op (expressions E)\<rparr>"

definition canonicalize_signed ::
    "z3_api \<Rightarrow> session \<Rightarrow> expression \<Rightarrow> nat \<Rightarrow> z3expr \<Rightarrow> expression" where
  "canonicalize_signed z s E width assumptions =
     (if width = 1 \<or> ignores_integer_width s width then E
      else E\<lparr>expressions := map (\<lambda>i.
             let integer = as_int (expressions E ! i);
                 known = z_and (z_and assumptions (conditions E ! i)) (definitions E ! i)
             in if implies z known (in_signed_range z integer width) then integer
                else as_signed z integer width) [0..<length (expressions E)]\<rparr>)"

text \<open>The readings of an operand: as it is when its representation is known to be in range.\<close>

definition signed_value ::
    "z3_api \<Rightarrow> llvm_module \<Rightarrow> exec_state \<Rightarrow> z3expr \<Rightarrow> value_id \<Rightarrow> nat \<Rightarrow> z3expr exec" where
  "signed_value z m st v llvm_value width =
     bind_exec (ask (\<lambda>s. ignores_integer_width s width)) (\<lambda>ignored.
       let integer = as_int v
       in if ignored \<or> has_canonical_signed_representation m llvm_value then give integer
          else bind_exec (need AssertionFailed (as_expr z (path_condition st))) (\<lambda>c.
                 give (if implies z c (in_signed_range z integer width) then integer
                       else as_signed z integer width)))"

definition unsigned_value :: "z3_api \<Rightarrow> exec_state \<Rightarrow> z3expr \<Rightarrow> nat \<Rightarrow> z3expr exec" where
  "unsigned_value z st v width =
     bind_exec (ask (\<lambda>s. ignores_integer_width s width)) (\<lambda>ignored.
       let integer = as_int v
       in if ignored then give integer
          else bind_exec (need AssertionFailed (as_expr z (path_condition st))) (\<lambda>c.
                 give (if implies z c (in_unsigned_range z integer width) then integer
                       else as_unsigned z integer width)))"

section \<open>Fixed-width arithmetic\<close>

text \<open>
  Addition, subtraction and multiplication: with the no-signed-wrap flag the signed operands are
  combined and the result must be in range, otherwise the raw integers are combined and not reduced.
\<close>

definition wrapping_operation ::
    "z3_api \<Rightarrow> llvm_module \<Rightarrow> exec_state \<Rightarrow> inst_flags \<Rightarrow> nat \<Rightarrow> (z3expr \<Rightarrow> z3expr \<Rightarrow> z3expr) \<Rightarrow>
     (nat \<Rightarrow> z3op) \<Rightarrow> (z3expr \<Rightarrow> z3expr \<Rightarrow> z3expr) \<Rightarrow> value_id \<Rightarrow> value_id \<Rightarrow> z3expr \<Rightarrow> z3expr \<Rightarrow>
     (z3expr \<times> z3expr) exec" where
  "wrapping_operation z m st fl width int_op bv_op no_unsigned_overflow op0 op1 lhs rhs =
     bind_exec
       (if no_signed_wrap fl
        then bind_exec (signed_value z m st lhs op0 width) (\<lambda>l.
               bind_exec (signed_value z m st rhs op1 width) (\<lambda>r.
                 let integer_result = int_op l r
                 in give (if width = 1
                            then from_bv (App (bv_op width) [to_bv lhs width, to_bv rhs width]) width
                            else integer_result,
                          z_and z_true (in_signed_range z integer_result width))))
        else give (int_op (as_int lhs) (as_int rhs), z_true)) (\<lambda>(v, d).
       give (v, if no_unsigned_wrap fl
                then z_and d (no_unsigned_overflow (as_unsigned z lhs width) (as_unsigned z rhs width))
                else d))"

text \<open>The constraints that tie the fresh quotient and remainder of a constant divisor.\<close>

definition division_constraints :: "z3_api \<Rightarrow> z3expr \<Rightarrow> z3expr \<Rightarrow> z3expr \<Rightarrow> z3expr \<Rightarrow> z3expr \<Rightarrow> z3expr" where
  "division_constraints z defined lhs rhs quot remainder =
     (let abs_rhs = z_simplify z (z_abs rhs)
      in z_and (z_and (z_and (z_and defined (z_eq lhs (z_add (z_mul quot rhs) remainder)))
             (z_lt (z_neg abs_rhs) remainder)) (z_lt remainder abs_rhs))
           (z_or (z_or (z_eq remainder (z_int 0))
              (z_and (z_lt lhs (z_int 0)) (z_lt remainder (z_int 0))))
              (z_and (z_gt lhs (z_int 0)) (z_gt remainder (z_int 0)))))"

definition fresh_division_names :: "string \<Rightarrow> nat \<Rightarrow> z3expr \<times> z3expr" where
  "fresh_division_names op n =
     (z_int_const (''ari_'' @ op @ ''_q_'' @ nat_to_string n),
      z_int_const (''ari_'' @ op @ ''_r_'' @ nat_to_string n))"

definition sdiv_operation ::
    "z3_api \<Rightarrow> llvm_module \<Rightarrow> exec_state \<Rightarrow> value_id \<Rightarrow> inst_flags \<Rightarrow> nat \<Rightarrow> value_id \<Rightarrow> value_id \<Rightarrow>
     z3expr \<Rightarrow> z3expr \<Rightarrow> (z3expr \<times> z3expr) exec" where
  "sdiv_operation z m st i fl width op0 op1 lhs rhs =
     bind_exec (signed_value z m st lhs op0 width) (\<lambda>l.
     bind_exec (signed_value z m st rhs op1 width) (\<lambda>r.
       let defined = z_and (z_ne r (z_int 0))
             (z_not (z_and (z_eq l (signed_min z width)) (z_eq r (z_int (- 1)))))
       in if \<not> is_summarizing st \<and> is_numeral (z_simplify z r)
          then bind_exec (with_session (next_call_value_id i)) (\<lambda>n.
                 let (quot, remainder) = fresh_division_names ''sdiv'' n;
                     d = division_constraints z defined l r quot remainder
                 in give (quot, if exact fl then z_and d (z_eq remainder (z_int 0)) else d))
          else if is_summarizing st
          then give (signed_div z l r,
                     if exact fl then z_and defined (z_eq (signed_rem z l r) (z_int 0)) else defined)
          else let a = to_bv lhs width; b = to_bv rhs width
               in give (from_bv (App (OBSDiv width) [a, b]) width,
                        if exact fl
                        then z_and defined (z_eq (App (OBSRem width) [a, b]) (App (OBvNum 0 width) []))
                        else defined)))"

definition srem_operation ::
    "z3_api \<Rightarrow> llvm_module \<Rightarrow> exec_state \<Rightarrow> value_id \<Rightarrow> nat \<Rightarrow> value_id \<Rightarrow> value_id \<Rightarrow>
     z3expr \<Rightarrow> z3expr \<Rightarrow> (z3expr \<times> z3expr) exec" where
  "srem_operation z m st i width op0 op1 lhs rhs =
     bind_exec (signed_value z m st lhs op0 width) (\<lambda>l.
     bind_exec (signed_value z m st rhs op1 width) (\<lambda>r.
       let defined = z_ne r (z_int 0)
       in if \<not> is_summarizing st \<and> is_numeral (z_simplify z r)
          then bind_exec (with_session (next_call_value_id i)) (\<lambda>n.
                 let (quot, remainder) = fresh_division_names ''srem'' n
                 in give (remainder, division_constraints z defined l r quot remainder))
          else if is_summarizing st then give (signed_rem z l r, defined)
          else give (from_bv (App (OBSRem width) [to_bv lhs width, to_bv rhs width]) width, defined)))"

definition shift_operation ::
    "z3_api \<Rightarrow> opcode \<Rightarrow> inst_flags \<Rightarrow> nat \<Rightarrow> z3expr \<Rightarrow> z3expr \<Rightarrow> z3expr \<times> z3expr" where
  "shift_operation z op fl width lhs rhs =
     (let shift = as_unsigned z rhs width;
          d0 = z_lt shift (z_int (int width));
          a = to_bv lhs width; b = to_bv rhs width;
          r = (if op = OpShl then App (OBShl width) [a, b]
               else if op = OpLShr then App (OBLshr width) [a, b] else App (OBAshr width) [a, b]);
          d1 = (if op = OpShl \<and> no_unsigned_wrap fl then z_and d0 (z_eq (App (OBLshr width) [r, b]) a) else d0);
          d2 = (if op = OpShl \<and> no_signed_wrap fl then z_and d1 (z_eq (App (OBAshr width) [r, b]) a) else d1);
          d3 = (if exact fl then z_and d2 (z_eq (App (OBShl width) [r, b]) a) else d2)
      in (from_bv r width, d3))"

definition binary_operation ::
    "z3_api \<Rightarrow> llvm_module \<Rightarrow> exec_state \<Rightarrow> value_id \<Rightarrow> opcode \<Rightarrow> inst_flags \<Rightarrow> nat \<Rightarrow> value_id \<Rightarrow> value_id \<Rightarrow>
     z3expr \<Rightarrow> z3expr \<Rightarrow> (z3expr \<times> z3expr) exec" where
  "binary_operation z m st i op fl width op0 op1 lhs rhs =
     bind_exec (ask uses_integer_relaxation) (\<lambda>relaxed.
       if relaxed
       then (case relaxed_integer_binary z lhs rhs op width (exact fl) of
               Inl e \<Rightarrow> fail e | Inr r \<Rightarrow> give r)
       else
         let l = as_unsigned z lhs width; r = as_unsigned z rhs width;
             bits = (\<lambda>f. from_bv (App (f width) [to_bv lhs width, to_bv rhs width]) width)
         in case op of
              OpAdd \<Rightarrow> wrapping_operation z m st fl width (\<lambda>a b. z_add a b) OBAdd
                (\<lambda>a b. z_lt (z_add a b) (power_of_two z width)) op0 op1 lhs rhs
            | OpSub \<Rightarrow> wrapping_operation z m st fl width (\<lambda>a b. z_sub a b) OBSub
                (\<lambda>a b. z_ge a b) op0 op1 lhs rhs
            | OpMul \<Rightarrow> wrapping_operation z m st fl width (\<lambda>a b. z_mul a b) OBMul
                (\<lambda>a b. z_lt (z_mul a b) (power_of_two z width)) op0 op1 lhs rhs
            | OpSDiv \<Rightarrow> sdiv_operation z m st i fl width op0 op1 lhs rhs
            | OpUDiv \<Rightarrow>
                give (z_div l r,
                      if exact fl then z_and (z_ne r (z_int 0)) (z_eq (z_mod l r) (z_int 0))
                      else z_ne r (z_int 0))
            | OpSRem \<Rightarrow> srem_operation z m st i width op0 op1 lhs rhs
            | OpURem \<Rightarrow> give (z_mod l r, z_ne r (z_int 0))
            | OpAnd \<Rightarrow> give (bits OBAnd, z_true)
            | OpOr \<Rightarrow> give (bits OBOr, z_true)
            | OpXor \<Rightarrow> give (bits OBXor, z_true)
            | OpShl \<Rightarrow> give (shift_operation z op fl width lhs rhs)
            | OpLShr \<Rightarrow> give (shift_operation z op fl width lhs rhs)
            | OpAShr \<Rightarrow> give (shift_operation z op fl width lhs rhs)
            | OpOther \<Rightarrow> fail RuntimeError)"

section \<open>Executing the integer instructions\<close>

definition execute_binary ::
    "z3_api \<Rightarrow> llvm_module \<Rightarrow> value_id \<Rightarrow> opcode \<Rightarrow> inst_flags \<Rightarrow> value_id \<Rightarrow> value_id \<Rightarrow> exec_state \<Rightarrow>
     exec_state list exec" where
  "execute_binary z m i op fl op0 op1 st =
     bind_exec (evaluate z m st op0 True) (\<lambda>a.
     bind_exec (evaluate z m st op1 True) (\<lambda>b.
     bind_exec (need AssertionFailed (int_width (ty_of m i))) (\<lambda>width.
     bind_exec (map_integer_binary z (binary_operation z m st i op fl width op0 op1) a b) (\<lambda>result.
     bind_exec (store_temp m i result (clone_state_preserving_type st)) (\<lambda>st'.
       give [step_pc m None st'])))))"

text \<open>Equality of terms of different sorts is an exception of the solver.\<close>

definition same_sort_eq :: "bool \<Rightarrow> z3expr \<Rightarrow> z3expr \<Rightarrow> z3expr exec" where
  "same_sort_eq negated a b =
     (if sort_of a \<noteq> sort_of b then fail RuntimeError
      else give (if negated then z_ne a b else z_eq a b))"

definition equality_comparison ::
    "z3_api \<Rightarrow> llvm_module \<Rightarrow> bool \<Rightarrow> nat \<Rightarrow> value_id \<Rightarrow> value_id \<Rightarrow> z3expr \<Rightarrow> z3expr \<Rightarrow> z3expr exec" where
  "equality_comparison z m negated width op0 op1 lhs rhs =
     bind_exec (ask (\<lambda>s. ignores_integer_width s width)) (\<lambda>ignored.
       if ignored \<or> (has_canonical_signed_representation m op0 \<and> has_canonical_signed_representation m op1)
       then same_sort_eq negated lhs rhs
       else if is_int lhs \<and> is_int rhs
       then let difference = z_mod (z_sub (as_int lhs) (as_int rhs)) (power_of_two z width)
            in give (if negated then z_ne difference (z_int 0) else z_eq difference (z_int 0))
       else same_sort_eq negated lhs rhs)"

definition signed_comparison ::
    "z3_api \<Rightarrow> llvm_module \<Rightarrow> exec_state \<Rightarrow> (z3expr \<Rightarrow> z3expr \<Rightarrow> z3expr) \<Rightarrow> nat \<Rightarrow> value_id \<Rightarrow> value_id \<Rightarrow>
     z3expr \<Rightarrow> z3expr \<Rightarrow> z3expr exec" where
  "signed_comparison z m st rel width op0 op1 lhs rhs =
     bind_exec (signed_value z m st lhs op0 width) (\<lambda>l.
     bind_exec (signed_value z m st rhs op1 width) (\<lambda>r. give (rel l r)))"

definition unsigned_comparison ::
    "z3_api \<Rightarrow> exec_state \<Rightarrow> (z3expr \<Rightarrow> z3expr \<Rightarrow> z3expr) \<Rightarrow> nat \<Rightarrow> z3expr \<Rightarrow> z3expr \<Rightarrow> z3expr exec" where
  "unsigned_comparison z st rel width lhs rhs =
     bind_exec (unsigned_value z st lhs width) (\<lambda>l.
     bind_exec (unsigned_value z st rhs width) (\<lambda>r. give (rel l r)))"

definition comparison ::
    "z3_api \<Rightarrow> llvm_module \<Rightarrow> exec_state \<Rightarrow> predicate \<Rightarrow> nat \<Rightarrow> value_id \<Rightarrow> value_id \<Rightarrow> z3expr \<Rightarrow> z3expr \<Rightarrow>
     (z3expr \<times> z3expr) exec" where
  "comparison z m st pred width op0 op1 lhs rhs =
     bind_exec
       (case pred of
          P_EQ \<Rightarrow> equality_comparison z m False width op0 op1 lhs rhs
        | P_NE \<Rightarrow> equality_comparison z m True width op0 op1 lhs rhs
        | P_SLT \<Rightarrow> signed_comparison z m st (\<lambda>a b. z_lt a b) width op0 op1 lhs rhs
        | P_SLE \<Rightarrow> signed_comparison z m st (\<lambda>a b. z_le a b) width op0 op1 lhs rhs
        | P_SGT \<Rightarrow> signed_comparison z m st (\<lambda>a b. z_gt a b) width op0 op1 lhs rhs
        | P_SGE \<Rightarrow> signed_comparison z m st (\<lambda>a b. z_ge a b) width op0 op1 lhs rhs
        | P_ULT \<Rightarrow> unsigned_comparison z st (\<lambda>a b. z_lt a b) width lhs rhs
        | P_ULE \<Rightarrow> unsigned_comparison z st (\<lambda>a b. z_le a b) width lhs rhs
        | P_UGT \<Rightarrow> unsigned_comparison z st (\<lambda>a b. z_gt a b) width lhs rhs
        | P_UGE \<Rightarrow> unsigned_comparison z st (\<lambda>a b. z_ge a b) width lhs rhs)
       (\<lambda>v. give (v, z_true))"

definition is_unsigned_predicate :: "predicate \<Rightarrow> bool" where
  "is_unsigned_predicate pred = (pred \<in> {P_ULT, P_ULE, P_UGT, P_UGE})"

definition execute_icmp ::
    "z3_api \<Rightarrow> llvm_module \<Rightarrow> value_id \<Rightarrow> predicate \<Rightarrow> value_id \<Rightarrow> value_id \<Rightarrow> exec_state \<Rightarrow> exec_state list exec"
  where
  "execute_icmp z m i pred op0 op1 st =
     bind_exec (evaluate z m st op0 (\<not> is_unsigned_predicate pred)) (\<lambda>a.
     bind_exec (evaluate z m st op1 (\<not> is_unsigned_predicate pred)) (\<lambda>b.
     bind_exec (need AssertionFailed (int_width (ty_of m op0))) (\<lambda>width.
     bind_exec (map_integer_binary z (comparison z m st pred width op0 op1) a b) (\<lambda>result.
     bind_exec (store_temp m i result (copy_state st)) (\<lambda>st'.
       give [step_pc m None st'])))))"

definition execute_zext :: "z3_api \<Rightarrow> llvm_module \<Rightarrow> value_id \<Rightarrow> value_id \<Rightarrow> exec_state \<Rightarrow> exec_state list exec" where
  "execute_zext z m i op st =
     bind_exec (evaluate z m st op False) (\<lambda>v.
     bind_exec (need AssertionFailed (int_width (ty_of m op))) (\<lambda>source_width.
     bind_exec (ask uses_integer_relaxation) (\<lambda>relaxed.
     let result = map_integer_unary (\<lambda>e. if relaxed then as_int e else as_unsigned z e source_width) v
     in bind_exec (store_temp m i result (copy_state st)) (\<lambda>st'. give [step_pc m None st']))))"

definition execute_sext :: "z3_api \<Rightarrow> llvm_module \<Rightarrow> value_id \<Rightarrow> value_id \<Rightarrow> exec_state \<Rightarrow> exec_state list exec" where
  "execute_sext z m i op st =
     bind_exec (evaluate z m st op True) (\<lambda>v.
     bind_exec (need AssertionFailed (int_width (ty_of m op))) (\<lambda>source_width.
     bind_exec (ask uses_integer_relaxation) (\<lambda>relaxed.
     bind_exec
       (if relaxed
        then give (map_integer_unary
               (\<lambda>e. if source_width = 1 then z_neg (as_int e) else as_int e) v)
        else if has_canonical_signed_representation m op then give v
        else bind_exec (need AssertionFailed (as_expr z (path_condition st))) (\<lambda>c.
             bind_exec (need AssertionFailed (defined_term z v)) (\<lambda>d.
               give (map_integer_unary (\<lambda>e.
                 if implies z (z_and c d) (in_signed_range z (as_int e) source_width) then as_int e
                 else as_signed z e source_width) v)))) (\<lambda>result.
     bind_exec (store_temp m i result (copy_state st)) (\<lambda>st'. give [step_pc m None st'])))))"

definition execute_trunc :: "z3_api \<Rightarrow> llvm_module \<Rightarrow> value_id \<Rightarrow> value_id \<Rightarrow> exec_state \<Rightarrow> exec_state list exec" where
  "execute_trunc z m i op st =
     bind_exec (evaluate z m st op True) (\<lambda>v.
     bind_exec (need AssertionFailed (int_width (ty_of m i))) (\<lambda>target_width.
     bind_exec (ask uses_integer_relaxation) (\<lambda>relaxed.
     let result = map_integer_unary (\<lambda>e.
           if relaxed
           then (if target_width = 1 then z_ne (z_mod (as_int e) (z_int 2)) (z_int 0) else as_int e)
           else from_bv (to_bv e target_width) target_width) v
     in bind_exec (store_temp m i result (copy_state st)) (\<lambda>st'. give [step_pc m None st']))))"

end
