(* ===== verification/Arithmetic_Correctness.thy ===== *)
theory Arithmetic_Correctness
  imports Integer_Instructions State_Correctness
begin

text \<open>
  The integer instructions against the machine: a reference of the operations on two's-complement
  integers of a width and on unbounded integers, and the theorems that the terms the executor builds
  have the reference value whenever their definedness condition holds.
\<close>

section \<open>Unbounded integers\<close>

fun unbounded_result :: "opcode \<Rightarrow> int \<Rightarrow> int \<Rightarrow> int" where
  "unbounded_result OpAdd a b = a + b"
| "unbounded_result OpSub a b = a - b"
| "unbounded_result OpMul a b = a * b"
| "unbounded_result OpSDiv a b = a sdiv b"
| "unbounded_result OpUDiv a b = smt_div a b"
| "unbounded_result OpSRem a b = a smod b"
| "unbounded_result OpURem a b = smt_mod a b"
| "unbounded_result OpAnd a b = a AND b"
| "unbounded_result OpOr a b = a OR b"
| "unbounded_result OpXor a b = a XOR b"
| "unbounded_result OpShl a b = push_bit (nat b) a"
| "unbounded_result OpLShr a b = drop_bit (nat b) a"
| "unbounded_result OpAShr a b = drop_bit (nat b) a"
| "unbounded_result OpOther a b = 0"

definition unbounded_defined :: "opcode \<Rightarrow> bool \<Rightarrow> int \<Rightarrow> int \<Rightarrow> bool" where
  "unbounded_defined op is_exact a b =
     (case op of
        OpSDiv \<Rightarrow> b \<noteq> 0 \<and> (is_exact \<longrightarrow> a smod b = 0)
      | OpUDiv \<Rightarrow> b \<noteq> 0 \<and> (is_exact \<longrightarrow> smt_mod a b = 0)
      | OpSRem \<Rightarrow> b \<noteq> 0
      | OpURem \<Rightarrow> b \<noteq> 0
      | OpShl \<Rightarrow> 0 \<le> b
      | OpLShr \<Rightarrow> 0 \<le> b \<and> (is_exact \<longrightarrow> a mod 2 ^ nat b = 0)
      | OpAShr \<Rightarrow> 0 \<le> b \<and> (is_exact \<longrightarrow> a mod 2 ^ nat b = 0)
      | _ \<Rightarrow> True)"

lemma holds_ne_zero: "is_int e \<Longrightarrow> holds I (z_ne e (z_int 0)) \<longleftrightarrow> ival I e \<noteq> 0"
  and holds_eq_zero: "is_int e \<Longrightarrow> holds I (z_eq e (z_int 0)) \<longleftrightarrow> ival I e = 0"
  by (simp_all add: holds_ne holds_eq eval_int ival_arith)

lemmas term_facts = holds_connectives holds_comparisons holds_ne_zero holds_eq_zero ival_arith holds_not_false

lemma is_int_signed_rem [simp]: "simplify_ok z \<Longrightarrow> integer_term a \<Longrightarrow> is_int (signed_rem z a b)"
  by (simp add: signed_rem_def Let_def z_abs_def)

lemma relaxed_shift_value:
  assumes "simplify_ok z" "integer_shift_factor z r = Some f" "0 \<le> ival I r"
  shows "ival I f = 2 ^ nat (ival I r)"
  using integer_shift_factor_value [OF assms(1,2), of I] assms(3) by simp

lemma relaxed_value:
  assumes z: "simplify_ok z" and int: "integer_term a" "integer_term b" and w: "width \<noteq> 1"
    and ret: "relaxed_integer_binary z a b op width is_exact = Inr (v, d)"
  shows "(holds I d \<longleftrightarrow> unbounded_defined op is_exact (ival I a) (ival I b)) \<and>
    (holds I d \<longrightarrow> ival I v = unbounded_result op (ival I a) (ival I b))"
proof -
  let ?l = "as_int a" and ?r = "as_int b"
  have i: "is_int ?l" "is_int ?r" "integer_term ?l" "integer_term ?r"
    using int by (simp_all add: integer_term_def)
  note defs = relaxed_integer_binary_def Let_def unbounded_defined_def
  show ?thesis
  proof (cases op)
    case OpSDiv
    then have "v = z_simplify z (signed_div z ?l ?r)"
      "d = z_simplify z (if is_exact then z_and (z_ne ?r (z_int 0)) (z_eq (signed_rem z ?l ?r) (z_int 0))
         else z_ne ?r (z_int 0))"
      using ret w by (simp_all add: defs)
    then show ?thesis
      using z i OpSDiv ival_signed_div [OF z i(3,4), of I] ival_signed_rem [OF z i(3,4), of I]
      by (cases is_exact) (auto simp: holds_simplify ival_simplify term_facts unbounded_defined_def)
  next
    case OpSRem
    then have "v = z_simplify z (signed_rem z ?l ?r)" "d = z_simplify z (z_ne ?r (z_int 0))"
      using ret w by (simp_all add: defs)
    then show ?thesis
      using z i OpSRem ival_signed_rem [OF z i(3,4), of I]
      by (auto simp: holds_simplify ival_simplify term_facts unbounded_defined_def)
  next
    case OpUDiv
    then have "v = z_simplify z (z_div ?l ?r)"
      "d = z_simplify z (if is_exact then z_and (z_ne ?r (z_int 0)) (z_eq (z_mod ?l ?r) (z_int 0))
         else z_ne ?r (z_int 0))"
      using ret w by (simp_all add: defs)
    then show ?thesis
      using z i OpUDiv
      by (cases is_exact) (auto simp: holds_simplify ival_simplify term_facts ival_div unbounded_defined_def)
  next
    case OpURem
    then have "v = z_simplify z (z_mod ?l ?r)" "d = z_simplify z (z_ne ?r (z_int 0))"
      using ret w by (simp_all add: defs)
    then show ?thesis
      using z i OpURem by (auto simp: holds_simplify ival_simplify term_facts ival_div unbounded_defined_def)
  next
    case OpAnd
    then obtain r where "integer_bitwise z ?l ?r BitAnd = Some r" "v = z_simplify z r" "d = z_simplify z z_true"
      using ret w by (auto simp: defs split: option.splits)
    then show ?thesis using z OpAnd integer_bitwise_value [OF z, of ?l ?r BitAnd r I]
      by (simp add: holds_simplify ival_simplify term_facts unbounded_defined_def)
  next
    case OpOr
    then obtain r where "integer_bitwise z ?l ?r BitOr = Some r" "v = z_simplify z r" "d = z_simplify z z_true"
      using ret w by (auto simp: defs split: option.splits)
    then show ?thesis using z OpOr integer_bitwise_value [OF z, of ?l ?r BitOr r I]
      by (simp add: holds_simplify ival_simplify term_facts unbounded_defined_def)
  next
    case OpXor
    then obtain r where "integer_bitwise z ?l ?r BitXor = Some r" "v = z_simplify z r" "d = z_simplify z z_true"
      using ret w by (auto simp: defs split: option.splits)
    then show ?thesis using z OpXor integer_bitwise_value [OF z, of ?l ?r BitXor r I]
      by (simp add: holds_simplify ival_simplify term_facts unbounded_defined_def)
  next
    case OpShl
    then obtain f where f: "integer_shift_factor z ?r = Some f" "v = z_simplify z (z_mul ?l f)"
        "d = z_simplify z (z_ge ?r (z_int 0))"
      using ret w by (auto simp: defs split: option.splits)
    then show ?thesis using z OpShl relaxed_shift_value [OF z f(1), of I]
      by (simp add: holds_simplify ival_simplify term_facts unbounded_defined_def push_bit_eq_mult)
  next
    case OpLShr
    then obtain f where f: "integer_shift_factor z ?r = Some f" "v = z_simplify z (z_div ?l f)"
        "d = z_simplify z (if is_exact then z_and (z_ge ?r (z_int 0)) (z_eq (z_mod ?l f) (z_int 0))
           else z_ge ?r (z_int 0))"
      using ret w by (auto simp: defs split: option.splits)
    then show ?thesis using z OpLShr relaxed_shift_value [OF z f(1), of I]
      by (cases is_exact) (auto simp: holds_simplify ival_simplify term_facts unbounded_defined_def
        drop_bit_eq_div ival_div smt_div_def smt_mod_def)
  next
    case OpAShr
    then obtain f where f: "integer_shift_factor z ?r = Some f" "v = z_simplify z (z_div ?l f)"
        "d = z_simplify z (if is_exact then z_and (z_ge ?r (z_int 0)) (z_eq (z_mod ?l f) (z_int 0))
           else z_ge ?r (z_int 0))"
      using ret w by (auto simp: defs split: option.splits)
    then show ?thesis using z OpAShr relaxed_shift_value [OF z f(1), of I]
      by (cases is_exact) (auto simp: holds_simplify ival_simplify term_facts unbounded_defined_def
        drop_bit_eq_div ival_div smt_div_def smt_mod_def)
  qed (use ret w z in \<open>auto simp: defs holds_simplify ival_simplify term_facts\<close>)
qed

text \<open>in the integer-relaxed mode the term of a wider-than-one-bit operation is defined exactly when the
  operation on unbounded integers is, and then has its value.\<close>

theorem relaxed_binary_correct:
  assumes "simplify_ok z" "integer_term a" "integer_term b" "width \<noteq> 1"
    and "relaxed_integer_binary z a b op width is_exact = Inr (v, d)"
  shows "(holds I d \<longleftrightarrow> unbounded_defined op is_exact (ival I a) (ival I b)) \<and>
    (holds I d \<longrightarrow> ival I v = unbounded_result op (ival I a) (ival I b))"
  by (rule relaxed_value [OF assms])

theorem relaxed_binary_correct_witness:
  "\<exists>v d. relaxed_integer_binary closed_z3 (z_int (- 7)) (z_int 2) OpSDiv 32 False = Inr (v, d) \<and>
     holds zero_interp d \<and> ival zero_interp v = - 3"
proof -
  obtain v d where r: "relaxed_integer_binary closed_z3 (z_int (- 7)) (z_int 2) OpSDiv 32 False = Inr (v, d)"
    by (simp add: relaxed_integer_binary_def Let_def)
  show ?thesis
    using relaxed_binary_correct [OF closed_z3_simplify _ _ _ r, of zero_interp] r
    by (auto simp: integer_term_def unbounded_defined_def ival_arith signed_divide_int_def)
qed


section \<open>Fixed widths\<close>

definition in_range :: "nat \<Rightarrow> int \<Rightarrow> bool" where
  "in_range w i \<longleftrightarrow> - (2 ^ (w - 1)) \<le> i \<and> i < 2 ^ (w - 1)"

text \<open>The result of a machine operation, up to its residue.\<close>

definition machine_result :: "opcode \<Rightarrow> nat \<Rightarrow> int \<Rightarrow> int \<Rightarrow> int" where
  "machine_result op w a b =
     (let sa = signed_of w a; sb = signed_of w b; ua = a mod 2 ^ w; ub = b mod 2 ^ w
      in case op of
           OpAdd \<Rightarrow> a + b | OpSub \<Rightarrow> a - b | OpMul \<Rightarrow> a * b
         | OpSDiv \<Rightarrow> sa sdiv sb | OpUDiv \<Rightarrow> ua div ub | OpSRem \<Rightarrow> sa smod sb | OpURem \<Rightarrow> ua mod ub
         | OpAnd \<Rightarrow> a AND b | OpOr \<Rightarrow> a OR b | OpXor \<Rightarrow> a XOR b
         | OpShl \<Rightarrow> push_bit (nat ub) a | OpLShr \<Rightarrow> drop_bit (nat ub) ua | OpAShr \<Rightarrow> drop_bit (nat ub) sa
         | OpOther \<Rightarrow> 0)"

text \<open>When the operation is neither undefined nor poison.\<close>

definition machine_defined :: "opcode \<Rightarrow> inst_flags \<Rightarrow> nat \<Rightarrow> int \<Rightarrow> int \<Rightarrow> bool" where
  "machine_defined op fl w a b =
     (let sa = signed_of w a; sb = signed_of w b; ua = a mod 2 ^ w; ub = b mod 2 ^ w
      in case op of
           OpAdd \<Rightarrow> (no_signed_wrap fl \<longrightarrow> in_range w (sa + sb)) \<and> (no_unsigned_wrap fl \<longrightarrow> ua + ub < 2 ^ w)
         | OpSub \<Rightarrow> (no_signed_wrap fl \<longrightarrow> in_range w (sa - sb)) \<and> (no_unsigned_wrap fl \<longrightarrow> ub \<le> ua)
         | OpMul \<Rightarrow> (no_signed_wrap fl \<longrightarrow> in_range w (sa * sb)) \<and> (no_unsigned_wrap fl \<longrightarrow> ua * ub < 2 ^ w)
         | OpSDiv \<Rightarrow> sb \<noteq> 0 \<and> \<not> (sa = - (2 ^ (w - 1)) \<and> sb = - 1) \<and> (exact fl \<longrightarrow> sa smod sb = 0)
         | OpUDiv \<Rightarrow> ub \<noteq> 0 \<and> (exact fl \<longrightarrow> ua mod ub = 0)
         | OpSRem \<Rightarrow> sb \<noteq> 0
         | OpURem \<Rightarrow> ub \<noteq> 0
         | OpShl \<Rightarrow> ub < int w \<and> (no_unsigned_wrap fl \<longrightarrow> ua * 2 ^ nat ub < 2 ^ w) \<and>
             (no_signed_wrap fl \<longrightarrow> in_range w (sa * 2 ^ nat ub))
         | OpLShr \<Rightarrow> ub < int w \<and> (exact fl \<longrightarrow> ua mod 2 ^ nat ub = 0)
         | OpAShr \<Rightarrow> ub < int w \<and> (exact fl \<longrightarrow> sa mod 2 ^ nat ub = 0)
         | _ \<Rightarrow> True)"

lemma half_power: "0 < w \<Longrightarrow> (2 :: int) ^ w = 2 * 2 ^ (w - 1)"
  by (metis Suc_diff_1 power_Suc)

lemma signed_of_mod [simp]: "signed_of w a mod 2 ^ w = a mod 2 ^ w"
  by (simp add: signed_of_def Let_def)

lemma signed_of_of_mod [simp]: "signed_of w (a mod 2 ^ w) = signed_of w a"
  by (simp add: signed_of_def)

lemma signed_of_in_range: "0 < w \<Longrightarrow> in_range w (signed_of w a)"
proof -
  assume "0 < w"
  then have p: "(2 :: int) ^ w = 2 * 2 ^ (w - 1)" by (rule half_power)
  define r where "r = a mod 2 ^ w"
  have "0 \<le> r" "r < 2 ^ w" "0 < (2 :: int) ^ (w - 1)" by (simp_all add: r_def)
  then show ?thesis unfolding in_range_def signed_of_def Let_def r_def [symmetric] using p by auto
qed

lemma signed_of_unique:
  assumes "0 < w" "in_range w i" "i mod 2 ^ w = a mod 2 ^ w"
  shows "signed_of w a = i"
proof -
  have p: "(2 :: int) ^ w = 2 * 2 ^ (w - 1)" by (rule half_power [OF assms(1)])
  have r: "- (2 ^ (w - 1)) \<le> i" "i < 2 ^ (w - 1)" using assms(2) by (simp_all add: in_range_def)
  show ?thesis
  proof (cases "0 \<le> i")
    case True
    then have "i mod 2 ^ w = i" using r p by (intro mod_pos_pos_trivial) auto
    then show ?thesis using assms(3) r by (simp add: signed_of_def Let_def)
  next
    case False
    then have "(i + 2 ^ w) mod 2 ^ w = i + 2 ^ w" using r p by (intro mod_pos_pos_trivial) auto
    then have "a mod 2 ^ w = i + 2 ^ w" using assms(3) by simp
    then show ?thesis using r p False by (simp add: signed_of_def Let_def)
  qed
qed

lemma signed_of_id [simp]: "0 < w \<Longrightarrow> in_range w i \<Longrightarrow> signed_of w i = i"
  by (rule signed_of_unique) simp_all

subsection \<open>Operands\<close>

text \<open>An operand whose representation the analysis accepts has a value in range; the path condition
  holds.\<close>

definition operand_ok :: "llvm_module \<Rightarrow> interp \<Rightarrow> nat \<Rightarrow> value_id \<Rightarrow> z3expr \<Rightarrow> bool" where
  "operand_ok m I w v e \<longleftrightarrow> is_int e \<and>
     (has_canonical_signed_representation m v \<longrightarrow> in_range w (ival I e))"

definition path_holds :: "z3_api \<Rightarrow> interp \<Rightarrow> exec_state \<Rightarrow> bool" where
  "path_holds z I st \<longleftrightarrow> (\<exists>c. as_expr z (path_condition st) = Some c \<and> holds I c)"

lemma implies_holds: "check_ok z \<Longrightarrow> implies z a b \<Longrightarrow> holds I a \<Longrightarrow> holds I b"
  using check_unsat [of z "[a, z_not b]" I] by (auto simp: implies_def holds_connectives)

lemma as_int_id [simp]: "is_int e \<Longrightarrow> as_int e = e"
  by (simp add: as_int_def is_int_def is_bool_def)

lemma integer_term_int [simp]: "is_int e \<Longrightarrow> integer_term e"
  by (simp add: integer_term_def)

lemma is_int_as_signed [simp]: "simplify_ok z \<Longrightarrow> is_int v \<Longrightarrow> is_int (as_signed z v w)"
  by (auto simp: as_signed_def Let_def)

lemma signed_value_result:
  assumes z: "simplify_ok z" "check_ok z" and w: "1 < w" and op: "operand_ok m I w llvm_value v"
    and path: "path_holds z I st" and s: "\<not> uses_integer_relaxation s"
    and ret: "signed_value z m st v llvm_value w s = Inr (t, s')"
  shows "ival I t = signed_of w (ival I v) \<and> is_int t \<and> s' = s"
proof -
  have v: "is_int v" using op by (simp add: operand_ok_def)
  have n: "\<not> ignores_integer_width s w"
    using s by (simp add: ignores_integer_width_def uses_integer_relaxation_def)
  show ?thesis
  proof (cases "has_canonical_signed_representation m llvm_value")
    case True
    then have "t = v" "s' = s" using ret v n by (simp_all add: signed_value_def exec_simps)
    then show ?thesis using op True w v by (simp add: operand_ok_def)
  next
    case False
    obtain c where c: "as_expr z (path_condition st) = Some c" "holds I c"
      using path by (auto simp: path_holds_def)
    have t: "t = (if implies z c (in_signed_range z v w) then v else as_signed z v w)" "s' = s"
      using ret v n False c by (simp_all add: signed_value_def exec_simps)
    show ?thesis
    proof (cases "implies z c (in_signed_range z v w)")
      case True
      then have "in_range w (ival I v)"
        using implies_holds [OF z(2) True c(2)] holds_in_signed_range [OF z(1)] by (simp add: in_range_def)
      then show ?thesis using t True w v by simp
    next
      case False
      then show ?thesis using t z(1) v ival_as_signed [OF z(1) v] by simp
    qed
  qed
qed

lemma unsigned_value_result:
  assumes z: "simplify_ok z" "check_ok z" and v: "is_int v"
    and path: "path_holds z I st" and s: "\<not> uses_integer_relaxation s"
    and ret: "unsigned_value z st v w s = Inr (t, s')"
  shows "ival I t = ival I v mod 2 ^ w \<and> is_int t \<and> s' = s"
proof -
  obtain c where c: "as_expr z (path_condition st) = Some c" "holds I c"
    using path by (auto simp: path_holds_def)
  have n: "\<not> ignores_integer_width s w"
    using s by (simp add: ignores_integer_width_def uses_integer_relaxation_def)
  have t: "t = (if implies z c (in_unsigned_range z v w) then v else as_unsigned z v w)" "s' = s"
    using ret v n c by (simp_all add: unsigned_value_def exec_simps)
  show ?thesis
  proof (cases "implies z c (in_unsigned_range z v w)")
    case True
    then have "0 \<le> ival I v \<and> ival I v < 2 ^ w"
      using implies_holds [OF z(2) True c(2)] holds_in_unsigned_range [OF z(1)] by simp
    then show ?thesis using t True v by simp
  next
    case False
    then show ?thesis using t z(1) v ival_as_unsigned [OF z(1) v] by simp
  qed
qed

subsection \<open>Bit vectors\<close>

lemma eval_to_bv: "is_int v \<Longrightarrow> eval I (to_bv v w) = VBv w (ival I v mod 2 ^ w)"
  by (simp add: to_bv_def bv_result_def ival_def)

lemma ival_from_bv: "w \<noteq> 1 \<Longrightarrow> eval I b = VBv w i \<Longrightarrow> ival I (from_bv b w) = signed_of w i"
  by (simp add: from_bv_def ival_def)

lemma from_bv_int [simp]: "w \<noteq> 1 \<Longrightarrow> is_int (from_bv b w)"
  by (simp add: from_bv_def is_int_def)

lemma bv_mod_simps:
  "(a mod 2 ^ w AND b mod 2 ^ w) mod 2 ^ w = (a AND b) mod (2 ^ w :: int)"
  "(a mod 2 ^ w OR b mod 2 ^ w) mod 2 ^ w = (a OR b) mod (2 ^ w :: int)"
  "(a mod 2 ^ w XOR b mod 2 ^ w) mod 2 ^ w = (a XOR b) mod (2 ^ w :: int)"
  by (simp_all flip: take_bit_eq_mod add: take_bit_and take_bit_or take_bit_xor)


lemma signed_of_eq_iff: "0 < w \<Longrightarrow> signed_of w a = signed_of w b \<longleftrightarrow> a mod 2 ^ w = b mod 2 ^ w"
  by (metis signed_of_mod signed_of_of_mod)

lemma signed_zero_iff: "0 < w \<Longrightarrow> signed_of w a = 0 \<longleftrightarrow> a mod 2 ^ w = 0"
  using signed_of_eq_iff [of w a 0] by (simp add: in_range_def)

text \<open>The result of a shift to the left survives the shift undo exactly when no bit is lost.\<close>

lemma shift_back_unsigned:
  assumes "k < w"
  shows "drop_bit k (push_bit k (a mod 2 ^ w) mod 2 ^ w) = a mod 2 ^ w \<longleftrightarrow> (a mod 2 ^ w) * 2 ^ k < (2 :: int) ^ w"
proof -
  define u where "u = a mod 2 ^ w"
  have u: "0 \<le> u" "u < 2 ^ w" by (simp_all add: u_def)
  have split: "(2 :: int) ^ w = 2 ^ k * 2 ^ (w - k)" using assms by (simp flip: power_add)
  have "u * 2 ^ k mod 2 ^ w = 2 ^ k * (u mod 2 ^ (w - k))"
    unfolding split mult.commute [of u] by (rule mod_mult_mult1)
  then have d: "drop_bit k (push_bit k u mod 2 ^ w) = u mod 2 ^ (w - k)"
    by (simp only: drop_bit_eq_div push_bit_eq_mult) simp
  have "u mod 2 ^ (w - k) = u \<longleftrightarrow> u < 2 ^ (w - k)"
    using u(1) pos_mod_bound [of "2 ^ (w - k)" u] mod_pos_pos_trivial [of u "2 ^ (w - k)"]
    by (intro iffI) (simp_all del: pos_mod_bound)
  also have "\<dots> \<longleftrightarrow> u * 2 ^ k < 2 ^ w"
    unfolding split mult.commute [of u] by simp
  finally show ?thesis using d by (simp add: u_def)
qed

lemma shift_back_signed:
  assumes "k < w" "0 < w"
    and "drop_bit k (signed_of w (push_bit k (a mod 2 ^ w) mod 2 ^ w)) mod 2 ^ w = a mod 2 ^ w"
  shows "in_range w (signed_of w a * 2 ^ k)"
proof -
  define r where "r = signed_of w (push_bit k (a mod 2 ^ w))"
  have rr: "in_range w r" using assms(2) by (simp add: r_def signed_of_in_range)
  have r_mod: "r mod 2 ^ w = (a * 2 ^ k) mod 2 ^ w"
    by (simp add: r_def push_bit_eq_mult mod_mult_left_eq)
  have dvd: "2 ^ k dvd r"
  proof -
    have "(2 :: int) ^ k dvd 2 ^ w" using assms(1) by (simp add: le_imp_power_dvd)
    then have "r mod 2 ^ k = (a * 2 ^ k) mod 2 ^ k" by (metis mod_mod_cancel r_mod)
    then show ?thesis by (simp add: dvd_eq_mod_eq_0)
  qed
  then have r_eq: "r = (r div 2 ^ k) * 2 ^ k" by simp
  have "in_range w (r div 2 ^ k)"
  proof -
    define q where "q = r div 2 ^ k"
    have q: "r = q * 2 ^ k" using r_eq by (simp add: q_def)
    have one: "(1 :: int) \<le> 2 ^ k" by simp
    show ?thesis
    proof (cases "0 \<le> q")
      case True
      then have "q * 1 \<le> r" unfolding q using one by (intro mult_left_mono) simp_all
      moreover have "- (2 ^ (w - 1)) \<le> (0 :: int)" by simp
      ultimately show ?thesis using rr True unfolding in_range_def q_def [symmetric] by linarith
    next
      case False
      then have "r \<le> q * 1" unfolding q using one by (intro mult_left_mono_neg) simp_all
      moreover have "(0 :: int) < 2 ^ (w - 1)" by simp
      ultimately show ?thesis using rr False unfolding in_range_def q_def [symmetric] by linarith
    qed
  qed
  moreover have "(r div 2 ^ k) mod 2 ^ w = a mod 2 ^ w"
    using assms(3) by (simp add: r_def drop_bit_eq_div)
  ultimately have "signed_of w a = r div 2 ^ k" using signed_of_unique assms(2) by blast
  then show ?thesis using rr r_eq by simp
qed


subsection \<open>The operations\<close>

lemma truncated_division_unique:
  fixes a b q r :: int
  assumes "b \<noteq> 0" "a = q * b + r" "\<bar>r\<bar> < \<bar>b\<bar>" "r = 0 \<or> (a < 0 \<and> r < 0) \<or> (a > 0 \<and> r > 0)"
  shows "q = a sdiv b" "r = a smod b"
proof -
  have key: "\<bar>a\<bar> = (sgn a * sgn b * q) * \<bar>b\<bar> + \<bar>r\<bar>"
  proof (cases "a = 0")
    case True
    then have "r = 0" "q = 0" using assms by auto
    then show ?thesis using True by simp
  next
    case False
    have r: "sgn a * r = \<bar>r\<bar>" using assms(4) False by (auto simp: sgn_if)
    have "\<bar>a\<bar> = sgn a * (q * b + r)" using assms(2) by (simp add: abs_sgn mult.commute)
    also have "\<dots> = sgn a * q * b + \<bar>r\<bar>" using r by (simp add: algebra_simps)
    also have "sgn a * q * b = (sgn a * sgn b * q) * \<bar>b\<bar>" by (simp add: abs_sgn sgn_if)
    finally show ?thesis .
  qed
  have "\<bar>a\<bar> div \<bar>b\<bar> = sgn a * sgn b * q" "\<bar>a\<bar> mod \<bar>b\<bar> = \<bar>r\<bar>"
    using assms(1,3) key by (simp_all add: div_pos_pos_trivial)
  note dm = this
  have "q = sgn a * sgn b * (sgn a * sgn b * q)"
  proof (cases "a = 0")
    case True
    then have "r = 0" "q = 0" using assms by auto
    then show ?thesis by simp
  qed (use assms(1) in \<open>auto simp: sgn_if\<close>)
  then show "q = a sdiv b" using dm(1) by (simp add: signed_divide_int_def)
  have "r = sgn a * \<bar>r\<bar>" using assms(1-4) by (auto simp: sgn_if)
  then show "r = a smod b" using dm(2) by (simp add: signed_modulo_int_def)
qed

lemma division_constraints_hold:
  assumes "simplify_ok z" "is_int l" "is_int r" "ival I r \<noteq> 0" "is_int q" "is_int m"
    and "holds I (division_constraints z d l r q m)"
  shows "ival I q = ival I l sdiv ival I r \<and> ival I m = ival I l smod ival I r \<and> holds I d"
proof -
  have abs: "ival I (z_simplify z (z_abs r)) = \<bar>ival I r\<bar>"
    using assms(1,3) by (simp add: ival_simplify ival_z_abs)
  have h: "holds I d" "ival I l = ival I q * ival I r + ival I m" "\<bar>ival I m\<bar> < \<bar>ival I r\<bar>"
    "ival I m = 0 \<or> (ival I l < 0 \<and> ival I m < 0) \<or> (ival I l > 0 \<and> ival I m > 0)"
    using assms(2,3,5-7) abs
    by (auto simp: division_constraints_def Let_def term_facts holds_eq eval_int abs_less_iff)
  then show ?thesis using truncated_division_unique [OF assms(4)] by blast
qed

lemma smod_range: "b \<noteq> 0 \<Longrightarrow> \<bar>a smod b\<bar> \<le> \<bar>a\<bar>" for a b :: int
  by (simp add: signed_modulo_int_def abs_mult sgn_if zmod_le_nonneg_dividend)

lemma sdiv_in_range:
  assumes "0 < w" "in_range w a" "in_range w b" "b \<noteq> 0" "\<not> (a = - (2 ^ (w - 1)) \<and> b = - 1)"
  shows "in_range w (a sdiv b)"
proof -
  have abs: "\<bar>a sdiv b\<bar> = \<bar>a\<bar> div \<bar>b\<bar>"
    using assms(4) by (cases "a = 0") (simp_all add: signed_divide_int_def abs_mult sgn_if pos_imp_zdiv_nonneg_iff)
  have le: "\<bar>a\<bar> div \<bar>b\<bar> \<le> \<bar>a\<bar>" using zdiv_mono2 [of "\<bar>a\<bar>" 1 "\<bar>b\<bar>"] assms(4) by simp
  show ?thesis
  proof (cases "\<bar>a sdiv b\<bar> < 2 ^ (w - 1)")
    case True
    then show ?thesis by (auto simp: in_range_def)
  next
    case False
    then have a: "a = - (2 ^ (w - 1))" using abs le assms(2) by (auto simp: in_range_def abs_if split: if_splits)
    have "\<bar>b\<bar> = 1"
    proof (rule ccontr)
      assume "\<bar>b\<bar> \<noteq> 1"
      then have "\<bar>a\<bar> div \<bar>b\<bar> < \<bar>a\<bar>" using assms(4) a by (intro int_div_less_self) auto
      then show False using False abs a by simp
    qed
    then have "b = 1" using assms(5) a by auto
    then have "a sdiv b = a" by (simp add: signed_divide_int_def sgn_mult_abs)
    then show ?thesis using assms(2) by simp
  qed
qed

lemma smod_in_range:
  assumes "in_range w a" "b \<noteq> 0"
  shows "in_range w (a smod b)"
proof -
  define k where "k = \<bar>a\<bar> mod \<bar>b\<bar>"
  have k: "0 \<le> k" "k \<le> \<bar>a\<bar>" using assms(2) by (simp_all add: k_def zmod_le_nonneg_dividend)
  have "a smod b = sgn a * k" by (simp add: signed_modulo_int_def k_def)
  then show ?thesis using assms(1) k by (auto simp: in_range_def sgn_if)
qed

lemma wrapping_value:
  assumes z: "simplify_ok z" "check_ok z" and w: "1 < w"
    and ops: "operand_ok m I w op0 l" "operand_ok m I w op1 r" and path: "path_holds z I st"
    and s: "\<not> uses_integer_relaxation s"
    and ret: "wrapping_operation z m st fl w int_op bv nuo op0 op1 l r s = Inr ((v, d), s')"
    and f: "\<And>a b. ival I (int_op a b) = f (ival I a) (ival I b)"
    and cong: "\<And>a b. f (signed_of w a) (signed_of w b) mod 2 ^ w = f a b mod 2 ^ w"
    and nuo: "\<And>a b. holds I (nuo a b) = P (ival I a) (ival I b)"
  shows "(holds I d \<longleftrightarrow> (no_signed_wrap fl \<longrightarrow> in_range w (f (signed_of w (ival I l)) (signed_of w (ival I r)))) \<and>
      (no_unsigned_wrap fl \<longrightarrow> P (ival I l mod 2 ^ w) (ival I r mod 2 ^ w))) \<and>
    ival I v mod 2 ^ w = f (ival I l) (ival I r) mod 2 ^ w \<and>
    (no_signed_wrap fl \<longrightarrow> ival I v = f (signed_of w (ival I l)) (signed_of w (ival I r)))"
proof -
  have ints: "is_int l" "is_int r" using ops by (simp_all add: operand_ok_def)
  have u: "ival I (as_unsigned z l w) = ival I l mod 2 ^ w" "ival I (as_unsigned z r w) = ival I r mod 2 ^ w"
    using ival_as_unsigned [OF z(1)] ints by simp_all
  show ?thesis
  proof (cases "no_signed_wrap fl")
    case True
    obtain a s1 b s2 where sv: "signed_value z m st l op0 w s = Inr (a, s1)"
        "signed_value z m st r op1 w s1 = Inr (b, s2)" and v: "v = int_op a b"
        "d = (if no_unsigned_wrap fl then z_and (z_and z_true (in_signed_range z (int_op a b) w))
          (nuo (as_unsigned z l w) (as_unsigned z r w)) else z_and z_true (in_signed_range z (int_op a b) w))"
      using ret True w unfolding wrapping_operation_def
      by (auto simp: exec_simps Let_def split: prod.splits if_splits)
    have a: "ival I a = signed_of w (ival I l)" "s1 = s"
      using signed_value_result [OF z w ops(1) path s sv(1)] by simp_all
    have b: "ival I b = signed_of w (ival I r)"
      using signed_value_result [OF z w ops(2) path s] sv(2) a(2) by simp
    have "holds I (in_signed_range z (int_op a b) w) = in_range w (f (signed_of w (ival I l)) (signed_of w (ival I r)))"
      using holds_in_signed_range [OF z(1)] f a b by (simp add: in_range_def)
    then show ?thesis using v True u a b f cong nuo by (simp add: holds_connectives holds_not_false)
  next
    case False
    then have "v = int_op l r" "d = (if no_unsigned_wrap fl
        then z_and z_true (nuo (as_unsigned z l w) (as_unsigned z r w)) else z_true)"
      using ret ints unfolding wrapping_operation_def by (auto simp: exec_simps split: if_splits)
    then show ?thesis using False f u nuo by (simp add: holds_connectives holds_not_false)
  qed
qed


lemma eval_bv_op:
  assumes "is_int l" "is_int r"
  shows "eval I (App f [to_bv l w, to_bv r w]) =
    apply_op I f [VBv w (ival I l mod 2 ^ w), VBv w (ival I r mod 2 ^ w)]"
  using assms by (simp add: eval_to_bv)

lemma ival_bv_op:
  assumes "is_int l" "is_int r" "1 < w"
    and "apply_op I f [VBv w (ival I l mod 2 ^ w), VBv w (ival I r mod 2 ^ w)] = bv_result w i"
  shows "ival I (from_bv (App f [to_bv l w, to_bv r w]) w) = signed_of w i"
proof -
  have e: "eval I (App f [to_bv l w, to_bv r w]) = VBv w (i mod 2 ^ w)"
    unfolding eval_bv_op [OF assms(1,2)] assms(4) by (simp add: bv_result_def)
  show ?thesis using ival_from_bv [OF _ e] assms(3) by simp
qed

lemma holds_signed_min_overflow:
  assumes "simplify_ok z" "is_int l" "is_int r"
  shows "holds I (z_and (z_ne r (z_int 0)) (z_not (z_and (z_eq l (signed_min z w)) (z_eq r (z_int (- 1)))))) \<longleftrightarrow>
    ival I r \<noteq> 0 \<and> \<not> (ival I l = - (2 ^ (w - 1)) \<and> ival I r = - 1)"
proof -
  have "eval I (signed_min z w) = VInt (- (2 ^ (w - 1)))"
    using eval_int [of "signed_min z w" I] assms(1) by (simp add: signed_min_def ival_arith)
  then show ?thesis using assms by (simp add: term_facts holds_eq eval_int)
qed

lemma sdiv_value:
  assumes z: "simplify_ok z" "check_ok z" and w: "1 < w"
    and ops: "operand_ok m I w op0 l" "operand_ok m I w op1 r" and path: "path_holds z I st"
    and s: "\<not> uses_integer_relaxation s"
    and ret: "sdiv_operation z m st i fl w op0 op1 l r s = Inr ((v, d), s')" and d: "holds I d"
  shows "machine_defined OpSDiv fl w (ival I l) (ival I r) \<and>
    ival I v mod 2 ^ w = machine_result OpSDiv w (ival I l) (ival I r) mod 2 ^ w \<and> in_range w (ival I v)"
proof -
  have ints: "is_int l" "is_int r" using ops by (simp_all add: operand_ok_def)
  have w0: "0 < w" using w by simp
  obtain a s1 b s2 where sv: "signed_value z m st l op0 w s = Inr (a, s1)"
      "signed_value z m st r op1 w s1 = Inr (b, s2)"
    using ret unfolding sdiv_operation_def by (auto simp: exec_simps)
  have a: "ival I a = signed_of w (ival I l)" "is_int a" "s1 = s"
    using signed_value_result [OF z w ops(1) path s sv(1)] by simp_all
  have b: "ival I b = signed_of w (ival I r)" "is_int b" "s2 = s"
    using signed_value_result [OF z w ops(2) path s] sv(2) a(3) by simp_all
  let ?d0 = "z_and (z_ne b (z_int 0)) (z_not (z_and (z_eq a (signed_min z w)) (z_eq b (z_int (- 1)))))"
  let ?sa = "signed_of w (ival I l)" and ?sb = "signed_of w (ival I r)"
  have d0: "holds I ?d0 \<longleftrightarrow> ?sb \<noteq> 0 \<and> \<not> (?sa = - (2 ^ (w - 1)) \<and> ?sb = - 1)"
    using holds_signed_min_overflow [OF z(1) a(2) b(2), of I w] a(1) b(1) by simp
  have goal: ?thesis if "holds I ?d0" "exact fl \<Longrightarrow> ?sa smod ?sb = 0" "ival I v = ?sa sdiv ?sb"
    using that d0 sdiv_in_range [OF w0 signed_of_in_range [OF w0] signed_of_in_range [OF w0]]
    by (auto simp: machine_defined_def machine_result_def Let_def)
  consider "\<not> is_summarizing st" "is_numeral (z_simplify z b)" | "is_summarizing st"
    | "\<not> is_summarizing st" "\<not> is_numeral (z_simplify z b)" by blast
  then show ?thesis
  proof cases
    case 1
    obtain q m' where qm: "(q, m') = fresh_division_names ''sdiv'' (fst (next_call_value_id i s2))"
      by (metis surj_pair)
    have v: "v = q" "d = (if exact fl then z_and (division_constraints z ?d0 a b q m') (z_eq m' (z_int 0))
        else division_constraints z ?d0 a b q m')"
      using ret sv 1 qm [symmetric] unfolding sdiv_operation_def
      by (auto simp: exec_simps Let_def bind_exec_def with_session_def give_def split: if_splits prod.splits)
    have qi: "is_int q" "is_int m'" using qm by (simp_all add: fresh_division_names_def)
    have dc: "holds I (division_constraints z ?d0 a b q m')" and ex: "exact fl \<Longrightarrow> ival I m' = 0"
      using d v(2) qi by (auto simp: term_facts split: if_splits)
    have "holds I ?d0" using dc by (simp add: division_constraints_def Let_def holds_connectives(1))
    then have nz: "ival I b \<noteq> 0" using d0 b by simp
    show ?thesis
      using goal division_constraints_hold [OF z(1) a(2) b(2) nz qi dc] a b v ex by simp
  next
    case 2
    have v: "v = signed_div z a b"
      "d = (if exact fl then z_and ?d0 (z_eq (signed_rem z a b) (z_int 0)) else ?d0)"
      using ret sv 2 unfolding sdiv_operation_def by (auto simp: exec_simps Let_def bind_exec_def)
    have h0: "holds I ?d0" using d v(2) by (simp add: holds_connectives(1) split: if_splits)
    then have nz: "ival I b \<noteq> 0" using d0 b by simp
    have "exact fl \<Longrightarrow> ?sa smod ?sb = 0"
      using d v(2) ival_signed_rem [OF z(1) _ _ nz, of a] a b z(1) by (simp add: term_facts)
    then show ?thesis using goal h0 v ival_signed_div [OF z(1) _ _ nz, of a] a b by simp
  next
    case 3
    have v: "v = from_bv (App (OBSDiv w) [to_bv l w, to_bv r w]) w"
      "d = (if exact fl then z_and ?d0 (z_eq (App (OBSRem w) [to_bv l w, to_bv r w]) (App (OBvNum 0 w) []))
         else ?d0)"
      using ret sv 3 unfolding sdiv_operation_def by (auto simp: exec_simps Let_def bind_exec_def)
    have h0: "holds I ?d0" using d v(2) by (simp add: holds_connectives(1) split: if_splits)
    then have nz: "?sb \<noteq> 0" using d0 by simp
    have "ival I v = signed_of w (?sa sdiv ?sb)"
      unfolding v(1) by (rule ival_bv_op [OF ints w]) (simp add: nz signed_divide_int_def)
    moreover have "in_range w (?sa sdiv ?sb)"
      using sdiv_in_range [OF w0 signed_of_in_range [OF w0] signed_of_in_range [OF w0] nz] h0 d0 by blast
    ultimately have iv: "ival I v = ?sa sdiv ?sb" using w0 by simp
    have "?sa smod ?sb = 0" if "exact fl"
    proof -
      have "eval I (App (OBSRem w) [to_bv l w, to_bv r w]) = eval I (App (OBvNum 0 w) [])"
        using d v(2) that by (simp add: holds_connectives(1) holds_eq)
      then have "(?sa smod ?sb) mod 2 ^ w = 0"
        unfolding eval_bv_op [OF ints] by (simp add: nz signed_modulo_int_def bv_result_def)
      moreover have "in_range w (?sa smod ?sb)" by (rule smod_in_range [OF signed_of_in_range [OF w0] nz])
      ultimately show ?thesis using signed_of_unique [OF w0, of "?sa smod ?sb" 0] signed_zero_iff [OF w0, of 0] by simp
    qed
    then show ?thesis using goal h0 iv by blast
  qed
qed

lemma srem_value:
  assumes z: "simplify_ok z" "check_ok z" and w: "1 < w"
    and ops: "operand_ok m I w op0 l" "operand_ok m I w op1 r" and path: "path_holds z I st"
    and s: "\<not> uses_integer_relaxation s"
    and ret: "srem_operation z m st i w op0 op1 l r s = Inr ((v, d), s')" and d: "holds I d"
  shows "machine_defined OpSRem fl w (ival I l) (ival I r) \<and>
    ival I v mod 2 ^ w = machine_result OpSRem w (ival I l) (ival I r) mod 2 ^ w \<and> in_range w (ival I v)"
proof -
  have ints: "is_int l" "is_int r" using ops by (simp_all add: operand_ok_def)
  have w0: "0 < w" using w by simp
  obtain a s1 b s2 where sv: "signed_value z m st l op0 w s = Inr (a, s1)"
      "signed_value z m st r op1 w s1 = Inr (b, s2)"
    using ret unfolding srem_operation_def by (auto simp: exec_simps)
  have a: "ival I a = signed_of w (ival I l)" "is_int a" "s1 = s"
    using signed_value_result [OF z w ops(1) path s sv(1)] by simp_all
  have b: "ival I b = signed_of w (ival I r)" "is_int b" "s2 = s"
    using signed_value_result [OF z w ops(2) path s] sv(2) a(3) by simp_all
  let ?d0 = "z_ne b (z_int 0)"
  let ?sa = "signed_of w (ival I l)" and ?sb = "signed_of w (ival I r)"
  have d0: "holds I ?d0 \<longleftrightarrow> ?sb \<noteq> 0" using b by (simp add: term_facts)
  have goal: ?thesis if "?sb \<noteq> 0" "ival I v = ?sa smod ?sb"
    using that smod_in_range [OF signed_of_in_range [OF w0]]
    by (auto simp: machine_defined_def machine_result_def Let_def)
  consider "\<not> is_summarizing st" "is_numeral (z_simplify z b)" | "is_summarizing st"
    | "\<not> is_summarizing st" "\<not> is_numeral (z_simplify z b)" by blast
  then show ?thesis
  proof cases
    case 1
    obtain q m' where qm: "(q, m') = fresh_division_names ''srem'' (fst (next_call_value_id i s2))"
      by (metis surj_pair)
    have v: "v = m'" "d = division_constraints z ?d0 a b q m'"
      using ret sv 1 qm [symmetric] unfolding srem_operation_def
      by (auto simp: exec_simps Let_def bind_exec_def with_session_def give_def split: if_splits prod.splits)
    have qi: "is_int q" "is_int m'" using qm by (simp_all add: fresh_division_names_def)
    have "holds I ?d0" using d v(2) by (simp add: division_constraints_def Let_def holds_connectives(1))
    then have nz: "ival I b \<noteq> 0" "?sb \<noteq> 0" using d0 b by simp_all
    show ?thesis
      using goal division_constraints_hold [OF z(1) a(2) b(2) nz(1) qi] d a b v nz by simp
  next
    case 2
    have v: "v = signed_rem z a b" "d = ?d0"
      using ret sv 2 unfolding srem_operation_def by (auto simp: exec_simps Let_def bind_exec_def)
    then have nz: "ival I b \<noteq> 0" "?sb \<noteq> 0" using d d0 b by simp_all
    then show ?thesis using goal v ival_signed_rem [OF z(1) _ _ nz(1), of a] a b by simp
  next
    case 3
    have v: "v = from_bv (App (OBSRem w) [to_bv l w, to_bv r w]) w" "d = ?d0"
      using ret sv 3 unfolding srem_operation_def by (auto simp: exec_simps Let_def bind_exec_def)
    then have nz: "?sb \<noteq> 0" using d d0 by simp
    have "ival I v = signed_of w (?sa smod ?sb)"
      unfolding v(1) by (rule ival_bv_op [OF ints w]) (simp add: nz signed_modulo_int_def)
    then show ?thesis using goal nz w0 smod_in_range [OF signed_of_in_range [OF w0] nz] by simp
  qed
qed


subsection \<open>Shifts\<close>

lemma shift_exact_logical:
  assumes "k < w" and "push_bit k (drop_bit k (a mod 2 ^ w) mod 2 ^ w) mod 2 ^ w = a mod (2 :: int) ^ w"
  shows "a mod 2 ^ w mod 2 ^ k = 0"
proof -
  have "(2 :: int) ^ k dvd 2 ^ w" using assms(1) by (simp add: le_imp_power_dvd)
  then have "a mod 2 ^ w mod 2 ^ k = (push_bit k (drop_bit k (a mod 2 ^ w) mod 2 ^ w)) mod 2 ^ k"
    using assms(2) by (metis mod_mod_cancel)
  then show ?thesis by (simp add: push_bit_eq_mult)
qed

lemma shift_exact_arithmetic:
  assumes "k < w" and "push_bit k (drop_bit k (signed_of w a) mod 2 ^ w) mod 2 ^ w = a mod (2 :: int) ^ w"
  shows "signed_of w a mod 2 ^ k = 0"
proof -
  have "(2 :: int) ^ k dvd 2 ^ w" using assms(1) by (simp add: le_imp_power_dvd)
  then have "signed_of w a mod 2 ^ k = (push_bit k (drop_bit k (signed_of w a) mod 2 ^ w)) mod 2 ^ k"
    using assms(2) by (metis mod_mod_cancel signed_of_mod)
  then show ?thesis by (simp add: push_bit_eq_mult)
qed

lemma drop_bit_mod_id: "drop_bit k (i mod 2 ^ w) mod 2 ^ w = drop_bit k (i mod (2 :: int) ^ w)"
proof -
  have "i mod 2 ^ w div 2 ^ k \<le> i mod 2 ^ w div 1" by (rule zdiv_mono2) simp_all
  then have "i mod 2 ^ w div 2 ^ k < 2 ^ w" by (simp add: le_less_trans)
  then show ?thesis by (simp add: drop_bit_eq_div pos_imp_zdiv_nonneg_iff mod_pos_pos_trivial)
qed

lemma shift_value:
  assumes z: "simplify_ok z" and w: "1 < w" and ints: "is_int l" "is_int r"
    and op: "op \<in> {OpShl, OpLShr, OpAShr}"
    and ret: "shift_operation z op fl w l r = (v, d)" and d: "holds I d"
  shows "machine_defined op fl w (ival I l) (ival I r) \<and>
    ival I v mod 2 ^ w = machine_result op w (ival I l) (ival I r) mod 2 ^ w \<and> in_range w (ival I v)"
proof -
  have w0: "0 < w" using w by simp
  define ua where "ua = ival I l mod 2 ^ w"
  define ub where "ub = ival I r mod 2 ^ w"
  define k where "k = nat ub"
  have bounds: "0 \<le> ua" "ua < 2 ^ w" "0 \<le> ub" by (simp_all add: ua_def ub_def)
  let ?a = "to_bv l w" and ?b = "to_bv r w"
  let ?r = "if op = OpShl then App (OBShl w) [?a, ?b]
      else if op = OpLShr then App (OBLshr w) [?a, ?b] else App (OBAshr w) [?a, ?b]"
  have v: "v = from_bv ?r w" using ret by (simp add: shift_operation_def Let_def)
  have shift: "ival I (as_unsigned z r w) = ub" using ival_as_unsigned [OF z ints(2)] by (simp add: ub_def)
  have "ub < int w"
    using d ret shift by (auto simp: shift_operation_def Let_def holds_connectives holds_comparisons ival_arith
      split: if_splits)
  then have k: "k < w" "ub = int k" using bounds by (simp_all add: k_def)
  have eb: "eval I ?b = VBv w ub" "eval I ?a = VBv w ua"
    using ints by (simp_all add: eval_to_bv ub_def ua_def)
  define rv where "rv = (if op = OpShl then push_bit k ua
     else if op = OpLShr then drop_bit k ua else drop_bit k (signed_of w (ival I l)))"
  have er: "eval I ?r = VBv w (rv mod 2 ^ w)"
    using eb bounds by (simp add: bv_result_def rv_def k_def ua_def)
  have iv: "ival I v = signed_of w rv" using v ival_from_bv [OF _ er] w by simp
  have res: "rv mod 2 ^ w = machine_result op w (ival I l) (ival I r) mod 2 ^ w"
    using op by (auto simp: rv_def machine_result_def Let_def k_def ua_def ub_def push_bit_eq_mult mod_mult_left_eq)
  have undo: "op = OpShl \<Longrightarrow> no_unsigned_wrap fl \<Longrightarrow> eval I (App (OBLshr w) [?r, ?b]) = eval I ?a"
    "op = OpShl \<Longrightarrow> no_signed_wrap fl \<Longrightarrow> eval I (App (OBAshr w) [?r, ?b]) = eval I ?a"
    "exact fl \<Longrightarrow> eval I (App (OBShl w) [?r, ?b]) = eval I ?a"
    using d ret by (auto simp: shift_operation_def Let_def holds_connectives holds_eq
      simp del: eval.simps split: if_splits)
  have "machine_defined op fl w (ival I l) (ival I r)"
  proof -
    consider "op = OpShl" | "op = OpLShr" | "op = OpAShr" using op by auto
    then show ?thesis
    proof cases
      case 1
      have "ua * 2 ^ k < 2 ^ w" if "no_unsigned_wrap fl"
        using undo(1) that 1 er eb bounds k shift_back_unsigned [OF k(1), of "ival I l"]
        by (simp add: bv_result_def rv_def ua_def drop_bit_mod_id)
      moreover have "in_range w (signed_of w (ival I l) * 2 ^ k)" if "no_signed_wrap fl"
        using undo(2) that 1 er eb bounds k shift_back_signed [OF k(1) w0, of "ival I l"]
        by (simp add: bv_result_def rv_def ua_def)
      ultimately show ?thesis using 1 k by (simp add: machine_defined_def Let_def ua_def flip: ub_def)
    next
      case 2
      have "ua mod 2 ^ k = 0" if "exact fl"
        using undo(3) that 2 er eb bounds k shift_exact_logical [OF k(1), of "ival I l"]
        by (simp add: bv_result_def rv_def ua_def)
      then show ?thesis using 2 k by (simp add: machine_defined_def Let_def ua_def flip: ub_def)
    next
      case 3
      have "signed_of w (ival I l) mod 2 ^ k = 0" if "exact fl"
        using undo(3) that 3 er eb bounds k shift_exact_arithmetic [OF k(1), of "ival I l"]
        by (simp add: bv_result_def rv_def ua_def)
      then show ?thesis using 3 k by (simp add: machine_defined_def Let_def ua_def flip: ub_def)
    qed
  qed
  then show ?thesis using iv res w0 by (simp add: signed_of_in_range)
qed


subsection \<open>Bitwise operations\<close>

lemma bits_value:
  assumes w: "1 < w" and ints: "is_int l" "is_int r"
    and f: "(op, g) \<in> {(OpAnd, OBAnd), (OpOr, OBOr), (OpXor, OBXor)}"
  shows "ival I (from_bv (App (g w) [to_bv l w, to_bv r w]) w) =
    signed_of w (machine_result op w (ival I l) (ival I r))"
proof -
  have "machine_result op w (ival I l) (ival I r) mod 2 ^ w =
      machine_result op w (ival I l mod 2 ^ w) (ival I r mod 2 ^ w) mod 2 ^ w"
    using f by (auto simp: machine_result_def bv_mod_simps)
  moreover have "ival I (from_bv (App (g w) [to_bv l w, to_bv r w]) w) =
      signed_of w (machine_result op w (ival I l mod 2 ^ w) (ival I r mod 2 ^ w))"
    using f by (intro ival_bv_op [OF ints w]) (auto simp: machine_result_def)
  ultimately show ?thesis using signed_of_eq_iff w by auto
qed

section \<open>The executed operation\<close>

definition represented :: "opcode \<Rightarrow> inst_flags \<Rightarrow> bool" where
  "represented op fl \<longleftrightarrow>
     op \<in> {OpSDiv, OpSRem, OpAnd, OpOr, OpXor, OpShl, OpLShr, OpAShr} \<or>
     (op \<in> {OpAdd, OpSub, OpMul} \<and> no_signed_wrap fl)"

lemma mod_arith_cong:
  "(signed_of w a + signed_of w b) mod 2 ^ w = (a + b) mod 2 ^ w"
  "(signed_of w a - signed_of w b) mod 2 ^ w = (a - b) mod 2 ^ w"
  "(signed_of w a * signed_of w b) mod 2 ^ w = (a * b) mod 2 ^ w"
  by (metis mod_add_eq signed_of_mod, metis mod_diff_eq signed_of_mod, metis mod_mult_eq signed_of_mod)

lemma unsigned_division_terms:
  assumes z: "simplify_ok z" and ints: "is_int l" "is_int r"
  shows "holds I (z_ne (as_unsigned z r w) (z_int 0)) \<longleftrightarrow> ival I r mod 2 ^ w \<noteq> 0"
    and "ival I r mod 2 ^ w \<noteq> 0 \<Longrightarrow>
      ival I (z_div (as_unsigned z l w) (as_unsigned z r w)) = ival I l mod 2 ^ w div (ival I r mod 2 ^ w)"
    and "ival I r mod 2 ^ w \<noteq> 0 \<Longrightarrow>
      ival I (z_mod (as_unsigned z l w) (as_unsigned z r w)) = ival I l mod 2 ^ w mod (ival I r mod 2 ^ w)"
    and "ival I r mod 2 ^ w \<noteq> 0 \<Longrightarrow>
      holds I (z_eq (z_mod (as_unsigned z l w) (as_unsigned z r w)) (z_int 0)) \<longleftrightarrow>
      ival I l mod 2 ^ w mod (ival I r mod 2 ^ w) = 0"
proof -
  have u: "ival I (as_unsigned z l w) = ival I l mod 2 ^ w" "ival I (as_unsigned z r w) = ival I r mod 2 ^ w"
    "is_int (as_unsigned z r w)" "is_int (as_unsigned z l w)"
    using ival_as_unsigned [OF z] ints z by simp_all
  define x where "x = ival I l mod 2 ^ w"
  define y where "y = ival I r mod 2 ^ w"
  have y: "0 \<le> y" by (simp add: y_def)
  note u = u [folded x_def y_def]
  show "holds I (z_ne (as_unsigned z r w) (z_int 0)) \<longleftrightarrow> ival I r mod 2 ^ w \<noteq> 0"
    unfolding y_def [symmetric] using u by (simp add: term_facts)
  assume "ival I r mod 2 ^ w \<noteq> 0"
  then have "y \<noteq> 0" by (simp add: y_def)
  then have nz: "y \<noteq> 0" "0 < y" using y by linarith+
  show "ival I (z_div (as_unsigned z l w) (as_unsigned z r w)) = ival I l mod 2 ^ w div (ival I r mod 2 ^ w)"
    unfolding x_def [symmetric] y_def [symmetric] using u nz by (simp add: ival_div ival_arith smt_div_def)
  show m: "ival I (z_mod (as_unsigned z l w) (as_unsigned z r w)) = ival I l mod 2 ^ w mod (ival I r mod 2 ^ w)"
    unfolding x_def [symmetric] y_def [symmetric] using u nz by (simp add: ival_div ival_arith smt_mod_def)
  show "holds I (z_eq (z_mod (as_unsigned z l w) (as_unsigned z r w)) (z_int 0)) \<longleftrightarrow>
      ival I l mod 2 ^ w mod (ival I r mod 2 ^ w) = 0"
    using holds_eq_zero [of "z_mod (as_unsigned z l w) (as_unsigned z r w)" I] u m by simp
qed

lemma binary_value:
  assumes z: "simplify_ok z" "check_ok z" and w: "1 < w"
    and ops: "operand_ok m I w op0 l" "operand_ok m I w op1 r" and path: "path_holds z I st"
    and s: "\<not> uses_integer_relaxation s"
    and ret: "binary_operation z m st i op fl w op0 op1 l r s = Inr ((v, d), s')" and d: "holds I d"
  shows "machine_defined op fl w (ival I l) (ival I r) \<and>
    ival I v mod 2 ^ w = machine_result op w (ival I l) (ival I r) mod 2 ^ w \<and>
    (represented op fl \<longrightarrow> in_range w (ival I v))"
proof -
  have ints: "is_int l" "is_int r" using ops by (simp_all add: operand_ok_def)
  have u: "ival I (as_unsigned z l w) = ival I l mod 2 ^ w" "ival I (as_unsigned z r w) = ival I r mod 2 ^ w"
    using ival_as_unsigned [OF z(1)] ints by simp_all
  note wv = wrapping_value [OF z w ops path s]
  note defs = binary_operation_def exec_simps Let_def
  note md = machine_defined_def machine_result_def represented_def Let_def
  have bits: "ival I (from_bv (App (g w) [to_bv l w, to_bv r w]) w) mod 2 ^ w =
        machine_result op' w (ival I l) (ival I r) mod 2 ^ w"
      "in_range w (ival I (from_bv (App (g w) [to_bv l w, to_bv r w]) w))"
    if "(op', g) \<in> {(OpAnd, OBAnd), (OpOr, OBOr), (OpXor, OBXor)}" for op' g
    using bits_value [OF w ints that, of I] w by (simp_all add: signed_of_in_range)
  show ?thesis
  proof (cases op)
    case OpAdd
    have *: "wrapping_operation z m st fl w (\<lambda>a b. z_add a b) OBAdd
        (\<lambda>a b. z_lt (z_add a b) (power_of_two z w)) op0 op1 l r s = Inr ((v, d), s')"
      using ret s OpAdd by (simp add: defs)
    show ?thesis
      using wv [OF *, of "(+)" "\<lambda>a b. a + b < 2 ^ w"] d z(1) OpAdd
      by (simp add: ival_arith mod_arith_cong holds_comparisons ival_power_of_two md)
  next
    case OpSub
    have *: "wrapping_operation z m st fl w (\<lambda>a b. z_sub a b) OBSub (\<lambda>a b. z_ge a b) op0 op1 l r s = Inr ((v, d), s')"
      using ret s OpSub by (simp add: defs)
    show ?thesis
      using wv [OF *, of "(-)" "\<lambda>a b. b \<le> a"] d z(1) OpSub
      by (simp add: ival_arith mod_arith_cong holds_comparisons md)
  next
    case OpMul
    have *: "wrapping_operation z m st fl w (\<lambda>a b. z_mul a b) OBMul
        (\<lambda>a b. z_lt (z_mul a b) (power_of_two z w)) op0 op1 l r s = Inr ((v, d), s')"
      using ret s OpMul by (simp add: defs)
    show ?thesis
      using wv [OF *, of "(*)" "\<lambda>a b. a * b < 2 ^ w"] d z(1) OpMul
      by (simp add: ival_arith mod_arith_cong holds_comparisons ival_power_of_two md)
  next
    case OpSDiv
    then have "sdiv_operation z m st i fl w op0 op1 l r s = Inr ((v, d), s')" using ret s by (simp add: defs)
    then show ?thesis using sdiv_value [OF z w ops path s _ d] OpSDiv by simp
  next
    case OpSRem
    then have "srem_operation z m st i w op0 op1 l r s = Inr ((v, d), s')" using ret s by (simp add: defs)
    then show ?thesis using srem_value [OF z w ops path s _ d] OpSRem by simp
  next
    case OpUDiv
    then have "v = z_div (as_unsigned z l w) (as_unsigned z r w)"
      "d = (if exact fl then z_and (z_ne (as_unsigned z r w) (z_int 0))
              (z_eq (z_mod (as_unsigned z l w) (as_unsigned z r w)) (z_int 0))
            else z_ne (as_unsigned z r w) (z_int 0))"
      using ret s by (simp_all add: defs)
    then show ?thesis using d unsigned_division_terms [OF z(1) ints, of I w] OpUDiv
      by (cases "exact fl") (simp_all add: holds_connectives(1) md)
  next
    case OpURem
    then have "v = z_mod (as_unsigned z l w) (as_unsigned z r w)" "d = z_ne (as_unsigned z r w) (z_int 0)"
      using ret s by (simp_all add: defs)
    then show ?thesis using d unsigned_division_terms [OF z(1) ints, of I w] OpURem by (simp add: md)
  next
    case OpAnd
    then have v: "v = from_bv (App (OBAnd w) [to_bv l w, to_bv r w]) w" using ret s by (simp add: defs)
    show ?thesis using bits [of OpAnd OBAnd] by (simp add: v OpAnd machine_defined_def)
  next
    case OpOr
    then have v: "v = from_bv (App (OBOr w) [to_bv l w, to_bv r w]) w" using ret s by (simp add: defs)
    show ?thesis using bits [of OpOr OBOr] by (simp add: v OpOr machine_defined_def)
  next
    case OpXor
    then have v: "v = from_bv (App (OBXor w) [to_bv l w, to_bv r w]) w" using ret s by (simp add: defs)
    show ?thesis using bits [of OpXor OBXor] by (simp add: v OpXor machine_defined_def)
  next
    case OpOther
    then show ?thesis using ret s by (simp add: defs)
  next
    case OpShl
    then have "shift_operation z op fl w l r = (v, d)" using ret s by (simp add: defs)
    then show ?thesis using shift_value [OF z(1) w ints _ _ d, of OpShl fl v] OpShl by simp
  next
    case OpLShr
    then have "shift_operation z op fl w l r = (v, d)" using ret s by (simp add: defs)
    then show ?thesis using shift_value [OF z(1) w ints _ _ d, of OpLShr fl v] OpLShr by simp
  next
    case OpAShr
    then have "shift_operation z op fl w l r = (v, d)" using ret s by (simp add: defs)
    then show ?thesis using shift_value [OF z(1) w ints _ _ d, of OpAShr fl v] OpAShr by simp
  qed
qed




lemma sample_path_holds: "path_holds closed_z3 zero_interp sample_state"
  by (simp add: path_holds_def sample_state_def new_state_def expression_cases_def as_expr_def piecewise2ite_def
      holds_not_false)



section \<open>Comparisons\<close>

definition machine_compare :: "predicate \<Rightarrow> nat \<Rightarrow> int \<Rightarrow> int \<Rightarrow> bool" where
  "machine_compare pred w a b =
     (let sa = signed_of w a; sb = signed_of w b; ua = a mod 2 ^ w; ub = b mod 2 ^ w
      in case pred of
           P_EQ \<Rightarrow> ua = ub | P_NE \<Rightarrow> ua \<noteq> ub
         | P_SLT \<Rightarrow> sa < sb | P_SLE \<Rightarrow> sa \<le> sb | P_SGT \<Rightarrow> sa > sb | P_SGE \<Rightarrow> sa \<ge> sb
         | P_ULT \<Rightarrow> ua < ub | P_ULE \<Rightarrow> ua \<le> ub | P_UGT \<Rightarrow> ua > ub | P_UGE \<Rightarrow> ua \<ge> ub)"

lemma equality_value:
  assumes z: "simplify_ok z" and w: "1 < w"
    and ops: "operand_ok m I w op0 l" "operand_ok m I w op1 r" and s: "\<not> uses_integer_relaxation s"
    and ret: "equality_comparison z m negated w op0 op1 l r s = Inr (v, s')"
  shows "holds I v \<longleftrightarrow> ((ival I l mod 2 ^ w = ival I r mod 2 ^ w) \<longleftrightarrow> \<not> negated)"
proof -
  have ints: "is_int l" "is_int r" using ops by (simp_all add: operand_ok_def)
  have n: "\<not> ignores_integer_width s w"
    using s by (simp add: ignores_integer_width_def uses_integer_relaxation_def)
  show ?thesis
  proof (cases "has_canonical_signed_representation m op0 \<and> has_canonical_signed_representation m op1")
    case True
    then have v: "v = (if negated then z_ne l r else z_eq l r)"
      using ret ints by (auto simp: equality_comparison_def same_sort_eq_def exec_simps split: if_splits)
    have "ival I l = signed_of w (ival I l)" "ival I r = signed_of w (ival I r)"
      using ops True w by (simp_all add: operand_ok_def)
    then have "ival I l = ival I r \<longleftrightarrow> ival I l mod 2 ^ w = ival I r mod 2 ^ w"
      using signed_of_eq_iff w by (metis less_trans zero_less_one)
    then show ?thesis using v ints by (simp add: holds_eq holds_ne eval_int)
  next
    case False
    let ?d = "z_mod (z_sub l r) (power_of_two z w)"
    have v: "v = (if negated then z_ne ?d (z_int 0) else z_eq ?d (z_int 0))"
      using ret ints False n by (auto simp: equality_comparison_def Let_def exec_simps split: if_splits)
    have "ival I ?d = (ival I l - ival I r) mod 2 ^ w"
      using ival_power_of_two [OF z, of I w] by (simp add: ival_div ival_arith smt_mod_def)
    then show ?thesis using v z ints by (simp add: term_facts mod_eq_dvd_iff dvd_eq_mod_eq_0)
  qed
qed



end
