(* ===== verification/Memory_Instructions.thy ===== *)
theory Memory_Instructions
  imports Integer_Instructions
begin

text \<open>
  The instructions on memory (lib/AInstruction.cpp): allocation, the resolution of pointers and of
  address computations, load, store, the copy and allocation routines, and the debug records.  An
  object that the code changes through a pointer is looked up again at its address, read, and put back.
\<close>

section \<open>Access to the memory of a state\<close>

definition with_memory :: "(session \<Rightarrow> memory \<Rightarrow> memory option) \<Rightarrow> exec_state \<Rightarrow> exec_state exec" where
  "with_memory f st = (\<lambda>s. case f s (mem st) of
     None \<Rightarrow> Inl AssertionFailed
   | Some mem' \<Rightarrow> Inr (st\<lparr>mem := mem'\<rparr>, s))"

definition store_ptr :: "llvm_module \<Rightarrow> value_id \<Rightarrow> mem_address \<Rightarrow> exec_state \<Rightarrow> exec_state exec" where
  "store_ptr m v p = with_memory (\<lambda>s. put_ptr s (name_of m) v p)"

text \<open>The object at an address is replaced by its update.\<close>

definition update_object ::
    "z3_api \<Rightarrow> mem_address \<Rightarrow> (memory_object \<Rightarrow> memory_object option) \<Rightarrow> exec_state \<Rightarrow> exec_state exec" where
  "update_object z addr f =
     with_memory (\<lambda>s mm. Option.bind (object_at z addr mm) (\<lambda>obj.
       map_option (\<lambda>obj'. replace_object_at z addr obj' mm) (f obj)))"

text \<open>The address a value points to; a value without an object or without a pointer is a crash.\<close>

definition pointer_of :: "value_id \<Rightarrow> exec_state \<Rightarrow> mem_address exec" where
  "pointer_of v st =
     bind_exec (need AssertionFailed (get_object v (mem st))) (\<lambda>obj.
       need AssertionFailed (get_ptr_value obj))"

definition extend_condition ::
    "z3_api \<Rightarrow> llvm_module \<Rightarrow> expression \<Rightarrow> exec_state \<Rightarrow> exec_state exec" where
  "extend_condition z m c st = need AssertionFailed (append_path_condition z m c st)"

text \<open>The condition that an expression is defined.\<close>

definition extend_defined ::
    "z3_api \<Rightarrow> llvm_module \<Rightarrow> expression \<Rightarrow> exec_state \<Rightarrow> exec_state exec" where
  "extend_defined z m e st =
     bind_exec (need AssertionFailed (defined_term z e)) (\<lambda>d. extend_condition z m (expression_of z d) st)"

section \<open>Allocation\<close>

definition execute_alloca ::
    "z3_api \<Rightarrow> llvm_module \<Rightarrow> value_id \<Rightarrow> bool \<Rightarrow> nat option \<Rightarrow> exec_state \<Rightarrow> exec_state list exec" where
  "execute_alloca z m i array_allocation elements st =
     (if array_allocation then fail AssertionFailed
      else let size = (case elements of Some n \<Rightarrow> n | None \<Rightarrow> 1)
           in bind_exec (with_memory (\<lambda>s. allocate z s (name_of m) i [z_int (int size)]) (copy_state st)) (\<lambda>st'.
                give [step_pc m None st']))"

section \<open>Addresses\<close>

text \<open>
  A pointer to a pointer is followed and the offsets on the way are appended.  The fuel bounds the
  length of the chain; more than the number of objects is a cycle, on which the code does not return.
\<close>

fun parse_ptr :: "nat \<Rightarrow> z3_api \<Rightarrow> memory_object option \<Rightarrow> exec_state \<Rightarrow> mem_address exec" where
  "parse_ptr 0 z ptr st = fail NotReturned"
| "parse_ptr (Suc n) z ptr st =
     (case ptr of
        None \<Rightarrow> fail RuntimeError
      | Some obj \<Rightarrow>
          (case get_ptr_value obj of
             None \<Rightarrow> fail RuntimeError
           | Some pointed_addr \<Rightarrow>
               (case object_at z pointed_addr (mem st) of
                  None \<Rightarrow> fail RuntimeError
                | Some pointed \<Rightarrow>
                    if \<not> is_pointer pointed then give pointed_addr
                    else bind_exec (parse_ptr n z (Some pointed) st) (\<lambda>addr.
                           give (addr\<lparr>addr_offset := addr_offset addr @ addr_offset pointed_addr\<rparr>)))))"

definition pointer_fuel :: "exec_state \<Rightarrow> nat" where
  "pointer_fuel st = Suc (length (stack_objects (m_stack (mem st))) + length (m_objects (mem st)))"

definition parse_gep ::
    "z3_api \<Rightarrow> llvm_module \<Rightarrow> value_id \<Rightarrow> value_id list \<Rightarrow> exec_state \<Rightarrow> mem_address exec" where
  "parse_gep z m ptr_operand indices st =
     (case get_object ptr_operand (mem st) of
        None \<Rightarrow> fail RuntimeError
      | Some ptr_obj \<Rightarrow>
          (case get_ptr_value ptr_obj of
             None \<Rightarrow> fail RuntimeError
           | Some pointed_addr \<Rightarrow>
               (case object_at z pointed_addr (mem st) of
                  None \<Rightarrow> fail RuntimeError
                | Some pointed \<Rightarrow>
                    bind_exec (if \<not> is_pointer pointed then give pointed_addr
                               else parse_ptr (pointer_fuel st) z (Some pointed) st) (\<lambda>addr.
                    bind_exec (each (\<lambda>ix. evaluate z m st ix True) indices) (\<lambda>offsets.
                      give (addr\<lparr>addr_offset := addr_offset addr @ offsets\<rparr>))))))"

section \<open>Load and store\<close>

definition execute_load :: "z3_api \<Rightarrow> llvm_module \<Rightarrow> value_id \<Rightarrow> value_id \<Rightarrow> exec_state \<Rightarrow> exec_state list exec" where
  "execute_load z m i ptr st =
     (let st1 = copy_state st
      in bind_exec (parse_ptr (pointer_fuel st1) z (get_object ptr (mem st1)) st1) (\<lambda>addr.
         bind_exec (fold_exec (extend_defined z m) (addr_offset addr) st1) (\<lambda>st2.
         bind_exec (need AssertionFailed (object_at z addr (mem st2))) (\<lambda>pointed.
         bind_exec (need AssertionFailed (read_at z (addr_offset addr) pointed)) (\<lambda>v.
         bind_exec (store_temp m i v st2) (\<lambda>st3.
           give [step_pc m None st3]))))))"

text \<open>A value whose representation is not known to be canonical is normalised before it is stored.\<close>

definition stored_value ::
    "z3_api \<Rightarrow> llvm_module \<Rightarrow> value_id \<Rightarrow> expression \<Rightarrow> exec_state \<Rightarrow> expression exec" where
  "stored_value z m v e st =
     (case int_width (ty_of m v) of
        None \<Rightarrow> give e
      | Some width \<Rightarrow>
          if has_canonical_signed_representation m v then give e
          else bind_exec (need AssertionFailed (as_expr z (path_condition st))) (\<lambda>c.
                 bind_exec (ask (\<lambda>s. canonicalize_signed z s e width c)) give))"

definition execute_store ::
    "z3_api \<Rightarrow> llvm_module \<Rightarrow> value_id \<Rightarrow> value_id \<Rightarrow> exec_state \<Rightarrow> exec_state list exec" where
  "execute_store z m ptr v st =
     (let st1 = copy_state st
      in bind_exec (pointer_of ptr st1) (\<lambda>addr.
         bind_exec (fold_exec (extend_defined z m) (addr_offset addr) st1) (\<lambda>st2.
         bind_exec (need AssertionFailed (get_object_pointed_by z ptr (mem st2))) (\<lambda>pointed.
         bind_exec (evaluate z m st v (obj_signed pointed)) (\<lambda>e.
         bind_exec (stored_value z m v e st2) (\<lambda>e'.
         bind_exec (update_object z addr (write_at z (addr_offset addr) e') st2) (\<lambda>st3.
           give [step_pc m None st3])))))))"

definition execute_gep ::
    "z3_api \<Rightarrow> llvm_module \<Rightarrow> value_id \<Rightarrow> value_id \<Rightarrow> value_id list \<Rightarrow> exec_state \<Rightarrow> exec_state list exec" where
  "execute_gep z m i ptr indices st =
     (let st1 = copy_state st
      in bind_exec (parse_gep z m ptr indices st1) (\<lambda>addr.
         bind_exec (need AssertionFailed (object_at z addr (mem st1))) (\<lambda>target.
         let addr' = (if length (obj_sizes target) < length (addr_offset addr)
                      then addr\<lparr>addr_offset := tl (addr_offset addr)\<rparr> else addr)
         in bind_exec (store_ptr m i addr' st1) (\<lambda>st2. give [step_pc m None st2]))))"

text \<open>A loop does not store to the object a pointer resolves to; objects are compared by identity.\<close>

definition object_reference :: "z3_api \<Rightarrow> mem_address \<Rightarrow> exec_state \<Rightarrow> (bool \<times> nat option) option" where
  "object_reference z addr st =
     (case object_at z addr (mem st) of
        None \<Rightarrow> None
      | Some _ \<Rightarrow> Some (addr_loc addr = STACK, numeral_of z (addr_base addr)))"

fun none_stores ::
    "z3_api \<Rightarrow> llvm_module \<Rightarrow> mem_address \<Rightarrow> exec_state \<Rightarrow> value_id list \<Rightarrow> bool exec" where
  "none_stores z m addr st [] = give True"
| "none_stores z m addr st (i # is) =
     (case kind_of m i of
        Inst (Store p _) \<Rightarrow>
          bind_exec (parse_ptr (pointer_fuel st) z (get_object p (mem st)) st) (\<lambda>a.
            if object_reference z addr st = object_reference z a st then give False
            else none_stores z m addr st is)
      | _ \<Rightarrow> none_stores z m addr st is)"

definition is_invariant_load :: "z3_api \<Rightarrow> llvm_module \<Rightarrow> loop_id \<Rightarrow> value_id \<Rightarrow> exec_state \<Rightarrow> bool exec" where
  "is_invariant_load z m loop ptr st =
     bind_exec (parse_ptr (pointer_fuel st) z (get_object ptr (mem st)) st) (\<lambda>addr.
       none_stores z m addr st (concat (map (insts_of m) (loop_blocks m loop))))"

section \<open>Copy and allocation routines\<close>

text \<open>The value of a numeral that fits a 64-bit integer; anything else is an exception.\<close>

definition as_int64 :: "z3expr \<Rightarrow> int option" where
  "as_int64 e = (case numeral_value e of
     Some n \<Rightarrow> if - (2 ^ 63) \<le> n \<and> n < 2 ^ 63 then Some n else None
   | None \<Rightarrow> None)"

definition copy_element ::
    "z3_api \<Rightarrow> mem_address \<Rightarrow> mem_address \<Rightarrow> nat \<Rightarrow> exec_state \<Rightarrow> exec_state exec" where
  "copy_element z dst src k st =
     (let idx = expression_of z (z_int (int k))
      in bind_exec (need AssertionFailed (object_at z src (mem st))) (\<lambda>src_obj.
         bind_exec (need AssertionFailed (Option.bind (read_at z [idx] src_obj) (as_expr z))) (\<lambda>v.
           update_object z dst (write_at z [idx] (expression_of z v)) st)))"

definition execute_memcpy ::
    "z3_api \<Rightarrow> llvm_module \<Rightarrow> value_id \<Rightarrow> value_id \<Rightarrow> value_id \<Rightarrow> exec_state \<Rightarrow> exec_state exec" where
  "execute_memcpy z m dst src len st =
     bind_exec (evaluate z m st len True) (\<lambda>len_value.
     bind_exec (need AssertionFailed (as_expr z len_value)) (\<lambda>len_term.
     bind_exec (need RuntimeError (as_int64 len_term)) (\<lambda>bytes.
       let words = nat (bytes sdiv 4); st1 = copy_state st
       in bind_exec
            (if words = 0 then give st1
             else bind_exec (pointer_of dst st1) (\<lambda>dst_addr.
                  bind_exec (pointer_of src st1) (\<lambda>src_addr.
                    fold_exec (copy_element z dst_addr src_addr) [0..<words] st1))) (\<lambda>st2.
          give (step_pc m None st2)))))"

text \<open>The first constant factor four of a product, with the other factor.\<close>

definition is_four :: "llvm_module \<Rightarrow> value_id \<Rightarrow> bool" where
  "is_four m v = (case kind_of m v of ConstInt _ uval \<Rightarrow> uval = 4 | _ \<Rightarrow> False)"

definition element_factor :: "llvm_module \<Rightarrow> value_id \<Rightarrow> value_id option" where
  "element_factor m v =
     (case kind_of m v of
        Inst (Binary OpMul _ a b) \<Rightarrow> if is_four m a then Some b else if is_four m b then Some a else None
      | _ \<Rightarrow> None)"

definition element_count ::
    "z3_api \<Rightarrow> llvm_module \<Rightarrow> value_id \<Rightarrow> nat \<Rightarrow> expression \<Rightarrow> exec_state \<Rightarrow> z3expr exec" where
  "element_count z m size_bytes width size_expr st =
     bind_exec (need AssertionFailed (as_expr z size_expr)) (\<lambda>bytes.
     bind_exec (unsigned_value z st bytes width) (\<lambda>u.
     case element_factor m size_bytes of
       None \<Rightarrow> give (z_simplify z (z_div u (z_int 4)))
     | Some factor \<Rightarrow>
         bind_exec (evaluate z m st factor True) (\<lambda>candidate.
         bind_exec (need AssertionFailed (as_expr z candidate)) (\<lambda>c.
         bind_exec (ask uses_integer_relaxation) (\<lambda>relaxed.
           give (if relaxed then as_int c
                 else z_simplify z (z_mod (as_unsigned z c width) (power_of_two z (width - 2)))))))))"

definition execute_malloc ::
    "z3_api \<Rightarrow> llvm_module \<Rightarrow> value_id \<Rightarrow> value_id \<Rightarrow> exec_state \<Rightarrow> exec_state exec" where
  "execute_malloc z m i size_bytes st =
     bind_exec (evaluate z m st size_bytes True) (\<lambda>size_expr.
     bind_exec (need AssertionFailed (int_width (ty_of m size_bytes))) (\<lambda>width.
     bind_exec (element_count z m size_bytes width size_expr st) (\<lambda>count.
     bind_exec (ask uses_integer_relaxation) (\<lambda>relaxed.
     bind_exec
       (if relaxed
        then bind_exec (extend_defined z m size_expr (copy_state st)) (\<lambda>st1.
             bind_exec (need AssertionFailed (as_expr z size_expr)) (\<lambda>bytes.
               extend_condition z m (expression_of z (z_ge (as_int bytes) (z_int 0))) st1))
        else give (copy_state st)) (\<lambda>st2.
     bind_exec (with_memory (\<lambda>s mm. Some (heap_alloca z s (name_of m) i [count] mm)) st2) (\<lambda>st3.
       give (step_pc m None st3)))))))"

section \<open>Debug records\<close>

definition execute_debug :: "z3_api \<Rightarrow> llvm_module \<Rightarrow> value_id \<Rightarrow> exec_state \<Rightarrow> exec_state list exec" where
  "execute_debug z m i st =
     bind_exec
       (case kind_of m i of
          Inst (DbgDeclare v) \<Rightarrow> if is_ptr_ty m v then give st else fail AssertionFailed
        | Inst (DbgValue v bits) \<Rightarrow>
            if \<not> is_ptr_ty m v \<or> bits \<noteq> 64 then give st
            else bind_exec (pointer_of v st) (\<lambda>addr.
                   update_object z addr (\<lambda>obj. Some (obj\<lparr>obj_sizes :=
                     map (\<lambda>size. e_div z size (expression_of z (z_int 2))) (obj_sizes obj)\<rparr>)) st)
        | _ \<Rightarrow> give st) (\<lambda>st'.
       give [step_pc m None st'])"

end
