(* ===== verification/Call_Instructions.thy ===== *)
theory Call_Instructions
  imports Memory_Instructions
begin

text \<open>
  Calls and returns (lib/AInstruction.cpp, \<open>AInstructionCall\<close> and \<open>AInstructionReturn\<close>): assertions,
  assumptions, inputs, the cache of function values, function summaries, and frames.
\<close>

section \<open>The environment of the executor\<close>

text \<open>
  What the executor is given: the solver, the module, the environment variables, the solver's
  evaluation of a term in the model of a formula without completion, and the components that
  summarise a function or a loop or accelerate a path, which run the executor in turn.
\<close>

record acceleration =
  acc_jump :: exec_state
  acc_covered :: z3expr

record exec_env =
  env_z3 :: z3_api
  env_module :: llvm_module
  env_getenv :: "string \<Rightarrow> string option"
  env_partial_eval :: "z3expr \<Rightarrow> z3expr \<Rightarrow> z3expr"
  summarize_function :: "function_id \<Rightarrow> function_summary option exec"
  summarize_loop :: "loop_id \<Rightarrow> exec_state \<Rightarrow> loop_summary option exec"
  accelerate_path :: "loop_id \<Rightarrow> exec_state \<Rightarrow> path_schema \<Rightarrow> acceleration option exec"
  accelerate_nested :: "loop_id \<Rightarrow> exec_state \<Rightarrow> exec_state option exec"
  header_control :: "loop_id \<Rightarrow> bool"

definition term_of :: "z3_api \<Rightarrow> expression \<Rightarrow> z3expr exec" where
  "term_of z e = need AssertionFailed (as_expr z e)"

definition substituted :: "z3expr list \<Rightarrow> z3expr list \<Rightarrow> z3expr \<Rightarrow> z3expr exec" where
  "substituted src dst e = need AssertionFailed (substitute_all src dst e)"

section \<open>Verification and assumption\<close>

text \<open>A condition as a truth value: an integer is compared with zero.\<close>

definition as_condition :: "z3_api \<Rightarrow> expression \<Rightarrow> expression exec" where
  "as_condition z e =
     bind_exec (term_of z e) (\<lambda>t.
       give (if is_bool t then e else e_ne z e (expression_of z (z_int 0))))"

definition execute_assert :: "z3_api \<Rightarrow> llvm_module \<Rightarrow> value_id \<Rightarrow> exec_state \<Rightarrow> exec_state exec" where
  "execute_assert z m cond st =
     bind_exec (evaluate z m st cond True) (\<lambda>e.
     bind_exec (as_condition z e) (\<lambda>c.
       let st' = step_pc m None (clone_state_preserving_type st)
       in give (if is_summarizing st
                then st'\<lparr>summary_invariants := summary_invariants st' @ [c], status_of := RUNNING\<rparr>
                else st'\<lparr>status_of := VERIFYING, verification_condition := c\<rparr>)))"

definition execute_reach_error :: "exec_state \<Rightarrow> exec_state" where
  "execute_reach_error st = st\<lparr>status_of := REACH_ERROR\<rparr>"

definition execute_assume :: "z3_api \<Rightarrow> llvm_module \<Rightarrow> value_id \<Rightarrow> exec_state \<Rightarrow> exec_state exec" where
  "execute_assume z m cond st =
     bind_exec (evaluate z m st cond True) (\<lambda>c.
     bind_exec (extend_condition z m c (copy_state st)) (\<lambda>st'.
       give ((step_pc m None st')\<lparr>status_of := TESTING\<rparr>)))"

section \<open>Unknown functions\<close>

definition is_nondet_name :: "string \<Rightarrow> bool" where
  "is_nondet_name name = starts_with name ''__VERIFIER_nondet_''"

text \<open>The range of a signed integer of the common widths.\<close>

definition standard_width :: "nat \<Rightarrow> bool" where
  "standard_width w = (w = 8 \<or> w = 16 \<or> w = 32 \<or> w = 64)"

definition unknown_name :: "llvm_module \<Rightarrow> value_id \<Rightarrow> nat \<Rightarrow> string" where
  "unknown_name m i n = ''ari_'' @ name_of m i @ ''_unknown_'' @ nat_to_string n"

definition unknown_result :: "llvm_module \<Rightarrow> value_id \<Rightarrow> nat \<Rightarrow> z3expr exec" where
  "unknown_result m i n =
     (case ty_of m i of
        IntTy w \<Rightarrow> give (z_const (unknown_name m i n) (if w = 1 then BoolSort else IntSort))
      | FloatTy \<Rightarrow> fail FloatingPoint
      | _ \<Rightarrow> fail RuntimeError)"

definition constrain_width ::
    "z3_api \<Rightarrow> llvm_module \<Rightarrow> value_id \<Rightarrow> expression \<Rightarrow> exec_state \<Rightarrow> exec_state exec" where
  "constrain_width z m i result st =
     (case int_width (ty_of m i) of
        Some w \<Rightarrow>
          if \<not> standard_width w then give st
          else bind_exec (extend_condition z m
                    (e_ge z result (expression_of z (z_int (- (2 ^ (w - 1)))))) st) (\<lambda>st'.
                 extend_condition z m (e_le z result (expression_of z (z_int (2 ^ (w - 1) - 1)))) st')
      | None \<Rightarrow> give st)"

definition execute_unknown ::
    "z3_api \<Rightarrow> llvm_module \<Rightarrow> value_id \<Rightarrow> function_id option \<Rightarrow> exec_state \<Rightarrow> exec_state exec" where
  "execute_unknown z m i callee st =
     (let nondet = (case callee of Some f \<Rightarrow> is_nondet_name (func_name m f) | None \<Rightarrow> False)
      in bind_exec (with_session (next_call_value_id i)) (\<lambda>n.
         bind_exec (unknown_result m i n) (\<lambda>r.
         bind_exec (store_temp m i (expression_of z r) (copy_state st)) (\<lambda>st1.
         bind_exec (term_of z (expression_of z r)) (\<lambda>t.
         bind_exec (constrain_nondet_input z m i (expression_of z r)
             (if nondet then st1\<lparr>nondet_calls := nondet_calls st1 @ [nondet_single i t]\<rparr> else st1)) (\<lambda>st2.
         bind_exec (ask uses_integer_relaxation) (\<lambda>relaxed.
         bind_exec (if nondet \<and> \<not> relaxed then constrain_width z m i (expression_of z r) st2
                    else give st2) (\<lambda>st3.
           give (step_pc m None st3)))))))))"

section \<open>The cache of function values\<close>

text \<open>The arguments as concrete integers, if the path condition fixes them all.\<close>

fun concrete_arguments ::
    "z3_api \<Rightarrow> llvm_module \<Rightarrow> exec_state \<Rightarrow> interp \<Rightarrow> value_id list \<Rightarrow> int list option exec" where
  "concrete_arguments z m st M [] = give (Some [])"
| "concrete_arguments z m st M (v # vs) =
     bind_exec (evaluate z m st v True) (\<lambda>e.
     bind_exec (term_of z e) (\<lambda>t.
     bind_exec (is_concrete z st e (expression_of z (model_eval M t))) (\<lambda>fixed.
       if \<not> fixed then give None
       else bind_exec (need RuntimeError (as_int64 (model_eval M t))) (\<lambda>n.
            bind_exec (concrete_arguments z m st M vs) (\<lambda>ns.
              give (map_option (\<lambda>ns. n # ns) ns))))))"

definition execute_cache ::
    "z3_api \<Rightarrow> llvm_module \<Rightarrow> value_id \<Rightarrow> function_id \<Rightarrow> value_id list \<Rightarrow> exec_state \<Rightarrow> exec_state option exec"
  where
  "execute_cache z m i f actuals st =
     (if list_ex (is_ptr_ty m) actuals then give None
      else bind_exec (get_model z st) (\<lambda>M.
           bind_exec (concrete_arguments z m st M actuals) (\<lambda>known.
           case known of
             None \<Rightarrow> give None
           | Some ns \<Rightarrow>
               bind_exec (ask (\<lambda>s. get_func_value (function_cache s) f ns)) (\<lambda>hit.
                 case hit of
                   None \<Rightarrow> give None
                 | Some n \<Rightarrow>
                     bind_exec (store_temp m i (expression_of z (z_int n)) (copy_state st)) (\<lambda>st'.
                       give (Some (step_pc m None st')))))))"

definition top_frame :: "exec_state \<Rightarrow> stack_frame option" where
  "top_frame st = (case frames (m_stack (mem st)) of [] \<Rightarrow> None | f # _ \<Rightarrow> Some f)"

text \<open>The value of a call is cached for the arguments of the frame when both are concrete.\<close>

definition cache_return_value ::
    "exec_env \<Rightarrow> expression \<Rightarrow> exec_state \<Rightarrow> unit exec" where
  "cache_return_value E result st =
     (let z = env_z3 E; m = env_module E
      in bind_exec (get_model z st) (\<lambda>M.
         bind_exec (term_of z result) (\<lambda>t.
         bind_exec (term_of z (path_condition st)) (\<lambda>c.
         let value = env_partial_eval E c t
         in bind_exec (is_concrete z st result (expression_of z value)) (\<lambda>fixed.
            if \<not> fixed then give ()
            else bind_exec (need AssertionFailed (Option.bind (top_frame st) frame_func)) (\<lambda>f.
                 bind_exec (concrete_arguments z m st M (args_of m f)) (\<lambda>known.
                 case known of
                   None \<Rightarrow> give ()
                 | Some ns \<Rightarrow>
                     bind_exec (need RuntimeError (as_int64 value)) (\<lambda>n.
                       with_session (\<lambda>s. ((), s\<lparr>function_cache :=
                         cache_func_value f ns n (function_cache s)\<rparr>))))))))))"


section \<open>Functions with a definition\<close>

text \<open>All arguments are scalars with a literal value; the first that is not ends the search.\<close>

fun concrete_scalar_call :: "z3_api \<Rightarrow> llvm_module \<Rightarrow> exec_state \<Rightarrow> value_id list \<Rightarrow> bool exec" where
  "concrete_scalar_call z m st [] = give True"
| "concrete_scalar_call z m st (v # vs) =
     (if is_ptr_ty m v then give False
      else bind_exec (evaluate z m st v True) (\<lambda>e.
           bind_exec (term_of z e) (\<lambda>t.
             if is_numeral (z_simplify z t) then concrete_scalar_call z m st vs else give False)))"

text \<open>The first call of a recursive function outside a summarizer summarises it.\<close>

definition summarize_first_call :: "exec_env \<Rightarrow> function_id \<Rightarrow> exec_state \<Rightarrow> unit exec" where
  "summarize_first_call E f st =
     bind_exec (ask (\<lambda>s. (is_visited (function_cache s) f, function_summaries s f))) (\<lambda>(visited, known).
       if \<not> visited \<and> \<not> is_summarizing st \<and> is_recursive (env_module E) f \<and> known = None
       then bind_exec (with_session (\<lambda>s. ((), s\<lparr>function_cache := mark_visited f (function_cache s)\<rparr>))) (\<lambda>_.
            bind_exec (summarize_function E f) (\<lambda>summary.
              case summary of
                None \<Rightarrow> give ()
              | Some fs \<Rightarrow> with_session (\<lambda>s. ((), s\<lparr>function_summaries :=
                  insert_or_assign f fs (function_summaries s)\<rparr>))))
       else give ())"

definition source_parameters ::
    "llvm_module \<Rightarrow> value_id list \<Rightarrow> z3expr list \<Rightarrow> (string \<times> z3expr) list option" where
  "source_parameters m formals params =
     map_options (\<lambda>(v, p). map_option (\<lambda>(name, _). (name, p)) (source_variable m v)) (zip formals params)"

definition certify_function ::
    "z3_api \<Rightarrow> llvm_module \<Rightarrow> function_id \<Rightarrow> function_summary \<Rightarrow> exec_state \<Rightarrow> exec_state exec" where
  "certify_function z m f fs st =
     (if length (fs_params fs) \<noteq> length (args_of m f) then give st
      else case source_parameters m (args_of m f) (fs_params fs) of
             None \<Rightarrow> give st
           | Some params \<Rightarrow>
               if list_ex (\<lambda>c. cert_function c = f) (function_certificates st) then give st
               else bind_exec (term_of z (fs_value fs)) (\<lambda>t.
                      give (st\<lparr>function_certificates := function_certificates st @
                        [\<lparr>cert_function = f, cert_parameters = params, cert_result = t\<rparr>]\<rparr>)))"

definition function_instructions :: "llvm_module \<Rightarrow> function_id \<Rightarrow> value_id list" where
  "function_instructions m f = concat (map (insts_of m) (blocks_of m f))"

definition nondet_callee :: "llvm_module \<Rightarrow> value_id \<Rightarrow> bool" where
  "nondet_callee m i = (case kind_of m i of
     Inst (Call (Some g) _) \<Rightarrow> is_nondet_name (func_name m g) | _ \<Rightarrow> False)"

text \<open>An exact summary: the call has the value of the summary at its arguments.\<close>

definition apply_exact_summary ::
    "exec_env \<Rightarrow> value_id \<Rightarrow> function_id \<Rightarrow> value_id list \<Rightarrow> function_summary \<Rightarrow> exec_state \<Rightarrow> exec_state exec"
  where
  "apply_exact_summary E i f actuals fs st =
     (let z = env_z3 E; m = env_module E
      in bind_exec (certify_function z m f fs (clone_state_preserving_type st)) (\<lambda>st1.
         let st2 = (if list_ex (nondet_callee m) (function_instructions m f)
                    then st1\<lparr>counterexample_complete := False\<rparr> else st1)
         in bind_exec (each (\<lambda>v. evaluate z m st v True) actuals) (\<lambda>es.
            bind_exec (need AssertionFailed (evaluate_function z fs es)) (\<lambda>r.
            bind_exec (store_temp m i r st2) (\<lambda>st3.
              give (step_pc m None st3))))))"

text \<open>An over-approximating summary: every pointed object gets an unknown value, related to the old
  values by the conditions of the summary.\<close>

definition unknown_argument ::
    "z3_api \<Rightarrow> llvm_module \<Rightarrow> value_id \<Rightarrow> value_id \<Rightarrow> (z3expr list \<times> z3expr list) \<times> exec_state \<Rightarrow>
     ((z3expr list \<times> z3expr list) \<times> exec_state) exec" where
  "unknown_argument z m i v =
     (\<lambda>((initial, unknowns), st).
       if \<not> is_ptr_ty m v then fail AssertionFailed
       else bind_exec (pointer_of v st) (\<lambda>addr.
            bind_exec (need AssertionFailed (object_at z addr (mem st))) (\<lambda>obj.
            bind_exec (need AssertionFailed (Option.bind (read_object z obj) (as_expr z))) (\<lambda>old.
            bind_exec (with_session (next_call_value_id i)) (\<lambda>n.
              let unknown = z_int_const (name_of m v @ ''_unknwon_over_approximated'' @ nat_to_string n)
              in bind_exec (update_object z addr
                     (\<lambda>obj. Some (write_object (expression_of z unknown) obj)) st) (\<lambda>st'.
                   give ((initial @ [old], unknowns @ [unknown]), st')))))))"

definition assume_term :: "z3_api \<Rightarrow> llvm_module \<Rightarrow> z3expr \<Rightarrow> exec_state \<Rightarrow> exec_state exec" where
  "assume_term z m t st = extend_condition z m (expression_of z t) st"

definition apply_over_approx_summary ::
    "exec_env \<Rightarrow> value_id \<Rightarrow> value_id list \<Rightarrow> function_summary \<Rightarrow> exec_state \<Rightarrow> exec_state exec" where
  "apply_over_approx_summary E i actuals fs st =
     (let z = env_z3 E; m = env_module E; params = fs_params fs
      in bind_exec (fold_exec (unknown_argument z m i) actuals (([], []), clone_state_preserving_type st))
           (\<lambda>((initial, unknowns), st1).
         bind_exec (fold_exec (\<lambda>(lhs, rhs) acc.
             bind_exec (substituted params unknowns lhs) (\<lambda>l.
             bind_exec (substituted params initial rhs) (\<lambda>r.
               assume_term z m (z_eq l (z_simplify z r)) acc))) (fs_over_approx fs) st1) (\<lambda>st2.
         bind_exec (substituted params unknowns (get_exit_condition fs)) (\<lambda>c1.
         bind_exec (assume_term z m c1 st2) (\<lambda>st3.
         bind_exec (substituted params initial (get_iteration_condition fs)) (\<lambda>c2.
         bind_exec (assume_term z m c2 st3) (\<lambda>st4.
         bind_exec (substituted (fs_final_params fs) unknowns (get_relational_condition fs)) (\<lambda>c3.
         bind_exec (substituted (fs_initial_params fs) initial c3) (\<lambda>c4.
         bind_exec (assume_term z m c4 st4) (\<lambda>st5.
           give ((step_pc m None st5)\<lparr>is_over_approx := True\<rparr>)))))))))))"

text \<open>Entering a function: a new frame that returns to the call, with the arguments bound.\<close>

definition set_return_pc :: "value_id option \<Rightarrow> exec_state \<Rightarrow> exec_state" where
  "set_return_pc ret st =
     (case frames (m_stack (mem st)) of
        [] \<Rightarrow> st
      | f # fs \<Rightarrow> st\<lparr>mem := (mem st)\<lparr>m_stack := (m_stack (mem st))\<lparr>frames := f\<lparr>frame_prev_pc := ret\<rparr> # fs\<rparr>\<rparr>\<rparr>)"

definition bind_argument ::
    "z3_api \<Rightarrow> llvm_module \<Rightarrow> exec_state \<Rightarrow> value_id \<times> value_id \<Rightarrow> exec_state \<Rightarrow> exec_state exec" where
  "bind_argument z m caller =
     (\<lambda>(actual, formal) st.
       if is_ptr_ty m formal
       then bind_exec (pointer_of actual caller) (\<lambda>p. store_ptr m formal p st)
       else bind_exec (evaluate z m caller actual True) (\<lambda>e. store_temp m formal e st))"

definition enter_function ::
    "z3_api \<Rightarrow> llvm_module \<Rightarrow> function_id \<Rightarrow> value_id list \<Rightarrow> exec_state \<Rightarrow> exec_state exec" where
  "enter_function z m f actuals st =
     (let st0 = clone_state_preserving_type st;
          st1 = set_return_pc (pc st) (st0\<lparr>mem := memory_push z (Some f) (mem st0)\<rparr>)
      in if length (args_of m f) < length actuals then fail AssertionFailed
         else bind_exec (fold_exec (bind_argument z m st) (zip actuals (args_of m f)) st1) (\<lambda>st2.
              bind_exec (need AssertionFailed (case blocks_of m f of
                  [] \<Rightarrow> None | entry # _ \<Rightarrow> first_non_phi_or_dbg m entry)) (\<lambda>first.
                give (step_pc m (Some first) st2))))"

definition execute_normal ::
    "exec_env \<Rightarrow> value_id \<Rightarrow> function_id \<Rightarrow> value_id list \<Rightarrow> exec_state \<Rightarrow> exec_state exec" where
  "execute_normal E i f actuals st =
     (let z = env_z3 E; m = env_module E
      in bind_exec (execute_cache z m i f actuals st) (\<lambda>hit.
         case hit of
           Some st' \<Rightarrow> give st'
         | None \<Rightarrow>
             bind_exec (summarize_first_call E f st) (\<lambda>_.
             bind_exec (ask (\<lambda>s. get_value (function_summaries s) f)) (\<lambda>summary.
             bind_exec (concrete_scalar_call z m st actuals) (\<lambda>concrete.
               case summary of
                 None \<Rightarrow>
                   if is_recursive m f \<and> \<not> is_summarizing st \<and> \<not> concrete
                   then give ((clone_state_preserving_type st)\<lparr>status_of := UNKNOWN\<rparr>)
                   else enter_function z m f actuals st
               | Some fs \<Rightarrow>
                   if \<not> function_over_approximated fs then apply_exact_summary E i f actuals fs st
                   else apply_over_approx_summary E i actuals fs st)))))"

text \<open>The call as the application of an uninterpreted function, for the recurrences of a function.\<close>

definition naive_argument :: "z3_api \<Rightarrow> llvm_module \<Rightarrow> exec_state \<Rightarrow> value_id \<Rightarrow> z3expr exec" where
  "naive_argument z m st v =
     bind_exec (if is_ptr_ty m v then bind_exec (pointer_of v st) (\<lambda>p. give (addr_base p))
                else evaluate z m st v True) (\<lambda>e.
     bind_exec (term_of z e) (\<lambda>t. if is_int t then give t else fail RuntimeError))"

definition execute_naively ::
    "z3_api \<Rightarrow> llvm_module \<Rightarrow> value_id \<Rightarrow> function_id \<Rightarrow> value_id list \<Rightarrow> exec_state \<Rightarrow> exec_state list exec" where
  "execute_naively z m i f actuals st =
     bind_exec (each (naive_argument z m st) actuals) (\<lambda>ts.
     bind_exec (store_temp m i (expression_of z (App (OUninterp (''ari_'' @ func_name m f) IntSort) ts))
         (copy_state st)) (\<lambda>st'.
       give [step_pc m None st']))"

definition execute_if_not_target ::
    "exec_env \<Rightarrow> value_id \<Rightarrow> function_id \<Rightarrow> value_id list \<Rightarrow> function_id \<Rightarrow> exec_state \<Rightarrow> exec_state list exec" where
  "execute_if_not_target E i f actuals target st =
     (if f = target then execute_naively (env_z3 E) (env_module E) i f actuals st
      else bind_exec (execute_normal E i f actuals st) (\<lambda>st'. give [st']))"

section \<open>The dispatch of calls\<close>

text \<open>Integer arguments that must not be undefined extend the condition of a clone.\<close>

definition consumes_noundef :: "llvm_module \<Rightarrow> (value_id \<times> bool) list \<Rightarrow> value_id list" where
  "consumes_noundef m actuals = map fst (filter (\<lambda>(v, noundef). is_int_ty m v \<and> noundef) actuals)"

definition call_state ::
    "z3_api \<Rightarrow> llvm_module \<Rightarrow> (value_id \<times> bool) list \<Rightarrow> exec_state \<Rightarrow> exec_state exec" where
  "call_state z m actuals st =
     (if consumes_noundef m actuals = [] then give st
      else fold_exec (\<lambda>v acc. bind_exec (evaluate z m st v True) (\<lambda>e. extend_defined z m e acc))
             (consumes_noundef m actuals) (clone_state_preserving_type st))"

definition infeasible_call ::
    "z3_api \<Rightarrow> llvm_module \<Rightarrow> (value_id \<times> bool) list \<Rightarrow> exec_state \<Rightarrow> bool exec" where
  "infeasible_call z m actuals st =
     (if consumes_noundef m actuals = [] then give False
      else bind_exec (term_of z (path_condition st)) (\<lambda>c. give (\<not> is_feasible z c None)))"

text \<open>A call by the name of its function; a missing argument operand is a crash.\<close>

definition execute_call_kind ::
    "exec_env \<Rightarrow> value_id \<Rightarrow> function_id option \<Rightarrow> value_id list \<Rightarrow> exec_state \<Rightarrow> exec_state exec" where
  "execute_call_kind E i callee actuals st =
     (let z = env_z3 E; m = env_module E; operand = (\<lambda>k. need AssertionFailed (nth_option actuals k))
      in case callee of
           None \<Rightarrow> execute_unknown z m i None st
         | Some f \<Rightarrow>
             let name = func_name m f
             in if ends_with name ''assert''
                then bind_exec (operand 0) (\<lambda>c. execute_assert z m c st)
                else if contains_str name ''reach_error'' \<or> name = ''__VERIFIER_error''
                then give (execute_reach_error st)
                else if contains_str name ''assume''
                then bind_exec (operand 0) (\<lambda>c. execute_assume z m c st)
                else if contains_str name ''malloc''
                then bind_exec (operand 0) (\<lambda>v. execute_malloc z m i v st)
                else if exact_definition m f then execute_normal E i f actuals st
                else if contains_str name ''llvm.stacksave.p0''
                then bind_exec (store_temp m i (expression_of z (z_int 0)) st) (\<lambda>st'.
                       give (step_pc m None st'))
                else if contains_str name ''llvm.stackrestore.p0'' then give (step_pc m None st)
                else if contains_str name ''llvm.memcpy''
                then bind_exec (operand 0) (\<lambda>dst. bind_exec (operand 1) (\<lambda>src.
                     bind_exec (operand 2) (\<lambda>len. execute_memcpy z m dst src len st)))
                else execute_unknown z m i (Some f) st)"

definition execute_call ::
    "exec_env \<Rightarrow> value_id \<Rightarrow> function_id option \<Rightarrow> (value_id \<times> bool) list \<Rightarrow> exec_state \<Rightarrow> exec_state list exec" where
  "execute_call E i callee actuals st =
     bind_exec (call_state (env_z3 E) (env_module E) actuals st) (\<lambda>st1.
     bind_exec (infeasible_call (env_z3 E) (env_module E) actuals st1) (\<lambda>infeasible.
       if infeasible then give []
       else bind_exec (execute_call_kind E i callee (map fst actuals) st1) (\<lambda>st2. give [st2])))"

section \<open>Return\<close>

text \<open>A return in the last frame ends the execution; any other resumes after its call.\<close>

definition execute_return ::
    "exec_env \<Rightarrow> value_id option \<Rightarrow> exec_state \<Rightarrow> exec_state list exec" where
  "execute_return E ret_value st =
     (let z = env_z3 E; m = env_module E
      in if length (frames (m_stack (mem st))) = 1 then give [st\<lparr>status_of := TERMINATED\<rparr>]
         else let st0 = copy_state st
              in bind_exec (need AssertionFailed (memory_pop z (mem st0))) (\<lambda>(frame, mem').
                 let st1 = step_pc m (frame_prev_pc frame) (st0\<lparr>mem := mem'\<rparr>)
                 in bind_exec (need AssertionFailed (pc st1)) (\<lambda>call.
                    bind_exec
                      (case ret_value of
                         None \<Rightarrow> give st1
                       | Some v \<Rightarrow>
                           bind_exec (evaluate z m st v True) (\<lambda>e.
                           bind_exec (case kind_of m call of
                               Inst (Call _ _) \<Rightarrow> store_temp m call e st1
                             | _ \<Rightarrow> fail AssertionFailed) (\<lambda>st2.
                           bind_exec (cache_return_value E e st) (\<lambda>_. give st2)))) (\<lambda>st3.
                      give [step_pc m None st3]))))"

end
