(* ===== verification/Control_Instructions.thy ===== *)
theory Control_Instructions
  imports Call_Instructions
begin

text \<open>
  Branches, selections and the first instruction of a loop (lib/AInstruction.cpp): the history of the
  completed paths of a loop, the application of a loop summary, the choice between summary,
  acceleration and one more iteration, and the dispatch on the class of an instruction.
\<close>

section \<open>Branch and select\<close>

text \<open>The addresses of instructions and of blocks, which identify the decisions of a path.\<close>

definition value_address :: "value_id \<Rightarrow> nat" where
  "value_address v = 2 * v"

definition block_address :: "block_id \<Rightarrow> nat" where
  "block_address b = 2 * b + 1"

definition with_decision :: "value_id \<Rightarrow> 32 word \<Rightarrow> exec_state \<Rightarrow> exec_state" where
  "with_decision i k st = st\<lparr>path_decisions := path_decisions st @ [(value_address i, k)]\<rparr>"

definition block_start :: "llvm_module \<Rightarrow> block_id \<Rightarrow> value_id exec" where
  "block_start m b = need AssertionFailed (first_without_debug m b)"

text \<open>The copy of the state is the copy of its static class.\<close>

definition branch_to ::
    "z3_api \<Rightarrow> llvm_module \<Rightarrow> value_id \<Rightarrow> 32 word \<Rightarrow> block_id \<Rightarrow> expression \<Rightarrow> exec_state \<Rightarrow> exec_state exec" where
  "branch_to z m i k target c st =
     bind_exec (block_start m target) (\<lambda>next.
     bind_exec (extend_condition z m c
         ((with_decision i k st)\<lparr>trace := trace st @ [block_of m i], status_of := TESTING\<rparr>)) (\<lambda>st'.
       give (step_pc m (Some next) st')))"

definition execute_cond_branch ::
    "z3_api \<Rightarrow> llvm_module \<Rightarrow> (exec_state \<Rightarrow> exec_state) \<Rightarrow> value_id \<Rightarrow> value_id \<Rightarrow> block_id \<Rightarrow> block_id \<Rightarrow>
     exec_state \<Rightarrow> exec_state list exec" where
  "execute_cond_branch z m clone i cond t f st =
     bind_exec (evaluate z m st cond True) (\<lambda>c.
     bind_exec (branch_to z m i 0 t c (clone st)) (\<lambda>true_state.
     bind_exec (branch_to z m i 1 f (e_not c) (clone st)) (\<lambda>false_state.
       give [true_state, false_state])))"

definition execute_br ::
    "llvm_module \<Rightarrow> (exec_state \<Rightarrow> exec_state) \<Rightarrow> value_id \<Rightarrow> block_id \<Rightarrow> exec_state \<Rightarrow> exec_state list exec" where
  "execute_br m clone i target st =
     bind_exec (block_start m target) (\<lambda>next.
       give [step_pc m (Some next) ((clone st)\<lparr>trace := trace st @ [block_of m i]\<rparr>)])"

definition select_value ::
    "z3_api \<Rightarrow> llvm_module \<Rightarrow> value_id \<Rightarrow> 32 word \<Rightarrow> expression \<Rightarrow> expression \<Rightarrow> exec_state \<Rightarrow> exec_state exec" where
  "select_value z m i k c v st =
     bind_exec (store_temp m i v (with_decision i k st)) (\<lambda>st1.
     bind_exec (extend_condition z m c (st1\<lparr>status_of := TESTING\<rparr>)) (\<lambda>st2.
       give (step_pc m None st2)))"

definition execute_select ::
    "z3_api \<Rightarrow> llvm_module \<Rightarrow> (exec_state \<Rightarrow> exec_state) \<Rightarrow> value_id \<Rightarrow> value_id \<Rightarrow> value_id \<Rightarrow> value_id \<Rightarrow>
     exec_state \<Rightarrow> exec_state list exec" where
  "execute_select z m clone i cond a b st =
     bind_exec (evaluate z m st cond True) (\<lambda>c.
     bind_exec (evaluate z m st a True) (\<lambda>true_value.
     bind_exec (select_value z m i 0 c true_value (clone st)) (\<lambda>true_state.
     bind_exec (evaluate z m st b True) (\<lambda>false_value.
     bind_exec (select_value z m i 1 (e_not c) false_value (clone st)) (\<lambda>false_state.
       give [true_state, false_state])))))"

section \<open>The paths of a loop\<close>

definition history_of :: "loop_id \<Rightarrow> exec_state \<Rightarrow> loop_path_state" where
  "history_of loop st = (case loop_path_expressions st loop of Some h \<Rightarrow> h | None \<Rightarrow> new_loop_path)"

definition set_history :: "loop_id \<Rightarrow> loop_path_state \<Rightarrow> exec_state \<Rightarrow> exec_state" where
  "set_history loop h st = st\<lparr>loop_path_expressions := (loop_path_expressions st)(loop \<mapsto> h)\<rparr>"

text \<open>A new invocation of the loop starts a new history; the cursor is set at the first visit.\<close>

definition entered_history :: "llvm_module \<Rightarrow> loop_id \<Rightarrow> exec_state \<Rightarrow> loop_path_state" where
  "entered_history m loop st =
     (let h = (if trace st \<noteq> [] \<and> \<not> loop_contains m loop (last (trace st)) then new_loop_path
               else history_of loop st)
      in if cursor_initialized h then h
         else h\<lparr>decision_cursor := length (path_decisions st), cursor_initialized := True\<rparr>)"

definition from_latch :: "llvm_module \<Rightarrow> loop_id \<Rightarrow> exec_state \<Rightarrow> bool" where
  "from_latch m loop st \<longleftrightarrow> trace st \<noteq> [] \<and> loop_contains m loop (last (trace st)) \<and>
     last (trace st) \<in> set (loop_latches m loop)"

text \<open>A branch-free iteration has the one decision of its header.\<close>

definition iteration_decisions :: "llvm_module \<Rightarrow> loop_id \<Rightarrow> nat \<Rightarrow> path_decision list \<Rightarrow> path_decision list" where
  "iteration_decisions m loop cursor decisions =
     (case drop cursor decisions of [] \<Rightarrow> [(block_address (loop_header m loop), 0)] | ds \<Rightarrow> ds)"

definition size_option :: "exec_env \<Rightarrow> string \<Rightarrow> nat \<Rightarrow> nat" where
  "size_option E name default_value = positive_environment_size (env_getenv E name) default_value"

definition completed_history ::
    "exec_env \<Rightarrow> path_symbol \<Rightarrow> nat \<Rightarrow> loop_path_state \<Rightarrow> loop_path_state" where
  "completed_history E symbol cursor h =
     (let h' = append_symbol symbol (h\<lparr>decision_cursor := cursor\<rparr>)
      in h'\<lparr>lp_candidates := compress_path_prefix (concrete_frontier h')
           (size_option E ''ARITHEXE_PATH_MAX_ROOT'' 4) (size_option E ''ARITHEXE_PATH_BEAM'' 4)
           (size_option E ''ARITHEXE_PATH_EVIDENCE'' 2)\<rparr>)"

definition record_completed_loop_path ::
    "exec_env \<Rightarrow> loop_id option \<Rightarrow> value_id \<Rightarrow> exec_state \<Rightarrow> (path_symbol option \<times> exec_state) exec" where
  "record_completed_loop_path E loop_opt phi st =
     (let m = env_module E
      in case loop_opt of
           None \<Rightarrow> give (None, st)
         | Some loop \<Rightarrow>
             if \<not> is_first_header_phi m phi loop_opt then give (None, st)
             else let h = entered_history m loop st; st1 = set_history loop h st
                  in if \<not> from_latch m loop st \<or> length (path_decisions st) < decision_cursor h
                     then give (None, st1)
                     else bind_exec (with_session (\<lambda>s. intern_loop_path loop
                              (iteration_decisions m loop (decision_cursor h) (path_decisions st)) s)) (\<lambda>symbol.
                          bind_exec (with_session (\<lambda>s. ((), note_path_compression s))) (\<lambda>_.
                            give (Some symbol, set_history loop
                              (completed_history E symbol (length (path_decisions st)) h) st1))))"


section \<open>The application of a loop summary\<close>

definition ind_var :: z3expr where
  "ind_var = z_int_const ''ari_loop_n''"

text \<open>The one latch of a loop, and the block that enters it.\<close>

definition loop_latch :: "llvm_module \<Rightarrow> loop_id \<Rightarrow> block_id option" where
  "loop_latch m loop = (case loop_latches m loop of [b] \<Rightarrow> Some b | _ \<Rightarrow> None)"

definition get_loop_entering_block :: "llvm_module \<Rightarrow> loop_id \<Rightarrow> block_id option" where
  "get_loop_entering_block m loop =
     (case filter (\<lambda>b. \<not> loop_contains m loop b) (concat (map (\<lambda>i. case kind_of m i of
             Inst (Phi inc) \<Rightarrow> map fst inc | _ \<Rightarrow> []) (insts_of m (loop_header m loop)))) of
        [] \<Rightarrow> None
      | b # _ \<Rightarrow> Some b)"

text \<open>The closed forms of integer header nodes that have a source variable.\<close>

definition certificate_variables ::
    "llvm_module \<Rightarrow> loop_summary \<Rightarrow> (value_id \<times> string \<times> string \<times> z3expr) list" where
  "certificate_variables m ls =
     concat (map (\<lambda>(v, closed).
       if is_phi m v \<and> is_int_ty m v
       then (case source_variable m v of Some (name, ty) \<Rightarrow> [(v, name, ty, closed)] | None \<Rightarrow> [])
       else []) (zip (ls_modified ls) (ls_closed_forms ls)))"

definition certify_loop :: "llvm_module \<Rightarrow> loop_id \<Rightarrow> loop_summary \<Rightarrow> exec_state \<Rightarrow> exec_state" where
  "certify_loop m loop ls st =
     (if ls_is_over_approx ls \<or> certificate_variables m ls = [] \<or>
         list_ex (\<lambda>c. cert_loop c = loop) (loop_certificates st)
      then st
      else st\<lparr>loop_certificates := loop_certificates st @
             [\<lparr>cert_loop = loop, cert_variables = certificate_variables m ls\<rparr>]\<rparr>)"

text \<open>
  The inputs read in the loop: one that is read once in every iteration is a function of the number of
  the iteration, and in the header also once for the last test; any other hides values.
\<close>

definition once_per_iteration :: "llvm_module \<Rightarrow> loop_id \<Rightarrow> loop_summary \<Rightarrow> block_id \<Rightarrow> bool" where
  "once_per_iteration m loop ls b \<longleftrightarrow> ls_count ls \<noteq> None \<and> loop_for m b = Some loop \<and>
     (case loop_latch m loop of Some l \<Rightarrow> dominates m b l | None \<Rightarrow> False)"

definition summarized_input ::
    "llvm_module \<Rightarrow> loop_id \<Rightarrow> loop_summary \<Rightarrow> block_id \<Rightarrow> value_id \<Rightarrow> exec_state \<Rightarrow> exec_state" where
  "summarized_input m loop ls b i st =
     (if \<not> nondet_callee m i then st
      else if \<not> once_per_iteration m loop ls b then st\<lparr>counterexample_complete := False\<rparr>
      else let values = (''ari_'' @ name_of m i @ ''_unknown'', if ty_of m i = IntTy 1 then BoolSort else IntSort);
               n = the (ls_count ls)
           in st\<lparr>nondet_calls := nondet_calls st @
                [nondet_function i values (if b = loop_header m loop then z_add n (z_int 1) else n)]\<rparr>)"

definition summarized_inputs :: "llvm_module \<Rightarrow> loop_id \<Rightarrow> loop_summary \<Rightarrow> exec_state \<Rightarrow> exec_state" where
  "summarized_inputs m loop ls st =
     fold (\<lambda>b. fold (summarized_input m loop ls b) (insts_of m b)) (loop_blocks m loop) st"

text \<open>The answers for the assertions in the loop decide the status.\<close>

definition invariant_status :: "loop_summary \<Rightarrow> exec_state \<Rightarrow> status option" where
  "invariant_status ls st =
     (if FAIL \<in> set (ls_invariant_results ls)
      then Some (if ls_is_over_approx ls \<or> is_over_approx st \<or> \<not> counterexample_complete st
                 then UNKNOWN else FAILED)
      else if VERIUNKNOWN \<in> set (ls_invariant_results ls) then Some UNKNOWN
      else None)"

text \<open>The value after the loop: the closed form at the number of iterations.\<close>

definition at_count :: "loop_summary \<Rightarrow> z3expr \<Rightarrow> z3expr" where
  "at_count ls e = (case ls_count ls of Some n \<Rightarrow> substitute [(ind_var, n)] e | None \<Rightarrow> e)"

definition phi_symbol :: "llvm_module \<Rightarrow> value_id \<Rightarrow> z3expr" where
  "phi_symbol m v = z_int_const (get_z3_name (name_of m v))"

definition over_approx_phi ::
    "z3_api \<Rightarrow> llvm_module \<Rightarrow> loop_id \<Rightarrow> loop_summary \<Rightarrow> value_id \<Rightarrow> exec_state \<Rightarrow> exec_state exec" where
  "over_approx_phi z m loop ls phi st =
     bind_exec (need AssertionFailed (Option.bind (get_loop_entering_block m loop) (incoming_value m phi))) (\<lambda>v.
     bind_exec (evaluate z m st v True) (\<lambda>initial.
     bind_exec (need AssertionFailed (evaluate_expr ls (phi_symbol m phi))) (\<lambda>closed.
     case ls_count ls of
       None \<Rightarrow> store_temp m phi (expression_of z closed) st
     | Some n \<Rightarrow>
         bind_exec (term_of z initial) (\<lambda>t.
           if sort_of t \<noteq> sort_of (at_count ls closed) then fail RuntimeError
           else store_temp m phi (expression_of z (z_ite (z_eq n (z_int 0)) t (at_count ls closed))) st))))"

definition apply_over_approx_loop ::
    "z3_api \<Rightarrow> llvm_module \<Rightarrow> loop_id \<Rightarrow> loop_summary \<Rightarrow> exec_state \<Rightarrow> exec_state exec" where
  "apply_over_approx_loop z m loop ls st =
     bind_exec (fold_exec (over_approx_phi z m loop ls)
         (filter (is_phi m) (insts_of m (loop_header m loop))) st) (\<lambda>st1.
     bind_exec (fold_exec (\<lambda>(lhs, rhs). assume_term z m (z_eq lhs rhs)) (ls_over_approx ls) st1) (\<lambda>st2.
     bind_exec (assume_term z m (ls_constraints ls) st2) (\<lambda>st3.
       give (st3\<lparr>is_over_approx := True\<rparr>))))"

text \<open>The symbols of the closed forms: header nodes, stored pointers and arrays.\<close>

definition loop_arguments :: "llvm_module \<Rightarrow> loop_id \<Rightarrow> exec_state \<Rightarrow> z3expr list" where
  "loop_arguments m loop st =
     concat (map (\<lambda>i. case kind_of m i of
         Inst (Phi _) \<Rightarrow> [phi_symbol m i]
       | Inst (Store p _) \<Rightarrow> [phi_symbol m p]
       | _ \<Rightarrow> []) (insts_of m (loop_header m loop))) @
     map get_signature (get_arrays (mem st))"

definition assign_summarized ::
    "z3_api \<Rightarrow> llvm_module \<Rightarrow> value_id \<times> z3expr \<Rightarrow> exec_state \<Rightarrow> exec_state exec" where
  "assign_summarized z m =
     (\<lambda>(v, t) st.
        case get_object_pointed_by z v (mem st) of
          Some _ \<Rightarrow> bind_exec (pointer_of v st) (\<lambda>addr.
            update_object z addr (\<lambda>obj. Some (write_object (expression_of z t) obj)) st)
        | None \<Rightarrow> store_temp m v (expression_of z t) st)"

definition apply_exact_loop ::
    "z3_api \<Rightarrow> llvm_module \<Rightarrow> loop_id \<Rightarrow> loop_summary \<Rightarrow> exec_state \<Rightarrow> exec_state exec" where
  "apply_exact_loop z m loop ls st =
     bind_exec (need AssertionFailed (evaluate_loop ls (loop_arguments m loop st))) (\<lambda>closed.
       if length (ls_modified ls) < length closed then fail AssertionFailed
       else bind_exec (fold_exec (assign_summarized z m)
                (zip (ls_modified ls) (map (at_count ls) closed)) st) (\<lambda>st1.
              assume_term z m (ls_constraints ls) st1))"

text \<open>
  The rest of the header is executed to its terminator, in breadth-first order; the fuel bounds the
  number of steps, since a call in the header need not return.
\<close>

fun run_header ::
    "nat \<Rightarrow> (exec_state \<Rightarrow> exec_state list exec) \<Rightarrow> value_id option \<Rightarrow> exec_state list \<Rightarrow> exec_state list \<Rightarrow>
     exec_state list exec" where
  "run_header 0 step terminator queue finished = fail NotReturned"
| "run_header (Suc n) step terminator [] finished = give finished"
| "run_header (Suc n) step terminator (st # queue) finished =
     (if pc st = None then fail AssertionFailed
      else if pc st = terminator then run_header n step terminator queue (finished @ [st])
      else bind_exec (step st) (\<lambda>sts. run_header n step terminator (queue @ sts) finished))"

definition leave_loop :: "llvm_module \<Rightarrow> loop_id \<Rightarrow> block_id \<Rightarrow> exec_state \<Rightarrow> exec_state exec" where
  "leave_loop m loop exit_block st =
     bind_exec (need AssertionFailed (nth_option (insts_of m exit_block) 0)) (\<lambda>first.
       give (step_pc m (Some first) (st\<lparr>trace := trace st @ [loop_header m loop]\<rparr>)))"

definition terminator_of :: "llvm_module \<Rightarrow> block_id \<Rightarrow> value_id option" where
  "terminator_of m b = (case insts_of m b of [] \<Rightarrow> None | is \<Rightarrow> Some (last is))"

definition apply_loop_summary ::
    "exec_env \<Rightarrow> nat \<Rightarrow> (exec_state \<Rightarrow> exec_state list exec) \<Rightarrow> loop_id \<Rightarrow> loop_summary \<Rightarrow> exec_state \<Rightarrow>
     exec_state list exec" where
  "apply_loop_summary E n step loop ls st =
     (let z = env_z3 E; m = env_module E; header = loop_header m loop;
          st1 = summarized_inputs m loop ls (certify_loop m loop ls (copy_state st))
      in case invariant_status ls st1 of
           Some status' \<Rightarrow> give [st1\<lparr>status_of := status'\<rparr>]
         | None \<Rightarrow>
             (case loop_exit_block m loop of
                None \<Rightarrow> give [st1\<lparr>status_of := TERMINATED\<rparr>]
              | Some exit_block \<Rightarrow>
                  bind_exec (if ls_is_over_approx ls then apply_over_approx_loop z m loop ls st1
                             else apply_exact_loop z m loop ls st1) (\<lambda>st2.
                  bind_exec (need AssertionFailed (first_non_phi_or_dbg m header)) (\<lambda>first.
                  bind_exec (run_header n step (terminator_of m header) [step_pc m (Some first) st2] []) (\<lambda>sts.
                    each (leave_loop m loop exit_block) sts)))))"

definition execute_if_summarizable ::
    "exec_env \<Rightarrow> nat \<Rightarrow> (exec_state \<Rightarrow> exec_state list exec) \<Rightarrow> value_id \<Rightarrow> exec_state \<Rightarrow> exec_state list exec"
  where
  "execute_if_summarizable E n step phi st =
     (let m = env_module E; loop_opt = loop_for m (block_of m phi)
      in case loop_opt of
           None \<Rightarrow> give []
         | Some loop \<Rightarrow>
             if \<not> is_first_header_phi m phi loop_opt then give []
             else bind_exec (summarize_loop E loop st) (\<lambda>summary.
                    case summary of
                      None \<Rightarrow> give []
                    | Some ls \<Rightarrow> apply_loop_summary E n step loop ls st))"


section \<open>The first instruction of a loop\<close>

text \<open>The conditions of the three routes: a nested summary at the entry, the recurrence of an innermost
  outermost loop, and the certified acceleration of a candidate.\<close>

definition at_nested_entry :: "llvm_module \<Rightarrow> loop_id \<Rightarrow> value_id \<Rightarrow> exec_state \<Rightarrow> bool" where
  "at_nested_entry m loop phi st \<longleftrightarrow> is_first_header_phi m phi (Some loop) \<and>
     (loop_parent m loop \<noteq> None \<or> sub_loops m loop \<noteq> []) \<and>
     trace st \<noteq> [] \<and> \<not> loop_contains m loop (last (trace st))"

definition wants_recurrence :: "exec_env \<Rightarrow> loop_id \<Rightarrow> session \<Rightarrow> bool" where
  "wants_recurrence E loop s \<longleftrightarrow>
     \<not> force_path_expression_mode (env_getenv E ''ARITHEXE_FORCE_PATH_EXPRESSIONS'') \<and>
     loop_parent (env_module E) loop = None \<and> sub_loops (env_module E) loop = [] \<and>
     \<not> uses_integer_relaxation s \<and> \<not> header_control E loop \<and> \<not> loop_summary_failed s loop"

text \<open>The first candidate that accelerates: the jump, and the residual unless it is infeasible.\<close>

fun try_candidates ::
    "exec_env \<Rightarrow> loop_id \<Rightarrow> exec_state \<Rightarrow> path_schema list \<Rightarrow> exec_state list option exec" where
  "try_candidates E loop st [] = give None"
| "try_candidates E loop st (c # cs) =
     bind_exec (accelerate_path E loop st c) (\<lambda>result.
       case result of
         None \<Rightarrow> try_candidates E loop st cs
       | Some acc \<Rightarrow>
           bind_exec (assume_term (env_z3 E) (env_module E) (z_not (acc_covered acc)) (copy_state st)) (\<lambda>residual.
           bind_exec (term_of (env_z3 E) (path_condition residual)) (\<lambda>cond.
             if z_check (env_z3 E) [cond] = Unsat then give (Some [acc_jump acc])
             else bind_exec (execute_phi_bundle (env_z3 E) (env_module E) residual) (\<lambda>residual'.
                    give (Some [acc_jump acc, residual'])))))"

definition accelerated_states ::
    "exec_env \<Rightarrow> loop_id option \<Rightarrow> value_id \<Rightarrow> exec_state \<Rightarrow> exec_state list option exec" where
  "accelerated_states E loop_opt phi st =
     (case loop_opt of
        None \<Rightarrow> give None
      | Some loop \<Rightarrow>
          if \<not> is_first_header_phi (env_module E) phi loop_opt then give None
          else case loop_path_expressions st loop of
                 None \<Rightarrow> give None
               | Some h \<Rightarrow> try_candidates E loop st (lp_candidates h))"

definition one_iteration :: "exec_env \<Rightarrow> exec_state \<Rightarrow> exec_state list exec" where
  "one_iteration E st =
     bind_exec (execute_phi_bundle (env_z3 E) (env_module E) st) (\<lambda>st'. give [st'])"

text \<open>The recurrence route; an attempt without a result marks the loop.\<close>

definition recurrence_states ::
    "exec_env \<Rightarrow> nat \<Rightarrow> (exec_state \<Rightarrow> exec_state list exec) \<Rightarrow> loop_id option \<Rightarrow> value_id \<Rightarrow> exec_state \<Rightarrow>
     exec_state list exec" where
  "recurrence_states E n step loop_opt phi st =
     (case loop_opt of
        None \<Rightarrow> give []
      | Some loop \<Rightarrow>
          bind_exec (ask (wants_recurrence E loop)) (\<lambda>wanted.
            if \<not> wanted \<or> is_summarizing st then give []
            else bind_exec (execute_if_summarizable E n step phi st) (\<lambda>sts.
                   if sts \<noteq> [] then give sts
                   else bind_exec (with_session (\<lambda>s. ((), mark_loop_summary_failed loop s))) (\<lambda>_. give []))))"

definition execute_phi ::
    "exec_env \<Rightarrow> nat \<Rightarrow> (exec_state \<Rightarrow> exec_state list exec) \<Rightarrow> value_id \<Rightarrow> exec_state \<Rightarrow> exec_state list exec"
  where
  "execute_phi E n step phi st =
     (let m = env_module E; loop_opt = loop_for m (block_of m phi)
      in bind_exec (case loop_opt of
             Some loop \<Rightarrow> if at_nested_entry m loop phi st then accelerate_nested E loop st else give None
           | None \<Rightarrow> give None) (\<lambda>jump.
         case jump of
           Some st' \<Rightarrow> give [st']
         | None \<Rightarrow>
             bind_exec (record_completed_loop_path E loop_opt phi st) (\<lambda>(_, st1).
             bind_exec (recurrence_states E n step loop_opt phi st1) (\<lambda>sts.
               if sts \<noteq> [] then give sts
               else bind_exec (accelerated_states E loop_opt phi st1) (\<lambda>acc.
                      case acc of
                        Some sts' \<Rightarrow> give sts'
                      | None \<Rightarrow> one_iteration E (copy_state st1))))))"

text \<open>In a loop summarizer the first node of a strictly inner loop summarises that loop.\<close>

definition inner_loop_entry :: "llvm_module \<Rightarrow> value_id \<Rightarrow> exec_state \<Rightarrow> session \<Rightarrow> (loop_id \<times> loop_id) option" where
  "inner_loop_entry m phi st s =
     (case (loop_for m (block_of m phi), class_of st) of
        (Some loop, LoopState _ (Some outer) _) \<Rightarrow>
          if \<not> loop_summary_failed s loop \<and> is_first_header_phi m phi (Some loop) \<and> loop \<noteq> outer \<and>
             set (loop_blocks m loop) \<subseteq> set (loop_blocks m outer)
          then Some (loop, outer) else None
      | _ \<Rightarrow> None)"

definition inner_state :: "z3_api \<Rightarrow> loop_id \<Rightarrow> exec_state \<Rightarrow> exec_state \<Rightarrow> exec_state" where
  "inner_state z outer st accelerated =
     (let st' = as_loop_state z accelerated
      in case class_of st of
           LoopState inner _ _ \<Rightarrow> st'\<lparr>class_of := LoopState inner (Some outer) Map.empty\<rparr>
         | _ \<Rightarrow> st')"

definition execute_phi_in_loop ::
    "exec_env \<Rightarrow> nat \<Rightarrow> (exec_state \<Rightarrow> exec_state list exec) \<Rightarrow> value_id \<Rightarrow> exec_state \<Rightarrow> exec_state list exec"
  where
  "execute_phi_in_loop E n step phi st =
     bind_exec (ask (inner_loop_entry (env_module E) phi st)) (\<lambda>entry.
       case entry of
         None \<Rightarrow> one_iteration E (copy_loop_state st)
       | Some (loop, outer) \<Rightarrow>
           bind_exec (execute_if_summarizable E n step phi st) (\<lambda>sts.
             if sts = []
             then bind_exec (with_session (\<lambda>s. ((), mark_loop_summary_failed loop s))) (\<lambda>_. give [])
             else give (map (inner_state (env_z3 E) outer st) sts)))"

section \<open>The dispatch of instructions\<close>

text \<open>The executions on the three classes of states; a loop state and a state of a function summary are
  executed as plain states where the class of the instruction does not say otherwise.\<close>

definition execute_instruction ::
    "exec_env \<Rightarrow> nat \<Rightarrow> (exec_state \<Rightarrow> exec_state list exec) \<Rightarrow> value_id \<Rightarrow> exec_state \<Rightarrow> exec_state list exec"
  where
  "execute_instruction E n step i st =
     (let z = env_z3 E; m = env_module E
      in case kind_of m i of
           Inst inst \<Rightarrow>
             (case inst of
                DbgDeclare _ \<Rightarrow> execute_debug z m i st
              | DbgValue _ _ \<Rightarrow> execute_debug z m i st
              | DbgOther \<Rightarrow> execute_debug z m i st
              | Binary op fl a b \<Rightarrow> execute_binary z m i op fl a b st
              | ICmp pred a b \<Rightarrow> execute_icmp z m i pred a b st
              | Call callee actuals \<Rightarrow> execute_call E i callee actuals st
              | CondBr cond t f \<Rightarrow> execute_cond_branch z m copy_state i cond t f st
              | Br target \<Rightarrow> execute_br m copy_state i target st
              | Ret v \<Rightarrow> execute_return E v st
              | ZExt v \<Rightarrow> execute_zext z m i v st
              | SExt v \<Rightarrow> execute_sext z m i v st
              | Trunc v \<Rightarrow> execute_trunc z m i v st
              | Phi _ \<Rightarrow> execute_phi E n step i st
              | Select cond a b \<Rightarrow> execute_select z m copy_state i cond a b st
              | Load p \<Rightarrow> execute_load z m i p st
              | Store p v \<Rightarrow> execute_store z m p v st
              | Gep p ixs \<Rightarrow> execute_gep z m i p ixs st
              | Alloca array_allocation elements \<Rightarrow> execute_alloca z m i array_allocation elements st
              | OtherInstruction \<Rightarrow> fail AssertionFailed)
         | _ \<Rightarrow> fail AssertionFailed)"

text \<open>The executor: the fuel bounds the depth of header executions inside loop summaries and their
  length; the executor at a smaller depth runs the rest of a header.\<close>

fun execute :: "exec_env \<Rightarrow> nat \<Rightarrow> exec_state \<Rightarrow> exec_state list exec" where
  "execute E 0 st = fail NotReturned"
| "execute E (Suc n) st =
     (case pc st of
        None \<Rightarrow> fail AssertionFailed
      | Some i \<Rightarrow> execute_instruction E n (execute E n) i st)"

definition loop_wrap :: "z3_api \<Rightarrow> exec_state \<Rightarrow> exec_state \<Rightarrow> exec_state" where
  "loop_wrap z st result =
     (let st' = as_loop_state z result
      in case class_of st of LoopState c l k \<Rightarrow> st'\<lparr>class_of := LoopState c l k\<rparr> | _ \<Rightarrow> st')"

definition execute_in_loop :: "exec_env \<Rightarrow> nat \<Rightarrow> exec_state \<Rightarrow> exec_state list exec" where
  "execute_in_loop E n st =
     (let z = env_z3 E; m = env_module E
      in case pc st of
           None \<Rightarrow> fail AssertionFailed
         | Some i \<Rightarrow>
             (case kind_of m i of
                Inst (CondBr cond t f) \<Rightarrow> execute_cond_branch z m copy_loop_state i cond t f st
              | Inst (Br target) \<Rightarrow> execute_br m copy_loop_state i target st
              | Inst (Select cond a b) \<Rightarrow> execute_select z m copy_loop_state i cond a b st
              | Inst (Phi _) \<Rightarrow> execute_phi_in_loop E n (execute E n) i st
              | _ \<Rightarrow> bind_exec (execute E (Suc n) st) (\<lambda>sts. give (map (loop_wrap z st) sts))))"

definition execute_in_rec :: "exec_env \<Rightarrow> nat \<Rightarrow> exec_state \<Rightarrow> exec_state list exec" where
  "execute_in_rec E n st =
     (let z = env_z3 E; m = env_module E
      in case pc st of
           None \<Rightarrow> fail AssertionFailed
         | Some i \<Rightarrow>
             (case kind_of m i of
                Inst (CondBr cond t f) \<Rightarrow> execute_cond_branch z m as_rec_state i cond t f st
              | Inst (Br target) \<Rightarrow> execute_br m as_rec_state i target st
              | _ \<Rightarrow> bind_exec (execute E (Suc n) st) (\<lambda>sts. give (map as_rec_state sts))))"

end
