(* ===== verification/Engine.thy ===== *)
theory Engine
  imports Control_Instructions
begin

text \<open>
  The verification engine (lib/engine.cpp, include/engine.h): the stack of states and the loop that
  steps, tests and verifies them, the capture of counterexamples and certificates, the initial state,
  and the verdict.
\<close>

section \<open>The state of the engine\<close>

record engine =
  eng_session :: session
  eng_entry :: "function_id option"
  eng_states :: "exec_state list"
  eng_results :: "veri_result list"
  eng_violation :: "value_id option"
  eng_inputs :: "(value_id \<times> string) list"
  eng_loop_certificates :: "loop_certificate list"
  eng_function_certificates :: "function_certificate list"
  issue_recorded :: bool
  issue_kind_of :: issue_kind
  issue_message :: string

definition new_engine :: engine where
  "new_engine = \<lparr>eng_session = new_session, eng_entry = None, eng_states = [], eng_results = [],
     eng_violation = None, eng_inputs = [], eng_loop_certificates = [], eng_function_certificates = [],
     issue_recorded = False, issue_kind_of = UnknownState, issue_message = ''''\<rparr>"

definition default_entry_function_name :: string where
  "default_entry_function_name = ''main''"

definition set_entry :: "function_id option \<Rightarrow> engine \<Rightarrow> engine" where
  "set_entry f e = e\<lparr>eng_entry := f\<rparr>"

definition get_function :: "llvm_module \<Rightarrow> string \<Rightarrow> function_id option" where
  "get_function m name = find (\<lambda>f. func_name m f = name) (all_functions m)"

definition set_default_entry :: "llvm_module \<Rightarrow> engine \<Rightarrow> engine" where
  "set_default_entry m e =
     (if eng_entry e = None then e\<lparr>eng_entry := get_function m default_entry_function_name\<rparr> else e)"

text \<open>Only the first issue is kept.\<close>

definition record_issue :: "issue_kind \<Rightarrow> string \<Rightarrow> engine \<Rightarrow> engine" where
  "record_issue k message e =
     (if issue_recorded e then e
      else e\<lparr>issue_recorded := True, issue_kind_of := k, issue_message := message\<rparr>)"

definition push_result :: "veri_result \<Rightarrow> engine \<Rightarrow> engine" where
  "push_result r e = e\<lparr>eng_results := eng_results e @ [r]\<rparr>"

definition reach_loop :: "llvm_module \<Rightarrow> exec_state \<Rightarrow> bool" where
  "reach_loop m st =
     (case pc st of
        None \<Rightarrow> False
      | Some i \<Rightarrow>
          (case loop_for m (block_of m i) of
             None \<Rightarrow> False
           | Some loop \<Rightarrow> block_of m i = loop_header m loop \<and> nth_option (insts_of m (block_of m i)) 0 = Some i))"

section \<open>Counterexamples and certificates\<close>

definition select_lambda :: "string \<times> z3expr \<Rightarrow> z3expr \<Rightarrow> z3expr" where
  "select_lambda q index = substitute [(z_int_const (fst q), index)] (snd q)"

definition literal_in :: "z3_api \<Rightarrow> interp \<Rightarrow> z3expr \<Rightarrow> z3expr" where
  "literal_in z M e = z_simplify z (model_eval M e)"

definition render_input :: "z3_api \<Rightarrow> z3expr \<Rightarrow> string" where
  "render_input z v =
     (case as_int64 v of
        Some n \<Rightarrow> int_to_string n
      | None \<Rightarrow> if v = z_true then ''1'' else if v = z_false then ''0'' else z_string z v)"

text \<open>The values of a call: its one value, or the values at the numbers below its count.\<close>

definition input_values :: "z3_api \<Rightarrow> interp \<Rightarrow> nondet_call \<Rightarrow> z3expr list" where
  "input_values z M c =
     (case nd_value c of
        Some v \<Rightarrow> [literal_in z M v]
      | None \<Rightarrow>
          (case (nd_count c, Option.bind (nd_count c) (\<lambda>n. as_int64 (literal_in z M n))) of
             (Some _, Some count) \<Rightarrow>
               map (\<lambda>index. literal_in z M
                   (case nd_sequence c of
                      Some q \<Rightarrow> select_lambda q (z_int (int index))
                    | None \<Rightarrow> (case nd_values c of
                        Some (f, srt) \<Rightarrow> App (OUninterp f srt) [z_int (int index)] | None \<Rightarrow> z_true)))
                 (if nd_values c = None \<and> nd_sequence c = None then [] else [0..<nat count])
           | _ \<Rightarrow> []))"

definition capture_counterexample :: "z3_api \<Rightarrow> exec_state \<Rightarrow> interp \<Rightarrow> engine \<Rightarrow> engine" where
  "capture_counterexample z st M e =
     e\<lparr>eng_inputs := concat (map (\<lambda>c. map (\<lambda>v. (nd_call c, render_input z v)) (input_values z M c))
         (nondet_calls st))\<rparr>"

definition add_certificate :: "('c \<Rightarrow> nat) \<Rightarrow> 'c \<Rightarrow> 'c list \<Rightarrow> 'c list" where
  "add_certificate key c cs = (if list_ex (\<lambda>d. key d = key c) cs then cs else cs @ [c])"

definition capture_loop_certificates :: "exec_state \<Rightarrow> engine \<Rightarrow> engine" where
  "capture_loop_certificates st e =
     e\<lparr>eng_loop_certificates := fold (add_certificate cert_loop) (loop_certificates st) (eng_loop_certificates e)\<rparr>"

definition capture_function_certificates :: "exec_state \<Rightarrow> engine \<Rightarrow> engine" where
  "capture_function_certificates st e =
     e\<lparr>eng_function_certificates :=
       fold (add_certificate cert_function) (function_certificates st) (eng_function_certificates e)\<rparr>"

section \<open>Queries\<close>

text \<open>The parts of an assertion query; terms that are not Boolean are exceptions.\<close>

definition assertion_query :: "z3_api \<Rightarrow> exec_state \<Rightarrow> exec_error + (z3expr \<times> z3expr \<times> z3expr)" where
  "assertion_query z st =
     (case (as_expr z (path_condition st), defined_term z (verification_condition st),
            as_expr z (verification_condition st)) of
        (Some c, Some d, Some a) \<Rightarrow>
          if is_bool c \<and> is_bool d \<and> is_bool a then Inr (c, d, a) else Inl RuntimeError
      | _ \<Rightarrow> Inl AssertionFailed)"

definition imprecise :: "exec_state \<Rightarrow> bool" where
  "imprecise st = (is_over_approx st \<or> \<not> counterexample_complete st)"

definition imprecision_kind :: "exec_state \<Rightarrow> issue_kind" where
  "imprecision_kind st = (if is_over_approx st then OverApproximation else IncompleteCounterexample)"

definition verify_state :: "z3_api \<Rightarrow> exec_state \<Rightarrow> engine \<Rightarrow> exec_error + (veri_result \<times> engine)" where
  "verify_state z st e =
     (case assertion_query z st of
        Inl err \<Rightarrow> Inl err
      | Inr (c, d, a) \<Rightarrow>
          (case z_check z [c, d, z_not a] of
             Unsat \<Rightarrow> Inr (HOLD, e)
           | Sat \<Rightarrow>
               if imprecise st
               then Inr (VERIUNKNOWN, record_issue (imprecision_kind st)
                      ''verification condition may fail, but the path is imprecise'' e)
               else Inr (FAIL, capture_counterexample z st (z_model z [c, d, z_not a]) e)
           | Unknown \<Rightarrow> Inr (VERIUNKNOWN, record_issue Z3Unknown
               ''Z3 returned unknown while proving a verification condition'' e)))"

definition test_state :: "z3_api \<Rightarrow> exec_state \<Rightarrow> engine \<Rightarrow> exec_error + (test_result \<times> engine)" where
  "test_state z st e =
     (case as_expr z (path_condition st) of
        None \<Rightarrow> Inl AssertionFailed
      | Some c \<Rightarrow>
          (case z_check z [c] of
             Unsat \<Rightarrow> Inr (UNFEASIBLE, e)
           | Sat \<Rightarrow> Inr (FEASIBLE, e)
           | Unknown \<Rightarrow> Inr (TESTUNKNOWN, record_issue Z3Unknown
               ''Z3 returned unknown while checking path feasibility'' e)))"

section \<open>The loop\<close>

text \<open>One iteration on the state at the top of the stack: the loop goes on with the new engine, or
  returns with it.  An exception of an instruction keeps its class, except that a plain one is wrapped.\<close>

datatype outcome = Continue engine | Return engine

definition visit_terminated :: "exec_state \<Rightarrow> engine \<Rightarrow> exec_error + outcome" where
  "visit_terminated st e = Inr (Continue (capture_function_certificates st (capture_loop_certificates st e)))"

definition violation_at :: "exec_state \<Rightarrow> value_id option" where
  "violation_at st = (case prev_pc st of Some i \<Rightarrow> Some i | None \<Rightarrow> pc st)"

definition visit_verifying :: "z3_api \<Rightarrow> exec_state \<Rightarrow> engine \<Rightarrow> exec_error + outcome" where
  "visit_verifying z st e =
     (case verify_state z st e of
        Inl err \<Rightarrow> Inl err
      | Inr (r, e1) \<Rightarrow>
          let e2 = push_result r e1
          in if r = FAIL then Inr (Return (e2\<lparr>eng_violation := violation_at st\<rparr>))
             else case append_condition z (verification_condition st) st of
                    None \<Rightarrow> Inl AssertionFailed
                  | Some st' \<Rightarrow>
                      Inr (Continue (e2\<lparr>eng_states := st'\<lparr>status_of := RUNNING\<rparr> # eng_states e2\<rparr>)))"

text \<open>An infeasible error state falls through to the assertion that the state is running.\<close>

definition visit_error :: "z3_api \<Rightarrow> exec_state \<Rightarrow> engine \<Rightarrow> exec_error + outcome" where
  "visit_error z st e =
     (case test_state z st e of
        Inl err \<Rightarrow> Inl err
      | Inr (FEASIBLE, e1) \<Rightarrow>
          if imprecise st
          then Inr (Return (push_result VERIUNKNOWN (record_issue (imprecision_kind st)
                 ''feasible error path depends on an imprecise summary'' e1)))
          else (case as_expr z (path_condition st) of
                  None \<Rightarrow> Inl AssertionFailed
                | Some c \<Rightarrow> Inr (Return (capture_counterexample z st (z_model z [c])
                    ((push_result FAIL e1)\<lparr>eng_violation := pc st\<rparr>))))
      | Inr (TESTUNKNOWN, e1) \<Rightarrow>
          Inr (Return (push_result VERIUNKNOWN (record_issue Z3Unknown
            ''Z3 returned unknown while checking reach_error feasibility'' e1)))
      | Inr (UNFEASIBLE, e1) \<Rightarrow> Inl AssertionFailed)"

definition visit_testing :: "z3_api \<Rightarrow> exec_state \<Rightarrow> engine \<Rightarrow> exec_error + outcome" where
  "visit_testing z st e =
     (case test_state z st e of
        Inl err \<Rightarrow> Inl err
      | Inr (FEASIBLE, e1) \<Rightarrow> Inr (Continue (e1\<lparr>eng_states := st\<lparr>status_of := RUNNING\<rparr> # eng_states e1\<rparr>))
      | Inr (TESTUNKNOWN, e1) \<Rightarrow> Inr (Continue (push_result VERIUNKNOWN e1))
      | Inr (UNFEASIBLE, e1) \<Rightarrow> Inr (Continue e1))"

definition visit_failed :: "exec_state \<Rightarrow> engine \<Rightarrow> outcome" where
  "visit_failed st e =
     (if \<not> counterexample_complete st
      then Return (push_result VERIUNKNOWN (record_issue IncompleteCounterexample
             ''counterexample path is incomplete'' e))
      else Return ((push_result FAIL e)\<lparr>eng_violation := pc st\<rparr>))"

definition visit_running :: "exec_env \<Rightarrow> nat \<Rightarrow> exec_state \<Rightarrow> engine \<Rightarrow> exec_error + outcome" where
  "visit_running E n st e =
     (case execute E n st (eng_session e) of
        Inl err \<Rightarrow> Inl err
      | Inr (sts, s') \<Rightarrow> Inr (Continue (e\<lparr>eng_session := s', eng_states := rev sts @ eng_states e\<rparr>)))"

definition visit :: "exec_env \<Rightarrow> nat \<Rightarrow> exec_state \<Rightarrow> engine \<Rightarrow> exec_error + outcome" where
  "visit E n st e =
     (case status_of st of
        TERMINATED \<Rightarrow> visit_terminated st e
      | VERIFYING \<Rightarrow> visit_verifying (env_z3 E) st e
      | REACH_ERROR \<Rightarrow> visit_error (env_z3 E) st e
      | TESTING \<Rightarrow> visit_testing (env_z3 E) st e
      | UNKNOWN \<Rightarrow> Inr (Return (push_result VERIUNKNOWN (record_issue UnknownState
          ''symbolic execution reached an unknown state'' e)))
      | FAILED \<Rightarrow> Inr (visit_failed st e)
      | RUNNING \<Rightarrow> visit_running E n st e)"

text \<open>The loop; the fuel bounds its iterations, since symbolic execution may go on for ever.\<close>

fun run_loop :: "exec_env \<Rightarrow> nat \<Rightarrow> nat \<Rightarrow> engine \<Rightarrow> exec_error + engine" where
  "run_loop E n 0 e = Inl NotReturned"
| "run_loop E n (Suc k) e =
     (case eng_states e of
        [] \<Rightarrow> Inr e
      | st # sts \<Rightarrow>
          (case visit E n st (e\<lparr>eng_states := sts\<rparr>) of
             Inl err \<Rightarrow> Inl err
           | Inr (Return e') \<Rightarrow> Inr e'
           | Inr (Continue e') \<Rightarrow> run_loop E n k e'))"

definition run_from :: "exec_env \<Rightarrow> nat \<Rightarrow> nat \<Rightarrow> exec_state \<Rightarrow> engine \<Rightarrow> exec_error + engine" where
  "run_from E n k st e =
     (let e' = set_default_entry (env_module E) e
      in run_loop E n k (e'\<lparr>eng_states := st # eng_states e'\<rparr>))"

section \<open>The initial state\<close>

text \<open>The globals of the module with the constraints of their initialisers.\<close>

definition add_global_state ::
    "z3_api \<Rightarrow> llvm_module \<Rightarrow> session \<Rightarrow> value_id \<times> global_type \<times> global_init \<Rightarrow> memory \<times> expression \<Rightarrow>
     (memory \<times> expression) option" where
  "add_global_state z m s =
     (\<lambda>(gv, ty, ini) (mm, cond).
        case add_global z s (name_of m) gv ty ini mm of
          None \<Rightarrow> None
        | Some mm' \<Rightarrow>
            map_option (\<lambda>c. (mm', e_and z cond (expression_of z c))) (obj_constraints (last (m_objects mm'))))"

fun add_globals ::
    "z3_api \<Rightarrow> llvm_module \<Rightarrow> session \<Rightarrow> (value_id \<times> global_type \<times> global_init) list \<Rightarrow> memory \<times> expression \<Rightarrow>
     (memory \<times> expression) option" where
  "add_globals z m s [] acc = Some acc"
| "add_globals z m s (g # gs) acc = Option.bind (add_global_state z m s g acc) (add_globals z m s gs)"

fun bind_entry_arguments :: "z3_api \<Rightarrow> llvm_module \<Rightarrow> session \<Rightarrow> value_id list \<Rightarrow> memory \<Rightarrow> memory option" where
  "bind_entry_arguments z m s [] mm = Some mm"
| "bind_entry_arguments z m s (v # vs) mm =
     Option.bind (put_temp s (name_of m) v (expression_of z (z_int_const (''ari_'' @ name_of m v))) mm)
       (bind_entry_arguments z m s vs)"

definition build_initial_state :: "exec_env \<Rightarrow> engine \<Rightarrow> exec_state option" where
  "build_initial_state E e =
     (let z = env_z3 E; m = env_module E; s = eng_session e
      in case eng_entry e of
           None \<Rightarrow> None
         | Some f \<Rightarrow>
             (case (add_globals z m s (module_globals m) (new_memory, expression_of z z_true),
                    case blocks_of m f of [] \<Rightarrow> None | b # _ \<Rightarrow> first_non_phi_or_dbg m b) of
                (Some (mm, cond), Some first) \<Rightarrow>
                  map_option (\<lambda>mm'. new_state z (Some first) None mm' cond [])
                    (bind_entry_arguments z m s (args_of m f)
                      (memory_push z (get_function m default_entry_function_name) mm))
              | _ \<Rightarrow> None))"

definition run :: "exec_env \<Rightarrow> nat \<Rightarrow> nat \<Rightarrow> engine \<Rightarrow> exec_error + engine" where
  "run E n k e =
     (let e' = set_default_entry (env_module E) e
      in case build_initial_state E e' of
           None \<Rightarrow> Inl AssertionFailed
         | Some st \<Rightarrow> run_from E n k st e')"

section \<open>The verdict\<close>

definition fresh_run :: "engine \<Rightarrow> engine" where
  "fresh_run e = e\<lparr>eng_states := [], eng_results := [], issue_recorded := False, issue_message := '''',
     eng_violation := None, eng_inputs := [], eng_loop_certificates := [], eng_function_certificates := []\<rparr>"

definition verdict :: "veri_result list \<Rightarrow> veri_result" where
  "verdict results =
     (if list_all (\<lambda>r. r = HOLD) results then HOLD
      else if list_ex (\<lambda>r. r = FAIL) results then FAIL else VERIUNKNOWN)"

definition verify :: "exec_env \<Rightarrow> nat \<Rightarrow> nat \<Rightarrow> engine \<Rightarrow> exec_error + (veri_result \<times> engine)" where
  "verify E n k e =
     (case run E n k (fresh_run e) of
        Inl err \<Rightarrow> Inl err
      | Inr e' \<Rightarrow> Inr (verdict (eng_results e'), e'))"

end
