(* ===== verification/Engine_Correctness.thy ===== *)
theory Engine_Correctness
  imports Engine Arithmetic_Correctness
begin

text \<open>
  What the verdict of the engine means: the loop as a step relation on engines, the states it visits,
  and the theorems that a verdict HOLD covers every path and that a verdict FAIL has a feasible one.
\<close>

section \<open>Steps of the engine\<close>

inductive engine_step :: "exec_env \<Rightarrow> nat \<Rightarrow> engine \<Rightarrow> engine \<Rightarrow> bool" for E n where
  step: "eng_states e = st # sts \<Longrightarrow> visit E n st (e\<lparr>eng_states := sts\<rparr>) = Inr (Continue e') \<Longrightarrow>
    engine_step E n e e'"

inductive_simps engine_step_simps: "engine_step E n e e'"

inductive engine_reach :: "exec_env \<Rightarrow> nat \<Rightarrow> engine \<Rightarrow> engine \<Rightarrow> bool" for E n e where
  start: "engine_reach E n e e"
| next_step: "engine_reach E n e e1 \<Longrightarrow> engine_step E n e1 e2 \<Longrightarrow> engine_reach E n e e2"

text \<open>A state is explored when it is at the top of the stack at some point.\<close>

definition explored :: "exec_env \<Rightarrow> nat \<Rightarrow> engine \<Rightarrow> exec_state \<Rightarrow> bool" where
  "explored E n e st \<longleftrightarrow> (\<exists>e1 sts. engine_reach E n e e1 \<and> eng_states e1 = st # sts)"

lemma engine_reach_first:
  "engine_step E n e e1 \<Longrightarrow> engine_reach E n e1 e2 \<Longrightarrow> engine_reach E n e e2"
  by (rotate_tac, induction rule: engine_reach.induct) (auto intro: engine_reach.intros)

section \<open>What an iteration does to the results\<close>

lemmas visit_defs = visit_def visit_terminated_def visit_verifying_def visit_error_def visit_testing_def
  visit_failed_def visit_running_def verify_state_def test_state_def push_result_def record_issue_def
  capture_counterexample_def capture_loop_certificates_def capture_function_certificates_def

lemma record_issue_fields [simp]:
  "eng_results (record_issue k msg e) = eng_results e" "eng_states (record_issue k msg e) = eng_states e"
  "issue_recorded (record_issue k msg e)"
  by (simp_all add: record_issue_def)

lemma capture_fields [simp]:
  "eng_results (capture_counterexample z st M e) = eng_results e"
  "eng_states (capture_counterexample z st M e) = eng_states e"
  "issue_recorded (capture_counterexample z st M e) = issue_recorded e"
  "eng_results (capture_loop_certificates st e) = eng_results e"
  "eng_states (capture_loop_certificates st e) = eng_states e"
  "issue_recorded (capture_loop_certificates st e) = issue_recorded e"
  "eng_results (capture_function_certificates st e) = eng_results e"
  "eng_states (capture_function_certificates st e) = eng_states e"
  "issue_recorded (capture_function_certificates st e) = issue_recorded e"
  by (simp_all add: capture_counterexample_def capture_loop_certificates_def capture_function_certificates_def)

lemma push_fields [simp]:
  "eng_results (push_result r e) = eng_results e @ [r]" "eng_states (push_result r e) = eng_states e"
  "issue_recorded (push_result r e) = issue_recorded e"
  by (simp_all add: push_result_def)

lemma verify_state_fields:
  "verify_state z st e = Inr (r, e') \<Longrightarrow> eng_results e' = eng_results e \<and> eng_states e' = eng_states e \<and>
    (issue_recorded e \<longrightarrow> issue_recorded e') \<and> (r = VERIUNKNOWN \<longrightarrow> issue_recorded e')"
  by (auto simp: verify_state_def split: sum.splits prod.splits check_result.splits if_splits)

lemma test_state_fields:
  "test_state z st e = Inr (r, e') \<Longrightarrow> eng_results e' = eng_results e \<and> eng_states e' = eng_states e \<and>
    (issue_recorded e \<longrightarrow> issue_recorded e') \<and> (r = TESTUNKNOWN \<longrightarrow> issue_recorded e')"
  by (auto simp: test_state_def split: option.splits check_result.splits)

text \<open>An iteration appends to the results, pushes above the rest of the stack, and returns only with a
  result that is not HOLD.\<close>

lemma visit_continue:
  assumes "visit E n st e = Inr (Continue e')"
  shows "(\<exists>xs. eng_results e' = eng_results e @ xs \<and> (VERIUNKNOWN \<in> set xs \<longrightarrow> issue_recorded e')) \<and>
    (\<exists>new. eng_states e' = new @ eng_states e) \<and> (issue_recorded e \<longrightarrow> issue_recorded e')"
  using assms
  by (auto simp: visit_def visit_terminated_def visit_verifying_def visit_error_def visit_testing_def
      visit_failed_def visit_running_def Let_def
      dest!: verify_state_fields test_state_fields
      split: status.splits sum.splits prod.splits test_result.splits if_splits option.splits)

lemma visit_return:
  assumes "visit E n st e = Inr (Return e')"
  shows "\<exists>r. eng_results e' = eng_results e @ [r] \<and> r \<noteq> HOLD \<and> (r = VERIUNKNOWN \<longrightarrow> issue_recorded e') \<and>
    (issue_recorded e \<longrightarrow> issue_recorded e')"
  using assms
  by (auto simp: visit_def visit_terminated_def visit_verifying_def visit_error_def visit_testing_def
      visit_failed_def visit_running_def Let_def
      dest!: verify_state_fields test_state_fields
      split: status.splits sum.splits prod.splits test_result.splits if_splits option.splits)

section \<open>Runs\<close>

lemma run_loop_cases:
  assumes "run_loop E n k e = Inr e'"
  obtains (finished) "eng_states e = []" "e' = e"
  | (returned) st sts where "eng_states e = st # sts" "visit E n st (e\<lparr>eng_states := sts\<rparr>) = Inr (Return e')"
  | (continued) st sts e1 k1 where "eng_states e = st # sts" "k = Suc k1"
      "visit E n st (e\<lparr>eng_states := sts\<rparr>) = Inr (Continue e1)" "run_loop E n k1 e1 = Inr e'"
  using assms
  by (cases k) (auto split: list.splits sum.splits outcome.splits)

text \<open>A run from an engine goes through every engine it reaches.\<close>

lemma run_loop_reach:
  assumes "engine_reach E n e e1" "run_loop E n k e = Inr e'"
  shows "\<exists>k1. run_loop E n k1 e1 = Inr e'"
  using assms
proof (induction arbitrary: k rule: engine_reach.induct)
  case (next_step e1 e2)
  then obtain k1 where "run_loop E n k1 e1 = Inr e'" by blast
  then show ?case
    using next_step.hyps(2)
    by (cases rule: run_loop_cases) (auto simp: engine_step_simps)
qed blast

lemma run_loop_results:
  "run_loop E n k e = Inr e' \<Longrightarrow> \<exists>xs. eng_results e' = eng_results e @ xs"
proof (induction k arbitrary: e)
  case (Suc k)
  from Suc.prems show ?case
  proof (cases rule: run_loop_cases)
    case (continued st sts e1 k1)
    then show ?thesis using Suc.IH [of e1] visit_continue [OF continued(3)] by auto
  next
    case (returned st sts)
    then show ?thesis using visit_return by fastforce
  qed simp
qed simp

lemma reach_issue:
  assumes "engine_reach E n e e1" "VERIUNKNOWN \<in> set (eng_results e) \<longrightarrow> issue_recorded e"
  shows "VERIUNKNOWN \<in> set (eng_results e1) \<longrightarrow> issue_recorded e1"
  using assms(1)
proof (induction rule: engine_reach.induct)
  case start
  then show ?case by (rule assms(2))
next
  case (next_step e1 e2)
  from next_step.hyps(2) obtain st sts where
    "visit E n st (e1\<lparr>eng_states := sts\<rparr>) = Inr (Continue e2)" by (auto elim: engine_step.cases)
  from visit_continue [OF this] show ?case using next_step.IH by auto
qed

text \<open>A run ends at an engine it reaches: with an empty stack, or by a return.\<close>

lemma run_loop_end:
  "run_loop E n k e = Inr e' \<Longrightarrow>
     (engine_reach E n e e' \<and> eng_states e' = []) \<or>
     (\<exists>e1 st sts. engine_reach E n e e1 \<and> eng_states e1 = st # sts \<and>
        visit E n st (e1\<lparr>eng_states := sts\<rparr>) = Inr (Return e'))"
proof (induction k arbitrary: e)
  case (Suc k)
  from Suc.prems show ?case
  proof (cases rule: run_loop_cases)
    case finished
    then show ?thesis by (auto intro: engine_reach.intros)
  next
    case (returned st sts)
    then show ?thesis by (blast intro: engine_reach.intros)
  next
    case (continued st sts e1 k1)
    have "engine_step E n e e1" using continued(1,3) by (rule engine_step.intros)
    then show ?thesis using Suc.IH [of e1] continued engine_reach_first by blast
  qed
qed simp

lemma verdict_HOLD: "verdict rs = HOLD \<longleftrightarrow> (\<forall>r\<in>set rs. r = HOLD)"
  by (auto simp: verdict_def list_all_iff)

lemma verdict_FAIL: "verdict rs = FAIL \<longleftrightarrow> FAIL \<in> set rs"
  by (auto simp: verdict_def list_all_iff list_ex_iff)

lemma hold_no_return:
  assumes "run_loop E n k e = Inr e'" "verdict (eng_results e') = HOLD" "engine_reach E n e e1"
    "eng_states e1 = st # sts"
  obtains e2 where "visit E n st (e1\<lparr>eng_states := sts\<rparr>) = Inr (Continue e2)"
    "engine_step E n e1 e2" "engine_reach E n e e2" "\<forall>r\<in>set (eng_results e2). r = HOLD"
proof -
  obtain k1 where k1: "run_loop E n k1 e1 = Inr e'" using run_loop_reach [OF assms(3,1)] by blast
  from k1 show ?thesis
  proof (cases rule: run_loop_cases)
    case finished
    then show ?thesis using assms(4) by simp
  next
    case (returned st' sts')
    then show ?thesis using visit_return [OF returned(2)] assms(2) by (auto simp: verdict_HOLD)
  next
    case (continued st' sts' e2 k2)
    have c: "visit E n st (e1\<lparr>eng_states := sts\<rparr>) = Inr (Continue e2)" using continued assms(4) by simp
    have step: "engine_step E n e1 e2" using assms(4) c by (rule engine_step.intros)
    have "\<forall>r\<in>set (eng_results e2). r = HOLD"
      using run_loop_results [OF continued(4)] assms(2) by (auto simp: verdict_HOLD)
    then show ?thesis using that c step assms(3) engine_reach.intros(2) by blast
  qed
qed

text \<open>With the verdict HOLD every state on the stack is explored.\<close>

lemma hold_explores_stack:
  "run_loop E n k e = Inr e' \<Longrightarrow> verdict (eng_results e') = HOLD \<Longrightarrow> st \<in> set (eng_states e) \<Longrightarrow>
   explored E n e st"
proof (induction k arbitrary: e)
  case (Suc k)
  from Suc.prems(1) show ?case
  proof (cases rule: run_loop_cases)
    case finished
    then show ?thesis using Suc.prems(3) by simp
  next
    case (returned st' sts)
    then show ?thesis using visit_return [OF returned(2)] Suc.prems(2) by (auto simp: verdict_HOLD)
  next
    case (continued st' sts e1 k1)
    have step: "engine_step E n e e1" using continued(1,3) by (rule engine_step.intros)
    show ?thesis
    proof (cases "st = st'")
      case True
      then show ?thesis using continued(1) by (auto simp: explored_def intro: engine_reach.intros)
    next
      case False
      then have "st \<in> set (eng_states e1)"
        using continued(1) Suc.prems(3) visit_continue [OF continued(3)] by auto
      then have "explored E n e1 st" using Suc.IH [of e1] continued(2,4) Suc.prems(2) by simp
      then show ?thesis using engine_reach_first [OF step] by (fastforce simp: explored_def)
    qed
  qed
qed simp

lemma hold_explores_reached:
  assumes "run_loop E n k e = Inr e'" "verdict (eng_results e') = HOLD" "engine_reach E n e e1"
    "st \<in> set (eng_states e1)"
  shows "explored E n e st"
proof -
  obtain k1 where k1: "run_loop E n k1 e1 = Inr e'" using run_loop_reach [OF assms(3,1)] by blast
  have "explored E n e1 st" by (rule hold_explores_stack [OF k1 assms(2,4)])
  moreover have "engine_reach E n e e2" if "engine_reach E n e1 e2" for e2
    using that assms(3) by (induction rule: engine_reach.induct) (auto intro: engine_reach.intros)
  ultimately show ?thesis by (auto simp: explored_def)
qed


section \<open>The verdicts\<close>

text \<open>The states a running or tested state is followed by in the exploration.\<close>

definition followed :: "exec_env \<Rightarrow> nat \<Rightarrow> engine \<Rightarrow> exec_state \<Rightarrow> bool" where
  "followed E n e st \<longleftrightarrow>
     (status_of st = RUNNING \<longrightarrow>
        (\<exists>s sts s'. execute E n st s = Inr (sts, s') \<and> (\<forall>st'\<in>set sts. explored E n e st'))) \<and>
     (status_of st = TESTING \<longrightarrow>
        (\<forall>I. path_holds (env_z3 E) I st \<longrightarrow> explored E n e (st\<lparr>status_of := RUNNING\<rparr>))) \<and>
     (status_of st = VERIFYING \<longrightarrow>
        (\<exists>st'. append_condition (env_z3 E) (verification_condition st) st = Some st' \<and>
           explored E n e (st'\<lparr>status_of := RUNNING\<rparr>)))"


text \<open>What is known of an explored state: no error is reached, its assertion is implied by its path
  condition where it is defined, and it is followed.\<close>

definition safe_state :: "exec_env \<Rightarrow> nat \<Rightarrow> engine \<Rightarrow> exec_state \<Rightarrow> bool" where
  "safe_state E n e st \<longleftrightarrow> status_of st \<notin> {REACH_ERROR, UNKNOWN, FAILED} \<and> followed E n e st \<and>
     (status_of st = VERIFYING \<longrightarrow>
        (\<exists>d a. defined_term (env_z3 E) (verification_condition st) = Some d \<and>
           as_expr (env_z3 E) (verification_condition st) = Some a \<and>
           (\<forall>I. path_holds (env_z3 E) I st \<and> holds I d \<longrightarrow> holds I a)))"

lemma verify_state_HOLD:
  assumes "check_ok z" "verify_state z st e = Inr (HOLD, e')"
  shows "\<exists>d a. defined_term z (verification_condition st) = Some d \<and>
    as_expr z (verification_condition st) = Some a \<and> (\<forall>I. path_holds z I st \<and> holds I d \<longrightarrow> holds I a)"
proof -
  obtain c d a where q: "assertion_query z st = Inr (c, d, a)" "z_check z [c, d, z_not a] = Unsat"
    using assms(2) by (auto simp: verify_state_def split: sum.splits check_result.splits if_splits)
  have t: "as_expr z (path_condition st) = Some c" "defined_term z (verification_condition st) = Some d"
    "as_expr z (verification_condition st) = Some a"
    using q(1) by (auto simp: assertion_query_def split: option.splits if_splits)
  have "\<not> (holds I c \<and> holds I d \<and> \<not> holds I a)" for I
    using check_unsat [OF assms(1) q(2), of I] by (auto simp: holds_connectives)
  then show ?thesis using t by (auto simp: path_holds_def)
qed

lemma hold_safe:
  assumes z: "check_ok (env_z3 E)" and run: "run_loop E n k e = Inr e'" "verdict (eng_results e') = HOLD"
    and st: "explored E n e st"
  shows "safe_state E n e st"
proof -
  let ?z = "env_z3 E"
  obtain e1 sts where e1: "engine_reach E n e e1" "eng_states e1 = st # sts"
    using st by (auto simp: explored_def)
  let ?e = "e1\<lparr>eng_states := sts\<rparr>"
  obtain e2 where v: "visit E n st ?e = Inr (Continue e2)" "engine_reach E n e e2"
      "\<forall>r\<in>set (eng_results e2). r = HOLD"
    using hold_no_return [OF run e1] by blast
  have on_stack: "explored E n e st'" if "st' \<in> set (eng_states e2)" for st'
    by (rule hold_explores_reached [OF run v(2) that])
  have bad: "status_of st \<notin> {REACH_ERROR, UNKNOWN, FAILED}"
    using v(1) by (auto simp: visit_def visit_error_def visit_failed_def
      split: sum.splits prod.splits test_result.splits if_splits option.splits)
  have running: "\<exists>s sts s'. execute E n st s = Inr (sts, s') \<and> (\<forall>st'\<in>set sts. explored E n e st')"
    if h: "status_of st = RUNNING"
  proof -
    obtain succ s' where x: "execute E n st (eng_session ?e) = Inr (succ, s')"
        "e2 = ?e\<lparr>eng_session := s', eng_states := rev succ @ eng_states ?e\<rparr>"
      using v(1) h by (auto simp: visit_def visit_running_def split: sum.splits prod.splits)
    then have "\<forall>st'\<in>set succ. explored E n e st'" using on_stack by simp
    then show ?thesis using x(1) by blast
  qed
  have testing: "explored E n e (st\<lparr>status_of := RUNNING\<rparr>)"
    if h: "status_of st = TESTING" "path_holds ?z I st" for I
  proof -
    obtain c where c: "as_expr ?z (path_condition st) = Some c" "holds I c"
      using h(2) by (auto simp: path_holds_def)
    have "z_check ?z [c] \<noteq> Unsat" using check_unsat [OF z, of "[c]" I] c(2) by auto
    moreover have "z_check ?z [c] \<noteq> Unknown"
      using v(1,3) h(1) c(1) by (auto simp: visit_def visit_testing_def test_state_def)
    ultimately have "z_check ?z [c] = Sat" by (cases "z_check ?z [c]") auto
    then show ?thesis
      using v(1) h(1) c(1) by (intro on_stack) (auto simp: visit_def visit_testing_def test_state_def)
  qed
  have verifying: "(\<exists>st'. append_condition ?z (verification_condition st) st = Some st' \<and>
        explored E n e (st'\<lparr>status_of := RUNNING\<rparr>)) \<and>
      (\<exists>d a. defined_term ?z (verification_condition st) = Some d \<and>
        as_expr ?z (verification_condition st) = Some a \<and> (\<forall>I. path_holds ?z I st \<and> holds I d \<longrightarrow> holds I a))"
    if h: "status_of st = VERIFYING"
  proof -
    obtain r e3 st' where r: "verify_state ?z st ?e = Inr (r, e3)" "r \<noteq> FAIL"
        "append_condition ?z (verification_condition st) st = Some st'"
        "e2 = (push_result r e3)\<lparr>eng_states := st'\<lparr>status_of := RUNNING\<rparr> # eng_states (push_result r e3)\<rparr>"
      using v(1) h by (auto simp: visit_def visit_verifying_def Let_def split: sum.splits prod.splits if_splits option.splits)
    have "r = HOLD" using v(3) r(4) by simp
    then show ?thesis using r verify_state_HOLD [OF z] on_stack by auto
  qed
  show ?thesis using bad running testing verifying by (simp add: safe_state_def followed_def)
qed

definition start_engine :: "exec_env \<Rightarrow> exec_state \<Rightarrow> engine \<Rightarrow> engine" where
  "start_engine E st e = (set_default_entry (env_module E) (fresh_run e))\<lparr>eng_states := [st]\<rparr>"

lemma set_default_entry_twice [simp]:
  "set_default_entry m (set_default_entry m e) = set_default_entry m e"
  by (cases e) (simp add: set_default_entry_def)

lemma verify_run:
  assumes "verify E n k e = Inr (r, e')"
  obtains st0 where "build_initial_state E (set_default_entry (env_module E) (fresh_run e)) = Some st0"
    "run_loop E n k (start_engine E st0 e) = Inr e'" "r = verdict (eng_results e')"
proof -
  obtain st0 where b: "build_initial_state E (set_default_entry (env_module E) (fresh_run e)) = Some st0"
      "run_from E n k st0 (set_default_entry (env_module E) (fresh_run e)) = Inr e'" "r = verdict (eng_results e')"
    using assms by (auto simp: verify_def run_def Let_def split: sum.splits option.splits)
  have "eng_states (set_default_entry (env_module E) (fresh_run e)) = []"
    by (simp add: set_default_entry_def fresh_run_def)
  then have "run_loop E n k (start_engine E st0 e) = Inr e'"
    using b(2) by (simp add: run_from_def start_engine_def Let_def)
  then show ?thesis using that b by blast
qed

text \<open>C1: when the verdict is HOLD the initial state is explored, and every explored state is safe: no
  error state is met, every assertion follows from its path condition wherever it is defined, and all
  successors, and every tested state whose path condition holds for some values, are explored too.\<close>

theorem verdict_hold_sound:
  assumes "check_ok (env_z3 E)" "verify E n k e = Inr (HOLD, e')"
  shows "\<exists>st0. build_initial_state E (set_default_entry (env_module E) (fresh_run e)) = Some st0 \<and>
    explored E n (start_engine E st0 e) st0 \<and>
    (\<forall>st. explored E n (start_engine E st0 e) st \<longrightarrow> safe_state E n (start_engine E st0 e) st)"
proof -
  obtain st0 where b: "build_initial_state E (set_default_entry (env_module E) (fresh_run e)) = Some st0"
    "run_loop E n k (start_engine E st0 e) = Inr e'" "HOLD = verdict (eng_results e')"
    using verify_run [OF assms(2)] by blast
  have "explored E n (start_engine E st0 e) st0"
    unfolding explored_def by (intro exI [of _ "start_engine E st0 e"] exI [of _ "[]"])
      (simp add: start_engine_def engine_reach.start)
  then show ?thesis using b hold_safe [OF assms(1) b(2) b(3) [symmetric]] by blast
qed


section \<open>Counterexamples\<close>

text \<open>Why a run has the result FAIL: a precise state whose assertion fails for the values of a model of
  its path condition, a precise error state with a feasible path condition, or a state that the
  assertions of a loop summary have failed.\<close>

definition violates :: "exec_env \<Rightarrow> exec_state \<Rightarrow> bool" where
  "violates E st \<longleftrightarrow>
     (status_of st = VERIFYING \<and> \<not> imprecise st \<and>
        (\<exists>I d a. path_holds (env_z3 E) I st \<and> defined_term (env_z3 E) (verification_condition st) = Some d \<and>
           as_expr (env_z3 E) (verification_condition st) = Some a \<and> holds I d \<and> \<not> holds I a)) \<or>
     (status_of st = REACH_ERROR \<and> \<not> imprecise st \<and> (\<exists>I. path_holds (env_z3 E) I st)) \<or>
     (status_of st = FAILED \<and> counterexample_complete st)"

lemma verify_state_FAIL:
  assumes "check_ok z" "verify_state z st e = Inr (FAIL, e')"
  shows "\<not> imprecise st \<and> (\<exists>I d a. path_holds z I st \<and> defined_term z (verification_condition st) = Some d \<and>
    as_expr z (verification_condition st) = Some a \<and> holds I d \<and> \<not> holds I a)"
proof -
  obtain c d a where q: "assertion_query z st = Inr (c, d, a)" "z_check z [c, d, z_not a] = Sat" "\<not> imprecise st"
    using assms(2) by (auto simp: verify_state_def split: sum.splits check_result.splits if_splits)
  have t: "as_expr z (path_condition st) = Some c" "defined_term z (verification_condition st) = Some d"
    "as_expr z (verification_condition st) = Some a"
    using q(1) by (auto simp: assertion_query_def split: option.splits if_splits)
  let ?I = "z_model z [c, d, z_not a]"
  have "holds ?I c" "holds ?I d" "holds ?I (z_not a)"
    using check_sat [OF assms(1) q(2)] by simp_all
  then show ?thesis using t q(3) by (auto simp: path_holds_def holds_connectives)
qed

lemma visit_FAIL:
  assumes z: "check_ok (env_z3 E)" and v: "visit E n st e = Inr out"
    and out: "out = Continue e' \<or> out = Return e'"
    and new: "FAIL \<in> set (eng_results e')" "FAIL \<notin> set (eng_results e)"
  shows "violates E st"
proof -
  let ?z = "env_z3 E"
  show ?thesis
  proof (cases "status_of st")
    case VERIFYING
    obtain r e1 where r: "verify_state ?z st e = Inr (r, e1)"
      using v VERIFYING by (auto simp: visit_def visit_verifying_def split: sum.splits)
    have "eng_results e' = eng_results e @ [r]"
      using v VERIFYING r out verify_state_fields [OF r]
      by (auto simp: visit_def visit_verifying_def Let_def split: if_splits option.splits)
    then have "r = FAIL" using new by auto
    then show ?thesis using verify_state_FAIL [OF z] r VERIFYING by (auto simp: violates_def)
  next
    case REACH_ERROR
    obtain t e1 where t: "test_state ?z st e = Inr (t, e1)"
      using v REACH_ERROR by (auto simp: visit_def visit_error_def split: sum.splits)
    have f: "t = FEASIBLE" "\<not> imprecise st"
      using v REACH_ERROR t out new test_state_fields [OF t]
      by (auto simp: visit_def visit_error_def split: test_result.splits if_splits option.splits)
    obtain c where c: "as_expr ?z (path_condition st) = Some c" "z_check ?z [c] = Sat"
      using t f(1) by (auto simp: test_state_def split: option.splits check_result.splits)
    have "path_holds ?z (z_model ?z [c]) st"
      using c check_sat [OF z c(2)] by (simp add: path_holds_def)
    then show ?thesis using REACH_ERROR f(2) by (auto simp: violates_def)
  next
    case FAILED
    then show ?thesis using v out new
      by (auto simp: visit_def visit_failed_def violates_def split: if_splits)
  next
    case TESTING
    then show ?thesis using v out new
      by (auto simp: visit_def visit_testing_def dest!: test_state_fields
        split: sum.splits prod.splits test_result.splits)
  qed (use v out new in \<open>auto simp: visit_def visit_terminated_def visit_running_def
      split: sum.splits prod.splits\<close>)
qed

lemma fail_violates:
  assumes z: "check_ok (env_z3 E)"
  shows "run_loop E n k e = Inr e' \<Longrightarrow> FAIL \<in> set (eng_results e') \<Longrightarrow> FAIL \<notin> set (eng_results e) \<Longrightarrow>
    \<exists>st. explored E n e st \<and> violates E st"
proof (induction k arbitrary: e)
  case (Suc k)
  from Suc.prems(1) show ?case
  proof (cases rule: run_loop_cases)
    case finished
    then show ?thesis using Suc.prems by simp
  next
    case (returned st sts)
    have "violates E st"
      by (rule visit_FAIL [OF z returned(2)]) (use Suc.prems(2,3) in auto)
    then show ?thesis using returned(1) by (auto simp: explored_def intro: engine_reach.intros)
  next
    case (continued st sts e1 k1)
    have step: "engine_step E n e e1" using continued(1,3) by (rule engine_step.intros)
    show ?thesis
    proof (cases "FAIL \<in> set (eng_results e1)")
      case True
      have "violates E st"
        by (rule visit_FAIL [OF z continued(3)]) (use True Suc.prems(3) in auto)
      then show ?thesis using continued(1) by (auto simp: explored_def intro: engine_reach.intros)
    next
      case False
      then obtain st' where "explored E n e1 st'" "violates E st'"
        using Suc.IH [of e1] continued(2,4) Suc.prems(2) by auto
      then show ?thesis using engine_reach_first [OF step] by (fastforce simp: explored_def)
    qed
  qed
qed simp


text \<open>C39: a verdict that is neither HOLD nor FAIL comes with a recorded issue.\<close>

theorem unknown_verdict_has_issue:
  assumes "verify E n k e = Inr (VERIUNKNOWN, e')"
  shows "issue_recorded e'"
proof -
  obtain st0 where b: "run_loop E n k (start_engine E st0 e) = Inr e'" "VERIUNKNOWN = verdict (eng_results e')"
    using verify_run [OF assms] by blast
  let ?s = "start_engine E st0 e"
  have start: "VERIUNKNOWN \<in> set (eng_results ?s) \<longrightarrow> issue_recorded ?s"
    by (simp add: start_engine_def fresh_run_def set_default_entry_def)
  have "VERIUNKNOWN \<in> set (eng_results e')"
  proof (rule ccontr)
    assume "VERIUNKNOWN \<notin> set (eng_results e')"
    then have "\<forall>r\<in>set (eng_results e'). r = HOLD \<or> r = FAIL" by (metis veri_result.exhaust)
    then have "verdict (eng_results e') \<noteq> VERIUNKNOWN" by (auto simp: verdict_def list_all_iff list_ex_iff)
    then show False using b(2) by simp
  qed
  moreover have "VERIUNKNOWN \<in> set (eng_results e') \<longrightarrow> issue_recorded e'"
    using run_loop_end [OF b(1)]
  proof (elim disjE exE conjE)
    assume "engine_reach E n ?s e'"
    then show ?thesis using reach_issue start by blast
  next
    fix e1 st sts
    assume r: "engine_reach E n ?s e1" and v: "visit E n st (e1\<lparr>eng_states := sts\<rparr>) = Inr (Return e')"
    show ?thesis using reach_issue [OF r start] visit_return [OF v] by auto
  qed
  ultimately show ?thesis by blast
qed


section \<open>A program with one assertion\<close>

text \<open>\<open>main\<close> asserts a constant and returns.\<close>

definition assert_kind :: "int \<Rightarrow> value_id \<Rightarrow> value_kind" where
  "assert_kind k v = (if v = 0 then Inst (Call (Some 1) [(2, False)]) else if v = 1 then Inst (Ret None)
     else ConstInt k k)"

definition assert_module :: "int \<Rightarrow> llvm_module" where
  "assert_module k = sample_module\<lparr>kind_of := assert_kind k, ty_of := (\<lambda>_. IntTy 1),
     insts_of := (\<lambda>_. [0, 1]), func_name := (\<lambda>f. if f = 0 then ''main'' else ''__VERIFIER_assert''),
     exact_definition := (\<lambda>f. f = 0), all_functions := [0, 1]\<rparr>"

definition assert_env :: "z3_api \<Rightarrow> int \<Rightarrow> exec_env" where
  "assert_env z k = \<lparr>env_z3 = z, env_module = assert_module k, env_getenv = (\<lambda>_. None),
     env_partial_eval = (\<lambda>_ e. e), summarize_function = (\<lambda>_. give None), summarize_loop = (\<lambda>_ _. give None),
     accelerate_path = (\<lambda>_ _ _. give None), accelerate_nested = (\<lambda>_ _. give None), header_control = (\<lambda>_. False)\<rparr>"

lemma assert_fields [simp]:
  "kind_of (assert_module k) = assert_kind k" "ty_of (assert_module k) = (\<lambda>_. IntTy 1)"
  "insts_of (assert_module k) = (\<lambda>_. [0, 1])" "block_of (assert_module k) = (\<lambda>_. 0)"
  "func_name (assert_module k) = (\<lambda>f. if f = 0 then ''main'' else ''__VERIFIER_assert'')"
  "exact_definition (assert_module k) = (\<lambda>f. f = 0)" "all_functions (assert_module k) = [0, 1]"
  "blocks_of (assert_module k) = (\<lambda>_. [0])" "args_of (assert_module k) = (\<lambda>_. [])"
  "module_globals (assert_module k) = []" "env_z3 (assert_env z k) = z" "env_module (assert_env z k) = assert_module k"
  by (simp_all add: assert_module_def sample_module_def assert_env_def)

text \<open>A solver that computes: it evaluates terms without uninterpreted symbols and quantifiers.\<close>

fun ground_value :: "z3expr \<Rightarrow> z3val option" where
  "ground_value (App f es) =
     (if closed_op f then map_option (apply_op zero_interp f) (those (map ground_value es)) else None)"
| "ground_value (Quant q xs b) = None"

definition ground_z3 :: z3_api where
  "ground_z3 = \<lparr>z_simplify = (\<lambda>e. e),
     z_check = (\<lambda>fs. if list_ex (\<lambda>f. ground_value f = None) fs then Unknown
        else if list_all (\<lambda>f. map_option bool_of (ground_value f) = Some True) fs then Sat else Unsat),
     z_model = (\<lambda>_. zero_interp), z_core = (\<lambda>fs ls. ls), z_string = (\<lambda>_. []),
     z_elim_ite = (\<lambda>e. [e]), z_qe = (\<lambda>e. [e])\<rparr>"

lemma those_map: "those (map g xs) = Some vs \<Longrightarrow> (\<And>x v. x \<in> set xs \<Longrightarrow> g x = Some v \<Longrightarrow> h x = v) \<Longrightarrow> map h xs = vs"
  by (induction xs arbitrary: vs) (auto split: option.splits)

lemma ground_value_eval: "ground_value e = Some v \<Longrightarrow> eval I e = v"
proof (induction e arbitrary: v)
  case (App f es)
  then obtain vs where "those (map ground_value es) = Some vs" "closed_op f" "v = apply_op zero_interp f vs"
    by (auto split: if_splits)
  then show ?case using App.IH those_map [of ground_value es vs "eval I"] apply_closed_op by simp
qed simp

lemma ground_z3_check: "check_ok ground_z3"
proof -
  have g: "holds I f = bool_of v" if "ground_value f = Some v" for f v I
    using ground_value_eval [OF that] by (simp add: holds_def)
  have "\<exists>f\<in>set fs. \<not> holds I f" if "z_check ground_z3 fs = Unsat" for fs I
    using that g by (fastforce simp: ground_z3_def list_ex_iff list_all_iff split: if_splits)
  moreover have "\<forall>f\<in>set fs. holds (z_model ground_z3 fs) f" if "z_check ground_z3 fs = Sat" for fs
    using that g by (fastforce simp: ground_z3_def list_ex_iff list_all_iff split: if_splits)
  ultimately show ?thesis unfolding check_ok_def by blast
qed

definition verdict_of :: "exec_error + (veri_result \<times> engine) \<Rightarrow> veri_result option" where
  "verdict_of r = (case r of Inr (v, _) \<Rightarrow> Some v | Inl _ \<Rightarrow> None)"

text \<open>Quantifiers are not computed with.\<close>

declare eval.simps(2) [code del]

definition silent_solver :: z3_api where
  "silent_solver = ground_z3\<lparr>z_check := (\<lambda>_. Unknown)\<rparr>"

lemma assert_verdicts:
  "verdict_of (verify (assert_env ground_z3 1) 3 5 new_engine) = Some HOLD"
  "verdict_of (verify (assert_env ground_z3 0) 3 5 new_engine) = Some FAIL"
  "verdict_of (verify (assert_env silent_solver 1) 3 5 new_engine) = Some VERIUNKNOWN"
  by code_simp+

lemma verdict_ofD: "verdict_of r = Some v \<Longrightarrow> \<exists>e'. r = Inr (v, e')"
  by (auto simp: verdict_of_def split: sum.splits)

theorem verdict_hold_sound_witness:
  "\<exists>st0. explored (assert_env ground_z3 1) 3 (start_engine (assert_env ground_z3 1) st0 new_engine) st0 \<and>
     safe_state (assert_env ground_z3 1) 3 (start_engine (assert_env ground_z3 1) st0 new_engine) st0"
proof -
  obtain e' where v: "verify (assert_env ground_z3 1) 3 5 new_engine = Inr (HOLD, e')"
    using verdict_ofD [OF assert_verdicts(1)] by blast
  have "check_ok (env_z3 (assert_env ground_z3 1))" using ground_z3_check by simp
  from verdict_hold_sound [OF this v] show ?thesis by blast
qed


theorem unknown_verdict_has_issue_witness:
  "\<exists>e'. verify (assert_env silent_solver 1) 3 5 new_engine = Inr (VERIUNKNOWN, e') \<and> issue_recorded e'"
proof -
  obtain e' where v: "verify (assert_env silent_solver 1) 3 5 new_engine = Inr (VERIUNKNOWN, e')"
    using verdict_ofD [OF assert_verdicts(3)] by blast
  then show ?thesis using unknown_verdict_has_issue [OF v] by blast
qed

end
