(* ===== verification/Recurrence_Solver.thy ===== *)
theory Recurrence_Solver
  imports Rec_Worker Summaries "HOL-Library.List_Lexorder" "HOL-Library.Char_ord"
begin

text \<open>
  Conditional recurrences and their closed forms (include/rec_solver.h, lib/rec_solver.cpp): the
  abstraction of invariant conditionals by parameters, the splitting of conditionals into cases, the
  input text of the external solver, the reading of its answer and the solver for constant
  differences.  An equation gives a term at the next index as a term at the current one.
\<close>

section \<open>Maps of equations\<close>

text \<open>A \<open>std::map\<close> ordered by the printed keys; an assignment to a present key keeps that key.\<close>

type_synonym rec_ty = "(z3expr \<times> z3expr) list"

fun assign_equation :: "z3_api \<Rightarrow> z3expr \<Rightarrow> z3expr \<Rightarrow> rec_ty \<Rightarrow> rec_ty" where
  "assign_equation z k v [] = [(k, v)]"
| "assign_equation z k v ((k', v') # m) =
     (if z_string z k < z_string z k' then (k, v) # (k', v') # m
      else if z_string z k' < z_string z k then (k', v') # assign_equation z k v m
      else (k', v) # m)"

definition map_equations :: "(z3expr \<Rightarrow> z3expr) \<Rightarrow> rec_ty \<Rightarrow> rec_ty" where
  "map_equations f m = map (\<lambda>(lhs, rhs). (lhs, f rhs)) m"

section \<open>Errors\<close>

text \<open>A failed assertion, an index out of range and a loop that does not end leave the program; an
  exception is caught by the caller.\<close>

datatype rec_error = RecAborted | RecThrown string

type_synonym 'a rec_result = "rec_error + 'a"

definition bind_rec :: "'a rec_result \<Rightarrow> ('a \<Rightarrow> 'b rec_result) \<Rightarrow> 'b rec_result" where
  "bind_rec r f = (case r of Inl e \<Rightarrow> Inl e | Inr x \<Rightarrow> f x)"

definition require :: "bool \<Rightarrow> 'a rec_result \<Rightarrow> 'a rec_result" where
  "require c r = (if c then r else Inl RecAborted)"

fun collect :: "'a rec_result list \<Rightarrow> 'a list rec_result" where
  "collect [] = Inr []"
| "collect (r # rs) = bind_rec r (\<lambda>x. bind_rec (collect rs) (\<lambda>xs. Inr (x # xs)))"

fun fold_rec :: "('a \<Rightarrow> 's \<Rightarrow> 's rec_result) \<Rightarrow> 'a list \<Rightarrow> 's \<Rightarrow> 's rec_result" where
  "fold_rec f [] s = Inr s"
| "fold_rec f (x # xs) s = bind_rec (f x s) (fold_rec f xs)"

section \<open>Conditionals\<close>

fun first_some :: "'a option list \<Rightarrow> 'a option" where
  "first_some [] = None"
| "first_some (x # xs) = (case x of Some y \<Rightarrow> Some y | None \<Rightarrow> first_some xs)"

fun find_innermost_ite :: "z3expr \<Rightarrow> z3expr option" where
  "find_innermost_ite (Quant q xs b) = None"
| "find_innermost_ite (App f es) =
     (case first_some (map find_innermost_ite es) of
        Some nested \<Rightarrow> Some nested
      | None \<Rightarrow> if f = OIte then Some (App f es) else None)"

text \<open>
  A declaration is an operator with the sorts of its arguments.  A quantifier has neither declaration
  nor arguments.
\<close>

type_synonym func_decl = "z3op \<times> z3sort list"

fun decl_of :: "z3expr \<Rightarrow> func_decl option" where
  "decl_of (App f es) = Some (f, map sort_of es)"
| "decl_of (Quant q xs b) = None"

fun depends_on_recurrence :: "func_decl option set \<Rightarrow> z3expr \<Rightarrow> z3expr \<Rightarrow> bool" where
  "depends_on_recurrence decls var (App f es) =
     (App f es = var \<or> decl_of (App f es) \<in> decls \<or> list_ex (depends_on_recurrence decls var) es)"
| "depends_on_recurrence decls var (Quant q xs b) = (Quant q xs b = var)"

fun find_invariant_ite :: "func_decl option set \<Rightarrow> z3expr \<Rightarrow> z3expr \<Rightarrow> z3expr option" where
  "find_invariant_ite decls var (Quant q xs b) = None"
| "find_invariant_ite decls var (App f es) =
     (case first_some (map (find_invariant_ite decls var) es) of
        Some nested \<Rightarrow> Some nested
      | None \<Rightarrow> if f = OIte \<and> \<not> depends_on_recurrence decls var (App f es) then Some (App f es) else None)"

section \<open>Case splitting\<close>

record transition_case =
  tc_condition :: z3expr
  tc_equations :: rec_ty

definition case_ite :: "transition_case \<Rightarrow> z3expr option" where
  "case_ite c =
     (case find_innermost_ite (tc_condition c) of
        Some ite \<Rightarrow> Some ite
      | None \<Rightarrow> first_some (map (\<lambda>(lhs, rhs). find_innermost_ite rhs) (tc_equations c)))"

definition branch_case :: "z3_api \<Rightarrow> z3expr \<Rightarrow> z3expr \<Rightarrow> z3expr \<Rightarrow> transition_case \<Rightarrow> transition_case" where
  "branch_case z ite replacement branch_condition current =
     \<lparr>tc_condition = z_simplify z (z_and (substitute [(ite, replacement)] (tc_condition current)) branch_condition),
      tc_equations = map_equations (substitute [(ite, replacement)]) (tc_equations current)\<rparr>"

text \<open>
  The loop over the stack of pending cases, its top at the head; each conditional is replaced by its
  branches.  The loop need not end when the simplifier brings conditionals back.
\<close>

partial_function (option) split_loop ::
    "z3_api \<Rightarrow> transition_case list \<Rightarrow> transition_case list \<Rightarrow> transition_case list option" where
  "split_loop z pending result =
     (case pending of
        [] \<Rightarrow> Some result
      | current # rest \<Rightarrow>
          (case case_ite current of
             None \<Rightarrow> split_loop z rest (result @ [current])
           | Some ite \<Rightarrow>
               split_loop z
                 (branch_case z ite (args ite ! 2) (z_not (args ite ! 0)) current #
                  branch_case z ite (args ite ! 1) (args ite ! 0) current # rest) result))"

definition split_ite_cases :: "z3_api \<Rightarrow> z3expr \<Rightarrow> rec_ty \<Rightarrow> transition_case list option" where
  "split_ite_cases z condition equations =
     split_loop z [\<lparr>tc_condition = condition, tc_equations = equations\<rparr>] []"

section \<open>Applications and coefficients\<close>

fun find_all_app_of_decl :: "func_decl \<Rightarrow> z3expr \<Rightarrow> z3expr list" where
  "find_all_app_of_decl func (Quant q xs b) = []"
| "find_all_app_of_decl func (App f es) =
     (if f = OAdd \<or> f = OMul \<or> f = OSub then concat (map (find_all_app_of_decl func) es)
      else if decl_of (App f es) = Some func then [App f es] else [])"

definition same_term :: "z3_api \<Rightarrow> z3expr \<Rightarrow> z3expr \<Rightarrow> bool" where
  "same_term z a b = (z_simplify z (z_eq a b) = z_true)"

text \<open>The product of the factors but the first one that equals the term.\<close>

fun without_factor :: "z3_api \<Rightarrow> z3expr \<Rightarrow> z3expr list \<Rightarrow> z3expr list option" where
  "without_factor z t [] = None"
| "without_factor z t (e # es) =
     (if same_term z e t then Some es else map_option ((#) e) (without_factor z t es))"

fun coeff_of :: "z3_api \<Rightarrow> z3expr \<Rightarrow> z3expr \<Rightarrow> z3expr rec_result" where
  "coeff_of z t (Quant q xs b) =
     Inr (z_simplify z (if same_term z (Quant q xs b) t then z_int 1 else z_int 0))"
| "coeff_of z t (App f es) =
     bind_rec
       (if f = OAdd
        then bind_rec (collect (map (coeff_of z t) es)) (\<lambda>cs. Inr (foldl z_add (z_int 0) cs))
        else if f = OSub
        then require (length es = 2)
               (bind_rec (collect (map (coeff_of z t) es)) (\<lambda>cs. Inr (z_sub (cs ! 0) (cs ! 1))))
        else if f = OMul
        then Inr (case without_factor z t es of
                    Some factors \<Rightarrow> foldl z_mul (z_int 1) factors
                  | None \<Rightarrow> z_int 0)
        else Inr (if same_term z (App f es) t then z_int 1 else z_int 0))
       (\<lambda>res. Inr (z_simplify z res))"

section \<open>The state of a solver\<close>

record rec_solver =
  rec_eqs :: rec_ty
  rec_res :: closed_forms
  ind_var :: z3expr
  initial_values_k :: "z3expr list"
  initial_values_v :: "z3expr list"
  recurrence_parameters :: "z3expr list"
  recurrence_parameter_values :: "z3expr list"
  rec_conds :: "z3expr list"
  rec_exprs :: "rec_ty list"
  assumption :: z3expr

definition empty_rec_solver :: rec_solver where
  "empty_rec_solver = \<lparr>rec_eqs = [], rec_res = [], ind_var = z_int_const ''n0'',
     initial_values_k = [], initial_values_v = [], recurrence_parameters = [],
     recurrence_parameter_values = [], rec_conds = [], rec_exprs = [], assumption = z_true\<rparr>"

definition set_ind_var :: "z3expr \<Rightarrow> rec_solver \<Rightarrow> rec_solver" where
  "set_ind_var var s = s\<lparr>ind_var := var\<rparr>"

definition get_ind_var :: "rec_solver \<Rightarrow> z3expr" where
  "get_ind_var s = ind_var s"

text \<open>The assignment operator copies the index and the initial values only.\<close>

definition assign_rec_solver :: "rec_solver \<Rightarrow> rec_solver \<Rightarrow> rec_solver" where
  "assign_rec_solver other s = s\<lparr>ind_var := ind_var other,
     initial_values_k := initial_values_k other, initial_values_v := initial_values_v other\<rparr>"

definition add_assumption :: "z3expr \<Rightarrow> rec_solver \<Rightarrow> rec_solver" where
  "add_assumption e s = s\<lparr>assumption := z_and (assumption s) e\<rparr>"

definition get_res :: "rec_solver \<Rightarrow> closed_forms" where
  "get_res s = rec_res s"

definition is_formatted :: "rec_solver \<Rightarrow> bool" where
  "is_formatted s = (length (rec_exprs s) > 0)"

section \<open>Counting conditionals\<close>

text \<open>Conditionals outside quantifiers; replacing one by a term without conditionals removes it.\<close>

fun ite_count :: "z3expr \<Rightarrow> nat" where
  "ite_count (App f es) = (if f = OIte then 1 else 0) + sum_list (map ite_count es)"
| "ite_count (Quant q xs b) = 0"

fun outer_subterms :: "z3expr \<Rightarrow> z3expr list" where
  "outer_subterms (App f es) = App f es # concat (map outer_subterms es)"
| "outer_subterms (Quant q xs b) = [Quant q xs b]"

lemma first_some_None: "first_some xs = None \<longleftrightarrow> (\<forall>x\<in>set xs. x = None)"
  by (induction xs) (auto split: option.splits)

lemma first_some_member: "first_some xs = Some y \<Longrightarrow> Some y \<in> set xs"
  by (induction xs) (auto split: option.splits)

lemma find_innermost_None: "find_innermost_ite e = None \<longleftrightarrow> ite_count e = 0"
proof (induction e)
  case (App f es)
  have "first_some (map find_innermost_ite es) = None \<longleftrightarrow> (\<forall>a\<in>set es. ite_count a = 0)"
    using App by (auto simp: first_some_None)
  then show ?case by (auto split: option.splits)
qed simp

lemma find_innermost_Some:
  "find_innermost_ite e = Some t \<Longrightarrow>
   t \<in> set (outer_subterms e) \<and> (\<exists>es. t = App OIte es \<and> (\<forall>a\<in>set es. ite_count a = 0))"
proof (induction e)
  case (App f es)
  show ?case
  proof (cases "first_some (map find_innermost_ite es)")
    case None
    then have "\<forall>a\<in>set es. find_innermost_ite a = None" by (simp add: first_some_None)
    then show ?thesis using None App.prems by (auto simp: find_innermost_None split: if_splits)
  next
    case (Some nested)
    then obtain a where "a \<in> set es" "find_innermost_ite a = Some nested"
      using first_some_member [OF Some] by auto
    then show ?thesis using Some App by auto
  qed
qed simp

lemma independent_invariant:
  "\<not> depends_on_recurrence decls var e \<Longrightarrow> find_invariant_ite decls var e = find_innermost_ite e"
proof (induction e)
  case (App f es)
  then have "\<forall>a\<in>set es. find_invariant_ite decls var a = find_innermost_ite a"
    by (auto simp: list_ex_iff)
  then have "map (find_invariant_ite decls var) es = map find_innermost_ite es" by simp
  then show ?case using App.prems unfolding find_invariant_ite.simps find_innermost_ite.simps
    by (simp del: map_eq_conv split: option.split)
qed simp

lemma find_invariant_Some:
  "find_invariant_ite decls var e = Some t \<Longrightarrow>
   t \<in> set (outer_subterms e) \<and> \<not> depends_on_recurrence decls var t \<and>
   (\<exists>es. t = App OIte es \<and> (\<forall>a\<in>set es. ite_count a = 0))"
proof (induction e)
  case (App f es)
  show ?case
  proof (cases "first_some (map (find_invariant_ite decls var) es)")
    case None
    then have t: "t = App f es" "f = OIte" "\<not> depends_on_recurrence decls var (App f es)"
      using App.prems by (simp_all add: None split: if_splits)
    have "find_innermost_ite a = None" if "a \<in> set es" for a
    proof -
      have "\<not> depends_on_recurrence decls var a" using t(3) that by (auto simp: list_ex_iff)
      then show ?thesis using None that independent_invariant [of decls var a]
        by (simp add: first_some_None)
    qed
    then show ?thesis using t by (auto simp: find_innermost_None)
  next
    case (Some nested)
    then obtain a where "a \<in> set es" "find_invariant_ite decls var a = Some nested"
      using first_some_member [OF Some] by auto
    then show ?thesis using Some App by auto
  qed
qed simp

lemma sum_list_less:
  fixes f g :: "'a \<Rightarrow> nat"
  assumes "\<forall>x\<in>set xs. g x \<le> f x" "x \<in> set xs" "g x < f x"
  shows "sum_list (map g xs) < sum_list (map f xs)"
  using assms
proof (induction xs)
  case (Cons y ys)
  then have "sum_list (map g ys) \<le> sum_list (map f ys)" by (intro sum_list_mono) auto
  then show ?case using Cons by auto
qed simp

lemma ite_count_substitute_le:
  "ite_count d = 0 \<Longrightarrow> ite_count (substitute [(App OIte cs, d)] e) \<le> ite_count e"
proof (induction e)
  case (App f es)
  then have "sum_list (map (\<lambda>a. ite_count (substitute [(App OIte cs, d)] a)) es) \<le> sum_list (map ite_count es)"
    by (intro sum_list_mono) auto
  then show ?case using App.prems by (simp add: comp_def)
qed simp

lemma ite_count_substitute_less:
  "ite_count d = 0 \<Longrightarrow> App OIte cs \<in> set (outer_subterms e) \<Longrightarrow>
   ite_count (substitute [(App OIte cs, d)] e) < ite_count e"
proof (induction e)
  case (App f es)
  show ?case
  proof (cases "App f es = App OIte cs")
    case True
    then show ?thesis using App.prems(1) by simp
  next
    case False
    then obtain a where "a \<in> set es" "App OIte cs \<in> set (outer_subterms a)" using App.prems(2) by auto
    then have "sum_list (map (\<lambda>a. ite_count (substitute [(App OIte cs, d)] a)) es) < sum_list (map ite_count es)"
      using App ite_count_substitute_le [OF App.prems(1), of cs]
      by (intro sum_list_less [where x = a]) auto
    then show ?thesis using False by (auto simp: comp_def)
  qed
qed simp

lemma ite_count_substitute_list:
  assumes "ite_count d = 0" "e \<in> set es" "App OIte cs \<in> set (outer_subterms e)"
  shows "sum_list (map (\<lambda>e. ite_count (substitute [(App OIte cs, d)] e)) es) < sum_list (map ite_count es)"
  using assms ite_count_substitute_less [of d cs e] ite_count_substitute_le [of d cs]
  by (intro sum_list_less [where x = e]) auto

section \<open>Invariant conditionals\<close>

definition rec_terms :: "z3expr list \<Rightarrow> rec_ty list \<Rightarrow> z3expr list" where
  "rec_terms guards systems = guards @ map snd (concat systems)"

definition next_invariant ::
    "func_decl option set \<Rightarrow> z3expr \<Rightarrow> z3expr list \<Rightarrow> rec_ty list \<Rightarrow> z3expr option" where
  "next_invariant decls var guards systems =
     first_some (map (find_invariant_ite decls var) (rec_terms guards systems))"

definition rec_parameter :: "nat \<Rightarrow> z3expr" where
  "rec_parameter n = z_int_const (''ari_rec_parameter_'' @ nat_to_string n)"

lemma rec_terms_map:
  "rec_terms (map f guards) (map (map_equations f) systems) = map f (rec_terms guards systems)"
  by (simp add: rec_terms_def map_equations_def map_concat comp_def case_prod_beta)

lemma next_invariant_Some:
  assumes "next_invariant decls var guards systems = Some t"
  obtains e cs where "e \<in> set (rec_terms guards systems)" "t = App OIte cs"
    "t \<in> set (outer_subterms e)" "\<not> depends_on_recurrence decls var t"
proof -
  obtain e where "e \<in> set (rec_terms guards systems)" "find_invariant_ite decls var e = Some t"
    using first_some_member [OF assms [unfolded next_invariant_def]] by auto
  then show ?thesis using that find_invariant_Some [of decls var e t] by blast
qed

function abstract_invariants ::
    "func_decl option set \<Rightarrow> z3expr \<Rightarrow> z3expr list \<Rightarrow> rec_ty list \<Rightarrow> z3expr list \<Rightarrow> z3expr list \<Rightarrow>
     z3expr list \<times> rec_ty list \<times> z3expr list \<times> z3expr list" where
  "abstract_invariants decls var guards systems parameters parameter_values =
     (case next_invariant decls var guards systems of
        None \<Rightarrow> (guards, systems, parameters, parameter_values)
      | Some ite \<Rightarrow>
          (let parameter = rec_parameter (length parameters);
               replace = substitute [(ite, parameter)]
           in abstract_invariants decls var (map replace guards) (map (map_equations replace) systems)
                (parameters @ [parameter]) (parameter_values @ [ite])))"
  by pat_completeness auto

text \<open>The loop ends: every pass removes a conditional.\<close>

termination
proof (relation "measure (\<lambda>(decls, var, guards, systems, ps, vs).
    sum_list (map ite_count (rec_terms guards systems)))", goal_cases)
  case (2 decls var guards systems ps vs ite parameter replace)
  obtain e cs where e: "e \<in> set (rec_terms guards systems)" "ite = App OIte cs"
    "ite \<in> set (outer_subterms e)"
    using next_invariant_Some [OF 2(1)] by metis
  then show ?case
    using ite_count_substitute_list [of parameter e "rec_terms guards systems" cs] 2(2,3)
    by (simp add: rec_terms_map comp_def rec_parameter_def)
qed simp

declare abstract_invariants.simps [simp del]

section \<open>Setting the equations\<close>

text \<open>
  The systems of several paths with their path conditions.  A single system keeps its conditionals and
  gets the condition true; several systems are split into cases without conditionals.
\<close>

definition set_eqs_cases :: "z3_api \<Rightarrow> z3expr list \<Rightarrow> rec_ty list \<Rightarrow> rec_solver \<Rightarrow> rec_solver rec_result" where
  "set_eqs_cases z guards systems s =
     require (length guards = length systems)
       (let decls = decl_of ` set (map fst (concat systems));
            (guards', systems', ps, vs) = abstract_invariants decls (ind_var s) guards systems [] [];
            s' = s\<lparr>rec_conds := [], rec_exprs := [], recurrence_parameters := ps,
                   recurrence_parameter_values := vs\<rparr>
        in if length systems' = 1
           then Inr (s'\<lparr>rec_conds := [z_true], rec_exprs := [hd systems']\<rparr>)
           else (case those (map (\<lambda>(c, m). split_ite_cases z c m) (zip guards' systems')) of
                   None \<Rightarrow> Inl RecAborted
                 | Some splits \<Rightarrow>
                     Inr (s'\<lparr>rec_conds := map tc_condition (concat splits),
                            rec_exprs := map tc_equations (concat splits)\<rparr>)))"

text \<open>
  Hoisting moves the first conditional among the arguments of an arithmetic operator to the top; the
  operator is applied to the branches, the arguments before and after it in their order.
\<close>

fun combine_branch :: "z3op \<Rightarrow> z3expr list \<Rightarrow> z3expr \<Rightarrow> z3expr list \<Rightarrow> z3expr option" where
  "combine_branch OAdd before body after = Some (foldl z_add body (before @ after))"
| "combine_branch OMul before body after = Some (foldl z_mul body (before @ after))"
| "combine_branch OSub before body after = Some (foldl z_sub (foldl (\<lambda>b e. z_sub e b) body before) after)"
| "combine_branch OIDiv before body after = Some (foldl z_div (foldl (\<lambda>b e. z_div e b) body before) after)"
| "combine_branch OMod before body after = Some (foldl z_mod (foldl (\<lambda>b e. z_mod e b) body before) after)"
| "combine_branch _ before body after = None"

definition hoist_first :: "z3_api \<Rightarrow> z3expr \<Rightarrow> z3op \<Rightarrow> z3expr list \<Rightarrow> z3expr rec_result" where
  "hoist_first z e f hoisted =
     (let before = takeWhile (\<lambda>a. \<not> has_kind OIte a) hoisted
      in case dropWhile (\<lambda>a. \<not> has_kind OIte a) hoisted of
           [] \<Rightarrow> Inr e
         | ite # after \<Rightarrow>
             (case (combine_branch f before (args ite ! 1) after, combine_branch f before (args ite ! 2) after) of
                (Some body_true, Some body_false) \<Rightarrow> Inr (z_ite (args ite ! 0) body_true body_false)
              | _ \<Rightarrow> Inl (RecThrown (''Cannot hoist conditional through Z3 expression: '' @ z_string z e))))"

fun hoist_ite :: "z3_api \<Rightarrow> z3expr \<Rightarrow> z3expr rec_result" where
  "hoist_ite z (Quant q xs b) = Inl RecAborted"
| "hoist_ite z (App f es) =
     (if es = [] then Inr (App f es)
      else if f = OIte
      then (case es of
              [c, a, b] \<Rightarrow> bind_rec (hoist_ite z a) (\<lambda>a'. bind_rec (hoist_ite z b) (\<lambda>b'. Inr (z_ite c a' b')))
            | _ \<Rightarrow> Inl RecAborted)
      else bind_rec (collect (map (hoist_ite z) es)) (hoist_first z (App f es) f))"

definition set_eqs :: "z3_api \<Rightarrow> rec_ty \<Rightarrow> rec_solver \<Rightarrow> rec_solver rec_result" where
  "set_eqs z eqs s =
     fold_rec (\<lambda>(lhs, rhs) s. bind_rec (hoist_ite z rhs) (\<lambda>rhs'.
       Inr (s\<lparr>rec_eqs := assign_equation z lhs rhs' (rec_eqs s)\<rparr>))) eqs s"

definition rec_solver_of :: "z3_api \<Rightarrow> rec_ty \<Rightarrow> z3expr \<Rightarrow> rec_solver rec_result" where
  "rec_solver_of z eqs var = bind_rec (set_eqs z eqs empty_rec_solver) (\<lambda>s. Inr (set_ind_var var s))"

section \<open>Initial values\<close>

text \<open>A difference that does not fit a machine integer is an exception of the solver's interface.\<close>

definition zero_difference :: "z3_api \<Rightarrow> z3expr \<Rightarrow> z3expr \<Rightarrow> bool rec_result" where
  "zero_difference z a b =
     (case z_simplify z (z_sub a b) of
        App (ONum n) [] \<Rightarrow>
          if - (2 ^ 63) \<le> n \<and> n < 2 ^ 63 then Inr (n = 0)
          else Inl (RecThrown ''numeral does not fit in machine int64'')
      | _ \<Rightarrow> Inr False)"

fun has_initial_value :: "z3_api \<Rightarrow> z3expr list \<Rightarrow> z3expr \<Rightarrow> bool rec_result" where
  "has_initial_value z [] k = Inr False"
| "has_initial_value z (k' # ks) k =
     bind_rec (zero_difference z k' k) (\<lambda>found. if found then Inr True else has_initial_value z ks k)"

text \<open>The value of a new key is read at the index of the key; past the end the solver's library throws.\<close>

definition add_initial_values :: "z3_api \<Rightarrow> z3expr list \<Rightarrow> z3expr list \<Rightarrow> rec_solver \<Rightarrow> rec_solver rec_result" where
  "add_initial_values z ks vs s =
     fold_rec (\<lambda>(i, k) s. bind_rec (has_initial_value z (initial_values_k s) k) (\<lambda>found.
        if found then Inr s
        else if i < length vs
        then Inr (s\<lparr>initial_values_k := initial_values_k s @ [k],
                    initial_values_v := initial_values_v s @ [vs ! i]\<rparr>)
        else Inl (RecThrown ''index out of bounds''))) (zip [0..<length ks] ks) s"

definition apply_initial_values :: "rec_solver \<Rightarrow> rec_solver" where
  "apply_initial_values s =
     s\<lparr>rec_res := map_equations (substitute (zip (initial_values_k s) (initial_values_v s))) (rec_res s)\<rparr>"

section \<open>Cases of an equation\<close>

fun is_ite_free :: "z3expr \<Rightarrow> bool" where
  "is_ite_free (App f es) = (es = [] \<or> (f \<noteq> OIte \<and> list_all is_ite_free es))"
| "is_ite_free (Quant q xs b) = True"

fun parse_cond :: "z3expr \<Rightarrow> z3expr list" where
  "parse_cond (App OIte [c, a, b]) = c # (if is_ite_free b then [] else parse_cond b)"
| "parse_cond e = []"

fun parse_expr :: "z3expr \<Rightarrow> z3expr list" where
  "parse_expr (App OIte [c, a, b]) = parse_expr a @ parse_expr b"
| "parse_expr e = (if is_ite_free e then [e] else [])"

definition format_conds :: "rec_ty \<Rightarrow> z3expr list \<Rightarrow> z3expr list" where
  "format_conds eqs guards =
     fold (\<lambda>(lhs, rhs) cs. if length (parse_cond rhs) > length cs then parse_cond rhs else cs) eqs guards"

definition format_equation ::
    "z3_api \<Rightarrow> z3expr list \<Rightarrow> z3expr \<times> z3expr \<Rightarrow> rec_ty list \<Rightarrow> rec_ty list rec_result" where
  "format_equation z guards eq systems =
     (let lhs = fst eq; cur_conds = parse_cond (snd eq); cur_exprs = parse_expr (snd eq);
          n = length guards; last_index = length systems - 1
      in require (length cur_conds = n \<or> length cur_conds = 0)
          (require (cur_exprs \<noteq> [] \<and> (length cur_conds = n \<longrightarrow> n \<le> length cur_exprs))
            (let chosen = (\<lambda>i. if length cur_conds = n then cur_exprs ! i else hd cur_exprs);
                 systems' = fold (\<lambda>i ss. ss[i := assign_equation z lhs (chosen i) (ss ! i)]) [0..<n] systems
             in Inr (if n < length cur_exprs \<or> length cur_conds = 0
                     then systems'[last_index := assign_equation z lhs (last cur_exprs) (systems' ! last_index)]
                     else systems'))))"

definition format_rec :: "z3_api \<Rightarrow> rec_solver \<Rightarrow> rec_solver rec_result" where
  "format_rec z s =
     (let guards = format_conds (rec_eqs s) (rec_conds s);
          systems = rec_exprs s @ replicate (length guards + 1) []
      in bind_rec (fold_rec (format_equation z guards) (rec_eqs s) systems) (\<lambda>systems'.
           Inr (s\<lparr>rec_conds := guards, rec_exprs := systems'\<rparr>)))"

section \<open>The input of the external solver\<close>

definition join_with :: "string \<Rightarrow> string list \<Rightarrow> string" where
  "join_with sep ss = (case ss of [] \<Rightarrow> [] | s # rest \<Rightarrow> s @ concat (map (\<lambda>t. sep @ t) rest))"

definition infix_of :: "string \<Rightarrow> string list \<Rightarrow> string rec_result" where
  "infix_of symbol ss = (case ss of [a, b] \<Rightarrow> Inr (a @ symbol @ b) | _ \<Rightarrow> Inl RecAborted)"

definition prefix_of :: "string \<Rightarrow> string list \<Rightarrow> string rec_result" where
  "prefix_of symbol ss = (case ss of [a] \<Rightarrow> Inr (symbol @ a) | _ \<Rightarrow> Inl RecAborted)"

fun infix_op :: "z3_api \<Rightarrow> z3expr \<Rightarrow> z3op \<Rightarrow> string list \<Rightarrow> string rec_result" where
  "infix_op z e OAdd ss = Inr (join_with '' + '' ss)"
| "infix_op z e OMod ss =
     (case ss of a # b # _ \<Rightarrow> Inr (a @ '' % '' @ b) | _ \<Rightarrow> Inl RecAborted)"
| "infix_op z e OSub ss = infix_of '' - '' ss"
| "infix_op z e OUMinus ss = prefix_of ''-'' ss"
| "infix_op z e OMul ss = Inr (join_with '' * '' ss)"
| "infix_op z e OIDiv ss = infix_of '' / '' ss"
| "infix_op z e OLe ss = infix_of '' <= '' ss"
| "infix_op z e OLt ss = infix_of '' < '' ss"
| "infix_op z e OGt ss = infix_of '' > '' ss"
| "infix_op z e OGe ss = infix_of '' >= '' ss"
| "infix_op z e OEq ss = infix_of '' == '' ss"
| "infix_op z e ODistinct ss = infix_of '' != '' ss"
| "infix_op z e OAnd ss = Inr (''And('' @ join_with '', '' ss @ '')'')"
| "infix_op z e OOr ss = Inr (''Or('' @ join_with '', '' ss @ '')'')"
| "infix_op z e ONot ss = prefix_of ''!'' ss"
| "infix_op z e (OUninterp f s) ss = Inr (f @ ''('' @ join_with '', '' ss @ '')'')"
| "infix_op z e f ss = Inl (RecThrown (''Unsupported Z3 operation in recurrence: '' @ z_string z e))"

fun z3_infix :: "z3_api \<Rightarrow> z3expr \<Rightarrow> string rec_result" where
  "z3_infix z (Quant q xs b) = Inl RecAborted"
| "z3_infix z (App f es) =
     (if es = []
      then Inr (if starts_with (z_string z (App f es)) ''nondet'' then ''*'' else z_string z (App f es))
      else bind_rec (collect (map (z3_infix z) es)) (\<lambda>ss.
             infix_op z (App f es) f (map (\<lambda>s. ''('' @ s @ '')'') ss)))"

definition equation_line :: "z3_api \<Rightarrow> string \<Rightarrow> z3expr \<times> z3expr \<Rightarrow> string rec_result" where
  "equation_line z indent eq =
     bind_rec (z3_infix z (fst eq)) (\<lambda>lhs. bind_rec (z3_infix z (snd eq)) (\<lambda>rhs.
       Inr (indent @ lhs @ '' = '' @ rhs @ '';'' @ [newline])))"

definition equation_lines :: "z3_api \<Rightarrow> string \<Rightarrow> (z3expr \<times> z3expr) list \<Rightarrow> string rec_result" where
  "equation_lines z indent eqs = bind_rec (collect (map (equation_line z indent) eqs)) (\<lambda>ls. Inr (concat ls))"

definition tab :: string where "tab = [CHR 0x09]"

definition guarded_block :: "z3_api \<Rightarrow> string \<Rightarrow> z3expr \<Rightarrow> rec_ty \<Rightarrow> string rec_result" where
  "guarded_block z keyword cond eqs =
     bind_rec (z3_infix z cond) (\<lambda>c. bind_rec (equation_lines z tab eqs) (\<lambda>body.
       Inr (keyword @ c @ '') {'' @ [newline] @ body @ ''} '')))"

definition recurrence_text :: "z3_api \<Rightarrow> rec_solver \<Rightarrow> string rec_result" where
  "recurrence_text z s =
     (let guards = rec_conds s; systems = rec_exprs s; n = length guards
      in require (systems \<noteq> [] \<and> n \<le> length systems)
           (bind_rec (equation_lines z [] (zip (initial_values_k s) (initial_values_v s))) (\<lambda>initial.
            bind_rec (guarded_block z ''if ('' (if guards \<noteq> [] then hd guards else z_true) (hd systems)) (\<lambda>first.
            bind_rec (collect (map (\<lambda>(c, eqs). guarded_block z ''else if ('' c eqs) (tl (zip guards systems)))) (\<lambda>others.
            bind_rec (if n < length systems \<and> n > 0
                      then bind_rec (equation_lines z tab (last systems)) (\<lambda>body.
                             Inr (''else {'' @ [newline] @ body @ ''}''))
                      else Inr []) (\<lambda>otherwise.
            Inr (initial @ first @ concat others @ otherwise)))))))"

text \<open>The equations are put into cases first; that stays when the printing fails.\<close>

definition write_recurrence :: "z3_api \<Rightarrow> rec_solver \<Rightarrow> string rec_result \<times> rec_solver" where
  "write_recurrence z s =
     (case (if is_formatted s then Inr s else format_rec z s) of
        Inl e \<Rightarrow> (Inl e, s)
      | Inr s' \<Rightarrow> (recurrence_text z s', s'))"

definition rec2string :: "z3_api \<Rightarrow> rec_solver \<Rightarrow> string rec_result \<times> rec_solver" where
  "rec2string z s = write_recurrence z s"

section \<open>Closed forms\<close>

text \<open>The answer is parsed by the SMT solver's library; None stands for its exception.\<close>

definition smt2_entry :: "z3_api \<Rightarrow> z3expr \<Rightarrow> rec_solver \<Rightarrow> rec_solver rec_result" where
  "smt2_entry z e s =
     (case e of
        App OEq [a, b] \<Rightarrow>
          (let k = z_simplify z a; v = z_simplify z b;
               (k', v') = (if is_numeral k then (b, a) else (k, v))
           in Inr (s\<lparr>rec_res := assign_equation z k' (z_simplify z v') (rec_res s)\<rparr>))
      | _ \<Rightarrow> Inl RecAborted)"

definition smt2_to_z3 ::
    "z3_api \<Rightarrow> (string \<Rightarrow> z3expr list option) \<Rightarrow> string \<Rightarrow> rec_solver \<Rightarrow> rec_solver rec_result" where
  "smt2_to_z3 z parse_string smt2 s =
     (case parse_string smt2 of
        None \<Rightarrow> Inl (RecThrown ''parser error'')
      | Some es \<Rightarrow> fold_rec (smt2_entry z) es s)"

definition restore_parameters :: "z3_api \<Rightarrow> rec_solver \<Rightarrow> rec_solver" where
  "restore_parameters z s =
     s\<lparr>rec_res := map_equations (\<lambda>rhs.
        z_simplify z (substitute (zip (recurrence_parameters s) (recurrence_parameter_values s)) rhs)) (rec_res s)\<rparr>"

record rec_env =
  re_child :: child_process
  re_getenv :: environment
  re_parse :: "string \<Rightarrow> z3expr list option"

text \<open>Exceptions make \<open>solve\<close> answer false; the left injection stands for the end of the program.\<close>

definition rec_solve ::
    "z3_api \<Rightarrow> rec_env \<Rightarrow> rec_solver \<Rightarrow> solver_worker \<Rightarrow> (bool \<times> rec_solver \<times> solver_worker) rec_result" where
  "rec_solve z E s w =
     (case rec2string z s of
        (Inl (RecThrown m), s1) \<Rightarrow> Inr (False, s1, w)
      | (Inl e, s1) \<Rightarrow> Inl e
      | (Inr text, s1) \<Rightarrow>
          (case worker_solve (re_child E) (re_getenv E) text (z_string z (ind_var s1)) w of
             (Inl _, w1) \<Rightarrow> Inr (False, s1, w1)
           | (Inr smt2, w1) \<Rightarrow>
               (case smt2_to_z3 z (re_parse E) smt2 s1 of
                  Inl (RecThrown m) \<Rightarrow> Inr (False, s1, w1)
                | Inl e \<Rightarrow> Inl e
                | Inr s2 \<Rightarrow> Inr (True, restore_parameters z s2, w1))))"

section \<open>Constant differences\<close>

text \<open>
  Without the external solver: the difference of a term between two indices is a constant, or its value
  at the next index is.  The value of the constant is read from a model and checked in every other one.
\<close>

definition expr_solve :: "z3_api \<Rightarrow> z3expr \<Rightarrow> rec_solver \<Rightarrow> rec_solver" where
  "expr_solve z e s =
     (let facts = map (\<lambda>(lhs, rhs). z_eq lhs rhs) (rec_eqs s);
          ep = substitute [(ind_var s, z_add (ind_var s) (z_int 1))] e;
          d = z_int_const ''_d'';
          step = facts @ [z_eq ep (z_add e d)];
          step_d = z_int (ival (z_model z step) d);
          constant = facts @ [z_eq ep d];
          constant_d = z_int (ival (z_model z constant) d)
      in if z_check z step = Sat \<and> z_check z (facts @ [z_ne ep (z_add e step_d)]) = Unsat
         then s\<lparr>rec_res := assign_equation z e
                (z_add (substitute [(ind_var s, z_int 0)] e) (z_mul step_d (ind_var s))) (rec_res s)\<rparr>
         else if z_check z constant = Sat \<and> z_check z (facts @ [z_ne ep constant_d]) = Unsat
         then s\<lparr>rec_res := assign_equation z e constant_d (rec_res s)\<rparr>
         else s)"

end
