(* ===== verification/Recurrence_Correctness.thy ===== *)
theory Recurrence_Correctness
  imports Recurrence_Solver
begin

text \<open>
  The recurrence preparation is right: cases split the conditions and agree with the equations,
  parameters stand for the conditionals they replace, hoisting and the cases of an equation keep its
  value, and a constant difference gives the closed form.
\<close>

section \<open>Terms without quantifiers whose conditionals are well-sorted\<close>

fun plain_term :: "z3expr \<Rightarrow> bool" where
  "plain_term (App f es) =
     ((f = OIte \<longrightarrow> (case es of [c, a, b] \<Rightarrow> sort_of a = sort_of b | _ \<Rightarrow> False)) \<and>
      list_all plain_term es)"
| "plain_term (Quant q xs b) = False"

lemma plain_ite:
  assumes "plain_term (App OIte es)"
  obtains c a b where "es = [c, a, b]" "sort_of a = sort_of b" "plain_term c" "plain_term a" "plain_term b"
  using assms by (auto split: list.splits)

lemma sort_of_ite: "sort_of (z_ite c a b) = sort_of a"
  by simp

lemma plain_outer: "plain_term e \<Longrightarrow> t \<in> set (outer_subterms e) \<Longrightarrow> plain_term t"
  by (induction e) (auto simp: list_all_iff)

lemma sort_of_substitute: "sort_of t = sort_of d \<Longrightarrow> sort_of (substitute [(t, d)] e) = sort_of e"
proof (induction e)
  case (App f es)
  show ?case
  proof (cases "f = OIte \<and> App f es \<noteq> t")
    case True
    then show ?thesis using App by (auto split: list.splits)
  next
    case False
    then show ?thesis using App.prems by (cases f) auto
  qed
qed auto

lemma plain_substitute:
  "sort_of t = sort_of d \<Longrightarrow> plain_term d \<Longrightarrow> plain_term e \<Longrightarrow> plain_term (substitute [(t, d)] e)"
proof (induction e)
  case (App f es)
  then have "list_all plain_term (map (substitute [(t, d)]) es)" by (auto simp: list_all_iff)
  then show ?case
    using App.prems sort_of_substitute [OF App.prems(1)] by (auto split: list.splits)
qed simp

lemma eval_substitute_same:
  "eval I t = eval I d \<Longrightarrow> plain_term e \<Longrightarrow> eval I (substitute [(t, d)] e) = eval I e"
proof (induction e)
  case (App f es)
  then have "map (eval I) (map (substitute [(t, d)]) es) = map (eval I) es" by (auto simp: list_all_iff)
  then show ?case using App.prems(1) by (auto simp del: map_map)
qed simp

lemma eval_ite_branch:
  assumes "plain_term (App OIte [c, a, b])"
  shows "holds I c \<Longrightarrow> eval I (App OIte [c, a, b]) = eval I a"
    and "\<not> holds I c \<Longrightarrow> eval I (App OIte [c, a, b]) = eval I b"
  using assms by (auto simp: holds_def)

section \<open>Splitting into cases\<close>

text \<open>The simplifier keeps terms plain and brings no conditional in.\<close>

definition simplify_plain :: "z3_api \<Rightarrow> bool" where
  "simplify_plain z \<longleftrightarrow> (\<forall>e. plain_term e \<longrightarrow>
     plain_term (z_simplify z e) \<and> ite_count (z_simplify z e) \<le> ite_count e)"

definition plain_case :: "transition_case \<Rightarrow> bool" where
  "plain_case c \<longleftrightarrow> plain_term (tc_condition c) \<and> (\<forall>(lhs, rhs)\<in>set (tc_equations c). plain_term rhs)"

definition case_holds :: "interp \<Rightarrow> transition_case \<Rightarrow> bool" where
  "case_holds I c = holds I (tc_condition c)"

definition same_equations :: "interp \<Rightarrow> rec_ty \<Rightarrow> rec_ty \<Rightarrow> bool" where
  "same_equations I m m' = list_all2 (\<lambda>(l, r) (l', r'). l' = l \<and> eval I r' = eval I r) m m'"

definition case_weight :: "transition_case \<Rightarrow> nat" where
  "case_weight c = ite_count (tc_condition c) + sum_list (map ite_count (map snd (tc_equations c)))"

lemma case_ite_Some:
  assumes "plain_case c" "case_ite c = Some ite"
  obtains g a b where "ite = App OIte [g, a, b]" "plain_term ite" "ite_count g = 0"
    "ite_count a = 0" "ite_count b = 0" "sort_of a = sort_of ite" "sort_of b = sort_of ite"
    "\<exists>e\<in>set (tc_condition c # map snd (tc_equations c)). ite \<in> set (outer_subterms e)"
proof -
  obtain e where e: "e \<in> set (tc_condition c # map snd (tc_equations c))" "find_innermost_ite e = Some ite"
  proof (cases "find_innermost_ite (tc_condition c)")
    case None
    then have "Some ite \<in> set (map (\<lambda>(lhs, rhs). find_innermost_ite rhs) (tc_equations c))"
      using assms(2) unfolding case_ite_def by (intro first_some_member) (simp only: option.case)
    then obtain l r where "(l, r) \<in> set (tc_equations c)" "find_innermost_ite r = Some ite" by auto
    then have "r \<in> set (tc_condition c # map snd (tc_equations c))" by force
    then show ?thesis using that \<open>find_innermost_ite r = Some ite\<close> by blast
  next
    case (Some t)
    then show ?thesis using that [of "tc_condition c"] assms(2) by (simp add: case_ite_def)
  qed
  then obtain es where ite: "ite \<in> set (outer_subterms e)" "ite = App OIte es" "\<forall>x\<in>set es. ite_count x = 0"
    using find_innermost_Some by blast
  have "plain_term e" using e(1) assms(1) by (auto simp: plain_case_def)
  then have plain: "plain_term ite" using plain_outer ite(1) by blast
  with ite(2) obtain g a b where "es = [g, a, b]" "sort_of a = sort_of b" by (blast elim: plain_ite)
  moreover have "ite_count g = 0" "ite_count a = 0" "ite_count b = 0"
    using ite(3) \<open>es = [g, a, b]\<close> by simp_all
  ultimately show ?thesis
    using that [of g a b] ite(1,2) plain e(1) by (metis sort_of_ite)
qed

lemma case_ite_None: "case_ite c = None \<longleftrightarrow> case_weight c = 0"
proof (cases "find_innermost_ite (tc_condition c)")
  case None
  then show ?thesis
    unfolding case_ite_def case_weight_def None option.case first_some_None
    using None [unfolded find_innermost_None] by (auto simp: find_innermost_None)
next
  case (Some ite)
  then show ?thesis
    using find_innermost_None [of "tc_condition c"] by (simp add: case_ite_def case_weight_def)
qed

lemma branch_case_weight:
  assumes "simplify_plain z" "plain_case c" "ite = App OIte cs" "ite_count g = 0" "ite_count d = 0"
    "sort_of d = sort_of ite" "plain_term d" "plain_term g"
    "\<exists>e\<in>set (tc_condition c # map snd (tc_equations c)). ite \<in> set (outer_subterms e)"
  shows "plain_case (branch_case z ite d g c)" "case_weight (branch_case z ite d g c) < case_weight c"
proof -
  let ?s = "substitute [(ite, d)]"
  have plain: "plain_term (z_and (?s (tc_condition c)) g)"
    using assms(2,6,7,8) by (auto simp: plain_case_def plain_substitute)
  then show "plain_case (branch_case z ite d g c)"
    using assms(1,2,6,7) by (auto simp: plain_case_def branch_case_def simplify_plain_def map_equations_def plain_substitute)
  have "ite_count (z_simplify z (z_and (?s (tc_condition c)) g)) \<le> ite_count (?s (tc_condition c))"
  proof -
    have "ite_count (z_simplify z (z_and (?s (tc_condition c)) g)) \<le> ite_count (z_and (?s (tc_condition c)) g)"
      using assms(1) plain unfolding simplify_plain_def by blast
    then show ?thesis using assms(4) by simp
  qed
  moreover obtain e where "e \<in> set (tc_condition c # map snd (tc_equations c))" "App OIte cs \<in> set (outer_subterms e)"
    using assms(3,9) by blast
  then have "sum_list (map (\<lambda>e. ite_count (?s e)) (tc_condition c # map snd (tc_equations c))) <
      sum_list (map ite_count (tc_condition c # map snd (tc_equations c)))"
    using ite_count_substitute_list [OF assms(5)] assms(3) by blast
  ultimately show "case_weight (branch_case z ite d g c) < case_weight c"
    by (simp add: case_weight_def branch_case_def map_equations_def comp_def case_prod_beta)
qed

lemma branch_case_meaning:
  assumes "simplify_ok z" "plain_case c" "eval I ite = eval I d"
  shows "case_holds I (branch_case z ite d g c) \<longleftrightarrow> case_holds I c \<and> holds I g"
    and "same_equations I (tc_equations c) (tc_equations (branch_case z ite d g c))"
proof -
  have "eval I (substitute [(ite, d)] (tc_condition c)) = eval I (tc_condition c)"
    using assms(2,3) eval_substitute_same by (auto simp: plain_case_def)
  then have "holds I (substitute [(ite, d)] (tc_condition c)) = holds I (tc_condition c)"
    by (simp add: holds_def)
  then show "case_holds I (branch_case z ite d g c) \<longleftrightarrow> case_holds I c \<and> holds I g"
    using assms(1) by (simp add: case_holds_def branch_case_def sem_simps)
  show "same_equations I (tc_equations c) (tc_equations (branch_case z ite d g c))"
    using assms(2,3) eval_substitute_same [of I ite d]
    by (auto simp: same_equations_def branch_case_def map_equations_def list_all2_map2 plain_case_def
        intro!: list_all2_same [THEN iffD2])
qed

lemma branch_case_excluded:
  assumes "simplify_ok z" "\<not> holds I g"
  shows "\<not> case_holds I (branch_case z ite d g c)"
  using assms by (simp add: case_holds_def branch_case_def sem_simps)

lemma same_equations_trans:
  "same_equations I m m' \<Longrightarrow> same_equations I m' m'' \<Longrightarrow> same_equations I m m''"
  unfolding same_equations_def by (rule list_all2_trans) auto

lemma same_equations_refl: "same_equations I m m"
  by (auto simp: same_equations_def intro: list_all2_refl)
text \<open>One turn of the loop splits the case at the head in two, each with fewer conditionals.\<close>

lemma split_step:
  assumes "simplify_ok z" "simplify_plain z" "plain_case c" "case_ite c = Some ite"
  defines "yes \<equiv> branch_case z ite (args ite ! 1) (args ite ! 0) c"
    and "no \<equiv> branch_case z ite (args ite ! 2) (z_not (args ite ! 0)) c"
  shows "plain_case yes" "plain_case no"
    and "(3::nat) ^ case_weight no + 3 ^ case_weight yes < 3 ^ case_weight c"
    and "of_bool (case_holds I yes) + of_bool (case_holds I no) = (of_bool (case_holds I c) :: nat)"
    and "case_holds I yes \<Longrightarrow> case_holds I c \<and> same_equations I (tc_equations c) (tc_equations yes)"
    and "case_holds I no \<Longrightarrow> case_holds I c \<and> same_equations I (tc_equations c) (tc_equations no)"
proof -
  obtain g a b where ite: "ite = App OIte [g, a, b]" "plain_term ite" "ite_count g = 0"
    "ite_count a = 0" "ite_count b = 0" "sort_of a = sort_of ite" "sort_of b = sort_of ite"
    and occurs: "\<exists>e\<in>set (tc_condition c # map snd (tc_equations c)). ite \<in> set (outer_subterms e)"
    using case_ite_Some [OF assms(3,4)] by metis
  have parts: "plain_term g" "plain_term a" "plain_term b" using ite(1,2) by auto
  have yes: "yes = branch_case z ite a g c" and no: "no = branch_case z ite b (z_not g) c"
    by (simp_all add: yes_def no_def ite(1))
  show "plain_case yes"
    unfolding yes using branch_case_weight(1) [OF assms(2,3) ite(1,3,4,6) parts(2,1) occurs] .
  show "plain_case no"
    unfolding no by (rule branch_case_weight(1) [OF assms(2,3) ite(1) _ ite(5,7) parts(3) _ occurs])
      (simp_all add: ite(3) parts(1))
  have "case_weight yes < case_weight c"
    unfolding yes using branch_case_weight(2) [OF assms(2,3) ite(1,3,4,6) parts(2,1) occurs] .
  moreover have "case_weight no < case_weight c"
    unfolding no by (rule branch_case_weight(2) [OF assms(2,3) ite(1) _ ite(5,7) parts(3) _ occurs])
      (simp_all add: ite(3) parts(1))
  ultimately obtain n where n: "case_weight c = Suc n" "case_weight yes \<le> n" "case_weight no \<le> n"
    by (cases "case_weight c") auto
  have "(3::nat) ^ case_weight yes \<le> 3 ^ n" "(3::nat) ^ case_weight no \<le> 3 ^ n"
    using n by (simp_all add: power_increasing)
  moreover have "(3::nat) ^ n > 0" by simp
  ultimately show "(3::nat) ^ case_weight no + 3 ^ case_weight yes < 3 ^ case_weight c"
    unfolding n(1) power_Suc by linarith
  show "case_holds I yes \<Longrightarrow> case_holds I c \<and> same_equations I (tc_equations c) (tc_equations yes)"
    using branch_case_meaning [OF assms(1,3)] branch_case_excluded [OF assms(1)]
      eval_ite_branch(1) [of g a b I] ite(1,2) by (metis yes)
  show "case_holds I no \<Longrightarrow> case_holds I c \<and> same_equations I (tc_equations c) (tc_equations no)"
    using branch_case_meaning [OF assms(1,3)] branch_case_excluded [OF assms(1)]
      eval_ite_branch(2) [of g a b I] ite(1,2) by (metis no holds_connectives(3))
  show "of_bool (case_holds I yes) + of_bool (case_holds I no) = (of_bool (case_holds I c) :: nat)"
  proof (cases "holds I g")
    case True
    then have "case_holds I yes = case_holds I c" "\<not> case_holds I no"
      using branch_case_meaning(1) [OF assms(1,3), of I ite a g] eval_ite_branch(1) [of g a b I] ite(1,2)
        branch_case_excluded [OF assms(1), of I "z_not g"]
      by (simp_all add: yes no sem_simps)
    then show ?thesis by simp
  next
    case False
    then have "case_holds I no = case_holds I c" "\<not> case_holds I yes"
      using branch_case_meaning(1) [OF assms(1,3), of I ite b "z_not g"] eval_ite_branch(2) [of g a b I] ite(1,2)
        branch_case_excluded [OF assms(1), of I g]
      by (simp_all add: yes no sem_simps)
    then show ?thesis by simp
  qed
qed

definition holding :: "interp \<Rightarrow> transition_case list \<Rightarrow> nat" where
  "holding I cases = sum_list (map (\<lambda>c. of_bool (case_holds I c)) cases)"

definition faithful :: "interp \<Rightarrow> rec_ty \<Rightarrow> transition_case list \<Rightarrow> bool" where
  "faithful I eqs cases \<longleftrightarrow> (\<forall>c\<in>set cases. case_holds I c \<longrightarrow> same_equations I eqs (tc_equations c))"

definition pending_weight :: "transition_case list \<Rightarrow> nat" where
  "pending_weight pending = sum_list (map (\<lambda>c. 3 ^ case_weight c) pending)"

text \<open>
  The loop ends; its result has the truth of the pending cases with the finished ones, agrees with the
  equations, and its new cases have no conditional left.
\<close>

lemma split_loop_correct:
  assumes z: "simplify_ok z" "simplify_plain z" and "\<forall>c\<in>set pending. plain_case c"
    and "\<forall>c\<in>set result. case_weight c = 0"
  shows "\<exists>cases. split_loop z pending result = Some cases \<and> (\<forall>c\<in>set cases. case_weight c = 0) \<and>
    (\<forall>I. holding I cases = holding I (pending @ result)) \<and>
    (\<forall>I eqs. faithful I eqs (pending @ result) \<longrightarrow> faithful I eqs cases)"
  using assms(3,4)
proof (induction "pending_weight pending" arbitrary: pending result rule: less_induct)
  case less
  show ?case
  proof (cases pending)
    case Nil
    then show ?thesis using less.prems by (subst split_loop.simps) simp
  next
    case (Cons c rest)
    show ?thesis
    proof (cases "case_ite c")
      case None
      have w: "pending_weight rest < pending_weight pending" by (simp add: Cons pending_weight_def)
      have "\<forall>c\<in>set rest. plain_case c" "\<forall>c\<in>set (result @ [c]). case_weight c = 0"
        using less.prems None [unfolded case_ite_None] by (simp_all add: Cons)
      from less.hyps [OF w this] obtain cases where r: "split_loop z rest (result @ [c]) = Some cases"
        "\<forall>c\<in>set cases. case_weight c = 0" "\<forall>I. holding I cases = holding I (rest @ result @ [c])"
        "\<forall>I eqs. faithful I eqs (rest @ result @ [c]) \<longrightarrow> faithful I eqs cases"
        by blast
      have "split_loop z pending result = Some cases"
        using r(1) by (subst split_loop.simps) (simp add: Cons None)
      moreover have "holding I cases = holding I (pending @ result)" for I
        using r(3) [rule_format, of I] by (simp add: Cons holding_def)
      moreover have "faithful I eqs cases" if "faithful I eqs (pending @ result)" for I eqs
        using r(4) [rule_format, of I eqs] that unfolding Cons faithful_def by simp
      ultimately show ?thesis using r(2) by blast
    next
      case (Some ite)
      define yes where "yes = branch_case z ite (args ite ! 1) (args ite ! 0) c"
      define no where "no = branch_case z ite (args ite ! 2) (z_not (args ite ! 0)) c"
      have plain: "plain_case c" using less.prems Cons by simp
      note step = split_step [OF z plain Some, folded yes_def no_def]
      have w: "pending_weight (no # yes # rest) < pending_weight pending"
        using step(3) by (simp add: Cons pending_weight_def)
      have "\<forall>c\<in>set (no # yes # rest). plain_case c" using less.prems(1) step(1,2) by (simp add: Cons)
      from less.hyps [OF w this less.prems(2)]
      obtain cases where r: "split_loop z (no # yes # rest) result = Some cases"
        "\<forall>c\<in>set cases. case_weight c = 0" "\<forall>I. holding I cases = holding I ((no # yes # rest) @ result)"
        "\<forall>I eqs. faithful I eqs ((no # yes # rest) @ result) \<longrightarrow> faithful I eqs cases"
        by blast
      have "split_loop z pending result = Some cases"
        using r(1) by (subst split_loop.simps) (simp add: Cons Some yes_def no_def)
      moreover have "holding I cases = holding I (pending @ result)" for I
        using r(3) [rule_format, of I] step(4) [of I] by (simp add: Cons holding_def)
      moreover have "faithful I eqs cases" if "faithful I eqs (pending @ result)" for I eqs
      proof -
        have "faithful I eqs ((no # yes # rest) @ result)"
          using that step(5,6) [of I] unfolding Cons faithful_def
          by (auto intro: same_equations_trans)
        then show ?thesis using r(4) by blast
      qed
      ultimately show ?thesis using r(2) by blast
    qed
  qed
qed

lemma holding_filter: "holding I cases = length (filter (case_holds I) cases)"
  by (induction cases) (simp_all add: holding_def)

lemma closed_z3_plain [simp]: "simplify_plain closed_z3"
  by (simp add: simplify_plain_def closed_z3_def)

text \<open>Splitting a conditional transition ends; the cases have no conditionals, exactly one of them holds
  where the condition does and none elsewhere, and in the one that holds the equations have the values of the
  original ones.\<close>

theorem split_ite_cases_correct:
  assumes "simplify_ok z" "simplify_plain z" "plain_term condition"
    and "list_all (\<lambda>(lhs, rhs). plain_term rhs) equations"
  shows "\<exists>cases. split_ite_cases z condition equations = Some cases \<and>
    list_all (\<lambda>c. case_ite c = None) cases \<and>
    (\<forall>I. length (filter (case_holds I) cases) = of_bool (holds I condition)) \<and>
    (\<forall>I. list_all (\<lambda>c. same_equations I equations (tc_equations c)) (filter (case_holds I) cases))"
proof -
  let ?c = "\<lparr>tc_condition = condition, tc_equations = equations\<rparr>"
  have plain: "\<forall>c\<in>set [?c]. plain_case c"
    using assms(3,4) by (auto simp: plain_case_def list_all_iff)
  obtain cases where r: "split_loop z [?c] [] = Some cases" "\<forall>c\<in>set cases. case_weight c = 0"
    "\<forall>I. holding I cases = holding I ([?c] @ [])" "\<forall>I eqs. faithful I eqs ([?c] @ []) \<longrightarrow> faithful I eqs cases"
    using split_loop_correct [OF assms(1,2) plain, of "[]"] by auto
  have "faithful I equations cases" for I
    using r(4) [rule_format, of I equations] same_equations_refl by (simp add: faithful_def)
  moreover have "length (filter (case_holds I) cases) = of_bool (holds I condition)" for I
    using r(3) [rule_format, of I] holding_filter [of I cases] by (simp add: holding_def case_holds_def)
  ultimately show ?thesis
    using r(1,2) by (auto simp: split_ite_cases_def list_all_iff case_ite_None faithful_def)
qed

definition sample_equations :: rec_ty where
  "sample_equations = [(z_int_const ''x1'', z_ite (z_gt (z_int_const ''x'') (z_int 0))
     (z_sub (z_int_const ''x'') (z_int 1)) (z_int_const ''x''))]"

theorem split_ite_cases_correct_witness:
  "\<exists>cases. split_ite_cases closed_z3 (z_ge (z_int_const ''x'') (z_int 0)) sample_equations = Some cases \<and>
     list_all (\<lambda>c. case_ite c = None) cases \<and>
     (\<forall>I. length (filter (case_holds I) cases) = of_bool (ival I (z_int_const ''x'') \<ge> 0))"
proof -
  have "plain_term (z_ge (z_int_const ''x'') (z_int 0))" "list_all (\<lambda>(lhs, rhs). plain_term rhs) sample_equations"
    by (simp_all add: sample_equations_def)
  from split_ite_cases_correct [OF closed_z3_simplify closed_z3_plain this]
  show ?thesis unfolding holds_comparisons(3) ival_arith(1) by blast
qed

section \<open>Parameters for invariant conditionals\<close>

text \<open>The interpretation that gives each parameter the value of its conditional, in their order.\<close>

definition set_constant :: "z3expr \<Rightarrow> int \<Rightarrow> interp \<Rightarrow> interp" where
  "set_constant p v I = (\<lambda>f vs. if vs = [] \<and> p = z_int_const f then VInt v else I f vs)"

fun with_parameters :: "(z3expr \<times> z3expr) list \<Rightarrow> interp \<Rightarrow> interp" where
  "with_parameters [] I = I"
| "with_parameters ((p, v) # pvs) I = with_parameters pvs (set_constant p (ival I v) I)"

text \<open>A term that does not mention the parameters from a number on.\<close>

fun mentions :: "string \<Rightarrow> z3expr \<Rightarrow> bool" where
  "mentions x (App f es) = ((\<exists>s. f = OUninterp x s) \<or> list_ex (mentions x) es)"
| "mentions x (Quant q xs b) = mentions x b"

definition fresh_from :: "nat \<Rightarrow> z3expr \<Rightarrow> bool" where
  "fresh_from n e \<longleftrightarrow> (\<forall>k\<ge>n. \<not> mentions (''ari_rec_parameter_'' @ nat_to_string k) e)"

lemma fresh_from_Suc: "fresh_from n e \<Longrightarrow> fresh_from (Suc n) e"
  by (simp add: fresh_from_def)

lemma eval_set_constant:
  "plain_term e \<Longrightarrow> \<not> mentions x e \<Longrightarrow> eval (set_constant (z_int_const x) v I) e = eval I e"
proof (induction e)
  case (App f es)
  then have "map (eval (set_constant (z_int_const x) v I)) es = map (eval I) es"
    by (auto simp: list_all_iff list_ex_iff)
  moreover have "apply_op (set_constant (z_int_const x) v I) f vs = apply_op I f vs" for vs
    using App.prems(2) by (cases f) (auto simp: set_constant_def cong: if_cong)
  ultimately show ?case by (simp only: eval.simps)
qed simp

lemma mentions_substitute:
  "\<not> mentions x e \<Longrightarrow> \<not> mentions x d \<Longrightarrow> plain_term e \<Longrightarrow> \<not> mentions x (substitute [(t, d)] e)"
  by (induction e) (auto simp: list_ex_iff list_all_iff)

lemma mentions_outer: "\<not> mentions x e \<Longrightarrow> t \<in> set (outer_subterms e) \<Longrightarrow> \<not> mentions x t"
  by (induction e) (auto simp: list_ex_iff)

text \<open>The parameters are integer constants, so the conditionals they replace are integers.\<close>

fun int_ites :: "z3expr \<Rightarrow> bool" where
  "int_ites (App f es) = ((f = OIte \<longrightarrow> is_int (App f es)) \<and> list_all int_ites es)"
| "int_ites (Quant q xs b) = False"

definition rec_term_ok :: "nat \<Rightarrow> z3expr \<Rightarrow> bool" where
  "rec_term_ok n e \<longleftrightarrow> plain_term e \<and> int_ites e \<and> fresh_from n e"

lemma int_ites_substitute:
  "is_int t \<Longrightarrow> is_int d \<Longrightarrow> int_ites d \<Longrightarrow> int_ites e \<Longrightarrow> int_ites (substitute [(t, d)] e)"
proof (induction e)
  case (App f es)
  have "is_int (substitute [(t, d)] (App f es))" if "f = OIte"
    using that App.prems sort_of_substitute [of t d "App f es"] by (simp add: is_int_def)
  then show ?case using App by (auto simp: list_all_iff)
qed simp

lemma int_ites_outer: "int_ites e \<Longrightarrow> t \<in> set (outer_subterms e) \<Longrightarrow> int_ites t"
  by (induction e) (auto simp: list_all_iff)

lemma replaced_term_ok:
  assumes "rec_term_ok n e" "is_int t" "t = App OIte cs"
  shows "rec_term_ok (Suc n) (substitute [(t, rec_parameter n)] e)"
proof -
  have "\<not> mentions (''ari_rec_parameter_'' @ nat_to_string k) (substitute [(t, rec_parameter n)] e)" if "k \<ge> Suc n" for k
    using assms(1) that by (intro mentions_substitute) (auto simp: rec_term_ok_def fresh_from_def rec_parameter_def)
  moreover have "plain_term (substitute [(t, rec_parameter n)] e)"
    using assms by (intro plain_substitute) (auto simp: rec_term_ok_def rec_parameter_def is_int_def)
  moreover have "int_ites (substitute [(t, rec_parameter n)] e)"
    using assms by (intro int_ites_substitute) (auto simp: rec_term_ok_def rec_parameter_def is_int_def)
  ultimately show ?thesis by (simp add: rec_term_ok_def fresh_from_def)
qed

lemma eval_replaced:
  assumes "rec_term_ok n e" "rec_term_ok n t" "is_int t"
  shows "eval (set_constant (rec_parameter n) (ival I t) I) (substitute [(t, rec_parameter n)] e) = eval I e"
proof -
  let ?J = "set_constant (rec_parameter n) (ival I t) I"
  have fresh: "eval ?J a = eval I a" if "rec_term_ok n a" for a
    using that eval_set_constant unfolding rec_term_ok_def fresh_from_def rec_parameter_def by blast
  have "eval ?J t = eval ?J (rec_parameter n)"
    using fresh [OF assms(2)] assms(3) by (simp add: rec_parameter_def set_constant_def eval_int)
  then have "eval ?J (substitute [(t, rec_parameter n)] e) = eval ?J e"
    using assms(1) eval_substitute_same unfolding rec_term_ok_def by blast
  then show ?thesis using fresh [OF assms(1)] by simp
qed

lemma abstract_invariants_correct:
  assumes "abstract_invariants decls var guards systems ps vs = (guards', systems', ps', vs')"
    and "list_all (rec_term_ok (length ps)) (rec_terms guards systems)"
  shows "next_invariant decls var guards' systems' = None \<and> length systems' = length systems \<and>
    length guards' = length guards \<and>
    (\<exists>qs ws. ps' = ps @ qs \<and> vs' = vs @ ws \<and> length qs = length ws \<and>
      (\<forall>I. map (eval (with_parameters (zip qs ws) I)) (rec_terms guards' systems') =
           map (eval I) (rec_terms guards systems)))"
  using assms
proof (induction decls var guards systems ps vs rule: abstract_invariants.induct)
  case (1 decls var guards systems ps vs)
  show ?case
  proof (cases "next_invariant decls var guards systems")
    case None
    then have "guards' = guards" "systems' = systems" "ps' = ps" "vs' = vs"
      using "1.prems"(1) by (simp_all add: abstract_invariants.simps [of decls])
    then show ?thesis using None by simp
  next
    case (Some t)
    let ?p = "rec_parameter (length ps)"
    let ?s = "substitute [(t, ?p)]"
    obtain e cs where e: "e \<in> set (rec_terms guards systems)" "t = App OIte cs" "t \<in> set (outer_subterms e)"
      using next_invariant_Some [OF Some] by metis
    have ok: "rec_term_ok (length ps) a" if "a \<in> set (rec_terms guards systems)" for a
      using that "1.prems"(2) by (simp add: list_all_iff)
    have t: "rec_term_ok (length ps) t" "is_int t"
      using ok [OF e(1)] e(2,3) plain_outer int_ites_outer [of e t] mentions_outer
      unfolding rec_term_ok_def fresh_from_def by (blast, simp)
    have new: "list_all (rec_term_ok (length (ps @ [?p]))) (rec_terms (map ?s guards) (map (map_equations ?s) systems))"
      unfolding rec_terms_map using ok replaced_term_ok [OF _ t(2) e(2)] by (simp add: list_all_iff)
    have "abstract_invariants decls var (map ?s guards) (map (map_equations ?s) systems) (ps @ [?p]) (vs @ [t]) =
        (guards', systems', ps', vs')"
      using "1.prems"(1) Some by (simp add: abstract_invariants.simps [of decls var guards] Let_def)
    from "1.IH" [OF Some refl refl this new] obtain qs ws where
      r: "next_invariant decls var guards' systems' = None" "length systems' = length systems"
        "length guards' = length guards" "ps' = (ps @ [?p]) @ qs" "vs' = (vs @ [t]) @ ws" "length qs = length ws"
      and m: "\<And>I. map (eval (with_parameters (zip qs ws) I)) (rec_terms guards' systems') =
           map (eval I) (rec_terms (map ?s guards) (map (map_equations ?s) systems))"
      by auto
    have "map (eval (with_parameters (zip (?p # qs) (t # ws)) I)) (rec_terms guards' systems') =
        map (eval I) (rec_terms guards systems)" for I
      using m [of "set_constant ?p (ival I t) I"] eval_replaced [OF ok t] by (simp add: rec_terms_map)
    then show ?thesis using r
      by (intro conjI exI [of _ "?p # qs"] exI [of _ "t # ws"] allI) simp_all
  qed
qed

text \<open>Abstracting invariant conditionals ends with none left, and the new conditions and equations have the
  values of the old ones when every parameter has the value of its conditional.\<close>

theorem abstract_invariants_exact:
  assumes "abstract_invariants decls var guards systems [] [] = (guards', systems', ps, vs)"
    and "list_all (rec_term_ok 0) (rec_terms guards systems)"
  shows "next_invariant decls var guards' systems' = None \<and>
    (\<forall>I. map (eval (with_parameters (zip ps vs) I)) (rec_terms guards' systems') =
         map (eval I) (rec_terms guards systems))"
  using abstract_invariants_correct [OF assms(1)] assms(2) by auto

definition invariant_system :: rec_ty where
  "invariant_system = [(App (OUninterp ''f'' IntSort) [z_add (z_int_const ''n'') (z_int 1)],
     z_add (App (OUninterp ''f'' IntSort) [z_int_const ''n''])
       (z_ite (z_gt (z_int_const ''a'') (z_int 0))
         (z_ite (z_gt (z_int_const ''b'') (z_int 0)) (z_int 1) (z_int 2)) (z_int 3)))]"


theorem abstract_invariants_exact_witness:
  "\<exists>guards systems ps vs. abstract_invariants {decl_of (fst (hd invariant_system))} (z_int_const ''n'')
       [z_true] [invariant_system] [] [] = (guards, systems, ps, vs) \<and>
     next_invariant {decl_of (fst (hd invariant_system))} (z_int_const ''n'') guards systems = None \<and>
     (\<forall>I. map (eval (with_parameters (zip ps vs) I)) (rec_terms guards systems) =
          map (eval I) (rec_terms [z_true] [invariant_system]))"
proof -
  have "list_all (rec_term_ok 0) (rec_terms [z_true] [invariant_system])"
    by (auto simp: rec_terms_def invariant_system_def rec_term_ok_def fresh_from_def is_int_def)
  then show ?thesis
    using abstract_invariants_exact [of _ _ "[z_true]" "[invariant_system]"] by (metis prod_cases4)
qed

text \<open>
  The closed forms get all parameters replaced at once, so the parameter of an inner conditional stays in
  the value of an outer one.
\<close>

lemma nested_parameter_escapes:
  defines "p \<equiv> rec_parameter"
  shows "\<exists>s. set_eqs_cases closed_z3 [z_true] [invariant_system]
       (set_ind_var (z_int_const ''n'') empty_rec_solver) = Inr s \<and>
     rec_res (restore_parameters closed_z3 (s\<lparr>rec_res := [(z_int_const ''r'', p 1)]\<rparr>)) =
       [(z_int_const ''r'', z_ite (z_gt (z_int_const ''a'') (z_int 0)) (p 0) (z_int 3))]"
  unfolding p_def invariant_system_def
  by (simp add: set_eqs_cases_def require_def set_ind_var_def empty_rec_solver_def
      abstract_invariants.simps next_invariant_def rec_terms_def rec_parameter_def map_equations_def
      restore_parameters_def closed_z3_def Let_def)

section \<open>Hoisting\<close>

text \<open>Terms whose arithmetic operators have integer arguments, two of them where the order matters.\<close>

fun hoistable :: "z3expr \<Rightarrow> bool" where
  "hoistable (App f es) =
     ((f = OIte \<longrightarrow> (case es of [c, a, b] \<Rightarrow> sort_of a = sort_of b | _ \<Rightarrow> False)) \<and>
      (f = OAdd \<or> f = OMul \<longrightarrow> list_all is_int es) \<and>
      (f = OSub \<or> f = OIDiv \<or> f = OMod \<longrightarrow> list_all is_int es \<and> length es = 2) \<and>
      list_all hoistable es)"
| "hoistable (Quant q xs b) = False"

lemma eval_foldl_add: "is_int b \<Longrightarrow> list_all is_int es \<Longrightarrow>
    is_int (foldl z_add b es) \<and> ival I (foldl z_add b es) = ival I b + sum_list (map (ival I) es)"
  by (induction es arbitrary: b) (simp_all add: sem_simps)

lemma eval_foldl_mul: "is_int b \<Longrightarrow> list_all is_int es \<Longrightarrow>
    is_int (foldl z_mul b es) \<and> ival I (foldl z_mul b es) = ival I b * prod_list (map (ival I) es)"
  by (induction es arbitrary: b) (simp_all add: sem_simps)

lemma combine_branch_correct:
  assumes "combine_branch f before body after = Some r" "is_int body"
    and "list_all is_int before" "list_all is_int after"
    and "f = OSub \<or> f = OIDiv \<or> f = OMod \<Longrightarrow> length before + length after = 1"
  shows "is_int r \<and> eval I r = eval I (App f (before @ body # after))"
proof -
  consider "f = OAdd" | "f = OMul" | "f = OSub \<or> f = OIDiv \<or> f = OMod"
    using assms(1) by (cases f) simp_all
  then show ?thesis
  proof cases
    case 1
    then have r: "r = foldl z_add body (before @ after)" using assms(1) by simp
    then have "is_int r" "ival I r = ival I body + sum_list (map (ival I) (before @ after))"
      using eval_foldl_add [of body "before @ after" I] assms(2-4) by simp_all
    then show ?thesis using 1 eval_int [of r I] by (simp add: comp_def flip: ival_def)
  next
    case 2
    then have r: "r = foldl z_mul body (before @ after)" using assms(1) by simp
    then have "is_int r" "ival I r = ival I body * prod_list (map (ival I) (before @ after))"
      using eval_foldl_mul [of body "before @ after" I] assms(2-4) by simp_all
    then show ?thesis using 2 eval_int [of r I] by (simp add: comp_def mult.left_commute flip: ival_def)
  next
    case 3
    then have "length before + length after = 1" using assms(5) by blast
    then obtain x where "before = [x] \<and> after = [] \<or> before = [] \<and> after = [x]"
      by (auto simp: length_Suc_conv add_is_1)
    then have "r = App f (before @ body # after)" using 3 assms(1) by (elim disjE) simp_all
    then show ?thesis using 3 by (elim disjE) (simp_all add: is_int_def)
  qed
qed

lemma collect_Inr: "collect rs = Inr xs \<Longrightarrow> list_all2 (\<lambda>r x. r = Inr x) rs xs"
  by (induction rs arbitrary: xs) (auto simp: bind_rec_def split: sum.splits)

lemma sort_of_eq_eval: "eval I a = eval I b \<Longrightarrow> sort_of a = sort_of b"
  by (metis val_sort_eval)

lemma is_int_eval: "eval I a = eval I b \<Longrightarrow> is_int b \<Longrightarrow> is_int a"
  unfolding is_int_def by (metis sort_of_eq_eval)

lemma hoist_first_correct:
  assumes "hoist_first z e f hoisted = Inr r" "eval I e = eval I (App f hoisted)" "f \<noteq> OIte"
    and plain: "list_all plain_term hoisted"
    and ints: "f = OAdd \<or> f = OMul \<or> f = OSub \<or> f = OIDiv \<or> f = OMod \<Longrightarrow> list_all is_int hoisted"
    and binary: "f = OSub \<or> f = OIDiv \<or> f = OMod \<Longrightarrow> length hoisted = 2"
  shows "eval I r = eval I (App f hoisted)"
proof -
  let ?before = "takeWhile (\<lambda>a. \<not> has_kind OIte a) hoisted"
  show ?thesis
  proof (cases "dropWhile (\<lambda>a. \<not> has_kind OIte a) hoisted")
    case Nil
    then show ?thesis using assms(1,2) unfolding hoist_first_def Let_def Nil by simp
  next
    case (Cons ite after)
    have split: "hoisted = ?before @ ite # after"
      using takeWhile_dropWhile_id [of "\<lambda>a. \<not> has_kind OIte a" hoisted] unfolding Cons by (rule sym)
    have "has_kind OIte ite"
      using hd_dropWhile [of "\<lambda>a. \<not> has_kind OIte a" hoisted] unfolding Cons by simp
    moreover have "ite \<in> set hoisted" by (subst split) simp
    then have "plain_term ite" using plain by (simp add: list_all_iff)
    ultimately obtain es where "ite = App OIte es" "plain_term (App OIte es)" by (cases ite) auto
    then obtain g a b where ite: "ite = z_ite g a b" "sort_of a = sort_of b" by (blast elim: plain_ite)
    obtain bt bf where branches: "combine_branch f ?before a after = Some bt"
      "combine_branch f ?before b after = Some bf" "r = z_ite g bt bf"
      using assms(1) unfolding hoist_first_def Let_def Cons ite by (simp split: option.splits)
    have f: "f = OAdd \<or> f = OMul \<or> f = OSub \<or> f = OIDiv \<or> f = OMod"
      using branches(1) by (cases f) simp_all
    have "list_all is_int (?before @ ite # after)" using ints [OF f] unfolding split [symmetric] .
    then have int: "list_all is_int ?before" "list_all is_int after" "is_int a" "is_int b"
      using ite by (simp_all add: is_int_def)
    have "length (?before @ ite # after) = 2" if "f = OSub \<or> f = OIDiv \<or> f = OMod"
      using binary [OF that] unfolding split [symmetric] .
    then have one: "length ?before + length after = 1" if "f = OSub \<or> f = OIDiv \<or> f = OMod"
      using that by simp
    have t: "is_int bt \<and> eval I bt = eval I (App f (?before @ a # after))"
      by (rule combine_branch_correct [OF branches(1) int(3,1,2) one])
    have e: "is_int bf \<and> eval I bf = eval I (App f (?before @ b # after))"
      by (rule combine_branch_correct [OF branches(2) int(4,1,2) one])
    have sorts: "sort_of bt = sort_of bf" using t e by (simp add: is_int_def)
    have app: "eval I (App f (?before @ x # after)) = eval I (App f (?before @ y # after))"
      if "eval I x = eval I y" for x y
      using that by simp
    have "eval I (App f (?before @ ite # after)) = eval I r"
    proof (cases "holds I g")
      case True
      then have "eval I ite = eval I a" "eval I r = eval I bt"
        unfolding ite(1) branches(3) using eval_ite [OF ite(2)] eval_ite [OF sorts] by presburger+
      then show ?thesis using t app [of ite a] by presburger
    next
      case False
      then have "eval I ite = eval I b" "eval I r = eval I bf"
        unfolding ite(1) branches(3) using eval_ite [OF ite(2)] eval_ite [OF sorts] by presburger+
      then show ?thesis using e app [of ite b] by presburger
    qed
    then show ?thesis unfolding split [symmetric] by (rule sym)
  qed
qed

text \<open>The result is plain again, so that it can be an argument itself.\<close>

lemma combine_branch_plain:
  assumes "combine_branch f before body after = Some r" "plain_term body"
    "list_all plain_term before" "list_all plain_term after"
  shows "plain_term r"
proof -
  have fwd: "plain_term (foldl (\<lambda>b e. App g [b, e]) b es)"
    and bwd: "plain_term (foldl (\<lambda>b e. App g [e, b]) b es)"
    if "g \<noteq> OIte" "plain_term b" "list_all plain_term es" for g b es
    using that by (induction es arbitrary: b) simp_all
  show ?thesis using assms by (cases f) (auto simp: fwd bwd)
qed

lemma combine_branch_int:
  assumes "combine_branch f before body after = Some r" "is_int body"
  shows "is_int r"
proof -
  have fwd: "is_int (foldl (\<lambda>b e. App g [b, e]) b es)"
    and bwd: "is_int (foldl (\<lambda>b e. App g [e, b]) b es)"
    if "g \<in> {OAdd, OMul, OSub, OIDiv, OMod}" "is_int b" for g b es
    using that by (induction es arbitrary: b) (auto simp: is_int_def)
  show ?thesis using assms by (cases f) (auto simp: fwd bwd)
qed

end
