(* ===== verification/Recurrence_Cases.thy ===== *)
theory Recurrence_Cases
  imports Recurrence_Correctness
begin

text \<open>
  The equations of a recurrence as cases: hoisting keeps values, reading an else-chain and distributing
  the equations over the cases keeps their meaning, and a constant difference gives the closed form.
\<close>

section \<open>Hoisting keeps the value\<close>

lemma hoist_first_plain:
  assumes "hoist_first z (App f es) f hoisted = Inr r" "plain_term (App f es)" "f \<noteq> OIte"
    and "list_all plain_term hoisted" "sort_of (App f hoisted) = sort_of (App f es)"
    and ints: "f = OAdd \<or> f = OMul \<or> f = OSub \<or> f = OIDiv \<or> f = OMod \<Longrightarrow> list_all is_int hoisted"
  shows "plain_term r"
proof (cases "dropWhile (\<lambda>a. \<not> has_kind OIte a) hoisted")
  case Nil
  then show ?thesis using assms(1,2) unfolding hoist_first_def Let_def Nil by simp
next
  case (Cons ite after)
  let ?before = "takeWhile (\<lambda>a. \<not> has_kind OIte a) hoisted"
  have split: "hoisted = ?before @ ite # after"
    using takeWhile_dropWhile_id [of "\<lambda>a. \<not> has_kind OIte a" hoisted] unfolding Cons by (rule sym)
  have "has_kind OIte ite"
    using hd_dropWhile [of "\<lambda>a. \<not> has_kind OIte a" hoisted] unfolding Cons by simp
  moreover have "list_all plain_term (?before @ ite # after)" using assms(4) unfolding split [symmetric] .
  then have plain: "list_all plain_term ?before" "list_all plain_term after" "plain_term ite" by simp_all
  ultimately obtain xs where "ite = App OIte xs" "plain_term (App OIte xs)" by (cases ite) auto
  then obtain g a b where ite: "ite = z_ite g a b" "sort_of a = sort_of b"
    "plain_term g" "plain_term a" "plain_term b" by (blast elim: plain_ite)
  obtain bt bf where branches: "combine_branch f ?before a after = Some bt"
    "combine_branch f ?before b after = Some bf" "r = z_ite g bt bf"
    using assms(1) unfolding hoist_first_def Let_def Cons ite by (simp split: option.splits)
  have f: "f = OAdd \<or> f = OMul \<or> f = OSub \<or> f = OIDiv \<or> f = OMod"
    using branches(1) by (cases f) simp_all
  have "list_all is_int (?before @ ite # after)" using ints [OF f] unfolding split [symmetric] .
  then have "is_int a" "is_int b" using ite(1,2) by (simp_all add: is_int_def)
  then have "is_int bt" "is_int bf"
    using combine_branch_int [OF branches(1)] combine_branch_int [OF branches(2)] by blast+
  moreover have "plain_term bt" "plain_term bf"
    using combine_branch_plain [OF branches(1) ite(4) plain(1,2)]
      combine_branch_plain [OF branches(2) ite(5) plain(1,2)] by blast+
  ultimately show ?thesis using branches(3) ite(3) by (simp add: is_int_def)
qed

lemma hoistable_plain: "hoistable e \<Longrightarrow> plain_term e"
  by (induction e) (auto simp: list_all_iff)

lemma hoist_ite_keeps: "hoist_ite z e = Inr r \<Longrightarrow> hoistable e \<Longrightarrow> eval I r = eval I e \<and> plain_term r"
proof (induction e arbitrary: r)
  case (App f es)
  consider "es = []" | (ite) "es \<noteq> []" "f = OIte" | (op) "es \<noteq> []" "f \<noteq> OIte" by blast
  then show ?case
  proof cases
    case 1
    then show ?thesis using App.prems hoistable_plain [of "App f es"] by simp
  next
    case ite
    then obtain c a b where es: "es = [c, a, b]" "sort_of a = sort_of b" "hoistable c" "hoistable a" "hoistable b"
      using App.prems(2) by (auto split: list.splits)
    obtain a' b' where h: "hoist_ite z a = Inr a'" "hoist_ite z b = Inr b'" "r = z_ite c a' b'"
      using App.prems(1) ite es(1) by (auto simp: bind_rec_def split: sum.splits)
    have IH: "eval I a' = eval I a \<and> plain_term a'" "eval I b' = eval I b \<and> plain_term b'"
      using App.IH [of a a'] App.IH [of b b'] h es by simp_all
    then have "sort_of a' = sort_of a" "sort_of b' = sort_of b" using sort_of_eq_eval by blast+
    then show ?thesis using ite es h(3) IH hoistable_plain [OF es(3)] by simp
  next
    case op
    obtain hoisted where c: "collect (map (hoist_ite z) es) = Inr hoisted" "hoist_first z (App f es) f hoisted = Inr r"
      using App.prems(1) op by (auto simp: bind_rec_def split: sum.splits)
    have all: "list_all2 (\<lambda>e h. hoist_ite z e = Inr h) es hoisted"
      using collect_Inr [OF c(1)] by (simp add: list_all2_map1)
    have "list_all2 (\<lambda>e h. eval I h = eval I e \<and> plain_term h) es hoisted"
      unfolding list_all2_conv_all_nth
    proof (intro conjI allI impI)
      show len: "length es = length hoisted" using all by (rule list_all2_lengthD)
      fix i assume i: "i < length es"
      have "hoistable (es ! i)" using App.prems(2) i by (simp add: list_all_length)
      then show "eval I (hoisted ! i) = eval I (es ! i)" "plain_term (hoisted ! i)"
        using App.IH [of "es ! i" "hoisted ! i"] i list_all2_nthD [OF all i] by simp_all
    qed
    then have ev: "map (eval I) hoisted = map (eval I) es" and plain: "list_all plain_term hoisted"
      and int: "list_all is_int es \<Longrightarrow> list_all is_int hoisted" and len: "length hoisted = length es"
      using sort_of_eq_eval [of I "hoisted ! _" "es ! _"]
      by (auto simp: list_all2_conv_all_nth list_all_length is_int_def intro: nth_equalityI)
    have es: "eval I (App f es) = eval I (App f hoisted)" by (simp only: eval.simps ev)
    have ints: "list_all is_int hoisted" if "f = OAdd \<or> f = OMul \<or> f = OSub \<or> f = OIDiv \<or> f = OMod"
      using App.prems(2) that int by auto
    have binary: "length hoisted = 2" if "f = OSub \<or> f = OIDiv \<or> f = OMod"
      using App.prems(2) that len by auto
    have "eval I r = eval I (App f hoisted)"
      by (rule hoist_first_correct [OF c(2) es op(2) plain ints binary])
    moreover have "plain_term r"
      by (rule hoist_first_plain [OF c(2) hoistable_plain [OF App.prems(2)] op(2) plain
            sort_of_eq_eval [OF es [symmetric]] ints])
    ultimately show ?thesis using es by simp
  qed
qed simp

text \<open>When hoisting succeeds, the result has the value of the term.\<close>

theorem hoist_ite_correct:
  assumes "hoist_ite z e = Inr r" "hoistable e"
  shows "eval I r = eval I e"
  using hoist_ite_keeps [OF assms] by blast

theorem hoist_ite_correct_witness:
  "\<exists>r. hoist_ite closed_z3 (z_sub (z_int 5) (z_ite (z_gt (z_int_const ''x'') (z_int 0)) (z_int 1) (z_int 2))) =
      Inr (z_ite (z_gt (z_int_const ''x'') (z_int 0)) (z_sub (z_int 5) (z_int 1)) (z_sub (z_int 5) (z_int 2))) \<and>
    (\<forall>I. eval I (z_ite (z_gt (z_int_const ''x'') (z_int 0)) (z_sub (z_int 5) (z_int 1)) (z_sub (z_int 5) (z_int 2))) =
      eval I (z_sub (z_int 5) (z_ite (z_gt (z_int_const ''x'') (z_int 0)) (z_int 1) (z_int 2))))"
proof -
  let ?e = "z_sub (z_int 5) (z_ite (z_gt (z_int_const ''x'') (z_int 0)) (z_int 1) (z_int 2))"
  let ?r = "z_ite (z_gt (z_int_const ''x'') (z_int 0)) (z_sub (z_int 5) (z_int 1)) (z_sub (z_int 5) (z_int 2))"
  have "hoist_ite closed_z3 ?e = Inr ?r" by (simp add: bind_rec_def hoist_first_def)
  moreover have "hoistable ?e" by (simp add: is_int_def)
  ultimately show ?thesis using hoist_ite_correct [of closed_z3 ?e ?r] by blast
qed

section \<open>The cases of an equation\<close>

text \<open>A chain of conditionals along the last branch.\<close>

fun else_chain :: "z3expr \<Rightarrow> bool" where
  "else_chain (App OIte [c, a, b]) = (is_ite_free a \<and> (is_ite_free b \<or> else_chain b))"
| "else_chain e = is_ite_free e"

fun select_case :: "interp \<Rightarrow> z3expr list \<Rightarrow> z3expr list \<Rightarrow> z3val" where
  "select_case I (c # cs) (e # es) = (if holds I c then eval I e else select_case I cs es)"
| "select_case I [] (e # es) = eval I e"
| "select_case I cs [] = VInt 0"

lemma ite_free_parse: "is_ite_free e \<Longrightarrow> parse_cond e = [] \<and> parse_expr e = [e]"
  by (cases e rule: parse_cond.cases) auto

lemma parse_cases_correct:
  "else_chain e \<Longrightarrow> plain_term e \<Longrightarrow>
   length (parse_expr e) = length (parse_cond e) + 1 \<and>
   select_case I (parse_cond e) (parse_expr e) = eval I e"
proof (induction e rule: parse_cond.induct)
  case (1 c a b)
  have a: "parse_expr a = [a]" using "1.prems"(1) ite_free_parse by simp
  have ite: "eval I (App OIte [c, a, b]) = (if holds I c then eval I a else eval I b)"
    using eval_ite_branch [OF "1.prems"(2), of I] by simp
  show ?case
  proof (cases "is_ite_free b")
    case True
    then show ?thesis using a ite ite_free_parse [OF True] by (simp del: eval.simps)
  next
    case False
    then have "else_chain b" "plain_term b" using "1.prems" by simp_all
    then show ?thesis using "1.IH" False a ite by (simp del: eval.simps)
  qed
qed (auto simp: ite_free_parse)

text \<open>Only the last branch is followed: a conditional in the first branch misplaces the cases.\<close>

lemma parse_drops_then_branch:
  defines "e \<equiv> z_ite (z_gt (z_int_const ''x'') (z_int 0))
     (z_ite (z_gt (z_int_const ''y'') (z_int 0)) (z_int 1) (z_int 2)) (z_int 3)"
  shows "parse_cond e = [z_gt (z_int_const ''x'') (z_int 0)]" "parse_expr e = [z_int 1, z_int 2, z_int 3]"
    and "select_case (\<lambda>_ _. VInt 0) (parse_cond e) (parse_expr e) \<noteq> eval (\<lambda>_ _. VInt 0) e"
  by (simp_all add: e_def holds_def)

section \<open>The equations over the cases\<close>

text \<open>The terms of one equation in all cases, for the common conditions.\<close>

definition case_values :: "nat \<Rightarrow> z3expr \<Rightarrow> z3expr list" where
  "case_values n e = (if parse_cond e = [] then replicate (n + 1) e else parse_expr e)"

definition uniform_equation :: "z3expr list \<Rightarrow> z3expr \<Rightarrow> bool" where
  "uniform_equation cs e \<longleftrightarrow> else_chain e \<and> plain_term e \<and> (parse_cond e = cs \<or> parse_cond e = [])"

lemma case_values_correct:
  assumes "uniform_equation cs e"
  shows "length (case_values (length cs) e) = length cs + 1"
    and "select_case I cs (case_values (length cs) e) = eval I e"
proof -
  have p: "length (parse_expr e) = length (parse_cond e) + 1"
    "select_case I (parse_cond e) (parse_expr e) = eval I e"
    using parse_cases_correct [of e I] assms by (simp_all add: uniform_equation_def)
  have same: "select_case I cs (replicate (length cs + 1) e) = eval I e" by (induction cs) simp_all
  show "length (case_values (length cs) e) = length cs + 1"
    using p assms by (auto simp: case_values_def uniform_equation_def)
  show "select_case I cs (case_values (length cs) e) = eval I e"
    using p same assms by (auto simp: case_values_def uniform_equation_def)
qed

lemma fold_update_upto:
  "n \<le> length ss \<Longrightarrow> fold (\<lambda>i ss. ss[i := f i (ss ! i)]) [0..<n] ss = map (\<lambda>i. f i (ss ! i)) [0..<n] @ drop n ss"
proof (induction n)
  case (Suc n)
  then show ?case
    by (simp add: list_update_append nth_append Cons_nth_drop_Suc [symmetric])
qed simp

lemma parse_expr_no_cond:
  assumes "uniform_equation cs e" "parse_cond e = []"
  shows "parse_expr e = [e]"
proof -
  have "is_ite_free e"
    using assms by (cases e rule: parse_cond.cases) (auto simp: uniform_equation_def)
  then show ?thesis using ite_free_parse by blast
qed

lemma format_equation_uniform:
  assumes "uniform_equation cs rhs" "length systems = length cs + 1"
  shows "format_equation z cs (lhs, rhs) systems =
     Inr (map (\<lambda>i. assign_equation z lhs (case_values (length cs) rhs ! i) (systems ! i)) [0..<length cs + 1])"
proof -
  let ?n = "length cs"
  let ?chosen = "\<lambda>i. if length (parse_cond rhs) = ?n then parse_expr rhs ! i else hd (parse_expr rhs)"
  have len: "length (parse_expr rhs) = length (parse_cond rhs) + 1"
    using parse_cases_correct [of rhs] assms(1) by (simp add: uniform_equation_def)
  have choice: "?chosen i = case_values ?n rhs ! i" if "i < ?n" for i
    using that assms(1) parse_expr_no_cond [OF assms(1)]
    by (auto simp: case_values_def uniform_equation_def nth_Cons')
  have final: "last (parse_expr rhs) = case_values ?n rhs ! ?n"
  proof (cases "parse_cond rhs = []")
    case True
    moreover have "(rhs # replicate ?n rhs) ! ?n = rhs"
      by (metis lessI nth_replicate replicate_Suc)
    ultimately show ?thesis using parse_expr_no_cond [OF assms(1)] by (simp add: case_values_def)
  next
    case False
    then have "parse_cond rhs = cs" using assms(1) by (simp add: uniform_equation_def)
    moreover have "parse_expr rhs \<noteq> []" using len by (cases "parse_expr rhs") simp_all
    ultimately show ?thesis using False len by (simp add: case_values_def last_conv_nth)
  qed
  have systems: "fold (\<lambda>i ss. ss[i := assign_equation z lhs (?chosen i) (ss ! i)]) [0..<?n] systems =
      map (\<lambda>i. assign_equation z lhs (case_values ?n rhs ! i) (systems ! i)) [0..<?n] @ [systems ! ?n]"
    using fold_update_upto [of ?n systems "\<lambda>i. assign_equation z lhs (?chosen i)"] assms(2) choice
    by (simp add: Cons_nth_drop_Suc [symmetric])
  have "?n < length (parse_expr rhs) \<or> length (parse_cond rhs) = 0"
    using len assms(1) by (auto simp: uniform_equation_def)
  moreover have "length (parse_cond rhs) = ?n \<or> length (parse_cond rhs) = 0" "parse_expr rhs \<noteq> []"
    using assms(1) len by (auto simp: uniform_equation_def)
  ultimately show ?thesis
    using len assms(2) final systems
    by (simp add: format_equation_def require_def Let_def list_update_append nth_append)
qed

definition sorted_equations :: "z3_api \<Rightarrow> rec_ty \<Rightarrow> bool" where
  "sorted_equations z m = sorted_wrt (\<lambda>(k, _) (k', _). z_string z k < z_string z k') m"

text \<open>Assignments keep the order of the keys; a key past all others goes to the end.\<close>

lemma assign_equation_keys:
  "(k', v') \<in> set (assign_equation z k v m) \<Longrightarrow> z_string z k' = z_string z k \<or> k' \<in> fst ` set m"
  by (induction m) (force split: if_splits)+

lemma assign_equation_sorted: "sorted_equations z m \<Longrightarrow> sorted_equations z (assign_equation z k v m)"
proof (induction m)
  case (Cons e m)
  obtain k' v' where e: "e = (k', v')" by fastforce
  consider "z_string z k < z_string z k'" | "z_string z k' < z_string z k" | "z_string z k' = z_string z k"
    by fastforce
  then show ?case
  proof cases
    case 1
    then show ?thesis using Cons.prems e by (fastforce simp: sorted_equations_def)
  next
    case 2
    have "sorted_equations z m" using Cons.prems by (simp add: sorted_equations_def)
    then have "sorted_equations z (assign_equation z k v m)" by (rule Cons.IH)
    moreover have "z_string z k' < z_string z k''" if kv: "(k'', v'') \<in> set (assign_equation z k v m)" for k'' v''
      using assign_equation_keys [OF kv] 2 Cons.prems e by (fastforce simp: sorted_equations_def)
    ultimately show ?thesis using 2 e by (auto simp: sorted_equations_def)
  next
    case 3
    then show ?thesis using Cons.prems e by (simp add: sorted_equations_def)
  qed
qed (simp add: sorted_equations_def)

lemma assign_equation_last:
  "\<forall>(k', v')\<in>set m. z_string z k' < z_string z k \<Longrightarrow> assign_equation z k v m = m @ [(k, v)]"
  by (induction m) (auto dest: order.asym)

definition case_system :: "nat \<Rightarrow> rec_ty \<Rightarrow> nat \<Rightarrow> rec_ty" where
  "case_system n eqs i = map (\<lambda>(lhs, rhs). (lhs, case_values n rhs ! i)) eqs"

lemma format_equations_uniform:
  assumes "list_all (\<lambda>(lhs, rhs). uniform_equation cs rhs) eqs" "sorted_equations z (front @ eqs)"
  shows "fold_rec (format_equation z cs) eqs (map (case_system (length cs) front) [0..<length cs + 1]) =
     Inr (map (case_system (length cs) (front @ eqs)) [0..<length cs + 1])"
  using assms
proof (induction eqs arbitrary: front)
  case (Cons e eqs)
  obtain lhs rhs where e: "e = (lhs, rhs)" by fastforce
  have "\<forall>(k', v')\<in>set (case_system (length cs) front i). z_string z k' < z_string z lhs" for i
    using Cons.prems(2) e by (fastforce simp: sorted_equations_def sorted_wrt_append case_system_def)
  then have "assign_equation z lhs (case_values (length cs) rhs ! i) (case_system (length cs) front i) =
      case_system (length cs) (front @ [e]) i" for i
    by (subst assign_equation_last) (simp_all add: case_system_def e)
  then have "format_equation z cs e (map (case_system (length cs) front) [0..<length cs + 1]) =
      Inr (map (case_system (length cs) (front @ [e])) [0..<length cs + 1])"
    using format_equation_uniform [of cs rhs "map (case_system (length cs) front) [0..<length cs + 1]" z lhs]
      Cons.prems(1) by (simp add: e del: upt_Suc)
  then show ?case using Cons.IH [of "front @ [e]"] Cons.prems by (simp add: bind_rec_def del: upt_Suc)
qed simp

lemma format_conds_uniform:
  assumes "list_all (\<lambda>(lhs, rhs). uniform_equation cs rhs) eqs" "g = [] \<or> g = cs"
  shows "format_conds eqs g = (if g = cs \<or> list_ex (\<lambda>(lhs, rhs). parse_cond rhs = cs) eqs then cs else [])"
  using assms
proof (induction eqs arbitrary: g)
  case (Cons e eqs)
  obtain lhs rhs where e: "e = (lhs, rhs)" by fastforce
  let ?g = "if length (parse_cond rhs) > length g then parse_cond rhs else g"
  have "parse_cond rhs = cs \<or> parse_cond rhs = []" using Cons.prems(1) e by (simp add: uniform_equation_def)
  then have "?g = [] \<or> ?g = cs" "?g = cs \<longleftrightarrow> g = cs \<or> parse_cond rhs = cs" using Cons.prems(2) by auto
  moreover have "format_conds (e # eqs) g = format_conds eqs ?g" by (simp add: format_conds_def e)
  ultimately show ?case using Cons.IH [of ?g] Cons.prems(1) e by simp
qed (auto simp: format_conds_def)

text \<open>Equations whose conditionals are else-chains over the same conditions are put into cases that give every
  equation its value in the first case whose condition holds.\<close>

theorem format_rec_correct:
  assumes "rec_conds s = []" "rec_exprs s = []" "sorted_equations z (rec_eqs s)"
    and "list_all (\<lambda>(lhs, rhs). uniform_equation cs rhs) (rec_eqs s)"
    and "list_ex (\<lambda>(lhs, rhs). parse_cond rhs = cs) (rec_eqs s)"
  shows "\<exists>s'. format_rec z s = Inr s' \<and> rec_conds s' = cs \<and>
    list_all (\<lambda>m. map fst m = map fst (rec_eqs s)) (rec_exprs s') \<and>
    list_all (\<lambda>j. \<forall>I. select_case I cs (map (\<lambda>m. snd (m ! j)) (rec_exprs s')) = eval I (snd (rec_eqs s ! j)))
      [0..<length (rec_eqs s)]"
proof -
  let ?n = "length cs"
  let ?systems = "map (case_system ?n (rec_eqs s)) [0..<?n + 1]"
  have conds: "format_conds (rec_eqs s) [] = cs" using format_conds_uniform [OF assms(4)] assms(5) by simp
  have "replicate (?n + 1) [] = map (case_system ?n []) [0..<?n + 1]"
    by (intro nth_equalityI) (simp_all add: case_system_def del: upt_Suc replicate_Suc)
  then have fold: "fold_rec (format_equation z cs) (rec_eqs s) (replicate (?n + 1) []) = Inr ?systems"
    using format_equations_uniform [of cs "rec_eqs s" z "[]"] assms(3,4) by simp
  have "format_rec z s = Inr (s\<lparr>rec_conds := cs, rec_exprs := ?systems\<rparr>)"
    using fold unfolding format_rec_def assms(1,2) conds Let_def by (simp add: bind_rec_def del: upt_Suc replicate_Suc)
  moreover have "map fst (case_system ?n (rec_eqs s) i) = map fst (rec_eqs s)" for i
    by (simp add: case_system_def case_prod_beta comp_def)
  moreover have "select_case I cs (map (\<lambda>m. snd (m ! j)) ?systems) = eval I (snd (rec_eqs s ! j))"
    if j: "j < length (rec_eqs s)" for j I
  proof -
    have u: "uniform_equation cs (snd (rec_eqs s ! j))"
      using assms(4) j by (auto simp: list_all_length case_prod_beta)
    have "map (\<lambda>m. snd (m ! j)) ?systems = case_values ?n (snd (rec_eqs s ! j))"
      using case_values_correct(1) [OF u] j
      by (intro nth_equalityI) (simp_all add: case_system_def case_prod_beta del: upt_Suc)
    then show ?thesis using case_values_correct(2) [OF u] by simp
  qed
  ultimately show ?thesis by (simp add: list_all_iff del: upt_Suc)
qed

theorem format_rec_correct_witness:
  defines "g \<equiv> z_gt (z_int_const ''x'') (z_int 0)"
  defines "s \<equiv> empty_rec_solver\<lparr>rec_eqs := [(z_int_const ''p'', z_ite g (z_int 1) (z_int 2))]\<rparr>"
  shows "\<exists>s'. format_rec closed_z3 s = Inr s' \<and> rec_conds s' = [g] \<and>
    (\<forall>I. select_case I [g] (map (\<lambda>m. snd (m ! 0)) (rec_exprs s')) = eval I (z_ite g (z_int 1) (z_int 2)))"
proof -
  have "sorted_equations closed_z3 (rec_eqs s)" by (simp add: s_def sorted_equations_def)
  moreover have "list_all (\<lambda>(lhs, rhs). uniform_equation [g] rhs) (rec_eqs s)"
    "list_ex (\<lambda>(lhs, rhs). parse_cond rhs = [g]) (rec_eqs s)"
    by (simp_all add: s_def uniform_equation_def g_def)
  ultimately obtain s' where "format_rec closed_z3 s = Inr s'" "rec_conds s' = [g]"
    "list_all (\<lambda>j. \<forall>I. select_case I [g] (map (\<lambda>m. snd (m ! j)) (rec_exprs s')) = eval I (snd (rec_eqs s ! j)))
      [0..<length (rec_eqs s)]"
    using format_rec_correct [of s closed_z3 "[g]"] by (auto simp: s_def empty_rec_solver_def)
  then show ?thesis by (auto simp: s_def)
qed

text \<open>
  After hoisting, a second conditional of a sum stays inside the branches; such branches have no cases, and
  the equations cannot be put into cases.
\<close>

lemma second_conditional_not_hoisted:
  defines "g x \<equiv> z_gt (z_int_const x) (z_int 0)"
  defines "e \<equiv> z_add (z_ite (g ''a'') (z_int 1) (z_int 2)) (z_ite (g ''b'') (z_int 3) (z_int 4))"
  shows "\<exists>s. set_eqs closed_z3 [(z_int_const ''p'', e)] empty_rec_solver = Inr s \<and> format_rec closed_z3 s = Inl RecAborted"
  by (simp add: e_def g_def set_eqs_def bind_rec_def hoist_first_def empty_rec_solver_def format_rec_def
      format_conds_def format_equation_def require_def)

section \<open>Constant differences\<close>

definition at_index :: "string \<Rightarrow> interp \<Rightarrow> int \<Rightarrow> interp" where
  "at_index n I k = set_constant (z_int_const n) k I"

lemma subst_interp_index:
  "subst_interp (at_index n I k) [(z_int_const n, d)] = (\<lambda>f vs. if vs = [] \<and> f = n then eval (at_index n I k) d else I f vs)"
  by (auto simp: subst_interp_def at_index_def set_constant_def fun_eq_iff)

lemma eval_at_substitute:
  assumes "quantifier_free e" "well_named [(z_int_const n, d)] e" "is_int d" "ival (at_index n I k) d = k'"
  shows "eval (at_index n I k) (substitute [(z_int_const n, d)] e) = eval (at_index n I k') e"
proof -
  have "subst_interp (at_index n I k) [(z_int_const n, d)] = at_index n I k'"
    unfolding subst_interp_index using assms(4) eval_int [OF assms(3), of "at_index n I k"]
    by (auto simp: at_index_def [of n I k'] set_constant_def fun_eq_iff)
  moreover have "int_substitution [(z_int_const n, d)]" using assms(3) by (simp add: int_substitution_def)
  ultimately show ?thesis using eval_substitute [OF _ assms(1,2)] by simp
qed

lemma well_named_any: "well_named [(z_int_const n, d)] e \<Longrightarrow> well_named [(z_int_const n, d')] e"
  by (auto simp: well_named_def)

definition satisfied_at :: "interp \<Rightarrow> rec_ty \<Rightarrow> bool" where
  "satisfied_at I eqs = list_all (\<lambda>(lhs, rhs). eval I lhs = eval I rhs) eqs"

lemma unsat_negation:
  assumes "check_ok z" "z_check z (map (\<lambda>(lhs, rhs). z_eq lhs rhs) eqs @ [z_ne a b]) = Unsat" "satisfied_at I eqs"
  shows "eval I a = eval I b"
  using check_unsat [OF assms(1,2), of I] assms(3)
  by (auto simp: satisfied_at_def list_all_iff sem_simps)

text \<open>A closed form found for a constant difference has the value of the term at every index from one on, for every
  solution of the equations.\<close>

theorem expr_solve_correct:
  assumes "check_ok z" "ind_var s = z_int_const n" "rec_res s = []"
    and e: "is_int e" "quantifier_free e" "well_named [(z_int_const n, z_int 0)] e"
    and solution: "\<And>k. satisfied_at (at_index n I (int k)) (rec_eqs s)"
  shows "rec_res (expr_solve z e s) = [] \<or>
    (\<exists>v. rec_res (expr_solve z e s) = [(e, v)] \<and>
      ival (at_index n I (int k + 1)) v = ival (at_index n I (int k + 1)) e)"
proof -
  let ?I = "\<lambda>k. at_index n I (int k)"
  let ?n = "z_int_const n"
  let ?ep = "substitute [(?n, z_add ?n (z_int 1))] e"
  define step_d where "step_d = ival (z_model z (map (\<lambda>(lhs, rhs). z_eq lhs rhs) (rec_eqs s) @
      [z_eq ?ep (z_add e (z_int_const ''_d''))])) (z_int_const ''_d'')"
  define constant_d where "constant_d = ival (z_model z (map (\<lambda>(lhs, rhs). z_eq lhs rhs) (rec_eqs s) @
      [z_eq ?ep (z_int_const ''_d'')])) (z_int_const ''_d'')"
  have index: "ival (at_index n I k) ?n = k" for k by (simp add: ival_def at_index_def set_constant_def)
  have next_value: "eval (?I j) ?ep = eval (?I (Suc j)) e" for j
    using eval_at_substitute [OF e(2) well_named_any [OF e(3)], of "z_add ?n (z_int 1)" I "int j" "int j + 1"] index
    by (simp add: sem_simps add.commute)
  have first: "eval (?I j) (substitute [(?n, z_int 0)] e) = eval (?I 0) e" for j
    using eval_at_substitute [OF e(2,3), of I "int j" 0] by (simp add: sem_simps)
  let ?facts = "map (\<lambda>(lhs, rhs). z_eq lhs rhs) (rec_eqs s)"
  have res: "rec_res (expr_solve z e s) =
      (if z_check z (?facts @ [z_eq ?ep (z_add e (z_int_const ''_d''))]) = Sat \<and>
          z_check z (?facts @ [z_ne ?ep (z_add e (z_int step_d))]) = Unsat
       then [(e, z_add (substitute [(?n, z_int 0)] e) (z_mul (z_int step_d) ?n))]
       else if z_check z (?facts @ [z_eq ?ep (z_int_const ''_d'')]) = Sat \<and>
          z_check z (?facts @ [z_ne ?ep (z_int constant_d)]) = Unsat
       then [(e, z_int constant_d)] else [])"
    unfolding expr_solve_def Let_def step_d_def constant_d_def assms(2)
    by (simp add: assms(3) del: substitute.simps)
  consider (diff) "z_check z (map (\<lambda>(lhs, rhs). z_eq lhs rhs) (rec_eqs s) @ [z_ne ?ep (z_add e (z_int step_d))]) = Unsat"
      "rec_res (expr_solve z e s) = [(e, z_add (substitute [(?n, z_int 0)] e) (z_mul (z_int step_d) ?n))]"
    | (const) "z_check z (map (\<lambda>(lhs, rhs). z_eq lhs rhs) (rec_eqs s) @ [z_ne ?ep (z_int constant_d)]) = Unsat"
      "rec_res (expr_solve z e s) = [(e, z_int constant_d)]"
    | (none) "rec_res (expr_solve z e s) = []"
    using res by metis
  then show ?thesis
  proof cases
    case diff
    have grow: "ival (?I (Suc j)) e = ival (?I j) e + step_d" for j
      using unsat_negation [OF assms(1) diff(1) solution, of j] next_value [of j]
      by (simp add: ival_def)
    have "ival (?I j) e = ival (?I 0) e + step_d * int j" for j
    proof (induction j)
      case (Suc j)
      then show ?case using grow [of j] by (simp only: of_nat_Suc) (simp add: distrib_left)
    qed simp
    from this [of "Suc k"] have "ival (?I (Suc k)) e =
        ival (?I (Suc k)) (z_add (substitute [(?n, z_int 0)] e) (z_mul (z_int step_d) ?n))"
      using first [of "Suc k"] index [of "int (Suc k)"] by (simp add: sem_simps) (simp add: ival_def)
    then show ?thesis using diff(2) by (simp add: add.commute)
  next
    case const
    have "ival (?I (Suc k)) e = constant_d"
      using unsat_negation [OF assms(1) const(1) solution, of k] next_value [of k] by (simp add: ival_def)
    then show ?thesis using const(2) by (simp add: sem_simps add.commute)
  next
    case none
    then show ?thesis by simp
  qed
qed

text \<open>A solver that knows one recurrence, a counter that grows by one.\<close>

definition counter_term :: z3expr where
  "counter_term = App (OUninterp ''f'' IntSort) [z_int_const ''n'']"

definition next_counter :: z3expr where
  "next_counter = App (OUninterp ''f'' IntSort) [z_add (z_int_const ''n'') (z_int 1)]"

definition counter_fact :: z3expr where
  "counter_fact = z_eq next_counter (z_add counter_term (z_int 1))"

definition counter_model :: interp where
  "counter_model = (\<lambda>f vs. if f = ''f'' then hd vs else VInt 1)"

definition counter_z3 :: z3_api where
  "counter_z3 = closed_z3\<lparr>
     z_check := (\<lambda>fs. if fs = [counter_fact, z_eq next_counter (z_add counter_term (z_int_const ''_d''))] then Sat
        else if fs = [counter_fact, z_ne next_counter (z_add counter_term (z_int 1))] then Unsat else Unknown),
     z_model := (\<lambda>fs. counter_model)\<rparr>"

lemma counter_z3_check: "check_ok counter_z3"
  by (auto simp: check_ok_def counter_z3_def counter_fact_def next_counter_def counter_term_def
      counter_model_def holds_def split: if_splits)

definition counter_solver :: rec_solver where
  "counter_solver = empty_rec_solver\<lparr>ind_var := z_int_const ''n'',
     rec_eqs := [(next_counter, z_add counter_term (z_int 1))]\<rparr>"

theorem expr_solve_correct_witness:
  "\<exists>v. rec_res (expr_solve counter_z3 counter_term counter_solver) = [(counter_term, v)] \<and>
     ival (at_index ''n'' counter_model 4) v = ival (at_index ''n'' counter_model 4) counter_term"
proof -
  have solution: "satisfied_at (at_index ''n'' counter_model (int k)) (rec_eqs counter_solver)" for k
    by (simp add: satisfied_at_def counter_solver_def next_counter_def counter_term_def at_index_def
        set_constant_def counter_model_def)
  have "ind_var counter_solver = z_int_const ''n''" "rec_res counter_solver = []"
    by (simp_all add: counter_solver_def empty_rec_solver_def)
  moreover have "is_int counter_term" "quantifier_free counter_term"
    "well_named [(z_int_const ''n'', z_int 0)] counter_term"
    by (auto simp: counter_term_def is_int_def well_named_def)
  ultimately have "rec_res (expr_solve counter_z3 counter_term counter_solver) = [] \<or>
    (\<exists>v. rec_res (expr_solve counter_z3 counter_term counter_solver) = [(counter_term, v)] \<and>
      ival (at_index ''n'' counter_model 4) v = ival (at_index ''n'' counter_model 4) counter_term)"
    using expr_solve_correct [OF counter_z3_check _ _ _ _ _ solution, of counter_term 3] by simp
  moreover have "substitute [(z_int_const ''n'', z_add (z_int_const ''n'') (z_int 1))] counter_term = next_counter"
    by (simp add: counter_term_def next_counter_def)
  then have "rec_res (expr_solve counter_z3 counter_term counter_solver) \<noteq> []"
    by (simp add: expr_solve_def counter_solver_def empty_rec_solver_def Let_def ival_def counter_model_def)
      (simp add: counter_z3_def counter_fact_def counter_model_def)
  ultimately show ?thesis by blast
qed

end
