(* ===== verification/Linear_Algebra.thy ===== *)
theory Linear_Algebra
  imports Formula_Logic
begin

text \<open>
  Matrices of terms (lib/LinearAlgebra.h, the class \<open>Matrix\<close> at terms, its only use) and the elimination
  that solves a square system: every operation simplifies its entries, a division is checked to be exact,
  and a failed assertion has no result.
\<close>

section \<open>Matrices\<close>

record matrix =
  m_rows :: nat
  m_cols :: nat
  m_data :: "z3expr list list"

definition new_matrix :: "nat \<Rightarrow> nat \<Rightarrow> matrix" where
  "new_matrix r c = \<lparr>m_rows = r, m_cols = c, m_data = replicate r (replicate c (z_int 0))\<rparr>"

definition entry :: "matrix \<Rightarrow> nat \<Rightarrow> nat \<Rightarrow> z3expr option" where
  "entry a i j = (if i < m_rows a \<and> j < m_cols a then Some (m_data a ! i ! j) else None)"

text \<open>A matrix given by its entries.\<close>

definition matrix_of :: "nat \<Rightarrow> nat \<Rightarrow> (nat \<Rightarrow> nat \<Rightarrow> z3expr) \<Rightarrow> matrix" where
  "matrix_of r c f = \<lparr>m_rows = r, m_cols = c, m_data = map (\<lambda>i. map (f i) [0..<c]) [0..<r]\<rparr>"

abbreviation item :: "matrix \<Rightarrow> nat \<Rightarrow> nat \<Rightarrow> z3expr" where
  "item a i j \<equiv> m_data a ! i ! j"

definition matrix_add :: "z3_api \<Rightarrow> matrix \<Rightarrow> matrix \<Rightarrow> matrix option" where
  "matrix_add z a b =
     (if m_rows a = m_rows b \<and> m_cols a = m_cols b
      then Some (matrix_of (m_rows a) (m_cols a) (\<lambda>i j. z_simplify z (z_add (item a i j) (item b i j))))
      else None)"

definition matrix_neg :: "z3_api \<Rightarrow> matrix \<Rightarrow> matrix" where
  "matrix_neg z a = matrix_of (m_rows a) (m_cols a) (\<lambda>i j. z_simplify z (z_neg (item a i j)))"

definition matrix_sub :: "z3_api \<Rightarrow> matrix \<Rightarrow> matrix \<Rightarrow> matrix option" where
  "matrix_sub z a b =
     (if m_rows a = m_rows b \<and> m_cols a = m_cols b then matrix_add z a (matrix_neg z b) else None)"

definition dot_product :: "z3_api \<Rightarrow> (z3expr \<times> z3expr) list \<Rightarrow> z3expr" where
  "dot_product z = foldl (\<lambda>acc (x, y). z_simplify z (z_add acc (z_mul x y))) (z_int 0)"

definition matrix_mul :: "z3_api \<Rightarrow> matrix \<Rightarrow> matrix \<Rightarrow> matrix option" where
  "matrix_mul z a b =
     (if m_cols a = m_rows b
      then Some (matrix_of (m_rows a) (m_cols b) (\<lambda>i j.
             dot_product z (map (\<lambda>k. (item a i k, item b k j)) [0..<m_cols a])))
      else None)"

definition matrix_scale :: "z3_api \<Rightarrow> matrix \<Rightarrow> z3expr \<Rightarrow> matrix" where
  "matrix_scale z a t = matrix_of (m_rows a) (m_cols a) (\<lambda>i j. z_simplify z (z_mul (item a i j) t))"

definition matrix_transpose :: "matrix \<Rightarrow> matrix" where
  "matrix_transpose a = matrix_of (m_cols a) (m_rows a) (\<lambda>i j. item a j i)"

definition data_eq :: "z3_api \<Rightarrow> z3expr \<Rightarrow> z3expr \<Rightarrow> bool" where
  "data_eq z a b = (z_simplify z (z_eq a b) = z_true)"

definition matrix_eq :: "z3_api \<Rightarrow> matrix \<Rightarrow> matrix \<Rightarrow> bool" where
  "matrix_eq z a b \<longleftrightarrow> m_rows a = m_rows b \<and> m_cols a = m_cols b \<and>
     list_all (\<lambda>i. list_all (\<lambda>j. data_eq z (item a i j) (item b i j)) [0..<m_cols a]) [0..<m_rows a]"

text \<open>A division must have a divisor that is visibly not zero and be exact, which the solver decides.\<close>

definition data_div :: "z3_api \<Rightarrow> z3expr \<Rightarrow> z3expr \<Rightarrow> z3expr option" where
  "data_div z a b =
     (if z_simplify z (z_ne b (z_int 0)) = z_true \<and> z_check z [z_ne (z_mul (z_div a b) b) a] = Unsat
      then Some (z_simplify z (z_div a b)) else None)"

section \<open>Elimination\<close>

text \<open>The rows of the system with its right-hand sides.\<close>

definition augmented :: "z3_api \<Rightarrow> matrix \<Rightarrow> matrix \<Rightarrow> z3expr list list" where
  "augmented z a b = map (\<lambda>i. map (z_simplify z) (m_data a ! i @ m_data b ! i)) [0..<m_rows a]"

definition abs_val :: "z3_api \<Rightarrow> z3expr \<Rightarrow> z3expr" where
  "abs_val z v = z_simplify z (z_ite (z_ge v (z_int 0)) v (z_neg v))"

text \<open>The row whose entry in the column is visibly largest, from the diagonal on.\<close>

definition max_row :: "z3_api \<Rightarrow> nat \<Rightarrow> z3expr list list \<Rightarrow> nat" where
  "max_row z i rows =
     foldl (\<lambda>r k. if z_simplify z (z_gt (abs_val z (rows ! k ! i)) (abs_val z (rows ! r ! i))) = z_true then k else r)
       i [Suc i..<length rows]"

definition swap_rows :: "nat \<Rightarrow> nat \<Rightarrow> 'a list \<Rightarrow> 'a list" where
  "swap_rows i k rows = rows[i := rows ! k, k := rows ! i]"

definition eliminate_row :: "z3_api \<Rightarrow> nat \<Rightarrow> z3expr list \<Rightarrow> z3expr list \<Rightarrow> z3expr list" where
  "eliminate_row z i pivot_row row =
     map (\<lambda>(a, p). z_simplify z (z_sub a (z_mul (row ! i) p))) (zip row pivot_row)"

text \<open>One column; a column whose pivot is visibly zero is skipped.\<close>

definition eliminate_column :: "z3_api \<Rightarrow> nat \<Rightarrow> z3expr list list \<Rightarrow> z3expr list list option" where
  "eliminate_column z i rows =
     (let swapped = swap_rows i (max_row z i rows) rows; pivot = swapped ! i ! i
      in if z_simplify z (z_eq pivot (z_int 0)) = z_true then Some swapped
         else case those (map (\<lambda>a. data_div z a pivot) (swapped ! i)) of
             None \<Rightarrow> None
           | Some pivot_row \<Rightarrow>
               Some ((map (eliminate_row z i pivot_row) swapped)[i := pivot_row]))"

fun eliminate_columns :: "z3_api \<Rightarrow> nat list \<Rightarrow> z3expr list list \<Rightarrow> z3expr list list option" where
  "eliminate_columns z [] rows = Some rows"
| "eliminate_columns z (i # is) rows = Option.bind (eliminate_column z i rows) (eliminate_columns z is)"

definition matrix_solve :: "z3_api \<Rightarrow> matrix \<Rightarrow> matrix \<Rightarrow> matrix option" where
  "matrix_solve z a b =
     (if m_rows a \<noteq> m_cols a \<or> m_rows a \<noteq> m_rows b then None
      else map_option (\<lambda>rows. matrix_of (m_rows a) (m_cols b) (\<lambda>i j. z_simplify z (rows ! i ! (m_cols a + j))))
             (eliminate_columns z [0..<min (m_rows a) (m_cols a)] (augmented z a b)))"

end
