(* ===== verification/Linear_Logic.thy ===== *)
theory Linear_Logic
  imports Linear_Algebra
begin

text \<open>
  The part of lib/logics.cpp that solves variables from linear constraints (class \<open>LinearLogic\<close>): the
  constraints without conditional terms, their disjunctive normal form, the equations a conjunct entails,
  and the solutions of the conjuncts joined by conditionals.  A failed assertion has no result.
\<close>

section \<open>Preparation\<close>

text \<open>The goals of a tactic as a formula.\<close>

definition apply_result2expr :: "z3_api \<Rightarrow> z3expr list \<Rightarrow> z3expr" where
  "apply_result2expr z goals = z_simplify z (foldl z_or z_false goals)"

definition tmp_variable :: "nat \<Rightarrow> z3expr" where
  "tmp_variable i = z_int_const (''tmp_'' @ nat_to_string i)"

text \<open>The simplification that turns equations into inequalities is a second function of the solver.\<close>

definition preprocess_constraints ::
    "z3_api \<Rightarrow> (z3expr \<Rightarrow> z3expr) \<Rightarrow> z3expr \<Rightarrow> z3expr \<times> z3expr list" where
  "preprocess_constraints z eq2ineq constraints =
     (let eliminated = apply_result2expr z (z_elim_ite z constraints);
          aux_vars = collect_aux_vars z eliminated;
          tmp_vars = map tmp_variable [0..<length aux_vars]
      in (eq2ineq (substitute (zip aux_vars tmp_vars) eliminated), tmp_vars))"

section \<open>Linear equations\<close>

definition equation_side :: "z3expr \<Rightarrow> z3expr" where
  "equation_side e = z_sub (args e ! 0) (args e ! 1)"

definition right_side :: "z3_api \<Rightarrow> z3expr list \<Rightarrow> z3expr \<Rightarrow> z3expr" where
  "right_side z vars e =
     z_simplify z (z_neg (foldl (\<lambda>b v. z_sub b (z_mul (get_coeff z e v) v)) e vars))"

definition build_matrix_form :: "z3_api \<Rightarrow> z3expr list \<Rightarrow> z3expr list \<Rightarrow> (matrix \<times> matrix) option" where
  "build_matrix_form z equations vars =
     (if list_all (has_kind OEq) equations
      then Some
        (matrix_of (length equations) (length vars) (\<lambda>i j. get_coeff z (equation_side (equations ! i)) (vars ! j)),
         matrix_of (length equations) 1 (\<lambda>i j. right_side z vars (equation_side (equations ! i))))
      else None)"

definition solve_linear_equations :: "z3_api \<Rightarrow> z3expr list \<Rightarrow> z3expr list \<Rightarrow> z3expr list option" where
  "solve_linear_equations z equations vars =
     Option.bind (build_matrix_form z equations vars) (\<lambda>(a, b).
     Option.bind (matrix_solve z a b) (\<lambda>sol.
       those (map (\<lambda>i. entry sol i 0) [0..<length vars])))"

section \<open>The equations a conjunction entails\<close>

text \<open>The literals with one of the variables, in order, until there are as many equations as variables; an
  equation that follows from the ones before is left out.\<close>

fun entailed_equations ::
    "z3_api \<Rightarrow> z3expr \<Rightarrow> z3expr list \<Rightarrow> z3expr list \<Rightarrow> z3expr list \<Rightarrow> z3expr list option" where
  "entailed_equations z constraints vars eqs [] = Some eqs"
| "entailed_equations z constraints vars eqs (literal # literals) =
     (if \<not> list_ex (\<lambda>v. list_ex (\<lambda>u. z_string z u = z_string z v) (collect_vars z literal)) vars
      then entailed_equations z constraints vars eqs literals
      else case linear_normalize literal of
          None \<Rightarrow> None
        | Some normalized \<Rightarrow>
            let target = args normalized ! 0; equation = z_eq target (z_int 0);
                eqs' = (if z_check z [constraints, z_ne target (z_int 0)] = Unsat \<and>
                           \<not> implies z (mk_and eqs) equation
                        then eqs @ [equation] else eqs)
            in if length eqs' \<ge> length vars then Some eqs'
               else entailed_equations z constraints vars eqs' literals)"

text \<open>No values when the conjunction entails too few equations.\<close>

definition solve_vars_linear :: "z3_api \<Rightarrow> z3expr \<Rightarrow> z3expr list \<Rightarrow> z3expr list option" where
  "solve_vars_linear z constraints vars =
     Option.bind (to_cnf z constraints) (\<lambda>literals.
       if \<not> list_all (\<lambda>l. is_literal l = Some True) literals then None
       else Option.bind (entailed_equations z constraints vars [] literals) (\<lambda>eqs.
              if length eqs < length vars then Some [] else solve_linear_equations z eqs vars))"

section \<open>The conjuncts\<close>

text \<open>The solved conjuncts with the conditions of their solutions; the others are left out.\<close>

fun solve_conjuncts ::
    "z3_api \<Rightarrow> z3expr list \<Rightarrow> nat \<Rightarrow> z3expr list \<Rightarrow> (z3expr list \<times> z3expr) list option" where
  "solve_conjuncts z vars n [] = Some []"
| "solve_conjuncts z vars n (conjunct # conjuncts) =
     Option.bind (solve_vars_linear z conjunct vars) (\<lambda>values.
     Option.bind (solve_conjuncts z vars n conjuncts) (\<lambda>rest.
       Some (if length values < n then rest
             else (take n values, z_simplify z (substitute (zip vars values) conjunct)) # rest)))"

text \<open>A later case takes precedence over the ones before it.\<close>

fun combine_cases :: "z3_api \<Rightarrow> z3expr list \<Rightarrow> (z3expr list \<times> z3expr) list \<Rightarrow> z3expr list option" where
  "combine_cases z values [] = Some values"
| "combine_cases z values ((values', cond) # cases) =
     Option.bind (simplify z cond None) (\<lambda>c.
       combine_cases z (map (\<lambda>(v', v). z_ite c v' v) (zip values' values)) cases)"

definition solve_vars ::
    "z3_api \<Rightarrow> (z3expr \<Rightarrow> z3expr) \<Rightarrow> z3expr \<Rightarrow> z3expr list \<Rightarrow> z3expr list option" where
  "solve_vars z eq2ineq constraints vars =
     (let (processed, tmp_vars) = preprocess_constraints z eq2ineq constraints
      in Option.bind (to_dnf z processed) (\<lambda>dnf.
           if z_check z [processed] = Unsat \<or> dnf = [] then Some []
           else Option.bind (solve_conjuncts z (vars @ tmp_vars) (length vars) dnf) (\<lambda>cases.
                  case cases of
                    [] \<Rightarrow> Some []
                  | (values, cond) # rest \<Rightarrow> map_option (map (z_simplify z)) (combine_cases z values rest))))"

end
