(* ===== verification/Linear_Correctness.thy ===== *)
theory Linear_Correctness
  imports Linear_Algebra Formula_Correctness
begin

text \<open>
  A product of matrices has the values of the product of the values, and elimination without a skipped
  column gives the only solution of the system, whatever the terms of the system depend on.
\<close>

section \<open>Products\<close>

lemma dot_product_value:
  assumes "simplify_ok z"
  shows "ival I (dot_product z ps) = (\<Sum>(x, y)\<leftarrow>ps. ival I x * ival I y)"
proof -
  have "ival I (foldl (\<lambda>acc (x, y). z_simplify z (z_add acc (z_mul x y))) t ps) =
      ival I t + (\<Sum>(x, y)\<leftarrow>ps. ival I x * ival I y)" for t
    by (induction ps arbitrary: t) (auto simp: ival_simplify [OF assms] ival_arith)
  then show ?thesis by (simp add: dot_product_def ival_arith)
qed

section \<open>Systems of rows\<close>

text \<open>All rows have the same number of integer terms.\<close>

definition rows_wf :: "nat \<Rightarrow> z3expr list list \<Rightarrow> bool" where
  "rows_wf c rows \<longleftrightarrow> (\<forall>row\<in>set rows. length row = c \<and> list_all is_int row)"

text \<open>The values satisfy the rows for the right-hand side \<open>q\<close>.\<close>

definition solves :: "interp \<Rightarrow> nat \<Rightarrow> nat \<Rightarrow> z3expr list list \<Rightarrow> int list \<Rightarrow> bool" where
  "solves I n q rows xs \<longleftrightarrow>
     (\<forall>row\<in>set rows. (\<Sum>j<n. ival I (row ! j) * xs ! j) = ival I (row ! (n + q)))"

text \<open>The first columns are those of the identity.\<close>

definition unit_columns :: "interp \<Rightarrow> nat \<Rightarrow> z3expr list list \<Rightarrow> bool" where
  "unit_columns I m rows \<longleftrightarrow>
     (\<forall>c<m. \<forall>k<length rows. ival I (rows ! k ! c) = (if k = c then 1 else 0))"

lemma max_row_bounds:
  assumes "i < length rows"
  shows "i \<le> max_row z i rows \<and> max_row z i rows < length rows"
proof -
  have "i \<le> foldl (\<lambda>r k. if P k r then k else r) r ks \<and> foldl (\<lambda>r k. if P k r then k else r) r ks < n"
    if "i \<le> r" "r < n" "\<forall>k\<in>set ks. i \<le> k \<and> k < n" for P r ks n
    using that by (induction ks arbitrary: r) auto
  from this [of i "length rows"] show ?thesis unfolding max_row_def using assms by auto
qed

lemma swap_rows_set: "i < length rows \<Longrightarrow> k < length rows \<Longrightarrow> set (swap_rows i k rows) = set rows"
  by (simp add: swap_rows_def)

lemma swap_rows_length [simp]: "length (swap_rows i k rows) = length rows"
  by (simp add: swap_rows_def)

lemma swap_rows_unit:
  assumes "unit_columns I i rows" "i \<le> k" "k < length rows"
  shows "unit_columns I i (swap_rows i k rows)"
  using assms unfolding unit_columns_def swap_rows_def by (auto simp: nth_list_update)

lemma data_div_value:
  assumes z: "simplify_ok z" "check_ok z" and b: "is_int b" and div: "data_div z a b = Some t"
  shows "ival I b \<noteq> 0 \<and> ival I t * ival I b = ival I a \<and> is_int t"
proof -
  have nonzero: "z_simplify z (z_ne b (z_int 0)) = z_true"
    and exact: "z_check z [z_ne (z_mul (z_div a b) b) a] = Unsat" and t: "t = z_simplify z (z_div a b)"
    using div by (auto simp: data_div_def split: if_splits)
  have "holds I (z_ne b (z_int 0))"
    using holds_simplify [OF z(1), of I "z_ne b (z_int 0)"] nonzero by (simp add: holds_not_false)
  then have "ival I b \<noteq> 0" using eval_int [OF b, of I] by (simp add: holds_ne)
  moreover have "eval I (z_mul (z_div a b) b) = eval I a"
    using check_unsat [OF z(2) exact, of I] by (simp add: holds_ne del: eval.simps)
  then have "ival I (z_mul (z_div a b) b) = ival I a" by (simp only: ival_def)
  ultimately show ?thesis
    using sort_simplify [OF z(1)] by (simp add: t ival_simplify [OF z(1)] ival_arith is_int_def)
qed

lemma those_nth: "those (map f xs) = Some ys \<Longrightarrow> length ys = length xs \<and> (\<forall>j<length xs. f (xs ! j) = Some (ys ! j))"
  by (induction xs arbitrary: ys) (auto simp: nth_Cons split: option.splits nat.splits)

section \<open>One column\<close>

definition skips :: "z3_api \<Rightarrow> nat \<Rightarrow> z3expr list list \<Rightarrow> bool" where
  "skips z i rows \<longleftrightarrow>
     z_simplify z (z_eq (swap_rows i (max_row z i rows) rows ! i ! i) (z_int 0)) = z_true"

text \<open>The rows after a column that is not skipped: the divided pivot row, and the others without the column.\<close>

lemma eliminate_column_rows:
  assumes z: "simplify_ok z" "check_ok z" and wf: "rows_wf c rows" and i: "i < length rows" "i < c"
    and step: "eliminate_column z i rows = Some rows'" and pivot: "\<not> skips z i rows"
  obtains swapped p where "swapped = swap_rows i (max_row z i rows) rows" "rows_wf c swapped"
    "length p = c" "list_all is_int p" "rows' = (map (eliminate_row z i p) swapped)[i := p]"
    "\<And>I j. j < c \<Longrightarrow> ival I (p ! j) * ival I (swapped ! i ! i) = ival I (swapped ! i ! j)"
    "\<And>I. ival I (swapped ! i ! i) \<noteq> 0"
proof -
  define swapped where "swapped = swap_rows i (max_row z i rows) rows"
  have wf': "rows_wf c swapped"
    using wf swap_rows_set [OF i(1), of "max_row z i rows"] max_row_bounds [OF i(1)]
    by (simp add: rows_wf_def swapped_def)
  have len: "length swapped = length rows" by (simp add: swapped_def)
  then have row: "length (swapped ! i) = c" "list_all is_int (swapped ! i)" using wf' i by (simp_all add: rows_wf_def)
  then have int: "is_int (swapped ! i ! i)" using i by (simp add: list_all_length)
  obtain p where p: "those (map (\<lambda>a. data_div z a (swapped ! i ! i)) (swapped ! i)) = Some p"
      and rows': "rows' = (map (eliminate_row z i p) swapped)[i := p]"
    using step pivot by (auto simp: eliminate_column_def skips_def Let_def swapped_def split: option.splits)
  have div: "ival I (swapped ! i ! i) \<noteq> 0 \<and> ival I (p ! j) * ival I (swapped ! i ! i) = ival I (swapped ! i ! j) \<and>
      is_int (p ! j)" if "j < c" for I j
    using data_div_value [OF z int] those_nth [OF p] that row(1) by blast
  show thesis
  proof (rule that [of swapped p])
    show "length p = c" using those_nth [OF p] row(1) by simp
    then show "list_all is_int p" using div by (simp add: list_all_length)
  qed (use swapped_def wf' rows' div i in auto)
qed

lemma eliminate_row_value:
  assumes "simplify_ok z" "length row = c" "length p = c" "j < c"
  shows "ival I (eliminate_row z i p row ! j) = ival I (row ! j) - ival I (row ! i) * ival I (p ! j)"
  using assms by (simp add: eliminate_row_def ival_simplify [OF assms(1)] ival_arith)

lemma eliminate_row_wf:
  assumes "simplify_ok z" "length row = c" "length p = c"
  shows "length (eliminate_row z i p row) = c \<and> list_all is_int (eliminate_row z i p row)"
  using assms sort_simplify [OF assms(1)] by (auto simp: eliminate_row_def list_all_iff is_int_def)

lemma eliminate_column_wf:
  assumes z: "simplify_ok z" "check_ok z" and wf: "rows_wf c rows" and i: "i < length rows" "i < c"
    and step: "eliminate_column z i rows = Some rows'" and pivot: "\<not> skips z i rows"
  shows "rows_wf c rows' \<and> length rows' = length rows"
proof -
  obtain swapped p where swapped: "swapped = swap_rows i (max_row z i rows) rows" "rows_wf c swapped"
    and p: "length p = c" "list_all is_int p" "rows' = (map (eliminate_row z i p) swapped)[i := p]"
    using eliminate_column_rows [OF assms] by metis
  have "length row = c \<and> list_all is_int row" if "row \<in> set rows'" for row
    using that p swapped(2) set_update_subset_insert [of "map (eliminate_row z i p) swapped" i p]
      eliminate_row_wf [OF z(1)] by (auto simp: rows_wf_def)
  then show ?thesis using p(3) swapped(1) by (simp add: rows_wf_def)
qed

lemma eliminate_column_unit:
  assumes z: "simplify_ok z" "check_ok z" and wf: "rows_wf c rows" and i: "i < length rows" "i < c"
    and step: "eliminate_column z i rows = Some rows'" and pivot: "\<not> skips z i rows"
    and unit: "unit_columns I i rows"
  shows "unit_columns I (Suc i) rows'"
proof -
  obtain swapped p where swapped: "swapped = swap_rows i (max_row z i rows) rows" "rows_wf c swapped"
    and p: "length p = c" "list_all is_int p" "rows' = (map (eliminate_row z i p) swapped)[i := p]"
      "\<And>I j. j < c \<Longrightarrow> ival I (p ! j) * ival I (swapped ! i ! i) = ival I (swapped ! i ! j)"
      "\<And>I. ival I (swapped ! i ! i) \<noteq> 0"
    using eliminate_column_rows [OF assms(1-7)] by metis
  have len: "length swapped = length rows" by (simp add: swapped(1))
  have zero: "unit_columns I i swapped"
    using swap_rows_unit [OF unit] max_row_bounds [OF i(1)] by (simp add: swapped(1))
  have pj: "ival I (p ! j) = (if j = i then 1 else 0)" if "j \<le> i" for j
  proof (cases "j = i")
    case True
    then show ?thesis using p(4) [OF i(2), of I] p(5) [of I] by simp
  next
    case False
    then have "ival I (swapped ! i ! j) = 0" using zero that i(1) len by (auto simp: unit_columns_def)
    then show ?thesis using p(4) [of j I] p(5) [of I] that i(2) False by simp
  qed
  have "ival I (rows' ! k ! j) = (if k = j then 1 else 0)" if j: "j < Suc i" and k: "k < length rows'" for j k
  proof (cases "k = i")
    case True
    then show ?thesis using pj [of j] j i(1) len p(3) by auto
  next
    case False
    have k': "k < length swapped" using k p(3) by simp
    then have "length (swapped ! k) = c" using swapped(2) by (simp add: rows_wf_def)
    then have "ival I (rows' ! k ! j) = ival I (swapped ! k ! j) - ival I (swapped ! k ! i) * ival I (p ! j)"
      using eliminate_row_value [OF z(1) _ p(1)] False k' j i(2) p(3) by simp
    then show ?thesis using pj [of j] j zero k' False by (auto simp: unit_columns_def less_Suc_eq)
  qed
  then show ?thesis by (simp add: unit_columns_def)
qed

text \<open>What is left of a row at given values.\<close>

definition residual :: "interp \<Rightarrow> nat \<Rightarrow> nat \<Rightarrow> int list \<Rightarrow> z3expr list \<Rightarrow> int" where
  "residual I n q xs row = (\<Sum>j<n. ival I (row ! j) * xs ! j) - ival I (row ! (n + q))"

lemma solves_residual: "solves I n q rows xs \<longleftrightarrow> (\<forall>k<length rows. residual I n q xs (rows ! k) = 0)"
  unfolding solves_def residual_def by (auto simp: all_set_conv_all_nth)

lemma residual_scaled:
  assumes "\<And>j. j < c \<Longrightarrow> ival I (p ! j) * t = ival I (row ! j)" "n + q < c"
  shows "residual I n q xs row = residual I n q xs p * t"
proof -
  have "(\<Sum>j<n. ival I (row ! j) * xs ! j) = (\<Sum>j<n. ival I (p ! j) * xs ! j * t)"
    using assms by (intro sum.cong) (auto simp: assms(1) [symmetric] algebra_simps)
  then show ?thesis
    using assms(1) [OF assms(2)] by (simp add: residual_def sum_distrib_right [symmetric] left_diff_distrib)
qed

lemma residual_eliminated:
  assumes "simplify_ok z" "length row = c" "length p = c" "n + q < c"
  shows "residual I n q xs (eliminate_row z i p row) =
    residual I n q xs row - ival I (row ! i) * residual I n q xs p"
proof -
  have "(\<Sum>j<n. ival I (eliminate_row z i p row ! j) * xs ! j) =
      (\<Sum>j<n. ival I (row ! j) * xs ! j - ival I (row ! i) * (ival I (p ! j) * xs ! j))"
    using assms by (intro sum.cong) (auto simp: eliminate_row_value [OF assms(1-3)] algebra_simps)
  then show ?thesis
    using eliminate_row_value [OF assms(1-3) assms(4), of I i]
    by (simp add: residual_def sum_subtractf sum_distrib_left [symmetric] right_diff_distrib)
qed

lemma eliminate_column_solves:
  assumes z: "simplify_ok z" "check_ok z" and wf: "rows_wf c rows" and i: "i < length rows" "i < c"
    and step: "eliminate_column z i rows = Some rows'" and pivot: "\<not> skips z i rows" and q: "n + q < c"
  shows "solves I n q rows' xs \<longleftrightarrow> solves I n q rows xs"
proof -
  obtain swapped p where swapped: "swapped = swap_rows i (max_row z i rows) rows" "rows_wf c swapped"
    and p: "length p = c" "list_all is_int p" "rows' = (map (eliminate_row z i p) swapped)[i := p]"
      "\<And>I j. j < c \<Longrightarrow> ival I (p ! j) * ival I (swapped ! i ! i) = ival I (swapped ! i ! j)"
      "\<And>I. ival I (swapped ! i ! i) \<noteq> 0"
    using eliminate_column_rows [OF assms(1-7)] by metis
  let ?r = "residual I n q xs"
  have len: "length swapped = length rows" by (simp add: swapped(1))
  have row: "length (swapped ! k) = c" if "k < length rows" for k using swapped(2) that len by (simp add: rows_wf_def)
  have scaled: "?r (swapped ! i) = ?r p * ival I (swapped ! i ! i)" by (rule residual_scaled [OF p(4) q])
  have other: "?r (rows' ! k) = ?r (swapped ! k) - ival I (swapped ! k ! i) * ?r p"
    if "k < length rows" "k \<noteq> i" for k
    using residual_eliminated [OF z(1) row [OF that(1)] p(1) q] that len p(3) by simp
  have same: "?r (rows' ! i) = ?r p" using i(1) len p(3) by simp
  have "(\<forall>k<length rows. ?r (rows' ! k) = 0) \<longleftrightarrow> (\<forall>k<length rows. ?r (swapped ! k) = 0)"
  proof
    assume zero: "\<forall>k<length rows. ?r (rows' ! k) = 0"
    then have "?r p = 0" using same i(1) by simp
    then show "\<forall>k<length rows. ?r (swapped ! k) = 0"
      using other zero scaled by (metis diff_zero mult_zero_left mult_zero_right)
  next
    assume zero: "\<forall>k<length rows. ?r (swapped ! k) = 0"
    then have "?r p = 0" using scaled p(5) [of I] i(1) by simp
    then show "\<forall>k<length rows. ?r (rows' ! k) = 0"
      using other zero same by (metis diff_zero mult_zero_right)
  qed
  then have "solves I n q rows' xs \<longleftrightarrow> solves I n q swapped xs" using len p(3) by (simp add: solves_residual)
  then show ?thesis
    using swap_rows_set [OF i(1), of "max_row z i rows"] max_row_bounds [OF i(1)]
    by (simp add: solves_def swapped(1))
qed

section \<open>The whole elimination\<close>

fun no_skip :: "z3_api \<Rightarrow> nat list \<Rightarrow> z3expr list list \<Rightarrow> bool" where
  "no_skip z [] rows \<longleftrightarrow> True"
| "no_skip z (i # is) rows \<longleftrightarrow>
     \<not> skips z i rows \<and> (case eliminate_column z i rows of None \<Rightarrow> True | Some rows' \<Rightarrow> no_skip z is rows')"

lemma eliminate_columns_solution:
  assumes z: "simplify_ok z" "check_ok z"
  shows "rows_wf c rows \<Longrightarrow> i \<le> n \<Longrightarrow> n \<le> length rows \<Longrightarrow> n + q < c \<Longrightarrow> unit_columns I i rows \<Longrightarrow>
    no_skip z [i..<n] rows \<Longrightarrow> eliminate_columns z [i..<n] rows = Some rows' \<Longrightarrow>
    unit_columns I n rows' \<and> length rows' = length rows \<and> rows_wf c rows' \<and>
    (solves I n q rows' xs \<longleftrightarrow> solves I n q rows xs)"
proof (induction "n - i" arbitrary: i rows)
  case 0
  then show ?case by simp
next
  case (Suc d)
  then have i: "i < length rows" "i < c" and list: "[i..<n] = i # [Suc i..<n]" by (simp_all add: upt_conv_Cons)
  obtain rows1 where step: "eliminate_column z i rows = Some rows1"
      and rest: "eliminate_columns z [Suc i..<n] rows1 = Some rows'"
    using Suc.prems(7) by (auto simp: list bind_eq_Some_conv)
  have skip: "\<not> skips z i rows" "no_skip z [Suc i..<n] rows1" using Suc.prems(6) step by (simp_all add: list)
  note wf = eliminate_column_wf [OF z Suc.prems(1) i step skip(1)]
  have "unit_columns I n rows' \<and> length rows' = length rows1 \<and> rows_wf c rows' \<and>
      (solves I n q rows' xs \<longleftrightarrow> solves I n q rows1 xs)"
    by (rule Suc.hyps(1)) (use Suc.hyps(2) Suc.prems wf rest skip
      eliminate_column_unit [OF z Suc.prems(1) i step skip(1) Suc.prems(5)] in auto)
  then show ?case using wf eliminate_column_solves [OF z Suc.prems(1) i step skip(1) Suc.prems(4)] by simp
qed

lemma unit_solution:
  assumes "unit_columns I n rows" "length rows = n"
  shows "solves I n q rows xs \<longleftrightarrow> (\<forall>k<n. xs ! k = ival I (rows ! k ! (n + q)))"
proof -
  have "(\<Sum>j<n. ival I (rows ! k ! j) * xs ! j) = xs ! k" if "k < n" for k
  proof -
    have "(\<Sum>j<n. ival I (rows ! k ! j) * xs ! j) = (\<Sum>j<n. if j = k then xs ! j else 0)"
      using assms that by (intro sum.cong) (auto simp: unit_columns_def)
    then show ?thesis using that by simp
  qed
  then show ?thesis using assms(2) by (auto simp: solves_residual residual_def)
qed

text \<open>A matrix of integer terms has as many rows and columns as it says.\<close>

definition matrix_wf :: "matrix \<Rightarrow> bool" where
  "matrix_wf a \<longleftrightarrow> length (m_data a) = m_rows a \<and> rows_wf (m_cols a) (m_data a)"

definition skips_column :: "z3_api \<Rightarrow> matrix \<Rightarrow> matrix \<Rightarrow> bool" where
  "skips_column z a b \<longleftrightarrow> \<not> no_skip z [0..<m_cols a] (augmented z a b)"

text \<open>The values satisfy the equations for every row.\<close>

definition satisfies :: "interp \<Rightarrow> matrix \<Rightarrow> matrix \<Rightarrow> nat \<Rightarrow> int list \<Rightarrow> bool" where
  "satisfies I a b q xs \<longleftrightarrow>
     (\<forall>i<m_rows a. (\<Sum>j<m_cols a. ival I (item a i j) * xs ! j) = ival I (item b i q))"

lemma augmented_solves:
  assumes "simplify_ok z" "matrix_wf a" "m_rows a = m_rows b" "matrix_wf b" "q < m_cols b"
  shows "rows_wf (m_cols a + m_cols b) (augmented z a b)"
    "solves I (m_cols a) q (augmented z a b) xs \<longleftrightarrow> satisfies I a b q xs"
proof -
  have rows: "length (m_data a ! i) = m_cols a \<and> list_all is_int (m_data a ! i)"
    "length (m_data b ! i) = m_cols b \<and> list_all is_int (m_data b ! i)" if "i < m_rows a" for i
    using assms that by (simp_all add: matrix_wf_def rows_wf_def)
  show "rows_wf (m_cols a + m_cols b) (augmented z a b)"
    using rows sort_simplify [OF assms(1)] by (auto simp: augmented_def rows_wf_def list_all_iff is_int_def)
  have "(\<Sum>j<m_cols a. ival I (augmented z a b ! i ! j) * xs ! j) = (\<Sum>j<m_cols a. ival I (item a i j) * xs ! j)"
    "ival I (augmented z a b ! i ! (m_cols a + q)) = ival I (item b i q)" if "i < m_rows a" for i
    using rows [OF that] that assms(5)
    by (auto simp: augmented_def nth_append ival_simplify [OF assms(1)] intro!: sum.cong)
  then show "solves I (m_cols a) q (augmented z a b) xs \<longleftrightarrow> satisfies I a b q xs"
    by (auto simp: solves_residual residual_def satisfies_def) (simp_all add: augmented_def)
qed

lemma matrix_solve_solution:
  assumes "z3_ok z" "matrix_wf a" "matrix_wf b" "q < m_cols b"
    and "matrix_solve z a b = Some x" "\<not> skips_column z a b"
  shows "(satisfies I a b q xs \<longleftrightarrow> (\<forall>k<m_rows a. xs ! k = ival I (item x k q))) \<and>
    (\<forall>k<m_rows a. is_int (item x k q))"
proof -
  note z = z3_okD(1,2) [OF assms(1)]
  let ?n = "m_cols a"
  have square: "m_rows a = ?n" "m_rows a = m_rows b" using assms(5) by (auto simp: matrix_solve_def split: if_splits)
  obtain rows where rows: "eliminate_columns z [0..<?n] (augmented z a b) = Some rows"
      and x: "x = matrix_of (m_rows a) (m_cols b) (\<lambda>i j. z_simplify z (rows ! i ! (?n + j)))"
    using assms(5) square by (auto simp: matrix_solve_def)
  note aug = augmented_solves [OF z(1) assms(2) square(2) assms(3,4)]
  have len: "length (augmented z a b) = ?n" by (simp add: augmented_def square(1))
  have final: "unit_columns I ?n rows \<and> length rows = length (augmented z a b) \<and> rows_wf (?n + m_cols b) rows \<and>
      (solves I ?n q rows xs \<longleftrightarrow> solves I ?n q (augmented z a b) xs)"
    by (rule eliminate_columns_solution [OF z aug(1) _ _ _ _ _ rows])
      (use len assms(4,6) in \<open>simp_all add: unit_columns_def skips_column_def\<close>)
  then have "satisfies I a b q xs \<longleftrightarrow> (\<forall>k<?n. xs ! k = ival I (rows ! k ! (?n + q)))"
    using unit_solution [of I ?n rows q xs] len aug(2) [of I xs] by simp
  moreover have "is_int (rows ! k ! (?n + q))" if "k < ?n" for k
    using final len assms(4) that by (simp add: rows_wf_def list_all_length)
  ultimately show ?thesis
    using assms(4) square(1) sort_simplify [OF z(1)]
    by (simp add: x matrix_of_def ival_simplify [OF z(1)] is_int_def)
qed

text \<open>C24: elimination that skips no column solves the system: under every interpretation of the symbols in
  it, the values of the result are the only values that satisfy the equations.\<close>

theorem matrix_solve_correct:
  assumes "z3_ok z" "matrix_wf a" "matrix_wf b" "q < m_cols b"
    and "matrix_solve z a b = Some x" "\<not> skips_column z a b"
  shows "satisfies I a b q xs \<longleftrightarrow> (\<forall>k<m_rows a. xs ! k = ival I (item x k q))"
  using matrix_solve_solution [OF assms] by simp

text \<open>A solver that computes closed terms, with divisions by numbers that are not zero.\<close>

fun number_divisor :: "z3expr list \<Rightarrow> bool" where
  "number_divisor [a, App (ONum k) []] = (k \<noteq> 0)"
| "number_divisor _ = False"

lemma number_divisor_cases: "number_divisor es \<Longrightarrow> \<exists>a k. es = [a, z_int k] \<and> k \<noteq> 0"
  by (induction es rule: number_divisor.induct) auto

fun computed_term :: "z3expr \<Rightarrow> bool" where
  "computed_term (App f es) =
     (list_all computed_term es \<and>
      (closed_op f \<or> (f = OIDiv \<and> number_divisor es)))"
| "computed_term (Quant _ _ _) = False"

lemma eval_computed: "computed_term e \<Longrightarrow> eval I e = eval J e"
proof (induction e)
  case (App f es)
  then have args: "map (eval I) es = map (eval J) es" by (auto simp: list_all_iff)
  show ?case
  proof (cases "closed_op f")
    case True
    then show ?thesis unfolding eval.simps using args by (metis apply_closed_op)
  next
    case False
    then obtain a k where "f = OIDiv" "es = [a, z_int k]" "k \<noteq> 0"
      using App.prems number_divisor_cases [of es] by auto
    then show ?thesis using args by simp
  qed
qed simp

definition folding_z3 :: z3_api where
  "folding_z3 = \<lparr>z_simplify = (\<lambda>e.
       if \<not> computed_term e then e
       else if is_int e then z_int (ival zero_interp e)
       else if is_bool e then (if holds zero_interp e then z_true else z_false)
       else e),
     z_check = (\<lambda>fs. if list_all computed_term fs
        then (if list_all (holds zero_interp) fs then Sat else Unsat) else Unknown),
     z_model = (\<lambda>_. zero_interp), z_core = (\<lambda>fs ls. ls), z_string = (\<lambda>_. []),
     z_elim_ite = (\<lambda>e. [e]), z_qe = (\<lambda>e. [e])\<rparr>"

lemma folding_z3_ok: "z3_ok folding_z3"
proof -
  have "eval I (z_simplify folding_z3 e) = eval I e" for I e
  proof (cases "computed_term e")
    case True
    then have "eval I e = eval zero_interp e" by (rule eval_computed)
    then show ?thesis
      using eval_int [of e zero_interp] eval_bool [of e zero_interp] by (auto simp: folding_z3_def)
  qed (simp add: folding_z3_def)
  moreover have "check_ok folding_z3"
  proof -
    have "\<exists>f\<in>set fs. \<not> holds I f" if "z_check folding_z3 fs = Unsat" for fs I
      using that eval_computed [of _ I zero_interp]
      by (auto simp: folding_z3_def list_all_iff holds_def split: if_splits)
    moreover have "\<forall>f\<in>set fs. holds (z_model folding_z3 fs) f" if "z_check folding_z3 fs = Sat" for fs
      using that by (auto simp: folding_z3_def list_all_iff split: if_splits)
    ultimately show ?thesis unfolding check_ok_def by blast
  qed
  moreover have "core_ok folding_z3"
    unfolding core_ok_def
  proof (intro allI impI)
    fix fs ls assume "z_check folding_z3 (fs @ ls) = Unsat"
    then have "\<exists>f\<in>set (fs @ ls). \<not> holds I f" for I using check_unsat calculation by blast
    moreover have "z_core folding_z3 fs ls = ls" by (simp add: folding_z3_def)
    ultimately show "set (z_core folding_z3 fs ls) \<subseteq> set ls \<and>
       \<not> (\<exists>I. (\<forall>f\<in>set fs. holds I f) \<and> (\<forall>l\<in>set (z_core folding_z3 fs ls). holds I l))"
      by auto
  qed
  moreover have "collect_aux_vars folding_z3 e = []" for e
    by (simp add: collect_aux_vars_def folding_z3_def)
  then have "elim_ite_ok folding_z3" unfolding elim_ite_ok_def by (simp add: folding_z3_def sem_simps)
  moreover have "qe_ok folding_z3" unfolding qe_ok_def by (simp add: folding_z3_def sem_simps)
  ultimately show ?thesis by (simp add: z3_ok_def simplify_ok_def)
qed

lemma folding_simps:
  "z_simplify folding_z3 (App f es) = (if \<not> computed_term (App f es) then App f es
     else if is_int (App f es) then z_int (ival zero_interp (App f es))
     else if is_bool (App f es) then (if holds zero_interp (App f es) then z_true else z_false)
     else App f es)"
  "z_check folding_z3 fs = (if list_all computed_term fs
      then (if list_all (holds zero_interp) fs then Sat else Unsat) else Unknown)"
  by (simp_all add: folding_z3_def)

definition sample_matrix :: matrix where
  "sample_matrix = \<lparr>m_rows = 2, m_cols = 2, m_data = [[z_int 0, z_int 1], [z_int 2, z_int 0]]\<rparr>"

definition sample_side :: matrix where
  "sample_side = \<lparr>m_rows = 2, m_cols = 1, m_data = [[z_int 3], [z_int 4]]\<rparr>"

lemma sample_steps:
  "eliminate_column folding_z3 0 [[z_int 0, z_int 1, z_int 3], [z_int 2, z_int 0, z_int 4]] =
     Some [[z_int 1, z_int 0, z_int 2], [z_int 0, z_int 1, z_int 3]]"
  "\<not> skips folding_z3 0 [[z_int 0, z_int 1, z_int 3], [z_int 2, z_int 0, z_int 4]]"
  "eliminate_column folding_z3 1 [[z_int 1, z_int 0, z_int 2], [z_int 0, z_int 1, z_int 3]] =
     Some [[z_int 1, z_int 0, z_int 2], [z_int 0, z_int 1, z_int 3]]"
  "\<not> skips folding_z3 1 [[z_int 1, z_int 0, z_int 2], [z_int 0, z_int 1, z_int 3]]"
proof -
  have m0: "max_row folding_z3 0 [[z_int 0, z_int 1, z_int 3], [z_int 2, z_int 0, z_int 4]] = 1"
    by (simp add: max_row_def abs_val_def folding_simps sem_simps upt_rec is_int_def is_bool_def)
  have m1: "max_row folding_z3 1 [[z_int 1, z_int 0, z_int 2], [z_int 0, z_int 1, z_int 3]] = 1"
    by (simp add: max_row_def)
  have div: "data_div folding_z3 (z_int 2) (z_int 2) = Some (z_int 1)" "data_div folding_z3 (z_int 0) (z_int 2) = Some (z_int 0)"
    "data_div folding_z3 (z_int 4) (z_int 2) = Some (z_int 2)" "data_div folding_z3 (z_int a) (z_int 1) = Some (z_int a)" for a
    by (simp_all add: data_div_def folding_simps sem_simps smt_div_def is_int_def is_bool_def)
  note steps = eliminate_column_def skips_def m0 m1 [simplified] swap_rows_def Let_def folding_simps eliminate_row_def
    sem_simps is_int_def is_bool_def
  show "eliminate_column folding_z3 0 [[z_int 0, z_int 1, z_int 3], [z_int 2, z_int 0, z_int 4]] =
     Some [[z_int 1, z_int 0, z_int 2], [z_int 0, z_int 1, z_int 3]]"
    "\<not> skips folding_z3 0 [[z_int 0, z_int 1, z_int 3], [z_int 2, z_int 0, z_int 4]]"
    using div by (simp_all add: steps)
  show "eliminate_column folding_z3 1 [[z_int 1, z_int 0, z_int 2], [z_int 0, z_int 1, z_int 3]] =
     Some [[z_int 1, z_int 0, z_int 2], [z_int 0, z_int 1, z_int 3]]"
    "\<not> skips folding_z3 1 [[z_int 1, z_int 0, z_int 2], [z_int 0, z_int 1, z_int 3]]"
    using div by (simp_all add: steps)
qed

theorem matrix_solve_correct_witness:
  "\<exists>x. matrix_solve folding_z3 sample_matrix sample_side = Some x \<and> satisfies zero_interp sample_matrix sample_side 0 [2, 3]"
proof -
  have aug: "augmented folding_z3 sample_matrix sample_side = [[z_int 0, z_int 1, z_int 3], [z_int 2, z_int 0, z_int 4]]"
    by (simp add: augmented_def sample_matrix_def sample_side_def folding_simps sem_simps is_int_def upt_rec)
  have columns: "[0..<2] = [0, 1::nat]" by (simp add: upt_rec)
  let ?x = "matrix_of 2 1 (\<lambda>i j. z_simplify folding_z3 ([[z_int 1, z_int 0, z_int 2], [z_int 0, z_int 1, z_int 3]] ! i ! (2 + j)))"
  have solved: "matrix_solve folding_z3 sample_matrix sample_side = Some ?x"
    using sample_steps by (simp add: matrix_solve_def aug) (simp add: sample_matrix_def sample_side_def columns)
  have skip: "\<not> skips_column folding_z3 sample_matrix sample_side"
    using sample_steps by (simp add: skips_column_def aug) (simp add: sample_matrix_def columns)
  have wf: "matrix_wf sample_matrix" "matrix_wf sample_side" "0 < m_cols sample_side"
    by (simp_all add: matrix_wf_def rows_wf_def sample_matrix_def sample_side_def)
  have "satisfies zero_interp sample_matrix sample_side 0 [2, 3]"
    using matrix_solve_correct [OF folding_z3_ok wf solved skip, of zero_interp "[2, 3]"]
    by (simp add: matrix_of_def sample_matrix_def folding_simps sem_simps is_int_def less_2_cases_iff)
  then show ?thesis using solved by blast
qed

end
