(* ===== verification/Linear_Solutions.thy ===== *)
theory Linear_Solutions
  imports Linear_Logic Linear_Correctness Formula_Simplify
begin

text \<open>
  The values solved from constraints: the equations of a conjunct follow from it, so where the conjunct
  holds its solutions are the values of the variables, and the conditionals over the conjuncts have the
  values of the variables where these are determined and every conjunct was solved.
\<close>

section \<open>Equations\<close>

definition is_equation :: "z3expr \<Rightarrow> bool" where
  "is_equation e \<longleftrightarrow> (\<exists>t. e = z_eq t (z_int 0) \<and> is_int t)"

lemma linear_normalize_side:
  assumes "linear_normalize literal = Some e"
  shows "\<exists>t. args e = [t, z_int 0] \<and> is_int t"
proof -
  have side: "is_int lhs" if "linear_side atom = Some lhs" for atom lhs
    using that by (auto simp: linear_side_def Let_def split: list.splits if_splits)
  show ?thesis using assms side by (auto simp: linear_normalize_def Let_def split: if_splits)
qed

lemma entailed_equations_hold:
  assumes z: "check_ok z"
  shows "entailed_equations z c vars eqs literals = Some eqs' \<Longrightarrow>
    \<forall>e\<in>set eqs. is_equation e \<and> (\<forall>I. holds I c \<longrightarrow> holds I e) \<Longrightarrow>
    \<forall>e\<in>set eqs'. is_equation e \<and> (\<forall>I. holds I c \<longrightarrow> holds I e)"
proof (induction literals arbitrary: eqs)
  case (Cons literal literals)
  show ?case
  proof (cases "list_ex (\<lambda>v. list_ex (\<lambda>u. z_string z u = z_string z v) (collect_vars z literal)) vars")
    case True
    obtain normalized where norm: "linear_normalize literal = Some normalized"
      using Cons.prems(1) True by (auto split: option.splits)
    obtain t where t: "args normalized = [t, z_int 0]" "is_int t" using linear_normalize_side [OF norm] by blast
    define eqs1 where "eqs1 = (if z_check z [c, z_ne t (z_int 0)] = Unsat \<and> \<not> implies z (mk_and eqs) (z_eq t (z_int 0))
        then eqs @ [z_eq t (z_int 0)] else eqs)"
    have "holds I (z_eq t (z_int 0))" if "z_check z [c, z_ne t (z_int 0)] = Unsat" "holds I c" for I
      using check_unsat [OF z that(1), of I] that(2) by (simp add: holds_ne holds_eq)
    then have inv: "\<forall>e\<in>set eqs1. is_equation e \<and> (\<forall>I. holds I c \<longrightarrow> holds I e)"
      using Cons.prems(2) t(2) by (auto simp: eqs1_def is_equation_def)
    have "(if length vars \<le> length eqs1 then Some eqs1 else entailed_equations z c vars eqs1 literals) = Some eqs'"
      using Cons.prems(1)
      by (simp only: entailed_equations.simps True norm option.case Let_def t(1) nth_Cons_0 eqs1_def not_True_eq_False
          if_False)
    then have "eqs' = eqs1 \<or> entailed_equations z c vars eqs1 literals = Some eqs'" by (auto split: if_splits)
    then show ?thesis using inv Cons.IH [OF _ inv] by blast
  next
    case False
    then have "entailed_equations z c vars eqs literals = Some eqs'" using Cons.prems(1) by simp
    then show ?thesis by (rule Cons.IH [OF _ Cons.prems(2)])
  qed
qed simp

lemma right_side_value:
  assumes "simplify_ok z"
  shows "ival I (right_side z vars e) = (\<Sum>j<length vars. ival I (get_coeff z e (vars ! j)) * ival I (vars ! j)) - ival I e"
proof -
  have "ival I (foldl (\<lambda>b v. z_sub b (z_mul (get_coeff z e v) v)) t vs) =
      ival I t - (\<Sum>v\<leftarrow>vs. ival I (get_coeff z e v) * ival I v)" for t vs
    by (induction vs arbitrary: t) (auto simp: ival_arith)
  then show ?thesis
    by (simp add: right_side_def ival_simplify [OF assms] ival_arith sum_list_sum_nth atLeast0LessThan)
qed

lemma build_matrix_form_wf:
  assumes z: "simplify_ok z" and form: "build_matrix_form z equations vars = Some (a, b)"
  shows "matrix_wf a \<and> matrix_wf b \<and> m_cols a = length vars \<and> m_cols b = 1 \<and> m_rows a = length equations"
proof -
  have "is_int (get_coeff z e v)" "is_int (right_side z vars e)" for e v
    using sort_simplify [OF z] by (simp_all add: get_coeff_def right_side_def is_int_def)
  then show ?thesis
    using form by (auto simp: build_matrix_form_def matrix_of_def matrix_wf_def rows_wf_def list_all_iff split: if_splits)
qed

lemma build_matrix_form_holds:
  assumes z: "simplify_ok z" and form: "build_matrix_form z equations vars = Some (a, b)"
    and eqs: "\<forall>e\<in>set equations. is_equation e \<and> holds I e"
  shows "satisfies I a b 0 (map (ival I) vars)"
proof -
  have ab: "a = matrix_of (length equations) (length vars) (\<lambda>i j. get_coeff z (equation_side (equations ! i)) (vars ! j))"
    "b = matrix_of (length equations) 1 (\<lambda>i j. right_side z vars (equation_side (equations ! i)))"
    using form by (auto simp: build_matrix_form_def split: if_splits)
  have "ival I (equation_side e) = 0" if e: "e \<in> set equations" for e
  proof -
    obtain t where t: "e = z_eq t (z_int 0)" "is_int t" using eqs e by (auto simp: is_equation_def)
    then have "eval I t = eval I (z_int 0)" using eqs e holds_eq by blast
    then have "ival I t = 0" by (simp add: ival_def)
    then show ?thesis by (simp add: equation_side_def t(1) ival_arith)
  qed
  then show ?thesis by (simp add: satisfies_def ab matrix_of_def right_side_value [OF z])
qed

section \<open>A conjunct\<close>

text \<open>The elimination on the equations of the conjunct skips a column.\<close>

definition skips_linear :: "z3_api \<Rightarrow> z3expr \<Rightarrow> z3expr list \<Rightarrow> bool" where
  "skips_linear z c vars =
     (case Option.bind (to_cnf z c) (entailed_equations z c vars []) of
        None \<Rightarrow> False
      | Some eqs \<Rightarrow> (case build_matrix_form z eqs vars of None \<Rightarrow> False | Some (a, b) \<Rightarrow> skips_column z a b))"

lemma those_length: "those xs = Some ys \<Longrightarrow> length ys = length xs"
  by (induction xs arbitrary: ys) (auto split: option.splits)

text \<open>The system of a solved conjunct has its values as the only solution.\<close>

lemma solve_vars_linear_system:
  assumes "z3_ok z" "solve_vars_linear z c vars = Some vals" "length vars \<le> length vals" "\<not> skips_linear z c vars"
  obtains a b where "length vals = length vars" "list_all is_int vals"
    "\<And>I. holds I c \<Longrightarrow> satisfies I a b 0 (map (ival I) vars)"
    "\<And>I xs. satisfies I a b 0 xs \<longleftrightarrow> (\<forall>k<length vars. xs ! k = ival I (vals ! k))"
proof -
  note z = z3_okD(1,2) [OF assms(1)]
  obtain literals eqs where cnf: "to_cnf z c = Some literals" and eqs: "entailed_equations z c vars [] literals = Some eqs"
      and solve: "(if length eqs < length vars then Some [] else solve_linear_equations z eqs vars) = Some vals"
    using assms(2) by (auto simp: solve_vars_linear_def bind_eq_Some_conv split: if_splits)
  show thesis
  proof (cases "length eqs < length vars")
    case True
    then show ?thesis using solve assms(3) by simp
  next
    case False
    then obtain a b sol where form: "build_matrix_form z eqs vars = Some (a, b)" and sol: "matrix_solve z a b = Some sol"
        and those: "those (map (\<lambda>i. entry sol i 0) [0..<length vars]) = Some vals"
      using solve by (auto simp: solve_linear_equations_def bind_eq_Some_conv)
    note wf = build_matrix_form_wf [OF z(1) form]
    have rows: "m_rows a = length vars" using sol wf by (auto simp: matrix_solve_def split: if_splits)
    have at: "item sol k 0 = vals ! k" if "k < length vars" for k
      using those_nth [OF those] that by (auto simp: entry_def split: if_splits)
    have len: "length vals = length vars" using those_length [OF those] by simp
    have skip: "\<not> skips_column z a b" using assms(4) by (simp add: skips_linear_def cnf eqs form)
    have solution: "(satisfies I a b 0 xs \<longleftrightarrow> (\<forall>k<m_rows a. xs ! k = ival I (item sol k 0))) \<and>
        (\<forall>k<m_rows a. is_int (item sol k 0))" for I xs
      by (rule matrix_solve_solution [OF assms(1) _ _ _ sol skip]) (use wf in auto)
    show ?thesis
    proof (rule that [of a b])
      show "list_all is_int vals" using solution rows at len by (simp add: list_all_length)
      show "satisfies I a b 0 (map (ival I) vars)" if "holds I c" for I
        using entailed_equations_hold [OF z(2) eqs] that build_matrix_form_holds [OF z(1) form] by simp
    qed (use solution rows at len in auto)
  qed
qed

lemma solve_vars_linear_values:
  assumes "z3_ok z" "solve_vars_linear z c vars = Some vals" "length vars \<le> length vals"
    and "\<not> skips_linear z c vars" "holds I c"
  shows "\<forall>i<length vars. ival I (vals ! i) = ival I (vars ! i)"
proof -
  obtain a b where "satisfies I a b 0 (map (ival I) vars)"
    "satisfies I a b 0 (map (ival I) vars) \<longleftrightarrow> (\<forall>k<length vars. map (ival I) vars ! k = ival I (vals ! k))"
    using solve_vars_linear_system [OF assms(1-4)] assms(5) by metis
  then show ?thesis by simp
qed

section \<open>The normal form\<close>

lemma holds_clause2list: "holds I e \<longleftrightarrow> (\<exists>l\<in>set (clause2list e). holds I l)"
proof (induction e)
  case (App f es)
  then show ?case by (cases "f = OOr") (auto simp: holds_connectives)
qed simp

lemma to_dnf_holds:
  assumes "z3_ok z" "\<forall>fs. z_check z fs \<noteq> Unknown" "inj (z_string z)"
    and "propositional (z_not fml)" "atoms z (z_not fml) = Some atms" "to_dnf z fml = Some dnf"
  shows "holds I fml \<longleftrightarrow> (\<exists>c\<in>set dnf. holds I c)"
proof -
  obtain clauses where clauses: "to_cnf z (z_not fml) = Some clauses"
      "\<forall>I. (\<forall>c\<in>set clauses. holds I c) = holds I (z_not fml)"
    using to_cnf_total [OF assms(1-5)] by blast
  have dnf: "dnf = map (\<lambda>clause. mk_and (map z_not (clause2list clause))) clauses"
    using assms(6) clauses(1) by (simp add: to_dnf_def)
  have "holds I (mk_and (map z_not (clause2list c))) \<longleftrightarrow> \<not> holds I c" for c
    using holds_clause2list [of I c] by (auto simp: holds_connectives)
  then show ?thesis using clauses(2) by (auto simp: dnf holds_connectives)
qed

section \<open>Joining the cases\<close>

lemma combine_cases_value:
  assumes z: "z3_ok z" and known: "\<forall>fs. z_check z fs \<noteq> Unknown"
  shows "combine_cases z vals cases = Some res \<Longrightarrow> length vals = n \<Longrightarrow>
    \<forall>(vals', c)\<in>set cases. length vals' = n \<and> list_all is_int vals' \<and>
      (holds I c \<longrightarrow> (\<forall>k<n. ival I (vals' ! k) = x k)) \<Longrightarrow>
    (\<forall>k<n. ival I (vals ! k) = x k) \<or> (\<exists>(vals', c)\<in>set cases. holds I c) \<Longrightarrow>
    length res = n \<and> (\<forall>k<n. ival I (res ! k) = x k)"
proof (induction cases arbitrary: vals)
  case (Cons a cases)
  obtain vals' c where a: "a = (vals', c)" by (cases a)
  obtain c' where c': "simplify z c None = Some c'" and rest:
      "combine_cases z (map (\<lambda>(v', v). z_ite c' v' v) (zip vals' vals)) cases = Some res"
    using Cons.prems(1) by (auto simp: a bind_eq_Some_conv)
  have c: "holds I c' = holds I c" using simplify_holds [OF z known c'] by simp
  let ?vals = "map (\<lambda>(v', v). z_ite c' v' v) (zip vals' vals)"
  have vals': "length vals' = n" "list_all is_int vals'" "holds I c \<longrightarrow> (\<forall>k<n. ival I (vals' ! k) = x k)"
    using Cons.prems(3) by (simp_all add: a)
  have at: "ival I (?vals ! k) = (if holds I c then ival I (vals' ! k) else ival I (vals ! k))" if "k < n" for k
    using that vals'(1,2) Cons.prems(2) by (simp add: ival_ite list_all_length c)
  show ?case
  proof (rule Cons.IH [OF rest])
    show "length ?vals = n" using vals'(1) Cons.prems(2) by simp
    show "(\<forall>k<n. ival I (?vals ! k) = x k) \<or> (\<exists>(vals', c)\<in>set cases. holds I c)"
      using Cons.prems(4) vals'(3) at by (cases "holds I c") (auto simp: a)
  qed (use Cons.prems(3) in auto)
qed simp

section \<open>All the conjuncts\<close>

lemma substitute_same:
  "\<forall>(v, d)\<in>set s. eval I d = eval I v \<Longrightarrow> quantifier_free e \<Longrightarrow> eval I (substitute s e) = eval I e"
proof (induction e)
  case (App f es)
  show ?case
  proof (cases "map_of s (App f es)")
    case None
    have "map (eval I) (map (substitute s) es) = map (eval I) es" using App by (auto simp: list_all_iff)
    then show ?thesis using None by (simp del: map_map)
  next
    case (Some d)
    then show ?thesis using map_of_SomeD [OF Some] App.prems(1) by auto
  qed
qed simp

text \<open>The conjunct is solved for all the variables, and it uses them as integers.\<close>

definition solved_conjunct :: "z3_api \<Rightarrow> z3expr list \<Rightarrow> z3expr \<Rightarrow> bool" where
  "solved_conjunct z vars c \<longleftrightarrow>
     (\<forall>vals. solve_vars_linear z c vars = Some vals \<longrightarrow> length vars \<le> length vals) \<and>
     \<not> skips_linear z c vars \<and> quantifier_free c \<and>
     (\<forall>x s. z_const x s \<in> set (subterms c) \<longrightarrow> z_int_const x \<in> set vars \<longrightarrow> s = IntSort)"

text \<open>The other symbols determine the variables: two models that agree on them agree on the variables.\<close>

definition determined :: "z3expr list \<Rightarrow> z3expr list \<Rightarrow> z3expr \<Rightarrow> bool" where
  "determined vars unknowns e \<longleftrightarrow>
     (\<forall>I J. holds I e \<and> holds J e \<and>
        (\<forall>f vs. I f vs = J f vs \<or> (vs = [] \<and> z_int_const f \<in> set unknowns)) \<longrightarrow>
        (\<forall>v\<in>set vars. ival I v = ival J v))"

lemma solve_conjuncts_cases:
  "solve_conjuncts z vars n conjuncts = Some cases \<Longrightarrow> n \<le> length vars \<Longrightarrow>
   \<forall>c\<in>set conjuncts. \<forall>vals. solve_vars_linear z c vars = Some vals \<longrightarrow> length vars \<le> length vals \<Longrightarrow>
     length cases = length conjuncts \<and> (\<forall>i<length conjuncts. \<exists>vals. solve_vars_linear z (conjuncts ! i) vars = Some vals \<and>
       cases ! i = (take n vals, z_simplify z (substitute (zip vars vals) (conjuncts ! i))))"
proof (induction conjuncts arbitrary: cases)
  case (Cons c conjuncts)
  obtain vals rest where r: "solve_vars_linear z c vars = Some vals" "solve_conjuncts z vars n conjuncts = Some rest"
      "cases = (if length vals < n then rest else (take n vals, z_simplify z (substitute (zip vars vals) c)) # rest)"
    using Cons.prems(1) by (auto simp: bind_eq_Some_conv)
  have "length vars \<le> length vals" using Cons.prems(3) r(1) by simp
  then have "cases = (take n vals, z_simplify z (substitute (zip vars vals) c)) # rest"
    using r(3) Cons.prems(2) by simp
  then show ?case using Cons.IH [OF r(2)] Cons.prems(2,3) r(1) by (auto simp: nth_Cons split: nat.splits)
qed simp


lemma solved_case:
  assumes z: "z3_ok z" and c: "solved_conjunct z vars c" and vals: "solve_vars_linear z c vars = Some vals"
    and ints_only: "\<forall>v\<in>set vars. \<exists>x. v = z_int_const x"
  shows "length vals = length vars \<and> list_all is_int vals \<and>
    (holds I c \<longrightarrow> holds I (substitute (zip vars vals) c) \<and> (\<forall>k<length vars. ival I (vals ! k) = ival I (vars ! k))) \<and>
    (holds I (substitute (zip vars vals) c) \<longleftrightarrow> holds (subst_interp I (zip vars vals)) c)"
proof -
  have ok: "length vars \<le> length vals" "\<not> skips_linear z c vars" "quantifier_free c"
    "\<forall>x s. z_const x s \<in> set (subterms c) \<longrightarrow> z_int_const x \<in> set vars \<longrightarrow> s = IntSort"
    using c vals by (auto simp: solved_conjunct_def)
  obtain len: "length vals = length vars" and ints: "list_all is_int vals"
    using solve_vars_linear_system [OF z vals ok(1,2)] by metis
  have "int_substitution (zip vars vals)"
    unfolding int_substitution_def
  proof clarify
    fix v d assume "(v, d) \<in> set (zip vars vals)"
    then have "v \<in> set vars" "d \<in> set vals" by (auto dest: set_zip_leftD set_zip_rightD)
    then show "is_int d \<and> (\<exists>x. v = z_int_const x)" using ints ints_only by (auto simp: list_all_iff)
  qed
  moreover have "well_named (zip vars vals) c"
    unfolding well_named_def
  proof (intro allI impI)
    fix x s' assume at: "z_const x s' \<in> set (subterms c)" and "map_of (zip vars vals) (z_int_const x) \<noteq> None"
    then obtain d where "map_of (zip vars vals) (z_int_const x) = Some d" by blast
    then have "z_int_const x \<in> set vars" by (blast dest: map_of_SomeD set_zip_leftD)
    then show "s' = IntSort" using ok(4) at by blast
  qed
  ultimately have subst: "holds I (substitute (zip vars vals) c) \<longleftrightarrow> holds (subst_interp I (zip vars vals)) c"
    using eval_substitute [OF _ ok(3), of "zip vars vals" I] by (simp add: holds_def)
  have same: "ival I (vals ! k) = ival I (vars ! k)" if "holds I c" "k < length vars" for k
    using solve_vars_linear_values [OF z vals ok(1,2) that(1)] that(2) by blast
  have "holds I (substitute (zip vars vals) c)" if "holds I c"
  proof -
    have "eval I d = eval I v" if vd: "(v, d) \<in> set (zip vars vals)" for v d
    proof -
      obtain k where k: "k < length vars" "v = vars ! k" "d = vals ! k" using vd by (auto simp: in_set_zip)
      have "\<exists>x. v = z_int_const x" using ints_only k(1,2) nth_mem by blast
      then have "is_int v" by (auto simp: is_int_def)
      moreover have "is_int d" using ints k(1,3) len by (simp add: list_all_length)
      ultimately show ?thesis using same [OF \<open>holds I c\<close> k(1)] k(2,3) by (simp add: eval_int)
    qed
    then have "eval I (substitute (zip vars vals) c) = eval I c" by (intro substitute_same ok(3)) blast
    then show ?thesis using that by (simp add: holds_def)
  qed
  then show ?thesis using len ints same subst by (intro conjI impI allI) auto
qed

text \<open>The value of the variables under any model of the constraints.\<close>

lemma solve_vars_value:
  assumes z: "z3_ok z" and known: "\<forall>fs. z_check z fs \<noteq> Unknown" and inj: "inj (z_string z)"
    and pre: "preprocess_constraints z f constraints = (processed, tmps)"
    and boolean: "propositional (z_not processed)" and atms: "atoms z (z_not processed) = Some atms"
    and dnf: "to_dnf z processed = Some dnf" and solved: "\<forall>c\<in>set dnf. solved_conjunct z (vars @ tmps) c"
    and ints_only: "\<forall>v\<in>set (vars @ tmps). \<exists>x. v = z_int_const x" and distinct: "distinct (vars @ tmps)"
    and det: "determined vars (vars @ tmps) processed"
    and res: "solve_vars z f constraints vars = Some res" and model: "holds I processed"
  shows "length res = length vars \<and> (\<forall>k<length vars. ival I (res ! k) = ival I (vars ! k))"
proof -
  let ?all = "vars @ tmps" and ?n = "length vars" and ?x = "\<lambda>k. ival I (vars ! k)"
  note cases_of = to_dnf_holds [OF z known inj boolean atms dnf]
  obtain c0 where c0: "c0 \<in> set dnf" "holds I c0" using cases_of [of I] model by blast
  have "z_check z [processed] \<noteq> Unsat" using check_unsat [OF z3_okD(2) [OF z]] model by fastforce
  then obtain cases where cases: "solve_conjuncts z ?all ?n dnf = Some cases"
      and joined: "(case cases of [] \<Rightarrow> Some [] | (vals, cond) # rest \<Rightarrow>
          map_option (map (z_simplify z)) (combine_cases z vals rest)) = Some res"
    using res pre dnf c0(1) by (auto simp: solve_vars_def bind_eq_Some_conv split: if_splits)
  have at: "length cases = length dnf \<and> (\<forall>i<length dnf. \<exists>vals. solve_vars_linear z (dnf ! i) ?all = Some vals \<and>
       cases ! i = (take ?n vals, z_simplify z (substitute (zip ?all vals) (dnf ! i))))"
    using solve_conjuncts_cases [OF cases] solved by (simp add: solved_conjunct_def)
  have right: "length vals = ?n \<and> list_all is_int vals \<and> (holds I cond \<longrightarrow> (\<forall>k<?n. ival I (vals ! k) = ?x k)) \<and>
      (holds I c \<longrightarrow> holds I cond)"
    if i: "i < length dnf" "cases ! i = (vals, cond)" "c = dnf ! i" for i vals cond c
  proof -
    obtain all where all: "solve_vars_linear z c ?all = Some all" "vals = take ?n all"
        "cond = z_simplify z (substitute (zip ?all all) c)" using at i by force
    have c: "solved_conjunct z ?all c" "c \<in> set dnf" using solved i(1,3) by auto
    note sol = solved_case [OF z c(1) all(1) ints_only]
    let ?J = "subst_interp I (zip ?all all)"
    have len: "length all = length ?all" and ints: "list_all is_int all" using sol [of I] by auto
    have at_k: "ival I (vals ! k) = ?x k" if "holds I cond" "k < ?n" for k
    proof -
      have "holds ?J c" using that(1) sol [of I] by (simp add: all(3) holds_simplify [OF z3_okD(1) [OF z]])
      then have "holds ?J processed" using cases_of [of ?J] c(2) by blast
      moreover have "I g us = ?J g us \<or> us = [] \<and> z_int_const g \<in> set ?all" for g us
        by (auto simp: subst_interp_def split: option.splits dest!: map_of_SomeD set_zip_leftD)
      ultimately have "ival I (vars ! k) = ival ?J (vars ! k)"
        using det model that(2) unfolding determined_def by (meson nth_mem)
      moreover have "ival ?J (vars ! k) = ival I (all ! k)"
      proof -
        have k: "k < length ?all" "?all ! k = vars ! k" using that(2) by (simp_all add: nth_append)
        then obtain x where x: "vars ! k = z_int_const x" using ints_only nth_mem by metis
        have "map_of (zip ?all all) (vars ! k) = Some (all ! k)"
          using map_of_zip_nth [OF len [symmetric] distinct, of k] k len by simp
        then show ?thesis by (simp add: ival_def subst_interp_def x)
      qed
      moreover have "vals ! k = all ! k" using that(2) by (simp add: all(2))
      ultimately show ?thesis by simp
    qed
    show ?thesis using len ints at_k sol [of I] by (auto simp: all(2,3) list_all_length holds_simplify [OF z3_okD(1) [OF z]])
  qed
  obtain vals cond rest where first: "cases = (vals, cond) # rest"
    using at c0(1) by (cases cases) auto
  obtain res' where joined': "combine_cases z vals rest = Some res'" "res = map (z_simplify z) res'"
    using joined first by auto
  have every: "length vs = ?n \<and> list_all is_int vs \<and> (holds I c \<longrightarrow> (\<forall>k<?n. ival I (vs ! k) = ?x k))"
    if "(vs, c) \<in> set cases" for vs c
    using that right at by (metis in_set_conv_nth)
  obtain j where j: "j < length dnf" "dnf ! j = c0" using c0(1) by (auto simp: in_set_conv_nth)
  obtain vs c where case_j: "cases ! j = (vs, c)" by (cases "cases ! j")
  then have "holds I c" using right [OF j(1) case_j j(2) [symmetric]] c0(2) by blast
  moreover have "(vs, c) \<in> set cases" using j(1) case_j at nth_mem by metis
  ultimately have some: "(\<forall>k<?n. ival I (vals ! k) = ?x k) \<or> (\<exists>(vs, c)\<in>set rest. holds I c)"
    using every first by auto
  have "length res' = ?n \<and> (\<forall>k<?n. ival I (res' ! k) = ?x k)"
    by (rule combine_cases_value [OF z known joined'(1) _ _ some]) (use every first in auto)
  then show ?thesis by (simp add: joined'(2) ival_simplify [OF z3_okD(1) [OF z]])
qed


text \<open>The solver of the example decides every question and computes constants.\<close>

definition exact_simplify :: "z3expr \<Rightarrow> z3expr" where
  "exact_simplify e =
     (if is_int e \<and> (\<forall>I. ival I e = ival zero_interp e) then z_int (ival zero_interp e)
      else if is_bool e \<and> (\<forall>I. holds I e) then z_true
      else let a = args (args (args e ! 0) ! 0) ! 0; b = args e ! 1
           in if is_bool a \<and> e = mk_or [z_not (z_not a)] then a
              else if is_bool b \<and> e = z_or z_false b then b
              else e)"

definition exact_z3 :: z3_api where
  "exact_z3 = ideal_z3\<lparr>z_simplify := exact_simplify\<rparr>"

lemma exact_simplify_eval: "eval I (exact_simplify e) = eval I e"
proof (cases "is_int e \<and> (\<forall>I. ival I e = ival zero_interp e)")
  case True
  then have "eval I e = VInt (ival zero_interp e)" using eval_int [of e I] by metis
  then show ?thesis using True by (simp add: exact_simplify_def)
next
  case False
  have double: "eval I (mk_or [z_not (z_not a)]) = eval I a" "eval I (z_or z_false a) = eval I a" if a: "is_bool a" for a
  proof -
    obtain b where "eval I a = VBool b" using eval_bool [OF a, of I] by blast
    then show "eval I (mk_or [z_not (z_not a)]) = eval I a" "eval I (z_or z_false a) = eval I a" by simp_all
  qed
  show ?thesis
  proof (cases "is_bool e \<and> (\<forall>I. holds I e)")
    case True
    then show ?thesis using False eval_bool [of e I] by (simp add: exact_simplify_def)
  next
    case bool: False
    then have "exact_simplify e = (let a = args (args (args e ! 0) ! 0) ! 0; b = args e ! 1
           in if is_bool a \<and> e = mk_or [z_not (z_not a)] then a
              else if is_bool b \<and> e = z_or z_false b then b
              else e)"
      using False by (simp only: exact_simplify_def if_False)
    then have "exact_simplify e = e \<or> (\<exists>a. is_bool a \<and> e = mk_or [z_not (z_not a)] \<and> exact_simplify e = a) \<or>
        (\<exists>b. is_bool b \<and> e = z_or z_false b \<and> exact_simplify e = b)"
      unfolding Let_def by presburger
    then show ?thesis using double by (elim disjE exE conjE) simp_all
  qed
qed

lemma exact_z3_fields [simp]:
  "z_check exact_z3 = z_check ideal_z3" "z_string exact_z3 = z_string ideal_z3" "z_core exact_z3 fs ls = ls"
  "z_elim_ite exact_z3 e = [e]" "z_model exact_z3 = z_model ideal_z3" "z_simplify exact_z3 = exact_simplify"
  by (simp_all add: exact_z3_def) (simp_all add: ideal_z3_def)

lemma exact_z3_ok: "z3_ok exact_z3"
proof -
  have "\<not> contains_str (nat_to_string n) ''!''" for n
    using nat_to_string_no_mark [of n] by (auto simp: contains_str_iff)
  then have aux: "collect_aux_vars exact_z3 e = []" for e
    by (simp add: collect_aux_vars_def) (simp add: ideal_z3_def)
  have "elim_ite_ok exact_z3" unfolding elim_ite_ok_def aux by (simp add: holds_connectives)
  moreover have "qe_ok exact_z3"
    using z3_okD(5) [OF ideal_z3_ok] by (simp add: qe_ok_def exact_z3_def)
  moreover have "simplify_ok exact_z3" by (simp add: simplify_ok_def exact_simplify_eval)
  moreover have "check_ok exact_z3" "core_ok exact_z3"
    using z3_okD(2,3) [OF ideal_z3_ok] by (simp_all add: check_ok_def core_ok_def exact_z3_def)
  ultimately show ?thesis by (simp add: z3_ok_def)
qed

lemma exact_check:
  "(\<And>I. \<exists>f\<in>set fs. \<not> holds I f) \<Longrightarrow> z_check exact_z3 fs = Unsat"
  "\<forall>f\<in>set fs. holds I f \<Longrightarrow> z_check exact_z3 fs = Sat"
  by (auto simp: ideal_z3_def)

lemma exact_model:
  assumes "\<forall>f\<in>set fs. holds I f"
  shows "\<forall>f\<in>set fs. holds (z_model exact_z3 fs) f"
  using check_sat [OF z3_okD(2) [OF exact_z3_ok]] exact_check(2) [OF assms] by blast

lemma exact_const: "is_int e \<Longrightarrow> (\<And>I. ival I e = k) \<Longrightarrow> exact_simplify e = z_int k"
  by (simp add: exact_simplify_def)

lemma exact_true: "is_bool e \<Longrightarrow> (\<And>I. holds I e) \<Longrightarrow> exact_simplify e = z_true"
  by (simp add: exact_simplify_def is_bool_def is_int_def)

definition exact_n :: z3expr where "exact_n = z_int_const ''N''"
definition three :: interp where "three = (\<lambda>_ _. VInt 3)"

abbreviation is_three :: z3expr where "is_three \<equiv> z_eq exact_n (z_int 3)"

lemma holds_three: "holds I is_three \<longleftrightarrow> ival I exact_n = 3"
  using eval_int [of exact_n I] by (simp add: holds_eq is_int_def exact_n_def)

lemma exact_atoms:
  "atoms exact_z3 (z_not is_three) = Some [is_three]"
  "atoms exact_z3 (mk_and [z_not (z_not is_three)]) = Some [is_three]"
  using ideal_z3_inj by (simp_all add: atoms_def is_bool_def exact_n_def inj_eq)

lemma exact_minimize: "z_check exact_z3 [z_true, z_true, z_not l] \<noteq> Unsat \<Longrightarrow> minimize_conjunction exact_z3 [l] 0 None = [l]"
  by (simp add: minimize_conjunction.simps get_expr_vec_except_def)

lemma three_models: "holds three is_three" "\<not> holds zero_interp is_three"
  by (simp_all add: holds_three) (simp_all add: exact_n_def ival_def three_def zero_interp_def)

text \<open>One round of the normal form finds the only clause.\<close>

lemma exact_cnf:
  assumes "holds I (z_not fml)" "\<And>J. holds J (z_not fml) \<Longrightarrow> atom2literal J is_three = l"
    and "\<And>J. holds J fml \<longleftrightarrow> \<not> holds J l" "\<And>J. holds J l = holds J (z_not fml)"
    and "holds K (z_not l)" "atoms exact_z3 fml = Some [is_three]"
  shows "to_cnf exact_z3 fml = Some [exact_simplify (mk_or [z_not l])]"
proof -
  have model: "holds (z_model exact_z3 [z_not fml]) (z_not fml)" using exact_model [of "[z_not fml]" I] assms(1) by simp
  have "z_check exact_z3 [fml, l] = Unsat" using assms(3) by (intro exact_check(1)) auto
  moreover have "z_check exact_z3 [z_true, z_true, z_not l] \<noteq> Unsat"
    using exact_check(2) [of "[z_true, z_true, z_not l]" K] assms(5) by (simp add: holds_not_false)
  ultimately have clause: "implicant exact_z3 [is_three] fml [z_not fml] = Some (mk_or [z_not l])"
    using assms(2) [OF model] exact_minimize [of l] by (simp add: implicant_def)
  have "z_check exact_z3 [z_not fml] = Sat" using assms(1) exact_check(2) [of "[z_not fml]" I] by simp
  moreover have "z_check exact_z3 [z_not fml, mk_or [z_not l]] = Unsat"
    using assms(4) by (intro exact_check(1)) (auto simp: holds_connectives)
  ultimately have "cnf_loop exact_z3 fml [is_three] [z_not fml] [] = Some [exact_simplify (mk_or [z_not l])]"
    using clause by (subst cnf_loop.simps, simp) (subst cnf_loop.simps, simp)
  then show ?thesis by (simp add: to_cnf_def assms(6))
qed

abbreviation three_case :: z3expr where "three_case \<equiv> mk_and [z_not (z_not is_three)]"

lemma exact_normal_forms:
  "to_dnf exact_z3 is_three = Some [three_case]"
  "to_cnf exact_z3 three_case = Some [is_three]"
proof -
  have bool: "is_bool is_three" "is_bool (mk_or es)" "\<not> is_int (mk_or es)" for es by (simp_all add: is_bool_def is_int_def)
  have "to_cnf exact_z3 (z_not is_three) = Some [exact_simplify (mk_or [z_not is_three])]"
    by (rule exact_cnf [of three _ _ zero_interp])
      (use three_models exact_atoms(1) in \<open>simp_all add: holds_connectives atom2literal_def\<close>)
  moreover have "\<not> holds three (mk_or [z_not is_three])" using three_models by (simp add: holds_connectives)
  then have "exact_simplify (mk_or [z_not is_three]) = mk_or [z_not is_three]"
    by (auto simp: exact_simplify_def bool Let_def exact_n_def)
  ultimately show "to_dnf exact_z3 is_three = Some [three_case]" by (simp add: to_dnf_def)
  have "to_cnf exact_z3 three_case = Some [exact_simplify (mk_or [z_not (z_not is_three)])]"
    by (rule exact_cnf [of zero_interp _ _ three])
      (use three_models exact_atoms(2) in \<open>simp_all add: holds_connectives atom2literal_def\<close>)
  moreover have "\<not> holds zero_interp (mk_or [z_not (z_not is_three)])" using three_models by (simp add: holds_connectives)
  then have "exact_simplify (mk_or [z_not (z_not is_three)]) = is_three"
    by (auto simp: exact_simplify_def bool Let_def)
  ultimately show "to_cnf exact_z3 three_case = Some [is_three]" by simp
qed

abbreviation three_side :: z3expr where "three_side \<equiv> z_sub exact_n (z_int 3)"

lemma exact_equations:
  "entailed_equations exact_z3 three_case [exact_n] [] [is_three] = Some [z_eq three_side (z_int 0)]"
proof -
  have "collect_vars exact_z3 is_three = [exact_n]"
    by (simp add: collect_vars_def var_insert_def exact_n_def)
  moreover have "linear_normalize is_three = Some (z_ge three_side (z_int 0))"
    by (simp add: linear_normalize_def is_literal_def is_bool_def exact_n_def linear_side_def is_ge_def is_le_def
        is_lt_def is_gt_def is_eq_def)
  moreover have "z_check exact_z3 [three_case, z_ne three_side (z_int 0)] = Unsat"
  proof (rule exact_check(1))
    fix I
    show "\<exists>f\<in>set [three_case, z_ne three_side (z_int 0)]. \<not> holds I f"
      using eval_int [of three_side I] holds_three [of I]
      by (auto simp: holds_connectives holds_ne ival_arith is_int_def)
  qed
  moreover have "\<not> implies exact_z3 (mk_and []) (z_eq three_side (z_int 0))"
  proof -
    have "ival zero_interp three_side \<noteq> 0" by (simp add: ival_arith) (simp add: ival_def exact_n_def zero_interp_def)
    then have "\<not> holds zero_interp (z_eq three_side (z_int 0))"
      using eval_int [of three_side zero_interp] by (simp add: holds_eq is_int_def)
    then show ?thesis
      using exact_check(2) [of "[mk_and [], z_not (z_eq three_side (z_int 0))]" zero_interp]
      by (simp add: implies_def holds_connectives)
  qed
  ultimately show ?thesis by simp
qed

lemma exact_solution:
  "build_matrix_form exact_z3 [z_eq three_side (z_int 0)] [exact_n] =
     Some (matrix_of 1 1 (\<lambda>_ _. z_int 1), matrix_of 1 1 (\<lambda>_ _. z_int 3))"
  "eliminate_column exact_z3 0 [[z_int 1, z_int 3]] = Some [[z_int 1, z_int 3]]"
  "\<not> skips exact_z3 0 [[z_int 1, z_int 3]]"
proof -
  let ?e = "z_sub three_side (z_int 0)"
  have "exact_simplify (z_sub ?e (substitute [(exact_n, z_sub exact_n (z_int 1))] ?e)) = z_int 1"
    by (rule exact_const) (simp_all add: is_int_def exact_n_def ival_arith)
  then have coeff: "get_coeff exact_z3 ?e exact_n = z_int 1" by (simp add: get_coeff_def)
  have "right_side exact_z3 [exact_n] ?e = z_int 3"
    unfolding right_side_def exact_z3_fields
    by (rule exact_const) (simp_all add: is_int_def coeff ival_arith)
  then show "build_matrix_form exact_z3 [z_eq three_side (z_int 0)] [exact_n] =
     Some (matrix_of 1 1 (\<lambda>_ _. z_int 1), matrix_of 1 1 (\<lambda>_ _. z_int 3))"
    using coeff by (simp add: build_matrix_form_def equation_side_def matrix_of_def)
  have one: "exact_simplify (z_eq (z_int 1) (z_int 0)) \<noteq> z_true"
    by (simp add: exact_simplify_def is_int_def is_bool_def holds_eq Let_def)
  have div: "data_div exact_z3 (z_int k) (z_int 1) = Some (z_int k)" for k
  proof -
    have "exact_simplify (z_ne (z_int 1) (z_int 0)) = z_true"
      by (rule exact_true) (simp_all add: is_bool_def holds_ne)
    moreover have "z_check exact_z3 [z_ne (z_mul (z_div (z_int k) (z_int 1)) (z_int 1)) (z_int k)] = Unsat"
      by (rule exact_check(1)) (simp add: holds_ne smt_div_def)
    moreover have "exact_simplify (z_div (z_int k) (z_int 1)) = z_int k"
      by (rule exact_const) (simp_all add: is_int_def ival_div ival_arith smt_div_def)
    ultimately show ?thesis by (simp add: data_div_def)
  qed
  show "eliminate_column exact_z3 0 [[z_int 1, z_int 3]] = Some [[z_int 1, z_int 3]]"
    "\<not> skips exact_z3 0 [[z_int 1, z_int 3]]"
    using one div by (simp_all add: eliminate_column_def skips_def max_row_def swap_rows_def Let_def)
qed

lemma exact_solved:
  "solve_vars_linear exact_z3 three_case [exact_n] = Some [z_int 3]" "\<not> skips_linear exact_z3 three_case [exact_n]"
proof -
  have num: "exact_simplify (z_int k) = z_int k" for k by (rule exact_const) (simp_all add: is_int_def ival_arith)
  have aug: "augmented exact_z3 (matrix_of 1 1 (\<lambda>_ _. z_int 1)) (matrix_of 1 1 (\<lambda>_ _. z_int 3)) = [[z_int 1, z_int 3]]"
    by (simp add: augmented_def matrix_of_def num)
  have "matrix_solve exact_z3 (matrix_of 1 1 (\<lambda>_ _. z_int 1)) (matrix_of 1 1 (\<lambda>_ _. z_int 3)) =
      Some (matrix_of 1 1 (\<lambda>_ _. z_int 3))"
    using aug exact_solution(2) by (simp add: matrix_solve_def) (simp add: matrix_of_def num)
  then have "solve_linear_equations exact_z3 [z_eq three_side (z_int 0)] [exact_n] = Some [z_int 3]"
    by (simp add: solve_linear_equations_def exact_solution(1)) (simp add: entry_def matrix_of_def)
  moreover have "is_literal is_three = Some True" by (simp add: is_literal_def is_bool_def exact_n_def)
  ultimately show "solve_vars_linear exact_z3 three_case [exact_n] = Some [z_int 3]"
    by (simp add: solve_vars_linear_def exact_normal_forms exact_equations del: entailed_equations.simps)
  have "\<not> skips_column exact_z3 (matrix_of 1 1 (\<lambda>_ _. z_int 1)) (matrix_of 1 1 (\<lambda>_ _. z_int 3))"
  proof -
    have "m_cols (matrix_of 1 1 (\<lambda>_ _. z_int 1)) = 1" by (simp add: matrix_of_def)
    then show ?thesis using exact_solution(2,3) by (simp only: skips_column_def aug) simp
  qed
  then show "\<not> skips_linear exact_z3 three_case [exact_n]"
    by (simp add: skips_linear_def exact_normal_forms exact_equations exact_solution(1) del: entailed_equations.simps)
qed


end
