(* ===== verification/Loop_Execution.thy ===== *)
theory Loop_Execution
  imports Control_Instructions
begin

text \<open>
  The executor of one iteration of a loop (lib/LoopSummarizer.cpp, the class \<open>LoopExecution\<close> and the
  static functions before it), which the path accelerator and the loop summarizer share: the symbolic
  state at the header, one step of it, and the queue of the states that have not arrived at a latch or
  an exit yet.
\<close>

section \<open>Conditions of a loaded value\<close>

fun expression_size :: "z3expr \<Rightarrow> nat" where
  "expression_size (App f es) = 1 + sum_list (map expression_size es)"
| "expression_size (Quant q xs b) = 1"

definition boolean_connective :: "z3op \<Rightarrow> bool" where
  "boolean_connective f \<longleftrightarrow> f \<in> {OAnd, OOr, ONot, OImplies, OIte}"

fun collect_boolean_atoms :: "z3expr \<Rightarrow> z3expr list \<Rightarrow> z3expr list" where
  "collect_boolean_atoms (Quant q xs b) found = found"
| "collect_boolean_atoms (App f es) found =
     fold collect_boolean_atoms es
       (if is_bool (App f es) \<and> \<not> boolean_connective f \<and> App f es \<notin> set found
        then found @ [App f es] else found)"

text \<open>The first atom that the assumptions make equal or opposite to the condition.\<close>

fun find_equal_atom :: "z3_api \<Rightarrow> z3expr \<Rightarrow> z3expr \<Rightarrow> z3expr list \<Rightarrow> z3expr" where
  "find_equal_atom z assumptions e [] = e"
| "find_equal_atom z assumptions e (a # as) =
     (if z_check z [assumptions, z_ne e a] = Unsat then a
      else if z_check z [assumptions, z_eq e a] = Unsat then z_not a
      else find_equal_atom z assumptions e as)"

text \<open>The atoms are tried by size; the order of atoms of one size is the order of their occurrence.\<close>

definition simplify_boolean_condition :: "z3_api \<Rightarrow> z3expr \<Rightarrow> z3expr \<Rightarrow> z3expr option" where
  "simplify_boolean_condition z e assumptions =
     map_option (\<lambda>simplified. find_equal_atom z assumptions simplified
         (sort_key expression_size (collect_boolean_atoms simplified [])))
       (simplify z e (Some assumptions))"

text \<open>The cases of a loaded value that are possible on the path.\<close>

fun restrict_load ::
    "z3_api \<Rightarrow> z3expr \<Rightarrow> (z3expr \<times> z3expr \<times> z3expr) list \<Rightarrow> (z3expr \<times> z3expr \<times> z3expr) list exec" where
  "restrict_load z path [] = give []"
| "restrict_load z path ((c, e, d) # cs) =
     bind_exec (need NotReturned (simplify_boolean_condition z c path)) (\<lambda>c'.
     bind_exec (restrict_load z path cs) (\<lambda>rest.
       give (if is_feasible z c' (Some path) then (c', e, d) # rest else rest)))"

definition restricted_value :: "z3_api \<Rightarrow> z3expr \<Rightarrow> expression \<Rightarrow> expression exec" where
  "restricted_value z path v =
     bind_exec (restrict_load z path (zip (conditions v) (zip (expressions v) (definitions v)))) (\<lambda>cs.
       if cs = [] then fail AssertionFailed
       else give \<lparr>conditions = map fst cs, expressions = map (fst \<circ> snd) cs, definitions = map (snd \<circ> snd) cs\<rparr>)"

section \<open>The environment of the executor of a loop\<close>

text \<open>
  Besides the environment of the executor, the depth of its fuel and the fuel of the queue, what the
  LLVM library computes: whether a load may read in a later iteration what a store of the loop wrote
  (a flow dependence that is not loop independent), and the blocks after the exits of a loop.
\<close>

record loop_env =
  le_exec :: exec_env
  le_depth :: nat
  le_fuel :: nat
  carried_flow :: "value_id \<Rightarrow> value_id \<Rightarrow> bool"
  exit_blocks :: "loop_id \<Rightarrow> block_id list"

abbreviation le_z3 :: "loop_env \<Rightarrow> z3_api" where "le_z3 L \<equiv> env_z3 (le_exec L)"
abbreviation le_module :: "loop_env \<Rightarrow> llvm_module" where "le_module L \<equiv> env_module (le_exec L)"

section \<open>The state at the header\<close>

definition loop_instructions :: "llvm_module \<Rightarrow> loop_id \<Rightarrow> value_id list" where
  "loop_instructions m loop = concat (map (insts_of m) (loop_blocks m loop))"

definition get_all_stores :: "llvm_module \<Rightarrow> loop_id \<Rightarrow> value_id list" where
  "get_all_stores m loop =
     filter (\<lambda>i. case kind_of m i of Inst (Store _ _) \<Rightarrow> True | _ \<Rightarrow> False) (loop_instructions m loop)"

text \<open>A call without an exact definition; the debug intrinsics are such calls.\<close>

definition is_unknown_call :: "llvm_module \<Rightarrow> value_id \<Rightarrow> bool" where
  "is_unknown_call m i =
     (case kind_of m i of
        Inst (Call f _) \<Rightarrow> (case f of None \<Rightarrow> True | Some g \<Rightarrow> \<not> exact_definition m g)
      | _ \<Rightarrow> is_dbg m i)"

definition get_unknown_calls :: "llvm_module \<Rightarrow> loop_id \<Rightarrow> value_id list" where
  "get_unknown_calls m loop = filter (is_unknown_call m) (loop_instructions m loop)"

definition call_counter :: "llvm_module \<Rightarrow> value_id \<Rightarrow> z3expr" where
  "call_counter m i = z_int_const (get_z3_name (name_of m i) @ ''_call_count'')"

fun get_base_value :: "nat \<Rightarrow> llvm_module \<Rightarrow> value_id \<Rightarrow> value_id option" where
  "get_base_value 0 m v = None"
| "get_base_value (Suc n) m v =
     (if v \<in> set (map fst (module_globals m)) then Some v
      else case kind_of m v of
          Inst (Call (Some f) _) \<Rightarrow> if func_name m f = ''malloc'' then Some v else None
        | Inst (Alloca _ _) \<Rightarrow> Some v
        | Inst (Gep p _) \<Rightarrow> get_base_value n m p
        | _ \<Rightarrow> None)"

text \<open>Every stored object has the symbol of its own name as its value.\<close>

definition symbolize_store :: "z3_api \<Rightarrow> llvm_module \<Rightarrow> value_id \<Rightarrow> exec_state \<Rightarrow> exec_state exec" where
  "symbolize_store z m i st =
     (case kind_of m i of
        Inst (Store ptr _) \<Rightarrow>
          bind_exec (need AssertionFailed (get_base_value (Suc (length (all_values m))) m ptr)) (\<lambda>base.
          bind_exec (pointer_of base st) (\<lambda>addr.
            update_object z addr (\<lambda>obj. Some (write_object (expression_of z (get_signature obj)) obj)) st))
      | _ \<Rightarrow> give st)"

definition symbolize_stores :: "z3_api \<Rightarrow> llvm_module \<Rightarrow> loop_id \<Rightarrow> exec_state \<Rightarrow> exec_state exec" where
  "symbolize_stores z m loop = fold_exec (symbolize_store z m) (get_all_stores m loop)"

definition put_header_phis :: "z3_api \<Rightarrow> llvm_module \<Rightarrow> loop_id \<Rightarrow> exec_state \<Rightarrow> exec_state exec" where
  "put_header_phis z m loop =
     fold_exec (\<lambda>phi. store_temp m phi (expression_of z (phi_symbol m phi))) (phis_of m (loop_header m loop))"

definition counters_of :: "exec_state \<Rightarrow> value_id \<rightharpoonup> z3expr" where
  "counters_of st = (case class_of st of LoopState _ _ k \<Rightarrow> k | _ \<Rightarrow> Map.empty)"

definition set_counter :: "value_id \<Rightarrow> z3expr \<Rightarrow> exec_state \<Rightarrow> exec_state" where
  "set_counter i t st =
     st\<lparr>class_of := (case class_of st of LoopState c l k \<Rightarrow> LoopState c l (k(i \<mapsto> t)) | c \<Rightarrow> c)\<rparr>"

definition build_loop_state :: "loop_env \<Rightarrow> loop_id \<Rightarrow> exec_state \<Rightarrow> exec_state exec" where
  "build_loop_state L loop parent =
     (let z = le_z3 L; m = le_module L; true_expr = expression_of z z_true
      in bind_exec (need AssertionFailed (first_non_phi_or_dbg m (loop_header m loop))) (\<lambda>first.
         bind_exec (put_header_phis z m loop
             ((new_state z (Some first) None (copy_memory (mem parent)) true_expr [])
                \<lparr>class_of := LoopState true_expr (Some loop) Map.empty\<rparr>)) (\<lambda>st1.
         bind_exec (symbolize_stores z m loop st1) (\<lambda>st2.
           give (fold (\<lambda>i. set_counter i (call_counter m i)) (get_unknown_calls m loop) st2)))))"

section \<open>One step\<close>

text \<open>
  An unknown call in the loop has the value of a function of its counter.  The step copies the state,
  and a copied state has no counters.
\<close>

definition unknown_function :: "llvm_module \<Rightarrow> value_id \<Rightarrow> z3op" where
  "unknown_function m i =
     OUninterp (''ari_'' @ name_of m i @ ''_unknown'') (if ty_of m i = IntTy 1 then BoolSort else IntSort)"

definition step_unknown_call :: "z3_api \<Rightarrow> llvm_module \<Rightarrow> value_id \<Rightarrow> exec_state \<Rightarrow> exec_state exec" where
  "step_unknown_call z m i st =
     (let st1 = copy_loop_state st;
          counter = (case counters_of st1 i of Some c \<Rightarrow> c | None \<Rightarrow> call_counter m i);
          result = expression_of z (App (unknown_function m i) [counter])
      in bind_exec (store_temp m i result (set_counter i (z_add counter (z_int 1)) st1)) (\<lambda>st2.
         bind_exec (constrain_nondet_input z m i result st2) (\<lambda>st3.
           give (step_pc m None st3))))"

text \<open>The address behind a chain of pointers, here without its own errors: a missing object is a crash.\<close>

fun parse_loop_ptr :: "nat \<Rightarrow> z3_api \<Rightarrow> memory_object option \<Rightarrow> exec_state \<Rightarrow> mem_address exec" where
  "parse_loop_ptr 0 z ptr st = fail NotReturned"
| "parse_loop_ptr (Suc n) z ptr st =
     bind_exec (need AssertionFailed (Option.bind ptr get_ptr_value)) (\<lambda>pointed_addr.
     bind_exec (need AssertionFailed (object_at z pointed_addr (mem st))) (\<lambda>pointed.
       if \<not> is_pointer pointed then give pointed_addr
       else bind_exec (parse_loop_ptr n z (Some pointed) st) (\<lambda>addr.
              give (addr\<lparr>addr_offset := addr_offset addr @ addr_offset pointed_addr\<rparr>))))"

text \<open>A load that no store of the loop reaches in a later iteration reads the state before the loop.\<close>

definition step_outer_load ::
    "z3_api \<Rightarrow> llvm_module \<Rightarrow> exec_state \<Rightarrow> value_id \<Rightarrow> value_id \<Rightarrow> exec_state \<Rightarrow> exec_state exec" where
  "step_outer_load z m parent i ptr st =
     (let st1 = copy_loop_state st
      in bind_exec (parse_loop_ptr (pointer_fuel st1) z (get_object ptr (mem st1)) st1) (\<lambda>addr.
         bind_exec (need AssertionFailed (object_at z addr (mem parent))) (\<lambda>pointed.
         bind_exec (need AssertionFailed (read_at z (addr_offset addr) pointed)) (\<lambda>v.
         bind_exec (term_of z (path_condition st1)) (\<lambda>path.
         bind_exec (restricted_value z path v) (\<lambda>v'.
         bind_exec (store_temp m i v' st1) (\<lambda>st2.
           give (step_pc m None st2))))))))"

definition loop_step :: "loop_env \<Rightarrow> value_id list \<Rightarrow> exec_state \<Rightarrow> exec_state \<Rightarrow> exec_state list exec" where
  "loop_step L stores parent st =
     (let z = le_z3 L; m = le_module L;
          ordinary = bind_exec (execute_in_loop (le_exec L) (le_depth L) st) (\<lambda>sts. give (map copy_loop_state sts))
      in case pc st of
           None \<Rightarrow> fail AssertionFailed
         | Some i \<Rightarrow>
             if is_unknown_call m i then bind_exec (step_unknown_call z m i st) (\<lambda>st'. give [st'])
             else case kind_of m i of
                 Inst (Load ptr) \<Rightarrow>
                   if list_all (\<lambda>s. \<not> carried_flow L s i) stores
                   then bind_exec (step_outer_load z m parent i ptr st) (\<lambda>st'. give [st'])
                   else ordinary
               | _ \<Rightarrow> ordinary)"

definition test_loop_state :: "z3_api \<Rightarrow> exec_state \<Rightarrow> test_result exec" where
  "test_loop_state z st =
     bind_exec (term_of z (path_condition st)) (\<lambda>c.
       give (case z_check z [c] of Unsat \<Rightarrow> UNFEASIBLE | Sat \<Rightarrow> FEASIBLE | Unknown \<Rightarrow> TESTUNKNOWN))"

text \<open>The header alone, run from a state of the loop; every instruction must have one successor.\<close>

fun run_loop_header ::
    "loop_env \<Rightarrow> loop_id \<Rightarrow> value_id list \<Rightarrow> exec_state \<Rightarrow> nat \<Rightarrow> exec_state \<Rightarrow> exec_state exec" where
  "run_loop_header L loop stores parent 0 st = fail NotReturned"
| "run_loop_header L loop stores parent (Suc n) st =
     (if pc st = terminator_of (le_module L) (loop_header (le_module L) loop) then give (copy_loop_state st)
      else bind_exec (loop_step L stores parent st) (\<lambda>sts.
             case sts of [st'] \<Rightarrow> run_loop_header L loop stores parent n st' | _ \<Rightarrow> fail AssertionFailed))"

section \<open>The queue of states\<close>

definition back_edge_taken :: "llvm_module \<Rightarrow> loop_id \<Rightarrow> exec_state \<Rightarrow> bool" where
  "back_edge_taken m loop st =
     (case (prev_pc st, pc st) of
        (Some p, Some i) \<Rightarrow> block_of m i = loop_header m loop \<and> loop_latch m loop = Some (block_of m p)
      | _ \<Rightarrow> False)"

definition is_final_state :: "llvm_module \<Rightarrow> loop_id \<Rightarrow> exec_state \<Rightarrow> bool" where
  "is_final_state m loop st =
     (case pc st of
        None \<Rightarrow> False
      | Some i \<Rightarrow> block_of m i \<in> set (loop_latches m loop) \<and> terminator_of m (block_of m i) = Some i)"

definition is_exit_state :: "loop_env \<Rightarrow> loop_id \<Rightarrow> exec_state \<Rightarrow> bool" where
  "is_exit_state L loop st =
     (case pc st of None \<Rightarrow> False | Some i \<Rightarrow> block_of (le_module L) i \<in> set (exit_blocks L loop))"

record loop_run =
  lr_queue :: "exec_state list"
  lr_final :: "exec_state list"
  lr_exit :: "exec_state list"
  lr_conditions :: "expression list"
  lr_unknown :: bool

definition initial_loop_run :: "exec_state \<Rightarrow> loop_run" where
  "initial_loop_run st =
     \<lparr>lr_queue = [st], lr_final = [], lr_exit = [], lr_conditions = [], lr_unknown = False\<rparr>"

text \<open>The destructor of the executor asserts an empty queue, also when an exception leaves it.\<close>

definition in_destructor :: "exec_state list \<Rightarrow> 'a exec \<Rightarrow> 'a exec" where
  "in_destructor pending f = (\<lambda>s. case f s of
     Inl e \<Rightarrow> Inl (if pending = [] \<or> e = NotReturned then e else AssertionFailed)
   | Inr r \<Rightarrow> Inr r)"

definition expand_loop_state :: "loop_env \<Rightarrow> value_id list \<Rightarrow> exec_state \<Rightarrow> exec_state \<Rightarrow> loop_run \<Rightarrow> loop_run exec" where
  "expand_loop_state L stores parent st r =
     in_destructor (lr_queue r) (bind_exec (loop_step L stores parent st) (\<lambda>sts.
       give (r\<lparr>lr_queue := lr_queue r @ sts\<rparr>)))"

text \<open>
  The state at the front of the queue.  A state that verifies a condition is put back, as a running
  state, and is also expanded.
\<close>

definition visit_loop_state ::
    "loop_env \<Rightarrow> loop_id \<Rightarrow> value_id list \<Rightarrow> exec_state \<Rightarrow> exec_state \<Rightarrow> loop_run \<Rightarrow> loop_run exec" where
  "visit_loop_state L loop stores parent st r =
     (let m = le_module L
      in if back_edge_taken m loop st then give r
         else if is_final_state m loop st then give (r\<lparr>lr_final := lr_final r @ [st]\<rparr>)
         else if is_exit_state L loop st then give (r\<lparr>lr_exit := lr_exit r @ [st]\<rparr>)
         else case status_of st of
             TERMINATED \<Rightarrow> give (r\<lparr>lr_final := lr_final r @ [st]\<rparr>)
           | TESTING \<Rightarrow>
               bind_exec (in_destructor (lr_queue r) (test_loop_state (le_z3 L) st)) (\<lambda>answer.
                 give (case answer of
                     FEASIBLE \<Rightarrow> r\<lparr>lr_queue := lr_queue r @ [st\<lparr>status_of := RUNNING\<rparr>]\<rparr>
                   | TESTUNKNOWN \<Rightarrow> r\<lparr>lr_unknown := True\<rparr>
                   | UNFEASIBLE \<Rightarrow> r))
           | VERIFYING \<Rightarrow>
               expand_loop_state L stores parent (st\<lparr>status_of := RUNNING\<rparr>)
                 (r\<lparr>lr_conditions := lr_conditions r @ [verification_condition st],
                    lr_queue := lr_queue r @ [st\<lparr>status_of := RUNNING\<rparr>]\<rparr>)
           | _ \<Rightarrow> expand_loop_state L stores parent st r)"

fun run_loop_queue ::
    "loop_env \<Rightarrow> loop_id \<Rightarrow> value_id list \<Rightarrow> exec_state \<Rightarrow> nat \<Rightarrow> loop_run \<Rightarrow> loop_run exec" where
  "run_loop_queue L loop stores parent 0 r = fail NotReturned"
| "run_loop_queue L loop stores parent (Suc n) r =
     (case lr_queue r of
        [] \<Rightarrow> give r
      | st # rest \<Rightarrow> bind_exec (visit_loop_state L loop stores parent st (r\<lparr>lr_queue := rest\<rparr>))
                       (run_loop_queue L loop stores parent n))"

text \<open>The executor as its clients use it: the construction and the run.\<close>

definition run_loop_execution :: "loop_env \<Rightarrow> loop_id \<Rightarrow> exec_state \<Rightarrow> loop_run exec" where
  "run_loop_execution L loop parent =
     bind_exec (build_loop_state L loop parent) (\<lambda>st.
       run_loop_queue L loop (get_all_stores (le_module L) loop) parent (le_fuel L) (initial_loop_run st))"

end
