(* ===== verification/Path_Accelerator.thy ===== *)
theory Path_Accelerator
  imports Loop_Execution Recurrence_Solver
begin

text \<open>
  The acceleration of a candidate \<open>prefix (word)*\<close> of the paths of a loop (lib/PathAccelerator.cpp):
  the guarded transition of every path of one iteration, their composition along the word, a closed form
  for the repetition of the composite, its certification by the solver, and the jump to the state after
  the word has been repeated until its guard fails, or any number of times when a nondeterministic choice
  controls the loop.
\<close>

section \<open>The environment of the accelerator\<close>

text \<open>
  Besides the environment of the executor of loops: the recurrence solver, what the LLVM library says of
  values the executor does not know (a freeze instruction, the operands of other instructions, constants
  that are not integers), of functions and of loops, and whether the quantifier elimination ends in time.
\<close>

record accel_env =
  pa_loop :: loop_env
  pa_rec :: rec_env
  pa_freeze :: "value_id \<Rightarrow> bool"
  pa_other_operands :: "value_id \<Rightarrow> value_id list"
  pa_other_constant :: "value_id \<Rightarrow> bool"
  pa_declaration :: "function_id \<Rightarrow> bool"
  pa_exiting :: "loop_id \<Rightarrow> block_id list"
  pa_qe_in_time :: "nat \<Rightarrow> z3expr \<Rightarrow> bool"

abbreviation pa_exec :: "accel_env \<Rightarrow> exec_env" where "pa_exec A \<equiv> le_exec (pa_loop A)"
abbreviation pa_z3 :: "accel_env \<Rightarrow> z3_api" where "pa_z3 A \<equiv> env_z3 (pa_exec A)"
abbreviation pa_module :: "accel_env \<Rightarrow> llvm_module" where "pa_module A \<equiv> env_module (pa_exec A)"

section \<open>Operands and uses\<close>

text \<open>The values an instruction uses; blocks, callees and metadata are not values here.\<close>

fun instruction_operands :: "instruction \<Rightarrow> value_id list option" where
  "instruction_operands (Binary op fl a b) = Some [a, b]"
| "instruction_operands (ICmp p a b) = Some [a, b]"
| "instruction_operands (Call f actuals) = Some (map fst actuals)"
| "instruction_operands (CondBr c t f) = Some [c]"
| "instruction_operands (Br t) = Some []"
| "instruction_operands (Ret v) = Some (case v of None \<Rightarrow> [] | Some x \<Rightarrow> [x])"
| "instruction_operands (ZExt v) = Some [v]"
| "instruction_operands (SExt v) = Some [v]"
| "instruction_operands (Trunc v) = Some [v]"
| "instruction_operands (Phi inc) = Some (map snd inc)"
| "instruction_operands (Select c a b) = Some [c, a, b]"
| "instruction_operands (Load p) = Some [p]"
| "instruction_operands (Store p v) = Some [v, p]"
| "instruction_operands (Gep p ixs) = Some (p # ixs)"
| "instruction_operands (DbgDeclare v) = Some []"
| "instruction_operands (DbgValue v w) = Some []"
| "instruction_operands DbgOther = Some []"
| "instruction_operands (Alloca a n) = None"
| "instruction_operands OtherInstruction = None"

definition operands_of :: "accel_env \<Rightarrow> value_id \<Rightarrow> value_id list" where
  "operands_of A i =
     (case kind_of (pa_module A) i of
        Inst inst \<Rightarrow> (case instruction_operands inst of Some vs \<Rightarrow> vs | None \<Rightarrow> pa_other_operands A i)
      | _ \<Rightarrow> [])"

text \<open>The uses of a value are in the instructions of its function.\<close>

definition use_count :: "accel_env \<Rightarrow> function_id \<Rightarrow> value_id \<Rightarrow> nat" where
  "use_count A f v = sum_list (map (\<lambda>i. count_list (operands_of A i) v) (function_instructions (pa_module A) f))"

definition has_one_use :: "accel_env \<Rightarrow> value_id \<Rightarrow> bool" where
  "has_one_use A v = (use_count A (function_of (pa_module A) (block_of (pa_module A) v)) v = 1)"

section \<open>A nondeterministic choice that controls the loop\<close>

record nondet_control =
  nc_call :: value_id
  nc_exit :: block_id
  nc_continue :: bool
  nc_function :: string

text \<open>The choice is the condition of the header or the operand of its negation.\<close>

definition control_oracle :: "accel_env \<Rightarrow> block_id \<Rightarrow> value_id \<Rightarrow> (value_id \<times> value_id option) option" where
  "control_oracle A header cond =
     (let m = pa_module A
      in case kind_of m cond of
           Inst (Binary op fl a b) \<Rightarrow>
             (if op \<noteq> OpXor \<or> ty_of m cond \<noteq> IntTy 1 \<or> \<not> has_one_use A cond \<or> block_of m cond \<noteq> header
              then None
              else case (kind_of m b, kind_of m a) of
                  (ConstInt s u, _) \<Rightarrow> if u = 1 then Some (a, Some cond) else None
                | (_, ConstInt s u) \<Rightarrow> if u = 1 then Some (b, Some cond) else None
                | _ \<Rightarrow> None)
         | _ \<Rightarrow> Some (cond, None))"

definition is_control_call :: "accel_env \<Rightarrow> block_id \<Rightarrow> value_id \<Rightarrow> bool" where
  "is_control_call A header i =
     (let m = pa_module A
      in case kind_of m i of
           Inst (Call (Some f) actuals) \<Rightarrow>
             block_of m i = header \<and> ty_of m i = IntTy 1 \<and> actuals = [] \<and> has_one_use A i \<and>
             pa_declaration A f \<and> func_name m f = ''__VERIFIER_nondet_bool''
         | _ \<Rightarrow> False)"

definition find_nondet_loop_control :: "accel_env \<Rightarrow> loop_id \<Rightarrow> nondet_control option" where
  "find_nondet_loop_control A loop =
     (let m = pa_module A; header = loop_header m loop
      in case terminator_of m header of
           None \<Rightarrow> None
         | Some branch \<Rightarrow>
             (case kind_of m branch of
                Inst (CondBr cond t f) \<Rightarrow>
                  (case control_oracle A header cond of
                     None \<Rightarrow> None
                   | Some (call, negation) \<Rightarrow>
                       if \<not> is_control_call A header call \<or>
                          \<not> list_all (\<lambda>i. i = call \<or> i = branch \<or> negation = Some i \<or> is_phi m i \<or> is_dbg m i)
                              (insts_of m header) \<or>
                          loop_contains m loop t = loop_contains m loop f \<or> pa_exiting A loop \<noteq> [header]
                       then None
                       else Some \<lparr>nc_call = call, nc_exit = (if loop_contains m loop t then f else t),
                              nc_continue = (loop_contains m loop t \<noteq> (negation \<noteq> None)),
                              nc_function = ''ari_'' @ name_of m call @ ''_unknown''\<rparr>)
              | _ \<Rightarrow> None))"

definition has_nondeterministic_header_control :: "accel_env \<Rightarrow> loop_id \<Rightarrow> bool" where
  "has_nondeterministic_header_control A loop = (find_nondet_loop_control A loop \<noteq> None)"

fun control_applications :: "string \<Rightarrow> z3expr \<Rightarrow> z3expr list" where
  "control_applications name (Quant q xs b) = []"
| "control_applications name (App f es) =
     (case f of
        OUninterp g s \<Rightarrow> if g = name then [App f es] else concat (map (control_applications name) es)
      | _ \<Rightarrow> concat (map (control_applications name) es))"

definition bool_val :: "bool \<Rightarrow> z3expr" where
  "bool_val b = (if b then z_true else z_false)"

text \<open>The guard with the choice to continue; a guard without the choice cannot be projected.\<close>

definition project_nondet_control :: "z3_api \<Rightarrow> z3expr \<Rightarrow> nondet_control \<Rightarrow> z3expr option" where
  "project_nondet_control z guard control =
     (case control_applications (nc_function control) guard of
        [] \<Rightarrow> None
      | apps \<Rightarrow> Some (z_simplify z (substitute (map (\<lambda>a. (a, bool_val (nc_continue control))) apps) guard)))"

section \<open>The profile of loops\<close>

definition phi_reason :: "llvm_module \<Rightarrow> value_id \<Rightarrow> string option" where
  "phi_reason m phi =
     (if \<not> is_int_ty m phi \<or> ty_of m phi = IntTy 1 then Some ''non-integer scalar phi'' else None)"

definition instruction_reason :: "accel_env \<Rightarrow> nondet_control option \<Rightarrow> value_id \<Rightarrow> string option" where
  "instruction_reason A control i =
     (let m = pa_module A
      in if pa_freeze A i then Some ''freeze''
         else if list_ex (\<lambda>v. kind_of m v = Undef) (operands_of A i) then Some ''undefined operand''
         else case kind_of m i of
             Inst (Store p v) \<Rightarrow> Some ''store''
           | Inst (Load p) \<Rightarrow> Some ''load''
           | Inst (Call f actuals) \<Rightarrow>
               (case control of
                  None \<Rightarrow> Some ''call''
                | Some c \<Rightarrow> if i = nc_call c then None else Some ''call'')
           | _ \<Rightarrow> if is_dbg m i then Some ''call'' else None)"

definition unsupported_profile_reason :: "accel_env \<Rightarrow> loop_id \<Rightarrow> nondet_control option \<Rightarrow> string option" where
  "unsupported_profile_reason A loop control =
     (let m = pa_module A
      in if sub_loops m loop \<noteq> [] then Some ''nested loop''
         else first_some (map (phi_reason m) (phis_of m (loop_header m loop)) @
                map (instruction_reason A control) (loop_instructions m loop)))"

section \<open>The transitions of one iteration\<close>

record scalar_transition =
  tr_guard :: z3expr
  tr_updates :: "z3expr list"

type_synonym transitions = "(path_symbol \<times> scalar_transition) list"

definition path_symbol_for_final_state :: "llvm_module \<Rightarrow> loop_id \<Rightarrow> exec_state \<Rightarrow> path_symbol exec" where
  "path_symbol_for_final_state m loop st =
     with_session (intern_loop_path loop
       (if path_decisions st = [] then [(block_address (loop_header m loop), 0)] else path_decisions st))"

text \<open>The values of the header nodes at the latch and the condition that they are defined; nothing when a
  node has no integer type or no value there.\<close>

fun phi_updates ::
    "z3_api \<Rightarrow> llvm_module \<Rightarrow> exec_state \<Rightarrow> block_id \<Rightarrow> value_id list \<Rightarrow> z3expr list \<Rightarrow> z3expr \<Rightarrow>
     (z3expr list \<times> z3expr) option exec" where
  "phi_updates z m st latch [] updates d = give (Some (updates, d))"
| "phi_updates z m st latch (phi # phis) updates d =
     (case (is_int_ty m phi, incoming_value m phi latch) of
        (True, Some v) \<Rightarrow>
          bind_exec (evaluate z m st v True) (\<lambda>update.
          bind_exec (term_of z update) (\<lambda>t.
          bind_exec (need AssertionFailed (defined_term z update)) (\<lambda>dt.
            phi_updates z m st latch phis (updates @ [t]) (z_and d dt))))
      | _ \<Rightarrow> give None)"

text \<open>The transition of a state at a latch; a path word must have one transition.\<close>

definition add_transition ::
    "accel_env \<Rightarrow> loop_id \<Rightarrow> nondet_control option \<Rightarrow> exec_state \<Rightarrow> transitions \<Rightarrow> transitions option exec" where
  "add_transition A loop control st ts =
     (let z = pa_z3 A; m = pa_module A
      in bind_exec (need AssertionFailed (map_option (block_of m) (pc st))) (\<lambda>latch.
         if latch \<notin> set (loop_latches m loop) then give None
         else bind_exec (phi_updates z m st latch (phis_of m (loop_header m loop)) [] z_true) (\<lambda>result.
           case result of
             None \<Rightarrow> give None
           | Some (updates, d) \<Rightarrow>
               bind_exec (path_symbol_for_final_state m loop st) (\<lambda>symbol.
               if map_of ts symbol \<noteq> None then give None
               else bind_exec (term_of z (path_condition st)) (\<lambda>path.
                 give (case (case control of
                         None \<Rightarrow> Some (z_and path d)
                       | Some c \<Rightarrow> project_nondet_control z (z_and path d) c) of
                     None \<Rightarrow> None
                   | Some guard \<Rightarrow> Some (insort_key fst (symbol, \<lparr>tr_guard = guard, tr_updates = updates\<rparr>) ts)))))))"

fun add_transitions ::
    "accel_env \<Rightarrow> loop_id \<Rightarrow> nondet_control option \<Rightarrow> exec_state list \<Rightarrow> transitions \<Rightarrow> transitions option exec"
  where
  "add_transitions A loop control [] ts = give (Some ts)"
| "add_transitions A loop control (st # sts) ts =
     bind_exec (add_transition A loop control st ts) (\<lambda>result.
       case result of None \<Rightarrow> give None | Some ts' \<Rightarrow> add_transitions A loop control sts ts')"

definition enumerate_transitions ::
    "accel_env \<Rightarrow> loop_id \<Rightarrow> exec_state \<Rightarrow> nondet_control option \<Rightarrow> transitions option exec" where
  "enumerate_transitions A loop st control =
     bind_exec (run_loop_execution (pa_loop A) loop st) (\<lambda>r.
       if lr_unknown r then give None else add_transitions A loop control (lr_final r) [])"


section \<open>Formulas\<close>

text \<open>Whether a constant occurs; a bound name is not the constant of that name.\<close>

fun depends_on_any :: "z3expr list \<Rightarrow> z3expr \<Rightarrow> bool" where
  "depends_on_any vars (Quant q xs b) = depends_on_any (filter (\<lambda>v. v \<notin> set (map z_int_const xs)) vars) b"
| "depends_on_any vars (App f es) = (App f es \<in> set vars \<or> list_ex (depends_on_any vars) es)"

definition decide_unsat :: "z3_api \<Rightarrow> z3expr \<Rightarrow> check_result" where
  "decide_unsat z f = z_check z [f]"

definition eliminate_quantifiers :: "accel_env \<Rightarrow> nat \<Rightarrow> z3expr \<Rightarrow> z3expr option" where
  "eliminate_quantifiers A timeout f =
     (if pa_qe_in_time A timeout f
      then Some (z_simplify (pa_z3 A) (foldl z_or z_false (z_qe (pa_z3 A) f))) else None)"

text \<open>The terms a conjunction equates with the variable.\<close>

fun collect_affine_bindings :: "z3expr \<Rightarrow> z3expr \<Rightarrow> z3expr list" where
  "collect_affine_bindings (Quant q xs b) var = []"
| "collect_affine_bindings (App f es) var =
     (if f = OAnd then concat (map (\<lambda>e. collect_affine_bindings e var) es)
      else case (f, es) of
          (OEq, [lhs, rhs]) \<Rightarrow>
            if lhs = var \<and> \<not> depends_on_any [var] rhs then [rhs]
            else if rhs = var \<and> \<not> depends_on_any [var] lhs then [lhs] else []
        | _ \<Rightarrow> [])"

section \<open>The composite of a word\<close>

record composite =
  co_parameters :: "z3expr list"
  co_guard :: z3expr
  co_one_step :: "z3expr list"
  co_closed_forms :: "z3expr list"
  co_index :: z3expr

text \<open>The guards of the transitions along the word, over the state before the word, and the state after it.\<close>

fun compose_word :: "transitions \<Rightarrow> z3expr list \<Rightarrow> path_word \<Rightarrow> z3expr \<times> z3expr list \<Rightarrow> (z3expr \<times> z3expr list) option"
  where
  "compose_word ts ps [] (guard, current) = Some (guard, current)"
| "compose_word ts ps (a # w) (guard, current) =
     (case map_of ts a of
        None \<Rightarrow> None
      | Some t \<Rightarrow>
          if length (tr_updates t) \<noteq> length current then None
          else compose_word ts ps w
                 (z_and guard (substitute (zip ps current) (tr_guard t)),
                  map (substitute (zip ps current)) (tr_updates t)))"

text \<open>The certificate: the closed forms at zero are the parameters, and one step leads from every index
  to the next one.\<close>

definition form_at :: "composite \<Rightarrow> z3expr \<Rightarrow> z3expr \<Rightarrow> z3expr" where
  "form_at c i e = substitute [(co_index c, i)] e"

definition base_failure :: "composite \<Rightarrow> z3expr" where
  "base_failure c =
     foldl z_or z_false (map (\<lambda>(closed, p). z_ne (form_at c (z_int 0) closed) p)
       (zip (co_closed_forms c) (co_parameters c)))"

definition step_failure :: "composite \<Rightarrow> z3expr" where
  "step_failure c =
     (let state_at_n = map (form_at c (co_index c)) (co_closed_forms c)
      in foldl z_or z_false (map (\<lambda>(closed, step).
           z_ne (form_at c (z_add (co_index c) (z_int 1)) closed)
                (substitute (zip (co_parameters c) state_at_n) step))
         (zip (co_closed_forms c) (co_one_step c))))"

definition certify_closed_forms :: "z3_api \<Rightarrow> composite \<Rightarrow> bool" where
  "certify_closed_forms z c \<longleftrightarrow>
     decide_unsat z (base_failure c) = Unsat \<and>
     decide_unsat z (z_and (z_ge (co_index c) (z_int 0)) (step_failure c)) = Unsat"

text \<open>Translations and resets have closed forms of their own; any other component needs the solver.\<close>

fun elementary_forms :: "z3_api \<Rightarrow> z3expr \<Rightarrow> z3expr list \<Rightarrow> (z3expr \<times> z3expr) list \<Rightarrow> z3expr list option" where
  "elementary_forms z n ps [] = Some []"
| "elementary_forms z n ps ((p, t) # rest) =
     (let delta = z_simplify z (z_sub t p)
      in map_option ((#) (if depends_on_any ps delta then z_ite (z_eq n (z_int 0)) p t
                          else z_simplify z (z_add p (z_mul n delta))))
           (if depends_on_any ps delta \<and> depends_on_any ps t then None else elementary_forms z n ps rest))"

section \<open>The recurrence solver\<close>

definition of_rec :: "'a rec_result \<Rightarrow> 'a exec" where
  "of_rec r = (case r of
     Inr x \<Rightarrow> give x | Inl RecAborted \<Rightarrow> fail AssertionFailed | Inl (RecThrown msg) \<Rightarrow> fail RuntimeError)"

definition path_function :: "64 word \<Rightarrow> nat \<Rightarrow> string" where
  "path_function ident i = ''ari_path_f_'' @ nat_to_string (unat ident) @ ''_'' @ nat_to_string i"

definition function_at :: "64 word \<Rightarrow> nat \<Rightarrow> z3expr \<Rightarrow> z3expr" where
  "function_at ident i t = App (OUninterp (path_function ident i) IntSort) [t]"

definition path_recurrence ::
    "z3_api \<Rightarrow> 64 word \<Rightarrow> z3expr \<Rightarrow> z3expr list \<Rightarrow> z3expr list \<Rightarrow> rec_solver rec_result" where
  "path_recurrence z ident n ps current =
     (let is = [0..<length ps];
          at = (\<lambda>t. map (\<lambda>i. function_at ident i t) is);
          equations = fold (\<lambda>(i, t). assign_equation z (function_at ident i (z_add n (z_int 1)))
              (substitute (zip ps (at n)) t)) (zip is current) []
      in bind_rec (add_initial_values z (at (z_int 0)) ps (set_ind_var n empty_rec_solver)) (\<lambda>s.
           set_eqs_cases z [z_true] [equations] s))"

text \<open>An entry of the map of closed forms, which compares its keys by their strings.\<close>

definition find_form :: "z3_api \<Rightarrow> z3expr \<Rightarrow> closed_forms \<Rightarrow> z3expr option" where
  "find_form z k forms = map_option snd (find (\<lambda>(k', v). z_string z k' = z_string z k) forms)"

definition solve_recurrence ::
    "accel_env \<Rightarrow> 64 word \<Rightarrow> z3expr \<Rightarrow> z3expr list \<Rightarrow> z3expr list \<Rightarrow> z3expr list option exec" where
  "solve_recurrence A ident n ps current =
     (let z = pa_z3 A
      in bind_exec (of_rec (path_recurrence z ident n ps current)) (\<lambda>s.
         bind_exec (with_session recurrence_solver_worker) (\<lambda>w.
         bind_exec (of_rec (rec_solve z (pa_rec A) s w)) (\<lambda>(solved, s', w').
         bind_exec (with_session (\<lambda>ss. ((), ss\<lparr>recurrence_worker := Some w'\<rparr>))) (\<lambda>_.
           give (if solved
                 then those (map (\<lambda>i. find_form z (z_int_const (path_function ident i)) (get_res s')) [0..<length ps])
                 else None))))))"

definition path_index :: "64 word \<Rightarrow> z3expr" where
  "path_index ident = z_int_const (''ari_path_n_'' @ nat_to_string (unat ident))"

definition solve_composite ::
    "accel_env \<Rightarrow> loop_id \<Rightarrow> path_word \<Rightarrow> transitions \<Rightarrow> composite option exec" where
  "solve_composite A loop word ts =
     (let z = pa_z3 A; m = pa_module A; ps = map (phi_symbol m) (phis_of m (loop_header m loop))
      in if word = [] \<or> ps = [] then give None
         else case compose_word ts ps word (z_true, ps) of
             None \<Rightarrow> give None
           | Some (guard, current) \<Rightarrow>
               bind_exec (with_session next_path_expression_id) (\<lambda>ident.
               bind_exec (case elementary_forms z (path_index ident) ps (zip ps current) of
                            Some forms \<Rightarrow> give (Some forms)
                          | None \<Rightarrow> solve_recurrence A ident (path_index ident) ps current) (\<lambda>forms_opt.
                 give (case forms_opt of
                     None \<Rightarrow> None
                   | Some forms \<Rightarrow>
                       let c = \<lparr>co_parameters = ps, co_guard = z_simplify z guard, co_one_step = current,
                                co_closed_forms = forms, co_index = path_index ident\<rparr>
                       in if certify_closed_forms z c then Some c else None))))"

section \<open>The state at the header\<close>

text \<open>The values the header nodes are about to take; none when a node has no value for the last block.\<close>

definition current_header_values :: "z3_api \<Rightarrow> llvm_module \<Rightarrow> loop_id \<Rightarrow> exec_state \<Rightarrow> z3expr list exec" where
  "current_header_values z m loop st =
     (let phis = phis_of m (loop_header m loop)
      in if trace st = [] then give []
         else case those (map (\<lambda>phi. incoming_value m phi (last (trace st))) phis) of
             None \<Rightarrow> give []
           | Some vs \<Rightarrow> each (\<lambda>v. bind_exec (evaluate z m st v True) (term_of z)) vs)"

definition put_header_values ::
    "z3_api \<Rightarrow> llvm_module \<Rightarrow> loop_id \<Rightarrow> z3expr list \<Rightarrow> exec_state \<Rightarrow> exec_state exec" where
  "put_header_values z m loop values =
     fold_exec (\<lambda>(phi, t). store_temp m phi (expression_of z t)) (zip (phis_of m (loop_header m loop)) values)"

text \<open>The history continues with the symbolic power of the word.\<close>

definition accelerated_history :: "loop_id \<Rightarrow> path_word \<Rightarrow> z3expr \<Rightarrow> exec_state \<Rightarrow> exec_state" where
  "accelerated_history loop word n st =
     set_history loop ((append_symbolic_power word n (history_of loop st))\<lparr>lp_candidates := []\<rparr>) st"

definition path_count :: "64 word \<Rightarrow> z3expr" where
  "path_count ident = z_int_const (''ari_path_k_'' @ nat_to_string (unat ident))"

definition path_probe :: "64 word \<Rightarrow> z3expr" where
  "path_probe ident = z_int_const (''ari_path_t_'' @ nat_to_string (unat ident))"


section \<open>Any finite number of repetitions\<close>

text \<open>The conjunction of the definedness of the values the header nodes are about to take.\<close>

fun initial_defined ::
    "z3_api \<Rightarrow> llvm_module \<Rightarrow> exec_state \<Rightarrow> value_id list \<Rightarrow> z3expr \<Rightarrow> z3expr exec" where
  "initial_defined z m st [] d = give d"
| "initial_defined z m st (phi # phis) d =
     bind_exec (need AssertionFailed
         (if trace st = [] then None else incoming_value m phi (last (trace st)))) (\<lambda>v.
     bind_exec (evaluate z m st v True) (\<lambda>e.
     bind_exec (need AssertionFailed (defined_term z e)) (\<lambda>dt.
       initial_defined z m st phis (z_and d dt))))"

text \<open>The closed forms over the current values, at an index.\<close>

definition from_current :: "composite \<Rightarrow> z3expr list \<Rightarrow> z3expr list" where
  "from_current c initial = map (substitute (zip (co_parameters c) initial)) (co_closed_forms c)"

definition trajectory :: "z3_api \<Rightarrow> composite \<Rightarrow> z3expr list \<Rightarrow> z3expr \<Rightarrow> z3expr list" where
  "trajectory z c initial t = map (\<lambda>e. z_simplify z (form_at c t e)) (from_current c initial)"

definition other_enabled :: "transitions \<Rightarrow> path_symbol \<Rightarrow> z3expr list \<Rightarrow> z3expr list \<Rightarrow> z3expr" where
  "other_enabled ts a ps values =
     foldl z_or z_false (map (\<lambda>(b, t). substitute (zip ps values) (tr_guard t)) (filter (\<lambda>(b, t). b \<noteq> a) ts))"

definition before_count :: "z3expr \<Rightarrow> z3expr \<Rightarrow> z3expr" where
  "before_count probe count = z_and (z_ge probe (z_int 0)) (z_lt probe count)"

text \<open>Every iteration before the count is guarded.\<close>

definition iteration_constraints :: "composite \<Rightarrow> z3expr list \<Rightarrow> z3expr \<Rightarrow> z3expr \<Rightarrow> z3expr" where
  "iteration_constraints c at_probe probe count =
     z_and (z_ge count (z_int 0))
       (z_forall [probe] (z_implies (before_count probe count)
          (substitute (zip (co_parameters c) at_probe) (co_guard c))))"

text \<open>The values of the choice: to continue before the count, then to stop.\<close>

definition choice_sequence :: "nondet_control \<Rightarrow> z3expr \<Rightarrow> z3expr \<Rightarrow> z3expr" where
  "choice_sequence control probe count =
     z_ite (z_lt probe count) (bool_val (nc_continue control)) (bool_val (\<not> nc_continue control))"

definition arbitrary_jump ::
    "accel_env \<Rightarrow> loop_id \<Rightarrow> exec_state \<Rightarrow> path_word \<Rightarrow> nondet_control \<Rightarrow> z3expr \<Rightarrow> z3expr \<Rightarrow> z3expr list \<Rightarrow> z3expr \<Rightarrow>
     exec_state exec" where
  "arbitrary_jump A loop st word control probe count values iterations =
     (let z = pa_z3 A; m = pa_module A
      in bind_exec (put_header_values z m loop values (copy_state st)) (\<lambda>st1.
         bind_exec (extend_condition z m (expression_of z iterations) st1) (\<lambda>st2.
         bind_exec (store_temp m (nc_call control) (expression_of z (bool_val (\<not> nc_continue control)))
             ((accelerated_history loop word count st2)\<lparr>nondet_calls := nondet_calls st2 @
                [nondet_sequence (nc_call control) (const_name probe, choice_sequence control probe count)
                   (z_add count (z_int 1))]\<rparr>)) (\<lambda>st3.
         bind_exec (block_start m (nc_exit control)) (\<lambda>next.
           give (step_pc m (Some next) (st3\<lparr>trace := trace st3 @ [loop_header m loop]\<rparr>)))))))"

definition accelerate_arbitrary_finite ::
    "accel_env \<Rightarrow> loop_id \<Rightarrow> exec_state \<Rightarrow> path_word \<Rightarrow> transitions \<Rightarrow> composite \<Rightarrow> z3expr list \<Rightarrow> nondet_control \<Rightarrow>
     acceleration option exec" where
  "accelerate_arbitrary_finite A loop st word ts c initial control =
     (let z = pa_z3 A; m = pa_module A
      in if length word \<noteq> 1 then give None
         else bind_exec (initial_defined z m st (phis_of m (loop_header m loop)) z_true) (\<lambda>d.
         bind_exec (term_of z (path_condition st)) (\<lambda>path.
           if decide_unsat z (z_and path (z_not d)) \<noteq> Unsat then give None
           else bind_exec (with_session next_path_expression_id) (\<lambda>ident.
             let count = path_count ident; probe = path_probe ident;
                 at_probe = trajectory z c initial probe;
                 iterations = iteration_constraints c at_probe probe count
             in if decide_unsat z (z_and (z_and path (z_ge probe (z_int 0)))
                     (other_enabled ts (hd word) (co_parameters c) at_probe)) \<noteq> Unsat
                then give None
                else bind_exec (arbitrary_jump A loop st word control probe count
                         (trajectory z c initial count) iterations) (\<lambda>jump.
                     bind_exec (with_session (\<lambda>s. ((), note_path_acceleration s))) (\<lambda>_.
                       give (Some \<lparr>acc_jump = jump, acc_covered = z_true\<rparr>)))))))"

section \<open>The first repetition whose guard fails\<close>

definition guard_at :: "composite \<Rightarrow> z3expr list \<Rightarrow> z3expr \<Rightarrow> z3expr" where
  "guard_at c initial t =
     form_at c t (substitute (zip (co_parameters c) (from_current c initial)) (co_guard c))"

definition first_break :: "composite \<Rightarrow> z3expr list \<Rightarrow> z3expr \<Rightarrow> z3expr \<Rightarrow> z3expr" where
  "first_break c initial probe count =
     z_and (z_and (z_ge count (z_int 1))
         (z_forall [probe] (z_implies (before_count probe count) (guard_at c initial probe))))
       (z_not (guard_at c initial count))"

text \<open>A term that the count provably equals, if the quantifier elimination shows one.\<close>

definition affine_count :: "accel_env \<Rightarrow> z3expr \<Rightarrow> z3expr \<Rightarrow> z3expr \<Rightarrow> z3expr option" where
  "affine_count A path relation count =
     (case eliminate_quantifiers A 2000 relation of
        None \<Rightarrow> None
      | Some reduced \<Rightarrow>
          map_option (z_simplify (pa_z3 A)) (find (\<lambda>t.
              decide_unsat (pa_z3 A) (z_and (z_and path reduced) (z_ne count t)) = Unsat)
            (collect_affine_bindings reduced count)))"

definition break_jump ::
    "accel_env \<Rightarrow> loop_id \<Rightarrow> exec_state \<Rightarrow> path_word \<Rightarrow> z3expr \<Rightarrow> z3expr list \<Rightarrow> z3expr \<Rightarrow> exec_state exec" where
  "break_jump A loop st word exponent values relation =
     (let z = pa_z3 A; m = pa_module A
      in bind_exec (put_header_values z m loop values (copy_state st)) (\<lambda>st1.
         bind_exec (extend_condition z m (expression_of z relation) st1) (\<lambda>st2.
         bind_exec (need AssertionFailed (first_non_phi_or_dbg m (loop_header m loop))) (\<lambda>next.
           give (step_pc m (Some next) (accelerated_history loop word exponent st2))))))"

definition accelerate_first_break ::
    "accel_env \<Rightarrow> loop_id \<Rightarrow> exec_state \<Rightarrow> path_word \<Rightarrow> composite \<Rightarrow> z3expr list \<Rightarrow> acceleration option exec" where
  "accelerate_first_break A loop st word c initial =
     (let z = pa_z3 A
      in bind_exec (with_session next_path_expression_id) (\<lambda>ident.
         let count = path_count ident; probe = path_probe ident;
             relation = first_break c initial probe count
         in bind_exec (term_of z (path_condition st)) (\<lambda>path.
              if z_check z [z_and path relation] \<noteq> Sat then give None
              else bind_exec (case affine_count A path relation count of
                     None \<Rightarrow> give count
                   | Some t \<Rightarrow> bind_exec (with_session (\<lambda>s. ((), note_path_affine_template s))) (\<lambda>_. give t)) (\<lambda>exponent.
                   bind_exec (break_jump A loop st word exponent
                       (map (form_at c count) (from_current c initial)) relation) (\<lambda>jump.
                   bind_exec (with_session (\<lambda>s. ((), note_path_acceleration s))) (\<lambda>_.
                     give (Some \<lparr>acc_jump = jump, acc_covered = z_exists [count] relation\<rparr>)))))))"

section \<open>The acceleration of a candidate\<close>

definition accelerate :: "accel_env \<Rightarrow> loop_id \<Rightarrow> exec_state \<Rightarrow> path_schema \<Rightarrow> acceleration option exec" where
  "accelerate A loop st candidate =
     (let z = pa_z3 A; m = pa_module A; word = star candidate; control = find_nondet_loop_control A loop
      in if word = [] \<or> unsupported_profile_reason A loop control \<noteq> None then give None
         else bind_exec (enumerate_transitions A loop st control) (\<lambda>ts_opt.
           case ts_opt of
             None \<Rightarrow> give None
           | Some ts \<Rightarrow>
               bind_exec (solve_composite A loop word ts) (\<lambda>c_opt.
                 case c_opt of
                   None \<Rightarrow> give None
                 | Some c \<Rightarrow>
                     bind_exec (current_header_values z m loop st) (\<lambda>initial.
                       if length initial \<noteq> length (co_parameters c) then give None
                       else case control of
                           Some ctl \<Rightarrow> accelerate_arbitrary_finite A loop st word ts c initial ctl
                         | None \<Rightarrow> accelerate_first_break A loop st word c initial))))"

end
