(* ===== verification/Loop_Summarizer.thy ===== *)
theory Loop_Summarizer
  imports Path_Accelerator Linear_Logic
begin

text \<open>
  The summary of a loop (lib/LoopSummarizer.cpp, the class \<open>LoopSummarizer\<close>): the recurrence of the
  header nodes over the paths of one iteration, its closed form, the number of iterations, the contents
  of the arrays, and the check of the conditions that the loop asserts.  The functions of time are
  applications of the names of the nodes to the index \<open>loop_n\<close>; \<open>loop_N\<close> is the number of iterations.
  The recurrence solver's process, the simplification that turns equations into inequalities and what
  the LLVM library computes are parameters.
\<close>

record summary_env =
  se_loop :: loop_env
  se_rec :: rec_env
  se_eq2ineq :: "z3expr \<Rightarrow> z3expr"

abbreviation se_z3 :: "summary_env \<Rightarrow> z3_api" where "se_z3 E \<equiv> le_z3 (se_loop E)"
abbreviation se_module :: "summary_env \<Rightarrow> llvm_module" where "se_module E \<equiv> le_module (se_loop E)"

definition loop_N :: z3expr where
  "loop_N = z_int_const ''ari_loop_N''"

definition indexed :: "string \<Rightarrow> z3expr \<Rightarrow> z3expr" where
  "indexed x t = App (OUninterp x IntSort) [t]"

abbreviation loop_n :: z3expr where "loop_n \<equiv> Control_Instructions.ind_var"
abbreviation next_index :: z3expr where "next_index \<equiv> z_add loop_n (z_int 1)"
abbreviation previous_index :: z3expr where "previous_index \<equiv> z_sub loop_n (z_int 1)"

section \<open>Recurrences through the solver's process\<close>

text \<open>The closed forms after a run of the solver, whatever its answer.\<close>

definition solve_equations :: "summary_env \<Rightarrow> rec_solver \<Rightarrow> closed_forms exec" where
  "solve_equations E s =
     bind_exec (with_session recurrence_solver_worker) (\<lambda>w.
     bind_exec (of_rec (rec_solve (se_z3 E) (se_rec E) s w)) (\<lambda>(solved, s', w').
     bind_exec (with_session (\<lambda>ss. ((), ss\<lparr>recurrence_worker := Some w'\<rparr>))) (\<lambda>_.
       give (get_res s'))))"

text \<open>A recurrence of its own, without initial values.\<close>

definition solve_cases :: "summary_env \<Rightarrow> z3expr list \<Rightarrow> rec_ty list \<Rightarrow> closed_forms exec" where
  "solve_cases E guards systems =
     bind_exec (of_rec (set_eqs_cases (se_z3 E) guards systems empty_rec_solver)) (solve_equations E)"

section \<open>The names of the recurrence\<close>

definition is_call_inst :: "llvm_module \<Rightarrow> value_id \<Rightarrow> bool" where
  "is_call_inst m i = (case kind_of m i of Inst (Call _ _) \<Rightarrow> True | _ \<Rightarrow> is_dbg m i)"

definition add_missing :: "value_id list \<Rightarrow> value_id list \<Rightarrow> value_id list" where
  "add_missing calls extra = fold (\<lambda>c cs. if c \<in> set cs then cs else cs @ [c]) extra calls"

text \<open>The calls with a counter in a state, in the order of the values of the module.\<close>

definition counted_calls :: "llvm_module \<Rightarrow> exec_state \<Rightarrow> value_id list" where
  "counted_calls m st = filter (\<lambda>i. counters_of st i \<noteq> None \<and> is_call_inst m i) (all_values m)"

definition summarized_calls :: "llvm_module \<Rightarrow> loop_id \<Rightarrow> exec_state list \<Rightarrow> value_id list" where
  "summarized_calls m loop final_states =
     fold (\<lambda>st calls. add_missing calls (counted_calls m st)) final_states (get_unknown_calls m loop)"

definition phi_names :: "llvm_module \<Rightarrow> loop_id \<Rightarrow> string list" where
  "phi_names m loop = map (\<lambda>phi. get_z3_name (name_of m phi)) (phis_of m (loop_header m loop))"

definition counter_name :: "llvm_module \<Rightarrow> value_id \<Rightarrow> string" where
  "counter_name m i = get_z3_name (name_of m i) @ ''_call_count''"

text \<open>The header nodes and the counters of the calls, as constants and as functions of the index.\<close>

definition recurrence_names :: "llvm_module \<Rightarrow> loop_id \<Rightarrow> value_id list \<Rightarrow> string list" where
  "recurrence_names m loop calls = phi_names m loop @ map (counter_name m) calls"

definition get_header_phis_scalar_and_func ::
    "llvm_module \<Rightarrow> loop_id \<Rightarrow> value_id list \<Rightarrow> z3expr list \<times> z3expr list" where
  "get_header_phis_scalar_and_func m loop calls =
     (let names = recurrence_names m loop calls
      in (map z_int_const names, map (\<lambda>x. indexed x loop_n) names))"

section \<open>The recurrence of the header nodes\<close>

text \<open>The values the header nodes get from the latch; a final state elsewhere is a failed assertion.\<close>

definition get_update :: "z3_api \<Rightarrow> llvm_module \<Rightarrow> loop_id \<Rightarrow> exec_state \<Rightarrow> z3expr list exec" where
  "get_update z m loop st =
     (case pc st of
        None \<Rightarrow> fail AssertionFailed
      | Some i \<Rightarrow>
          if block_of m i \<notin> set (loop_latches m loop) then fail AssertionFailed
          else each (\<lambda>phi.
            bind_exec (need AssertionFailed (incoming_value m phi (block_of m i))) (\<lambda>v.
            bind_exec (evaluate z m st v True) (term_of z))) (phis_of m (loop_header m loop)))"

text \<open>The counter of a call after the path; without a counter in the state, the call was executed when
  the condition of the path mentions its function.\<close>

definition counter_update :: "llvm_module \<Rightarrow> z3expr \<Rightarrow> exec_state \<Rightarrow> value_id \<Rightarrow> z3expr" where
  "counter_update m path st call =
     (case counters_of st call of
        Some t \<Rightarrow> t
      | None \<Rightarrow>
          if get_app_of path (OUninterp (''ari_'' @ name_of m call @ ''_unknown'') IntSort) \<noteq> []
          then z_add (call_counter m call) (z_int 1) else call_counter m call)"

definition path_condition_in_loop :: "exec_state \<Rightarrow> expression option" where
  "path_condition_in_loop st = (case class_of st of LoopState c _ _ \<Rightarrow> Some c | _ \<Rightarrow> None)"

text \<open>The equations of one choice of cases for all updates, under the conditions of the cases.\<close>

definition update_case ::
    "z3_api \<Rightarrow> (z3expr \<times> z3expr) list \<Rightarrow> string list \<Rightarrow> z3expr \<Rightarrow> cases list \<Rightarrow> nat list \<Rightarrow> z3expr \<times> rec_ty"
  where
  "update_case z s names path pieces indices =
     (let chosen = map2 (\<lambda>cs i. cs ! i) pieces indices
      in (z_and path (substitute s (mk_and (map fst chosen))),
          fold (\<lambda>(x, t). assign_equation z (indexed x next_index) (substitute s t))
            (zip names (map snd chosen)) []))"

definition state_updates ::
    "z3_api \<Rightarrow> llvm_module \<Rightarrow> loop_id \<Rightarrow> value_id list \<Rightarrow> exec_state \<Rightarrow> (z3expr \<times> rec_ty) list exec" where
  "state_updates z m loop calls st =
     (let (src, dst) = get_header_phis_scalar_and_func m loop calls; s = zip src dst
      in bind_exec (need AssertionFailed (Option.bind (path_condition_in_loop st) (as_expr z))) (\<lambda>c.
         bind_exec (get_update z m loop st) (\<lambda>phi_updates.
           let path = substitute s c;
               pieces = map (expr2piecewise z) (phi_updates @ map (counter_update m path st) calls)
           in if pieces = [] then fail AssertionFailed
              else give (map (update_case z s (recurrence_names m loop calls) path pieces)
                     (cartesian_product (map length pieces) 0)))))"

definition get_conditions_and_updates ::
    "z3_api \<Rightarrow> llvm_module \<Rightarrow> loop_id \<Rightarrow> value_id list \<Rightarrow> exec_state list \<Rightarrow> (z3expr list \<times> rec_ty list) exec" where
  "get_conditions_and_updates z m loop calls final_states =
     bind_exec (each (state_updates z m loop calls) final_states) (\<lambda>cases.
       give (map fst (concat cases), map snd (concat cases)))"

section \<open>Initial values\<close>

text \<open>
  The keys have the counters of the calls twice, the values once: with a call, the value at an index is
  the one of a later key, and the last keys have none.
\<close>

definition accessible_scalars :: "z3_api \<Rightarrow> exec_state \<Rightarrow> memory_object list exec" where
  "accessible_scalars z parent =
     bind_exec (need AssertionFailed (get_accessible_objects z (mem parent))) (\<lambda>objs. give (filter is_scalar objs))"

definition get_initial_values ::
    "z3_api \<Rightarrow> llvm_module \<Rightarrow> loop_id \<Rightarrow> value_id list \<Rightarrow> exec_state \<Rightarrow> (z3expr list \<times> z3expr list) exec" where
  "get_initial_values z m loop calls parent =
     (if trace parent = [] then fail AssertionFailed
      else bind_exec (each (\<lambda>phi.
             bind_exec (need AssertionFailed (incoming_value m phi (last (trace parent)))) (\<lambda>v.
             bind_exec (evaluate z m parent v True) (\<lambda>e.
             bind_exec (term_of z e) (\<lambda>t. give (z_simplify z t))))) (phis_of m (loop_header m loop))) (\<lambda>phi_values.
           bind_exec (accessible_scalars z parent) (\<lambda>scalars.
           bind_exec (each (\<lambda>obj.
             bind_exec (need AssertionFailed (Option.bind (read_object z obj) (as_expr z))) (\<lambda>t.
               give (z_simplify z t))) scalars) (\<lambda>scalar_values.
             give (map (\<lambda>x. indexed x (z_int 0))
                     (recurrence_names m loop calls @ map (counter_name m) calls @
                      map (\<lambda>obj. get_z3_name (name_of m (obj_llvm_value obj))) scalars),
                   phi_values @ replicate (length calls) (z_int 0) @ scalar_values)))))"

section \<open>The number of iterations\<close>

fun contains_modulo :: "z3expr \<Rightarrow> bool" where
  "contains_modulo (App f es) = (f = OMod \<or> list_ex contains_modulo es)"
| "contains_modulo (Quant q xs b) = contains_modulo b"

text \<open>The condition under which no path of the iteration leaves the loop.\<close>

definition get_loop_guard_condition :: "z3_api \<Rightarrow> exec_state list \<Rightarrow> z3expr exec" where
  "get_loop_guard_condition z exit_states =
     bind_exec (each (\<lambda>st. term_of z (path_condition st)) exit_states) (\<lambda>cs.
       give (z_simplify z (z_not (foldl z_or z_false cs))))"

text \<open>The guard holds at every index below the number of iterations and fails at it.\<close>

definition count_constraints :: "(z3expr \<times> z3expr) list \<Rightarrow> z3expr \<Rightarrow> z3expr \<Rightarrow> z3expr" where
  "count_constraints s guard parent =
     (let closed = substitute s guard;
          bounded = z_forall [loop_n]
            (z_implies (z_and (z_le (z_int 0) loop_n) (z_lt loop_n loop_N)) (substitute s closed));
          exits = z_not (substitute [(loop_n, loop_N)] closed)
      in substitute s (z_and (z_and (z_and bounded exits) (z_ge loop_N (z_int 0))) parent))"

definition get_iterations_constraints ::
    "z3_api \<Rightarrow> exec_state \<Rightarrow> exec_state list \<Rightarrow> (z3expr \<times> z3expr) list \<Rightarrow> (z3expr \<times> z3expr) exec" where
  "get_iterations_constraints z parent exit_states s =
     bind_exec (get_loop_guard_condition z exit_states) (\<lambda>guard.
     bind_exec (term_of z (path_condition parent)) (\<lambda>path.
       let constraints = count_constraints s guard path
       in give (if contains_modulo constraints then constraints
                else apply_result2expr z (z_qe z constraints), loop_N)))"

definition get_exit_loop_guard :: "z3_api \<Rightarrow> exec_state list \<Rightarrow> (z3expr \<times> z3expr) exec" where
  "get_exit_loop_guard z exit_states =
     bind_exec (get_loop_guard_condition z exit_states) (\<lambda>guard.
       give (z_not (substitute [(loop_n, loop_N)] guard), loop_N))"


section \<open>The summary of the scalars\<close>

text \<open>The names with a closed form, and whether every name has one.\<close>

definition closed_parameters :: "z3_api \<Rightarrow> closed_forms \<Rightarrow> string list \<Rightarrow> (z3expr \<times> z3expr) list" where
  "closed_parameters z closed names =
     concat (map (\<lambda>x. case find_form z (z_int_const x) closed of
       Some t \<Rightarrow> [(z_int_const x, t)] | None \<Rightarrow> []) names)"

definition is_approximate :: "z3_api \<Rightarrow> closed_forms \<Rightarrow> string list \<Rightarrow> bool" where
  "is_approximate z closed names \<longleftrightarrow> list_ex (\<lambda>x. find_form z (z_int_const x) closed = None) names"

text \<open>The objects the stores of the header write through; they are looked up in the first final state.\<close>

definition header_stores :: "llvm_module \<Rightarrow> loop_id \<Rightarrow> value_id list" where
  "header_stores m loop =
     concat (map (\<lambda>i. case kind_of m i of Inst (Store ptr _) \<Rightarrow> [ptr] | _ \<Rightarrow> []) (insts_of m (loop_header m loop)))"

definition header_store_names :: "llvm_module \<Rightarrow> loop_id \<Rightarrow> exec_state list \<Rightarrow> string list exec" where
  "header_store_names m loop final_states =
     each (\<lambda>ptr.
       bind_exec (need AssertionFailed (if final_states = [] then None else get_object ptr (mem (hd final_states))))
         (\<lambda>obj. give (get_z3_name (name_of m (obj_llvm_value obj))))) (header_stores m loop)"

text \<open>Every header node the guard depends on must have a closed form.\<close>

definition guard_covered :: "z3_api \<Rightarrow> llvm_module \<Rightarrow> loop_id \<Rightarrow> z3expr \<Rightarrow> (z3expr \<times> z3expr) list \<Rightarrow> bool" where
  "guard_covered z m loop guard s =
     (let guard_names = set (map const_name (collect_vars z guard)); names = set (map (const_name \<circ> fst) s)
      in list_all (\<lambda>x. x \<in> guard_names \<longrightarrow> x \<in> names) (phi_names m loop))"

definition solve_iterations ::
    "summary_env \<Rightarrow> loop_id \<Rightarrow> z3expr \<Rightarrow> (z3expr \<times> z3expr) list \<Rightarrow> z3expr \<Rightarrow> z3expr option exec" where
  "solve_iterations E loop guard s constraints =
     (if guard_covered (se_z3 E) (se_module E) loop guard s \<and> \<not> contains_modulo constraints
      then bind_exec (need AssertionFailed (solve_vars (se_z3 E) (se_eq2ineq E) constraints [loop_N])) (\<lambda>vs.
             give (case vs of [] \<Rightarrow> None | v # _ \<Rightarrow> Some v))
      else give None)"

definition over_closed_forms ::
    "z3_api \<Rightarrow> (z3expr \<times> z3expr) list \<Rightarrow> (z3expr \<times> z3expr) list \<Rightarrow> closed_forms \<Rightarrow> closed_forms" where
  "over_closed_forms z s at_exit closed =
     fold (\<lambda>(k, v). assign_equation z (substitute at_exit (substitute s k)) (substitute at_exit (substitute s v)))
       closed []"

text \<open>
  A number of iterations replaces its constraints.  Without a closed form for every node, the summary is
  an over-approximation: the equations of the closed forms, under the exit condition when the number of
  iterations is not known.
\<close>

definition scalar_summary ::
    "summary_env \<Rightarrow> loop_id \<Rightarrow> exec_state list \<Rightarrow> closed_forms \<Rightarrow> string list \<Rightarrow> z3expr \<Rightarrow> z3expr option \<Rightarrow>
     loop_summary exec" where
  "scalar_summary E loop exit_states closed names constraints count =
     (let z = se_z3 E; m = se_module E;
          s = closed_parameters z closed names;
          at_exit = (case count of Some t \<Rightarrow> [(loop_n, t)] | None \<Rightarrow> []);
          exit_values = map (\<lambda>(x, t). substitute at_exit t) s
      in if is_approximate z closed names
         then bind_exec (case count of Some t \<Rightarrow> give z_true
                | None \<Rightarrow> bind_exec (get_exit_loop_guard z exit_states) (\<lambda>(c, N). give c)) (\<lambda>c.
                give (over_approx_loop_summary (map fst s) exit_values (map snd s)
                        (over_closed_forms z s at_exit closed) c count))
         else give (exact_loop_summary (map fst s) exit_values (map snd s)
                (if count \<noteq> None then z_true else constraints) (phis_of m (loop_header m loop))
                (case count of Some t \<Rightarrow> Some t | None \<Rightarrow> Some loop_N)))"

definition solve_scalars ::
    "summary_env \<Rightarrow> loop_id \<Rightarrow> exec_state \<Rightarrow> exec_state list \<Rightarrow> closed_forms exec" where
  "solve_scalars E loop parent final_states =
     (let z = se_z3 E; m = se_module E; calls = summarized_calls m loop final_states
      in bind_exec (get_conditions_and_updates z m loop calls final_states) (\<lambda>(guards, systems).
         bind_exec (get_initial_values z m loop calls parent) (\<lambda>(ks, vs).
         bind_exec (of_rec (add_initial_values z ks vs empty_rec_solver)) (\<lambda>s.
         bind_exec (of_rec (set_eqs_cases z guards systems s)) (solve_equations E)))))"

definition summarize_scalar ::
    "summary_env \<Rightarrow> loop_id \<Rightarrow> exec_state \<Rightarrow> exec_state list \<Rightarrow> exec_state list \<Rightarrow> loop_summary exec" where
  "summarize_scalar E loop parent final_states exit_states =
     (let z = se_z3 E; m = se_module E
      in bind_exec (solve_scalars E loop parent final_states) (\<lambda>closed.
         bind_exec (header_store_names m loop final_states) (\<lambda>stored.
         let names = phi_names m loop @ stored; s = closed_parameters z closed names
         in bind_exec (get_loop_guard_condition z exit_states) (\<lambda>guard.
            bind_exec (get_iterations_constraints z parent exit_states s) (\<lambda>(constraints, N).
            bind_exec (solve_iterations E loop guard s constraints) (\<lambda>count.
              scalar_summary E loop exit_states closed names constraints count))))))"

section \<open>The summary of the arrays\<close>

text \<open>The contents of an array after some iterations: its name with an underscore, applied to the indices
  and the number of iterations.\<close>

definition array_rec :: "memory_object \<Rightarrow> z3expr list \<Rightarrow> z3expr" where
  "array_rec obj es = App (OUninterp (obj_name obj @ ''_'') IntSort) es"

definition array_now :: "memory_object \<Rightarrow> z3expr" where
  "array_now obj = array_rec obj (obj_indices obj @ [loop_n])"

definition get_array_base_case :: "memory_object \<Rightarrow> z3expr \<times> rec_ty" where
  "get_array_base_case obj =
     (foldl (\<lambda>c i. z_or c (z_lt i (z_int 0))) (z_le loop_n (z_int 0)) (obj_indices obj),
      [(array_now obj, get_signature obj)])"

definition get_array_frame_case :: "z3expr list \<Rightarrow> memory_object \<Rightarrow> z3expr \<times> rec_ty" where
  "get_array_frame_case guards obj =
     (z_not (foldl z_or z_false guards), [(array_now obj, array_rec obj (obj_indices obj @ [previous_index]))])"

text \<open>One case of the contents after an iteration, in terms of the contents one iteration before.\<close>

definition go_back :: "z3expr \<Rightarrow> z3expr" where
  "go_back = substitute [(loop_n, previous_index)]"

definition array_write_case ::
    "z3_api \<Rightarrow> loop_summary \<Rightarrow> memory_object \<Rightarrow> z3expr option \<Rightarrow> z3expr \<times> z3expr \<Rightarrow>
     (z3expr \<times> rec_ty) list exec" where
  "array_write_case z ls obj path_opt = (\<lambda>(c, e).
     bind_exec (need AssertionFailed (evaluate_expr ls e)) (\<lambda>written.
     bind_exec (need AssertionFailed (Option.bind path_opt (\<lambda>path. evaluate_expr ls (z_and path c)))) (\<lambda>cond.
       let reads = get_app_of written (OUninterp (obj_name obj) IntSort);
           step = go_back (substitute (zip reads (map (\<lambda>a. array_rec obj (args a @ [loop_n])) reads)) written)
       in give (map (\<lambda>(c', e'). (z_and (go_back (z_simplify z cond)) c', [(array_now obj, e')]))
                  (expr2piecewise z step)))))"

text \<open>The last condition and value are the part of the array that is not written.\<close>

definition get_array_recursive_case ::
    "z3_api \<Rightarrow> loop_summary \<Rightarrow> value_id \<Rightarrow> exec_state \<Rightarrow> (z3expr \<times> rec_ty) list exec" where
  "get_array_recursive_case z ls array st =
     bind_exec (need AssertionFailed (get_object_pointed_by z array (mem st))) (\<lambda>obj.
       let cs = conditions (obj_value obj); es = expressions (obj_value obj);
           path = Option.bind (path_condition_in_loop st) (as_expr z)
       in if cs = [] \<or> length es < length cs - 1 then fail AssertionFailed
          else bind_exec (each (array_write_case z ls obj path) (zip (butlast cs) es)) (\<lambda>cases.
                 give (concat cases)))"


text \<open>The recurrence of an array: no iteration, the writes of every path, and the frame.\<close>

definition array_recurrence ::
    "z3_api \<Rightarrow> loop_summary \<Rightarrow> memory_object \<Rightarrow> exec_state list \<Rightarrow> (z3expr \<times> rec_ty) list exec" where
  "array_recurrence z ls obj final_states =
     bind_exec (each (get_array_recursive_case z ls (obj_llvm_value obj)) final_states) (\<lambda>written.
       let writes = get_array_base_case obj # concat written
       in give (writes @ [get_array_frame_case (map fst writes) obj]))"

fun array_domain :: "z3_api \<Rightarrow> z3expr \<Rightarrow> z3expr \<Rightarrow> z3expr list \<Rightarrow> expression list \<Rightarrow> z3expr exec" where
  "array_domain z N domain is [] = give domain"
| "array_domain z N domain [] (d # ds) = fail RuntimeError"
| "array_domain z N domain (i # is) (d # ds) =
     bind_exec (term_of z d) (\<lambda>size_term.
       array_domain z N
         (z_and (z_and (z_and domain (z_le (z_int 0) i)) (z_lt i size_term)) (z_le (z_int 0) N)) is ds)"

text \<open>The closed form at the number of iterations, from the contents before the loop.\<close>

definition array_closed_form ::
    "z3_api \<Rightarrow> memory_object \<Rightarrow> z3expr \<Rightarrow> z3expr \<Rightarrow> z3expr \<times> z3expr \<Rightarrow> loop_summary \<Rightarrow> loop_summary exec" where
  "array_closed_form z obj N domain = (\<lambda>(func, e) ls.
     let indices = obj_indices obj;
         normalized = (if length (args func) = length indices
                       then z_simplify z (substitute (zip (args func) indices) e) else e);
         reads = get_app_of normalized (OUninterp (obj_name obj) IntSort)
     in bind_exec (term_of z (obj_value obj)) (\<lambda>initial.
        bind_exec (each (\<lambda>a. bind_exec (substituted indices (args a) initial) (\<lambda>t. give (z_simplify z t))) reads) (\<lambda>vs.
        bind_exec (need AssertionFailed (restrict_to_domain z
            (substitute [(loop_n, N)] (substitute (zip reads vs) normalized)) domain)) (\<lambda>form.
          give (add_closed_form (get_signature obj) (z_simplify z form) ls)))))"

definition summarize_one_array ::
    "summary_env \<Rightarrow> exec_state \<Rightarrow> exec_state list \<Rightarrow> z3expr \<Rightarrow> memory_object \<Rightarrow> loop_summary \<Rightarrow> loop_summary exec"
  where
  "summarize_one_array E parent final_states N obj ls =
     (let z = se_z3 E; ls1 = add_modified_value (obj_llvm_value obj) ls
      in if final_states = [] then fail AssertionFailed
         else bind_exec (array_recurrence z ls1 obj final_states) (\<lambda>cases.
              bind_exec (solve_cases E (map fst cases) (map snd cases)) (\<lambda>closed.
              bind_exec (term_of z (path_condition parent)) (\<lambda>path.
              bind_exec (array_domain z N path (obj_indices obj) (obj_sizes obj)) (\<lambda>domain.
                fold_exec (array_closed_form z obj N domain) closed
                  (if closed = [] then set_over_approximated True ls1 else ls1))))))"

definition summarize_array :: "summary_env \<Rightarrow> exec_state \<Rightarrow> exec_state list \<Rightarrow> loop_summary \<Rightarrow> loop_summary exec" where
  "summarize_array E parent final_states ls =
     fold_exec (summarize_one_array E parent final_states (case ls_count ls of Some t \<Rightarrow> t | None \<Rightarrow> loop_N))
       (get_arrays (mem parent)) ls"

section \<open>The asserted conditions\<close>

text \<open>An asserted condition must hold at every index of an iteration; the first that may fail decides.\<close>

definition index_range :: "z3expr option \<Rightarrow> z3expr" where
  "index_range count =
     (case count of
        Some N \<Rightarrow> z_and (z_le (z_int 0) loop_n) (z_lt loop_n N)
      | None \<Rightarrow> z_le (z_int 0) loop_n)"

fun prove_invariants :: "z3_api \<Rightarrow> loop_summary \<Rightarrow> expression list \<Rightarrow> veri_result exec" where
  "prove_invariants z ls [] = give HOLD"
| "prove_invariants z ls (c # cs) =
     bind_exec (term_of z c) (\<lambda>t.
     bind_exec (need AssertionFailed (evaluate_expr ls t)) (\<lambda>query.
       case z_check z [index_range (ls_count ls), z_not query] of
         Sat \<Rightarrow> give FAIL
       | Unknown \<Rightarrow> give VERIUNKNOWN
       | Unsat \<Rightarrow> prove_invariants z ls cs))"

section \<open>The summary\<close>

definition get_loop_summary :: "summary_env \<Rightarrow> loop_id \<Rightarrow> exec_state \<Rightarrow> loop_summary option exec" where
  "get_loop_summary E loop parent =
     bind_exec (run_loop_execution (se_loop E) loop parent) (\<lambda>r.
     bind_exec (summarize_scalar E loop parent (lr_final r) (lr_exit r)) (\<lambda>ls.
     bind_exec (summarize_array E parent (lr_final r) ls) (\<lambda>ls'.
     bind_exec (prove_invariants (se_z3 E) ls' (lr_conditions r)) (\<lambda>answer.
       give (Some (add_invariant_result answer ls'))))))"

end
