(* ===== verification/Nested_Accelerator.thy ===== *)
theory Nested_Accelerator
  imports Path_Accelerator
begin

text \<open>
  The summaries of nested counted loops (lib/PathAccelerator.cpp, \<open>accelerate_nested\<close>): one iteration of
  the loop is explored with its live-ins as parameters, an inner loop is replaced by its own jump, the one
  returning path gets a closed form and a number of repetitions from the test of the header, and the
  summary holds a domain in which skipping the loop is exact and safe.  A summary is cached in the session
  and used where the solver proves that the path lies in the domain.
\<close>

section \<open>Operations whose session survives an error\<close>

text \<open>The construction of a summary catches exceptions; what it did to the session before the operation that
  fails stays.\<close>

type_synonym 'a tracked = "session \<Rightarrow> (exec_error + 'a) \<times> session"

definition tracked :: "'a exec \<Rightarrow> 'a tracked" where
  "tracked f = (\<lambda>s. case f s of Inl e \<Rightarrow> (Inl e, s) | Inr (x, s') \<Rightarrow> (Inr x, s'))"

definition untracked :: "'a tracked \<Rightarrow> 'a exec" where
  "untracked f = (\<lambda>s. case f s of (Inl e, s') \<Rightarrow> Inl e | (Inr x, s') \<Rightarrow> Inr (x, s'))"

definition bind_tracked :: "'a tracked \<Rightarrow> ('a \<Rightarrow> 'b tracked) \<Rightarrow> 'b tracked" where
  "bind_tracked f g = (\<lambda>s. case f s of (Inl e, s') \<Rightarrow> (Inl e, s') | (Inr x, s') \<Rightarrow> g x s')"

definition done_with :: "'a \<Rightarrow> 'a tracked" where
  "done_with x = (\<lambda>s. (Inr x, s))"

text \<open>Exceptions of the verifier and of the solver are caught, failed assertions are not.\<close>

definition catch_to_none :: "'a option tracked \<Rightarrow> 'a option tracked" where
  "catch_to_none f = (\<lambda>s. case f s of
     (Inl (VerifierError k), s') \<Rightarrow> (Inr None, s')
   | (Inl RuntimeError, s') \<Rightarrow> (Inr None, s')
   | r \<Rightarrow> r)"

section \<open>One iteration with parameters\<close>

record nested_iteration =
  ni_returning :: "exec_state option"
  ni_exiting :: "exec_state option"
  ni_errors :: z3expr

definition new_iteration :: nested_iteration where
  "new_iteration = \<lparr>ni_returning = None, ni_exiting = None, ni_errors = z_false\<rparr>"

definition error_call :: "llvm_module \<Rightarrow> value_id \<Rightarrow> bool" where
  "error_call m i =
     (case kind_of m i of
        Inst (Call (Some f) actuals) \<Rightarrow>
          contains_str (func_name m f) ''reach_error'' \<or> func_name m f = ''__VERIFIER_error'' \<or>
          func_name m f = ''__assert_fail''
      | _ \<Rightarrow> False)"

definition unsupported_operand :: "accel_env \<Rightarrow> value_id \<Rightarrow> bool" where
  "unsupported_operand A v =
     (kind_of (pa_module A) v = Undef \<or> (is_int_ty (pa_module A) v \<and> pa_other_constant A v))"

definition nested_instruction_supported :: "accel_env \<Rightarrow> value_id \<Rightarrow> bool" where
  "nested_instruction_supported A i =
     (let m = pa_module A
      in if is_dbg m i then True
         else if list_ex (unsupported_operand A) (operands_of A i) then False
         else case kind_of m i of
             Inst (Call f actuals) \<Rightarrow>
               error_call m i \<or>
               (case (f, actuals) of
                  (Some g, [(v, _)]) \<Rightarrow> ends_with (func_name m g) ''assert'' \<and> is_int_ty m v
                | _ \<Rightarrow> False)
           | Inst (CondBr c t f) \<Rightarrow> True
           | Inst (Br t) \<Rightarrow> True
           | Inst (ICmp p a b) \<Rightarrow> is_int_ty m i \<and> is_int_ty m a
           | Inst (Phi inc) \<Rightarrow> is_int_ty m i
           | Inst (Binary op fl a b) \<Rightarrow> is_int_ty m i
           | Inst (Select c a b) \<Rightarrow> is_int_ty m i
           | Inst (ZExt v) \<Rightarrow> is_int_ty m i
           | Inst (SExt v) \<Rightarrow> is_int_ty m i
           | Inst (Trunc v) \<Rightarrow> is_int_ty m i
           | _ \<Rightarrow> False)"

text \<open>An infeasible state is dropped; an assertion becomes an obligation and holds afterwards.\<close>

definition test_nested_state :: "z3_api \<Rightarrow> exec_state \<Rightarrow> exec_state option option exec" where
  "test_nested_state z st =
     (if status_of st \<noteq> TESTING then give (Some (Some st))
      else bind_exec (term_of z (path_condition st)) (\<lambda>c.
             give (case decide_unsat z c of
                 Unknown \<Rightarrow> None
               | Unsat \<Rightarrow> Some None
               | Sat \<Rightarrow> Some (Some (st\<lparr>status_of := RUNNING\<rparr>)))))"

definition verify_nested_state ::
    "z3_api \<Rightarrow> exec_state \<Rightarrow> z3expr \<Rightarrow> (exec_state \<times> z3expr) exec" where
  "verify_nested_state z st errors =
     (if status_of st \<noteq> VERIFYING then give (st, errors)
      else bind_exec (need AssertionFailed (defined_term z (verification_condition st))) (\<lambda>d.
           bind_exec (term_of z (verification_condition st)) (\<lambda>t.
           bind_exec (term_of z (path_condition st)) (\<lambda>path.
           bind_exec (need AssertionFailed (append_condition z (expression_of z (z_and d t)) st)) (\<lambda>st'.
             give (st'\<lparr>status_of := RUNNING\<rparr>, z_or errors (z_and path (z_not (z_and d t)))))))))"

text \<open>What one state of the queue becomes: new states, or the end of the exploration.\<close>

definition expand_nested_phi ::
    "accel_env \<Rightarrow> (loop_id \<Rightarrow> exec_state \<Rightarrow> exec_state option tracked) \<Rightarrow> loop_id \<Rightarrow> value_id \<Rightarrow> exec_state \<Rightarrow>
     exec_state list option tracked" where
  "expand_nested_phi A child_jump loop phi st =
     (let m = pa_module A; block = block_of m phi;
          bundle = (if trace st = [] \<or> incoming_value m phi (last (trace st)) = None then done_with None
                    else bind_tracked (tracked (execute_phi_bundle (pa_z3 A) m (copy_state st)))
                           (\<lambda>st'. done_with (Some [st'])))
      in case loop_for m block of
           None \<Rightarrow> bundle
         | Some child \<Rightarrow>
             if child \<noteq> loop \<and> is_first_header_phi m phi (Some child)
             then bind_tracked (child_jump child st) (\<lambda>jump. done_with (map_option (\<lambda>st'. [st']) jump))
             else bundle)"

definition expand_nested_state ::
    "accel_env \<Rightarrow> (loop_id \<Rightarrow> exec_state \<Rightarrow> exec_state option tracked) \<Rightarrow> loop_id \<Rightarrow> block_id \<Rightarrow> exec_state \<Rightarrow>
     nested_iteration \<Rightarrow> (nested_iteration \<times> exec_state list) option tracked" where
  "expand_nested_state A child_jump loop normal_exit st r =
     (let z = pa_z3 A; m = pa_module A
      in bind_tracked (tracked (need AssertionFailed (pc st))) (\<lambda>i.
           if block_of m i = normal_exit \<and> trace st \<noteq> [] \<and> last (trace st) = loop_header m loop
           then done_with (if ni_exiting r = None then Some (r\<lparr>ni_exiting := Some st\<rparr>, []) else None)
           else if loop_contains m loop (block_of m i) \<and> is_final_state m loop st
           then done_with (if ni_returning r = None then Some (r\<lparr>ni_returning := Some st\<rparr>, []) else None)
           else if error_call m i
           then bind_tracked (tracked (term_of z (path_condition st))) (\<lambda>c.
                  done_with (Some (r\<lparr>ni_errors := z_or (ni_errors r) c\<rparr>, [])))
           else if \<not> nested_instruction_supported A i then done_with None
           else if is_phi m i
           then bind_tracked (expand_nested_phi A child_jump loop i st)
                  (\<lambda>result. done_with (map_option (Pair r) result))
           else bind_tracked (tracked (execute (pa_exec A) (le_depth (pa_loop A)) st))
                  (\<lambda>sts. done_with (Some (r, sts)))))"

definition visit_nested_state ::
    "accel_env \<Rightarrow> (loop_id \<Rightarrow> exec_state \<Rightarrow> exec_state option tracked) \<Rightarrow> loop_id \<Rightarrow> block_id \<Rightarrow> exec_state \<Rightarrow>
     nested_iteration \<Rightarrow> (nested_iteration \<times> exec_state list) option tracked" where
  "visit_nested_state A child_jump loop normal_exit st r =
     bind_tracked (tracked (test_nested_state (pa_z3 A) st)) (\<lambda>tested.
       case tested of
         None \<Rightarrow> done_with None
       | Some None \<Rightarrow> done_with (Some (r, []))
       | Some (Some st1) \<Rightarrow>
           bind_tracked (tracked (verify_nested_state (pa_z3 A) st1 (ni_errors r))) (\<lambda>(st2, errors).
             expand_nested_state A child_jump loop normal_exit st2 (r\<lparr>ni_errors := errors\<rparr>)))"

text \<open>The number is the steps that are left; a state that is left over then ends the exploration.\<close>

fun explore_nested_queue ::
    "accel_env \<Rightarrow> (loop_id \<Rightarrow> exec_state \<Rightarrow> exec_state option tracked) \<Rightarrow> loop_id \<Rightarrow> block_id \<Rightarrow> nat \<Rightarrow>
     exec_state list \<Rightarrow> nested_iteration \<Rightarrow> nested_iteration option tracked" where
  "explore_nested_queue A child_jump loop normal_exit n [] r =
     done_with (if ni_returning r = None \<or> ni_exiting r = None then None else Some r)"
| "explore_nested_queue A child_jump loop normal_exit 0 (st # work) r = done_with None"
| "explore_nested_queue A child_jump loop normal_exit (Suc n) (st # work) r =
     bind_tracked (visit_nested_state A child_jump loop normal_exit st r) (\<lambda>result.
       case result of
         None \<Rightarrow> done_with None
       | Some (r', sts) \<Rightarrow> explore_nested_queue A child_jump loop normal_exit n (work @ sts) r')"

definition explore_nested_iteration ::
    "accel_env \<Rightarrow> (loop_id \<Rightarrow> exec_state \<Rightarrow> exec_state option tracked) \<Rightarrow> loop_id \<Rightarrow> exec_state \<Rightarrow> block_id \<Rightarrow>
     nested_iteration option tracked" where
  "explore_nested_iteration A child_jump loop initial normal_exit =
     explore_nested_queue A child_jump loop normal_exit 4096 [initial] new_iteration"

section \<open>The number of repetitions\<close>

fun inverse_predicate :: "predicate \<Rightarrow> predicate" where
  "inverse_predicate P_EQ = P_NE" | "inverse_predicate P_NE = P_EQ"
| "inverse_predicate P_SLT = P_SGE" | "inverse_predicate P_SGE = P_SLT"
| "inverse_predicate P_SLE = P_SGT" | "inverse_predicate P_SGT = P_SLE"
| "inverse_predicate P_ULT = P_UGE" | "inverse_predicate P_UGE = P_ULT"
| "inverse_predicate P_ULE = P_UGT" | "inverse_predicate P_UGT = P_ULE"

fun swapped_predicate :: "predicate \<Rightarrow> predicate" where
  "swapped_predicate P_SLT = P_SGT" | "swapped_predicate P_SGT = P_SLT"
| "swapped_predicate P_SLE = P_SGE" | "swapped_predicate P_SGE = P_SLE"
| "swapped_predicate P_ULT = P_UGT" | "swapped_predicate P_UGT = P_ULT"
| "swapped_predicate P_ULE = P_UGE" | "swapped_predicate P_UGE = P_ULE"
| "swapped_predicate p = p"

definition is_header_phi :: "llvm_module \<Rightarrow> loop_id \<Rightarrow> value_id \<Rightarrow> bool" where
  "is_header_phi m loop v = (is_phi m v \<and> block_of m v = loop_header m loop)"

text \<open>The counter of the test, its bound, and the predicate read from the counter.\<close>

definition counter_test ::
    "llvm_module \<Rightarrow> loop_id \<Rightarrow> bool \<Rightarrow> (value_id \<times> value_id \<times> predicate) option" where
  "counter_test m loop continue_on_true =
     (case map_option (kind_of m) (terminator_of m (loop_header m loop)) of
        Some (Inst (CondBr cond t f)) \<Rightarrow>
          (case kind_of m cond of
             Inst (ICmp p a b) \<Rightarrow>
               (let p' = (if continue_on_true then p else inverse_predicate p)
                in if is_header_phi m loop a then Some (a, b, p')
                   else if is_header_phi m loop b then Some (b, a, swapped_predicate p')
                   else None)
           | _ \<Rightarrow> None)
      | _ \<Rightarrow> None)"

fun is_less_predicate :: "predicate \<Rightarrow> bool" where
  "is_less_predicate p = (p \<in> {P_SLT, P_ULT, P_SLE, P_ULE})"

fun is_greater_predicate :: "predicate \<Rightarrow> bool" where
  "is_greater_predicate p = (p \<in> {P_SGT, P_UGT, P_SGE, P_UGE})"

fun is_inclusive_predicate :: "predicate \<Rightarrow> bool" where
  "is_inclusive_predicate p = (p \<in> {P_SLE, P_ULE, P_SGE, P_UGE})"

text \<open>The number of steps of the counter until it has passed the bound.\<close>

definition step_count :: "predicate \<Rightarrow> int \<Rightarrow> z3expr \<Rightarrow> z3expr \<Rightarrow> z3expr" where
  "step_count p stride counter endpoint =
     (let d = (if is_less_predicate p then z_sub endpoint counter else z_sub counter endpoint);
          distance = (if is_inclusive_predicate p then z_add d (z_int 1) else d);
          magnitude = z_int \<bar>stride\<bar>
      in z_ite (z_gt distance (z_int 0))
           (z_div (z_sub (z_add distance magnitude) (z_int 1)) magnitude) (z_int 0))"

text \<open>A constant stride in the direction of the test; the least 64-bit integer has no magnitude.\<close>

definition usable_stride :: "predicate \<Rightarrow> int \<Rightarrow> bool" where
  "usable_stride p stride \<longleftrightarrow>
     - (2 ^ 63) < stride \<and> stride < 2 ^ 63 \<and> stride \<noteq> 0 \<and>
     (is_less_predicate p \<or> is_greater_predicate p) \<and>
     \<not> (is_less_predicate p \<and> stride < 0) \<and> \<not> (is_greater_predicate p \<and> stride > 0)"

definition nested_count_template ::
    "accel_env \<Rightarrow> loop_id \<Rightarrow> composite \<Rightarrow> exec_state \<Rightarrow> bool \<Rightarrow> z3expr option exec" where
  "nested_count_template A loop c st continue_on_true =
     (let z = pa_z3 A; m = pa_module A
      in case counter_test m loop continue_on_true of
           None \<Rightarrow> give None
         | Some (counter, bound, p) \<Rightarrow>
             let ix = length (takeWhile (\<lambda>phi. phi \<noteq> counter) (phis_of m (loop_header m loop)));
                 parameter = co_parameters c ! ix
             in (case z_simplify z (z_sub (co_one_step c ! ix) parameter) of
                   App (ONum stride) [] \<Rightarrow>
                     if stride = 0 \<or> stride \<le> - (2 ^ 63) \<or> stride \<ge> 2 ^ 63 then give None
                     else bind_exec (evaluate z m st bound True) (\<lambda>e.
                          bind_exec (term_of z e) (\<lambda>endpoint.
                            give (if depends_on_any (co_parameters c) endpoint \<or> \<not> usable_stride p stride then None
                                  else Some (z_simplify z (step_count p stride parameter endpoint)))))
                 | _ \<Rightarrow> give None))"


section \<open>Symbols that may not leave a summary\<close>

fun has_foreign_symbols :: "z3expr list \<Rightarrow> z3expr \<Rightarrow> bool" where
  "has_foreign_symbols permitted (Quant q xs b) = has_foreign_symbols (permitted @ map z_int_const xs) b"
| "has_foreign_symbols permitted (App f es) =
     (case f of
        OUninterp g s \<Rightarrow> es \<noteq> [] \<or> App f es \<notin> set permitted
      | _ \<Rightarrow> list_ex (has_foreign_symbols permitted) es)"

section \<open>The parameters of a summary\<close>

record nested_inputs =
  in_values :: "value_id list"
  in_parameters :: "z3expr list"
  in_state :: exec_state

definition add_input :: "z3_api \<Rightarrow> llvm_module \<Rightarrow> value_id \<Rightarrow> z3expr \<Rightarrow> nested_inputs \<Rightarrow> nested_inputs exec" where
  "add_input z m v parameter ins =
     bind_exec (store_temp m v (expression_of z parameter) (in_state ins)) (\<lambda>st.
       give \<lparr>in_values = in_values ins @ [v], in_parameters = in_parameters ins @ [parameter], in_state = st\<rparr>)"

definition is_scalar_phi :: "llvm_module \<Rightarrow> value_id \<Rightarrow> bool" where
  "is_scalar_phi m phi \<longleftrightarrow> is_int_ty m phi \<and> ty_of m phi \<noteq> IntTy 1"

definition add_phi_inputs ::
    "z3_api \<Rightarrow> llvm_module \<Rightarrow> value_id list \<Rightarrow> nested_inputs \<Rightarrow> nested_inputs exec" where
  "add_phi_inputs z m = fold_exec (\<lambda>phi. add_input z m phi (phi_symbol m phi))"

text \<open>A scalar that the loop uses and does not define.\<close>

definition is_external_scalar :: "accel_env \<Rightarrow> loop_id \<Rightarrow> value_id \<Rightarrow> bool" where
  "is_external_scalar A loop v \<longleftrightarrow>
     (let m = pa_module A
      in is_int_ty m v \<and> \<not> pa_other_constant A v \<and>
         (case kind_of m v of
            ConstInt s u \<Rightarrow> False
          | Undef \<Rightarrow> False
          | Inst inst \<Rightarrow> \<not> loop_contains m loop (block_of m v)
          | _ \<Rightarrow> True))"

definition nested_parameter :: "llvm_module \<Rightarrow> 64 word \<Rightarrow> nat \<Rightarrow> value_id \<Rightarrow> z3expr" where
  "nested_parameter m ident k v =
     z_const (''ari_nested_input_'' @ nat_to_string (unat ident) @ ''_'' @ nat_to_string k)
       (if ty_of m v = IntTy 1 then BoolSort else IntSort)"

definition add_external_inputs ::
    "accel_env \<Rightarrow> loop_id \<Rightarrow> 64 word \<Rightarrow> nested_inputs \<Rightarrow> nested_inputs exec" where
  "add_external_inputs A loop ident =
     fold_exec (\<lambda>v ins.
         if v \<in> set (in_values ins) \<or> \<not> is_external_scalar A loop v then give ins
         else add_input (pa_z3 A) (pa_module A) v
                (nested_parameter (pa_module A) ident (length (in_values ins)) v) ins)
       (concat (map (operands_of A) (loop_instructions (pa_module A) loop)))"

section \<open>The values that leave the loop\<close>

definition used_outside :: "accel_env \<Rightarrow> loop_id \<Rightarrow> value_id \<Rightarrow> bool" where
  "used_outside A loop v =
     (let m = pa_module A
      in list_ex (\<lambda>i. v \<in> set (operands_of A i) \<and> \<not> loop_contains m loop (block_of m i))
           (function_instructions m (function_of m (loop_header m loop))))"

definition live_outs :: "accel_env \<Rightarrow> loop_id \<Rightarrow> value_id list" where
  "live_outs A loop =
     (let m = pa_module A
      in filter (\<lambda>i. is_int_ty m i \<and> (is_header_phi m loop i \<or> used_outside A loop i)) (loop_instructions m loop))"

record nested_outputs =
  out_values :: "z3expr list"
  out_domain :: z3expr

definition add_output ::
    "z3_api \<Rightarrow> llvm_module \<Rightarrow> exec_state \<Rightarrow> (z3expr \<times> z3expr) list \<Rightarrow> value_id \<Rightarrow> nested_outputs \<Rightarrow> nested_outputs exec" where
  "add_output z m exiting s i outs =
     bind_exec (evaluate z m exiting i True) (\<lambda>e.
     bind_exec (term_of z e) (\<lambda>t.
     bind_exec (need AssertionFailed (defined_term z e)) (\<lambda>d.
       give \<lparr>out_values = out_values outs @ [z_simplify z (substitute s t)],
             out_domain = z_and (out_domain outs) (substitute s d)\<rparr>)))"

section \<open>The construction of a summary\<close>

text \<open>The trajectory stays inside, the state after it leaves the loop, and no assertion fails on the way.\<close>

definition nested_domain :: "composite \<Rightarrow> nested_iteration \<Rightarrow> z3expr \<Rightarrow> z3expr \<Rightarrow> z3expr list \<Rightarrow> z3expr list \<Rightarrow> z3expr \<Rightarrow> z3expr" where
  "nested_domain c r probe count at_probe final_values exit_path =
     z_and (z_and (z_and (z_ge count (z_int 0)) (substitute (zip (co_parameters c) final_values) exit_path))
       (z_forall [probe] (z_implies (before_count probe count)
          (substitute (zip (co_parameters c) at_probe) (co_guard c)))))
       (z_forall [probe] (z_implies (z_and (z_ge probe (z_int 0)) (z_le probe count))
          (z_not (substitute (zip (co_parameters c) at_probe) (ni_errors r)))))"

definition closed_at :: "z3_api \<Rightarrow> composite \<Rightarrow> z3expr \<Rightarrow> z3expr list" where
  "closed_at z c t = map (\<lambda>e. z_simplify z (form_at c t e)) (co_closed_forms c)"

definition nested_probe :: "64 word \<Rightarrow> z3expr" where
  "nested_probe ident = z_int_const (''ari_nested_t_'' @ nat_to_string (unat ident))"

text \<open>The exit of a loop with one test in its header: the block outside, and whether the test continues
  when it is true.\<close>

definition header_exit :: "llvm_module \<Rightarrow> loop_id \<Rightarrow> (block_id \<times> bool) option" where
  "header_exit m loop =
     (case map_option (kind_of m) (terminator_of m (loop_header m loop)) of
        Some (Inst (CondBr cond t f)) \<Rightarrow>
          if loop_latch m loop = None \<or> phis_of m (loop_header m loop) = [] \<or>
             loop_contains m loop t = loop_contains m loop f
          then None
          else Some (if loop_contains m loop t then f else t, loop_contains m loop t)
      | _ \<Rightarrow> None)"

text \<open>The summary of an explored iteration.\<close>

definition summary_of_iteration ::
    "accel_env \<Rightarrow> loop_id \<Rightarrow> 64 word \<Rightarrow> block_id \<Rightarrow> bool \<Rightarrow> nested_inputs \<Rightarrow> exec_state \<Rightarrow> exec_state \<Rightarrow> nested_iteration \<Rightarrow>
     nested_path_summary option exec" where
  "summary_of_iteration A loop ident exit_block first_inside ins returning exiting r =
     (let z = pa_z3 A; m = pa_module A
      in bind_exec (need AssertionFailed (map_option (block_of m) (pc returning))) (\<lambda>latch.
         bind_exec (term_of z (path_condition returning)) (\<lambda>path.
         bind_exec (bind_exec (phi_updates z m returning latch (phis_of m (loop_header m loop)) [] path)
             (need AssertionFailed)) (\<lambda>(updates, guard).
         bind_exec (path_symbol_for_final_state m loop returning) (\<lambda>symbol.
         bind_exec (solve_composite A loop [symbol] [(symbol, \<lparr>tr_guard = guard, tr_updates = updates\<rparr>)]) (\<lambda>c_opt.
           case c_opt of
             None \<Rightarrow> give None
           | Some c \<Rightarrow>
               bind_exec (nested_count_template A loop c exiting first_inside) (\<lambda>count_opt.
                 case count_opt of
                   None \<Rightarrow> give None
                 | Some count \<Rightarrow>
                     let final_values = closed_at z c count;
                         s = zip (co_parameters c) final_values
                     in bind_exec (term_of z (path_condition exiting)) (\<lambda>exit_path.
                        let domain = nested_domain c r (nested_probe ident) count
                              (closed_at z c (nested_probe ident)) final_values exit_path
                        in if list_ex (\<lambda>i. block_of m i \<noteq> loop_header m loop) (live_outs A loop) then give None
                           else bind_exec (fold_exec (add_output z m exiting s) (live_outs A loop)
                                    \<lparr>out_values = [], out_domain = domain\<rparr>) (\<lambda>outs.
                           let reduced = z_simplify z (case eliminate_quantifiers A 100 (out_domain outs) of
                                   Some d \<Rightarrow> d | None \<Rightarrow> out_domain outs)
                           in give (if has_foreign_symbols (in_parameters ins) reduced \<or>
                                       has_foreign_symbols (in_parameters ins) count \<or>
                                       list_ex (has_foreign_symbols (in_parameters ins)) (out_values outs)
                                    then None
                                    else Some \<lparr>nps_inputs = in_values ins, nps_parameters = in_parameters ins,
                                      nps_outputs = live_outs A loop, nps_values = out_values outs,
                                      nps_domain = reduced, nps_count = count, nps_exit = exit_block,
                                      nps_word = [symbol]\<rparr>))))))))))"

definition build_nested_summary ::
    "accel_env \<Rightarrow> (loop_id \<Rightarrow> exec_state \<Rightarrow> exec_state option tracked) \<Rightarrow> loop_id \<Rightarrow> exec_state \<Rightarrow>
     nested_path_summary option tracked" where
  "build_nested_summary A child_jump loop caller =
     (let z = pa_z3 A; m = pa_module A; phis = phis_of m (loop_header m loop)
      in case header_exit m loop of
           None \<Rightarrow> done_with None
         | Some (exit_block, first_inside) \<Rightarrow>
             bind_tracked (tracked (with_session next_path_expression_id)) (\<lambda>ident.
             bind_tracked (tracked (need AssertionFailed (first_non_phi_or_dbg m (loop_header m loop)))) (\<lambda>first.
               if \<not> list_all (is_scalar_phi m) phis then done_with None
               else bind_tracked (tracked (bind_exec (add_phi_inputs z m phis
                      \<lparr>in_values = [], in_parameters = [],
                       in_state = new_state z (Some first) None (copy_memory (mem caller)) (expression_of z z_true) []\<rparr>)
                      (add_external_inputs A loop ident))) (\<lambda>ins.
               bind_tracked (explore_nested_iteration A child_jump loop (in_state ins) exit_block) (\<lambda>iteration.
                 case iteration of
                   None \<Rightarrow> done_with None
                 | Some r \<Rightarrow>
                     bind_tracked (tracked (summary_of_iteration A loop ident exit_block first_inside ins
                         (the (ni_returning r)) (the (ni_exiting r)) r)) (\<lambda>summary.
                     bind_tracked (tracked (with_session (\<lambda>s. ((),
                         if summary = None then s else note_nested_path_summary s)))) (\<lambda>_.
                       done_with summary)))))))"

section \<open>The jump over a nested loop\<close>

text \<open>The input of a summary: a header node stands for the value it is about to take.\<close>

definition nested_input :: "llvm_module \<Rightarrow> loop_id \<Rightarrow> exec_state \<Rightarrow> value_id \<Rightarrow> value_id option" where
  "nested_input m loop st v =
     (case (if is_header_phi m loop v then incoming_value m v (last (trace st)) else Some v) of
        None \<Rightarrow> None
      | Some x \<Rightarrow>
          (case kind_of m x of
             ConstInt s u \<Rightarrow> Some x
           | _ \<Rightarrow> if get_object x (mem st) = None then None else Some x))"

fun nested_actuals ::
    "z3_api \<Rightarrow> llvm_module \<Rightarrow> loop_id \<Rightarrow> exec_state \<Rightarrow> value_id list \<Rightarrow> z3expr list \<Rightarrow> z3expr \<Rightarrow>
     (z3expr list \<times> z3expr) option exec" where
  "nested_actuals z m loop st [] actual d = give (Some (actual, d))"
| "nested_actuals z m loop st (v # vs) actual d =
     (case nested_input m loop st v of
        None \<Rightarrow> give None
      | Some x \<Rightarrow>
          bind_exec (evaluate z m st x True) (\<lambda>e.
          bind_exec (term_of z e) (\<lambda>t.
          bind_exec (need AssertionFailed (defined_term z e)) (\<lambda>dt.
            nested_actuals z m loop st vs (actual @ [t]) (z_and d dt)))))"

definition nested_loop_jump ::
    "z3_api \<Rightarrow> llvm_module \<Rightarrow> loop_id \<Rightarrow> nested_path_summary \<Rightarrow> (z3expr \<times> z3expr) list \<Rightarrow> exec_state \<Rightarrow> exec_state exec"
  where
  "nested_loop_jump z m loop nps s st =
     bind_exec (fold_exec (\<lambda>(v, t). store_temp m v (expression_of z (z_simplify z (substitute s t))))
         (zip (nps_outputs nps) (nps_values nps)) (copy_state st)) (\<lambda>st1.
     bind_exec (block_start m (nps_exit nps)) (\<lambda>next.
     bind_exec (with_session (\<lambda>ss. ((), note_path_acceleration ss))) (\<lambda>_.
       give ((step_pc m (Some next)
          ((set_history loop (append_symbolic_power (nps_word nps) (z_simplify z (substitute s (nps_count nps)))
              new_loop_path) st1)
            \<lparr>path_decisions := path_decisions st1 @ [(block_address (loop_header m loop), 2)],
             trace := trace st1 @ [loop_header m loop]\<rparr>))\<lparr>status_of := RUNNING\<rparr>))))"

definition apply_nested_summary ::
    "z3_api \<Rightarrow> llvm_module \<Rightarrow> loop_id \<Rightarrow> nested_path_summary \<Rightarrow> exec_state \<Rightarrow> exec_state option exec" where
  "apply_nested_summary z m loop nps st =
     bind_exec (nested_actuals z m loop st (nps_inputs nps) [] z_true) (\<lambda>result.
       case result of
         None \<Rightarrow> give None
       | Some (actual, d) \<Rightarrow>
           let s = zip (nps_parameters nps) actual; domain = z_and d (substitute s (nps_domain nps))
           in bind_exec (term_of z (path_condition st)) (\<lambda>path.
              if decide_unsat z (z_and path (z_not domain)) \<noteq> Unsat then give None
              else bind_exec (nested_loop_jump z m loop nps s st) (\<lambda>jump. give (Some jump))))"

text \<open>A cached summary, or a new one that enters the cache.\<close>

definition cached_nested_summary ::
    "accel_env \<Rightarrow> (loop_id \<Rightarrow> exec_state \<Rightarrow> exec_state option tracked) \<Rightarrow> loop_id \<Rightarrow> exec_state \<Rightarrow>
     nested_path_summary option tracked" where
  "cached_nested_summary A child_jump loop st =
     (\<lambda>s. case nested_path_summaries s loop of
        Some nps \<Rightarrow> (Inr (Some nps), s)
      | None \<Rightarrow>
          bind_tracked (catch_to_none (build_nested_summary A child_jump loop st)) (\<lambda>built s'.
            (case built of
               None \<Rightarrow> (Inr None, s')
             | Some nps \<Rightarrow>
                 (Inr (Some nps),
                  if nested_path_summaries s' loop = None
                  then s'\<lparr>nested_path_summaries := (nested_path_summaries s')(loop \<mapsto> nps)\<rparr> else s'))) s)"

text \<open>The recursion is on the loops inside a loop; the fuel bounds its depth.\<close>

fun accelerate_nested_loop :: "accel_env \<Rightarrow> nat \<Rightarrow> loop_id \<Rightarrow> exec_state \<Rightarrow> exec_state option tracked" where
  "accelerate_nested_loop A 0 loop st = tracked (fail NotReturned)"
| "accelerate_nested_loop A (Suc n) loop st =
     (if trace st = [] \<or> loop_contains (pa_module A) loop (last (trace st)) then done_with None
      else bind_tracked (cached_nested_summary A (accelerate_nested_loop A n) loop st) (\<lambda>summary.
             case summary of
               None \<Rightarrow> done_with None
             | Some nps \<Rightarrow> tracked (apply_nested_summary (pa_z3 A) (pa_module A) loop nps st)))"

definition nested_jump :: "accel_env \<Rightarrow> nat \<Rightarrow> loop_id \<Rightarrow> exec_state \<Rightarrow> exec_state option exec" where
  "nested_jump A n loop st = untracked (accelerate_nested_loop A n loop st)"

end
