(* ===== verification/Path_Acceleration_Correctness.thy ===== *)
theory Path_Acceleration_Correctness
  imports Path_Accelerator Recurrence_Correctness Memory_Correctness State_Correctness
begin

text \<open>
  The acceleration of a path word is exact.  The reference is the execution of guarded transitions on the
  values of the header nodes, one transition after the other (\<open>run_word\<close>).  The composite of a word is its
  execution; a certified closed form is the repeated execution, for every number of repetitions; the
  first-break relation holds of exactly the number after which the word can no longer be executed, and
  the jump has the values at that number.
\<close>

section \<open>Terms over the header nodes\<close>

text \<open>A term without quantifiers, in which the named constants are integers.\<close>

fun typed_over :: "string list \<Rightarrow> z3expr \<Rightarrow> bool" where
  "typed_over xs (App f es) =
     ((case f of OUninterp x s \<Rightarrow> es \<noteq> [] \<or> x \<notin> set xs \<or> s = IntSort | _ \<Rightarrow> True) \<and>
      list_all (typed_over xs) es)"
| "typed_over xs (Quant q ys b) = False"

lemma typed_over_quantifier_free: "typed_over xs e \<Longrightarrow> quantifier_free e"
  by (induction e) (auto simp: list_all_iff)

lemma typed_over_subterm:
  "typed_over xs e \<Longrightarrow> z_const x s \<in> set (subterms e) \<Longrightarrow> x \<in> set xs \<Longrightarrow> s = IntSort"
proof (induction e)
  case (App f es)
  show ?case
  proof (cases "z_const x s = App f es")
    case True
    then show ?thesis using App.prems by auto
  next
    case False
    then obtain e where "e \<in> set es" "z_const x s \<in> set (subterms e)" using App.prems(2) by auto
    then show ?thesis using App by (auto simp: list_all_iff)
  qed
qed simp

lemma bound_name: "map_of (zip (map z_int_const xs) ts) (z_int_const x) = Some d \<Longrightarrow> x \<in> set xs"
  by (induction xs ts rule: list_induct2') (auto split: if_splits)

lemma eval_at_terms:
  assumes len: "length ts = length xs" and ints: "list_all is_int ts" and e: "typed_over xs e"
  shows "eval I (substitute (zip (map z_int_const xs) ts) e) = eval (bind_ints I xs (map (ival I) ts)) e"
proof -
  have "well_named (zip (map z_int_const xs) ts) e"
    unfolding well_named_def
  proof (intro allI impI)
    fix x s assume sub: "z_const x s \<in> set (subterms e)"
      and "map_of (zip (map z_int_const xs) ts) (z_int_const x) \<noteq> None"
    then obtain d where "map_of (zip (map z_int_const xs) ts) (z_int_const x) = Some d" by blast
    then show "s = IntSort" using typed_over_subterm [OF e sub] bound_name by metis
  qed
  moreover have "int_substitution (zip (map z_int_const xs) ts)"
    unfolding int_substitution_def
  proof (clarify, intro conjI)
    fix a b assume ab: "(a, b) \<in> set (zip (map z_int_const xs) ts)"
    show "is_int b" using set_zip_rightD [OF ab] ints by (simp add: list_all_iff)
    show "\<exists>x. a = z_int_const x" using set_zip_leftD [OF ab] by auto
  qed
  moreover have "subst_interp I (zip (map z_int_const xs) ts) = bind_ints I xs (map (ival I) ts)"
    using subst_interp_bind [of xs ts I] len ints by (simp add: list_all_iff)
  ultimately show ?thesis
    using eval_substitute [OF _ typed_over_quantifier_free [OF e], of _ I] by simp
qed

lemma is_int_at_terms:
  assumes "length ts = length xs" "list_all is_int ts" "typed_over xs e" "is_int e"
  shows "is_int (substitute (zip (map z_int_const xs) ts) e)"
  using eval_at_terms [OF assms(1-3)] assms(4) unfolding is_int_def by (metis val_sort_eval)

lemma map_of_zip_member: "map_of (zip ks ts) k = Some d \<Longrightarrow> d \<in> set ts"
  by (meson map_of_SomeD set_zip_rightD)

lemma typed_over_at_terms:
  "typed_over ys e \<Longrightarrow> list_all (typed_over ys) ts \<Longrightarrow> typed_over ys (substitute (zip ks ts) e)"
proof (induction e)
  case (App f es)
  show ?case
  proof (cases "map_of (zip ks ts) (App f es)")
    case None
    then show ?thesis using App by (auto simp: list_all_iff split: z3op.splits)
  next
    case (Some d)
    then show ?thesis using App.prems(2) map_of_zip_member [OF Some] by (simp add: list_all_iff)
  qed
qed simp

lemma mentions_at_terms:
  "\<not> mentions x e \<Longrightarrow> list_all (\<lambda>t. \<not> mentions x t) ts \<Longrightarrow> quantifier_free e \<Longrightarrow>
     \<not> mentions x (substitute (zip ks ts) e)"
proof (induction e)
  case (App f es)
  show ?case
  proof (cases "map_of (zip ks ts) (App f es)")
    case None
    then show ?thesis using App by (auto simp: list_all_iff list_ex_iff)
  next
    case (Some d)
    then show ?thesis using App.prems(2) map_of_zip_member [OF Some] by (simp add: list_all_iff)
  qed
qed simp

lemma eval_bind_fresh:
  "quantifier_free e \<Longrightarrow> list_all (\<lambda>x. \<not> mentions x e) xs \<Longrightarrow> eval (bind_ints I xs vs) e = eval I e"
proof (induction e)
  case (App f es)
  have args: "map (eval (bind_ints I xs vs)) es = map (eval I) es"
    using App by (fastforce simp: list_all_iff list_ex_iff)
  have "apply_op (bind_ints I xs vs) f ws = apply_op I f ws" for ws
  proof (cases "\<exists>x s. f = OUninterp x s")
    case True
    then obtain x s where f: "f = OUninterp x s" by blast
    then have "x \<notin> set xs" using App.prems(2) by (auto simp: list_all_iff)
    then have "map_of (zip xs vs) x = None" by (auto simp: map_of_eq_None_iff dest: set_zip_leftD)
    then show ?thesis by (simp add: f bind_ints_def)
  next
    case False
    have "bind_ints I xs vs g [v] = I g [v]" for g v by (simp add: bind_ints_def)
    then show ?thesis using False by (cases f) (auto cong: if_cong)
  qed
  then show ?case by (simp only: eval.simps args)
qed simp

lemma map_of_zip_None: "length vs = length xs \<Longrightarrow> map_of (zip xs vs) x = None \<longleftrightarrow> x \<notin> set xs"
  by (simp add: map_of_zip_is_None)

lemma bind_ints_again:
  "length vs = length xs \<Longrightarrow> length ws = length xs \<Longrightarrow> bind_ints (bind_ints I xs vs) xs ws = bind_ints I xs ws"
  by (fastforce simp: bind_ints_def fun_eq_iff map_of_zip_None split: option.splits
      dest: map_of_SomeD set_zip_leftD)

lemma bind_ints_swap:
  "n \<notin> set xs \<Longrightarrow> bind_ints (bind_ints I [n] [k]) xs vs = bind_ints (bind_ints I xs vs) [n] [k]"
  by (auto simp: bind_ints_def fun_eq_iff split: option.splits dest!: map_of_SomeD set_zip_leftD)

lemma ival_bound: "ival (bind_ints I [n] [k]) (z_int_const n) = k"
  by (simp add: ival_def bind_ints_def)

lemma bind_ints_same: "I n [] = VInt k \<Longrightarrow> bind_ints I [n] [k] = I"
  by (auto simp: bind_ints_def fun_eq_iff)

section \<open>The execution of a word\<close>

fun run_word :: "transitions \<Rightarrow> string list \<Rightarrow> interp \<Rightarrow> path_word \<Rightarrow> int list \<Rightarrow> int list option" where
  "run_word ts xs I [] vs = Some vs"
| "run_word ts xs I (a # w) vs =
     (case map_of ts a of
        None \<Rightarrow> None
      | Some t \<Rightarrow>
          if holds (bind_ints I xs vs) (tr_guard t)
          then run_word ts xs I w (map (ival (bind_ints I xs vs)) (tr_updates t)) else None)"

lemma run_word_append:
  "run_word ts xs I (u @ w) vs = Option.bind (run_word ts xs I u vs) (run_word ts xs I w)"
  by (induction u arbitrary: vs) (auto split: option.splits)

definition transition_ok :: "string list \<Rightarrow> scalar_transition \<Rightarrow> bool" where
  "transition_ok xs t \<longleftrightarrow> typed_over xs (tr_guard t) \<and> list_all (\<lambda>u. typed_over xs u \<and> is_int u) (tr_updates t)"

definition transitions_ok :: "string list \<Rightarrow> transitions \<Rightarrow> bool" where
  "transitions_ok xs ts = list_all (\<lambda>(a, t). transition_ok xs t) ts"

lemma transitions_okD: "transitions_ok xs ts \<Longrightarrow> map_of ts a = Some t \<Longrightarrow> transition_ok xs t"
  by (auto simp: transitions_ok_def list_all_iff dest: map_of_SomeD)

lemma list_all_map_ok: "list_all P (map f xs) \<longleftrightarrow> list_all (\<lambda>x. P (f x)) xs"
  by (simp add: list.pred_map comp_def)

text \<open>The composite of a word is its execution: the guard says whether the word can be executed, the
  terms are the values after it.\<close>

lemma compose_word_run:
  assumes "transitions_ok xs ts"
  shows "compose_word ts (map z_int_const xs) w (guard, current) = Some (g, final) \<Longrightarrow>
    length current = length xs \<Longrightarrow> list_all (\<lambda>t. typed_over xs t \<and> is_int t) current \<Longrightarrow> length vs = length xs \<Longrightarrow>
    length final = length xs \<and> list_all (\<lambda>t. typed_over xs t \<and> is_int t) final \<and>
    (let J = bind_ints I xs vs
     in holds J g \<longleftrightarrow> holds J guard \<and> run_word ts xs I w (map (ival J) current) \<noteq> None) \<and>
    (let J = bind_ints I xs vs
     in holds J g \<longrightarrow> run_word ts xs I w (map (ival J) current) = Some (map (ival J) final))"
proof (induction w arbitrary: guard current)
  case (Cons a w)
  let ?J = "bind_ints I xs vs" and ?s = "zip (map z_int_const xs) current"
  obtain t where t: "map_of ts a = Some t" "length (tr_updates t) = length current"
    and rest: "compose_word ts (map z_int_const xs) w
      (z_and guard (substitute ?s (tr_guard t)), map (substitute ?s) (tr_updates t)) = Some (g, final)"
    using Cons.prems(1) by (auto split: option.splits if_splits)
  have ok: "typed_over xs (tr_guard t)" "list_all (\<lambda>u. typed_over xs u \<and> is_int u) (tr_updates t)"
    using transitions_okD [OF assms t(1)] by (simp_all add: transition_ok_def)
  have ints: "list_all is_int current" "list_all (typed_over xs) current"
    using Cons.prems(3) by (simp_all add: list_all_iff)
  have J: "bind_ints ?J xs (map (ival ?J) current) = bind_ints I xs (map (ival ?J) current)"
    using bind_ints_again Cons.prems(2,4) by simp
  have ev: "eval ?J (substitute ?s e) = eval (bind_ints I xs (map (ival ?J) current)) e" if "typed_over xs e" for e
    using eval_at_terms [OF Cons.prems(2) ints(1) that, of ?J] unfolding J .
  have "list_all (\<lambda>t. typed_over xs t \<and> is_int t) (map (substitute ?s) (tr_updates t))"
    using ok(2) ints typed_over_at_terms is_int_at_terms [OF Cons.prems(2) ints(1)]
    by (auto simp: list_all_iff)
  then have IH: "length final = length xs" "list_all (\<lambda>t. typed_over xs t \<and> is_int t) final"
      "holds ?J g \<longleftrightarrow> holds ?J (z_and guard (substitute ?s (tr_guard t))) \<and>
         run_word ts xs I w (map (ival ?J) (map (substitute ?s) (tr_updates t))) \<noteq> None"
      "holds ?J g \<Longrightarrow> run_word ts xs I w (map (ival ?J) (map (substitute ?s) (tr_updates t))) = Some (map (ival ?J) final)"
    using Cons.IH [OF rest] t(2) Cons.prems(2,4) by (simp_all add: Let_def)
  have guard: "holds ?J (substitute ?s (tr_guard t)) \<longleftrightarrow>
      holds (bind_ints I xs (map (ival ?J) current)) (tr_guard t)"
    using ev [OF ok(1)] by (simp add: holds_def)
  have updates: "map (ival ?J) (map (substitute ?s) (tr_updates t)) =
      map (ival (bind_ints I xs (map (ival ?J) current))) (tr_updates t)"
    using ok(2) ev by (auto simp: ival_def list_all_iff)
  show ?case
    using IH guard unfolding updates by (auto simp: t(1) Let_def holds_connectives)
qed (auto simp: Let_def)

section \<open>Certified closed forms\<close>

definition composite_wf :: "string list \<Rightarrow> string \<Rightarrow> composite \<Rightarrow> bool" where
  "composite_wf xs n c \<longleftrightarrow>
     distinct (n # xs) \<and> co_parameters c = map z_int_const xs \<and> co_index c = z_int_const n \<and>
     length (co_one_step c) = length xs \<and> length (co_closed_forms c) = length xs \<and>
     typed_over xs (co_guard c) \<and> \<not> mentions n (co_guard c) \<and>
     list_all (\<lambda>t. typed_over xs t \<and> is_int t \<and> \<not> mentions n t) (co_one_step c) \<and>
     list_all (\<lambda>t. typed_over (n # xs) t \<and> is_int t) (co_closed_forms c)"

definition step_values :: "composite \<Rightarrow> string list \<Rightarrow> interp \<Rightarrow> int list \<Rightarrow> int list" where
  "step_values c xs I vs = map (ival (bind_ints I xs vs)) (co_one_step c)"

definition closed_values :: "composite \<Rightarrow> string list \<Rightarrow> string \<Rightarrow> interp \<Rightarrow> int list \<Rightarrow> int \<Rightarrow> int list" where
  "closed_values c xs n I vs k = map (ival (bind_ints (bind_ints I xs vs) [n] [k])) (co_closed_forms c)"

lemma holds_foldl_z_or: "holds I (foldl z_or a es) \<longleftrightarrow> holds I a \<or> (\<exists>e\<in>set es. holds I e)"
  by (induction es arbitrary: a) (auto simp: holds_connectives)

lemma typed_over_subset: "typed_over xs e \<Longrightarrow> set ys \<subseteq> set xs \<Longrightarrow> typed_over ys e"
  by (induction e) (auto simp: list_all_iff split: z3op.splits)

lemma eval_form_at:
  assumes "typed_over (n # xs) e" "is_int t"
  shows "eval I (substitute [(z_int_const n, t)] e) = eval (bind_ints I [n] [ival I t]) e"
  using eval_at_terms [of "[t]" "[n]" e I] typed_over_subset [OF assms(1), of "[n]"] assms(2) by simp

lemma parameter_values:
  assumes "distinct xs" "length vs = length xs"
  shows "map (ival (bind_ints I xs vs)) (map z_int_const xs) = vs"
  using assms bind_ints_nth [OF assms] by (auto intro!: nth_equalityI simp: ival_def)

lemma no_failure:
  assumes "check_ok z" "z_check z [f] = Unsat"
  shows "\<not> holds I f"
  using check_unsat [OF assms, of I] by simp

lemma base_case:
  assumes wf: "composite_wf xs n c" and base: "\<not> holds (bind_ints I xs vs) (base_failure c)"
    and len: "length vs = length xs"
  shows "closed_values c xs n I vs 0 = vs"
proof (rule nth_equalityI)
  show l: "length (closed_values c xs n I vs 0) = length vs"
    using wf len by (simp add: closed_values_def composite_wf_def)
  fix i assume "i < length (closed_values c xs n I vs 0)"
  then have i: "i < length xs" using l len by simp
  let ?J = "bind_ints I xs vs" and ?e = "co_closed_forms c ! i"
  have e: "typed_over (n # xs) ?e" "is_int ?e"
    using wf i by (auto simp: composite_wf_def list_all_length)
  have "(?e, z_int_const (xs ! i)) \<in> set (zip (co_closed_forms c) (co_parameters c))"
    using wf i by (auto simp: composite_wf_def in_set_zip intro!: exI [of _ i])
  then have "\<not> holds ?J (z_ne (form_at c (z_int 0) ?e) (z_int_const (xs ! i)))"
    using base unfolding base_failure_def holds_foldl_z_or by force
  then have "eval ?J (form_at c (z_int 0) ?e) = eval ?J (z_int_const (xs ! i))"
    by (simp add: holds_ne)
  moreover have "eval ?J (form_at c (z_int 0) ?e) = eval (bind_ints ?J [n] [0]) ?e"
    using eval_form_at [OF e(1), of "z_int 0" ?J] wf by (simp add: form_at_def composite_wf_def ival_arith)
  moreover have "eval ?J (z_int_const (xs ! i)) = VInt (vs ! i)"
    using bind_ints_nth [of xs vs i I] wf len i by (simp add: composite_wf_def)
  ultimately show "closed_values c xs n I vs 0 ! i = vs ! i"
    using wf i by (simp add: closed_values_def composite_wf_def ival_def)
qed

lemma step_case:
  assumes wf: "composite_wf xs n c" and len: "length vs = length xs"
    and step: "\<not> holds (bind_ints (bind_ints I xs vs) [n] [k]) (step_failure c)"
  shows "closed_values c xs n I vs (k + 1) = step_values c xs I (closed_values c xs n I vs k)"
proof (rule nth_equalityI)
  show l: "length (closed_values c xs n I vs (k + 1)) = length (step_values c xs I (closed_values c xs n I vs k))"
    using wf by (simp add: closed_values_def step_values_def composite_wf_def)
  fix i assume "i < length (closed_values c xs n I vs (k + 1))"
  then have i: "i < length xs" using wf by (simp add: closed_values_def composite_wf_def)
  let ?K = "bind_ints (bind_ints I xs vs) [n] [k]"
  let ?at = "map (form_at c (co_index c)) (co_closed_forms c)"
  have wf': "co_index c = z_int_const n" "co_parameters c = map z_int_const xs" "n \<notin> set xs"
      "length (co_closed_forms c) = length xs" "length (co_one_step c) = length xs"
    using wf by (simp_all add: composite_wf_def)
  have forms: "list_all (\<lambda>t. typed_over (n # xs) t \<and> is_int t) (co_closed_forms c)"
    using wf by (simp add: composite_wf_def)
  have e: "typed_over (n # xs) (co_closed_forms c ! i)" using forms i wf' by (simp add: list_all_length)
  have s: "typed_over xs (co_one_step c ! i)" "\<not> mentions n (co_one_step c ! i)"
    using wf i by (auto simp: composite_wf_def list_all_length)
  have K: "ival ?K (z_int_const n) = k" by (rule ival_bound)
  have again: "bind_ints ?K [n] [j] = bind_ints (bind_ints I xs vs) [n] [j]" for j
    by (rule bind_ints_again) simp_all
  have succ: "eval ?K (form_at c (z_add (co_index c) (z_int 1)) (co_closed_forms c ! i)) =
      eval (bind_ints (bind_ints I xs vs) [n] [k + 1]) (co_closed_forms c ! i)"
    using eval_form_at [OF e, of "z_add (z_int_const n) (z_int 1)" ?K]
    by (simp add: form_at_def wf'(1) ival_arith K again del: eval.simps)
  have at: "eval ?K (form_at c (co_index c) t) = eval ?K t" if "typed_over (n # xs) t" for t
    using eval_form_at [OF that, of "z_int_const n" ?K] by (simp add: form_at_def wf'(1) K again del: eval.simps)
  have vals: "map (ival ?K) ?at = closed_values c xs n I vs k"
    using at forms by (auto simp: closed_values_def ival_def list_all_iff simp del: eval.simps)
  have is_int_at: "is_int (form_at c (co_index c) t)" if "typed_over (n # xs) t" "is_int t" for t
    using at [OF that(1)] that(2) unfolding is_int_def by (metis val_sort_eval)
  have "list_all is_int ?at" using forms is_int_at by (auto simp: list_all_iff)
  then have "eval ?K (substitute (zip (co_parameters c) ?at) (co_one_step c ! i)) =
      eval (bind_ints ?K xs (closed_values c xs n I vs k)) (co_one_step c ! i)"
    using eval_at_terms [of ?at xs _ ?K] s(1) wf'(2,4) vals by simp
  also have "bind_ints ?K xs (closed_values c xs n I vs k) =
      bind_ints (bind_ints I xs (closed_values c xs n I vs k)) [n] [k]"
    unfolding bind_ints_swap [OF wf'(3), symmetric]
    using bind_ints_again [of vs xs "closed_values c xs n I vs k" "bind_ints I [n] [k]"] len wf'(4)
    by (simp add: closed_values_def)
  also have "eval \<dots> (co_one_step c ! i) = eval (bind_ints I xs (closed_values c xs n I vs k)) (co_one_step c ! i)"
    using eval_bind_fresh [of "co_one_step c ! i" "[n]"] typed_over_quantifier_free [OF s(1)] s(2) by simp
  finally have stepped: "eval ?K (substitute (zip (co_parameters c) ?at) (co_one_step c ! i)) =
      eval (bind_ints I xs (closed_values c xs n I vs k)) (co_one_step c ! i)" .
  have "(co_closed_forms c ! i, co_one_step c ! i) \<in> set (zip (co_closed_forms c) (co_one_step c))"
    using wf' i by (auto simp: in_set_zip intro!: exI [of _ i])
  then have "\<not> holds ?K (z_ne (form_at c (z_add (co_index c) (z_int 1)) (co_closed_forms c ! i))
      (substitute (zip (co_parameters c) ?at) (co_one_step c ! i)))"
    using step unfolding step_failure_def Let_def holds_foldl_z_or by force
  then show "closed_values c xs n I vs (k + 1) ! i = step_values c xs I (closed_values c xs n I vs k) ! i"
    using succ stepped wf' i by (simp add: closed_values_def step_values_def ival_def holds_ne)
qed

text \<open>What the solver certified holds for every number of repetitions.\<close>

lemma certified_forms:
  assumes "check_ok z" "composite_wf xs n c" "certify_closed_forms z c" "length vs = length xs"
  shows "closed_values c xs n I vs (int k) = (step_values c xs I ^^ k) vs"
proof (induction k)
  case 0
  have "\<not> holds (bind_ints I xs vs) (base_failure c)"
    using no_failure [OF assms(1)] assms(3) by (simp add: certify_closed_forms_def decide_unsat_def)
  then show ?case using base_case [OF assms(2) _ assms(4)] by simp
next
  case (Suc k)
  let ?K = "bind_ints (bind_ints I xs vs) [n] [int k]"
  have "co_index c = z_int_const n" using assms(2) by (simp add: composite_wf_def)
  then have "ival ?K (co_index c) = int k" using ival_bound by simp
  moreover have "\<not> holds ?K (z_and (z_ge (co_index c) (z_int 0)) (step_failure c))"
    using no_failure [OF assms(1)] assms(3) by (simp add: certify_closed_forms_def decide_unsat_def)
  ultimately have "\<not> holds ?K (step_failure c)"
    by (simp add: holds_connectives holds_comparisons ival_arith)
  then have "closed_values c xs n I vs (int k + 1) = step_values c xs I (closed_values c xs n I vs (int k))"
    by (rule step_case [OF assms(2,4)])
  then show ?case using Suc by (simp add: add.commute)
qed


section \<open>Repetitions of a word\<close>

text \<open>The composite stands for the word.\<close>

definition composite_of :: "transitions \<Rightarrow> string list \<Rightarrow> path_word \<Rightarrow> composite \<Rightarrow> bool" where
  "composite_of ts xs w c \<longleftrightarrow> (\<forall>I vs. length vs = length xs \<longrightarrow>
     run_word ts xs I w vs =
       (if holds (bind_ints I xs vs) (co_guard c) then Some (step_values c xs I vs) else None))"

lemma length_steps:
  "length (co_one_step c) = length xs \<Longrightarrow> length vs = length xs \<Longrightarrow>
     length ((step_values c xs I ^^ k) vs) = length xs"
  by (induction k) (simp_all add: step_values_def)

lemma run_word_rep:
  assumes "composite_of ts xs w c" "length (co_one_step c) = length xs" "length vs = length xs"
  shows "run_word ts xs I (rep k w) vs =
    (if \<forall>j<k. holds (bind_ints I xs ((step_values c xs I ^^ j) vs)) (co_guard c)
     then Some ((step_values c xs I ^^ k) vs) else None)"
proof (induction k)
  case (Suc k)
  have "rep (Suc k) w = rep k w @ w" by (simp add: rep_comm)
  then have "run_word ts xs I (rep (Suc k) w) vs = Option.bind (run_word ts xs I (rep k w) vs) (run_word ts xs I w)"
    by (simp only: run_word_append)
  moreover have "run_word ts xs I w ((step_values c xs I ^^ k) vs) =
      (if holds (bind_ints I xs ((step_values c xs I ^^ k) vs)) (co_guard c)
       then Some ((step_values c xs I ^^ Suc k) vs) else None)"
    using assms(1) length_steps [OF assms(2,3)] by (simp add: composite_of_def)
  ultimately show ?case using Suc by (auto simp: less_Suc_eq)
qed simp

section \<open>The relation of the first break\<close>

text \<open>The current values: integer terms that do not mention the names the acceleration makes up.\<close>

definition start_terms :: "string list \<Rightarrow> z3expr list \<Rightarrow> bool" where
  "start_terms names ts = list_all (\<lambda>t. is_int t \<and> quantifier_free t \<and> list_all (\<lambda>x. \<not> mentions x t) names) ts"

definition composite_avoids :: "string \<Rightarrow> composite \<Rightarrow> bool" where
  "composite_avoids x c \<longleftrightarrow> \<not> mentions x (co_guard c) \<and> list_all (\<lambda>t. \<not> mentions x t) (co_one_step c) \<and>
     list_all (\<lambda>t. \<not> mentions x t) (co_closed_forms c) \<and> \<not> mentions x (co_index c) \<and>
     list_all (\<lambda>t. \<not> mentions x t) (co_parameters c)"

lemma typed_over_fresh: "quantifier_free e \<Longrightarrow> \<not> mentions n e \<Longrightarrow> typed_over [n] e"
  by (induction e) (auto simp: list_all_iff list_ex_iff split: z3op.splits)

lemma start_terms_fresh:
  assumes "start_terms names ts" "x \<in> set names"
  shows "map (ival (bind_ints I [x] [k])) ts = map (ival I) ts" "list_all (typed_over [x]) ts"
proof -
  have t: "quantifier_free t" "\<not> mentions x t" if "t \<in> set ts" for t
    using assms that by (auto simp: start_terms_def list_all_iff)
  show "map (ival (bind_ints I [x] [k])) ts = map (ival I) ts"
    using t eval_bind_fresh [of _ "[x]"] by (simp add: ival_def)
  show "list_all (typed_over [x]) ts" using t typed_over_fresh by (auto simp: list_all_iff)
qed

lemma eval_from_current:
  assumes wf: "composite_wf xs n c" and init: "start_terms names initial" "n \<in> set names"
    and len: "length initial = length xs" and e: "e \<in> set (co_closed_forms c)"
  shows "eval (bind_ints I [n] [k]) (substitute (zip (co_parameters c) initial) e) =
      eval (bind_ints (bind_ints I xs (map (ival I) initial)) [n] [k]) e"
    "is_int (substitute (zip (co_parameters c) initial) e)"
    "typed_over [n] (substitute (zip (co_parameters c) initial) e)"
proof -
  have wf': "co_parameters c = map z_int_const xs" "n \<notin> set xs"
    and form: "typed_over (n # xs) e" "is_int e"
    using wf e by (auto simp: composite_wf_def list_all_iff)
  have over: "typed_over xs e" "typed_over [n] e"
    using typed_over_subset [OF form(1)] by (auto simp: subset_iff)
  have ints: "list_all is_int initial" using init(1) by (auto simp: start_terms_def list_all_iff)
  have "eval (bind_ints I [n] [k]) (substitute (zip (map z_int_const xs) initial) e) =
      eval (bind_ints (bind_ints I [n] [k]) xs (map (ival (bind_ints I [n] [k])) initial)) e"
    by (rule eval_at_terms [OF len ints over(1)])
  also have "\<dots> = eval (bind_ints (bind_ints I xs (map (ival I) initial)) [n] [k]) e"
    by (simp only: start_terms_fresh(1) [OF init] bind_ints_swap [OF wf'(2)])
  finally show "eval (bind_ints I [n] [k]) (substitute (zip (co_parameters c) initial) e) =
      eval (bind_ints (bind_ints I xs (map (ival I) initial)) [n] [k]) e" unfolding wf'(1) .
  show "is_int (substitute (zip (co_parameters c) initial) e)"
    unfolding wf'(1) by (rule is_int_at_terms [OF len ints over(1) form(2)])
  show "typed_over [n] (substitute (zip (co_parameters c) initial) e)"
    by (rule typed_over_at_terms [OF over(2) start_terms_fresh(2) [OF init]])
qed

text \<open>The closed forms over the current values, at the value of a term.\<close>

lemma values_at_term:
  assumes wf: "composite_wf xs n c" and init: "start_terms names initial" "n \<in> set names"
    and len: "length initial = length xs" and t: "is_int t"
  shows "map (ival I) (map (form_at c t) (from_current c initial)) =
    closed_values c xs n I (map (ival I) initial) (ival I t)"
proof -
  have "ival I (form_at c t (substitute (zip (co_parameters c) initial) e)) =
      ival (bind_ints (bind_ints I xs (map (ival I) initial)) [n] [ival I t]) e"
    if "e \<in> set (co_closed_forms c)" for e
    using eval_at_terms [of "[t]" "[n]" _ I] eval_from_current [OF wf init len that] t wf
    by (simp add: form_at_def composite_wf_def ival_def del: eval.simps)
  then show ?thesis by (simp add: from_current_def closed_values_def)
qed

lemma guard_at_term:
  assumes wf: "composite_wf xs n c" and init: "start_terms names initial" "n \<in> set names"
    and len: "length initial = length xs" and t: "is_int t"
  shows "holds I (guard_at c initial t) \<longleftrightarrow>
    holds (bind_ints I xs (closed_values c xs n I (map (ival I) initial) (ival I t))) (co_guard c)"
proof -
  let ?g = "substitute (zip (co_parameters c) (from_current c initial)) (co_guard c)"
  let ?K = "bind_ints I [n] [ival I t]"
  have wf': "co_parameters c = map z_int_const xs" "n \<notin> set xs" "typed_over xs (co_guard c)"
      "\<not> mentions n (co_guard c)" "length (co_closed_forms c) = length xs" "co_index c = z_int_const n"
    using wf by (auto simp: composite_wf_def)
  have forms: "list_all is_int (from_current c initial)" "list_all (typed_over [n]) (from_current c initial)"
    using eval_from_current [OF wf init len] by (auto simp: from_current_def list_all_iff)
  have qf: "quantifier_free (co_guard c)" using typed_over_quantifier_free wf'(3) by blast
  have "typed_over [n] ?g" by (rule typed_over_at_terms [OF typed_over_fresh [OF qf wf'(4)] forms(2)])
  then have "eval I (guard_at c initial t) = eval ?K ?g"
    using eval_at_terms [of "[t]" "[n]" ?g I] t by (simp add: guard_at_def form_at_def wf'(6) del: eval.simps)
  also have "\<dots> = eval (bind_ints ?K xs (map (ival ?K) (from_current c initial))) (co_guard c)"
    using eval_at_terms [OF _ forms(1) wf'(3), of ?K] wf'(1,5) by (simp add: from_current_def)
  also have "map (ival ?K) (from_current c initial) = closed_values c xs n I (map (ival I) initial) (ival I t)"
    using eval_from_current(1) [OF wf init len] by (simp add: from_current_def closed_values_def ival_def)
  also have "eval (bind_ints ?K xs (closed_values c xs n I (map (ival I) initial) (ival I t))) (co_guard c) =
      eval (bind_ints I xs (closed_values c xs n I (map (ival I) initial) (ival I t))) (co_guard c)"
    using eval_bind_fresh [of "co_guard c" "[n]"] qf wf'(4) by (simp add: bind_ints_swap [OF wf'(2)])
  finally show ?thesis by (simp add: holds_def)
qed


lemma avoids_names:
  assumes "composite_wf xs n c" "composite_avoids x c"
  shows "x \<notin> set xs" "x \<noteq> n"
  using assms by (auto simp: composite_wf_def composite_avoids_def list_all_iff)

lemma closed_values_fresh:
  assumes wf: "composite_wf xs n c" and avoids: "composite_avoids x c"
  shows "closed_values c xs n (bind_ints I [x] [j]) vs k = closed_values c xs n I vs k"
proof -
  have x: "x \<notin> set xs" "x \<notin> set [n]" using avoids_names [OF assms] by simp_all
  have "eval (bind_ints (bind_ints (bind_ints I xs vs) [n] [k]) [x] [j]) e = eval (bind_ints (bind_ints I xs vs) [n] [k]) e"
    if "e \<in> set (co_closed_forms c)" for e
    using eval_bind_fresh [of e "[x]"] typed_over_quantifier_free [of "n # xs" e] wf avoids that
    by (auto simp: composite_wf_def composite_avoids_def list_all_iff)
  then show ?thesis
    by (simp add: closed_values_def ival_def bind_ints_swap [OF x(1)] bind_ints_swap [OF x(2)])
qed

lemma guard_fresh:
  assumes wf: "composite_wf xs n c" and avoids: "composite_avoids x c"
  shows "holds (bind_ints (bind_ints I [x] [j]) xs vs) (co_guard c) \<longleftrightarrow> holds (bind_ints I xs vs) (co_guard c)"
  using eval_bind_fresh [of "co_guard c" "[x]"] typed_over_quantifier_free [of xs "co_guard c"] assms
  by (simp add: holds_def bind_ints_swap [OF avoids_names(1) [OF assms]] composite_wf_def composite_avoids_def)

lemma holds_forall1:
  "holds I (z_forall [z_int_const p] f) \<longleftrightarrow> (\<forall>j. holds (bind_ints I [p] [j]) f)"
proof -
  have "(\<forall>vs. length vs = length [z_int_const p] \<longrightarrow> P vs) \<longleftrightarrow> (\<forall>j. P [j :: int])" for P
    by (auto simp: length_Suc_conv)
  then show ?thesis by (simp add: z_forall_def holds_def)
qed

lemma holds_exists1:
  "holds I (z_exists [z_int_const p] f) \<longleftrightarrow> (\<exists>j. holds (bind_ints I [p] [j]) f)"
  using holds_exists [of I "[z_int_const p]" f] by (auto simp: length_Suc_conv)

lemma ival_other: "x \<noteq> p \<Longrightarrow> ival (bind_ints I [p] [j]) (z_int_const x) = ival I (z_int_const x)"
  by (simp add: ival_def bind_ints_def)

text \<open>A guard that must hold at every index below the count.\<close>

lemma guards_before_count:
  assumes wf: "composite_wf xs n c" and init: "start_terms [n, p] initial" and len: "length initial = length xs"
    and avoids: "composite_avoids p c" and q: "q \<noteq> p"
  shows "holds I (z_forall [z_int_const p] (z_implies (before_count (z_int_const p) (z_int_const q))
      (guard_at c initial (z_int_const p)))) \<longleftrightarrow>
    (\<forall>j. 0 \<le> j \<and> j < ival I (z_int_const q) \<longrightarrow>
       holds (bind_ints I xs (closed_values c xs n I (map (ival I) initial) j)) (co_guard c))"
proof -
  let ?K = "\<lambda>j. bind_ints I [p] [j]"
  have "holds (?K j) (guard_at c initial (z_int_const p)) \<longleftrightarrow>
      holds (bind_ints I xs (closed_values c xs n I (map (ival I) initial) j)) (co_guard c)" for j
    using guard_at_term [OF wf init _ len, of "z_int_const p" "?K j"] start_terms_fresh(1) [OF init, of p I j]
    by (simp add: ival_bound closed_values_fresh [OF wf avoids] guard_fresh [OF wf avoids])
  then show ?thesis
    by (simp add: holds_forall1 before_count_def holds_connectives holds_comparisons ival_arith ival_bound
        ival_other [OF q])
qed

text \<open>The first-break relation counts the repetitions after which the word cannot be executed.\<close>

lemma first_break_run:
  assumes check: "check_ok z" and wf: "composite_wf xs n c" and cert: "certify_closed_forms z c"
    and comp: "composite_of ts xs w c"
    and init: "start_terms [n, p] initial" and len: "length initial = length xs"
    and avoids: "composite_avoids p c" and q: "q \<noteq> p"
  shows "holds I (first_break c initial (z_int_const p) (z_int_const q)) \<longleftrightarrow>
    (\<exists>k\<ge>1. ival I (z_int_const q) = int k \<and> run_word ts xs I (rep k w) (map (ival I) initial) \<noteq> None \<and>
       run_word ts xs I (rep (Suc k) w) (map (ival I) initial) = None)"
proof -
  let ?vs = "map (ival I) initial" and ?count = "ival I (z_int_const q)"
  let ?G = "\<lambda>j. holds (bind_ints I xs ((step_values c xs I ^^ j) ?vs)) (co_guard c)"
  have vs: "length ?vs = length xs" using len by simp
  have steps: "length (co_one_step c) = length xs" using wf by (simp add: composite_wf_def)
  note runs = run_word_rep [OF comp steps vs]
  have closed: "closed_values c xs n I ?vs (int j) = (step_values c xs I ^^ j) ?vs" for j
    by (rule certified_forms [OF check wf cert vs])
  have broken: "holds I (guard_at c initial (z_int_const q)) \<longleftrightarrow> ?G k" if "?count = int k" for k
    using guard_at_term [OF wf init _ len, of "z_int_const q" I] closed that by simp
  have before: "(\<forall>j. 0 \<le> j \<and> j < ?count \<longrightarrow>
        holds (bind_ints I xs (closed_values c xs n I ?vs j)) (co_guard c)) \<longleftrightarrow> (\<forall>j<k. ?G j)"
    if "?count = int k" for k
    by (metis closed that nat_0_le of_nat_0_le_iff of_nat_less_iff)
  have "holds I (first_break c initial (z_int_const p) (z_int_const q)) \<longleftrightarrow>
      (\<exists>k\<ge>1. ?count = int k \<and> (\<forall>j<k. ?G j) \<and> \<not> ?G k)"
  proof
    assume "holds I (first_break c initial (z_int_const p) (z_int_const q))"
    then have "1 \<le> ?count" and rest: "\<forall>j. 0 \<le> j \<and> j < ?count \<longrightarrow>
        holds (bind_ints I xs (closed_values c xs n I ?vs j)) (co_guard c)"
      "\<not> holds I (guard_at c initial (z_int_const q))"
      unfolding first_break_def holds_connectives
      using guards_before_count [OF wf init len avoids q]
      by (simp_all add: holds_connectives holds_comparisons ival_arith)
    moreover from this have "?count = int (nat ?count)" by simp
    ultimately show "\<exists>k\<ge>1. ?count = int k \<and> (\<forall>j<k. ?G j) \<and> \<not> ?G k"
      using before broken by (metis One_nat_def int_ops(2) of_nat_le_iff)
  next
    assume "\<exists>k\<ge>1. ?count = int k \<and> (\<forall>j<k. ?G j) \<and> \<not> ?G k"
    then obtain k where k: "1 \<le> k" "?count = int k" "\<forall>j<k. ?G j" "\<not> ?G k" by blast
    show "holds I (first_break c initial (z_int_const p) (z_int_const q))"
      unfolding first_break_def
      using k before [OF k(2)] broken [OF k(2)] guards_before_count [OF wf init len avoids q, of I]
      by (simp add: holds_connectives holds_comparisons ival_arith)
  qed
  also have "\<dots> \<longleftrightarrow> (\<exists>k\<ge>1. ?count = int k \<and> run_word ts xs I (rep k w) ?vs \<noteq> None \<and>
       run_word ts xs I (rep (Suc k) w) ?vs = None)"
    unfolding runs by (auto simp: less_Suc_eq)
  finally show ?thesis .
qed

text \<open>The values of the jump are the values after that many repetitions.\<close>

lemma jump_values_run:
  assumes check: "check_ok z" and wf: "composite_wf xs n c" and cert: "certify_closed_forms z c"
    and comp: "composite_of ts xs w c"
    and init: "start_terms names initial" "n \<in> set names" and len: "length initial = length xs"
    and k: "ival I (z_int_const q) = int k" and run: "run_word ts xs I (rep k w) (map (ival I) initial) = Some vs'"
  shows "map (ival I) (map (form_at c (z_int_const q)) (from_current c initial)) = vs'"
proof -
  have vs: "length (map (ival I) initial) = length xs" using len by simp
  have steps: "length (co_one_step c) = length xs" using wf by (simp add: composite_wf_def)
  have "vs' = (step_values c xs I ^^ k) (map (ival I) initial)"
    using run unfolding run_word_rep [OF comp steps vs] by (simp split: if_splits)
  then show ?thesis
    using values_at_term [OF wf init len, of "z_int_const q" I] k
      certified_forms [OF check wf cert vs, of I k] by simp
qed


section \<open>The acceleration of a candidate\<close>

lemma compose_from_parameters:
  assumes ts: "transitions_ok xs ts" and d: "distinct xs"
    and comp: "compose_word ts (map z_int_const xs) w (z_true, map z_int_const xs) = Some (g, final)"
    and vs: "length vs = length xs"
  shows "run_word ts xs I w vs =
    (if holds (bind_ints I xs vs) g then Some (map (ival (bind_ints I xs vs)) final) else None)"
proof -
  have params: "list_all (\<lambda>t. typed_over xs t \<and> is_int t) (map z_int_const xs)"
    by (simp add: list_all_iff)
  have len: "length (map z_int_const xs) = length xs" by simp
  have start: "map (ival (bind_ints I xs vs)) (map z_int_const xs) = vs" by (rule parameter_values [OF d vs])
  show ?thesis
    using compose_word_run [OF ts comp len params vs, of I] unfolding Let_def start
    by (auto simp: holds_not_false)
qed

text \<open>The solution of the accelerator stands for its word and is certified.\<close>

lemma solve_composite_ok:
  assumes simp: "simplify_ok (pa_z3 A)" and ts: "transitions_ok xs ts"
    and solve: "solve_composite A loop w ts s = Inr (Some c, s')" and wf: "composite_wf xs n c"
  shows "composite_of ts xs w c" "certify_closed_forms (pa_z3 A) c"
proof -
  let ?ps = "map (phi_symbol (pa_module A)) (phis_of (pa_module A) (loop_header (pa_module A) loop))"
  obtain g final where comp: "compose_word ts ?ps w (z_true, ?ps) = Some (g, final)"
    and c: "co_guard c = z_simplify (pa_z3 A) g" "co_one_step c = final" "co_parameters c = ?ps"
      "certify_closed_forms (pa_z3 A) c"
    using solve by (auto simp: solve_composite_def Let_def exec_simps split: if_splits option.splits prod.splits)
  show "certify_closed_forms (pa_z3 A) c" by (rule c(4))
  have ps: "?ps = map z_int_const xs" and d: "distinct xs" using wf c(3) by (simp_all add: composite_wf_def)
  have "run_word ts xs I w vs =
      (if holds (bind_ints I xs vs) (co_guard c) then Some (step_values c xs I vs) else None)"
    if vs: "length vs = length xs" for I vs
    using compose_from_parameters [OF ts d comp [unfolded ps] vs, of I]
    by (simp add: c(1,2) step_values_def holds_simplify [OF simp])
  then show "composite_of ts xs w c" by (simp add: composite_of_def)
qed


lemma expression_of_bool:
  assumes "ite_sorted t" "is_bool t"
  shows "expr_sort (expression_of z t) BoolSort" "\<forall>e\<in>set (definitions (expression_of z t)). is_bool e"
  using expr2piecewise_sort [OF assms(1)] assms(2)
  by (auto simp: expression_of_def expr_sort_def Let_def is_bool_def)

lemma extend_plain_condition:
  assumes z: "z3_ok z" and ext: "extend_condition z m (expression_of z t) st s = Inr (st', s')"
    and plain: "class_of st = PlainState" and t: "ite_sorted t" "is_bool t"
    and path: "denotes I (path_condition st) (VBool b) d" "expr_sort (path_condition st) BoolSort"
  shows "denotes I (path_condition st') (VBool (b \<and> holds I t)) True" "st' = st\<lparr>path_condition := path_condition st'\<rparr>"
proof -
  have app: "append_condition z (expression_of z t) st = Some st'"
    using ext plain by (auto simp: extend_condition_def append_path_condition_def exec_simps split: option.splits)
  have "denotes I (path_condition st') (VBool (b \<and> True \<and>
      (if BoolSort = IntSort then eval I t \<noteq> VInt 0 else bool_of (eval I t)))) True"
    using append_condition_correct [OF z app denotes_expression_of [OF z t(1)] expression_of_bool(1) [OF t]
      expression_of_bool(2) [OF t] path] by blast
  then show "denotes I (path_condition st') (VBool (b \<and> holds I t)) True" by (simp add: holds_def)
  show "st' = st\<lparr>path_condition := path_condition st'\<rparr>" using append_condition_eq [OF app] by blast
qed

lemma put_header_values_object:
  assumes "put_header_values z m loop values st s = Inr (st', s')"
    and "distinct (phis_of m (loop_header m loop))" "i < length (phis_of m (loop_header m loop))"
    and "length values = length (phis_of m (loop_header m loop))"
  shows "map_option obj_value (get_object (phis_of m (loop_header m loop) ! i) (mem st')) =
    Some (expression_of z (values ! i))"
proof -
  let ?phis = "phis_of m (loop_header m loop)" and ?es = "map (expression_of z) values"
  have "fold_exec (\<lambda>(phi, e). store_temp m phi e) (zip ?phis ?es) st s = Inr (st', s')"
  proof -
    have "fold_exec (\<lambda>(phi, t). store_temp m phi (expression_of z t)) (zip ps vs) st s =
        fold_exec (\<lambda>(phi, e). store_temp m phi e) (zip ps (map (expression_of z) vs)) st s" for ps vs st s
      by (induction ps vs arbitrary: st s rule: list_induct2') (simp_all add: bind_exec_def split: sum.splits)
    then show ?thesis using assms(1) by (simp add: put_header_values_def)
  qed
  moreover have "(?phis ! i, ?es ! i) \<in> set (zip ?phis ?es)"
    using assms(3,4) by (auto simp: in_set_zip)
  ultimately show ?thesis
    using fold_store_value [of m "zip ?phis ?es"] assms(2-4) by (simp add: map_fst_zip)
qed

lemma put_header_values_fields:
  assumes "put_header_values z m loop values st s = Inr (st', s')"
  shows "\<exists>x. st' = st\<lparr>mem := x\<rparr>"
proof -
  have "\<exists>x. st' = st\<lparr>mem := x\<rparr>"
    if "fold_exec (\<lambda>(phi, t). store_temp m phi (expression_of z t)) ps st s = Inr (st', s')" for ps st s
    using that
  proof (induction ps arbitrary: st s)
    case Nil
    then show ?case by (auto simp: exec_simps intro: exI [of _ "mem st"])
  next
    case (Cons a ps)
    then obtain st1 s1 where r: "store_temp m (fst a) (expression_of z (snd a)) st s = Inr (st1, s1)"
        "fold_exec (\<lambda>(phi, t). store_temp m phi (expression_of z t)) ps st1 s1 = Inr (st', s')"
      by (auto simp: exec_simps split: prod.splits)
    then show ?case using Cons.IH [OF r(2)] store_temp_object(3) [OF r(1)] by auto
  qed
  then show ?thesis using assms unfolding put_header_values_def by blast
qed

text \<open>The jump of a first break: its condition, and the values of the header nodes.\<close>

lemma break_jump_state:
  assumes z: "z3_ok (pa_z3 A)"
    and jump: "break_jump A loop st w exponent vals relation s = Inr (st', s')"
    and relation: "ite_sorted relation" "is_bool relation"
    and path: "denotes I (path_condition st) (VBool b) d" "expr_sort (path_condition st) BoolSort"
    and phis: "distinct (phis_of (pa_module A) (loop_header (pa_module A) loop))"
      "length vals = length (phis_of (pa_module A) (loop_header (pa_module A) loop))"
  shows "denotes I (path_condition st') (VBool (b \<and> holds I relation)) True"
    and "i < length vals \<Longrightarrow>
      map_option obj_value (get_object (phis_of (pa_module A) (loop_header (pa_module A) loop) ! i) (mem st')) =
        Some (expression_of (pa_z3 A) (vals ! i))"
proof -
  let ?z = "pa_z3 A" and ?m = "pa_module A"
  obtain st1 st2 s1 s2 nxt where r: "put_header_values ?z ?m loop vals (copy_state st) s = Inr (st1, s1)"
      "extend_condition ?z ?m (expression_of ?z relation) st1 s1 = Inr (st2, s2)"
      "st' = step_pc ?m (Some nxt) (accelerated_history loop w exponent st2)"
    using jump unfolding break_jump_def Let_def exec_simps by blast
  obtain x where x: "st1 = (copy_state st)\<lparr>mem := x\<rparr>" using put_header_values_fields [OF r(1)] by blast
  have "class_of st1 = PlainState" "path_condition st1 = path_condition st"
    using x by (simp_all add: copy_state_def)
  then have ext: "denotes I (path_condition st2) (VBool (b \<and> holds I relation)) True"
      "st2 = st1\<lparr>path_condition := path_condition st2\<rparr>"
    using extend_plain_condition [OF z r(2) _ relation, of I b d] path by simp_all
  have st2: "denotes I (path_condition st2) (VBool (b \<and> holds I relation)) True" by (rule ext(1))
  have mem: "mem st2 = mem st1" by (subst ext(2)) simp
  show "denotes I (path_condition st') (VBool (b \<and> holds I relation)) True"
    using st2 by (simp add: r(3) step_pc_def accelerated_history_def set_history_def)
  show "map_option obj_value (get_object (phis_of ?m (loop_header ?m loop) ! i) (mem st')) =
      Some (expression_of ?z (vals ! i))" if "i < length vals"
    using put_header_values_object [OF r(1) phis(1) _ phis(2), of i] that phis(2) mem
    by (simp add: r(3) step_pc_def accelerated_history_def set_history_def)
qed


section \<open>The first break is exact\<close>

text \<open>The word can be executed exactly this many times in a row, at least once.\<close>

definition breaks_after :: "transitions \<Rightarrow> string list \<Rightarrow> interp \<Rightarrow> path_word \<Rightarrow> int list \<Rightarrow> nat \<Rightarrow> bool" where
  "breaks_after ts xs I w vs k \<longleftrightarrow>
     k \<ge> 1 \<and> run_word ts xs I (rep k w) vs \<noteq> None \<and> run_word ts xs I (rep (Suc k) w) vs = None"

definition header_denotes :: "llvm_module \<Rightarrow> loop_id \<Rightarrow> interp \<Rightarrow> exec_state \<Rightarrow> int list \<Rightarrow> bool" where
  "header_denotes m loop I st vs =
     list_all2 (\<lambda>phi v. case get_object phi (mem st) of
         Some obj \<Rightarrow> denotes I (obj_value obj) (VInt v) True | None \<Rightarrow> False)
       (phis_of m (loop_header m loop)) vs"

text \<open>The names the acceleration makes up occur nowhere else.\<close>

definition fresh_acceleration :: "string \<Rightarrow> string \<Rightarrow> string \<Rightarrow> composite \<Rightarrow> z3expr list \<Rightarrow> bool" where
  "fresh_acceleration n p q c initial \<longleftrightarrow>
     p \<noteq> q \<and> start_terms [n, p, q] initial \<and> composite_avoids p c \<and> composite_avoids q c"

lemma step_values_fresh:
  assumes wf: "composite_wf xs n c" and avoids: "composite_avoids x c"
  shows "step_values c xs (bind_ints I [x] [j]) = step_values c xs I"
proof
  fix vs
  have "eval (bind_ints (bind_ints I xs vs) [x] [j]) e = eval (bind_ints I xs vs) e" if "e \<in> set (co_one_step c)" for e
    using eval_bind_fresh [of e "[x]"] typed_over_quantifier_free [of xs e] wf avoids that
    by (auto simp: composite_wf_def composite_avoids_def list_all_iff)
  then show "step_values c xs (bind_ints I [x] [j]) vs = step_values c xs I vs"
    by (simp add: step_values_def ival_def bind_ints_swap [OF avoids_names(1) [OF assms]])
qed

lemma breaks_after_fresh:
  assumes wf: "composite_wf xs n c" and avoids: "composite_avoids x c" and comp: "composite_of ts xs w c"
    and len: "length vs = length xs"
  shows "breaks_after ts xs (bind_ints I [x] [j]) w vs k \<longleftrightarrow> breaks_after ts xs I w vs k"
proof -
  have steps: "length (co_one_step c) = length xs" using wf by (simp add: composite_wf_def)
  have "run_word ts xs (bind_ints I [x] [j]) (rep i w) vs = run_word ts xs I (rep i w) vs" for i
    unfolding run_word_rep [OF comp steps len] step_values_fresh [OF wf avoids] guard_fresh [OF wf avoids] ..
  then show ?thesis unfolding breaks_after_def by presburger
qed

lemma header_denotes_nth:
  assumes "length vs = length (phis_of m (loop_header m loop))"
    and "\<And>i. i < length vs \<Longrightarrow> \<exists>e. map_option obj_value (get_object (phis_of m (loop_header m loop) ! i) (mem st)) = Some e \<and>
      denotes I e (VInt (vs ! i)) True"
  shows "header_denotes m loop I st vs"
  using assms unfolding header_denotes_def list_all2_conv_all_nth by (fastforce split: option.splits)

lemma is_int_denotes: "z3_ok z \<Longrightarrow> ite_sorted t \<Longrightarrow> is_int t \<Longrightarrow> denotes I (expression_of z t) (VInt (ival I t)) True"
  using denotes_expression_of [of z t I] by (simp add: eval_int)

lemma phis_of_composite:
  assumes "composite_wf xs n c" "co_parameters c = map (phi_symbol m) phis"
  shows "distinct phis" "length phis = length xs"
proof -
  have eq: "map z_int_const xs = map (phi_symbol m) phis" and d: "distinct xs"
    using assms by (simp_all add: composite_wf_def)
  have "distinct (map z_int_const xs)" using d by (simp add: distinct_map inj_on_def)
  then show "distinct phis" unfolding eq by (simp add: distinct_map)
  show "length phis = length xs" using arg_cong [OF eq, of length] by simp
qed

lemma first_break_jump:
  assumes z: "z3_ok (pa_z3 A)" and ts: "transitions_ok xs ts"
    and solve: "solve_composite A loop w ts s0 = Inr (Some c, s1)" and wf: "composite_wf xs n c"
    and acc: "accelerate_first_break A loop st w c initial s = Inr (Some acc, s')"
    and len: "length initial = length (co_parameters c)"
    and fresh: "fresh_acceleration n (const_name (path_probe (path_expression_id s)))
      (const_name (path_count (path_expression_id s))) c initial"
    and sorted: "ite_sorted (first_break c initial (path_probe (path_expression_id s)) (path_count (path_expression_id s)))"
      "list_all ite_sorted (map (form_at c (path_count (path_expression_id s))) (from_current c initial))"
    and path: "denotes I (path_condition st) (VBool b) d" "expr_sort (path_condition st) BoolSort"
  shows "(holds I (acc_covered acc) \<longleftrightarrow> (\<exists>k. breaks_after ts xs I w (map (ival I) initial) k)) \<and>
    denotes I (path_condition (acc_jump acc))
      (VBool (b \<and> (\<exists>k. ival I (path_count (path_expression_id s)) = int k \<and>
         breaks_after ts xs I w (map (ival I) initial) k))) True \<and>
    (ival I (path_count (path_expression_id s)) = int k \<longrightarrow>
     run_word ts xs I (rep k w) (map (ival I) initial) = Some vs' \<longrightarrow>
     header_denotes (pa_module A) loop I (acc_jump acc) vs')"
proof -
  let ?m = "pa_module A" and ?ident = "path_expression_id s" and ?vs = "map (ival I) initial"
  let ?phis = "phis_of ?m (loop_header ?m loop)"
  define p q where "p = const_name (path_probe ?ident)" and "q = const_name (path_count ?ident)"
  have probe: "path_probe ?ident = z_int_const p" and count: "path_count ?ident = z_int_const q"
    by (simp_all add: p_def q_def path_probe_def path_count_def)
  define relation where "relation = first_break c initial (z_int_const p) (z_int_const q)"
  define vals where "vals = map (form_at c (z_int_const q)) (from_current c initial)"
  have fr: "p \<noteq> q" "start_terms [n, p, q] initial" "composite_avoids p c" "composite_avoids q c"
    using fresh by (simp_all add: fresh_acceleration_def p_def q_def)
  have init: "start_terms [n, p] initial" using fr(2) by (auto simp: start_terms_def list_all_iff)
  have lens: "length initial = length xs" "length vals = length xs"
    using len wf by (simp_all add: composite_wf_def vals_def from_current_def)
  note comp = solve_composite_ok [OF z3_okD(1) [OF z] ts solve wf]
  note check = z3_okD(2) [OF z]
  note run = first_break_run [OF check wf comp(2,1) init lens(1) fr(3) fr(1) [symmetric], folded relation_def]
  have params: "co_parameters c = map (phi_symbol ?m) ?phis"
    using solve by (auto simp: solve_composite_def Let_def exec_simps split: if_splits option.splits prod.splits)
  note phis = phis_of_composite [OF wf params]
  obtain exponent s2 s3 where jump: "break_jump A loop st w exponent vals relation s2 = Inr (acc_jump acc, s3)"
      and covered: "acc_covered acc = z_exists [z_int_const q] relation"
    using acc unfolding accelerate_first_break_def Let_def exec_simps
    by (auto simp: exec_simps next_path_expression_id_def probe count relation_def vals_def split: if_splits)
  have rel: "ite_sorted relation" "is_bool relation"
    using sorted(1) by (simp_all add: relation_def probe count first_break_def)
  note state = break_jump_state [OF z jump rel path phis(1)]
  have "holds I (acc_covered acc) \<longleftrightarrow> (\<exists>k. breaks_after ts xs I w ?vs k)"
  proof -
    have vs: "map (ival (bind_ints I [q] [j])) initial = ?vs" for j
      using start_terms_fresh(1) [OF fr(2), of q] by simp
    have "holds (bind_ints I [q] [j]) relation \<longleftrightarrow>
        (\<exists>k. j = int k \<and> breaks_after ts xs (bind_ints I [q] [j]) w ?vs k)" for j
      using run [of "bind_ints I [q] [j]"] unfolding vs ival_bound breaks_after_def by blast
    moreover have "breaks_after ts xs (bind_ints I [q] [j]) w ?vs k \<longleftrightarrow> breaks_after ts xs I w ?vs k" for j k
      using breaks_after_fresh [OF wf fr(4) comp(1)] lens(1) by simp
    ultimately show ?thesis unfolding covered holds_exists1 by blast
  qed
  moreover have "holds I relation \<longleftrightarrow> (\<exists>k. ival I (z_int_const q) = int k \<and> breaks_after ts xs I w ?vs k)"
    using run [of I] by (auto simp: breaks_after_def)
  moreover have "header_denotes ?m loop I (acc_jump acc) vs'"
    if k: "ival I (z_int_const q) = int k" "run_word ts xs I (rep k w) ?vs = Some vs'"
  proof (rule header_denotes_nth)
    have vs': "vs' = map (ival I) vals"
      using jump_values_run [OF check wf comp(2,1) init _ lens(1) k] by (simp add: vals_def)
    then show "length vs' = length ?phis" using lens(2) phis(2) by simp
    fix i assume "i < length vs'"
    then have i: "i < length vals" using vs' by simp
    have "is_int (vals ! i)"
      using eval_from_current(2,3) [OF wf init _ lens(1)] i wf
        is_int_at_terms [of "[z_int_const q]" "[n]"]
      by (auto simp: vals_def from_current_def form_at_def composite_wf_def)
    then show "\<exists>e. map_option obj_value (get_object (?phis ! i) (mem (acc_jump acc))) = Some e \<and>
        denotes I e (VInt (vs' ! i)) True"
      using state(2) [OF _ i] is_int_denotes [OF z, of "vals ! i" I] sorted(2) i lens(2) phis(2) vs'
      by (auto simp: vals_def count list_all_length)
  qed
  ultimately show ?thesis using state(1) lens(2) phis(2) by (simp add: count)
qed


section \<open>An arbitrary number of repetitions is exact\<close>

lemma trajectory_values:
  assumes simp: "simplify_ok z" and wf: "composite_wf xs n c" and init: "start_terms names initial" "n \<in> set names"
    and len: "length initial = length xs" and t: "is_int t"
  shows "map (ival I) (trajectory z c initial t) = closed_values c xs n I (map (ival I) initial) (ival I t)"
    and "list_all is_int (trajectory z c initial t)" "length (trajectory z c initial t) = length xs"
proof -
  show "map (ival I) (trajectory z c initial t) = closed_values c xs n I (map (ival I) initial) (ival I t)"
    using values_at_term [OF wf init len t, of I] by (simp add: trajectory_def ival_simplify [OF simp] comp_def)
  have "is_int (form_at c t (substitute (zip (co_parameters c) initial) e))" if "e \<in> set (co_closed_forms c)" for e
    using eval_from_current(2,3) [OF wf init len that] is_int_at_terms [of "[t]" "[n]"] t wf
    by (simp add: form_at_def composite_wf_def)
  then show "list_all is_int (trajectory z c initial t)"
    by (simp add: trajectory_def from_current_def list_all_iff is_int_def sort_simplify [OF simp])
  show "length (trajectory z c initial t) = length xs"
    using wf by (simp add: trajectory_def from_current_def composite_wf_def)
qed

lemma holds_on_trajectory:
  assumes simp: "simplify_ok z" and wf: "composite_wf xs n c" and init: "start_terms names initial" "n \<in> set names"
    and len: "length initial = length xs" and t: "is_int t" and g: "typed_over xs g"
  shows "holds I (substitute (zip (co_parameters c) (trajectory z c initial t)) g) \<longleftrightarrow>
    holds (bind_ints I xs (closed_values c xs n I (map (ival I) initial) (ival I t))) g"
  using eval_at_terms [OF trajectory_values(3,2) [OF simp wf init len t] g, of I]
    trajectory_values(1) [OF simp wf init len t, of I] wf
  by (simp add: holds_def composite_wf_def)

text \<open>A count for which the constraints hold is one for which the word can be repeated so often.\<close>

lemma iteration_constraints_run:
  assumes z: "simplify_ok z" "check_ok z" and wf: "composite_wf xs n c" and cert: "certify_closed_forms z c"
    and comp: "composite_of ts xs w c"
    and init: "start_terms [n, p] initial" and len: "length initial = length xs"
    and avoids: "composite_avoids p c" and fixed: "\<And>j. ival (bind_ints I [p] [j]) count = ival I count"
  shows "holds I (iteration_constraints c (trajectory z c initial (z_int_const p)) (z_int_const p) count) \<longleftrightarrow>
    (\<exists>k. ival I count = int k \<and> run_word ts xs I (rep k w) (map (ival I) initial) \<noteq> None)"
proof -
  let ?vs = "map (ival I) initial" and ?count = "ival I count"
  let ?K = "\<lambda>j. bind_ints I [p] [j]"
  let ?G = "\<lambda>j. holds (bind_ints I xs ((step_values c xs I ^^ j) ?vs)) (co_guard c)"
  have vs: "length ?vs = length xs" using len by simp
  have steps: "length (co_one_step c) = length xs" and guard: "typed_over xs (co_guard c)"
    using wf by (simp_all add: composite_wf_def)
  have at: "holds (?K j) (substitute (zip (co_parameters c) (trajectory z c initial (z_int_const p))) (co_guard c)) \<longleftrightarrow>
      holds (bind_ints I xs (closed_values c xs n I ?vs j)) (co_guard c)" for j
    using holds_on_trajectory [OF z(1) wf init _ len _ guard, of "z_int_const p" "?K j"]
      start_terms_fresh(1) [OF init, of p I j]
    by (simp add: ival_bound closed_values_fresh [OF wf avoids] guard_fresh [OF wf avoids])
  have "holds I (iteration_constraints c (trajectory z c initial (z_int_const p)) (z_int_const p) count) \<longleftrightarrow>
      0 \<le> ?count \<and> (\<forall>j. 0 \<le> j \<and> j < ?count \<longrightarrow> holds (bind_ints I xs (closed_values c xs n I ?vs j)) (co_guard c))"
    by (simp add: iteration_constraints_def holds_forall1 before_count_def holds_connectives holds_comparisons
        ival_arith ival_bound fixed at)
  also have "\<dots> \<longleftrightarrow> (\<exists>k. ?count = int k \<and> (\<forall>j<k. ?G j))"
  proof
    assume a: "0 \<le> ?count \<and> (\<forall>j. 0 \<le> j \<and> j < ?count \<longrightarrow> holds (bind_ints I xs (closed_values c xs n I ?vs j)) (co_guard c))"
    then have "?G j" if "j < nat ?count" for j
      using certified_forms [OF z(2) wf cert vs, of I j] that by (metis of_nat_0_le_iff zless_nat_eq_int_zless)
    then show "\<exists>k. ?count = int k \<and> (\<forall>j<k. ?G j)" using a by (intro exI [of _ "nat ?count"]) simp
  next
    assume "\<exists>k. ?count = int k \<and> (\<forall>j<k. ?G j)"
    then obtain k where k: "?count = int k" "\<forall>j<k. ?G j" by blast
    have "holds (bind_ints I xs (closed_values c xs n I ?vs j)) (co_guard c)" if "0 \<le> j" "j < int k" for j
      using certified_forms [OF z(2) wf cert vs, of I "nat j"] k(2) that by simp
    then show "0 \<le> ?count \<and> (\<forall>j. 0 \<le> j \<and> j < ?count \<longrightarrow>
        holds (bind_ints I xs (closed_values c xs n I ?vs j)) (co_guard c))" using k(1) by simp
  qed
  finally show ?thesis unfolding run_word_rep [OF comp steps vs] by auto
qed

text \<open>Nothing but the word is enabled on a trajectory the solver found stable.\<close>

lemma stable_trajectory:
  assumes z: "simplify_ok z" "check_ok z" and wf: "composite_wf xs n c" and cert: "certify_closed_forms z c"
    and ts: "transitions_ok xs ts"
    and init: "start_terms [n, p] initial" and len: "length initial = length xs" and avoids: "composite_avoids p c"
    and stable: "z_check z [z_and (z_and path (z_ge (z_int_const p) (z_int 0)))
      (other_enabled ts a (co_parameters c) (trajectory z c initial (z_int_const p)))] = Unsat"
    and path: "holds (bind_ints I [p] [int j]) path" and t: "(a', t) \<in> set ts" "a' \<noteq> a"
    and unused: "\<not> mentions p (tr_guard t)"
  shows "\<not> holds (bind_ints I xs ((step_values c xs I ^^ j) (map (ival I) initial))) (tr_guard t)"
proof -
  let ?K = "bind_ints I [p] [int j]"
  let ?vs = "map (ival I) initial"
  have vs: "length ?vs = length xs" using len by simp
  have g: "typed_over xs (tr_guard t)" using ts t(1) by (auto simp: transitions_ok_def transition_ok_def list_all_iff)
  have "\<not> holds ?K (other_enabled ts a (co_parameters c) (trajectory z c initial (z_int_const p)))"
    using no_failure [OF z(2) stable, of ?K] path
    by (simp add: holds_connectives holds_comparisons ival_bound ival_arith)
  moreover have "(a', t) \<in> set (filter (\<lambda>(b, t). b \<noteq> a) ts)" using t by simp
  ultimately have "\<not> holds ?K (substitute (zip (co_parameters c) (trajectory z c initial (z_int_const p))) (tr_guard t))"
    unfolding other_enabled_def holds_foldl_z_or by force
  then have "\<not> holds (bind_ints ?K xs (closed_values c xs n ?K (map (ival ?K) initial) (int j))) (tr_guard t)"
    using holds_on_trajectory [OF z(1) wf init _ len _ g, of "z_int_const p" ?K] by (simp add: ival_bound)
  also have "map (ival ?K) initial = ?vs" by (rule start_terms_fresh(1) [OF init]) simp
  also have "closed_values c xs n ?K ?vs (int j) = (step_values c xs I ^^ j) ?vs"
    using certified_forms [OF z(2) wf cert vs, of I j] by (simp add: closed_values_fresh [OF wf avoids])
  finally show ?thesis
    using eval_bind_fresh [of "tr_guard t" "[p]"] typed_over_quantifier_free [OF g] unused
    by (simp add: holds_def bind_ints_swap [OF avoids_names(1) [OF wf avoids]])
qed


lemma arbitrary_jump_state:
  assumes z: "z3_ok (pa_z3 A)"
    and jump: "arbitrary_jump A loop st w ctl probe count vals iterations s = Inr (st', s')"
    and iterations: "ite_sorted iterations" "is_bool iterations"
    and path: "denotes I (path_condition st) (VBool b) d" "expr_sort (path_condition st) BoolSort"
    and phis: "distinct (phis_of (pa_module A) (loop_header (pa_module A) loop))"
      "length vals = length (phis_of (pa_module A) (loop_header (pa_module A) loop))"
      "nc_call ctl \<notin> set (phis_of (pa_module A) (loop_header (pa_module A) loop))"
  shows "denotes I (path_condition st') (VBool (b \<and> holds I iterations)) True"
    and "i < length vals \<Longrightarrow>
      map_option obj_value (get_object (phis_of (pa_module A) (loop_header (pa_module A) loop) ! i) (mem st')) =
        Some (expression_of (pa_z3 A) (vals ! i))"
    and "nondet_calls st' = nondet_calls st @
      [nondet_sequence (nc_call ctl) (const_name probe, choice_sequence ctl probe count) (z_add count (z_int 1))]"
    and "trace st' = trace st @ [loop_header (pa_module A) loop]"
proof -
  let ?z = "pa_z3 A" and ?m = "pa_module A"
  let ?phis = "phis_of ?m (loop_header ?m loop)"
  let ?seq = "nondet_sequence (nc_call ctl) (const_name probe, choice_sequence ctl probe count) (z_add count (z_int 1))"
  obtain st1 st2 st3 s1 s2 s3 nxt where r: "put_header_values ?z ?m loop vals (copy_state st) s = Inr (st1, s1)"
      "extend_condition ?z ?m (expression_of ?z iterations) st1 s1 = Inr (st2, s2)"
      "store_temp ?m (nc_call ctl) (expression_of ?z (bool_val (\<not> nc_continue ctl)))
         ((accelerated_history loop w count st2)\<lparr>nondet_calls := nondet_calls st2 @ [?seq]\<rparr>) s2 = Inr (st3, s3)"
      "st' = step_pc ?m (Some nxt) (st3\<lparr>trace := trace st3 @ [loop_header ?m loop]\<rparr>)"
    using jump unfolding arbitrary_jump_def Let_def exec_simps by blast
  obtain x where x: "st1 = (copy_state st)\<lparr>mem := x\<rparr>" using put_header_values_fields [OF r(1)] by blast
  have "class_of st1 = PlainState" "path_condition st1 = path_condition st"
    using x by (simp_all add: copy_state_def)
  then have ext: "denotes I (path_condition st2) (VBool (b \<and> holds I iterations)) True"
      "st2 = st1\<lparr>path_condition := path_condition st2\<rparr>"
    using extend_plain_condition [OF z r(2) _ iterations, of I b d] path by simp_all
  obtain y where y: "st3 = ((accelerated_history loop w count st2)\<lparr>nondet_calls := nondet_calls st2 @ [?seq]\<rparr>)\<lparr>mem := y\<rparr>"
    using store_temp_object(3) [OF r(3)] by blast
  have "nondet_calls st2 = nondet_calls st" "trace st2 = trace st"
    by (subst ext(2), simp add: x copy_state_def)+
  then show "nondet_calls st' = nondet_calls st @ [?seq]" "trace st' = trace st @ [loop_header ?m loop]"
    by (simp_all add: r(4) y step_pc_def accelerated_history_def set_history_def)
  show "denotes I (path_condition st') (VBool (b \<and> holds I iterations)) True"
    using ext(1) by (simp add: r(4) y step_pc_def accelerated_history_def set_history_def)
  have mem: "mem st2 = mem st1" by (subst ext(2)) simp
  show "map_option obj_value (get_object (?phis ! i) (mem st')) = Some (expression_of ?z (vals ! i))"
    if "i < length vals"
  proof -
    have "?phis ! i \<noteq> nc_call ctl" using phis(2,3) that by (metis nth_mem)
    then have "get_object (?phis ! i) (mem st3) = get_object (?phis ! i) (mem st1)"
      using store_temp_object(2) [OF r(3)] mem by (simp add: accelerated_history_def set_history_def)
    then show ?thesis
      using put_header_values_object [OF r(1) phis(1) _ phis(2), of i] that phis(2)
      by (simp add: r(4) step_pc_def)
  qed
qed

lemma control_call_no_phi:
  assumes "find_nondet_loop_control A loop = Some ctl"
  shows "nc_call ctl \<notin> set (phis_of (pa_module A) b)"
proof -
  have "is_control_call A (loop_header (pa_module A) loop) (nc_call ctl)"
    using assms by (auto simp: find_nondet_loop_control_def Let_def split: option.splits value_kind.splits
        instruction.splits if_splits prod.splits)
  then have "\<not> is_phi (pa_module A) (nc_call ctl)"
    by (auto simp: is_control_call_def is_phi_def Let_def split: value_kind.splits instruction.splits)
  then show ?thesis by (auto simp: phis_of_def dest: set_takeWhileD)
qed

text \<open>The choices of the jump: to continue before the count, to stop at it.\<close>

lemma choice_sequence_value:
  "holds I (choice_sequence ctl probe count) \<longleftrightarrow> (nc_continue ctl = (ival I probe < ival I count))"
  by (auto simp: choice_sequence_def bool_val_def holds_ite holds_comparisons holds_not_false)

text \<open>Evaluating a value makes no name of the accelerator.\<close>

lemma evaluate_session:
  assumes "evaluate z m st v b s = Inr (e, s')"
  shows "path_expression_id s' = path_expression_id s"
proof (cases "kind_of m v = Undef")
  case True
  then show ?thesis
    using assms by (auto simp: evaluate_def exec_simps next_call_value_id_def Let_def split: llvm_type.splits if_splits)
next
  case False
  then show ?thesis using assms by (cases "kind_of m v") (auto simp: evaluate_def exec_simps split: if_splits)
qed

lemma initial_defined_session:
  "initial_defined z m st phis d s = Inr (d', s') \<Longrightarrow> path_expression_id s' = path_expression_id s"
proof (induction phis arbitrary: d s)
  case (Cons phi phis)
  then obtain v e d1 s1 where "evaluate z m st v True s = Inr (e, s1)"
      "initial_defined z m st phis d1 s1 = Inr (d', s')"
    by (auto simp: exec_simps)
  then show ?case using Cons.IH evaluate_session by metis
qed (simp add: exec_simps)

lemma arbitrary_finite_jump:
  assumes z: "z3_ok (pa_z3 A)" and ts: "transitions_ok xs ts"
    and solve: "solve_composite A loop [a] ts s0 = Inr (Some c, s1)" and wf: "composite_wf xs n c"
    and control: "find_nondet_loop_control A loop = Some ctl"
    and acc: "accelerate_arbitrary_finite A loop st [a] ts c initial ctl s = Inr (Some acc, s')"
    and len: "length initial = length (co_parameters c)"
    and fresh: "fresh_acceleration n p q c initial"
    and names: "path_probe (path_expression_id s) = z_int_const p" "path_count (path_expression_id s) = z_int_const q"
    and sorted: "ite_sorted (substitute (zip (co_parameters c) (trajectory (pa_z3 A) c initial (z_int_const p))) (co_guard c))"
      "list_all ite_sorted (trajectory (pa_z3 A) c initial (z_int_const q))"
    and path: "denotes I (path_condition st) (VBool b) d" "expr_sort (path_condition st) BoolSort"
  shows "denotes I (path_condition (acc_jump acc))
      (VBool (b \<and> (\<exists>k. ival I (z_int_const q) = int k \<and> run_word ts xs I (rep k [a]) (map (ival I) initial) \<noteq> None))) True"
    and "ival I (z_int_const q) = int k \<Longrightarrow> run_word ts xs I (rep k [a]) (map (ival I) initial) = Some vs' \<Longrightarrow>
      header_denotes (pa_module A) loop I (acc_jump acc) vs'"
    and "\<exists>body. nondet_calls (acc_jump acc) = nondet_calls st @
        [nondet_sequence (nc_call ctl) (p, body) (z_add (z_int_const q) (z_int 1))] \<and>
      (holds I body \<longleftrightarrow> (nc_continue ctl = (ival I (z_int_const p) < ival I (z_int_const q))))"
proof -
  let ?z = "pa_z3 A" and ?m = "pa_module A" and ?vs = "map (ival I) initial"
  let ?phis = "phis_of ?m (loop_header ?m loop)"
  define vals where "vals = trajectory ?z c initial (z_int_const q)"
  define iterations where "iterations = iteration_constraints c (trajectory ?z c initial (z_int_const p))
    (z_int_const p) (z_int_const q)"
  have fr: "p \<noteq> q" "start_terms [n, p, q] initial" "composite_avoids p c"
    using fresh by (simp_all add: fresh_acceleration_def)
  have init: "start_terms [n, p] initial" using fr(2) by (auto simp: start_terms_def list_all_iff)
  have lens: "length initial = length xs" using len wf by (simp add: composite_wf_def)
  note simp = z3_okD(1) [OF z] and check = z3_okD(2) [OF z]
  note comp = solve_composite_ok [OF simp ts solve wf]
  note traj = trajectory_values [OF simp wf init _ lens, of "z_int_const q", folded vals_def]
  have params: "co_parameters c = map (phi_symbol ?m) ?phis"
    using solve by (auto simp: solve_composite_def Let_def exec_simps split: if_splits option.splits prod.splits)
  note phis = phis_of_composite [OF wf params]
  obtain s2 s3 s4 where jump: "arbitrary_jump A loop st [a] ctl (z_int_const p) (z_int_const q) vals iterations s2 =
      Inr (acc_jump acc, s3)"
  proof -
    obtain d' s5 where "initial_defined ?z ?m st ?phis z_true s = Inr (d', s5)"
      using acc by (auto simp: accelerate_arbitrary_finite_def Let_def exec_simps)
    then show ?thesis
      using acc that names initial_defined_session [of ?z ?m st ?phis z_true s]
      unfolding accelerate_arbitrary_finite_def Let_def
      by (auto simp: exec_simps term_of_def next_path_expression_id_def vals_def iterations_def split: if_splits)
  qed
  have rel: "ite_sorted iterations" "is_bool iterations"
    using sorted(1) by (simp_all add: iterations_def iteration_constraints_def z_forall_def)
  have vl: "length vals = length ?phis" using traj(3) phis(2) by simp
  note state = arbitrary_jump_state [OF z jump rel path phis(1) vl control_call_no_phi [OF control]]
  show "denotes I (path_condition (acc_jump acc))
      (VBool (b \<and> (\<exists>k. ival I (z_int_const q) = int k \<and> run_word ts xs I (rep k [a]) ?vs \<noteq> None))) True"
    using state(1) iteration_constraints_run [OF simp check wf comp(2,1) init lens fr(3) ival_other [OF fr(1) [symmetric]], of I]
    by (simp add: iterations_def)
  show "header_denotes ?m loop I (acc_jump acc) vs'"
    if k: "ival I (z_int_const q) = int k" "run_word ts xs I (rep k [a]) ?vs = Some vs'"
  proof (rule header_denotes_nth)
    have "length ?vs = length xs" "length (co_one_step c) = length xs"
      using lens wf by (simp_all add: composite_wf_def)
    then have vs': "vs' = map (ival I) vals"
      using k run_word_rep [OF comp(1), of ?vs I k] certified_forms [OF check wf comp(2), of ?vs I k] traj(1) [of I]
      by (simp split: if_splits)
    then show "length vs' = length ?phis" using vl by simp
    fix i assume "i < length vs'"
    then have i: "i < length vals" using vs' by simp
    then show "\<exists>e. map_option obj_value (get_object (?phis ! i) (mem (acc_jump acc))) = Some e \<and>
        denotes I e (VInt (vs' ! i)) True"
      using state(2) [OF i] is_int_denotes [OF z, of "vals ! i" I] sorted(2) traj(2) vs'
      by (auto simp: vals_def list_all_length)
  qed
  show "\<exists>body. nondet_calls (acc_jump acc) = nondet_calls st @
        [nondet_sequence (nc_call ctl) (p, body) (z_add (z_int_const q) (z_int 1))] \<and>
      (holds I body \<longleftrightarrow> (nc_continue ctl = (ival I (z_int_const p) < ival I (z_int_const q))))"
    using state(3) choice_sequence_value by (intro exI [of _ "choice_sequence ctl (z_int_const p) (z_int_const q)"]) simp
qed

end
