(* ===== verification/Acceleration_Properties.thy ===== *)
theory Acceleration_Properties
  imports Path_Acceleration_Correctness
begin

text \<open>
  What the acceleration of a path word promises, and the smallest loop it works on: a counter that runs
  while it is below three.  The solver of the examples evaluates closed formulas and knows the queries of
  this loop.
\<close>

section \<open>A loop that counts to three\<close>

definition count_x :: z3expr where "count_x = z_int_const ''ari_x''"
definition count_n :: z3expr where "count_n = z_int_const ''ari_path_n_1''"
definition count_p :: z3expr where "count_p = z_int_const ''ari_path_t_2''"
definition count_q :: z3expr where "count_q = z_int_const ''ari_path_k_2''"

definition count_transitions :: transitions where
  "count_transitions = [(1, \<lparr>tr_guard = z_lt count_x (z_int 3), tr_updates = [z_add count_x (z_int 1)]\<rparr>)]"

definition count_composite :: composite where
  "count_composite = \<lparr>co_parameters = [count_x], co_guard = z_and z_true (z_lt count_x (z_int 3)),
     co_one_step = [z_add count_x (z_int 1)],
     co_closed_forms = [z_add count_x (z_mul count_n (z_int 1))], co_index = count_n\<rparr>"

definition count_relation :: z3expr where
  "count_relation = first_break count_composite [z_int 0] count_p count_q"

definition count_model :: interp where
  "count_model = (\<lambda>f vs. VInt (if f = ''ari_path_k_2'' then 3 else 0))"

text \<open>A second path, which needs a negative counter.\<close>

definition count_paths :: transitions where
  "count_paths = count_transitions @ [(2, \<lparr>tr_guard = z_lt count_x (z_int 0), tr_updates = [z_int 0]\<rparr>)]"

text \<open>The queries without a model: the two certificates and the stability of the counting path.\<close>

definition count_unsat :: "z3expr list" where
  "count_unsat = [base_failure count_composite,
     z_and (z_ge count_n (z_int 0)) (step_failure count_composite),
     z_and (z_and z_true (z_ge count_p (z_int 0)))
       (z_or z_false (z_lt (z_add (z_int 0) (z_mul count_p (z_int 1))) (z_int 0)))]"

definition count_z3 :: z3_api where
  "count_z3 = closed_z3\<lparr>
     z_simplify := (\<lambda>e. if e = z_sub (z_add count_x (z_int 1)) count_x then z_int 1 else e),
     z_check := (\<lambda>fs. if list_ex (\<lambda>f. fs = [f]) count_unsat then Unsat
       else if fs = [z_and z_true count_relation] then Sat else z_check closed_z3 fs),
     z_model := (\<lambda>fs. if fs = [z_and z_true count_relation] then count_model else zero_interp)\<rparr>"

lemmas count_terms = count_x_def count_n_def count_p_def count_q_def

lemma count_unsat_holds: "f \<in> set count_unsat \<Longrightarrow> \<not> holds I f"
  by (auto simp: count_unsat_def base_failure_def step_failure_def Let_def count_composite_def form_at_def
      count_terms sem_simps eval_int algebra_simps simp del: eval.simps)

lemma count_relation_holds: "holds count_model count_relation"
proof -
  have "holds (bind_ints count_model [''ari_path_t_2''] [j]) (z_implies (before_count count_p count_q)
      (guard_at count_composite [z_int 0] count_p))" for j
    by (auto simp: before_count_def guard_at_def from_current_def count_composite_def form_at_def count_terms
        sem_simps ival_def bind_ints_def count_model_def)
  then show ?thesis
    by (simp add: count_relation_def first_break_def count_p_def holds_forall1 holds_connectives)
      (simp add: guard_at_def from_current_def count_composite_def form_at_def count_terms sem_simps ival_def
        count_model_def)
qed

lemma closed_z3_sat: "z_check closed_z3 fs = Sat \<Longrightarrow> f \<in> set fs \<Longrightarrow> holds zero_interp f"
  using check_sat [OF closed_z3_check, of fs f] by (simp add: closed_z3_def)

lemma count_z3_check: "check_ok count_z3"
proof -
  have "\<exists>f\<in>set fs. \<not> holds I f" if "z_check count_z3 fs = Unsat" for fs I
    using that count_unsat_holds check_unsat [OF closed_z3_check, of fs I]
    by (auto simp: count_z3_def list_ex_iff split: if_splits)
  moreover have "\<forall>f\<in>set fs. holds (z_model count_z3 fs) f" if "z_check count_z3 fs = Sat" for fs
    using that count_relation_holds closed_z3_sat
    by (auto simp: count_z3_def holds_connectives holds_not_false split: if_splits)
  ultimately show ?thesis unfolding check_ok_def by blast
qed

lemma count_z3_ok: "z3_ok count_z3"
proof -
  have "simplify_ok count_z3"
    by (simp add: simplify_ok_def count_z3_def count_terms)
  moreover have "core_ok count_z3"
    unfolding core_ok_def
  proof (intro allI impI)
    fix fs ls assume "z_check count_z3 (fs @ ls) = Unsat"
    then have "\<exists>f\<in>set (fs @ ls). \<not> holds I f" for I using check_unsat [OF count_z3_check] by blast
    moreover have "z_core count_z3 fs ls = ls" by (simp add: count_z3_def closed_z3_def)
    ultimately show "set (z_core count_z3 fs ls) \<subseteq> set ls \<and>
        \<not> (\<exists>I. (\<forall>f\<in>set fs. holds I f) \<and> (\<forall>l\<in>set (z_core count_z3 fs ls). holds I l))" by auto
  qed
  moreover have "collect_aux_vars count_z3 e = []" for e
    by (simp add: collect_aux_vars_def count_z3_def closed_z3_def)
  then have "elim_ite_ok count_z3"
    unfolding elim_ite_ok_def by (simp add: count_z3_def closed_z3_def sem_simps)
  moreover have "qe_ok count_z3"
    unfolding qe_ok_def by (simp add: count_z3_def closed_z3_def sem_simps)
  ultimately show ?thesis using count_z3_check by (simp add: z3_ok_def)
qed

section \<open>The module of the loop\<close>

text \<open>Block 0 is the header with the node 0, the choice 1 and the branch 2, block 1 the body, block 2 the
  exit; the constant 5 is the initial value.\<close>

definition count_kind :: "value_id \<Rightarrow> value_kind" where
  "count_kind v = (if v = 0 then Inst (Phi [(9, 5), (1, 6)]) else if v = 1 then Inst (Call (Some 1) [])
     else if v = 2 then Inst (CondBr 1 1 2) else if v = 3 then Inst (Br 0) else if v = 4 then Inst (Ret None)
     else if v = 5 then ConstInt 0 0 else OtherValue)"

definition count_module :: llvm_module where
  "count_module = sample_module\<lparr>kind_of := count_kind,
     ty_of := (\<lambda>v. if v = 1 then IntTy 1 else IntTy 32),
     block_of := (\<lambda>v. if v \<le> 2 then 0 else if v = 3 then 1 else 2),
     insts_of := (\<lambda>b. if b = 0 then [0, 1, 2] else if b = 1 then [3] else [4]),
     blocks_of := (\<lambda>_. [0, 1, 2]),
     func_name := (\<lambda>f. if f = 1 then ''__VERIFIER_nondet_bool'' else ''main''),
     loop_blocks := (\<lambda>_. [0, 1]), loop_latches := (\<lambda>_. [1]), loop_header := (\<lambda>_. 0)\<rparr>"

definition count_exec :: exec_env where
  "count_exec = \<lparr>env_z3 = count_z3, env_module = count_module, env_getenv = (\<lambda>_. None),
     env_partial_eval = (\<lambda>_ e. e), summarize_function = (\<lambda>_. give None), summarize_loop = (\<lambda>_ _. give None),
     accelerate_path = (\<lambda>_ _ _. give None), accelerate_nested = (\<lambda>_ _. give None), header_control = (\<lambda>_. False)\<rparr>"

definition count_env :: accel_env where
  "count_env = \<lparr>pa_loop = \<lparr>le_exec = count_exec, le_depth = 1, le_fuel = 10, carried_flow = (\<lambda>_ _. False),
       exit_blocks = (\<lambda>_. [2])\<rparr>,
     pa_rec = \<lparr>re_child = prompt_child, re_getenv = (\<lambda>_. None), re_parse = (\<lambda>_. None)\<rparr>,
     pa_freeze = (\<lambda>_. False), pa_other_operands = (\<lambda>_. []), pa_other_constant = (\<lambda>_. False),
     pa_declaration = (\<lambda>f. f = 1), pa_exiting = (\<lambda>_. [0]), pa_qe_in_time = (\<lambda>_ _. False)\<rparr>"

definition count_state :: exec_state where
  "count_state = new_state closed_z3 (Some 0) None (memory_push closed_z3 None new_memory)
     (expression_cases [z_true] [z_true]) [9]"

lemma count_fields [simp]:
  "pa_z3 count_env = count_z3" "pa_module count_env = count_module" "kind_of count_module = count_kind"
  "pa_exec count_env = count_exec" "env_z3 count_exec = count_z3" "env_module count_exec = count_module"
  "loop_header count_module loop = 0" "phis_of count_module 0 = [0]"
  "phi_symbol count_module 0 = count_x" "first_non_phi_or_dbg count_module 0 = Some 1"
  by (simp_all add: count_env_def count_exec_def count_module_def sample_module_def phis_of_def is_phi_def
      is_dbg_def count_kind_def phi_symbol_def get_z3_name_def count_x_def first_non_phi_or_dbg_def)

definition count_session :: session where
  "count_session = new_session\<lparr>path_expression_id := 2\<rparr>"

lemma count_names:
  "path_index 1 = count_n" "path_probe 2 = count_p" "path_count 2 = count_q"
  by (simp_all add: path_index_def path_probe_def path_count_def count_terms)

lemma count_certificate: "certify_closed_forms count_z3 count_composite"
  by (simp add: certify_closed_forms_def decide_unsat_def count_z3_def count_unsat_def count_composite_def)

lemma count_solution:
  "solve_composite count_env 0 [1] count_transitions new_session = Inr (Some count_composite, count_session)"
  "solve_composite count_env 0 [1] count_paths new_session = Inr (Some count_composite, count_session)"
proof -
  have forms: "elementary_forms count_z3 (path_index 1) [count_x] [(count_x, z_add count_x (z_int 1))] =
      Some [z_add count_x (z_mul count_n (z_int 1))]"
    by (simp add: count_names) (simp add: count_z3_def count_terms)
  show "solve_composite count_env 0 [1] count_transitions new_session = Inr (Some count_composite, count_session)"
    "solve_composite count_env 0 [1] count_paths new_session = Inr (Some count_composite, count_session)"
    using forms count_certificate unfolding solve_composite_def Let_def
    by (simp_all add: exec_simps count_transitions_def count_paths_def next_path_expression_id_def new_session_def
        count_session_def count_composite_def count_z3_def give_def count_terms count_names)
qed

section \<open>Composition and certificates\<close>

text \<open>C21: composing the transitions along a word gives the execution of the word: the guard holds exactly
  of the values the word can be executed from, and the terms are the values after it.\<close>

theorem compose_word_correct:
  assumes "transitions_ok xs ts" "distinct xs" "length vs = length xs"
    and "compose_word ts (map z_int_const xs) w (z_true, map z_int_const xs) = Some (g, final)"
  shows "run_word ts xs I w vs =
    (if holds (bind_ints I xs vs) g then Some (map (ival (bind_ints I xs vs)) final) else None)"
  by (rule compose_from_parameters [OF assms(1,2,4,3)])

theorem compose_word_correct_witness:
  "\<exists>g final. compose_word count_transitions [count_x] [1, 1] (z_true, [count_x]) = Some (g, final) \<and>
     run_word count_transitions [''ari_x''] zero_interp [1, 1] [1] = Some [3] \<and>
     holds (bind_ints zero_interp [''ari_x''] [1]) g"
proof -
  obtain g final where comp: "compose_word count_transitions [count_x] [1, 1] (z_true, [count_x]) = Some (g, final)"
    by (simp add: count_transitions_def)
  have ok: "transitions_ok [''ari_x''] count_transitions"
    by (simp add: transitions_ok_def transition_ok_def count_transitions_def count_x_def)
  have run: "run_word count_transitions [''ari_x''] zero_interp [1, 1] [1] = Some [3]"
    by (simp add: count_transitions_def count_x_def sem_simps) (simp add: ival_def bind_ints_def)
  have "run_word count_transitions [''ari_x''] zero_interp [1, 1] [1] =
    (if holds (bind_ints zero_interp [''ari_x''] [1]) g
     then Some (map (ival (bind_ints zero_interp [''ari_x''] [1])) final) else None)"
    using compose_word_correct [OF ok, of "[1]" "[1, 1]" g final zero_interp] comp by (simp add: count_x_def)
  then have "holds (bind_ints zero_interp [''ari_x''] [1]) g" using run by (simp split: if_splits)
  then show ?thesis using comp run by blast
qed

text \<open>C8: closed forms that pass the certificate are the repeated execution of the word: for every number of
  repetitions the word can be executed that often exactly when its guard holds on all the values before,
  and then the closed forms at that number are the values.\<close>

theorem certified_forms_exact:
  assumes "z3_ok (pa_z3 A)" "transitions_ok xs ts" "composite_wf xs n c" "length vs = length xs"
    and "solve_composite A loop w ts s = Inr (Some c, s')"
  shows "run_word ts xs I (rep k w) vs =
    (if list_all (\<lambda>j. holds (bind_ints I xs (closed_values c xs n I vs (int j))) (co_guard c)) [0..<k]
     then Some (closed_values c xs n I vs (int k)) else None)"
proof -
  note z = z3_okD(1,2) [OF assms(1)]
  note comp = solve_composite_ok [OF z(1) assms(2,5,3)]
  have "length (co_one_step c) = length xs" using assms(3) by (simp add: composite_wf_def)
  then show ?thesis
    using run_word_rep [OF comp(1) _ assms(4), of I k] certified_forms [OF z(2) assms(3) comp(2) assms(4)]
    by (simp add: list_all_iff)
qed

lemma count_wf:
  "composite_wf [''ari_x''] ''ari_path_n_1'' count_composite" "transitions_ok [''ari_x''] count_transitions"
  by (simp_all add: composite_wf_def count_composite_def count_terms transitions_ok_def transition_ok_def
      count_transitions_def)

theorem certified_forms_exact_witness:
  "run_word count_transitions [''ari_x''] zero_interp (rep 3 [1]) [0] = Some [3]"
proof -
  have closed: "closed_values count_composite [''ari_x''] ''ari_path_n_1'' zero_interp [0] j = [j]" for j
    by (simp add: closed_values_def count_composite_def count_terms ival_arith) (simp add: ival_def bind_ints_def)
  have guard: "holds (bind_ints zero_interp [''ari_x''] [j]) (co_guard count_composite) \<longleftrightarrow> j < 3" for j
    by (simp add: count_composite_def count_x_def sem_simps) (simp add: ival_def bind_ints_def)
  have ok: "z3_ok (pa_z3 count_env)" using count_z3_ok by simp
  show ?thesis
    using certified_forms_exact [OF ok count_wf(2,1) _ count_solution(1), of "[0]" zero_interp 3]
    by (simp add: closed guard list_all_iff)
qed

section \<open>The first break\<close>

text \<open>C6: a jump to the first break represents exactly the runs that repeat the word as often as they can: its
  condition holds of the paths into the loop whose count is the number of repetitions after which the
  word cannot be executed again, its header nodes have the values after them, and the region it covers is
  where there is such a number.\<close>

theorem accelerate_first_break_exact:
  assumes "z3_ok (pa_z3 A)" "transitions_ok xs ts"
    and "solve_composite A loop w ts s0 = Inr (Some c, s1)" "composite_wf xs n c"
    and "accelerate_first_break A loop st w c initial s = Inr (Some acc, s')"
    and "length initial = length (co_parameters c)"
    and "fresh_acceleration n (const_name (path_probe (path_expression_id s)))
      (const_name (path_count (path_expression_id s))) c initial"
    and "ite_sorted (first_break c initial (path_probe (path_expression_id s)) (path_count (path_expression_id s)))"
      "list_all ite_sorted (map (form_at c (path_count (path_expression_id s))) (from_current c initial))"
    and "denotes I (path_condition st) (VBool b) d" "expr_sort (path_condition st) BoolSort"
  shows "(holds I (acc_covered acc) \<longleftrightarrow> (\<exists>k. breaks_after ts xs I w (map (ival I) initial) k)) \<and>
    denotes I (path_condition (acc_jump acc))
      (VBool (b \<and> (\<exists>k. ival I (path_count (path_expression_id s)) = int k \<and>
         breaks_after ts xs I w (map (ival I) initial) k))) True \<and>
    (ival I (path_count (path_expression_id s)) = int k \<longrightarrow>
     run_word ts xs I (rep k w) (map (ival I) initial) = Some vs' \<longrightarrow>
     header_denotes (pa_module A) loop I (acc_jump acc) vs')"
  by (rule first_break_jump [OF assms])


text \<open>The jump is total: a state with a frame and a condition can be accelerated.\<close>

lemma extend_total:
  assumes z: "z3_ok z" and t: "ite_sorted t" "is_bool t" and plain: "class_of st = PlainState"
    and path: "as_expr z (path_condition st) = Some c"
  shows "\<exists>st'. extend_condition z m (expression_of z t) st s = Inr (st', s) \<and> class_of st' = PlainState \<and>
    mem st' = mem st \<and> path_condition st' = expression_cases [z_true] (expressions (path_condition st'))"
proof -
  note den = denotes_expression_of [OF z t(1), of zero_interp]
  obtain e where "as_expr z (expression_of z t) = Some e"
    using as_expr_value [OF z den expression_of_bool(1) [OF t]] by blast
  moreover obtain d where "defined_term z (expression_of z t) = Some d"
    using defined_term_holds [OF z den expression_of_bool(2) [OF t]] by blast
  ultimately show ?thesis
    using path plain by (simp add: extend_condition_def append_path_condition_def append_condition_def need_def
      give_def expression_cases_def)
qed

lemma store_temp_total:
  assumes "frames (m_stack (mem st)) \<noteq> []"
  shows "\<exists>x. store_temp m v e st s = Inr (st\<lparr>mem := x\<rparr>, s) \<and> frames (m_stack x) \<noteq> []"
  using assms by (cases "frames (m_stack (mem st))") (auto simp: store_temp_def put_temp_def on_top_def)

lemma break_jump_total:
  assumes z: "z3_ok (pa_z3 A)" and relation: "ite_sorted relation" "is_bool relation"
    and path: "as_expr (pa_z3 A) (path_condition st) = Some c" and fr: "frames (m_stack (mem st)) \<noteq> []"
    and phis: "phis_of (pa_module A) (loop_header (pa_module A) loop) = [phi]"
    and first: "first_non_phi_or_dbg (pa_module A) (loop_header (pa_module A) loop) = Some i"
  shows "\<exists>st'. break_jump A loop st w exponent [t] relation s = Inr (st', s)"
proof -
  have "frames (m_stack (mem (copy_state st))) \<noteq> []"
    using fr by (simp add: copy_state_def copy_memory_def copy_mstack_def)
  then obtain x where put: "store_temp (pa_module A) phi (expression_of (pa_z3 A) t) (copy_state st) s =
      Inr ((copy_state st)\<lparr>mem := x\<rparr>, s)" using store_temp_total by blast
  have "class_of ((copy_state st)\<lparr>mem := x\<rparr>) = PlainState"
      "as_expr (pa_z3 A) (path_condition ((copy_state st)\<lparr>mem := x\<rparr>)) = Some c"
    using path by (simp_all add: copy_state_def)
  then obtain st2 where "extend_condition (pa_z3 A) (pa_module A) (expression_of (pa_z3 A) relation)
      ((copy_state st)\<lparr>mem := x\<rparr>) s = Inr (st2, s)" using extend_total [OF z relation] by blast
  then show ?thesis
    by (auto simp: break_jump_def Let_def exec_simps put_header_values_def phis put first)
qed

lemma count_relation_terms:
  "ite_sorted count_relation" "is_bool count_relation"
  "list_all ite_sorted (map (form_at count_composite count_q) (from_current count_composite [z_int 0]))"
  by (simp_all add: count_relation_def first_break_def guard_at_def form_at_def from_current_def count_composite_def
      count_terms z_forall_def)

lemma count_fresh:
  "fresh_acceleration ''ari_path_n_1'' (const_name count_p) (const_name count_q) count_composite [z_int 0]"
  by (simp add: fresh_acceleration_def start_terms_def composite_avoids_def count_composite_def count_terms is_int_def)

lemma count_path:
  "as_expr z (path_condition count_state) = Some z_true"
  "denotes I (path_condition count_state) (VBool True) True" "expr_sort (path_condition count_state) BoolSort"
  by (simp_all add: count_state_def new_state_def denotes_def expr_wf_def expr_sort_def)
    (simp_all add: expression_cases_def holds_not_false)

lemma count_accelerated:
  "\<exists>acc s'. accelerate_first_break count_env 0 count_state [1] count_composite [z_int 0] count_session = Inr (Some acc, s')"
proof -
  have ident: "path_expression_id count_session = 2" by (simp add: count_session_def)
  have feasible: "z_check count_z3 [z_and z_true count_relation] = Sat"
    by (simp add: count_z3_def count_unsat_def count_relation_def first_break_def base_failure_def
        count_composite_def)
  have fr: "frames (m_stack (mem count_state)) \<noteq> []"
    by (simp add: count_state_def new_state_def memory_push_def push_frame_def)
  obtain st' where "break_jump count_env 0 count_state [1] count_q
      (map (form_at count_composite count_q) (from_current count_composite [z_int 0])) count_relation
      (count_session\<lparr>path_expression_id := 3\<rparr>) = Inr (st', count_session\<lparr>path_expression_id := 3\<rparr>)"
    using break_jump_total [of count_env count_relation count_state z_true 0 0 1] count_z3_ok count_relation_terms
      count_path(1) fr by (fastforce simp: from_current_def count_composite_def)
  moreover have "next_path_expression_id count_session = (2, count_session\<lparr>path_expression_id := 3\<rparr>)"
    by (simp add: next_path_expression_id_def ident)
  moreover have "\<not> pa_qe_in_time count_env 2000 count_relation" by (simp add: count_env_def)
  ultimately show ?thesis
    by (simp add: accelerate_first_break_def exec_simps count_names Let_def term_of_def count_path(1) feasible
        affine_count_def eliminate_quantifiers_def count_relation_def [symmetric])
qed

theorem accelerate_first_break_exact_witness:
  "\<exists>acc s'. accelerate_first_break count_env 0 count_state [1] count_composite [z_int 0] count_session =
       Inr (Some acc, s') \<and>
     holds count_model (acc_covered acc) \<and>
     denotes count_model (path_condition (acc_jump acc)) (VBool True) True \<and>
     header_denotes count_module 0 count_model (acc_jump acc) [3]"
proof -
  obtain acc s' where acc: "accelerate_first_break count_env 0 count_state [1] count_composite [z_int 0] count_session =
      Inr (Some acc, s')" using count_accelerated by blast
  have ident: "path_expression_id count_session = 2" by (simp add: count_session_def)
  have step: "run_word count_transitions [''ari_x''] count_model (1 # w) [v] =
      (if v < 3 then run_word count_transitions [''ari_x''] count_model w [v + 1] else None)" for v w
    by (simp add: count_transitions_def count_x_def sem_simps) (simp add: ival_def bind_ints_def)
  have runs: "run_word count_transitions [''ari_x''] count_model (rep 3 [1]) [0] = Some [3]"
    "breaks_after count_transitions [''ari_x''] count_model [1] [0] 3"
    by (simp_all add: breaks_after_def step numeral_3_eq_3 del: run_word.simps(2))
  have count: "ival count_model count_q = int 3" by (simp add: ival_def count_q_def count_model_def)
  have start: "map (ival count_model) [z_int 0] = [0]" by (simp add: ival_arith)
  have "length [z_int 0] = length (co_parameters count_composite)" by (simp add: count_composite_def)
  note exact = accelerate_first_break_exact [where A = count_env and k = 3 and vs' = "[3]" and I = count_model,
    OF _ count_wf(2) count_solution(1) count_wf(1) acc this _ _ _ count_path(2,3)]
  show ?thesis
    using exact count_z3_ok count_fresh count_relation_terms acc runs
    unfolding ident count_names start count by (auto simp: count_relation_def)
qed


text \<open>C4: no path is lost and none is taken twice: a path into the loop is the jump's, for some value of the
  count, exactly where there is a number of repetitions after which the word breaks, and the residual's
  everywhere else.\<close>

theorem acceleration_partitions_paths:
  assumes z: "z3_ok (pa_z3 A)" and ts: "transitions_ok xs ts"
    and solve: "solve_composite A loop w ts s0 = Inr (Some c, s1)" and wf: "composite_wf xs n c"
    and acc: "accelerate_first_break A loop st w c initial s = Inr (Some acc, s')"
    and len: "length initial = length (co_parameters c)"
    and names: "path_probe (path_expression_id s) = z_int_const p" "path_count (path_expression_id s) = z_int_const q"
    and fresh: "fresh_acceleration n p q c initial"
    and sorted: "ite_sorted (first_break c initial (z_int_const p) (z_int_const q))"
      "list_all ite_sorted (map (form_at c (z_int_const q)) (from_current c initial))"
    and path: "\<And>J. denotes J (path_condition st) (VBool (b J)) True" "expr_sort (path_condition st) BoolSort"
    and unused: "\<And>j. b (bind_ints I [q] [j]) = b I"
    and residual: "assume_term (pa_z3 A) (pa_module A) (z_not (acc_covered acc)) (copy_state st) s2 = Inr (rest, s3)"
  shows "(b I \<and> (\<exists>k. breaks_after ts xs I w (map (ival I) initial) k) \<longleftrightarrow>
      (\<exists>j. denotes (bind_ints I [q] [j]) (path_condition (acc_jump acc)) (VBool True) True)) \<and>
    denotes I (path_condition rest)
      (VBool (b I \<and> \<not> (\<exists>k. breaks_after ts xs I w (map (ival I) initial) k))) True"
proof -
  let ?vs = "map (ival I) initial" and ?breaks = "\<lambda>k. breaks_after ts xs I w (map (ival I) initial) k"
  have fr: "start_terms [n, p, q] initial" "composite_avoids q c" using fresh by (simp_all add: fresh_acceleration_def)
  have lens: "length ?vs = length xs" using len wf by (simp add: composite_wf_def)
  note jump = first_break_jump [OF z ts solve wf acc len _ _ _ path, unfolded names, simplified, OF fresh sorted [simplified]]
  note comp = solve_composite_ok(1) [OF z3_okD(1) [OF z] ts solve wf]
  have at: "denotes (bind_ints I [q] [j]) (path_condition (acc_jump acc))
      (VBool (b I \<and> (\<exists>k. j = int k \<and> ?breaks k))) True" for j
  proof -
    have vs: "map (ival (bind_ints I [q] [j])) initial = ?vs" by (rule start_terms_fresh(1) [OF fr(1)]) simp
    have "denotes (bind_ints I [q] [j]) (path_condition (acc_jump acc)) (VBool (b (bind_ints I [q] [j]) \<and>
        (\<exists>k. ival (bind_ints I [q] [j]) (z_int_const q) = int k \<and>
          breaks_after ts xs (bind_ints I [q] [j]) w (map (ival (bind_ints I [q] [j])) initial) k))) True"
      using jump [of "bind_ints I [q] [j]"] by blast
    then show ?thesis
      unfolding vs unused ival_bound breaks_after_fresh [OF wf fr(2) comp lens] .
  qed
  have true: "denotes (bind_ints I [q] [j]) (path_condition (acc_jump acc)) (VBool True) True \<longleftrightarrow>
      b I \<and> (\<exists>k. j = int k \<and> ?breaks k)" for j
    using at [of j] denotes_unique [OF at [of j], of "VBool True" True] by auto
  have "b I \<and> (\<exists>k. ?breaks k) \<longleftrightarrow> (\<exists>j. denotes (bind_ints I [q] [j]) (path_condition (acc_jump acc)) (VBool True) True)"
    unfolding true by blast
  moreover have "holds I (acc_covered acc) \<longleftrightarrow> (\<exists>k. ?breaks k)" using jump [of I] by blast
  moreover obtain f where covered: "acc_covered acc = z_exists [path_count (path_expression_id s)] f"
    using acc by (auto simp: accelerate_first_break_def Let_def exec_simps next_path_expression_id_def split: if_splits)
  have "denotes I (path_condition rest) (VBool (b I \<and> holds I (z_not (acc_covered acc)))) True"
    by (rule extend_plain_condition(1) [OF z residual [unfolded assume_term_def]])
      (use path in \<open>simp_all add: covered z_exists_def copy_state_def\<close>)
  ultimately show ?thesis by (simp add: holds_connectives)
qed

theorem acceleration_partitions_paths_witness:
  "\<exists>acc s' rest s3. accelerate_first_break count_env 0 count_state [1] count_composite [z_int 0] count_session =
       Inr (Some acc, s') \<and>
     assume_term count_z3 count_module (z_not (acc_covered acc)) (copy_state count_state) s' = Inr (rest, s3) \<and>
     denotes count_model (path_condition rest)
       (VBool (\<not> (\<exists>k. breaks_after count_transitions [''ari_x''] count_model [1] [0] k))) True"
proof -
  obtain acc s' where acc: "accelerate_first_break count_env 0 count_state [1] count_composite [z_int 0] count_session =
      Inr (Some acc, s')" using count_accelerated by blast
  then obtain f where covered: "acc_covered acc = z_exists [path_count (path_expression_id count_session)] f"
    by (auto simp: accelerate_first_break_def Let_def exec_simps next_path_expression_id_def split: if_splits)
  have "class_of (copy_state count_state) = PlainState"
    "as_expr count_z3 (path_condition (copy_state count_state)) = Some z_true"
    using count_path(1) by (simp_all add: copy_state_def)
  then obtain rest where rest: "assume_term count_z3 count_module (z_not (acc_covered acc)) (copy_state count_state) s' =
      Inr (rest, s')"
    using extend_total [OF count_z3_ok, of "z_not (acc_covered acc)" "copy_state count_state" z_true count_module s']
    by (auto simp: assume_term_def covered z_exists_def)
  have ident: "path_expression_id count_session = 2" by (simp add: count_session_def)
  have names: "count_p = z_int_const ''ari_path_t_2''" "count_q = z_int_const ''ari_path_k_2''"
    by (simp_all add: count_terms)
  have fresh: "fresh_acceleration ''ari_path_n_1'' ''ari_path_t_2'' ''ari_path_k_2'' count_composite [z_int 0]"
    using count_fresh by (simp add: names)
  have len: "length [z_int 0] = length (co_parameters count_composite)" by (simp add: count_composite_def)
  have "denotes count_model (path_condition rest)
      (VBool (True \<and> \<not> (\<exists>k. breaks_after count_transitions [''ari_x''] count_model [1] (map (ival count_model) [z_int 0]) k))) True"
    by (rule acceleration_partitions_paths [where A = count_env and b = "\<lambda>_. True" and I = count_model,
        OF _ count_wf(2) count_solution(1) count_wf(1) acc len _ _ fresh _ _ count_path(2,3), THEN conjunct2])
      (use count_z3_ok count_relation_terms rest in
        \<open>simp_all add: ident count_names names [symmetric] count_relation_def [symmetric]\<close>)
  then show ?thesis using acc rest by (auto simp: ival_arith)
qed

section \<open>Any number of repetitions\<close>

text \<open>C7: when a choice controls the loop, the jump represents every number of repetitions the path allows:
  its condition holds of the paths whose count is such a number, its header nodes have the values after
  them, and its input is a sequence of choices to continue before the count and to stop at it.\<close>

theorem accelerate_arbitrary_exact:
  assumes "z3_ok (pa_z3 A)" "transitions_ok xs ts"
    and "solve_composite A loop [a] ts s0 = Inr (Some c, s1)" "composite_wf xs n c"
    and "find_nondet_loop_control A loop = Some ctl"
    and "accelerate_arbitrary_finite A loop st [a] ts c initial ctl s = Inr (Some acc, s')"
    and "length initial = length (co_parameters c)" "fresh_acceleration n p q c initial"
    and "path_probe (path_expression_id s) = z_int_const p" "path_count (path_expression_id s) = z_int_const q"
    and "ite_sorted (substitute (zip (co_parameters c) (trajectory (pa_z3 A) c initial (z_int_const p))) (co_guard c))"
      "list_all ite_sorted (trajectory (pa_z3 A) c initial (z_int_const q))"
    and "denotes I (path_condition st) (VBool b) d" "expr_sort (path_condition st) BoolSort"
  shows "denotes I (path_condition (acc_jump acc))
      (VBool (b \<and> (\<exists>k. ival I (z_int_const q) = int k \<and> run_word ts xs I (rep k [a]) (map (ival I) initial) \<noteq> None))) True \<and>
    (ival I (z_int_const q) = int k \<longrightarrow> run_word ts xs I (rep k [a]) (map (ival I) initial) = Some vs' \<longrightarrow>
      header_denotes (pa_module A) loop I (acc_jump acc) vs') \<and>
    (\<exists>body. nondet_calls (acc_jump acc) = nondet_calls st @
        [nondet_sequence (nc_call ctl) (p, body) (z_add (z_int_const q) (z_int 1))] \<and>
      (holds I body \<longleftrightarrow> (nc_continue ctl = (ival I (z_int_const p) < ival I (z_int_const q)))))"
  using arbitrary_finite_jump [OF assms] by blast


definition count_control :: nondet_control where
  "count_control = \<lparr>nc_call = 1, nc_exit = 2, nc_continue = True, nc_function = ''ari_x_unknown''\<rparr>"

lemma count_control: "find_nondet_loop_control count_env 0 = Some count_control"
  by (simp add: find_nondet_loop_control_def count_env_def count_exec_def count_module_def sample_module_def
      terminator_of_def count_kind_def control_oracle_def is_control_call_def has_one_use_def use_count_def
      function_instructions_def operands_of_def is_phi_def loop_contains_def count_control_def Let_def)

lemma count_paths_ok: "transitions_ok [''ari_x''] count_paths"
  using count_wf(2) by (simp add: count_paths_def transitions_ok_def transition_ok_def count_x_def is_int_def)

lemma count_zero: "expression_of count_z3 (z_int 0) = expression_cases [mk_or [z_true]] [z_int 0]"
  by (simp add: expression_of_def expr2piecewise_def aux_expr2piecewise.simps eliminate_ite_def collect_aux_vars_def
      count_z3_def closed_z3_def merge_single expression_cases_def)

lemma count_initial_defined:
  "\<exists>d. initial_defined count_z3 count_module count_state [0] z_true s = Inr (d, s) \<and>
     decide_unsat count_z3 (z_and z_true (z_not d)) = Unsat"
proof -
  have "initial_defined count_z3 count_module count_state [0] z_true s = Inr (z_and z_true z_true, s)"
    using count_zero by (simp add: exec_simps count_state_def new_state_def incoming_value_def count_kind_def evaluate_def
        count_module_def)
      (simp add: expression_cases_def defined_term_def piecewise2ite_def)
  moreover have "list_all closed_term [z_and z_true (z_not (z_and z_true z_true))]" by simp
  then have "z_check closed_z3 [z_and z_true (z_not (z_and z_true z_true))] = Unsat"
    by (simp add: closed_z3_def holds_connectives holds_not_false)
  then have "decide_unsat count_z3 (z_and z_true (z_not (z_and z_true z_true))) = Unsat"
    by (simp add: decide_unsat_def count_z3_def count_relation_def first_break_def)
  ultimately show ?thesis by blast
qed


lemma count_trajectory:
  "trajectory count_z3 count_composite [z_int 0] t = [z_add (z_int 0) (z_mul t (z_int 1))]"
  by (simp add: trajectory_def from_current_def count_composite_def form_at_def count_terms count_z3_def)

lemma arbitrary_jump_total:
  assumes z: "z3_ok (pa_z3 A)" and terms: "ite_sorted iterations" "is_bool iterations"
    and path: "as_expr (pa_z3 A) (path_condition st) = Some c" and fr: "frames (m_stack (mem st)) \<noteq> []"
    and phis: "phis_of (pa_module A) (loop_header (pa_module A) loop) = [phi]"
    and exit: "first_without_debug (pa_module A) (nc_exit ctl) = Some i"
  shows "\<exists>st'. arbitrary_jump A loop st w ctl probe count [t] iterations s = Inr (st', s)"
proof -
  let ?z = "pa_z3 A" and ?m = "pa_module A"
  have "frames (m_stack (mem (copy_state st))) \<noteq> []"
    using fr by (simp add: copy_state_def copy_memory_def copy_mstack_def)
  then obtain x where put: "store_temp ?m phi (expression_of ?z t) (copy_state st) s =
      Inr ((copy_state st)\<lparr>mem := x\<rparr>, s)" "frames (m_stack x) \<noteq> []" using store_temp_total by blast
  have "class_of ((copy_state st)\<lparr>mem := x\<rparr>) = PlainState"
      "as_expr ?z (path_condition ((copy_state st)\<lparr>mem := x\<rparr>)) = Some c"
    using path by (simp_all add: copy_state_def)
  then obtain st2 where ext: "extend_condition ?z ?m (expression_of ?z iterations) ((copy_state st)\<lparr>mem := x\<rparr>) s = Inr (st2, s)"
      "mem st2 = mem ((copy_state st)\<lparr>mem := x\<rparr>)" using extend_total [OF z terms] by blast
  define st3 where "st3 = (accelerated_history loop w count st2)\<lparr>nondet_calls := nondet_calls st2 @
    [nondet_sequence (nc_call ctl) (const_name probe, choice_sequence ctl probe count) (z_add count (z_int 1))]\<rparr>"
  have "frames (m_stack (mem st3)) \<noteq> []"
    using ext(2) put(2) by (simp add: st3_def accelerated_history_def set_history_def)
  then obtain y where "store_temp ?m (nc_call ctl) (expression_of ?z (bool_val (\<not> nc_continue ctl))) st3 s =
      Inr (st3\<lparr>mem := y\<rparr>, s)" using store_temp_total by blast
  then show ?thesis
    using ext(1) by (auto simp: arbitrary_jump_def Let_def exec_simps put_header_values_def phis put(1) st3_def
        block_start_def exit)
qed

lemma count_arbitrary:
  "\<exists>acc s'. accelerate_arbitrary_finite count_env 0 count_state [1] count_paths count_composite [z_int 0]
     count_control count_session = Inr (Some acc, s')"
proof -
  let ?s = "count_session\<lparr>path_expression_id := 3\<rparr>"
  have ident: "next_path_expression_id count_session = (2, ?s)"
    by (simp add: next_path_expression_id_def count_session_def)
  define iterations where "iterations = iteration_constraints count_composite
    (trajectory count_z3 count_composite [z_int 0] count_p) count_p count_q"
  have terms: "ite_sorted iterations" "is_bool iterations"
    unfolding iterations_def count_trajectory
    by (simp_all add: iteration_constraints_def z_forall_def count_q_def)
  have fr: "frames (m_stack (mem count_state)) \<noteq> []"
    by (simp add: count_state_def new_state_def memory_push_def push_frame_def)
  have exit: "first_without_debug count_module (nc_exit count_control) = Some 4"
    by (simp add: first_without_debug_def count_control_def count_module_def is_dbg_def count_kind_def)
  obtain st' where jump: "arbitrary_jump count_env 0 count_state [1] count_control count_p count_q
      (trajectory count_z3 count_composite [z_int 0] count_q) iterations ?s = Inr (st', ?s)"
    using arbitrary_jump_total [of count_env iterations count_state z_true 0 0 count_control 4] terms count_z3_ok
      count_path(1) fr exit unfolding count_trajectory by fastforce
  obtain d where d: "initial_defined count_z3 count_module count_state [0] z_true count_session = Inr (d, count_session)"
      "decide_unsat count_z3 (z_and z_true (z_not d)) = Unsat" using count_initial_defined by blast
  have stable: "decide_unsat count_z3 (z_and (z_and z_true (z_ge count_p (z_int 0)))
      (other_enabled count_paths 1 (co_parameters count_composite) (trajectory count_z3 count_composite [z_int 0] count_p))) = Unsat"
    unfolding count_trajectory
    by (simp add: other_enabled_def count_paths_def count_transitions_def count_composite_def decide_unsat_def
        count_z3_def count_unsat_def count_x_def)
  show ?thesis
    by (simp add: accelerate_arbitrary_finite_def Let_def exec_simps term_of_def count_path(1) ident count_names
        d stable iterations_def [symmetric] jump del: initial_defined.simps)
qed

lemma count_terms_sorted:
  "ite_sorted (substitute (zip (co_parameters count_composite) (trajectory count_z3 count_composite [z_int 0] t))
     (co_guard count_composite)) \<longleftrightarrow> ite_sorted t"
  "list_all ite_sorted (trajectory count_z3 count_composite [z_int 0] t) \<longleftrightarrow> ite_sorted t"
  unfolding count_trajectory by (simp_all add: count_composite_def count_terms)

lemma count_step:
  "run_word count_paths [''ari_x''] I (1 # w) [v] =
     (if v < 3 then run_word count_paths [''ari_x''] I w [v + 1] else None)"
  by (simp add: count_paths_def count_transitions_def count_x_def sem_simps) (simp add: ival_def bind_ints_def)

lemma count_known:
  "z3_ok (pa_z3 count_env)" "length [z_int 0] = length (co_parameters count_composite)"
  "fresh_acceleration ''ari_path_n_1'' ''ari_path_t_2'' ''ari_path_k_2'' count_composite [z_int 0]"
  "path_probe (path_expression_id count_session) = z_int_const ''ari_path_t_2''"
  "path_count (path_expression_id count_session) = z_int_const ''ari_path_k_2''"
  using count_z3_ok count_fresh count_names
  by (simp_all add: count_session_def count_p_def count_q_def) (simp add: count_composite_def)

theorem accelerate_arbitrary_exact_witness:
  "\<exists>acc s'. accelerate_arbitrary_finite count_env 0 count_state [1] count_paths count_composite [z_int 0]
       count_control count_session = Inr (Some acc, s') \<and>
     denotes count_model (path_condition (acc_jump acc)) (VBool True) True \<and>
     header_denotes count_module 0 count_model (acc_jump acc) [3]"
proof -
  obtain acc s' where acc: "accelerate_arbitrary_finite count_env 0 count_state [1] count_paths count_composite [z_int 0]
      count_control count_session = Inr (Some acc, s')" using count_arbitrary by blast
  have count: "ival count_model (z_int_const ''ari_path_k_2'') = int 3" by (simp add: ival_def count_model_def)
  have start: "map (ival count_model) [z_int 0] = [0]" by (simp add: ival_arith)
  have run: "run_word count_paths [''ari_x''] count_model (rep 3 [1]) [0] = Some [3]"
    by (simp add: count_step numeral_3_eq_3 del: run_word.simps(2))
  have "ite_sorted (substitute (zip (co_parameters count_composite) (trajectory (pa_z3 count_env) count_composite [z_int 0]
      (z_int_const ''ari_path_t_2''))) (co_guard count_composite))"
    "list_all ite_sorted (trajectory (pa_z3 count_env) count_composite [z_int 0] (z_int_const ''ari_path_k_2''))"
    by (simp_all add: count_terms_sorted del: substitute.simps)
  note exact = accelerate_arbitrary_exact [OF count_known(1) count_paths_ok count_solution(2) count_wf(1) count_control acc
      count_known(2-5) this count_path(2,3), where I = count_model and k = 3 and vs' = "[3]"]
  show ?thesis using exact acc run unfolding start count by auto
qed

text \<open>C10: the jump over a loop that a choice controls leaves out no other path: where the path into the loop
  holds, after any number of repetitions no other path word can be executed.\<close>

theorem accelerate_arbitrary_stable:
  assumes z: "z3_ok (pa_z3 A)" and ts: "transitions_ok xs ts"
    and solve: "solve_composite A loop [a] ts s0 = Inr (Some c, s1)" and wf: "composite_wf xs n c"
    and acc: "accelerate_arbitrary_finite A loop st [a] ts c initial ctl s = Inr (Some acc, s')"
    and len: "length initial = length (co_parameters c)" and fresh: "fresh_acceleration n p q c initial"
    and probe: "path_probe (path_expression_id s) = z_int_const p"
    and path: "as_expr (pa_z3 A) (path_condition st) = Some e" "holds (bind_ints I [p] [int j]) e"
    and unused: "list_all (\<lambda>(b, t). \<not> mentions p (tr_guard t)) ts" and other: "a' \<noteq> a"
  shows "run_word ts xs I (rep j [a] @ [a']) (map (ival I) initial) = None"
proof -
  have init: "start_terms [n, p] initial" and avoids: "composite_avoids p c"
    using fresh by (auto simp: fresh_acceleration_def start_terms_def list_all_iff)
  have lens: "length initial = length xs" "length (map (ival I) initial) = length xs" "length (co_one_step c) = length xs"
    using len wf by (simp_all add: composite_wf_def)
  note simp = z3_okD(1) [OF z] and check = z3_okD(2) [OF z]
  note comp = solve_composite_ok [OF simp ts solve wf]
  obtain d s2 where "initial_defined (pa_z3 A) (pa_module A) st (phis_of (pa_module A) (loop_header (pa_module A) loop))
      z_true s = Inr (d, s2)"
    using acc by (auto simp: accelerate_arbitrary_finite_def Let_def exec_simps)
  then have stable: "z_check (pa_z3 A) [z_and (z_and e (z_ge (z_int_const p) (z_int 0)))
      (other_enabled ts a (co_parameters c) (trajectory (pa_z3 A) c initial (z_int_const p)))] = Unsat"
    using acc initial_defined_session [of "pa_z3 A" "pa_module A" st _ z_true s d s2] probe path(1)
    by (auto simp: accelerate_arbitrary_finite_def Let_def exec_simps term_of_def next_path_expression_id_def
        decide_unsat_def split: if_splits)
  have "\<not> holds (bind_ints I xs ((step_values c xs I ^^ j) (map (ival I) initial))) (tr_guard t)"
    if "map_of ts a' = Some t" for t
    using stable_trajectory [OF simp check wf comp(2) ts init lens(1) avoids stable path(2) map_of_SomeD [OF that] other]
      unused map_of_SomeD [OF that] by (auto simp: list_all_iff)
  then show ?thesis
    using run_word_rep [OF comp(1) lens(3,2), of I j] by (auto simp: run_word_append split: option.splits)
qed

theorem accelerate_arbitrary_stable_witness:
  "run_word count_paths [''ari_x''] zero_interp (rep 2 [1]) [0] = Some [2] \<and>
   run_word count_paths [''ari_x''] zero_interp (rep 2 [1] @ [2]) [0] = None"
proof -
  obtain acc s' where acc: "accelerate_arbitrary_finite count_env 0 count_state [1] count_paths count_composite [z_int 0]
      count_control count_session = Inr (Some acc, s')" using count_arbitrary by blast
  have "list_all (\<lambda>(b, t). \<not> mentions ''ari_path_t_2'' (tr_guard t)) count_paths" "(2 :: path_symbol) \<noteq> 1"
    by (simp_all add: count_paths_def count_transitions_def count_x_def)
  then have "run_word count_paths [''ari_x''] zero_interp (rep 2 [1] @ [2]) (map (ival zero_interp) [z_int 0]) = None"
    using accelerate_arbitrary_stable [OF count_known(1) count_paths_ok count_solution(2) count_wf(1) acc count_known(2-4),
        of z_true zero_interp 2 2] count_path(1) by (simp add: holds_not_false)
  moreover have "run_word count_paths [''ari_x''] zero_interp (rep 2 [1]) [0] = Some [2]"
    by (simp add: count_step numeral_2_eq_2 del: run_word.simps(2))
  ultimately show ?thesis by (simp add: ival_arith)
qed

end
