(* ===== verification/Nested_Correctness.thy ===== *)
theory Nested_Correctness
  imports Nested_Accelerator Acceleration_Properties
begin

text \<open>
  The summary of a nested loop is exact on its domain: the synthesised number of repetitions is the number
  of steps after which the test of the header fails, and the domain holds exactly where the body can be
  repeated that often, the state after it leaves the loop, and no assertion fails on the way.
\<close>

section \<open>The number of repetitions\<close>

text \<open>The test on unbounded integers.\<close>

fun test_holds :: "predicate \<Rightarrow> int \<Rightarrow> int \<Rightarrow> bool" where
  "test_holds P_EQ a b \<longleftrightarrow> a = b" | "test_holds P_NE a b \<longleftrightarrow> a \<noteq> b"
| "test_holds P_SLT a b \<longleftrightarrow> a < b" | "test_holds P_ULT a b \<longleftrightarrow> a < b"
| "test_holds P_SLE a b \<longleftrightarrow> a \<le> b" | "test_holds P_ULE a b \<longleftrightarrow> a \<le> b"
| "test_holds P_SGT a b \<longleftrightarrow> a > b" | "test_holds P_UGT a b \<longleftrightarrow> a > b"
| "test_holds P_SGE a b \<longleftrightarrow> a \<ge> b" | "test_holds P_UGE a b \<longleftrightarrow> a \<ge> b"

lemma inverse_predicate_test: "test_holds (inverse_predicate p) a b \<longleftrightarrow> \<not> test_holds p a b"
  by (cases p) auto

lemma swapped_predicate_test: "test_holds (swapped_predicate p) a b \<longleftrightarrow> test_holds p b a"
  by (cases p) auto

text \<open>Dividing a positive distance by the magnitude of the stride, rounded up.\<close>

lemma ceiling_count:
  fixes d m :: int
  assumes "m > 0" "d > 0"
  shows "t \<ge> (d + m - 1) div m \<longleftrightarrow> t * m \<ge> d"
proof -
  have split: "d + m - 1 = m * ((d + m - 1) div m) + (d + m - 1) mod m" by simp
  have bounds: "0 \<le> (d + m - 1) mod m" "(d + m - 1) mod m < m" using assms(1) by simp_all
  have "t \<ge> (d + m - 1) div m \<longleftrightarrow> d + m - 1 < (t + 1) * m"
  proof
    assume "t \<ge> (d + m - 1) div m"
    then have "m * ((d + m - 1) div m) \<le> m * t" using assms(1) by simp
    then have "d + m - 1 < m * t + m" using split bounds by linarith
    then show "d + m - 1 < (t + 1) * m" by (simp add: algebra_simps)
  next
    assume a: "d + m - 1 < (t + 1) * m"
    show "t \<ge> (d + m - 1) div m"
    proof (rule ccontr)
      assume "\<not> t \<ge> (d + m - 1) div m"
      then have "m * (t + 1) \<le> m * ((d + m - 1) div m)" using assms(1) by simp
      then have "m * (t + 1) \<le> d + m - 1" using split bounds by linarith
      then show False using a by (simp add: algebra_simps)
    qed
  qed
  also have "\<dots> \<longleftrightarrow> t * m \<ge> d" using assms(1) by (simp add: algebra_simps) linarith
  finally show ?thesis .
qed

lemma step_count_value:
  assumes "usable_stride p stride" "is_int counter" "is_int endpoint"
  shows "ival I (step_count p stride counter endpoint) =
    (let d = (if is_less_predicate p then ival I endpoint - ival I counter else ival I counter - ival I endpoint) +
             (if is_inclusive_predicate p then 1 else 0)
     in if d > 0 then (d + \<bar>stride\<bar> - 1) div \<bar>stride\<bar> else 0)"
proof -
  have "\<bar>stride\<bar> > 0" using assms(1) by (simp add: usable_stride_def)
  then show ?thesis
    by (auto simp: step_count_def Let_def ival_arith ival_ite ival_div holds_comparisons smt_div_def)
qed

text \<open>A test that the counter approaches fails after as many steps as the distance divided by the stride.\<close>

lemma steps_until_failure:
  fixes d m :: int
  assumes "m > 0" "N = (if d > 0 then (d + m - 1) div m else 0)"
  shows "0 \<le> N" "0 \<le> t \<Longrightarrow> t < N \<Longrightarrow> t * m < d" "N * m \<ge> d"
proof -
  show "0 \<le> N" using assms by (auto intro: pos_imp_zdiv_nonneg_iff [THEN iffD2])
  show "t * m < d" if "0 \<le> t" "t < N"
    using that assms ceiling_count [of m d t] by (auto split: if_splits simp: not_le [symmetric])
  show "N * m \<ge> d"
    using assms ceiling_count [of m d N] by (auto split: if_splits)
qed



section \<open>The domain\<close>

lemma substitute_itself: "substitute (zip ps ps) e = e"
proof (induction e arbitrary: ps)
  case (App f es)
  have "d = App f es" if "map_of (zip ps ps) (App f es) = Some d" for d
    using map_of_SomeD [OF that] by (auto simp: in_set_zip)
  then show ?case using App by (auto split: option.splits intro: map_idI)
next
  case (Quant q xs b)
  have "d = Quant q xs b" if "map_of (zip ps ps) (Quant q xs b) = Some d" for d
    using map_of_SomeD [OF that] by (auto simp: in_set_zip)
  moreover have "filter (\<lambda>(v, _). v \<notin> set (map z_int_const xs)) (zip ps ps) =
      zip (filter (\<lambda>v. v \<notin> set (map z_int_const xs)) ps) (filter (\<lambda>v. v \<notin> set (map z_int_const xs)) ps)"
    by (induction ps) auto
  ultimately show ?case using Quant by (auto split: option.splits)
qed

text \<open>Over its own parameters, the trajectory is that of the values the parameters have.\<close>

lemma closed_at_trajectory:
  "closed_at z c t = trajectory z c (co_parameters c) t"
  by (simp add: closed_at_def trajectory_def from_current_def substitute_itself comp_def)


lemma parameters_start:
  assumes wf: "composite_wf xs n c" and avoids: "composite_avoids p c"
  shows "start_terms [n, p] (co_parameters c)" "length (co_parameters c) = length xs"
  using wf avoids_names [OF assms] by (auto simp: start_terms_def composite_wf_def list_all_iff is_int_def)

text \<open>The execution stays inside for the count, and the state after it leaves the loop; no assertion fails in
  a state on the way, the last one included.\<close>

definition complete_exit ::
    "transitions \<Rightarrow> string list \<Rightarrow> interp \<Rightarrow> path_word \<Rightarrow> z3expr \<Rightarrow> z3expr \<Rightarrow> int list \<Rightarrow> nat \<Rightarrow> bool" where
  "complete_exit ts xs I w exit_path errors vs k \<longleftrightarrow>
     (\<exists>vs'. run_word ts xs I (rep k w) vs = Some vs' \<and> holds (bind_ints I xs vs') exit_path) \<and>
     (\<forall>j\<le>k. \<forall>u. run_word ts xs I (rep j w) vs = Some u \<longrightarrow> \<not> holds (bind_ints I xs u) errors)"

lemma nested_domain_run:
  assumes z: "simplify_ok z" "check_ok z" and wf: "composite_wf xs n c" and cert: "certify_closed_forms z c"
    and comp: "composite_of ts xs w c" and avoids: "composite_avoids p c"
    and count: "is_int count" "quantifier_free count" "\<not> mentions p count"
    and exit_path: "typed_over xs exit_path" and errors: "typed_over xs (ni_errors r)" "\<not> mentions p (ni_errors r)"
  shows "holds I (nested_domain c r (z_int_const p) count (closed_at z c (z_int_const p)) (closed_at z c count) exit_path) \<longleftrightarrow>
    (\<exists>k. ival I count = int k \<and>
       complete_exit ts xs I w exit_path (ni_errors r) (map (ival I) (co_parameters c)) k)"
proof -
  let ?ps = "co_parameters c" and ?vs = "map (ival I) (co_parameters c)" and ?K = "\<lambda>j. bind_ints I [p] [j]"
  let ?S = "\<lambda>j. (step_values c xs I ^^ j) (map (ival I) (co_parameters c))"
  note init = parameters_start [OF wf avoids]
  have vs: "length ?vs = length xs" and steps: "length (co_one_step c) = length xs"
    using init(2) wf by (simp_all add: composite_wf_def)
  have fixed: "ival (?K j) count = ival I count" for j
    using eval_bind_fresh [of count "[p]"] count by (simp add: ival_def)
  note inside = iteration_constraints_run [OF z wf cert comp init avoids fixed, unfolded iteration_constraints_def]
  have closed: "closed_values c xs n I ?vs (int j) = ?S j" for j by (rule certified_forms [OF z(2) wf cert vs])
  have exit: "holds I (substitute (zip ?ps (closed_at z c count)) exit_path) \<longleftrightarrow>
      holds (bind_ints I xs (closed_values c xs n I ?vs (ival I count))) exit_path"
    using holds_on_trajectory [OF z(1) wf init(1) _ init(2) count(1) exit_path, of I] by (simp add: closed_at_trajectory)
  have at: "holds (?K j) (substitute (zip ?ps (closed_at z c (z_int_const p))) (ni_errors r)) \<longleftrightarrow>
      holds (bind_ints I xs (closed_values c xs n I ?vs j)) (ni_errors r)" for j
  proof -
    have "eval (bind_ints (bind_ints I xs u) [p] [j]) (ni_errors r) = eval (bind_ints I xs u) (ni_errors r)" for u
      using eval_bind_fresh [of "ni_errors r" "[p]"] typed_over_quantifier_free [OF errors(1)] errors(2) by simp
    then show ?thesis
      using holds_on_trajectory [OF z(1) wf init(1) _ init(2) _ errors(1), of "z_int_const p" "?K j"]
        start_terms_fresh(1) [OF init(1), of p I j]
      by (simp add: closed_at_trajectory ival_bound closed_values_fresh [OF wf avoids] holds_def
          bind_ints_swap [OF avoids_names(1) [OF wf avoids]] del: map_map)
  qed
  have "holds I (nested_domain c r (z_int_const p) count (closed_at z c (z_int_const p)) (closed_at z c count) exit_path) \<longleftrightarrow>
      holds I (z_and (z_ge count (z_int 0)) (z_forall [z_int_const p] (z_implies (before_count (z_int_const p) count)
        (substitute (zip ?ps (trajectory z c ?ps (z_int_const p))) (co_guard c))))) \<and>
      holds (bind_ints I xs (closed_values c xs n I ?vs (ival I count))) exit_path \<and>
      (\<forall>j. 0 \<le> j \<and> j \<le> ival I count \<longrightarrow> \<not> holds (bind_ints I xs (closed_values c xs n I ?vs j)) (ni_errors r))"
    unfolding nested_domain_def
    by (auto simp: holds_connectives holds_forall1 holds_comparisons ival_arith ival_bound fixed at exit
        closed_at_trajectory [symmetric])
  also have "\<dots> \<longleftrightarrow> (\<exists>k. ival I count = int k \<and> run_word ts xs I (rep k w) ?vs \<noteq> None \<and>
      holds (bind_ints I xs (?S k)) exit_path \<and> (\<forall>j\<le>k. \<not> holds (bind_ints I xs (?S j)) (ni_errors r)))"
  proof -
    define safe where "safe m \<longleftrightarrow> (\<forall>j. 0 \<le> j \<and> j \<le> m \<longrightarrow>
      \<not> holds (bind_ints I xs (closed_values c xs n I ?vs j)) (ni_errors r))" for m
    have "safe (int k) \<longleftrightarrow> (\<forall>j\<le>k. \<not> holds (bind_ints I xs (?S j)) (ni_errors r))" for k
      unfolding safe_def by (metis closed nat_int nat_le_iff of_nat_0_le_iff int_nat_eq zle_int)
    then show ?thesis unfolding inside safe_def [symmetric] using closed by auto
  qed
  also have "\<dots> \<longleftrightarrow> (\<exists>k. ival I count = int k \<and> complete_exit ts xs I w exit_path (ni_errors r) ?vs k)"
    unfolding complete_exit_def run_word_rep [OF comp steps vs] by (auto split: if_splits)
  finally show ?thesis .
qed


text \<open>C5: the domain of a summary is where skipping the loop is complete and safe: it holds exactly when the
  synthesised count is a number of repetitions after which the loop is left, and no assertion of the body
  or of the header fails before.\<close>

theorem nested_domain_exact:
  assumes "z3_ok (pa_z3 A)" "transitions_ok xs ts"
    and "solve_composite A loop w ts s = Inr (Some c, s')" "composite_wf xs n c" "composite_avoids p c"
    and "is_int count" "quantifier_free count" "\<not> mentions p count"
    and "typed_over xs exit_path" "typed_over xs (ni_errors r)" "\<not> mentions p (ni_errors r)"
  shows "holds I (nested_domain c r (z_int_const p) count (closed_at (pa_z3 A) c (z_int_const p))
      (closed_at (pa_z3 A) c count) exit_path) \<longleftrightarrow>
    (\<exists>k. ival I count = int k \<and>
       complete_exit ts xs I w exit_path (ni_errors r) (map (ival I) (co_parameters c)) k)"
  using nested_domain_run [OF z3_okD(1,2) [OF assms(1)] assms(4)
      solve_composite_ok(2,1) [OF z3_okD(1) [OF assms(1)] assms(2,3,4)] assms(5-11)] .

definition count_iteration :: nested_iteration where
  "count_iteration = new_iteration\<lparr>ni_errors := z_gt count_x (z_int 5)\<rparr>"

theorem nested_domain_exact_witness:
  "holds count_model (nested_domain count_composite count_iteration count_p
     (step_count P_SLT 1 count_x (z_int 3)) (closed_at count_z3 count_composite count_p)
     (closed_at count_z3 count_composite (step_count P_SLT 1 count_x (z_int 3))) (z_not (z_lt count_x (z_int 3))))"
proof -
  let ?count = "step_count P_SLT 1 count_x (z_int 3)"
  have terms: "is_int ?count" "quantifier_free ?count" "\<not> mentions ''ari_path_t_2'' ?count"
    by (simp_all add: step_count_def Let_def count_x_def)
  have avoids: "composite_avoids ''ari_path_t_2'' count_composite"
    using count_known(3) by (simp add: fresh_acceleration_def)
  have x: "ival count_model count_x = 0" by (simp add: ival_def count_x_def count_model_def)
  have "usable_stride P_SLT 1" by (simp add: usable_stride_def)
  then have count: "ival count_model ?count = int 3"
    using step_count_value [of P_SLT 1 count_x "z_int 3" count_model] x by (simp add: count_x_def [symmetric] ival_arith)
      (simp add: count_x_def)
  have step: "run_word count_transitions [''ari_x''] count_model (1 # w) [v] =
      (if v < 3 then run_word count_transitions [''ari_x''] count_model w [v + 1] else None)" for v w
    by (simp add: count_transitions_def count_x_def sem_simps) (simp add: ival_def bind_ints_def)
  have at: "holds (bind_ints count_model [''ari_x''] [v]) (z_gt count_x (z_int 5)) \<longleftrightarrow> v > 5"
    "holds (bind_ints count_model [''ari_x''] [v]) (z_not (z_lt count_x (z_int 3))) \<longleftrightarrow> v \<ge> 3" for v
    by (simp_all add: holds_comparisons holds_connectives ival_arith) (simp_all add: ival_def bind_ints_def count_x_def not_less)
  have "complete_exit count_transitions [''ari_x''] count_model [1] (z_not (z_lt count_x (z_int 3)))
      (z_gt count_x (z_int 5)) [0] 3"
  proof -
    have "run_word count_transitions [''ari_x''] count_model (rep j [1]) [0] = Some [int j]" if "j \<le> 3" for j
    proof -
      have "j = 0 \<or> j = 1 \<or> j = 2 \<or> j = 3" using that by linarith
      then show ?thesis by (auto simp: step numeral_2_eq_2 numeral_3_eq_3 simp del: run_word.simps(2))
    qed
    then show ?thesis by (auto simp: complete_exit_def at)
  qed
  then show ?thesis
    using nested_domain_exact [OF count_known(1) count_wf(2) count_solution(1) count_wf(1) avoids terms,
        of "z_not (z_lt count_x (z_int 3))" count_iteration count_model] count x
    by (auto simp: count_iteration_def new_iteration_def count_composite_def count_p_def count_x_def [symmetric])
      (simp_all add: count_x_def)
qed

section \<open>The jump\<close>

text \<open>A jump over a nested loop is taken only where the path proves the domain at the actual inputs, and it
  keeps the path.\<close>

lemma fold_outputs_fields:
  "fold_exec (\<lambda>(v, t). store_temp m v (f t)) xs st s = Inr (st', s') \<Longrightarrow> \<exists>x. st' = st\<lparr>mem := x\<rparr>"
proof (induction xs arbitrary: st s)
  case Nil
  then show ?case by (auto simp: exec_simps intro: exI [of _ "mem st"])
next
  case (Cons a xs)
  then obtain st1 s1 where r: "store_temp m (fst a) (f (snd a)) st s = Inr (st1, s1)"
      "fold_exec (\<lambda>(v, t). store_temp m v (f t)) xs st1 s1 = Inr (st', s')"
    by (auto simp: exec_simps split: prod.splits)
  then show ?case using Cons.IH [OF r(2)] store_temp_object(3) [OF r(1)] by auto
qed

text \<open>C9: the jump over a nested loop is taken only where the path into the loop proves that the inputs are
  defined and lie in the domain of the summary, and the jump has the same path.\<close>

theorem nested_jump_in_domain:
  assumes z: "z3_ok z" and jump: "apply_nested_summary z m loop nps st s = Inr (Some st', s')"
    and path: "denotes I (path_condition st) (VBool True) d" "expr_sort (path_condition st) BoolSort"
  shows "\<exists>actual dt s1. nested_actuals z m loop st (nps_inputs nps) [] z_true s = Inr (Some (actual, dt), s1) \<and>
    holds I dt \<and> holds I (substitute (zip (nps_parameters nps) actual) (nps_domain nps)) \<and>
    path_condition st' = path_condition st \<and> trace st' = trace st @ [loop_header m loop] \<and> status_of st' = RUNNING"
proof -
  obtain actual dt s1 where actuals: "nested_actuals z m loop st (nps_inputs nps) [] z_true s = Inr (Some (actual, dt), s1)"
    using jump by (auto simp: apply_nested_summary_def exec_simps split: option.splits)
  let ?s = "zip (nps_parameters nps) actual"
  obtain e where e: "as_expr z (path_condition st) = Some e" "holds I e"
    using as_expr_value [OF z path] by (auto simp: holds_def)
  obtain s2 where proved: "z_check z [z_and e (z_not (z_and dt (substitute ?s (nps_domain nps))))] = Unsat"
      and to: "nested_loop_jump z m loop nps ?s st s1 = Inr (st', s2)"
    using jump actuals e(1)
    by (auto simp: apply_nested_summary_def exec_simps term_of_def Let_def decide_unsat_def split: if_splits)
  obtain st1 s3 b where outputs: "fold_exec (\<lambda>(v, t). store_temp m v (expression_of z (z_simplify z (substitute ?s t))))
        (zip (nps_outputs nps) (nps_values nps)) (copy_state st) s1 = Inr (st1, s3)"
    and st': "st' = (step_pc m (Some b)
        ((set_history loop (append_symbolic_power (nps_word nps) (z_simplify z (substitute ?s (nps_count nps)))
            new_loop_path) st1)
          \<lparr>path_decisions := path_decisions st1 @ [(block_address (loop_header m loop), 2)],
           trace := trace st1 @ [loop_header m loop]\<rparr>))\<lparr>status_of := RUNNING\<rparr>"
    using to unfolding nested_loop_jump_def exec_simps by blast
  have "holds I (z_and dt (substitute ?s (nps_domain nps)))"
    using check_unsat [OF z3_okD(2) [OF z] proved, of I] e(2) by (simp add: holds_connectives)
  moreover obtain x where "st1 = (copy_state st)\<lparr>mem := x\<rparr>"
    using fold_outputs_fields [of m "\<lambda>t. expression_of z (z_simplify z (substitute ?s t))"] outputs by blast
  ultimately show ?thesis
    using actuals st' by (auto simp: holds_connectives step_pc_def set_history_def copy_state_def)
qed

definition counted_summary :: nested_path_summary where
  "counted_summary = \<lparr>nps_inputs = [0], nps_parameters = [count_p], nps_outputs = [0], nps_values = [z_int 3],
     nps_domain = z_ge count_p (z_int 0), nps_count = z_sub (z_int 3) count_p, nps_exit = 2, nps_word = [1]\<rparr>"

lemma counted_actuals:
  "nested_actuals count_z3 count_module 0 count_state [0] [] z_true new_session =
     Inr (Some ([z_int 0], z_and z_true z_true), new_session)"
proof -
  have "incoming_value count_module 0 9 = Some 5" "is_header_phi count_module 0 0" "trace count_state = [9]"
    by (simp_all add: incoming_value_def is_header_phi_def is_phi_def count_kind_def count_module_def count_state_def
        new_state_def sample_module_def)
  then have "nested_input count_module 0 count_state 0 = Some 5" by (simp add: nested_input_def count_kind_def)
  moreover have "evaluate count_z3 count_module count_state 5 True new_session =
      Inr (expression_cases [mk_or [z_true]] [z_int 0], new_session)"
    using count_zero by (simp add: evaluate_def count_kind_def count_module_def give_def)
  moreover have "as_expr count_z3 (expression_cases [mk_or [z_true]] [z_int 0]) = Some (z_int 0)"
    "defined_term count_z3 (expression_cases [mk_or [z_true]] [z_int 0]) = Some z_true"
    by (simp_all add: as_expr_def defined_term_def piecewise2ite_def expression_cases_def)
  ultimately show ?thesis by (simp add: exec_simps term_of_def)
qed

theorem nested_jump_in_domain_witness:
  "\<exists>st' s'. apply_nested_summary count_z3 count_module 0 counted_summary count_state new_session = Inr (Some st', s') \<and>
     path_condition st' = path_condition count_state \<and> trace st' = [9, 0] \<and> status_of st' = RUNNING"
proof -
  have proved: "decide_unsat count_z3 (z_and z_true (z_not (z_and (z_and z_true z_true) (z_ge (z_int 0) (z_int 0))))) = Unsat"
    (is "decide_unsat _ ?f = _")
  proof -
    have "list_all closed_term [?f]" by simp
    then have "z_check closed_z3 [?f] = Unsat" by (simp add: closed_z3_def sem_simps)
    then show ?thesis by (simp add: decide_unsat_def count_z3_def count_relation_def first_break_def)
  qed
  have fr: "frames (m_stack (mem (copy_state count_state))) \<noteq> []"
    by (simp add: count_state_def new_state_def memory_push_def push_frame_def copy_state_def copy_memory_def
        copy_mstack_def)
  then obtain x where put: "store_temp count_module 0 (expression_of count_z3 (z_simplify count_z3 (z_int 3)))
      (copy_state count_state) new_session = Inr ((copy_state count_state)\<lparr>mem := x\<rparr>, new_session)"
    using store_temp_total by blast
  have jump: "\<exists>st' s'. apply_nested_summary count_z3 count_module 0 counted_summary count_state new_session =
      Inr (Some st', s')"
  proof -
    have domain: "substitute [(count_p, z_int 0)] (z_ge count_p (z_int 0)) = z_ge (z_int 0) (z_int 0)"
      "nps_inputs counted_summary = [0]" "nps_parameters counted_summary = [count_p]"
      "nps_domain counted_summary = z_ge count_p (z_int 0)"
      by (simp_all add: count_p_def counted_summary_def)
    have exit: "first_without_debug count_module 2 = Some 4"
      by (simp add: first_without_debug_def count_module_def is_dbg_def count_kind_def sample_module_def)
    have "\<exists>st' s'. nested_loop_jump count_z3 count_module 0 counted_summary [(count_p, z_int 0)] count_state new_session =
        Inr (st', s')"
      using put exit by (simp add: nested_loop_jump_def exec_simps block_start_def counted_summary_def count_p_def)
    then show ?thesis
      using proved by (simp add: apply_nested_summary_def counted_actuals domain exec_simps Let_def term_of_def
          count_path(1) del: nested_actuals.simps substitute.simps)
  qed
  then show ?thesis
    using nested_jump_in_domain [OF count_z3_ok _ count_path(2,3)] by (fastforce simp: count_state_def new_state_def)
qed

end
