(* ===== verification/Loop_Summary_Correctness.thy ===== *)
theory Loop_Summary_Correctness
  imports Loop_Summarizer Linear_Solutions Nested_Correctness Recurrence_Cases
begin

text \<open>
  What a loop summary states: the conditions of the cases of the recurrence and their equations against
  the updates of the paths, the constraints on the number of iterations against the first index at which
  a path leaves the loop, and the asserted conditions at every index of an iteration.
\<close>

section \<open>The state after some iterations\<close>

text \<open>The named values are those of their closed forms at an index.\<close>

abbreviation at_loop_n :: "interp \<Rightarrow> int \<Rightarrow> interp" where
  "at_loop_n I k \<equiv> bind_ints I [''ari_loop_n''] [k]"

definition iteration :: "interp \<Rightarrow> string list \<Rightarrow> z3expr list \<Rightarrow> int \<Rightarrow> interp" where
  "iteration I xs ts k = bind_ints (at_loop_n I k) xs (map (ival (at_loop_n I k)) ts)"

lemma eval_iteration:
  assumes "length ts = length xs" "list_all is_int ts" "typed_over xs e"
  shows "eval (at_loop_n I k) (substitute (zip (map z_int_const xs) ts) e) = eval (iteration I xs ts k) e"
  using eval_at_terms [OF assms] by (simp add: iteration_def)

section \<open>Asserted conditions\<close>

lemma prove_invariants_queries:
  "prove_invariants z ls cs s = Inr (HOLD, s') \<Longrightarrow> c \<in> set cs \<Longrightarrow>
   \<exists>t q. as_expr z c = Some t \<and> evaluate_expr ls t = Some q \<and>
     z_check z [index_range (ls_count ls), z_not q] = Unsat"
proof (induction cs)
  case (Cons a cs)
  obtain t q where t: "as_expr z a = Some t" "evaluate_expr ls t = Some q"
      and rest: "(case z_check z [index_range (ls_count ls), z_not q] of Sat \<Rightarrow> give FAIL
        | Unsat \<Rightarrow> prove_invariants z ls cs | Unknown \<Rightarrow> give VERIUNKNOWN) s = Inr (HOLD, s')"
    using Cons.prems(1) by (auto simp: exec_simps term_of_def)
  then have "z_check z [index_range (ls_count ls), z_not q] = Unsat" "prove_invariants z ls cs s = Inr (HOLD, s')"
    by (auto simp: exec_simps split: check_result.splits)
  then show ?case using t Cons.IH Cons.prems(2) by auto
qed simp

lemma holds_index_range:
  "holds (at_loop_n I k) (index_range count) \<longleftrightarrow>
     0 \<le> k \<and> (case count of Some N \<Rightarrow> k < ival (at_loop_n I k) N | None \<Rightarrow> True)"
  using ival_bound [of I "''ari_loop_n''" k]
  by (auto simp: index_range_def sem_simps Control_Instructions.ind_var_def split: option.splits)

text \<open>C11: A summary whose asserted conditions are reported as proved has each of them in the state after
  every number of iterations below its count, whatever the interpretation of the other symbols.\<close>

theorem prove_invariants_sound:
  assumes z: "check_ok z" and proved: "prove_invariants z ls cs s = Inr (HOLD, s')"
    and c: "c \<in> set cs" "as_expr z c = Some t"
    and forms: "ls_params ls = map z_int_const xs" "list_all is_int (ls_closed_forms ls)" "typed_over xs t"
    and k: "0 \<le> k" "\<forall>N. ls_count ls = Some N \<longrightarrow> k < ival (at_loop_n I k) N"
  shows "holds (iteration I xs (ls_closed_forms ls) k) t"
proof -
  obtain q where q: "evaluate_expr ls t = Some q" "z_check z [index_range (ls_count ls), z_not q] = Unsat"
    using prove_invariants_queries [OF proved c(1)] c(2) by auto
  have len: "length (ls_closed_forms ls) = length xs" and
    q_eq: "q = substitute (zip (map z_int_const xs) (ls_closed_forms ls)) t"
    using q(1) forms(1) by (auto simp: evaluate_expr_def substitute_all_def split: if_splits)
  have "holds (at_loop_n I k) (index_range (ls_count ls))"
    using k by (simp add: holds_index_range split: option.splits)
  then have "holds (at_loop_n I k) q" using check_unsat [OF z q(2), of "at_loop_n I k"] by (auto simp: sem_simps)
  then show ?thesis using eval_iteration [OF len forms(2,3), of I k] by (simp add: holds_def q_eq)
qed

text \<open>The first iterations of a counter: the condition that it stays below its bound.\<close>

definition counting_summary :: loop_summary where
  "counting_summary = exact_loop_summary [z_int_const ''x''] [z_int 3] [loop_n] z_true [] (Some (z_int 3))"

theorem prove_invariants_sound_witness:
  "holds (iteration zero_interp [''x''] [loop_n] 2) (z_lt (z_int_const ''x'') (z_int 3))"
proof -
  let ?t = "z_lt (z_int_const ''x'') (z_int 3)"
  have "z_check exact_z3 [index_range (Some (z_int 3)), z_not (z_lt loop_n (z_int 3))] = Unsat"
    by (rule exact_check(1)) (auto simp: index_range_def sem_simps)
  then have "prove_invariants exact_z3 counting_summary [single_case ?t] s = Inr (HOLD, s)" for s
    by (simp add: exec_simps term_of_def single_case_def as_expr_def piecewise2ite_def evaluate_expr_def
        substitute_all_def counting_summary_def exact_loop_summary_def give_def)
  then have "holds (iteration zero_interp [''x''] (ls_closed_forms counting_summary) 2) ?t"
    by (rule prove_invariants_sound [OF z3_okD(2) [OF exact_z3_ok], where c = "single_case ?t"])
      (simp_all add: counting_summary_def exact_loop_summary_def single_case_def as_expr_def piecewise2ite_def
        Control_Instructions.ind_var_def sem_simps)
  then show ?thesis by (simp add: counting_summary_def exact_loop_summary_def)
qed


section \<open>The number of iterations\<close>

lemma substitute_fresh:
  "\<forall>(v, d)\<in>set s. v \<notin> set (subterms e) \<Longrightarrow> substitute s e = e"
proof (induction e arbitrary: s)
  case (App f es)
  have "map_of s (App f es) = None"
    using App.prems by (auto simp: map_of_eq_None_iff)
  moreover have "substitute s a = a" if "a \<in> set es" for a
    using App.IH [OF that, of s] App.prems that by fastforce
  ultimately show ?case by (simp add: map_idI)
next
  case (Quant q xs b)
  have "map_of s (Quant q xs b) = None"
    using Quant.prems by (auto simp: map_of_eq_None_iff)
  moreover have "substitute (filter (\<lambda>(v, _). v \<notin> set (map z_int_const xs)) s) b = b"
    using Quant.prems by (intro Quant.IH) fastforce
  ultimately show ?case by simp
qed

definition unused :: "string list \<Rightarrow> z3expr \<Rightarrow> bool" where
  "unused xs e \<longleftrightarrow> (\<forall>x\<in>set xs. z_int_const x \<notin> set (subterms e))"

lemma unused_simps [simp]:
  "unused xs (App f es) \<longleftrightarrow> (es = [] \<longrightarrow> (\<forall>x\<in>set xs. f \<noteq> OUninterp x IntSort)) \<and> list_all (unused xs) es"
  "unused xs (Quant q ys b) \<longleftrightarrow> unused xs b"
  by (auto simp: unused_def list_all_iff)

lemma substitute_unused: "unused xs e \<Longrightarrow> substitute (zip (map z_int_const xs) ts) e = e"
  by (intro substitute_fresh) (auto simp: unused_def dest!: set_zip_leftD)

text \<open>The names are gone after the substitution.\<close>

lemma unused_substitute:
  "length ts = length xs \<Longrightarrow> quantifier_free e \<Longrightarrow> list_all (unused xs) ts \<Longrightarrow>
   unused xs (substitute (zip (map z_int_const xs) ts) e)"
proof (induction e)
  case (App f es)
  let ?s = "zip (map z_int_const xs) ts"
  show ?case
  proof (cases "map_of ?s (App f es)")
    case None
    then have "App f es \<notin> set (map z_int_const xs)"
      using map_of_zip_None [of ts "map z_int_const xs"] App.prems(1) by simp
    moreover have "substitute ?s (App f es) = App f (map (substitute ?s) es)" using None by simp
    moreover have "list_all (unused xs) (map (substitute ?s) es)" using App by (auto simp: list_all_iff)
    ultimately show ?thesis by auto
  next
    case (Some d)
    then show ?thesis using App.prems(3) map_of_zip_member [OF Some] by (simp add: list_all_iff)
  qed
qed simp

text \<open>The closed forms are integers over other names than the recurrence; the index may occur.\<close>

definition closed_over :: "string list \<Rightarrow> z3expr list \<Rightarrow> bool" where
  "closed_over xs ts \<longleftrightarrow> length ts = length xs \<and> list_all is_int ts \<and> list_all (unused xs) ts \<and>
     list_all (typed_over [''ari_loop_n'']) ts \<and> ''ari_loop_n'' \<notin> set xs \<and> ''ari_loop_N'' \<notin> set xs"

lemma names_differ: "''ari_loop_n'' \<noteq> ''ari_loop_N''" by simp

lemma ival_loop_N [simp]: "ival (at_loop_n I k) loop_N = ival I loop_N"
  by (simp add: ival_def loop_N_def bind_ints_def)

lemma holds_forall_index:
  "holds I (z_forall [loop_n] b) \<longleftrightarrow> (\<forall>k. holds (at_loop_n I k) b)"
proof -
  have "(\<forall>vs. length vs = 1 \<longrightarrow> P vs) \<longleftrightarrow> (\<forall>k. P [k])" for P :: "int list \<Rightarrow> bool"
    by (metis (no_types, lifting) One_nat_def length_0_conv length_Suc_conv length_Cons list.size(3))
  from this [of "\<lambda>vs. bool_of (eval (bind_ints I [''ari_loop_n''] vs) b)"]
  show ?thesis by (simp add: z_forall_def holds_def Control_Instructions.ind_var_def)
qed

text \<open>The first index at which the condition fails.\<close>

definition first_exit :: "(int \<Rightarrow> bool) \<Rightarrow> int \<Rightarrow> bool" where
  "first_exit stays N \<longleftrightarrow> 0 \<le> N \<and> (\<forall>k. 0 \<le> k \<and> k < N \<longrightarrow> stays k) \<and> \<not> stays N"

lemma first_exit_unique: "first_exit P M \<Longrightarrow> first_exit P N \<Longrightarrow> M = N"
  by (metis first_exit_def linorder_neqE)

lemma count_constraints_first_exit:
  assumes ts: "closed_over xs ts" and guard: "typed_over xs guard" "typed_over [''ari_loop_n''] guard"
    and parent: "unused xs parent"
  shows "holds I (count_constraints (zip (map z_int_const xs) ts) guard parent) \<longleftrightarrow>
     holds I parent \<and> first_exit (\<lambda>k. holds (iteration I xs ts k) guard) (ival I loop_N)"
proof -
  let ?s = "zip (map z_int_const xs) ts"
  let ?closed = "substitute ?s guard"
  have parts: "length ts = length xs" "list_all is_int ts" "list_all (unused xs) ts"
    "list_all (typed_over [''ari_loop_n'']) ts" "''ari_loop_n'' \<notin> set xs" "''ari_loop_N'' \<notin> set xs"
    using ts by (simp_all add: closed_over_def)
  have unused: "unused xs ?closed"
    using unused_substitute [OF parts(1) typed_over_quantifier_free [OF guard(1)] parts(3)] .
  have at: "holds (at_loop_n I k) ?closed \<longleftrightarrow> holds (iteration I xs ts k) guard" for k
    using eval_iteration [OF parts(1,2) guard(1), of I k] by (simp add: holds_def)
  let ?exits = "substitute [(loop_n, loop_N)] ?closed"
  have "typed_over [''ari_loop_n''] ?closed" by (rule typed_over_at_terms [OF guard(2) parts(4)])
  then have exits: "holds I ?exits \<longleftrightarrow> holds (iteration I xs ts (ival I loop_N)) guard"
    using eval_at_terms [of "[loop_N]" "[''ari_loop_n'']" ?closed I] at
    by (simp add: holds_def Control_Instructions.ind_var_def) (simp add: loop_N_def)
  have "unused xs ?exits"
  proof -
    have "unused xs loop_N" using parts(6) by (auto simp: loop_N_def)
    moreover have "unused xs e \<Longrightarrow> quantifier_free e \<Longrightarrow> unused xs (substitute [(loop_n, loop_N)] e)" for e
      using \<open>unused xs loop_N\<close> by (induction e) (auto simp: list_all_iff)
    ultimately show ?thesis
      using unused typed_over_quantifier_free [OF \<open>typed_over [''ari_loop_n''] ?closed\<close>] by blast
  qed
  then have "unused xs (z_and (z_and (z_and (z_forall [loop_n] (z_implies (z_and (z_le (z_int 0) loop_n)
      (z_lt loop_n loop_N)) ?closed)) (z_not ?exits)) (z_ge loop_N (z_int 0))) parent)"
    using unused parent parts(5,6) by (auto simp: z_forall_def Control_Instructions.ind_var_def loop_N_def)
  then have "count_constraints ?s guard parent =
      z_and (z_and (z_and (z_forall [loop_n] (z_implies (z_and (z_le (z_int 0) loop_n) (z_lt loop_n loop_N)) ?closed))
        (z_not ?exits)) (z_ge loop_N (z_int 0))) parent"
    unfolding count_constraints_def Let_def substitute_unused [OF unused] by (rule substitute_unused)
  moreover have "ival (at_loop_n I k) loop_n = k" for k
    using ival_bound [of I] by (simp add: Control_Instructions.ind_var_def)
  ultimately show ?thesis
    by (auto simp: sem_simps holds_forall_index at exits first_exit_def)
qed


lemma holds_apply_result:
  assumes "simplify_ok z"
  shows "holds I (apply_result2expr z goals) \<longleftrightarrow> (\<exists>g\<in>set goals. holds I g)"
proof -
  have "holds I (foldl z_or c goals) \<longleftrightarrow> holds I c \<or> (\<exists>g\<in>set goals. holds I g)" for c
    by (induction goals arbitrary: c) (auto simp: sem_simps)
  then show ?thesis by (simp add: apply_result2expr_def holds_simplify [OF assms] sem_simps)
qed

lemma holds_foldl_or_terms: "holds I (foldl z_or c es) \<longleftrightarrow> holds I c \<or> (\<exists>e\<in>set es. holds I e)"
  using holds_foldl_or [of I id c es] by simp

lemma each_terms:
  "map (\<lambda>x. as_expr z (f x)) xs = map Some es \<Longrightarrow> each (\<lambda>x. term_of z (f x)) xs s = Inr (es, s)"
proof (induction xs arbitrary: es)
  case (Cons x xs)
  obtain e es' where e: "es = e # es'" using Cons.prems by (cases es) auto
  have "each (\<lambda>x. term_of z (f x)) xs s = Inr (es', s)" using Cons.prems by (intro Cons.IH) (simp add: e)
  then show ?case using Cons.prems by (simp add: e bind_exec_def term_of_def need_def give_def)
qed (simp add: give_def)

lemma iterations_exact:
  assumes z: "z3_ok z" and run: "get_iterations_constraints z parent exits (zip (map z_int_const xs) ts) s = Inr ((c, N), s')"
    and path: "as_expr z (path_condition parent) = Some path" "unused xs path"
    and exit_terms: "map (\<lambda>st. as_expr z (path_condition st)) exits = map Some es"
    and ts: "closed_over xs ts"
    and guard: "typed_over xs (z_simplify z (z_not (foldl z_or z_false es)))"
      "typed_over [''ari_loop_n''] (z_simplify z (z_not (foldl z_or z_false es)))"
  shows "N = loop_N \<and> (holds I c \<longleftrightarrow> holds I path \<and>
     first_exit (\<lambda>k. \<not> (\<exists>e\<in>set es. holds (iteration I xs ts k) e)) (ival I loop_N))"
proof -
  note ok = z3_okD(1,5) [OF z]
  let ?guard = "z_simplify z (z_not (foldl z_or z_false es))"
  let ?c = "count_constraints (zip (map z_int_const xs) ts) ?guard path"
  have "get_loop_guard_condition z exits s = Inr (?guard, s)"
    using each_terms [OF exit_terms, of s] by (simp add: get_loop_guard_condition_def bind_exec_def give_def)
  then have c: "N = loop_N" "c = (if contains_modulo ?c then ?c else apply_result2expr z (z_qe z ?c))"
    using run path(1) by (auto simp: get_iterations_constraints_def bind_exec_def term_of_def need_def give_def Let_def)
  have "holds I (apply_result2expr z (z_qe z ?c)) \<longleftrightarrow> holds I ?c"
    using ok(2) by (auto simp: qe_ok_def holds_apply_result [OF ok(1)] holds_connectives)
  then have "holds I c \<longleftrightarrow> holds I ?c" by (simp add: c)
  moreover have "holds J ?guard \<longleftrightarrow> \<not> (\<exists>e\<in>set es. holds J e)" for J
    by (simp add: holds_simplify [OF ok(1)] holds_foldl_or_terms sem_simps)
  ultimately show ?thesis
    using count_constraints_first_exit [OF ts guard path(2), of I] c(1) by simp
qed

text \<open>C12: The constraints on the number of iterations of a loop hold exactly when the state before the loop
  is possible and the number is the first index at which the condition of a path that leaves the loop holds,
  with the header nodes at their closed forms.\<close>

theorem iterations_first_exit:
  assumes z: "z3_ok z" and run: "get_iterations_constraints z parent exits (zip (map z_int_const xs) ts) s = Inr ((c, N), s')"
    and path: "as_expr z (path_condition parent) = Some path" "unused xs path"
    and exit_terms: "map (\<lambda>st. as_expr z (path_condition st)) exits = map Some es"
    and ts: "closed_over xs ts"
    and guard: "typed_over xs (z_simplify z (z_not (foldl z_or z_false es)))"
      "typed_over [''ari_loop_n''] (z_simplify z (z_not (foldl z_or z_false es)))"
  shows "N = loop_N \<and> (holds I c \<longleftrightarrow> holds I path \<and>
     first_exit (\<lambda>k. \<not> (\<exists>e\<in>set es. holds (iteration I xs ts k) e)) (ival I loop_N))"
  by (rule iterations_exact [OF assms])

text \<open>A counter from zero that leaves the loop at three.\<close>

definition counter_state :: "z3expr \<Rightarrow> exec_state" where
  "counter_state t = new_state ideal_z3 None None new_memory (single_case t) []"

abbreviation leaves_at_three :: z3expr where
  "leaves_at_three \<equiv> z_ge (z_int_const ''x'') (z_int 3)"

theorem iterations_first_exit_witness:
  "\<exists>c. get_iterations_constraints ideal_z3 (counter_state z_true) [counter_state leaves_at_three]
        [(z_int_const ''x'', loop_n)] new_session = Inr ((c, loop_N), new_session) \<and> holds three c"
proof -
  have at: "as_expr ideal_z3 (path_condition (counter_state t)) = Some t" for t
    by (simp add: counter_state_def new_state_def single_case_def as_expr_def piecewise2ite_def)
  have simp: "z_simplify ideal_z3 e = e" for e by (simp add: ideal_z3_def)
  obtain c where c: "get_iterations_constraints ideal_z3 (counter_state z_true) [counter_state leaves_at_three]
      (zip (map z_int_const [''x'']) [loop_n]) new_session = Inr ((c, loop_N), new_session)"
    by (simp add: get_iterations_constraints_def get_loop_guard_condition_def bind_exec_def term_of_def need_def
        give_def at Let_def)
  have "holds three c \<longleftrightarrow> holds three z_true \<and>
      first_exit (\<lambda>k. \<not> (\<exists>e\<in>set [leaves_at_three]. holds (iteration three [''x''] [loop_n] k) e)) (ival three loop_N)"
    using iterations_first_exit [OF ideal_z3_ok c at, of "[leaves_at_three]" three]
    by (simp add: closed_over_def Control_Instructions.ind_var_def at simp)
  moreover have "ival (iteration three [''x''] [loop_n] k) (z_int_const ''x'') = k" for k
    by (simp add: iteration_def Control_Instructions.ind_var_def ival_bound)
  ultimately have "holds three c" by (simp add: first_exit_def sem_simps) (simp add: ival_def loop_N_def three_def)
  then show ?thesis using c by auto
qed

text \<open>The constraints determine the number of iterations.\<close>

lemma iterations_determined:
  assumes z: "z3_ok z" and run: "get_iterations_constraints z parent exits (zip (map z_int_const xs) ts) s = Inr ((c, N), s')"
    and path: "as_expr z (path_condition parent) = Some path" "unused xs path"
    and exit_terms: "map (\<lambda>st. as_expr z (path_condition st)) exits = map Some es"
    and ts: "closed_over xs ts"
    and guard: "typed_over xs (z_simplify z (z_not (foldl z_or z_false es)))"
      "typed_over [''ari_loop_n''] (z_simplify z (z_not (foldl z_or z_false es)))"
    and same: "\<And>k e. e \<in> set es \<Longrightarrow> holds (iteration I xs ts k) e = holds (iteration J xs ts k) e"
    and models: "holds I c" "holds J c"
  shows "ival I loop_N = ival J loop_N"
proof -
  note exact = iterations_exact [OF z run path exit_terms ts guard]
  have "first_exit (\<lambda>k. \<not> (\<exists>e\<in>set es. holds (iteration I xs ts k) e)) (ival I loop_N)"
    "first_exit (\<lambda>k. \<not> (\<exists>e\<in>set es. holds (iteration I xs ts k) e)) (ival J loop_N)"
    using exact [of I] exact [of J] models same by (simp_all add: first_exit_def)
  then show ?thesis by (rule first_exit_unique)
qed


section \<open>The recurrence of the header nodes\<close>

lemma set_assign_new:
  "\<forall>(k', v')\<in>set m. z_string z k' \<noteq> z_string z k \<Longrightarrow> set (assign_equation z k v m) = insert (k, v) (set m)"
proof (induction m)
  case (Cons p m)
  obtain k' v' where p: "p = (k', v')" by (cases p)
  have "z_string z k < z_string z k' \<or> \<not> z_string z k < z_string z k' \<and> z_string z k' < z_string z k"
    using Cons.prems by (auto simp: p)
  then show ?case using Cons by (elim disjE) (auto simp: p)
qed simp

lemma fold_assign_new:
  assumes "inj (z_string z)" "distinct (map fst ps)" "\<forall>k\<in>set (map fst ps). k \<notin> fst ` set m"
  shows "set (fold (\<lambda>(k, v). assign_equation z k v) ps m) = set ps \<union> set m"
  using assms(2,3)
proof (induction ps arbitrary: m)
  case (Cons p ps)
  obtain k v where p: "p = (k, v)" by (cases p)
  have new: "set (assign_equation z k v m) = insert (k, v) (set m)"
    using Cons.prems(2) assms(1) by (intro set_assign_new) (force simp: p inj_eq)
  then have "\<forall>k'\<in>set (map fst ps). k' \<notin> fst ` set (assign_equation z k v m)"
    using Cons.prems by (auto simp: p)
  then have "set (fold (\<lambda>(k, v). assign_equation z k v) ps (assign_equation z k v m)) =
      set ps \<union> set (assign_equation z k v m)"
    using Cons.prems(1) by (intro Cons.IH) (simp_all add: p)
  then show ?case using new by (auto simp: p)
qed simp

text \<open>The values of the sequences at the current index, as values of the constants of the same names.\<close>

definition current :: "interp \<Rightarrow> string list \<Rightarrow> interp" where
  "current I xs = bind_ints I xs (map (\<lambda>x. ival I (indexed x loop_n)) xs)"

lemma eval_current:
  assumes "typed_over xs e"
  shows "eval I (substitute (zip (map z_int_const xs) (map (\<lambda>x. indexed x loop_n) xs)) e) = eval (current I xs) e"
  using eval_at_terms [of "map (\<lambda>x. indexed x loop_n) xs" xs e I] assms
  by (simp add: current_def comp_def list_all_iff indexed_def is_int_def)

definition split_over :: "z3_api \<Rightarrow> string list \<Rightarrow> z3expr \<Rightarrow> bool" where
  "split_over z xs u \<longleftrightarrow> ite_sorted u \<and>
     (\<forall>p\<in>set (expr2piecewise z u). typed_over xs (fst p) \<and> typed_over xs (snd p))"

lemma update_case_exact:
  assumes z: "z3_ok z" "inj (z_string z)" and xs: "distinct xs" "length updates = length xs"
    and typed: "typed_over xs path" "list_all (split_over z xs) updates"
    and ix: "list_all2 (<) ix (map length (map (expr2piecewise z) updates))"
  defines "s \<equiv> zip (map z_int_const xs) (map (\<lambda>x. indexed x loop_n) xs)"
  defines "chosen \<equiv> map2 (\<lambda>cs i. cs ! i) (map (expr2piecewise z) updates) ix"
  defines "c \<equiv> update_case z s xs (substitute s path) (map (expr2piecewise z) updates) ix"
  shows "holds I (fst c) \<longleftrightarrow> holds (current I xs) path \<and> (\<forall>cx\<in>set chosen. holds (current I xs) (fst cx))"
    and "holds I (fst c) \<Longrightarrow> satisfied_at I (snd c) \<longleftrightarrow>
      (\<forall>i<length xs. eval I (indexed (xs ! i) next_index) = eval (current I xs) (updates ! i))"
proof -
  let ?pieces = "map (expr2piecewise z) updates" and ?J = "current I xs"
  note ev = eval_current [of xs _ I, folded s_def]
  have len: "length chosen = length xs" "length ix = length xs"
    using list_all2_lengthD [OF ix] xs(2) by (simp_all add: chosen_def)
  have parts: "\<exists>u\<in>set updates. cx \<in> set (expr2piecewise z u)" if cx: "cx \<in> set chosen" for cx
  proof -
    obtain i where "i < length chosen" "chosen ! i = cx" using cx unfolding in_set_conv_nth by blast
    then have i: "i < length xs" "cx = chosen ! i" using len(1) by simp_all
    then have "cx = expr2piecewise z (updates ! i) ! (ix ! i)" using len xs(2) by (simp add: chosen_def)
    moreover have "ix ! i < length (expr2piecewise z (updates ! i))"
      using list_all2_nthD2 [OF ix, of i] i xs(2) by simp
    ultimately have "cx \<in> set (expr2piecewise z (updates ! i))" by simp
    then show ?thesis using i(1) xs(2) nth_mem by metis
  qed
  have typed_chosen: "typed_over xs (fst cx)" "typed_over xs (snd cx)" if "cx \<in> set chosen" for cx
  proof -
    obtain u where u: "u \<in> set updates" "cx \<in> set (expr2piecewise z u)" using parts \<open>cx \<in> set chosen\<close> by blast
    then have "split_over z xs u" using typed(2) by (simp add: list_all_iff)
    then show "typed_over xs (fst cx)" "typed_over xs (snd cx)" using u(2) by (simp_all add: split_over_def)
  qed
  have "holds I (substitute s (mk_and (map fst chosen))) \<longleftrightarrow> (\<forall>cx\<in>set chosen. holds ?J (fst cx))"
    using ev [of "mk_and (map fst chosen)"] typed_chosen
    by (simp add: holds_def list_all_iff)
  moreover have "holds I (substitute s path) \<longleftrightarrow> holds ?J path" using ev [OF typed(1)] by (simp add: holds_def)
  moreover have "fst c = z_and (substitute s path) (substitute s (mk_and (map fst chosen)))"
    by (simp only: c_def update_case_def chosen_def Let_def fst_conv)
  ultimately show guard: "holds I (fst c) \<longleftrightarrow> holds ?J path \<and> (\<forall>cx\<in>set chosen. holds ?J (fst cx))"
    by (simp only: holds_connectives) simp
  let ?eqs = "map (\<lambda>(x, t). (indexed x next_index, substitute s t)) (zip xs (map snd chosen))"
  have "map fst ?eqs = map (\<lambda>x. indexed x next_index) xs"
    using len by (intro nth_equalityI) simp_all
  moreover have "inj_on (\<lambda>x. indexed x next_index) (set xs)" by (auto simp: inj_on_def indexed_def)
  ultimately have "distinct (map fst ?eqs)" using xs(1) by (simp add: distinct_map)
  then have "set (fold (\<lambda>(k, v). assign_equation z k v) ?eqs []) = set ?eqs"
    using fold_assign_new [OF z(2)] by fastforce
  moreover have "snd c = fold (\<lambda>(k, v). assign_equation z k v) ?eqs []"
    by (simp add: c_def update_case_def chosen_def fold_map comp_def case_prod_unfold)
  ultimately have "satisfied_at I (snd c) \<longleftrightarrow> (\<forall>(k, v)\<in>set ?eqs. eval I k = eval I v)"
    by (simp add: satisfied_at_def list_all_iff)
  also have "\<dots> \<longleftrightarrow> (\<forall>i<length xs. eval I (indexed (xs ! i) next_index) = eval ?J (snd (chosen ! i)))"
    using len typed_chosen(2) by (simp add: all_set_conv_all_nth ev)
  finally have eqs: "satisfied_at I (snd c) \<longleftrightarrow>
      (\<forall>i<length xs. eval I (indexed (xs ! i) next_index) = eval ?J (snd (chosen ! i)))" .
  show "satisfied_at I (snd c) \<longleftrightarrow>
      (\<forall>i<length xs. eval I (indexed (xs ! i) next_index) = eval ?J (updates ! i))" if "holds I (fst c)"
  proof -
    have "list_all2 (\<lambda>cs v. cases_value ?J cs v) ?pieces (map (eval ?J) updates)"
      using typed(2) expr2piecewise_value [OF z(1)] by (simp add: list_all2_conv_all_nth list_all_length split_over_def)
    then have "map (eval ?J) (map snd chosen) = map (eval ?J) updates"
      using product_case_value [OF _ ix] that guard by (simp add: chosen_def)
    then have "eval ?J (snd (chosen ! i)) = eval ?J (updates ! i)" if "i < length xs" for i
      using that len xs(2) by (metis (no_types, lifting) length_map nth_map)
    then show ?thesis using eqs by simp
  qed
qed


lemma each_length: "each f xs s = Inr (ys, s') \<Longrightarrow> length ys = length xs"
  by (induction xs arbitrary: ys s) (auto simp: exec_simps)

lemma get_update_length:
  "get_update z m loop st s = Inr (us, s') \<Longrightarrow> length us = length (phis_of m (loop_header m loop))"
  by (auto simp: get_update_def exec_simps split: option.splits if_splits dest: each_length)


text \<open>A loop of one block whose node becomes 5 on the path where it was positive.\<close>

definition step_module :: llvm_module where
  "step_module = sample_module\<lparr>
     kind_of := (\<lambda>v. if v = 0 then Inst (Phi [(0, 5)]) else if v = 1 then Inst (Br 0) else ConstInt 5 5),
     insts_of := (\<lambda>_. [0, 1]), loop_blocks := (\<lambda>_. [0]), loop_latches := (\<lambda>_. [0])\<rparr>"

definition step_state :: exec_state where
  "step_state = (new_state ideal_z3 (Some 1) None new_memory (single_case z_true) [])
     \<lparr>class_of := LoopState (single_case (z_gt (z_int_const ''ari_x'') (z_int 0))) (Some 0) Map.empty\<rparr>"



section \<open>Initial values\<close>

text \<open>With unknown calls in the loop there are more keys than values, and the key of a scalar is at the index
  of the value of a later scalar, or of none.\<close>

theorem initial_values_misaligned:
  assumes run: "get_initial_values z m loop calls parent s = Inr ((ks, vs), s')"
    and scalars: "accessible_scalars z parent s1 = Inr (objs, s2)" "j < length objs"
  defines "i \<equiv> length (phi_names m loop) + 2 * length calls + j"
  shows "ks ! i = indexed (get_z3_name (name_of m (obj_llvm_value (objs ! j)))) (z_int 0)"
    and "length ks = length vs + length calls"
    and "length vs \<le> i \<longleftrightarrow> length objs \<le> j + length calls"
proof -
  let ?phis = "phis_of m (loop_header m loop)"
  have objs: "accessible_scalars z parent t = Inr (os, t') \<Longrightarrow> os = objs" for os t t'
    using scalars(1) by (auto simp: accessible_scalars_def exec_simps)
  obtain phi_values scalar_values where parts: "length phi_values = length ?phis" "length scalar_values = length objs"
      "vs = phi_values @ replicate (length calls) (z_int 0) @ scalar_values"
      "ks = map (\<lambda>x. indexed x (z_int 0)) (recurrence_names m loop calls @ map (counter_name m) calls @
        map (\<lambda>obj. get_z3_name (name_of m (obj_llvm_value obj))) objs)"
    using run objs
    by (auto simp: get_initial_values_def exec_simps split: if_splits dest!: each_length)
  show "ks ! i = indexed (get_z3_name (name_of m (obj_llvm_value (objs ! j)))) (z_int 0)"
    using scalars(2) by (simp add: parts(4) i_def recurrence_names_def nth_append)
  show "length ks = length vs + length calls" "length vs \<le> i \<longleftrightarrow> length objs \<le> j + length calls"
    using parts by (auto simp: recurrence_names_def phi_names_def i_def)
qed

section \<open>Arrays\<close>

text \<open>The cases of an array cover every index and every number of iterations, and the frame applies exactly
  where nothing else does.\<close>

lemma array_recurrence_covers:
  assumes "array_recurrence z ls obj final_states s = Inr (cases, s')"
  shows "\<exists>c\<in>set cases. holds I (fst c)"
    and "holds I (fst (last cases)) \<longleftrightarrow> \<not> (\<exists>c\<in>set (butlast cases). holds I (fst c))"
proof -
  obtain writes where cases: "cases = writes @ [get_array_frame_case (map fst writes) obj]"
    using assms by (auto simp: array_recurrence_def exec_simps Let_def)
  have "holds I (fst (get_array_frame_case (map fst writes) obj)) \<longleftrightarrow> \<not> (\<exists>c\<in>set writes. holds I (fst c))"
    by (simp add: get_array_frame_case_def holds_foldl_or_terms sem_simps)
  then show "\<exists>c\<in>set cases. holds I (fst c)"
    "holds I (fst (last cases)) \<longleftrightarrow> \<not> (\<exists>c\<in>set (butlast cases). holds I (fst c))"
    by (auto simp: cases)
qed

text \<open>Before the first iteration and outside the indices, the contents are those before the loop.\<close>

lemma array_base_case:
  "holds I (fst (get_array_base_case obj)) \<longleftrightarrow> ival I loop_n \<le> 0 \<or> (\<exists>i\<in>set (obj_indices obj). ival I i < 0)"
proof -
  have "holds I (foldl (\<lambda>c i. z_or c (z_lt i (z_int 0))) c is) \<longleftrightarrow> holds I c \<or> (\<exists>i\<in>set is. ival I i < 0)" for c "is"
    by (induction "is" arbitrary: c) (auto simp: sem_simps)
  then show ?thesis by (simp add: get_array_base_case_def sem_simps)
qed

text \<open>A read inside the index of another read stays a read of the contents before the loop.\<close>

lemma nested_read_stale:
  fixes a :: string and i :: z3expr
  assumes "get_app_of i (OUninterp a IntSort) = []"
  defines "inner \<equiv> App (OUninterp a IntSort) [i]" and "outer \<equiv> App (OUninterp a IntSort) [App (OUninterp a IntSort) [i]]"
  defines "reads \<equiv> get_app_of outer (OUninterp a IntSort)"
  shows "substitute (zip reads (map (\<lambda>r. App (OUninterp (a @ ''_'') IntSort) (args r @ [loop_n])) reads)) outer =
    App (OUninterp (a @ ''_'') IntSort) [inner, loop_n]"
  using assms(1) by (simp add: reads_def outer_def inner_def)

text \<open>The solver of a loop keeps its own index, so a conditional over the index of the loop counts as
  invariant.\<close>

lemma loop_index_counts_as_invariant:
  "find_invariant_ite {} (rec_solver.ind_var empty_rec_solver) (z_ite (z_lt loop_n (z_int 5)) (z_int 1) (z_int 2)) =
     Some (z_ite (z_lt loop_n (z_int 5)) (z_int 1) (z_int 2))"
  by (simp add: empty_rec_solver_def Control_Instructions.ind_var_def)

end
