(* ===== verification/Function_Summarizer.thy ===== *)
theory Function_Summarizer
  imports Loop_Summarizer Nested_Accelerator
begin

text \<open>
  The summaries of recursive functions (lib/FunctionSummarizer.cpp): the symbolic execution of the body in
  which calls stay applications (\<open>RecExecution\<close>), the recurrence of a function with a value, and the
  relational summary of a tail-recursive procedure over pointers.  Besides the environment of the loop
  summarizer, the LLVM library gives the users of a value in its order, the strongly connected component
  of a function in the call graph and whether it has a value.  Exceptions are caught and leave no summary; what was done to the session
  before the operation that fails stays.
\<close>

record function_env =
  fe_summary :: summary_env
  users_of :: "value_id \<Rightarrow> value_id list"
  scc_of :: "function_id \<Rightarrow> function_id list"
  returns_void :: "function_id \<Rightarrow> bool"

abbreviation fe_z3 :: "function_env \<Rightarrow> z3_api" where "fe_z3 F \<equiv> se_z3 (fe_summary F)"
abbreviation fe_module :: "function_env \<Rightarrow> llvm_module" where "fe_module F \<equiv> se_module (fe_summary F)"
abbreviation fe_exec :: "function_env \<Rightarrow> exec_env" where "fe_exec F \<equiv> le_exec (se_loop (fe_summary F))"

section \<open>The execution of the body\<close>

definition argument_symbol :: "llvm_module \<Rightarrow> value_id \<Rightarrow> z3expr" where
  "argument_symbol m a = z_int_const (''ari_'' @ name_of m a)"

text \<open>The range of what a pointer argument points to, from the first user that loads an integer.\<close>

definition pointee_range :: "function_env \<Rightarrow> bool \<Rightarrow> value_id \<Rightarrow> z3expr \<Rightarrow> z3expr" where
  "pointee_range F relaxed a cond =
     (let m = fe_module F
      in case filter (\<lambda>u. case kind_of m u of Inst (Load p) \<Rightarrow> is_int_ty m u | _ \<Rightarrow> False) (users_of F a) of
           [] \<Rightarrow> cond
         | u # _ \<Rightarrow>
             if relaxed then cond
             else z_and cond (in_signed_range (fe_z3 F) (argument_symbol m a) (the (int_width (ty_of m u)))))"

definition bind_rec_argument :: "function_env \<Rightarrow> value_id \<Rightarrow> exec_state \<times> z3expr \<Rightarrow> (exec_state \<times> z3expr) exec" where
  "bind_rec_argument F a = (\<lambda>(st, cond).
     let z = fe_z3 F; m = fe_module F; symbol = expression_of z (argument_symbol m a)
     in if is_ptr_ty m a
        then bind_exec (with_memory (\<lambda>s. allocate z s (name_of m) a []) st) (\<lambda>st1.
             bind_exec (pointer_of a st1) (\<lambda>addr.
             bind_exec (update_object z addr (\<lambda>obj. Some (write_object symbol obj)) st1) (\<lambda>st2.
             bind_exec (ask uses_integer_relaxation) (\<lambda>relaxed.
               give (st2, pointee_range F relaxed a cond)))))
        else bind_exec (store_temp m a symbol st) (\<lambda>st1. give (st1, cond)))"

definition build_rec_state :: "function_env \<Rightarrow> function_id \<Rightarrow> exec_state exec" where
  "build_rec_state F f =
     (let z = fe_z3 F; m = fe_module F
      in bind_exec (need AssertionFailed (case blocks_of m f of [] \<Rightarrow> None | b # _ \<Rightarrow> first_non_phi_or_dbg m b)) (\<lambda>entry.
         bind_exec (fold_exec (bind_rec_argument F) (args_of m f)
             (new_state z (Some entry) None (memory_push z (Some f) new_memory) (expression_of z z_true) [], z_true))
           (\<lambda>(st, cond). give (as_rec_state (st\<lparr>path_condition := expression_of z cond\<rparr>)))))"

text \<open>A division in the fixed-width mode is only checked; it has no successor.\<close>

definition rec_division :: "function_env \<Rightarrow> value_id \<Rightarrow> value_id \<Rightarrow> exec_state \<Rightarrow> exec_state list exec" where
  "rec_division F a b st =
     (let z = fe_z3 F; m = fe_module F
      in bind_exec (evaluate z m st a True) (\<lambda>e1. bind_exec (evaluate z m st b True) (\<lambda>e2.
         bind_exec (term_of z (path_condition st)) (\<lambda>c.
         bind_exec (term_of z e1) (\<lambda>t1. bind_exec (term_of z e2) (\<lambda>t2.
           if z_check z [c, z_ne (z_mod t1 t2) (z_int 0)] = Sat then fail RuntimeError else give []))))))"

definition rec_step :: "function_env \<Rightarrow> function_id \<Rightarrow> bool \<Rightarrow> exec_state \<Rightarrow> exec_state list exec" where
  "rec_step F target unfold st =
     (let z = fe_z3 F; m = fe_module F; E = fe_exec F;
          ordinary = execute E (le_depth (se_loop (fe_summary F))) st
      in case pc st of
           None \<Rightarrow> fail AssertionFailed
         | Some i \<Rightarrow>
             bind_exec (ask uses_integer_relaxation) (\<lambda>relaxed.
             bind_exec
               (case kind_of m i of
                  Inst (Call (Some g) actuals) \<Rightarrow>
                    if ends_with (func_name m g) ''assert'' then ordinary
                    else if unfold \<and> exact_definition m g then execute_if_not_target E i g (map fst actuals) target st
                    else if exact_definition m g then execute_naively z m i g (map fst actuals) st
                    else ordinary
                | Inst (Binary op fl a b) \<Rightarrow>
                    if \<not> relaxed \<and> (op = OpUDiv \<or> op = OpSDiv) then rec_division F a b st else ordinary
                | _ \<Rightarrow> ordinary)
               (\<lambda>sts. give (map as_rec_state sts))))"

text \<open>The queue; a state whose feasibility is not known to the solver is dropped like an infeasible one.\<close>

fun run_rec_queue ::
    "function_env \<Rightarrow> function_id \<Rightarrow> bool \<Rightarrow> nat \<Rightarrow> exec_state list \<Rightarrow> exec_state list \<Rightarrow> exec_state list tracked" where
  "run_rec_queue F target unfold 0 queue final = tracked (fail NotReturned)"
| "run_rec_queue F target unfold (Suc n) [] final = done_with final"
| "run_rec_queue F target unfold (Suc n) (st # rest) final =
     (case status_of st of
        TERMINATED \<Rightarrow> run_rec_queue F target unfold n rest (final @ [st])
      | TESTING \<Rightarrow>
          bind_tracked (tracked (test_loop_state (fe_z3 F) st)) (\<lambda>answer.
            run_rec_queue F target unfold n
              (if answer = FEASIBLE then rest @ [st\<lparr>status_of := RUNNING\<rparr>] else rest) final)
      | _ \<Rightarrow>
          bind_tracked (tracked (rec_step F target unfold st)) (\<lambda>sts.
            run_rec_queue F target unfold n (rest @ sts) final))"

definition run_rec :: "function_env \<Rightarrow> function_id \<Rightarrow> bool \<Rightarrow> exec_state list tracked" where
  "run_rec F f unfold =
     bind_tracked (tracked (build_rec_state F f)) (\<lambda>st.
       run_rec_queue F f unfold (le_fuel (se_loop (fe_summary F))) [st] [])"

section \<open>The recurrence of a function with a value\<close>

definition function_app_z3 :: "llvm_module \<Rightarrow> function_id \<Rightarrow> z3expr" where
  "function_app_z3 m f =
     App (OUninterp (''ari_'' @ func_name m f) IntSort) (map (argument_symbol m) (args_of m f))"

definition returned_case :: "z3_api \<Rightarrow> llvm_module \<Rightarrow> function_id \<Rightarrow> exec_state \<Rightarrow> (z3expr \<times> rec_ty) exec" where
  "returned_case z m f st =
     bind_exec (term_of z (path_condition st)) (\<lambda>c.
     case Option.bind (pc st) (\<lambda>i. Some (kind_of m i)) of
       Some (Inst (Ret (Some v))) \<Rightarrow>
         bind_exec (evaluate z m st v True) (\<lambda>e. bind_exec (term_of z e) (\<lambda>t. give (c, [(function_app_z3 m f, t)])))
     | _ \<Rightarrow> fail AssertionFailed)"

definition parse_rec :: "z3_api \<Rightarrow> llvm_module \<Rightarrow> function_id \<Rightarrow> exec_state list \<Rightarrow> (z3expr \<times> rec_ty) list exec" where
  "parse_rec z m f final_states = each (returned_case z m f) final_states"

text \<open>An application to one constant.\<close>

fun is_simple_app :: "z3expr \<Rightarrow> bool" where
  "is_simple_app (App f [a]) = is_const a"
| "is_simple_app e = False"

text \<open>One function's part of a combination of paths, one argument further: the key, its value, the condition
  and the condition before the shift.  None where the recurrence is not over one argument.\<close>

definition shifted_case :: "z3_api \<Rightarrow> z3expr \<times> rec_ty \<Rightarrow> (z3expr \<times> z3expr \<times> z3expr \<times> z3expr) option" where
  "shifted_case z = (\<lambda>(cond, eqs).
     let (key, val) = hd eqs; as = args key; shift = zip as (map (\<lambda>a. z_add a (z_int 1)) as);
         val' = z_simplify z (substitute shift val)
     in if length as \<noteq> 1 \<or> \<not> list_all is_simple_app (get_func_apps val') then None
        else Some (z_simplify z (substitute shift key), val', z_simplify z (substitute shift cond), z_simplify z cond))"

text \<open>The condition fixes the argument of every key to one.  An unknown answer counts as fixed.\<close>

definition is_base_case :: "z3_api \<Rightarrow> z3expr list \<Rightarrow> z3expr \<Rightarrow> bool" where
  "is_base_case z keys cond =
     list_all (\<lambda>k. z_check z (cond # map (\<lambda>a. z_ne a (z_int 1)) (args k)) \<noteq> Sat) keys"

text \<open>The value of a base case at zero, by the last function's argument.\<close>

definition base_values ::
    "z3_api \<Rightarrow> z3expr list \<Rightarrow> (z3expr \<times> z3expr) list \<Rightarrow> z3expr list \<times> z3expr list" where
  "base_values z as cases =
     (let at_zero = substitute (zip as (map (\<lambda>_. z_int (- 1)) as))
      in (map (\<lambda>(k, v). z_simplify z (at_zero k)) cases, map (\<lambda>(k, v). z_simplify z (at_zero v)) cases))"

definition add_combination ::
    "z3_api \<Rightarrow> (z3expr \<times> rec_ty) list \<Rightarrow> (z3expr list \<times> rec_ty list) \<times> rec_solver \<Rightarrow>
     ((z3expr list \<times> rec_ty list) \<times> rec_solver) option rec_result" where
  "add_combination z chosen = (\<lambda>((conds, eqs), s).
     case those (map (shifted_case z) chosen) of
       None \<Rightarrow> Inr None
     | Some cases \<Rightarrow>
         let keys = map fst cases; vals = map (\<lambda>(k, v, c, o'). v) cases;
             system = fold (\<lambda>(k, v, c, o'). assign_equation z k v) cases [];
             entries = map (\<lambda>k. (k, the (find_form z k system))) keys;
             as = (case snd (last chosen) of (key, _) # _ \<Rightarrow> args key | [] \<Rightarrow> []);
             original = mk_and (map (\<lambda>(k, v, c, o'). o') cases);
             (initial_keys, initial_values) = base_values z as entries
         in if is_base_case z keys original
            then bind_rec (add_initial_values z initial_keys initial_values s) (\<lambda>s'. Inr (Some ((conds, eqs), s')))
            else Inr (Some ((conds @ [mk_and (map (\<lambda>(k, v, c, o'). c) cases)], eqs @ [system]), s)))"

fun add_combinations ::
    "z3_api \<Rightarrow> (z3expr \<times> rec_ty) list list \<Rightarrow> (z3expr list \<times> rec_ty list) \<times> rec_solver \<Rightarrow>
     ((z3expr list \<times> rec_ty list) \<times> rec_solver) option rec_result" where
  "add_combinations z [] acc = Inr (Some acc)"
| "add_combinations z (chosen # rest) acc =
     bind_rec (add_combination z chosen acc) (\<lambda>r.
       case r of None \<Rightarrow> Inr None | Some acc' \<Rightarrow> add_combinations z rest acc')"

fun collect_cases :: "function_env \<Rightarrow> function_id list \<Rightarrow> (z3expr \<times> rec_ty) list list tracked" where
  "collect_cases F [] = done_with []"
| "collect_cases F (f # fs) =
     bind_tracked (run_rec F f False) (\<lambda>final_states.
     bind_tracked (tracked (parse_rec (fe_z3 F) (fe_module F) f final_states)) (\<lambda>cases.
     bind_tracked (collect_cases F fs) (\<lambda>rest. done_with (cases # rest))))"

definition prepare_rec_solver_naive :: "function_env \<Rightarrow> function_id \<Rightarrow> rec_solver option tracked" where
  "prepare_rec_solver_naive F f =
     (let z = fe_z3 F
      in bind_tracked (collect_cases F (scc_of F f)) (\<lambda>cases.
         if cases = [] then tracked (fail AssertionFailed)
         else bind_tracked (tracked (of_rec (add_combinations z
             (map (map2 (\<lambda>cs i. cs ! i) cases) (cartesian_product (map length cases) 0))
             (([], []), empty_rec_solver)))) (\<lambda>r.
           case r of
             None \<Rightarrow> done_with None
           | Some ((conds, eqs), s) \<Rightarrow>
               bind_tracked (tracked (of_rec (set_eqs_cases z conds eqs s))) (\<lambda>s'. done_with (Some s')))))"

definition prepare_rec_solver_unfold :: "function_env \<Rightarrow> function_id \<Rightarrow> rec_solver tracked" where
  "prepare_rec_solver_unfold F f =
     bind_tracked (run_rec F f True) (\<lambda>final_states.
     bind_tracked (tracked (parse_rec (fe_z3 F) (fe_module F) f final_states)) (\<lambda>cases.
       tracked (of_rec (set_eqs_cases (fe_z3 F) (map fst cases) (map snd cases) empty_rec_solver))))"

definition prepare_rec_solver :: "function_env \<Rightarrow> function_id \<Rightarrow> rec_solver tracked" where
  "prepare_rec_solver F f =
     bind_tracked (prepare_rec_solver_naive F f) (\<lambda>naive.
       case naive of Some s \<Rightarrow> done_with s | None \<Rightarrow> prepare_rec_solver_unfold F f)"

text \<open>Whether the process answered, and the closed forms.\<close>

definition solve_prepared :: "summary_env \<Rightarrow> rec_solver \<Rightarrow> (bool \<times> closed_forms) exec" where
  "solve_prepared E s =
     bind_exec (with_session recurrence_solver_worker) (\<lambda>w.
     bind_exec (of_rec (rec_solve (se_z3 E) (se_rec E) s w)) (\<lambda>(solved, s', w').
     bind_exec (with_session (\<lambda>ss. ((), ss\<lparr>recurrence_worker := Some w'\<rparr>))) (\<lambda>_.
       give (solved, get_res s'))))"

definition decl_name :: "z3expr \<Rightarrow> string" where
  "decl_name e = (case e of App (OUninterp x _) _ \<Rightarrow> x | _ \<Rightarrow> [])"

definition summarize_function_scalar :: "function_env \<Rightarrow> function_id \<Rightarrow> function_summary option tracked" where
  "summarize_function_scalar F f =
     bind_tracked (prepare_rec_solver F f) (\<lambda>s.
     bind_tracked (tracked (solve_prepared (fe_summary F) s)) (\<lambda>(solved, closed).
       if \<not> solved then done_with None
       else let func = function_app_z3 (fe_module F) f
            in case find (\<lambda>(k, v). decl_name k = decl_name func) closed of
                 None \<Rightarrow> tracked (fail AssertionFailed)
               | Some (k, v) \<Rightarrow> done_with (Some (exact_function_summary (fe_z3 F) (args func) v))))"


section \<open>Tail recursion\<close>

text \<open>The instructions of the trace of a state; the block of the return is not in it.\<close>

definition trace_instructions :: "llvm_module \<Rightarrow> exec_state \<Rightarrow> value_id list" where
  "trace_instructions m st = concat (map (insts_of m) (trace st))"

definition combine_trace :: "llvm_module \<Rightarrow> exec_state \<Rightarrow> value_id list" where
  "combine_trace m st = filter (\<lambda>i. \<not> is_dbg m i) (trace_instructions m st)"

definition direct_callee :: "llvm_module \<Rightarrow> value_id \<Rightarrow> function_id option" where
  "direct_callee m i = (case kind_of m i of Inst (Call f _) \<Rightarrow> f | _ \<Rightarrow> None)"

definition is_base_case_final_state :: "llvm_module \<Rightarrow> function_id list \<Rightarrow> exec_state \<Rightarrow> bool" where
  "is_base_case_final_state m scc st =
     (\<not> list_ex (\<lambda>i. \<exists>g\<in>set scc. direct_callee m i = Some g) (trace_instructions m st))"

definition split_cases ::
    "llvm_module \<Rightarrow> function_id list \<Rightarrow> exec_state list \<Rightarrow> exec_state list \<times> exec_state list" where
  "split_cases m scc final_states =
     (filter (is_base_case_final_state m scc) final_states, filter (\<lambda>st. \<not> is_base_case_final_state m scc st) final_states)"

definition get_last_meaningful_inst :: "llvm_module \<Rightarrow> exec_state \<Rightarrow> value_id option" where
  "get_last_meaningful_inst m st =
     find (\<lambda>i. case kind_of m i of
         Inst (Ret _) \<Rightarrow> False | Inst (Br _) \<Rightarrow> False | Inst (CondBr _ _ _) \<Rightarrow> False | Inst (Phi _) \<Rightarrow> False | _ \<Rightarrow> True)
       (rev (combine_trace m st))"

definition counted_call :: "llvm_module \<Rightarrow> value_id \<Rightarrow> bool" where
  "counted_call m i =
     (case direct_callee m i of Some g \<Rightarrow> \<not> contains_str (func_name m g) ''__VERIFIER'' | None \<Rightarrow> False)"

text \<open>At most one call on the path, and it is the last instruction with an effect.\<close>

definition is_tail_path :: "llvm_module \<Rightarrow> exec_state \<Rightarrow> bool" where
  "is_tail_path m st =
     (case filter (counted_call m) (combine_trace m st) of
        [] \<Rightarrow> get_last_meaningful_inst m st = None
      | [i] \<Rightarrow> get_last_meaningful_inst m st = Some i
      | _ \<Rightarrow> False)"

definition is_tail_call :: "function_env \<Rightarrow> function_id list \<Rightarrow> function_id \<Rightarrow> bool tracked" where
  "is_tail_call F scc f =
     bind_tracked (run_rec F f False) (\<lambda>final_states.
       done_with (list_all (\<lambda>st. is_base_case_final_state (fe_module F) scc st \<or> is_tail_path (fe_module F) st)
         final_states))"

fun is_tail_recursive :: "function_env \<Rightarrow> function_id list \<Rightarrow> function_id list \<Rightarrow> bool tracked" where
  "is_tail_recursive F scc [] = done_with True"
| "is_tail_recursive F scc (f # fs) =
     bind_tracked (is_tail_call F scc f) (\<lambda>tail.
       if tail then is_tail_recursive F scc fs else done_with False)"

section \<open>The transitions of a procedure\<close>

definition parameter_name :: "llvm_module \<Rightarrow> value_id \<Rightarrow> string" where
  "parameter_name m a = get_z3_name (name_of m a)"

definition pointee :: "z3_api \<Rightarrow> value_id \<Rightarrow> exec_state \<Rightarrow> expression exec" where
  "pointee z a st = bind_exec (need AssertionFailed (get_object_pointed_by z a (mem st))) (\<lambda>obj. give (obj_value obj))"

definition pointer_parameters ::
    "z3_api \<Rightarrow> llvm_module \<Rightarrow> function_id \<Rightarrow> exec_state \<Rightarrow> (z3expr list \<times> z3expr list) exec" where
  "pointer_parameters z m f initial =
     bind_exec (each (\<lambda>a.
       if \<not> is_ptr_ty m a then fail AssertionFailed
       else bind_exec (pointee z a initial) (term_of z)) (args_of m f)) (\<lambda>vs.
       give (map (\<lambda>a. indexed (parameter_name m a) (z_int 0)) (args_of m f), vs))"

text \<open>The condition and the values of one path; the values must be defined and known.\<close>

fun path_values ::
    "z3_api \<Rightarrow> (z3expr \<times> z3expr) list \<Rightarrow> exec_state \<Rightarrow> value_id list \<Rightarrow> z3expr \<Rightarrow> z3expr list \<Rightarrow>
     (z3expr \<times> z3expr list) option exec" where
  "path_values z s st [] cond vs = give (Some (cond, vs))"
| "path_values z s st (a # as) cond vs =
     bind_exec (pointee z a st) (\<lambda>e.
     bind_exec (need AssertionFailed (defined_term z e)) (\<lambda>d.
     bind_exec (term_of z e) (\<lambda>t.
       if contains_str (z_string z (substitute s t)) ''_unknown_'' then give None
       else path_values z s st as (z_and cond d) (vs @ [t]))))"

fun path_transitions ::
    "z3_api \<Rightarrow> llvm_module \<Rightarrow> function_id \<Rightarrow> (z3expr \<times> z3expr) list \<Rightarrow> exec_state list \<Rightarrow>
     (z3expr \<times> z3expr list) list option exec" where
  "path_transitions z m f s [] = give (Some [])"
| "path_transitions z m f s (st # sts) =
     bind_exec (term_of z (path_condition st)) (\<lambda>c.
     bind_exec (path_values z s st (args_of m f) c []) (\<lambda>r.
       case r of
         None \<Rightarrow> give None
       | Some t \<Rightarrow> bind_exec (path_transitions z m f s sts) (\<lambda>rest. give (map_option ((#) t) rest))))"

section \<open>Relations between the first and the last values\<close>

definition moduli :: "int list" where "moduli = [2, 4, 8, 16]"

definition parameter_candidates :: "z3expr list \<Rightarrow> z3expr list \<Rightarrow> nat \<Rightarrow> z3expr list" where
  "parameter_candidates params initial i =
     map (\<lambda>k. z_eq (z_mod (params ! i) (z_int k)) (z_mod (initial ! i) (z_int k))) moduli @
     map (\<lambda>j. z_implies (z_eq (initial ! i) (initial ! j)) (z_eq (params ! i) (params ! j))) [Suc i..<length params]"

text \<open>The distinct invariants of inner summaries, now and at the start.\<close>

fun internal_invariants ::
    "z3_api \<Rightarrow> (z3expr \<times> z3expr) list \<Rightarrow> z3expr list \<Rightarrow> string list \<Rightarrow> (z3expr \<times> z3expr) list" where
  "internal_invariants z s [] keys = []"
| "internal_invariants z s (t # ts) keys =
     (let current = z_simplify z t; key = z_string z current
      in if key \<in> set keys then internal_invariants z s ts keys
         else (current, z_simplify z (substitute s current)) # internal_invariants z s ts (key # keys))"

definition relation_candidates ::
    "z3_api \<Rightarrow> z3expr list \<Rightarrow> z3expr list \<Rightarrow> (z3expr \<times> z3expr) list \<Rightarrow> z3expr list \<times> string list" where
  "relation_candidates z params initial internal =
     (let simple = concat (map (parameter_candidates params initial) [0..<length params]) @
            map (\<lambda>(current, start). z_implies start current) internal;
          keys = map (\<lambda>(current, start). z_string z current) internal;
          all_current = z_simplify z (mk_and (map fst internal));
          all_start = z_simplify z (mk_and (map snd internal))
      in if length internal > 1 then (simple @ [z_implies all_start all_current], keys @ [z_string z all_current])
         else (simple, keys))"

text \<open>A candidate that every path keeps.  A query that runs out of time is one the solver does not answer.\<close>

definition inductive_relation :: "z3_api \<Rightarrow> z3expr list \<Rightarrow> (z3expr \<times> z3expr list) list \<Rightarrow> z3expr \<Rightarrow> bool" where
  "inductive_relation z params transitions candidate =
     list_all (\<lambda>(c, vs). z_check z [candidate, c, z_not (substitute (zip params vs) candidate)] = Unsat) transitions"

definition relational_condition ::
    "z3_api \<Rightarrow> z3expr list \<Rightarrow> z3expr list \<Rightarrow> (z3expr \<times> z3expr list) list \<Rightarrow> z3expr list \<Rightarrow> z3expr" where
  "relational_condition z params final transitions candidates =
     z_simplify z (substitute (zip params final)
       (foldl z_and z_true (filter (inductive_relation z params transitions) candidates)))"

definition proved_internal ::
    "z3_api \<Rightarrow> z3expr list \<Rightarrow> (z3expr \<times> z3expr list) list \<Rightarrow> z3expr list \<Rightarrow> string list \<Rightarrow> bool" where
  "proved_internal z params transitions candidates keys =
     list_ex (\<lambda>c. inductive_relation z params transitions c \<and> z_string z (args c ! 1) \<in> set keys) candidates"


section \<open>The summary of a procedure\<close>

text \<open>
  The condition on the number of calls.  The guard of the last recursive call is asked of the solver here
  and now: the answer is a truth value, not a term.
\<close>

definition last_values :: "z3_api \<Rightarrow> closed_forms \<Rightarrow> z3expr list \<Rightarrow> z3expr list option" where
  "last_values z closed params =
     those (map (\<lambda>p. map_option (\<lambda>(k, v). z_simplify z (go_back v)) (find (\<lambda>(k, v). decl_name k = decl_name p) closed))
       params)"

definition iteration_condition :: "z3_api \<Rightarrow> closed_forms \<Rightarrow> z3expr list \<Rightarrow> z3expr list \<Rightarrow> z3expr" where
  "iteration_condition z closed params guards =
     (if closed = [] then z_true
      else if guards = [] \<or> list_ex (\<lambda>c. contains_str (z_string z c) ''_unknown_'') guards then z_ge loop_n (z_int 0)
      else case last_values z closed params of
          None \<Rightarrow> z_ge loop_n (z_int 0)
        | Some vs \<Rightarrow>
            let guard = z_simplify z (substitute (zip params vs) (foldl z_or z_false guards))
            in z_and (z_ge loop_n (z_int 0))
                 (if implies z (z_gt loop_n (z_int 0)) guard then z_true else z_false))"

text \<open>No recurrence is solved when an inner invariant was proved or a value is a remainder.\<close>

definition solve_transitions ::
    "function_env \<Rightarrow> bool \<Rightarrow> (z3expr \<times> rec_ty) list \<Rightarrow> z3expr list \<times> z3expr list \<Rightarrow> closed_forms tracked" where
  "solve_transitions F proved cases initial =
     (let z = fe_z3 F
      in bind_tracked (tracked (of_rec (set_eqs_cases z (map fst cases) (map snd cases) empty_rec_solver))) (\<lambda>s.
         bind_tracked (tracked (of_rec (add_initial_values z (fst initial) (snd initial) s))) (\<lambda>s'.
           if proved \<or> list_ex (\<lambda>(c, eqs). list_ex (\<lambda>(k, v). contains_str (z_string z v) ''(mod '') eqs) cases
           then done_with []
           else bind_tracked (tracked (solve_prepared (fe_summary F) s')) (\<lambda>(solved, closed).
                  done_with (if solved then closed else [])))))"

definition transition_equations ::
    "z3_api \<Rightarrow> (z3expr \<times> z3expr) list \<Rightarrow> string list \<Rightarrow> z3expr \<times> z3expr list \<Rightarrow> z3expr \<times> rec_ty" where
  "transition_equations z s names = (\<lambda>(c, vs).
     (z_simplify z (substitute s c),
      fold (\<lambda>(x, t). assign_equation z (indexed x next_index) (substitute s t)) (zip names vs) []))"

definition procedure_summary ::
    "function_env \<Rightarrow> string list \<Rightarrow> z3expr \<Rightarrow> z3expr list \<times> z3expr list \<Rightarrow> z3expr list \<Rightarrow>
     (z3expr \<times> z3expr list) list \<Rightarrow> function_summary option tracked" where
  "procedure_summary F names exit_condition initial invariants transitions =
     (let z = fe_z3 F; params = map z_int_const names; s = zip params (map (\<lambda>x. indexed x loop_n) names);
          first = map (\<lambda>x. z_int_const (''ari_initial_'' @ x)) names;
          final = map (\<lambda>x. z_int_const (''ari_final_'' @ x)) names;
          (candidates, keys) = relation_candidates z params first
            (internal_invariants z (zip params first) invariants []);
          relation = relational_condition z params final transitions candidates;
          cases = map (transition_equations z s names) transitions
      in bind_tracked (solve_transitions F (proved_internal z params transitions candidates keys) cases initial) (\<lambda>closed.
           if closed = [] \<and> relation = z_true then done_with None
           else done_with (Some (over_approx_function_summary params closed exit_condition
                  (iteration_condition z closed params (map fst cases)) first final relation))))"

definition exit_condition_of :: "z3_api \<Rightarrow> exec_state list \<Rightarrow> z3expr exec" where
  "exit_condition_of z base_states =
     bind_exec (each (\<lambda>st. term_of z (path_condition st)) base_states) (\<lambda>cs. give (foldl z_or z_false cs))"

definition summarize_pointers :: "function_env \<Rightarrow> function_id \<Rightarrow> function_summary option tracked" where
  "summarize_pointers F f =
     (let z = fe_z3 F; m = fe_module F; scc = scc_of F f;
          names = map (parameter_name m) (args_of m f);
          s = zip (map z_int_const names) (map (\<lambda>x. indexed x loop_n) names)
      in if length scc > 1 then done_with None
         else bind_tracked (is_tail_recursive F scc scc) (\<lambda>tail.
           if \<not> tail then done_with None
           else bind_tracked (run_rec F f False) (\<lambda>final_states.
                let (base_states, rec_states) = split_cases m scc final_states
                in bind_tracked (tracked (build_rec_state F f)) (\<lambda>st0.
                   bind_tracked (tracked (exit_condition_of z base_states)) (\<lambda>exit_condition.
                   bind_tracked (tracked (pointer_parameters z m f st0)) (\<lambda>initial.
                   bind_tracked (tracked (path_transitions z m f s rec_states)) (\<lambda>ts.
                     case ts of
                       None \<Rightarrow> done_with None
                     | Some transitions \<Rightarrow>
                         bind_tracked (tracked (each (term_of z) (concat (map summary_invariants final_states))))
                           (\<lambda>invariants. procedure_summary F names exit_condition initial invariants transitions))))))))"

text \<open>The function must not have loops; the type of its value selects the kind of the summary.\<close>

definition get_function_summary :: "function_env \<Rightarrow> function_id \<Rightarrow> function_summary option exec" where
  "get_function_summary F f =
     (let m = fe_module F
      in if list_ex (\<lambda>b. loop_for m b \<noteq> None) (blocks_of m f) then fail AssertionFailed
         else untracked (catch_to_none
                (if returns_void F f then summarize_pointers F f else summarize_function_scalar F f)))"

end
