(* ===== verification/Function_Summary_Correctness.thy ===== *)
theory Function_Summary_Correctness
  imports Function_Summarizer Loop_Summary_Correctness
begin

text \<open>
  What a function summary states: the classes of the states of the execution of a body, the relation of a
  procedure against every sequence of its recursive calls, the base cases, and the condition on the number
  of calls.
\<close>

section \<open>The execution of the body\<close>

lemma rec_step_class:
  "rec_step F target unfold st s = Inr (sts, s') \<Longrightarrow> \<forall>st'\<in>set sts. class_of st' = RecState"
  by (auto simp: rec_step_def Let_def exec_simps as_rec_state_def split: option.splits)

lemma build_rec_state_class:
  "build_rec_state F f s = Inr (st, s') \<Longrightarrow> class_of st = RecState"
  by (auto simp: build_rec_state_def Let_def exec_simps as_rec_state_def split: prod.splits)

lemma tracked_Inr: "tracked f s = (Inr x, s') \<longleftrightarrow> f s = Inr (x, s')"
  by (auto simp: tracked_def split: sum.splits)

lemma bind_tracked_Inr: "bind_tracked f g s = (Inr y, s') \<longleftrightarrow> (\<exists>x t. f s = (Inr x, t) \<and> g x t = (Inr y, s'))"
  by (auto simp: bind_tracked_def split: prod.splits sum.splits)

lemma run_rec_queue_states:
  "run_rec_queue F target unfold n queue final s = (Inr res, s') \<Longrightarrow>
   \<forall>st\<in>set queue. class_of st = RecState \<Longrightarrow>
   \<forall>st\<in>set final. class_of st = RecState \<and> status_of st = TERMINATED \<Longrightarrow>
   (\<forall>st\<in>set res. class_of st = RecState \<and> status_of st = TERMINATED) \<and>
   set final \<subseteq> set res \<and> (\<forall>st\<in>set queue. status_of st = TERMINATED \<longrightarrow> st \<in> set res)"
proof (induction F target unfold n queue final arbitrary: s rule: run_rec_queue.induct)
  case (1 F target unfold queue final)
  then show ?case by (simp add: tracked_def fail_def)
next
  case (2 F target unfold n final)
  then show ?case by (simp add: done_with_def)
next
  case (3 F target unfold n st rest final)
  consider (terminated) "status_of st = TERMINATED" | (testing) "status_of st = TESTING"
    | (other) "status_of st \<noteq> TERMINATED" "status_of st \<noteq> TESTING" by blast
  then show ?case
  proof cases
    case terminated
    have run: "run_rec_queue F target unfold n rest (final @ [st]) s = (Inr res, s')"
      using "3.prems"(1) terminated by simp
    have "(\<forall>st\<in>set res. class_of st = RecState \<and> status_of st = TERMINATED) \<and> set (final @ [st]) \<subseteq> set res \<and>
        (\<forall>st\<in>set rest. status_of st = TERMINATED \<longrightarrow> st \<in> set res)"
      by (rule "3.IH"(2) [OF terminated run]) (use "3.prems"(2,3) terminated in simp_all)
    then show ?thesis by simp
  next
    case testing
    obtain answer t where "test_loop_state (fe_z3 F) st s = Inr (answer, t)" and
        run: "run_rec_queue F target unfold n (if answer = FEASIBLE then rest @ [st\<lparr>status_of := RUNNING\<rparr>] else rest)
          final t = (Inr res, s')"
      using "3.prems"(1) testing by (auto simp: bind_tracked_Inr tracked_Inr)
    let ?rest = "if answer = FEASIBLE then rest @ [st\<lparr>status_of := RUNNING\<rparr>] else rest"
    have "(\<forall>st\<in>set res. class_of st = RecState \<and> status_of st = TERMINATED) \<and> set final \<subseteq> set res \<and>
        (\<forall>st\<in>set ?rest. status_of st = TERMINATED \<longrightarrow> st \<in> set res)"
      by (rule "3.IH"(4) [OF testing run]) (use "3.prems"(2,3) in simp_all)
    moreover have "set rest \<subseteq> set ?rest" by auto
    ultimately show ?thesis using testing by auto
  next
    case other
    obtain sts t where step: "rec_step F target unfold st s = Inr (sts, t)" and
        run: "run_rec_queue F target unfold n (rest @ sts) final t = (Inr res, s')"
      using "3.prems"(1) other by (cases "status_of st") (auto simp: bind_tracked_Inr tracked_Inr)
    have "\<forall>st\<in>set (rest @ sts). class_of st = RecState" using "3.prems"(2) rec_step_class [OF step] by auto
    then have all: "\<forall>st\<in>set (rest @ sts). class_of st = RecState" .
    note last = "3.prems"(3)
    show ?thesis
    proof (cases "status_of st")
      case RUNNING
      show ?thesis using "3.IH"(1) [OF RUNNING run all last] other by simp
    next
      case VERIFYING
      show ?thesis using "3.IH"(3) [OF VERIFYING run all last] other by simp
    next
      case REACH_ERROR
      show ?thesis using "3.IH"(5) [OF REACH_ERROR run all last] other by simp
    next
      case UNKNOWN
      show ?thesis using "3.IH"(6) [OF UNKNOWN run all last] other by simp
    next
      case FAILED
      show ?thesis using "3.IH"(7) [OF FAILED run all last] other by simp
    qed (use other in simp_all)
  qed
qed



text \<open>A procedure that returns at once.\<close>

definition return_module :: llvm_module where
  "return_module = sample_module\<lparr>kind_of := (\<lambda>v. if v = 0 then Inst (Ret None) else OtherValue),
     insts_of := (\<lambda>_. [0])\<rparr>"

definition return_env :: function_env where
  "return_env = \<lparr>fe_summary = \<lparr>se_loop = \<lparr>le_exec = \<lparr>env_z3 = ideal_z3, env_module = return_module,
       env_getenv = (\<lambda>_. None), env_partial_eval = (\<lambda>_ e. e), summarize_function = (\<lambda>_. give None),
       summarize_loop = (\<lambda>_ _. give None), accelerate_path = (\<lambda>_ _ _. give None),
       accelerate_nested = (\<lambda>_ _. give None), header_control = (\<lambda>_. False)\<rparr>,
       le_depth = 1, le_fuel = 3, carried_flow = (\<lambda>_ _. False), exit_blocks = (\<lambda>_. [])\<rparr>,
       se_rec = \<lparr>re_child = prompt_child, re_getenv = (\<lambda>_. None), re_parse = (\<lambda>_. None)\<rparr>, se_eq2ineq = (\<lambda>e. e)\<rparr>,
     users_of = (\<lambda>_. []), scc_of = (\<lambda>f. [f]), returns_void = (\<lambda>_. True)\<rparr>"

lemma return_kinds: "kind_of return_module 0 = Inst (Ret None)" "blocks_of return_module f = [0]" "args_of return_module f = []"
  "first_non_phi_or_dbg return_module 0 = Some 0"
  by (simp_all add: return_module_def sample_module_def first_non_phi_or_dbg_def is_phi_def is_dbg_def)


text \<open>A division in the fixed-width mode ends its path, also where it is exact.\<close>

lemma rec_division_no_successor: "rec_division F a b st s = Inr (sts, s') \<Longrightarrow> sts = []"
  by (auto simp: rec_division_def Let_def exec_simps split: if_splits)

lemma division_drops_path:
  assumes "pc st = Some i" "kind_of (fe_module F) i = Inst (Binary op fl a b)" "op = OpUDiv \<or> op = OpSDiv"
    and "\<not> uses_integer_relaxation s" "rec_step F target unfold st s = Inr (sts, s')"
  shows "sts = []"
  using assms rec_division_no_successor by (fastforce simp: rec_step_def Let_def exec_simps)

section \<open>Tail recursion\<close>

text \<open>A recursive call in the block of the return is not seen: a path of one block is a base case.\<close>

lemma single_block_is_base: "trace st = [] \<Longrightarrow> is_base_case_final_state m scc st"
  by (simp add: is_base_case_final_state_def trace_instructions_def)

lemma split_cases_partition:
  "set (fst (split_cases m scc sts)) \<union> set (snd (split_cases m scc sts)) = set sts"
  "set (fst (split_cases m scc sts)) \<inter> set (snd (split_cases m scc sts)) = {}"
  by (auto simp: split_cases_def)


section \<open>Relations of a procedure\<close>

text \<open>The values of the parameters after some recursive calls, each along one of the paths.\<close>

inductive after_calls ::
    "interp \<Rightarrow> string list \<Rightarrow> (z3expr \<times> z3expr list) list \<Rightarrow> int list \<Rightarrow> int list \<Rightarrow> bool"
  for I xs transitions u where
  start: "after_calls I xs transitions u u"
| call: "after_calls I xs transitions u v \<Longrightarrow> (c, ts) \<in> set transitions \<Longrightarrow> holds (bind_ints I xs v) c \<Longrightarrow>
    after_calls I xs transitions u (map (ival (bind_ints I xs v)) ts)"

lemma bind_ints_commute:
  assumes "set xs \<inter> set ys = {}"
  shows "bind_ints (bind_ints I xs vs) ys ws = bind_ints (bind_ints I ys ws) xs vs"
proof (intro ext)
  fix f as
  show "bind_ints (bind_ints I xs vs) ys ws f as = bind_ints (bind_ints I ys ws) xs vs f as"
  proof (cases "f \<in> set xs")
    case True
    then have "map_of (zip ys ws) f = None" using assms by (auto simp: map_of_eq_None_iff dest: set_zip_leftD)
    then show ?thesis by (simp add: bind_ints_def split: option.split)
  next
    case False
    then have "map_of (zip xs vs) f = None" by (auto simp: map_of_eq_None_iff dest: set_zip_leftD)
    then show ?thesis by (simp add: bind_ints_def split: option.split)
  qed
qed

lemma ival_bound_names:
  "length vs = length xs \<Longrightarrow> distinct xs \<Longrightarrow> map (ival (bind_ints I xs vs)) (map z_int_const xs) = vs"
  by (rule nth_equalityI) (simp_all add: ival_def bind_ints_def map_of_zip_nth)

definition transitions_over :: "string list \<Rightarrow> string list \<Rightarrow> (z3expr \<times> z3expr list) list \<Rightarrow> bool" where
  "transitions_over xs fresh transitions \<longleftrightarrow> (\<forall>(c, ts)\<in>set transitions. length ts = length xs \<and> list_all is_int ts \<and>
     list_all (\<lambda>e. quantifier_free e \<and> list_all (\<lambda>x. \<not> mentions x e) fresh) (c # ts))"

text \<open>An inductive relation that holds at the start holds after every sequence of calls.\<close>

lemma inductive_relation_holds:
  assumes z: "check_ok z" and fresh: "set xs \<inter> set fs = {}" "transitions_over xs fs transitions"
    and ind: "inductive_relation z (map z_int_const xs) transitions r" and r: "typed_over xs r"
    and start: "holds (bind_ints (bind_ints I fs ws) xs u) r" and len: "length u = length xs"
    and run: "after_calls I xs transitions u v"
  shows "length v = length xs \<and> holds (bind_ints (bind_ints I fs ws) xs v) r"
  using run
proof induction
  case start
  show ?case using assms(6,7) by simp
next
  case (call v c ts)
  let ?K = "bind_ints (bind_ints I fs ws) xs v" and ?v = "map (ival (bind_ints I xs v)) ts"
  have t: "length ts = length xs" "list_all is_int ts" "quantifier_free c" "list_all (\<lambda>x. \<not> mentions x c) fs"
    "list_all (\<lambda>e. quantifier_free e \<and> list_all (\<lambda>x. \<not> mentions x e) fs) ts"
    using fresh(2) call(2) by (fastforce simp: transitions_over_def)+
  have same: "eval ?K e = eval (bind_ints I xs v) e" if "quantifier_free e" "list_all (\<lambda>x. \<not> mentions x e) fs" for e
    unfolding bind_ints_commute [OF fresh(1), of I v ws, symmetric] by (rule eval_bind_fresh [OF that])
  have "holds ?K c" using same [OF t(3,4)] call(3) by (simp add: holds_def)
  moreover have "z_check z [r, c, z_not (substitute (zip (map z_int_const xs) ts) r)] = Unsat"
    using ind call(2) by (auto simp: inductive_relation_def list_all_iff)
  ultimately have "holds ?K (substitute (zip (map z_int_const xs) ts) r)"
    using check_unsat [OF z, of _ ?K] call.IH by (fastforce simp: sem_simps)
  then have "holds (bind_ints ?K xs (map (ival ?K) ts)) r"
    using eval_at_terms [OF t(1,2) r] by (simp add: holds_def)
  moreover have "map (ival ?K) ts = ?v" using same t(5) by (auto simp: ival_def list_all_iff)
  moreover have "bind_ints ?K xs ?v = bind_ints (bind_ints I fs ws) xs ?v"
    using call.IH t(1) by (intro bind_ints_again) simp_all
  ultimately show ?case using t(1) by simp
qed

text \<open>The candidates hold where the parameters are what they were at the start.\<close>

lemma internal_invariants_pairs:
  "p \<in> set (internal_invariants z s ts keys) \<Longrightarrow> snd p = z_simplify z (substitute s (fst p))"
  by (induction ts arbitrary: keys) (auto simp: Let_def split: if_splits)

lemma relation_candidates_start:
  fixes xs :: "string list"
  assumes z: "simplify_ok z" and len: "length u = length xs" and names: "distinct xs"
    and equal: "map (ival J) (map z_int_const fs) = u" "length fs = length xs"
    and J: "J = bind_ints K xs u"
    and internal: "internal = internal_invariants z (zip (map z_int_const xs) (map z_int_const fs)) invs []"
    and typed: "\<forall>p\<in>set internal. typed_over xs (fst p)"
    and c: "c \<in> set (fst (relation_candidates z (map z_int_const xs) (map z_int_const fs) internal))"
  shows "holds J c"
proof -
  have at: "ival J (z_int_const (xs ! i)) = ival J (z_int_const (fs ! i))" if "i < length xs" for i
    using that ival_bound_names [OF len names, of K] equal len J by (metis length_map nth_map)
  then have "eval J (z_int_const (xs ! i)) = eval J (z_int_const (fs ! i))" if "i < length xs" for i
    using that eval_int [of "z_int_const x" J for x] by (metis is_int_simps(9))
  then have simple: "holds J c" if "c \<in> set (parameter_candidates (map z_int_const xs) (map z_int_const fs) i)" "i < length xs" for i
    using that equal(2) by (auto simp: parameter_candidates_def moduli_def holds_eq holds_connectives)
  have again: "bind_ints J xs (map (ival J) (map z_int_const fs)) = J"
    unfolding equal(1) unfolding J by (rule bind_ints_again [OF len len])
  have inner: "holds J (snd p) \<longleftrightarrow> holds J (fst p)" if p: "p \<in> set internal" for p
  proof -
    have "snd p = z_simplify z (substitute (zip (map z_int_const xs) (map z_int_const fs)) (fst p))"
      using internal_invariants_pairs p internal by blast
    then have "holds J (snd p) \<longleftrightarrow> holds (bind_ints J xs (map (ival J) (map z_int_const fs))) (fst p)"
      using eval_at_terms [of "map z_int_const fs" xs "fst p" J] equal(2) typed p
      by (simp add: simplify_okD [OF z] holds_def list_all_iff)
    then show ?thesis by (simp only: again)
  qed
  have conj: "holds J (z_implies (z_simplify z (mk_and (map snd internal))) (z_simplify z (mk_and (map fst internal))))"
    using inner by (simp add: holds_connectives holds_simplify [OF z])
  have "(\<exists>i<length xs. c \<in> set (parameter_candidates (map z_int_const xs) (map z_int_const fs) i)) \<or>
      (\<exists>(current, start)\<in>set internal. c = z_implies start current) \<or>
      c = z_implies (z_simplify z (mk_and (map snd internal))) (z_simplify z (mk_and (map fst internal)))"
    using c by (auto simp: relation_candidates_def Let_def split: if_splits)
  moreover have "holds J (z_implies b a)" if "(a, b) \<in> set internal" for a b
    using inner [OF that] by (simp add: holds_connectives)
  ultimately show ?thesis using simple conj by (elim disjE) auto
qed


lemma typed_over_and: "typed_over xs (foldl z_and c cs) \<longleftrightarrow> typed_over xs c \<and> list_all (typed_over xs) cs"
  by (induction cs arbitrary: c) auto

lemma holds_foldl_z_and: "holds I (foldl z_and c cs) \<longleftrightarrow> holds I c \<and> (\<forall>e\<in>set cs. holds I e)"
  by (induction cs arbitrary: c) (auto simp: sem_simps)

lemma relational_condition_holds:
  fixes xs fs ls :: "string list"
  assumes z: "z3_ok z"
    and names: "distinct xs" "distinct fs" "distinct ls" "length fs = length xs" "length ls = length xs"
      "set xs \<inter> set fs = {}" "set xs \<inter> set ls = {}" "set fs \<inter> set ls = {}"
    and transitions: "transitions_over xs fs transitions"
    and internal: "internal = internal_invariants z (zip (map z_int_const xs) (map z_int_const fs)) invs []"
    and candidates: "cs = fst (relation_candidates z (map z_int_const xs) (map z_int_const fs) internal)"
    and typed: "\<forall>p\<in>set internal. typed_over xs (fst p)"
      "\<forall>c\<in>set cs. typed_over xs c \<and> list_all (\<lambda>x. \<not> mentions x c) ls"
    and run: "after_calls I xs transitions u v" "length u = length xs"
  shows "holds (bind_ints (bind_ints I fs u) ls v)
    (relational_condition z (map z_int_const xs) (map z_int_const ls) transitions cs)"
proof -
  let ?K = "bind_ints I fs u"
  let ?kept = "filter (inductive_relation z (map z_int_const xs) transitions) cs"
  let ?J = "bind_ints ?K ls v"
  note ok = z3_okD(1,2) [OF z]
  have lens: "length u = length fs" using run(2) names(4) by simp
  have "map (ival (bind_ints ?K xs u)) (map z_int_const fs) = u"
    using ival_bound_names [OF lens names(2), of "bind_ints I xs u"] bind_ints_commute [OF names(6), of I u u] by simp
  then have start: "holds (bind_ints ?K xs u) c" if "c \<in> set cs" for c
    using relation_candidates_start [OF ok(1) run(2) names(1) _ names(4) refl internal typed(1)] that candidates by blast
  have keep: "length v = length xs \<and> holds (bind_ints ?K xs v) c" if "c \<in> set ?kept" for c
    using inductive_relation_holds [OF ok(2) names(6) transitions _ _ start run(2,1), of c] that typed(2) by auto
  have len: "length v = length xs"
    using run by (induction rule: after_calls.induct) (use transitions in \<open>auto simp: transitions_over_def\<close>)
  have "typed_over xs (foldl z_and z_true ?kept)" using typed(2) by (simp add: typed_over_and list_all_iff)
  then have "holds ?J (relational_condition z (map z_int_const xs) (map z_int_const ls) transitions cs) \<longleftrightarrow>
      holds (bind_ints ?J xs (map (ival ?J) (map z_int_const ls))) (foldl z_and z_true ?kept)"
    using eval_at_terms [of "map z_int_const ls" xs "foldl z_and z_true ?kept" ?J] names(5)
    by (simp add: relational_condition_def simplify_okD [OF ok(1)] holds_def list_all_iff)
  also have "map (ival ?J) (map z_int_const ls) = v"
    using ival_bound_names [of v ls ?K] len names(3,5) by simp
  also have "bind_ints ?J xs v = bind_ints (bind_ints ?K xs v) ls v"
    using bind_ints_commute [of ls xs] names(7) by blast
  finally have "holds ?J (relational_condition z (map z_int_const xs) (map z_int_const ls) transitions cs) \<longleftrightarrow>
      holds (bind_ints (bind_ints ?K xs v) ls v) (foldl z_and z_true ?kept)" .
  moreover have "holds (bind_ints (bind_ints ?K xs v) ls v) c" if c: "c \<in> set ?kept" for c
  proof -
    have "eval (bind_ints (bind_ints ?K xs v) ls v) c = eval (bind_ints ?K xs v) c"
      using typed(2) c typed_over_quantifier_free by (intro eval_bind_fresh) auto
    then show ?thesis using keep [OF c] by (simp add: holds_def)
  qed
  ultimately show ?thesis by (simp only: holds_foldl_z_and) (simp add: sem_simps)
qed


text \<open>C14: The relation of a procedure's summary holds between the values at its first call and the values after
  every sequence of recursive calls, each along a path whose condition holds.\<close>

theorem relational_condition_sound:
  fixes xs fs ls :: "string list"
  assumes "z3_ok z"
    and "distinct xs" "distinct fs" "distinct ls" "length fs = length xs" "length ls = length xs"
      "set xs \<inter> set fs = {}" "set xs \<inter> set ls = {}" "set fs \<inter> set ls = {}"
    and "transitions_over xs fs transitions"
    and "internal = internal_invariants z (zip (map z_int_const xs) (map z_int_const fs)) invs []"
    and "cs = fst (relation_candidates z (map z_int_const xs) (map z_int_const fs) internal)"
    and "\<forall>p\<in>set internal. typed_over xs (fst p)"
      "\<forall>c\<in>set cs. typed_over xs c \<and> list_all (\<lambda>x. \<not> mentions x c) ls"
    and "after_calls I xs transitions u v" "length u = length xs"
  shows "holds (bind_ints (bind_ints I fs u) ls v)
    (relational_condition z (map z_int_const xs) (map z_int_const ls) transitions cs)"
  by (rule relational_condition_holds [OF assms])

text \<open>A procedure that counts down in twos: 5 becomes 3, and the parity stays.\<close>

abbreviation count_down :: "(z3expr \<times> z3expr list) list" where
  "count_down \<equiv> [(z_gt (z_int_const ''a'') (z_int 0), [z_sub (z_int_const ''a'') (z_int 2)])]"

theorem relational_condition_sound_witness:
  "holds (bind_ints (bind_ints zero_interp [''b''] [5]) [''c''] [3])
     (relational_condition ideal_z3 [z_int_const ''a''] [z_int_const ''c''] count_down
       (fst (relation_candidates ideal_z3 [z_int_const ''a''] [z_int_const ''b''] [])))"
proof -
  have a: "ival (bind_ints zero_interp [''a''] [5]) (z_int_const ''a'') = 5" by (simp add: ival_bound)
  have "after_calls zero_interp [''a''] count_down [5]
      (map (ival (bind_ints zero_interp [''a''] [5])) [z_sub (z_int_const ''a'') (z_int 2)])"
    by (rule after_calls.call [OF after_calls.start, where c = "z_gt (z_int_const ''a'') (z_int 0)"])
      (simp_all only: list.set, simp_all add: sem_simps a)
  then have run: "after_calls zero_interp [''a''] count_down [5] [3]" by (simp add: sem_simps a)
  have over: "transitions_over [''a''] [''b''] count_down" by (simp add: transitions_over_def)
  show ?thesis
    using relational_condition_sound [of ideal_z3 "[''a'']" "[''b'']" "[''c'']" count_down "[]" "[]" _ zero_interp "[5]" "[3]",
        OF ideal_z3_ok _ _ _ _ _ _ _ _ over _ refl _ _ run]
    by (simp add: relation_candidates_def parameter_candidates_def moduli_def)
qed

section \<open>The number of calls\<close>

text \<open>The guards of the recursive paths, as functions of the index.\<close>

definition guards_of :: "z3_api \<Rightarrow> string list \<Rightarrow> (z3expr \<times> z3expr list) list \<Rightarrow> z3expr list" where
  "guards_of z xs transitions =
     map (\<lambda>(c, ts). z_simplify z (substitute (zip (map z_int_const xs) (map (\<lambda>x. indexed x loop_n) xs)) c)) transitions"

lemma procedure_guards:
  "map fst (map (transition_equations z (zip (map z_int_const xs) (map (\<lambda>x. indexed x loop_n) xs)) xs) transitions) =
     guards_of z xs transitions"
  by (simp add: guards_of_def transition_equations_def case_prod_unfold)

text \<open>The guard of the last call is asked without the values of the parameters, which the substitution of
  the closed forms does not reach; where the recursion can stop, the answer is no.\<close>

lemma iteration_condition_false:
  assumes z: "z3_ok z" and forms: "closed \<noteq> []" "last_values z closed (map z_int_const xs) = Some vs"
    and transitions: "transitions \<noteq> []" "\<forall>(c, ts)\<in>set transitions. typed_over xs c"
    and guards: "\<forall>g\<in>set (guards_of z xs transitions). unused xs g \<and> \<not> contains_str (z_string z g) ''_unknown_''"
    and stops: "ival J loop_n > 0" "\<forall>(c, ts)\<in>set transitions. \<not> holds (current J xs) c"
  shows "iteration_condition z closed (map z_int_const xs) (guards_of z xs transitions) =
    z_and (z_ge loop_n (z_int 0)) z_false"
proof -
  note ok = z3_okD(1,2) [OF z]
  let ?guards = "guards_of z xs transitions"
  let ?any = "foldl z_or z_false ?guards"
  have "unused xs (foldl z_or c gs) \<longleftrightarrow> unused xs c \<and> list_all (unused xs) gs" for c gs
    by (induction gs arbitrary: c) auto
  then have same: "substitute (zip (map z_int_const xs) vs) ?any = ?any"
    using guards by (intro substitute_unused) (simp add: list_all_iff)
  have "\<not> holds J g" if g: "g \<in> set ?guards" for g
  proof -
    obtain c ts where c: "(c, ts) \<in> set transitions"
        "g = z_simplify z (substitute (zip (map z_int_const xs) (map (\<lambda>x. indexed x loop_n) xs)) c)"
      using g by (auto simp: guards_of_def)
    then have "holds J g \<longleftrightarrow> holds (current J xs) c"
      using eval_current [of xs c J] transitions(2) by (auto simp: holds_def simplify_okD [OF ok(1)])
    then show ?thesis using stops(2) c(1) by auto
  qed
  then have "\<not> holds J (z_simplify z ?any)" by (simp add: holds_simplify [OF ok(1)] holds_foldl_or_terms sem_simps)
  then have "\<not> implies z (z_gt loop_n (z_int 0)) (z_simplify z ?any)"
    using implies_sound [OF ok(2)] stops(1) by (auto simp: sem_simps)
  moreover have "?guards \<noteq> []" using transitions(1) by (simp add: guards_of_def)
  moreover have "\<not> list_ex (\<lambda>c. contains_str (z_string z c) ''_unknown_'') ?guards"
    using guards by (auto simp: list_ex_iff)
  ultimately show ?thesis using forms by (simp add: iteration_condition_def same Let_def)
qed


text \<open>Appending conditions to a path keeps what the path required.\<close>

definition requires :: "z3_api \<Rightarrow> exec_state \<Rightarrow> (interp \<Rightarrow> bool) \<Rightarrow> bool" where
  "requires z st P \<longleftrightarrow> (\<exists>p. as_expr z (path_condition st) = Some p \<and> \<not> is_int p \<and> (\<forall>I. holds I p \<longrightarrow> P I))"

lemma append_path_condition_path:
  assumes "append_path_condition z m c st = Some st'"
  shows "\<exists>st1. append_condition z c st = Some st1 \<and> path_condition st' = path_condition st1"
  using assms by (auto simp: append_path_condition_def Let_def split: option.splits state_class.splits value_kind.splits
      instruction.splits if_splits)

lemma assume_term_path:
  assumes "assume_term z m t st s = Inr (st', s')"
  obtains p e d where "as_expr z (path_condition st) = Some p" "as_expr z (expression_of z t) = Some e"
    "defined_term z (expression_of z t) = Some d"
    "as_expr z (path_condition st') = Some (z_and (z_and (normalize_bool p) d) (normalize_bool e))"
proof -
  obtain st1 where "append_condition z (expression_of z t) st = Some st1" "path_condition st' = path_condition st1"
    using assms append_path_condition_path by (fastforce simp: assume_term_def extend_condition_def exec_simps)
  then show thesis using append_condition_eq that by metis
qed

lemma assume_term_requires:
  assumes "assume_term z m t st s = Inr (st', s')" "requires z st P"
  shows "requires z st' P"
  using assume_term_path [OF assms(1)] assms(2)
  by (fastforce simp: requires_def holds_connectives holds_normalize_bool is_int_def)

lemma assume_term_adds:
  assumes z: "z3_ok z" and run: "assume_term z m t st s = Inr (st', s')" and t: "ite_sorted t" "is_bool t"
  shows "requires z st' (\<lambda>I. holds I t)"
proof -
  obtain p e d where r: "as_expr z (expression_of z t) = Some e"
      "as_expr z (path_condition st') = Some (z_and (z_and (normalize_bool p) d) (normalize_bool e))"
    using assume_term_path [OF run] by metis
  have "eval I e = eval I t" "sort_of e = BoolSort" for I
    using as_expr_value [OF z denotes_expression_of [OF z t(1)] expression_of_bool(1) [OF t]] r(1) by auto
  then have "holds I (normalize_bool e) \<longleftrightarrow> holds I t" for I
    by (simp add: holds_normalize_bool is_int_def) (simp add: holds_def)
  then show ?thesis using r(2) by (simp add: requires_def holds_connectives is_int_def)
qed

lemma summarized_call_blocked:
  assumes z: "z3_ok (env_z3 E)" and forms: "closed \<noteq> []" "last_values (env_z3 E) closed (map z_int_const xs) = Some vs"
    and transitions: "transitions \<noteq> []" "\<forall>(c, ts)\<in>set transitions. typed_over xs c"
    and guards: "\<forall>g\<in>set (guards_of (env_z3 E) xs transitions). unused xs g \<and> \<not> contains_str (z_string (env_z3 E) g) ''_unknown_''"
    and stops: "ival J loop_n > 0" "\<forall>(c, ts)\<in>set transitions. \<not> holds (current J xs) c"
    and fs: "fs_params fs = map z_int_const xs" "''ari_loop_n'' \<notin> set xs"
      "fs_iteration_condition fs =
         Some (iteration_condition (env_z3 E) closed (map z_int_const xs) (guards_of (env_z3 E) xs transitions))"
    and run: "apply_over_approx_summary E i actuals fs st s = Inr (st', s')"
  shows "requires (env_z3 E) st' (\<lambda>I. False)"
proof -
  let ?z = "env_z3 E" and ?m = "env_module E" and ?c = "z_and (z_ge loop_n (z_int 0)) z_false"
  have c: "get_iteration_condition fs = ?c"
    using iteration_condition_false [OF z forms transitions guards stops] fs(3) by (simp add: get_iteration_condition_def)
  have same: "substituted (fs_params fs) vs' ?c t = Inr (c2, t') \<Longrightarrow> c2 = ?c" for vs' c2 t t'
    using fs(1,2) substitute_unused [of xs ?c vs']
    by (auto simp: substituted_def substitute_all_def exec_simps Control_Instructions.ind_var_def split: if_splits)
  obtain a c2 t st3 st4 st5 c4 s3 s4 s5 s6 where c2: "substituted (fs_params fs) a ?c t = Inr (c2, s3)"
      and steps: "assume_term ?z ?m c2 st3 s3 = Inr (st4, s4)"
      "assume_term ?z ?m c4 st4 s5 = Inr (st5, s6)" "st' = (step_pc ?m None st5)\<lparr>is_over_approx := True\<rparr>"
    using run by (auto simp: apply_over_approx_summary_def Let_def exec_simps c)
  have "requires ?z st4 (\<lambda>I. holds I ?c)"
    by (rule assume_term_adds [OF z steps(1) [unfolded same [OF c2]]]) (simp_all add: Control_Instructions.ind_var_def)
  then have "requires ?z st5 (\<lambda>I. holds I ?c)" using assume_term_requires [OF steps(2)] by blast
  then show ?thesis by (simp add: requires_def steps(3) step_pc_def holds_connectives holds_not_false)
qed

text \<open>C15: A summary of a procedure that can stop, with closed forms for its parameters, leaves no execution behind
  a call of the procedure: the condition on the number of calls is a false literal.\<close>

theorem summarized_call_infeasible:
  assumes z: "z3_ok (env_z3 E)" and forms: "closed \<noteq> []" "last_values (env_z3 E) closed (map z_int_const xs) = Some vs"
    and transitions: "transitions \<noteq> []" "\<forall>(c, ts)\<in>set transitions. typed_over xs c"
    and guards: "\<forall>g\<in>set (guards_of (env_z3 E) xs transitions). unused xs g \<and> \<not> contains_str (z_string (env_z3 E) g) ''_unknown_''"
    and stops: "ival J loop_n > 0" "\<forall>(c, ts)\<in>set transitions. \<not> holds (current J xs) c"
    and fs: "fs_params fs = map z_int_const xs" "''ari_loop_n'' \<notin> set xs"
      "fs_iteration_condition fs =
         Some (iteration_condition (env_z3 E) closed (map z_int_const xs) (guards_of (env_z3 E) xs transitions))"
    and run: "apply_over_approx_summary E i actuals fs st s = Inr (st', s')"
  shows "\<exists>p. as_expr (env_z3 E) (path_condition st') = Some p \<and> (\<forall>I. \<not> holds I p)"
  using summarized_call_blocked [OF assms] by (auto simp: requires_def)

text \<open>A condition can be appended to the path of a plain state.\<close>

lemma assume_term_total:
  assumes z: "z3_ok z" and t: "ite_sorted t" "is_bool t" and st: "class_of st = PlainState"
    "as_expr z (path_condition st) = Some p"
  shows "\<exists>st' p'. assume_term z m t st s = Inr (st', s) \<and> class_of st' = PlainState \<and>
    as_expr z (path_condition st') = Some p'"
proof -
  note den = denotes_expression_of [OF z t(1), of zero_interp]
  obtain e where e: "as_expr z (expression_of z t) = Some e"
    using as_expr_value [OF z den expression_of_bool(1) [OF t]] by blast
  obtain d where d: "defined_term z (expression_of z t) = Some d"
    using defined_term_holds [OF z den expression_of_bool(2) [OF t]] by blast
  show ?thesis
    using st by (simp add: assume_term_def extend_condition_def append_path_condition_def append_condition_def e d
        need_def give_def)
qed

text \<open>A procedure that counts its argument down to zero, called with 5.\<close>

abbreviation countdown_n :: z3expr where "countdown_n \<equiv> z_int_const ''ari_n''"

definition countdown_forms :: closed_forms where
  "countdown_forms = [(countdown_n, z_sub countdown_n loop_n)]"

definition countdown_paths :: "(z3expr \<times> z3expr list) list" where
  "countdown_paths = [(z_gt countdown_n (z_int 0), [z_sub countdown_n (z_int 1)])]"

definition countdown_summary :: function_summary where
  "countdown_summary = over_approx_function_summary [countdown_n] countdown_forms (z_le countdown_n (z_int 0))
     (iteration_condition ideal_z3 countdown_forms [countdown_n] (guards_of ideal_z3 [''ari_n''] countdown_paths))
     [z_int_const ''ari_initial_ari_n''] [z_int_const ''ari_final_ari_n''] z_true"

definition pointer_env :: exec_env where
  "pointer_env = (fe_exec return_env)\<lparr>env_module := return_module\<lparr>ty_of := (\<lambda>_. PtrTy)\<rparr>\<rparr>"

definition argument_address :: mem_address where
  "argument_address = \<lparr>addr_loc = HEAP, addr_base = expression_of ideal_z3 (z_int (int 0)), addr_offset = []\<rparr>"

definition argument_memory :: memory where
  "argument_memory = new_memory\<lparr>
     m_objects := [new_object new_session 7 argument_address (single_case (z_int 5)) None [] [] ''n''],
     m_variables := [new_object new_session 7 argument_address empty_expression (Some argument_address) [] [] ''n'']\<rparr>"

definition caller_state :: exec_state where
  "caller_state = new_state ideal_z3 (Some 0) None argument_memory (single_case z_true) []"


lemma ideal_no_underscore: "\<not> contains_str (z_string ideal_z3 e) ''_unknown_''"
proof -
  have digit: "(char_of (48 + n) :: char) \<noteq> CHR ''_''" if n: "n < 10" for n :: nat
  proof
    assume "(char_of (48 + n) :: char) = CHR ''_''"
    then have "of_char (char_of (48 + n) :: char) = (of_char CHR ''_'' :: nat)" by simp
    then show False using n by (simp add: of_char_of)
  qed
  have "CHR ''_'' \<notin> set (nat_to_string n)" for n
  proof (induction n rule: nat_to_string.induct)
    case (1 n)
    have "(char_of (48 + n mod 10) :: char) \<noteq> CHR ''_''" by (rule digit) simp
    then show ?case using 1 digit [of n] by (subst nat_to_string.simps) auto
  qed
  then show ?thesis by (auto simp: contains_str_iff ideal_z3_def) (metis in_set_conv_decomp)
qed

lemma countdown_argument:
  "\<exists>unknown st1 s1. unknown_argument ideal_z3 (env_module pointer_env) 0 7 (([], []), copy_state caller_state) new_session =
     Inr ((([z_int 5], [z_int_const unknown]), st1), s1) \<and> class_of st1 = PlainState \<and> path_condition st1 = single_case z_true"
proof -
  have "find_object 7 (m_variables argument_memory) = Some (m_variables argument_memory ! 0)"
    by (simp add: argument_memory_def find_object_def new_object_def)
  then have ptr: "pointer_of 7 (copy_state caller_state) s = Inr (argument_address, s)" for s
    by (simp add: pointer_of_def copy_state_def caller_state_def new_state_def get_object_def copy_memory_def copy_mstack_def
        stack_get_object_def argument_memory_def new_memory_def new_object_def get_ptr_value_def bind_exec_def need_def give_def)
  have obj: "object_at ideal_z3 argument_address (mem (copy_state caller_state)) = Some (m_objects argument_memory ! 0)"
    by (simp add: object_at_def argument_address_def copy_state_def caller_state_def new_state_def copy_memory_def
        argument_memory_def new_memory_def nth_option_def numeral_of_int [of _ 0, simplified])
  have read: "Option.bind (read_object ideal_z3 (m_objects argument_memory ! 0)) (as_expr ideal_z3) = Some (z_int 5)"
    by (simp add: argument_memory_def new_object_def read_object_def read_at_def subs_def single_case_def as_expr_def
        piecewise2ite_def ideal_z3_def)
  show ?thesis
    using ptr obj read
    by (simp add: unknown_argument_def pointer_env_def return_env_def bind_exec_def need_def give_def with_session_def
        update_object_def with_memory_def is_ptr_ty_def next_call_value_id_def Let_def)
      (simp add: copy_state_def caller_state_def new_state_def)
qed

theorem summarized_call_infeasible_witness:
  "\<exists>st' s' p. apply_over_approx_summary pointer_env 0 [7] countdown_summary caller_state new_session = Inr (st', s') \<and>
     as_expr ideal_z3 (path_condition st') = Some p \<and> \<not> holds zero_interp p"
proof -
  let ?z = ideal_z3 and ?m = "env_module pointer_env"
  have z: "env_z3 pointer_env = ideal_z3" by (simp add: pointer_env_def return_env_def)
  obtain unknown st1 s1 where arg: "unknown_argument ?z ?m 0 7 (([], []), copy_state caller_state) new_session =
      Inr ((([z_int 5], [z_int_const unknown]), st1), s1)" "class_of st1 = PlainState" "path_condition st1 = single_case z_true"
    using countdown_argument by blast
  have path1: "as_expr ?z (path_condition st1) = Some z_true"
    by (simp add: arg(3) single_case_def as_expr_def piecewise2ite_def)
  let ?u = "z_int_const unknown" and ?r = "z_sub (z_int 5) loop_n"
  note total = assume_term_total [OF ideal_z3_ok]
  have simp: "z_simplify ?z e = e" for e by (simp add: ideal_z3_def)
  obtain st2 p2 where st2: "assume_term ?z ?m (z_eq ?u ?r) st1 s1 = Inr (st2, s1)" "class_of st2 = PlainState"
      "as_expr ?z (path_condition st2) = Some p2"
    using total [OF _ _ arg(2) path1, of "z_eq ?u ?r" ?m s1] by (auto simp: Control_Instructions.ind_var_def)
  obtain st3 p3 where st3: "assume_term ?z ?m (z_le ?u (z_int 0)) st2 s1 = Inr (st3, s1)" "class_of st3 = PlainState"
      "as_expr ?z (path_condition st3) = Some p3"
    using total [OF _ _ st2(2,3), of "z_le ?u (z_int 0)" ?m s1] by auto
  let ?c = "z_and (z_ge loop_n (z_int 0)) z_false"
  obtain st4 p4 where st4: "assume_term ?z ?m ?c st3 s1 = Inr (st4, s1)" "class_of st4 = PlainState"
      "as_expr ?z (path_condition st4) = Some p4"
    using total [OF _ _ st3(2,3), of ?c ?m s1] by (auto simp: Control_Instructions.ind_var_def)
  obtain st5 where st5: "assume_term ?z ?m z_true st4 s1 = Inr (st5, s1)"
    using total [OF _ _ st4(2,3), of z_true ?m s1] by auto
  define J :: interp where "J = (\<lambda>f vs. if f = ''ari_n'' then VInt 0 else VInt 1)"
  have J: "ival J loop_n > 0" "\<forall>(c, ts)\<in>set countdown_paths. \<not> holds (current J [''ari_n'']) c"
    by (simp_all add: countdown_paths_def sem_simps current_def ival_bound)
      (simp_all add: ival_def J_def Control_Instructions.ind_var_def indexed_def)
  have forms: "countdown_forms \<noteq> []"
      "last_values ?z countdown_forms (map z_int_const [''ari_n'']) = Some [z_sub countdown_n previous_index]"
    by (simp_all add: countdown_forms_def last_values_def decl_name_def go_back_def simp Control_Instructions.ind_var_def)
  have paths: "countdown_paths \<noteq> []" "\<forall>(c, ts)\<in>set countdown_paths. typed_over [''ari_n''] c"
      "\<forall>g\<in>set (guards_of ?z [''ari_n''] countdown_paths). unused [''ari_n''] g \<and> \<not> contains_str (z_string ?z g) ''_unknown_''"
    using ideal_no_underscore
    by (simp_all add: countdown_paths_def guards_of_def simp indexed_def Control_Instructions.ind_var_def)
  have c: "get_iteration_condition countdown_summary = ?c"
    using iteration_condition_false [OF ideal_z3_ok forms paths J]
    by (simp add: countdown_summary_def over_approx_function_summary_def get_iteration_condition_def)
  have clone: "clone_state_preserving_type caller_state = copy_state caller_state"
    by (simp add: clone_state_preserving_type_def caller_state_def new_state_def)
  have fields: "fs_params countdown_summary = [countdown_n]"
      "fs_over_approx countdown_summary = [(countdown_n, z_sub countdown_n loop_n)]"
      "get_exit_condition countdown_summary = z_le countdown_n (z_int 0)"
      "get_relational_condition countdown_summary = z_true"
      "fs_final_params countdown_summary = [z_int_const ''ari_final_ari_n'']"
      "fs_initial_params countdown_summary = [z_int_const ''ari_initial_ari_n'']"
    by (simp_all add: countdown_summary_def over_approx_function_summary_def countdown_forms_def get_exit_condition_def
        get_relational_condition_def)
  have run: "apply_over_approx_summary pointer_env 0 [7] countdown_summary caller_state new_session =
      Inr ((step_pc ?m None st5)\<lparr>is_over_approx := True\<rparr>, s1)"
    using arg(1) st2(1) st3(1) st4(1) st5
    by (simp add: apply_over_approx_summary_def z c bind_exec_def substituted_def substitute_all_def need_def give_def
        clone fields simp Let_def Control_Instructions.ind_var_def)
  have fs: "fs_params countdown_summary = map z_int_const [''ari_n'']" "''ari_loop_n'' \<notin> set [''ari_n'']"
      "fs_iteration_condition countdown_summary = Some (iteration_condition ?z countdown_forms (map z_int_const [''ari_n''])
         (guards_of ?z [''ari_n''] countdown_paths))"
    by (simp_all add: countdown_summary_def over_approx_function_summary_def)
  show ?thesis
    using summarized_call_infeasible [of pointer_env, unfolded z, OF ideal_z3_ok forms paths J fs run] run by blast
qed

end
