(* ===== verification/Witness_Source.thy ===== *)
theory Witness_Source
  imports Engine
begin

text \<open>
  The parts of lib/Witness.cpp that read the source file and render scalars: quoting, digests and
  identifiers of a witness, the positions of loops, functions and calls in the text of the program.
  A text is a list of characters; lines and columns count from one.  The debug information of the
  module, the digest of the LLVM library, the random device and the calendar of the C library are data.
\<close>

section \<open>Characters and scalars\<close>

text \<open>\<open>std::isalpha\<close> and \<open>std::isalnum\<close> in the C locale.\<close>

definition is_alpha :: "char \<Rightarrow> bool" where
  "is_alpha c = (let n = (of_char c :: nat) in 65 \<le> n \<and> n \<le> 90 \<or> 97 \<le> n \<and> n \<le> 122)"

definition ident_start :: "char \<Rightarrow> bool" where
  "ident_start c = (is_alpha c \<or> c = CHR ''_'')"

definition ident_char :: "char \<Rightarrow> bool" where
  "ident_char c = (is_alpha c \<or> is_digit c \<or> c = CHR ''_'')"

definition hex_digit :: "nat \<Rightarrow> char" where
  "hex_digit n = (if n < 10 then char_of (48 + n) else char_of (87 + n))"

text \<open>\<open>std::hex\<close> with width two and zeros, and the decimal number with two digits.\<close>

definition hex_byte :: "nat \<Rightarrow> string" where
  "hex_byte n = [hex_digit (n div 16), hex_digit (n mod 16)]"

definition two_digits :: "nat \<Rightarrow> string" where
  "two_digits n = (if n < 10 then ''0'' @ nat_to_string n else nat_to_string n)"

definition yaml_char :: "char \<Rightarrow> string" where
  "yaml_char c =
     (if c = CHR 0x5C then [CHR 0x5C, CHR 0x5C]
      else if c = CHR 0x22 then [CHR 0x5C, CHR 0x22]
      else if c = CHR 0x0A then [CHR 0x5C, CHR ''n'']
      else if c = CHR 0x0D then [CHR 0x5C, CHR ''r'']
      else if c = CHR 0x09 then [CHR 0x5C, CHR ''t'']
      else if (of_char c :: nat) < 32 then [CHR 0x5C, CHR ''x''] @ hex_byte (of_char c)
      else [c])"

definition yaml_quote :: "string \<Rightarrow> string" where
  "yaml_quote s = [CHR 0x22] @ concat (map yaml_char s) @ [CHR 0x22]"

definition sha256_hex :: "nat list \<Rightarrow> string" where
  "sha256_hex bytes = concat (map hex_byte bytes)"

text \<open>The version and the variant of the identifier are set in two of its random bytes.\<close>

definition uuid_byte :: "(nat \<Rightarrow> 32 word) \<Rightarrow> nat \<Rightarrow> 8 word" where
  "uuid_byte device i =
     (let byte = ucast (device i)
      in if i = 6 then (byte AND 0x0f) OR 0x40
         else if i = 8 then (byte AND 0x3f) OR 0x80
         else byte)"

definition make_uuid_v4 :: "(nat \<Rightarrow> 32 word) \<Rightarrow> string" where
  "make_uuid_v4 device =
     concat (map (\<lambda>i. (if i = 4 \<or> i = 6 \<or> i = 8 \<or> i = 10 then ''-'' else []) @ hex_byte (unat (uuid_byte device i)))
       [0..<16])"

text \<open>A moment in universal time, and its rendering by \<open>std::put_time\<close>.\<close>

record utc_time =
  utc_year :: nat
  utc_month :: nat
  utc_day :: nat
  utc_hour :: nat
  utc_minute :: nat
  utc_second :: nat

definition creation_time :: "utc_time \<Rightarrow> string" where
  "creation_time t =
     nat_to_string (utc_year t) @ ''-'' @ two_digits (utc_month t) @ ''-'' @ two_digits (utc_day t) @ ''T'' @
     two_digits (utc_hour t) @ '':'' @ two_digits (utc_minute t) @ '':'' @ two_digits (utc_second t) @ ''Z''"

section \<open>Paths and lines\<close>

fun split_on :: "char \<Rightarrow> string \<Rightarrow> string list" where
  "split_on d [] = [[]]"
| "split_on d (c # s) =
     (if c = d then [] # split_on d s
      else case split_on d s of [] \<Rightarrow> [[c]] | w # ws \<Rightarrow> (c # w) # ws)"

text \<open>The components that \<open>std::filesystem::path\<close> compares, and the last of them.\<close>

definition path_elements :: "string \<Rightarrow> string list" where
  "path_elements p =
     (let names = filter (\<lambda>w. w \<noteq> []) (split_on CHR ''/'' p)
      in (if starts_with p ''/'' then [''/''] else []) @ names @
         (if ends_with p ''/'' \<and> names \<noteq> [] then [[]] else []))"

definition path_filename :: "string \<Rightarrow> string" where
  "path_filename p = last (split_on CHR ''/'' p)"

definition debug_file_matches :: "string \<Rightarrow> string \<Rightarrow> bool" where
  "debug_file_matches actual expected =
     (actual = [] \<or> path_elements actual = path_elements expected \<or> path_filename actual = path_filename expected)"

text \<open>\<open>std::getline\<close> until the end of the file: a last line that is empty is not read.\<close>

definition read_source_lines :: "string option \<Rightarrow> string list" where
  "read_source_lines file =
     (case file of
        None \<Rightarrow> []
      | Some text \<Rightarrow>
          let ls = split_on CHR 0x0A text
          in if last ls = [] then butlast ls else ls)"

section \<open>Identifiers\<close>

function identifiers_in :: "string \<Rightarrow> string list" where
  "identifiers_in [] = []"
| "identifiers_in (c # s) =
     (if ident_start c then (c # takeWhile ident_char s) # identifiers_in (dropWhile ident_char s)
      else identifiers_in s)"
  by pat_completeness auto

termination identifiers_in
  by (relation "measure length") (auto simp: le_imp_less_Suc length_dropWhile_le)

definition source_identifiers :: "string list \<Rightarrow> string list" where
  "source_identifiers ls = concat (map identifiers_in ls)"

definition candidate_name :: "string \<Rightarrow> nat \<Rightarrow> string" where
  "candidate_name base k = (if k = 0 then base else base @ ''_'' @ nat_to_string k)"

lemma candidate_name_inj: "inj (candidate_name base)"
  by (auto simp: inj_def candidate_name_def split: if_splits)

lemma finite_candidates: "finite {j. k \<le> j \<and> candidate_name base j \<in> set used}"
proof -
  have "finite (candidate_name base -` set used)"
    using candidate_name_inj by (rule finite_vimageI [OF finite_set])
  then show ?thesis by (rule rev_finite_subset) auto
qed

text \<open>The first candidate that is not used.  The names that are used are finite, so there is one.\<close>

function unique_from :: "string \<Rightarrow> string list \<Rightarrow> nat \<Rightarrow> string" where
  "unique_from base used k =
     (if candidate_name base k \<in> set used then unique_from base used (Suc k) else candidate_name base k)"
  by pat_completeness auto

termination unique_from
proof (relation "measure (\<lambda>(base, used, k). card {j. k \<le> j \<and> candidate_name base j \<in> set used})")
  fix base used k
  assume "candidate_name base k \<in> set used"
  then have "{j. Suc k \<le> j \<and> candidate_name base j \<in> set used} \<subset> {j. k \<le> j \<and> candidate_name base j \<in> set used}"
    by (auto simp: psubset_eq) (metis (mono_tags, lifting) Suc_n_not_le_n le_refl mem_Collect_eq)
  then show "((base, used, Suc k), (base, used, k)) \<in>
      measure (\<lambda>(base, used, k). card {j. k \<le> j \<and> candidate_name base j \<in> set used})"
    using psubset_card_mono [OF finite_candidates] by simp
qed simp

declare unique_from.simps [simp del]

definition unique_identifier :: "string \<Rightarrow> string list \<Rightarrow> string \<times> string list" where
  "unique_identifier base used = (let name = unique_from base used 0 in (name, name # used))"

definition sanitize_identifier :: "string \<Rightarrow> string" where
  "sanitize_identifier value =
     (let v = map (\<lambda>c. if ident_char c then c else CHR ''_'') value
      in if v = [] \<or> is_digit (hd v) then CHR ''_'' # v else v)"

section \<open>Debug locations\<close>

type_synonym source_location = "nat \<times> nat"

text \<open>The file, the line and the column of an instruction or a loop; the line and the file of a function.\<close>

record debug_info =
  debug_loc_of :: "value_id \<Rightarrow> (string \<times> nat \<times> nat) option"
  loop_start_of :: "loop_id \<Rightarrow> (string \<times> nat \<times> nat) option"
  subprogram_of :: "function_id \<Rightarrow> (string \<times> nat) option"

definition matching_location :: "string \<Rightarrow> (string \<times> nat \<times> nat) option \<Rightarrow> source_location option" where
  "matching_location input loc =
     (case loc of
        None \<Rightarrow> None
      | Some (file, line, column) \<Rightarrow>
          if debug_file_matches file input \<and> line \<noteq> 0 then Some (line, column) else None)"

definition source_location_of :: "debug_info \<Rightarrow> string \<Rightarrow> value_id \<Rightarrow> source_location option" where
  "source_location_of d input i = matching_location input (debug_loc_of d i)"

text \<open>Blanks, tabulators and carriage returns in front of a line.\<close>

definition is_blank :: "char \<Rightarrow> bool" where
  "is_blank c = (c = CHR '' '' \<or> c = CHR 0x09 \<or> c = CHR 0x0D)"

definition first_non_space_column :: "string \<Rightarrow> nat" where
  "first_non_space_column line =
     (if list_all is_blank line then 1 else Suc (length (takeWhile is_blank line)))"

definition identifier_boundary :: "string \<Rightarrow> nat \<Rightarrow> nat \<Rightarrow> bool" where
  "identifier_boundary line position len =
     ((position = 0 \<or> \<not> ident_char (line ! (position - 1))) \<and>
      (position + len = length line \<or> \<not> ident_char (line ! (position + len))))"

definition keyword_positions :: "string \<Rightarrow> string \<Rightarrow> nat list" where
  "keyword_positions line keyword =
     filter (\<lambda>p. starts_with (drop p line) keyword \<and> identifier_boundary line p (length keyword)) [0..<length line]"

definition column_distance :: "nat \<Rightarrow> nat \<Rightarrow> int" where
  "column_distance column p = \<bar>int (p + 1) - int column\<bar>"

definition closer_position :: "nat \<Rightarrow> nat \<Rightarrow> nat option \<Rightarrow> nat option" where
  "closer_position column p best =
     (case best of
        None \<Rightarrow> Some p
      | Some b \<Rightarrow> if column_distance column p < column_distance column b then Some p else Some b)"

definition loop_keyword_position :: "string \<Rightarrow> nat \<Rightarrow> nat option" where
  "loop_keyword_position line column =
     fold (closer_position column) (concat (map (keyword_positions line) [''for'', ''while'', ''do''])) None"

text \<open>The keyword of the loop on the line of its debug location, the closest one to its column.\<close>

definition loop_keyword_location ::
    "debug_info \<Rightarrow> llvm_module \<Rightarrow> loop_id \<Rightarrow> string \<Rightarrow> string list \<Rightarrow> source_location option" where
  "loop_keyword_location d m l input ls =
     (let start = matching_location input (loop_start_of d l);
          debug = (if start \<noteq> None then start else source_location_of d input (last (insts_of m (loop_header m l))))
      in case debug of
           None \<Rightarrow> None
         | Some (line, column) \<Rightarrow>
             if line > length ls then None
             else map_option (\<lambda>p. (line, p + 1)) (loop_keyword_position (ls ! (line - 1)) column))"

definition function_definition_location ::
    "debug_info \<Rightarrow> function_id \<Rightarrow> string \<Rightarrow> string list \<Rightarrow> source_location option" where
  "function_definition_location d f input ls =
     (case subprogram_of d f of
        None \<Rightarrow> None
      | Some (file, line) \<Rightarrow>
          if line = 0 \<or> line > length ls \<or> \<not> debug_file_matches file input then None
          else Some (line, first_non_space_column (ls ! (line - 1))))"

section \<open>The body of a loop and the statement before it\<close>

definition numbered :: "nat \<Rightarrow> nat \<Rightarrow> string \<Rightarrow> (source_location \<times> char) list" where
  "numbered line column s = map (\<lambda>(k, c). ((line, column + k), c)) (enumerate 0 s)"

definition text_from :: "source_location \<Rightarrow> string list \<Rightarrow> (source_location \<times> char) list" where
  "text_from loc ls =
     (case drop (fst loc - 1) ls of
        [] \<Rightarrow> []
      | first # rest \<Rightarrow>
          numbered (fst loc) (snd loc) (drop (snd loc - 1) first) @
          concat (map (\<lambda>(k, l). numbered (fst loc + k) 1 l) (enumerate 1 rest)))"

text \<open>The brace of the body, or the first character behind the parentheses of the loop.\<close>

fun body_scan :: "nat \<Rightarrow> bool \<Rightarrow> (source_location \<times> char) list \<Rightarrow> source_location option" where
  "body_scan depth opened [] = None"
| "body_scan depth opened ((loc, c) # rest) =
     (if c = CHR ''('' then body_scan (Suc depth) True rest
      else if c = CHR '')'' \<and> opened \<and> depth > 0 then body_scan (depth - 1) opened rest
      else if c = CHR ''{'' \<and> (\<not> opened \<or> depth = 0) then Some loc
      else if opened \<and> depth = 0 \<and> \<not> is_space c then Some loc
      else body_scan depth opened rest)"

definition loop_body_location :: "source_location \<Rightarrow> string list \<Rightarrow> source_location option" where
  "loop_body_location loc ls = body_scan 0 False (text_from loc ls)"

fun before_comment :: "string \<Rightarrow> string" where
  "before_comment (a # b # s) =
     (if a = CHR ''/'' \<and> b = CHR ''/'' then [] else a # before_comment (b # s))"
| "before_comment s = s"

text \<open>The closest line before the loop that ends a statement; a brace stops the search.\<close>

fun statement_before :: "string list \<Rightarrow> nat \<Rightarrow> source_location option" where
  "statement_before ls 0 = None"
| "statement_before ls (Suc k) =
     (let line = before_comment (ls ! k)
      in if list_all is_blank line then statement_before ls k
         else if CHR '';'' \<in> set line then Some (Suc k, first_non_space_column line)
         else if CHR ''{'' \<in> set line \<or> CHR ''}'' \<in> set line then None
         else statement_before ls k)"

definition pre_loop_statement_location :: "source_location \<Rightarrow> string list \<Rightarrow> source_location option" where
  "pre_loop_statement_location loc ls = statement_before ls (fst loc - 1)"

section \<open>The end of a call\<close>

datatype scan_mode = InCode | InString bool | InCharacter bool | InLineComment | InBlockComment

fun next_char :: "string \<Rightarrow> char" where
  "next_char [] = CHR 0x00"
| "next_char (c # s) = c"

text \<open>
  One step of the scanner on a character and the one behind it: the new mode, and whether the next character is
  consumed too.  The flag of a literal says that the character before was a backslash.
\<close>

definition scan_mode_step :: "scan_mode \<Rightarrow> char \<Rightarrow> char \<Rightarrow> scan_mode \<times> bool" where
  "scan_mode_step mode c d =
     (case mode of
        InLineComment \<Rightarrow> (if c = CHR 0x0A then InCode else InLineComment, False)
      | InBlockComment \<Rightarrow>
          if c = CHR ''*'' \<and> d = CHR ''/'' then (InCode, True) else (InBlockComment, False)
      | InString escaped \<Rightarrow>
          (if escaped then InString False
           else if c = CHR 0x5C then InString True
           else if c = CHR 0x22 then InCode
           else InString False, False)
      | InCharacter escaped \<Rightarrow>
          (if escaped then InCharacter False
           else if c = CHR 0x5C then InCharacter True
           else if c = CHR 0x27 then InCode
           else InCharacter False, False)
      | InCode \<Rightarrow>
          if c = CHR ''/'' \<and> d = CHR ''/'' then (InLineComment, True)
          else if c = CHR ''/'' \<and> d = CHR ''*'' then (InBlockComment, True)
          else if c = CHR 0x22 then (InString False, False)
          else if c = CHR 0x27 then (InCharacter False, False)
          else (InCode, False))"

text \<open>The place behind a character.\<close>

definition advance_place :: "char \<Rightarrow> source_location \<Rightarrow> source_location" where
  "advance_place c = (\<lambda>(line, column). if c = CHR 0x0A then (Suc line, 1) else (line, Suc column))"

text \<open>The two characters of a comment mark are consumed at once.  The count of open parentheses is positive
  when one was found.\<close>

function scan_call :: "scan_mode \<Rightarrow> nat \<Rightarrow> bool \<Rightarrow> source_location \<Rightarrow> string \<Rightarrow> source_location option" where
  "scan_call mode depth opened loc [] = None"
| "scan_call mode depth opened loc (c # s) =
     (let (mode', both) = scan_mode_step mode c (next_char s);
          loc' = advance_place c (if both then (fst loc, Suc (snd loc)) else loc);
          s' = (if both then tl s else s)
      in if mode = InCode \<and> c = CHR ''('' then scan_call mode' (Suc depth) True loc' s'
         else if mode = InCode \<and> c = CHR '')'' \<and> opened
         then (if depth = 1 then Some loc else scan_call mode' (depth - 1) opened loc' s')
         else scan_call mode' depth opened loc' s')"
  by pat_completeness auto

termination scan_call
  by (relation "measure (\<lambda>(mode, depth, opened, loc, s). length s)") auto

fun skip_lines :: "nat \<Rightarrow> nat \<Rightarrow> string \<Rightarrow> nat \<times> string" where
  "skip_lines target line [] = (line, [])"
| "skip_lines target line (c # s) =
     (if line < target then skip_lines target (if c = CHR 0x0A then Suc line else line) s else (line, c # s))"

fun skip_columns :: "nat \<Rightarrow> nat \<Rightarrow> string \<Rightarrow> (nat \<times> string) option" where
  "skip_columns target column [] = Some (column, [])"
| "skip_columns target column (c # s) =
     (if column < target then (if c = CHR 0x0A then None else skip_columns target (Suc column) s)
      else Some (column, c # s))"

definition function_return_location ::
    "debug_info \<Rightarrow> string \<Rightarrow> string option \<Rightarrow> value_id \<Rightarrow> source_location option" where
  "function_return_location d input file i =
     (case (source_location_of d input i, file) of
        (Some (line, column), Some text) \<Rightarrow>
          let (line', rest) = skip_lines line 1 text
          in case skip_columns (max 1 column) 1 rest of
               None \<Rightarrow> None
             | Some (column', rest') \<Rightarrow> scan_call InCode 0 False (line', column') rest'
      | _ \<Rightarrow> None)"

end
