(* ===== verification/Witness_Writer.thy ===== *)
theory Witness_Writer
  imports Witness_Source
begin

text \<open>
  The witnesses of lib/Witness.cpp: terms as C expressions, contracts of functions and invariants of
  loops with their ghost variables, and the YAML document.  The files, the digest, the random device
  and the clock are data of \<open>witness_env\<close>; the document is the value, written to the output when it
  can be.  The terms of this development have no reals, so the two casts do not occur.
\<close>

section \<open>Terms as C expressions\<close>

text \<open>
  A rendering is a text and whether every part of the term was supported; there is none where the solver raises an
  exception, as it does when a quantifier is asked for its declaration or an application for an argument it lacks.
  The flag is threaded through the parts in the order of the code.
\<close>

type_synonym rendering = "(string \<times> bool) option"

fun operator_text :: "z3op \<Rightarrow> string option" where
  "operator_text OAdd = Some ''+''"
| "operator_text OSub = Some ''-''"
| "operator_text OMul = Some ''*''"
| "operator_text OIDiv = Some ''/''"
| "operator_text OMod = Some ''%''"
| "operator_text ORem = Some ''%''"
| "operator_text OLe = Some ''<=''"
| "operator_text OLt = Some ''<''"
| "operator_text OGe = Some ''>=''"
| "operator_text OGt = Some ''>''"
| "operator_text OEq = Some ''==''"
| "operator_text OAnd = Some ''&&''"
| "operator_text OOr = Some ''||''"
| "operator_text _ = None"

definition constant_text :: "z3_api \<Rightarrow> (string \<rightharpoonup> string) \<Rightarrow> z3op \<Rightarrow> bool \<Rightarrow> string \<times> bool" where
  "constant_text z symbols f ok =
     (case f of
        OTrue \<Rightarrow> (''1'', ok)
      | OFalse \<Rightarrow> (''0'', ok)
      | ONum n \<Rightarrow> (z_string z (App f []), ok)
      | OBvNum n w \<Rightarrow> (z_string z (App f []), ok)
      | OUninterp x s \<Rightarrow> (case symbols x of Some name \<Rightarrow> (name, ok) | None \<Rightarrow> ([], False))
      | _ \<Rightarrow> ([], False))"

fun join_expression :: "z3_api \<Rightarrow> (string \<rightharpoonup> string) \<Rightarrow> z3expr \<Rightarrow> bool \<Rightarrow> rendering"
  and join_arguments :: "z3_api \<Rightarrow> (string \<rightharpoonup> string) \<Rightarrow> string \<Rightarrow> z3expr list \<Rightarrow> string \<Rightarrow> bool \<Rightarrow> rendering"
  and join_prefix :: "z3_api \<Rightarrow> (string \<rightharpoonup> string) \<Rightarrow> string \<Rightarrow> z3expr list \<Rightarrow> bool \<Rightarrow> rendering"
  and join_conditional :: "z3_api \<Rightarrow> (string \<rightharpoonup> string) \<Rightarrow> z3expr list \<Rightarrow> bool \<Rightarrow> rendering" where
  "join_expression z symbols (Quant q xs b) ok = None"
| "join_expression z symbols (App f es) ok =
     (if es = [] then Some (constant_text z symbols f ok)
      else case operator_text f of
          Some operator \<Rightarrow> join_arguments z symbols operator es ''('' ok
        | None \<Rightarrow>
            (case f of
               OUMinus \<Rightarrow> join_prefix z symbols ''(-'' es ok
             | ONot \<Rightarrow> join_prefix z symbols ''(!'' es ok
             | OIte \<Rightarrow> join_conditional z symbols es ok
             | _ \<Rightarrow> Some ([], False)))"
| "join_arguments z symbols operator [] out ok = Some (out @ '')'', ok)"
| "join_arguments z symbols operator (e # es) out ok =
     (case join_expression z symbols e ok of
        None \<Rightarrow> None
      | Some (t, ok') \<Rightarrow>
          if \<not> ok' then Some ([], False)
          else join_arguments z symbols operator es
                 (out @ t @ (if es = [] then [] else '' '' @ operator @ '' '')) ok')"
| "join_prefix z symbols prefix [] ok = None"
| "join_prefix z symbols prefix (e # es) ok =
     map_option (\<lambda>(t, ok'). (prefix @ t @ '')'', ok')) (join_expression z symbols e ok)"
| "join_conditional z symbols (c # a # b # es) ok =
     (case join_expression z symbols c ok of
        None \<Rightarrow> None
      | Some (t1, ok1) \<Rightarrow>
          (case join_expression z symbols a ok1 of
             None \<Rightarrow> None
           | Some (t2, ok2) \<Rightarrow>
               (case join_expression z symbols b ok2 of
                  None \<Rightarrow> None
                | Some (t3, ok3) \<Rightarrow>
                    Some (if ok3 then (''('' @ t1 @ '' ? '' @ t2 @ '' : '' @ t3 @ '')'', ok3) else ([], ok3)))))"
| "join_conditional z symbols es ok = None"

text \<open>The text of a term all of whose parts are supported, if it is not empty.\<close>

definition c_text_of :: "z3_api \<Rightarrow> (string \<rightharpoonup> string) \<Rightarrow> z3expr \<Rightarrow> string option option" where
  "c_text_of z symbols e =
     map_option (\<lambda>(t, ok). if ok \<and> t \<noteq> [] then Some t else None) (join_expression z symbols e True)"

fun separated :: "string \<Rightarrow> string list \<Rightarrow> string" where
  "separated sep [] = []"
| "separated sep [w] = w"
| "separated sep (w # ws) = w @ sep @ separated sep ws"

section \<open>Contracts of functions\<close>

record certificate =
  generated_invariants :: "(source_location \<times> string) list"
  generated_contracts :: "(source_location \<times> string) list"
  ghost_variables :: "(string \<times> string) list"
  ghost_updates :: "(source_location \<times> (string \<times> string) list) list"

definition empty_certificate :: certificate where
  "empty_certificate = \<lparr>generated_invariants = [], generated_contracts = [], ghost_variables = [], ghost_updates = []\<rparr>"

fun constant_name :: "z3expr \<Rightarrow> string option" where
  "constant_name (App (OUninterp x s) []) = Some x"
| "constant_name _ = None"

text \<open>The parameters as the values at the start; no contract when one is not a constant of the program or two are the
  same.\<close>

definition parameter_symbols :: "(string \<times> z3expr) list \<Rightarrow> (string \<times> string) list option" where
  "parameter_symbols ps =
     (case those (map (\<lambda>(name, s). map_option (\<lambda>x. (x, [CHR 0x5C] @ ''at('' @ name @ '', Old)'')) (constant_name s)) ps) of
        None \<Rightarrow> None
      | Some symbols \<Rightarrow> if distinct (map fst symbols) then Some symbols else None)"

definition function_contract ::
    "z3_api \<Rightarrow> debug_info \<Rightarrow> string \<Rightarrow> string list \<Rightarrow> function_certificate \<Rightarrow> (source_location \<times> string) list option" where
  "function_contract z d input ls c =
     (case (function_definition_location d (cert_function c) input ls, parameter_symbols (cert_parameters c)) of
        (Some loc, Some symbols) \<Rightarrow>
          map_option (\<lambda>r. case r of None \<Rightarrow> [] | Some t \<Rightarrow> [(loc, [CHR 0x5C] @ ''result == '' @ t)])
            (c_text_of z (map_of symbols) (cert_result c))
      | _ \<Rightarrow> Some [])"

section \<open>Invariants of loops\<close>

definition iteration_symbol :: "z3expr" where "iteration_symbol = z_int_const ''ari_loop_n''"

text \<open>The names that are used, the new ghost variables, the values they start with and the conjuncts.\<close>

record loop_ghosts =
  used_names :: "string list"
  new_ghosts :: "(string \<times> string) list"
  initial_values :: "(string \<times> string) list"
  conjuncts :: "string list"

definition closed_constant :: "z3expr \<Rightarrow> bool" where
  "closed_constant e = (is_numeral e \<or> e = z_true \<or> e = z_false)"

text \<open>The closed form of a variable over the ghost of its first value, unless that value is a constant.\<close>

definition normalized_form :: "z3_api \<Rightarrow> string \<Rightarrow> z3expr \<Rightarrow> z3expr \<Rightarrow> z3expr" where
  "normalized_form z ghost base e = z_simplify z (substitute [(base, z_int_const ghost)] e)"

definition initial_ghost_name :: "string \<Rightarrow> string \<Rightarrow> string" where
  "initial_ghost_name prefix name = prefix @ ''_'' @ sanitize_identifier name @ ''_initial''"

definition add_conjunct :: "string \<Rightarrow> string option \<Rightarrow> loop_ghosts \<Rightarrow> loop_ghosts" where
  "add_conjunct name r g =
     (case r of
        None \<Rightarrow> g
      | Some t \<Rightarrow> g\<lparr>conjuncts := conjuncts g @ [''('' @ name @ '' == '' @ t @ '')'']\<rparr>)"

definition add_variable ::
    "z3_api \<Rightarrow> string \<Rightarrow> string \<Rightarrow> value_id \<times> string \<times> string \<times> z3expr \<Rightarrow> loop_ghosts \<Rightarrow> loop_ghosts option" where
  "add_variable z prefix iteration = (\<lambda>(v, name, ty, e) g.
     let base = z_simplify z (substitute [(iteration_symbol, z_int 0)] e);
         symbols = [''ari_loop_n'' \<mapsto> iteration];
         (ghost, used) = unique_identifier (initial_ghost_name prefix name) (used_names g);
         (form, symbols', g') =
           (if closed_constant base then (e, symbols, g)
            else (normalized_form z ghost base e, symbols(ghost \<mapsto> ghost),
                  g\<lparr>used_names := used, new_ghosts := new_ghosts g @ [(ghost, ty)],
                    initial_values := initial_values g @ [(ghost, name)]\<rparr>))
     in map_option (\<lambda>r. add_conjunct name r g') (c_text_of z symbols' form))"

fun add_variables ::
    "z3_api \<Rightarrow> string \<Rightarrow> string \<Rightarrow> (value_id \<times> string \<times> string \<times> z3expr) list \<Rightarrow> loop_ghosts \<Rightarrow> loop_ghosts option" where
  "add_variables z prefix iteration [] g = Some g"
| "add_variables z prefix iteration (v # vs) g =
     Option.bind (add_variable z prefix iteration v g) (add_variables z prefix iteration vs)"

definition start_ghosts :: "string \<Rightarrow> string list \<Rightarrow> loop_ghosts" where
  "start_ghosts iteration used =
     \<lparr>used_names = used, new_ghosts = [(iteration, ''unsigned long long'')], initial_values = [(iteration, ''0'')],
      conjuncts = [iteration @ '' >= 0'']\<rparr>"

text \<open>A loop without any equation adds nothing, but its names stay used and its number taken.\<close>

definition add_loop ::
    "z3_api \<Rightarrow> debug_info \<Rightarrow> llvm_module \<Rightarrow> string \<Rightarrow> string list \<Rightarrow> loop_certificate \<Rightarrow>
     nat \<times> string list \<times> certificate \<Rightarrow> (nat \<times> string list \<times> certificate) option" where
  "add_loop z d m input ls c = (\<lambda>(index, used, r).
     case loop_keyword_location d m (cert_loop c) input ls of
       None \<Rightarrow> Some (index, used, r)
     | Some loc \<Rightarrow>
         (case (cert_variables c = [], loop_body_location loc ls, pre_loop_statement_location loc ls) of
            (False, Some body, Some before) \<Rightarrow>
              let prefix = ''arithexe_loop_'' @ nat_to_string index;
                  (iteration, used') = unique_identifier (prefix @ ''_iteration'') used
              in Option.bind (add_variables z prefix iteration (cert_variables c) (start_ghosts iteration used')) (\<lambda>g.
                   if length (conjuncts g) = 1 then Some (Suc index, used_names g, r)
                   else Some (Suc index, used_names g,
                     r\<lparr>generated_invariants := generated_invariants r @ [(loc, separated '' && '' (conjuncts g))],
                       ghost_variables := ghost_variables r @ new_ghosts g,
                       ghost_updates := ghost_updates r @
                         [(before, initial_values g), (body, [(iteration, iteration @ '' + 1'')])]\<rparr>))
          | _ \<Rightarrow> Some (index, used, r)))"

fun add_loops ::
    "z3_api \<Rightarrow> debug_info \<Rightarrow> llvm_module \<Rightarrow> string \<Rightarrow> string list \<Rightarrow> loop_certificate list \<Rightarrow>
     nat \<times> string list \<times> certificate \<Rightarrow> certificate option" where
  "add_loops z d m input ls [] st = Some (snd (snd st))"
| "add_loops z d m input ls (c # cs) st =
     Option.bind (add_loop z d m input ls c st) (add_loops z d m input ls cs)"

definition build_correctness_certificate ::
    "z3_api \<Rightarrow> debug_info \<Rightarrow> llvm_module \<Rightarrow> string \<Rightarrow> string option \<Rightarrow> loop_certificate list \<Rightarrow>
     function_certificate list \<Rightarrow> certificate option" where
  "build_correctness_certificate z d m input file loops functions =
     (let ls = read_source_lines file
      in Option.bind (those (map (function_contract z d input ls) functions)) (\<lambda>contracts.
           add_loops z d m input ls loops
             (0, source_identifiers ls, empty_certificate\<lparr>generated_contracts := concat contracts\<rparr>)))"

section \<open>The document\<close>

record witness_options =
  output_path :: string
  input_file :: string
  specification_text :: string
  data_model :: string
  producer_name :: string
  producer_version :: string
  integer_relaxed_32bit :: bool

text \<open>
  What the writer is given besides its options: the solver, the module and its debug information, the
  contents of the files, the digest of a content, the words of the random device in the order they are
  drawn, the clock at each reading, and whether the output can be opened and is written.
\<close>

record witness_env =
  we_z3 :: z3_api
  we_module :: llvm_module
  we_debug :: debug_info
  we_file :: "string \<Rightarrow> string option"
  we_sha256 :: "string \<Rightarrow> nat list"
  we_device :: "nat \<Rightarrow> 32 word"
  we_clock :: "nat \<Rightarrow> utc_time"
  we_can_open :: "string \<Rightarrow> bool"
  we_written :: bool

definition quoted :: "string \<Rightarrow> string" where "quoted s = [CHR 0x22] @ s @ [CHR 0x22]"

text \<open>The metadata of the entry with the given number in the document.\<close>

definition metadata_lines :: "witness_env \<Rightarrow> witness_options \<Rightarrow> string \<Rightarrow> nat \<Rightarrow> string list" where
  "metadata_lines W opts hash k =
     [''  metadata:'',
      ''    format_version: '' @ quoted ''2.1'',
      ''    uuid: '' @ yaml_quote (make_uuid_v4 (\<lambda>i. we_device W (16 * k + i))),
      ''    creation_time: '' @ yaml_quote (creation_time (we_clock W k)),
      ''    producer:'',
      ''      name: '' @ yaml_quote (producer_name opts),
      ''      version: '' @ yaml_quote (producer_version opts),
      ''      configuration: '' @
         yaml_quote (if integer_relaxed_32bit opts then ''integer-relaxed-all-widths'' else ''svcomp''),
      ''    task:'',
      ''      input_files:'',
      ''        - '' @ yaml_quote (input_file opts),
      ''      input_file_hashes:'',
      ''        '' @ yaml_quote (input_file opts) @ '': '' @ yaml_quote hash,
      ''      specification: '' @ yaml_quote (specification_text opts),
      ''      data_model: '' @ yaml_quote (data_model opts),
      ''      language: '' @ quoted ''C'']"

definition location_lines :: "witness_options \<Rightarrow> source_location \<Rightarrow> nat \<Rightarrow> string list" where
  "location_lines opts loc indentation =
     (let spaces = replicate indentation CHR '' ''
      in [spaces @ ''file_name: '' @ yaml_quote (input_file opts), spaces @ ''line: '' @ nat_to_string (fst loc)] @
         (if snd loc > 0 then [spaces @ ''column: '' @ nat_to_string (snd loc)] else []))"

definition contract_lines :: "witness_options \<Rightarrow> source_location \<times> string \<Rightarrow> string list" where
  "contract_lines opts = (\<lambda>(loc, ensures).
     [''    - contract:'', ''        type: '' @ quoted ''function_contract'', ''        location:''] @
     location_lines opts loc 10 @
     [''        ensures: '' @ yaml_quote ensures, ''        format: '' @ quoted ''ext_c_expression''])"

definition invariant_lines :: "witness_options \<Rightarrow> string \<Rightarrow> source_location \<times> string \<Rightarrow> string list" where
  "invariant_lines opts ty = (\<lambda>(loc, text).
     [''    - invariant:'', ''        type: '' @ quoted ty, ''        location:''] @
     location_lines opts loc 10 @
     [''        value: '' @ yaml_quote text, ''        format: '' @ quoted ''c_expression''])"

definition ghost_variable_lines :: "string \<times> string \<Rightarrow> string list" where
  "ghost_variable_lines = (\<lambda>(name, ty).
     [''      - name: '' @ yaml_quote name, ''        type: '' @ yaml_quote ty,
      ''        scope: '' @ quoted ''global'', ''        initial:'',
      ''          value: '' @ quoted ''0'', ''          format: '' @ quoted ''c_expression''])"

definition ghost_update_lines :: "witness_options \<Rightarrow> source_location \<times> (string \<times> string) list \<Rightarrow> string list" where
  "ghost_update_lines opts = (\<lambda>(loc, assignments).
     [''      - location:''] @ location_lines opts loc 10 @ [''        updates:''] @
     concat (map (\<lambda>(variable, val).
         [''          - variable: '' @ yaml_quote variable, ''            value: '' @ yaml_quote val,
          ''            format: '' @ quoted ''c_expression'']) assignments))"

definition correctness_lines ::
    "witness_env \<Rightarrow> witness_options \<Rightarrow> string \<Rightarrow> certificate \<Rightarrow> source_location list \<Rightarrow> string list" where
  "correctness_lines W opts hash c targets =
     [''- entry_type: '' @ quoted ''invariant_set''] @ metadata_lines W opts hash 0 @ [''  content:''] @
     concat (map (contract_lines opts) (generated_contracts c)) @
     concat (map (invariant_lines opts ''loop_invariant'') (generated_invariants c)) @
     concat (map (\<lambda>loc. invariant_lines opts ''location_invariant'' (loc, ''0'')) targets) @
     (if ghost_variables c = [] then []
      else [''- entry_type: '' @ quoted ''ghost_instrumentation''] @ metadata_lines W opts hash 1 @
           [''  content:'', ''    ghost_variables:''] @ concat (map ghost_variable_lines (ghost_variables c)) @
           [''    ghost_updates:''] @ concat (map (ghost_update_lines opts) (ghost_updates c)))"

definition waypoint_lines :: "witness_options \<Rightarrow> string \<times> source_location \<Rightarrow> string list" where
  "waypoint_lines opts = (\<lambda>(val, loc).
     [''    - segment:'', ''        - waypoint:'', ''            type: '' @ quoted ''function_return'',
      ''            action: '' @ quoted ''follow'', ''            constraint:'',
      ''              value: '' @ yaml_quote ([CHR 0x5C] @ ''result == '' @ val),
      ''              format: '' @ quoted ''ext_c_expression'', ''            location:''] @
     location_lines opts loc 14)"

definition violation_lines ::
    "witness_env \<Rightarrow> witness_options \<Rightarrow> string \<Rightarrow> (string \<times> source_location) list \<Rightarrow> source_location \<Rightarrow> string list" where
  "violation_lines W opts hash inputs target =
     [''- entry_type: '' @ quoted ''violation_sequence''] @ metadata_lines W opts hash 0 @ [''  content:''] @
     concat (map (waypoint_lines opts) inputs) @
     [''    - segment:'', ''        - waypoint:'', ''            type: '' @ quoted ''target'',
      ''            action: '' @ quoted ''follow'', ''            location:''] @ location_lines opts target 14"

definition relaxed_lines :: "witness_options \<Rightarrow> string list" where
  "relaxed_lines opts =
     (if integer_relaxed_32bit opts
      then [''# Experimental witness: all-width integer-relaxed analysis.'',
            ''# Arithmetic bounds and comparison normalization were skipped.'',
            ''# Not independently certified under fixed-width C semantics.'']
      else [])"

section \<open>Targets, inputs and the writer\<close>

definition is_error_function :: "string \<Rightarrow> bool" where
  "is_error_function name = (contains_str name ''reach_error'' \<or> name = ''__VERIFIER_error'')"

definition called_directly :: "llvm_module \<Rightarrow> value_id option \<Rightarrow> function_id option" where
  "called_directly m i =
     (case map_option (kind_of m) i of Some (Inst (Call f _)) \<Rightarrow> f | _ \<Rightarrow> None)"

definition is_error_call :: "llvm_module \<Rightarrow> value_id \<Rightarrow> bool" where
  "is_error_call m i =
     (case called_directly m (Some i) of Some f \<Rightarrow> is_error_function (func_name m f) | None \<Rightarrow> False)"

definition instructions_of_function :: "llvm_module \<Rightarrow> function_id \<Rightarrow> value_id list" where
  "instructions_of_function m f = concat (map (insts_of m) (blocks_of m f))"

definition find_error_calls :: "llvm_module \<Rightarrow> value_id list" where
  "find_error_calls m = filter (is_error_call m) (concat (map (instructions_of_function m) (all_functions m)))"

definition find_error_call_in :: "llvm_module \<Rightarrow> function_id \<Rightarrow> value_id option" where
  "find_error_call_in m f = find (is_error_call m) (instructions_of_function m f)"

text \<open>The located error calls, or the location of the violation when there is none.\<close>

definition target_locations :: "witness_env \<Rightarrow> string \<Rightarrow> value_id option \<Rightarrow> source_location list" where
  "target_locations W input violation =
     (let at = source_location_of (we_debug W) input;
          located = List.map_filter at (find_error_calls (we_module W))
      in if located = [] then List.map_filter at (case violation of None \<Rightarrow> [] | Some i \<Rightarrow> [i]) else located)"

text \<open>Where each input is returned, looked up once for each call; none where a call is not found in the text.\<close>

fun locate_inputs ::
    "(value_id \<Rightarrow> source_location option) \<Rightarrow> (value_id \<times> source_location option) list \<Rightarrow>
     (value_id \<times> string) list \<Rightarrow> (string \<times> source_location) list option" where
  "locate_inputs find_location cache [] = Some []"
| "locate_inputs find_location cache ((i, val) # inputs) =
     (let cache' = (case map_of cache i of Some _ \<Rightarrow> cache | None \<Rightarrow> (i, find_location i) # cache)
      in case map_of cache' i of
           Some (Some loc) \<Rightarrow> map_option ((#) (val, loc)) (locate_inputs find_location cache' inputs)
         | _ \<Rightarrow> None)"

text \<open>The error call inside a function that the violation calls, or the violation itself.\<close>

definition violation_target :: "llvm_module \<Rightarrow> value_id option \<Rightarrow> value_id option" where
  "violation_target m violation =
     (case called_directly m violation of
        None \<Rightarrow> violation
      | Some f \<Rightarrow>
          if is_error_function (func_name m f) then violation
          else case find_error_call_in m f of Some i \<Rightarrow> Some i | None \<Rightarrow> violation)"

datatype witness_failure = WitnessError string | SolverException

definition finish_output :: "witness_env \<Rightarrow> witness_options \<Rightarrow> string list \<Rightarrow> witness_failure + string" where
  "finish_output W opts ls =
     (if \<not> we_can_open W (output_path opts)
      then Inl (WitnessError (''cannot open witness output: '' @ output_path opts))
      else if \<not> we_written W
      then Inl (WitnessError (''failed while writing witness output: '' @ output_path opts))
      else Inr (concat (map (\<lambda>l. l @ [CHR 0x0A]) (relaxed_lines opts @ ls))))"

text \<open>\<open>WitnessWriter::write\<close>: the message of the failure, or the contents of the output.\<close>

definition write_witness ::
    "witness_env \<Rightarrow> witness_options \<Rightarrow> veri_result \<Rightarrow> value_id option \<Rightarrow> (value_id \<times> string) list \<Rightarrow>
     loop_certificate list \<Rightarrow> function_certificate list \<Rightarrow> witness_failure + string" where
  "write_witness W opts result violation inputs loops functions =
     (let m = we_module W; d = we_debug W; input = input_file opts; file = we_file W input
      in if result = VERIUNKNOWN then Inl (WitnessError ''no witness is defined for an UNKNOWN result'')
         else if data_model opts \<noteq> ''ILP32'' \<and> data_model opts \<noteq> ''LP64''
         then Inl (WitnessError ''data model must be ILP32 or LP64'')
         else case file of
             None \<Rightarrow> Inl (WitnessError (''cannot read input file for SHA-256: '' @ input))
           | Some text \<Rightarrow>
               let hash = sha256_hex (we_sha256 W text); targets = target_locations W input violation
               in if targets = []
                  then Inl (WitnessError (''cannot find a source-level error location in '' @ input))
                  else if result = HOLD
                  then (case build_correctness_certificate (we_z3 W) d m input file loops functions of
                          None \<Rightarrow> Inl SolverException
                        | Some c \<Rightarrow> finish_output W opts (correctness_lines W opts hash c targets))
                  else (case locate_inputs (function_return_location d input file) [] inputs of
                          None \<Rightarrow> Inl (WitnessError (''cannot locate the closing parenthesis of a nondeterministic '' @
                                    ''call in '' @ input))
                        | Some located \<Rightarrow>
                            let target = Option.bind (violation_target m violation) (source_location_of d input)
                            in finish_output W opts (violation_lines W opts hash located
                                 (case target of Some loc \<Rightarrow> loc | None \<Rightarrow> hd targets))))"

end
