(* ===== verification/Witness_Text_Correctness.thy ===== *)
theory Witness_Text_Correctness
  imports Witness_Writer
begin

text \<open>
  The scalars and the places of a witness: a quoted scalar reads back as the text it was made of, an
  identifier has the shape of version four, a new name is not used, and the place where a call returns is
  the parenthesis that closes the first one in the code behind the start of the call.
\<close>

section \<open>Quoted scalars\<close>

definition hex_value :: "char \<Rightarrow> nat" where
  "hex_value c = (if is_digit c then of_char c - 48 else of_char c - 87)"

lemma hex_value_digit: "n < 16 \<Longrightarrow> hex_value (hex_digit n) = n"
  by (auto simp: hex_value_def hex_digit_def is_digit_def of_char_of)

text \<open>A scalar in double quotes, read up to its closing quote.\<close>

function yaml_body :: "string \<Rightarrow> (string \<times> string) option" where
  "yaml_body [] = None"
| "yaml_body (c # s) =
     (if c = CHR 0x22 then Some ([], s)
      else if c \<noteq> CHR 0x5C then map_option (apfst ((#) c)) (yaml_body s)
      else case s of
          [] \<Rightarrow> None
        | e # t \<Rightarrow>
            if e = CHR ''x''
            then (case t of
                    h # l # u \<Rightarrow> map_option (apfst ((#) (char_of (16 * hex_value h + hex_value l)))) (yaml_body u)
                  | _ \<Rightarrow> None)
            else if e = CHR ''n'' then map_option (apfst ((#) (CHR 0x0A))) (yaml_body t)
            else if e = CHR ''r'' then map_option (apfst ((#) (CHR 0x0D))) (yaml_body t)
            else if e = CHR ''t'' then map_option (apfst ((#) (CHR 0x09))) (yaml_body t)
            else map_option (apfst ((#) e)) (yaml_body t))"
  by pat_completeness auto

termination yaml_body
  by (relation "measure length") auto

definition yaml_unquote :: "string \<Rightarrow> (string \<times> string) option" where
  "yaml_unquote s = (case s of c # t \<Rightarrow> if c = CHR 0x22 then yaml_body t else None | [] \<Rightarrow> None)"

lemma of_char_less: "(of_char c :: nat) < 256"
  by (metis of_char_mod_256 mod_less_divisor zero_less_numeral)

lemma yaml_body_char: "yaml_body (yaml_char c @ s) = map_option (apfst ((#) c)) (yaml_body s)"
proof -
  have "yaml_body ([CHR 0x5C, CHR ''x''] @ hex_byte (of_char c) @ s) = map_option (apfst ((#) c)) (yaml_body s)"
  proof -
    have "(of_char c :: nat) div 16 < 16" using of_char_less [of c] by (simp add: less_mult_imp_div_less)
    then show ?thesis by (simp add: hex_byte_def hex_value_digit)
  qed
  then show ?thesis by (auto simp: yaml_char_def)
qed

lemma yaml_body_chars: "yaml_body (concat (map yaml_char s) @ CHR 0x22 # rest) = Some (s, rest)"
  by (induction s) (simp_all add: yaml_body_char)

text \<open>C27: A scalar of the witness, whatever characters it has, reads back as the text it was made of, up to its
  closing quote and no further.\<close>

theorem yaml_quote_roundtrip: "yaml_unquote (yaml_quote s @ rest) = Some (s, rest)"
  by (simp add: yaml_unquote_def yaml_quote_def yaml_body_chars)

text \<open>The identifier of an entry has 36 characters, its version and its variant.\<close>

lemma length_hex_byte [simp]: "length (hex_byte n) = 2"
  by (simp add: hex_byte_def)

lemma make_uuid_v4_parts:
  "make_uuid_v4 r = concat (map (\<lambda>i. hex_byte (unat (uuid_byte r i))) [0, 1, 2, 3]) @ ''-'' @
     concat (map (\<lambda>i. hex_byte (unat (uuid_byte r i))) [4, 5]) @ ''-'' @
     concat (map (\<lambda>i. hex_byte (unat (uuid_byte r i))) [6, 7]) @ ''-'' @
     concat (map (\<lambda>i. hex_byte (unat (uuid_byte r i))) [8, 9]) @ ''-'' @
     concat (map (\<lambda>i. hex_byte (unat (uuid_byte r i))) [10, 11, 12, 13, 14, 15])"
proof -
  have "[0..<16] = [0, 1, 2, 3, 4, 5, 6, 7, 8, 9, 10, 11, 12, 13, 14, 15]" by code_simp
  then show ?thesis by (simp add: make_uuid_v4_def)
qed

lemma uuid_version: "unat (uuid_byte r 6) div 16 = 4" and uuid_variant: "unat (uuid_byte r 8) div 16 \<in> {8..11}"
proof -
  have high: "b div 16 = drop_bit 4 b" for b :: nat
    by (simp add: drop_bit_eq_div)
  have masks: "x AND 15 = take_bit 4 x" "x AND 63 = take_bit 6 x" for x :: nat
    by (simp_all add: take_bit_eq_mask mask_eq_exp_minus_1)
  show "unat (uuid_byte r 6) div 16 = 4"
    by (simp add: uuid_byte_def high unsigned_or_eq unsigned_and_eq masks drop_bit_or drop_bit_take_bit)
  have "x < 4 \<Longrightarrow> x OR 8 \<in> {8..11}" for x :: nat
  proof -
    assume "x < 4"
    then consider "x = 0" | "x = 1" | "x = 2" | "x = 3" by linarith
    then show ?thesis by cases simp_all
  qed
  moreover have "take_bit 2 x < 4" for x :: nat
    using take_bit_nat_less_exp [of 2 x] by simp
  ultimately show "unat (uuid_byte r 8) div 16 \<in> {8..11}"
    by (simp add: uuid_byte_def high unsigned_or_eq unsigned_and_eq masks drop_bit_or drop_bit_take_bit)
qed

theorem uuid_shape:
  "length (make_uuid_v4 r) = 36 \<and> make_uuid_v4 r ! 14 = CHR ''4'' \<and> make_uuid_v4 r ! 19 \<in> set ''89ab''"
proof -
  have "hex_digit 4 = CHR ''4''" by code_simp
  moreover have "hex_digit n \<in> set ''89ab''" if n: "n \<in> {8..11}" for n
  proof -
    consider "n = 8" | "n = 9" | "n = 10" | "n = 11" using n by force
    moreover have "hex_digit 8 = CHR ''8''" "hex_digit 9 = CHR ''9''" "hex_digit 10 = CHR ''a''" "hex_digit 11 = CHR ''b''"
      by code_simp+
    ultimately show ?thesis by cases simp_all
  qed
  ultimately show ?thesis
    using uuid_version [of r] uuid_variant [of r] by (simp add: make_uuid_v4_parts hex_byte_def)
qed

section \<open>New names\<close>

lemma unique_from_fresh: "unique_from base used k \<notin> set used"
  by (induction base used k rule: unique_from.induct) (subst unique_from.simps, simp)

lemma unique_from_first:
  "\<exists>j\<ge>k. unique_from base used k = candidate_name base j \<and> (\<forall>i. k \<le> i \<and> i < j \<longrightarrow> candidate_name base i \<in> set used)"
proof (induction base used k rule: unique_from.induct)
  case (1 base used k)
  show ?case
  proof (cases "candidate_name base k \<in> set used")
    case True
    then obtain j where "j \<ge> Suc k" "unique_from base used (Suc k) = candidate_name base j"
        "\<forall>i. Suc k \<le> i \<and> i < j \<longrightarrow> candidate_name base i \<in> set used"
      using 1 by blast
    then show ?thesis using True by (subst unique_from.simps) (metis Suc_leD Suc_leI le_neq_implies_less)
  next
    case False
    then show ?thesis by (subst unique_from.simps) auto
  qed
qed


section \<open>The end of a call\<close>

text \<open>The characters of a text that are code, with their places, and the parenthesis that closes the first one.\<close>

function code_chars :: "scan_mode \<Rightarrow> source_location \<Rightarrow> string \<Rightarrow> (source_location \<times> char) list" where
  "code_chars mode loc [] = []"
| "code_chars mode loc (c # s) =
     (let (mode', both) = scan_mode_step mode c (next_char s);
          loc' = advance_place c (if both then (fst loc, Suc (snd loc)) else loc)
      in (if mode = InCode then [(loc, c)] else []) @ code_chars mode' loc' (if both then tl s else s))"
  by pat_completeness auto

termination code_chars
  by (relation "measure (\<lambda>(mode, loc, s). length s)") auto

fun closing :: "nat \<Rightarrow> bool \<Rightarrow> (source_location \<times> char) list \<Rightarrow> source_location option" where
  "closing depth opened [] = None"
| "closing depth opened ((loc, c) # ts) =
     (if c = CHR ''('' then closing (Suc depth) True ts
      else if c = CHR '')'' \<and> opened then (if depth = 1 then Some loc else closing (depth - 1) opened ts)
      else closing depth opened ts)"

lemma scan_call_closing: "scan_call mode depth opened loc s = closing depth opened (code_chars mode loc s)"
  by (induction mode depth opened loc s rule: scan_call.induct) (auto simp: Let_def split: prod.splits)

text \<open>Code in which every parenthesis has its partner.\<close>

inductive balanced :: "(source_location \<times> char) list \<Rightarrow> bool" where
  balanced_Nil: "balanced []"
| balanced_char: "c \<noteq> CHR ''('' \<Longrightarrow> c \<noteq> CHR '')'' \<Longrightarrow> balanced ts \<Longrightarrow> balanced ((loc, c) # ts)"
| balanced_nest: "balanced ts \<Longrightarrow> balanced us \<Longrightarrow> balanced ((p, CHR ''('') # ts @ (q, CHR '')'') # us)"

lemma closing_balanced:
  "balanced ts \<Longrightarrow> closing (Suc depth) True (ts @ us) = closing (Suc depth) True us"
proof (induction ts arbitrary: depth us rule: balanced.induct)
  case (balanced_nest ts vs p q)
  then show ?case using balanced_nest.IH(1) [of "Suc depth" "(q, CHR '')'') # vs @ us"] by simp
qed simp_all

lemma closing_splits:
  "closing (Suc depth) True ts = Some loc \<Longrightarrow>
   \<exists>mid p post. ts = mid @ (p, CHR '')'') # post \<and> balanced mid \<and>
     (if depth = 0 then p = loc else closing depth True post = Some loc)"
proof (induction "length ts" arbitrary: depth ts rule: less_induct)
  case less
  obtain q c us where ts: "ts = (q, c) # us" using less.prems by (cases ts) auto
  show ?case
  proof (cases "c = CHR '')''")
    case True
    have "if depth = 0 then q = loc else closing depth True us = Some loc"
      using less.prems unfolding ts True by (simp split: if_splits)
    moreover have "ts = [] @ (q, CHR '')'') # us" using ts True by simp
    ultimately show ?thesis using balanced_Nil by blast
  next
    case False
    show ?thesis
    proof (cases "c = CHR ''(''")
      case True
      obtain mid p post where first: "us = mid @ (p, CHR '')'') # post" "balanced mid" "closing (Suc depth) True post = Some loc"
        using less.hyps [of us "Suc depth"] less.prems unfolding ts True by simp blast
      obtain mid' p' post' where second: "post = mid' @ (p', CHR '')'') # post'" "balanced mid'"
          "if depth = 0 then p' = loc else closing depth True post' = Some loc"
        using less.hyps [of post depth] first(3) unfolding ts first(1) by simp blast
      have "ts = ((q, CHR ''('') # mid @ (p, CHR '')'') # mid') @ (p', CHR '')'') # post'"
        using ts True first(1) second(1) by simp
      then show ?thesis using balanced_nest [OF first(2) second(2)] second(3) by blast
    next
      case other: False
      obtain mid p post where "us = mid @ (p, CHR '')'') # post" "balanced mid"
          "if depth = 0 then p = loc else closing depth True post = Some loc"
        using less.hyps [of us depth] less.prems False other unfolding ts by simp blast
      moreover have "ts = ((q, c) # mid) @ (p, CHR '')'') # post" using ts calculation(1) by simp
      ultimately show ?thesis using balanced_char [OF other False] by blast
    qed
  qed
qed

lemma closing_unopened: "\<forall>(p, c)\<in>set ts. c \<noteq> CHR ''('' \<Longrightarrow> closing 0 False (ts @ us) = closing 0 False us"
  by (induction ts) auto

lemma closing_exact:
  "closing 0 False ts = Some loc \<longleftrightarrow>
   (\<exists>pre p mid post. ts = pre @ (p, CHR ''('') # mid @ (loc, CHR '')'') # post \<and>
      (\<forall>(q, c)\<in>set pre. c \<noteq> CHR ''('') \<and> balanced mid)"
  (is "_ = ?split ts")
proof
  show "closing 0 False ts = Some loc \<Longrightarrow> ?split ts"
  proof (induction ts)
    case (Cons t us)
    obtain q c where t: "t = (q, c)" by fastforce
    show ?case
    proof (cases "c = CHR ''(''")
      case True
      then obtain mid p post where "us = mid @ (p, CHR '')'') # post" "balanced mid" "p = loc"
        using closing_splits [of 0 us loc] Cons.prems t by auto
      then have "t # us = [] @ (q, CHR ''('') # mid @ (loc, CHR '')'') # post" using t True by simp
      then show ?thesis using \<open>balanced mid\<close> by fastforce
    next
      case False
      then obtain pre p mid post where split: "us = pre @ (p, CHR ''('') # mid @ (loc, CHR '')'') # post"
          "\<forall>(q, c)\<in>set pre. c \<noteq> CHR ''(''" "balanced mid"
        using Cons t by auto
      have "t # us = (t # pre) @ (p, CHR ''('') # mid @ (loc, CHR '')'') # post" using split(1) by simp
      moreover have "\<forall>(q, c)\<in>set (t # pre). c \<noteq> CHR ''(''" using split(2) t False by simp
      ultimately show ?thesis using split(3) by blast
    qed
  qed simp
  show "?split ts \<Longrightarrow> closing 0 False ts = Some loc"
    by (force simp: closing_unopened closing_balanced)
qed


text \<open>The place behind a piece of text, and the beginning of the scan.\<close>

definition place :: "string \<Rightarrow> source_location" where
  "place s = fold advance_place s (1, 1)"

lemma advance_fold:
  "fold advance_place s (l, k) =
     (l + length (filter ((=) CHR 0x0A) s),
      if CHR 0x0A \<in> set s then Suc (length (takeWhile ((\<noteq>) CHR 0x0A) (rev s))) else k + length s)"
proof (induction s rule: rev_induct)
  case (snoc c s)
  then show ?case by (auto simp: advance_place_def)
qed simp

lemma skip_lines_rest: "skip_lines l l s = (l, s)"
  by (cases s) simp_all

lemma skip_lines_prefix:
  "s = [] \<or> last s = CHR 0x0A \<Longrightarrow> l + length (filter ((=) CHR 0x0A) s) = target \<Longrightarrow>
   skip_lines target l (s @ rest) = (target, rest)"
proof (induction s arbitrary: l)
  case Nil
  then show ?case by (simp add: skip_lines_rest)
next
  case (Cons c s)
  have "CHR 0x0A \<in> set (c # s)" using Cons.prems(1) last_in_set [of "c # s"] by auto
  then have "filter ((=) CHR 0x0A) (c # s) \<noteq> []" by (auto simp: filter_empty_conv)
  then have less: "l < target" using Cons.prems(2) by (cases "filter ((=) CHR 0x0A) (c # s)") auto
  have tail: "s = [] \<or> last s = CHR 0x0A" using Cons.prems(1) by (cases s) auto
  show ?case using Cons.IH [OF tail] Cons.prems(2) less by (auto split: if_splits)
qed

lemma skip_columns_prefix:
  "CHR 0x0A \<notin> set s \<Longrightarrow> skip_columns (k + length s) k (s @ rest) = Some (k + length s, rest)"
proof (induction s arbitrary: k)
  case Nil
  then show ?case by (cases rest) simp_all
next
  case (Cons c s)
  then show ?case using Cons.IH [of "Suc k"] by auto
qed

lemma line_split: "\<exists>a b. s = a @ b \<and> (a = [] \<or> last a = CHR 0x0A) \<and> CHR 0x0A \<notin> set b"
proof (induction s rule: rev_induct)
  case (snoc c s)
  then obtain a b where ab: "s = a @ b" "a = [] \<or> last a = CHR 0x0A" "CHR 0x0A \<notin> set b" by blast
  show ?case
  proof (cases "c = CHR 0x0A")
    case True
    then show ?thesis by (intro exI [of _ "s @ [c]"] exI [of _ "[]"]) simp
  next
    case False
    then show ?thesis using ab by (intro exI [of _ a] exI [of _ "b @ [c]"]) simp
  qed
qed simp

lemma skip_to_place:
  assumes "place s = (line, column)"
  shows "\<exists>u. skip_lines line 1 (s @ rest) = (line, u @ rest) \<and> skip_columns column 1 (u @ rest) = Some (column, rest)"
proof -
  obtain a b where ab: "s = a @ b" "a = [] \<or> last a = CHR 0x0A" "CHR 0x0A \<notin> set b" using line_split by blast
  have none: "filter ((=) CHR 0x0A) b = []" using ab(3) by (auto simp: filter_empty_conv)
  have line: "line = 1 + length (filter ((=) CHR 0x0A) a)"
    using assms none by (simp add: place_def advance_fold ab(1))
  have "takeWhile ((\<noteq>) CHR 0x0A) (rev s) = rev b" if "a \<noteq> []"
  proof -
    obtain a' where "a = a' @ [CHR 0x0A]" using ab(2) \<open>a \<noteq> []\<close> by (metis append_butlast_last_id)
    then show ?thesis using ab(1,3) by simp (subst takeWhile_append2, auto)
  qed
  moreover have "CHR 0x0A \<in> set s \<longleftrightarrow> a \<noteq> []"
    using ab by (auto dest: last_in_set [of a])
  moreover have "column = (if CHR 0x0A \<in> set s then Suc (length (takeWhile ((\<noteq>) CHR 0x0A) (rev s))) else 1 + length s)"
    using assms unfolding place_def advance_fold by simp
  ultimately have column: "column = 1 + length b"
    using ab(1) by (cases "a = []") simp_all
  show "\<exists>u. skip_lines line 1 (s @ rest) = (line, u @ rest) \<and> skip_columns column 1 (u @ rest) = Some (column, rest)"
    using skip_lines_prefix [OF ab(2) line [symmetric], of "b @ rest"] skip_columns_prefix [OF ab(3), of 1 rest]
    by (intro exI [of _ b]) (simp add: ab(1) column)
qed

section \<open>The code of a text\<close>

text \<open>
  What is code, told by the grammar of C and not by the scanner: a character that starts no comment and no
  literal.  A literal goes from its quote to the next one that is no part of an escape, a comment to the end of the line
  or to the first mark that ends it; either may reach the end of the file.
\<close>

inductive literal_body :: "char \<Rightarrow> string \<Rightarrow> bool" for q where
  literal_Nil: "literal_body q []"
| literal_char: "c \<noteq> q \<Longrightarrow> c \<noteq> CHR 0x5C \<Longrightarrow> literal_body q b \<Longrightarrow> literal_body q (c # b)"
| literal_escape: "literal_body q b \<Longrightarrow> literal_body q (CHR 0x5C # c # b)"

abbreviation opens_comment :: "char \<Rightarrow> string \<Rightarrow> bool" where
  "opens_comment c s \<equiv> c = CHR ''/'' \<and> (starts_with s ''/'' \<or> starts_with s ''*'')"

definition is_quote :: "char \<Rightarrow> bool" where "is_quote q = (q = CHR 0x22 \<or> q = CHR 0x27)"

abbreviation behind :: "source_location \<Rightarrow> string \<Rightarrow> source_location" where
  "behind l s \<equiv> fold advance_place s l"

inductive in_code :: "source_location \<Rightarrow> string \<Rightarrow> (source_location \<times> char) list \<Rightarrow> bool" where
  code_Nil: "in_code l [] []"
| code_char: "\<not> is_quote c \<Longrightarrow> \<not> opens_comment c s \<Longrightarrow> in_code (advance_place c l) s ts \<Longrightarrow>
    in_code l (c # s) ((l, c) # ts)"
| code_literal: "is_quote q \<Longrightarrow> literal_body q b \<Longrightarrow> in_code (behind l (q # b @ [q])) s ts \<Longrightarrow>
    in_code l (q # b @ q # s) ts"
| code_open_literal: "is_quote q \<Longrightarrow> literal_body q b \<Longrightarrow> t = [] \<or> t = [CHR 0x5C] \<Longrightarrow> in_code l (q # b @ t) []"
| code_line_comment: "CHR 0x0A \<notin> set b \<Longrightarrow> in_code (behind l (''//'' @ b @ [CHR 0x0A])) s ts \<Longrightarrow>
    in_code l (''//'' @ b @ CHR 0x0A # s) ts"
| code_open_line_comment: "CHR 0x0A \<notin> set b \<Longrightarrow> in_code l (''//'' @ b) []"
| code_block_comment: "\<not> contains_str (b @ ''*'') ''*/'' \<Longrightarrow> in_code (behind l (''/*'' @ b @ ''*/'')) s ts \<Longrightarrow>
    in_code l (''/*'' @ b @ ''*/'' @ s) ts"
| code_open_block_comment: "\<not> contains_str b ''*/'' \<Longrightarrow> in_code l (''/*'' @ b) []"

text \<open>The scanner passes over each of them.\<close>

abbreviation literal_mode :: "char \<Rightarrow> bool \<Rightarrow> scan_mode" where
  "literal_mode q escaped \<equiv> if q = CHR 0x22 then InString escaped else InCharacter escaped"

lemma code_chars_skip:
  "mode \<noteq> InCode \<Longrightarrow> scan_mode_step mode c (next_char s) = (mode', False) \<Longrightarrow>
   code_chars mode l (c # s) = code_chars mode' (advance_place c l) s"
  by simp

lemma literal_step:
  assumes "is_quote q"
  shows "literal_mode q e \<noteq> InCode"
    "c \<noteq> q \<Longrightarrow> c \<noteq> CHR 0x5C \<Longrightarrow> scan_mode_step (literal_mode q False) c x = (literal_mode q False, False)"
    "scan_mode_step (literal_mode q False) (CHR 0x5C) x = (literal_mode q True, False)"
    "scan_mode_step (literal_mode q True) c x = (literal_mode q False, False)"
  using assms by (auto simp: scan_mode_step_def is_quote_def)

lemma code_chars_literal:
  "literal_body q b \<Longrightarrow> is_quote q \<Longrightarrow>
   code_chars (literal_mode q False) l (b @ s) = code_chars (literal_mode q False) (behind l b) s"
proof (induction b arbitrary: l rule: literal_body.induct)
  case (literal_char c b)
  have "code_chars (literal_mode q False) l (c # b @ s) = code_chars (literal_mode q False) (advance_place c l) (b @ s)"
    by (rule code_chars_skip [OF literal_step(1) literal_step(2)]) (use literal_char in simp_all)
  then show ?case using literal_char by simp
next
  case (literal_escape b c)
  have "code_chars (literal_mode q False) l (CHR 0x5C # c # b @ s) =
      code_chars (literal_mode q True) (advance_place (CHR 0x5C) l) (c # b @ s)"
    by (rule code_chars_skip [OF literal_step(1) literal_step(3)]) (use literal_escape in simp_all)
  moreover have "\<dots> = code_chars (literal_mode q False) (advance_place c (advance_place (CHR 0x5C) l)) (b @ s)"
    by (rule code_chars_skip [OF literal_step(1) literal_step(4)]) (use literal_escape in simp_all)
  ultimately show ?case using literal_escape by simp
qed simp

lemma code_chars_line_comment:
  "CHR 0x0A \<notin> set b \<Longrightarrow> code_chars InLineComment l (b @ s) = code_chars InLineComment (behind l b) s"
  by (induction b arbitrary: l) (auto simp: scan_mode_step_def)

lemma code_chars_block_comment:
  "\<not> contains_str (b @ ''*'') ''*/'' \<Longrightarrow> code_chars InBlockComment l (b @ ''*/'' @ s) = code_chars InCode (behind l (b @ ''*/'')) s"
proof (induction b arbitrary: l)
  case Nil
  then show ?case by (cases l) (simp add: scan_mode_step_def advance_place_def)
next
  case (Cons c b)
  have "\<not> (c = CHR ''*'' \<and> next_char (b @ ''*/'' @ s) = CHR ''/'')"
    using Cons.prems by (cases b) (auto simp: starts_with_def)
  then have "scan_mode_step InBlockComment c (next_char (b @ ''*/'' @ s)) = (InBlockComment, False)"
    unfolding scan_mode_step_def by simp
  then have "code_chars InBlockComment l (c # b @ ''*/'' @ s) = code_chars InBlockComment (advance_place c l) (b @ ''*/'' @ s)"
    using code_chars_skip [of InBlockComment c "b @ ''*/'' @ s"] by blast
  then show ?case using Cons by simp
qed

lemma code_chars_open_block_comment: "\<not> contains_str b ''*/'' \<Longrightarrow> code_chars InBlockComment l b = []"
proof (induction b arbitrary: l)
  case (Cons c b)
  have "\<not> (c = CHR ''*'' \<and> next_char b = CHR ''/'')"
    using Cons.prems by (cases b) (auto simp: starts_with_def)
  then have "scan_mode_step InBlockComment c (next_char b) = (InBlockComment, False)"
    unfolding scan_mode_step_def by simp
  then have "code_chars InBlockComment l (c # b) = code_chars InBlockComment (advance_place c l) b"
    using code_chars_skip [of InBlockComment c b] by blast
  then show ?case using Cons by simp
qed simp

lemma code_chars_marks:
  "code_chars InCode l (''//'' @ s) = (l, CHR ''/'') # code_chars InLineComment (behind l ''//'') s"
  "code_chars InCode l (''/*'' @ s) = (l, CHR ''/'') # code_chars InBlockComment (behind l ''/*'') s"
  by (cases l; simp add: scan_mode_step_def advance_place_def)+

lemma code_chars_quote:
  "is_quote q \<Longrightarrow> code_chars InCode l (q # s) = (l, q) # code_chars (literal_mode q False) (advance_place q l) s"
  "is_quote q \<Longrightarrow> code_chars (literal_mode q False) l (q # s) = code_chars InCode (advance_place q l) s"
  by (auto simp: is_quote_def scan_mode_step_def)

lemma closing_other: "c \<noteq> CHR ''('' \<Longrightarrow> c \<noteq> CHR '')'' \<Longrightarrow> closing d w ((l, c) # ts) = closing d w ts"
  by simp

lemma closing_same:
  "(\<And>d w. closing d w xs = closing d w ys) \<Longrightarrow> closing d w ((l, c) # xs) = closing d w ((l, c) # ys)"
  by simp

lemma in_code_closing: "in_code l s ts \<Longrightarrow> closing d w (code_chars InCode l s) = closing d w ts"
proof (induction arbitrary: d w rule: in_code.induct)
  case (code_char c s l ts)
  have "scan_mode_step InCode c (next_char s) = (InCode, False)"
    using code_char.hyps(1,2) by (cases s) (auto simp: scan_mode_step_def is_quote_def starts_with_def)
  then have "code_chars InCode l (c # s) = (l, c) # code_chars InCode (advance_place c l) s" by simp
  then show ?case using closing_same [OF code_char.IH] by simp
next
  case (code_literal q b l s ts)
  have "q \<noteq> CHR ''(''" "q \<noteq> CHR '')''" using code_literal.hyps(1) by (auto simp: is_quote_def)
  then show ?case using code_literal
    by (simp only: code_chars_quote(1) closing_other code_chars_literal) (simp add: code_chars_quote(2) del: code_chars.simps)
next
  case (code_open_literal q b t l)
  have "q \<noteq> CHR ''(''" "q \<noteq> CHR '')''" using code_open_literal.hyps(1) by (auto simp: is_quote_def)
  moreover have "code_chars (literal_mode q False) l' t = []" for l'
    using code_open_literal.hyps(1,3) by (auto simp: scan_mode_step_def is_quote_def)
  ultimately show ?case using code_open_literal.hyps(1,2)
    by (simp only: code_chars_quote(1) closing_other code_chars_literal) simp
next
  case (code_line_comment b l s ts)
  have "code_chars InLineComment l' (CHR 0x0A # s) = code_chars InCode (advance_place (CHR 0x0A) l') s" for l'
    by (simp add: scan_mode_step_def)
  moreover note code_chars_line_comment [OF code_line_comment.hyps(1), of "behind l ''//''" "CHR 0x0A # s"]
  ultimately show ?case using code_line_comment.IH unfolding code_chars_marks by (simp del: code_chars.simps)
next
  case (code_open_line_comment b l)
  then show ?case using code_chars_line_comment [of b "behind l ''//''" "[]"]
    by (simp only: code_chars_marks closing_other) simp
next
  case (code_block_comment b l s ts)
  then show ?case
    using code_chars_block_comment [OF code_block_comment.hyps(1), of "behind l ''/*''" s]
    unfolding code_chars_marks by (simp del: code_chars.simps)
next
  case (code_open_block_comment b l)
  then show ?case
    using code_chars_open_block_comment [of b "behind l ''/*''"] unfolding code_chars_marks by (simp del: code_chars.simps)
qed simp

text \<open>Every text has its code.\<close>

lemma literal_ends:
  "(\<exists>b u. s = b @ q # u \<and> literal_body q b) \<or> (\<exists>b t. s = b @ t \<and> literal_body q b \<and> (t = [] \<or> t = [CHR 0x5C]))"
proof (induction s rule: length_induct)
  case (1 s)
  show ?case
  proof (cases s)
    case Nil
    then show ?thesis using literal_Nil by auto
  next
    case (Cons c r)
    consider "c = q" | "c \<noteq> q" "c \<noteq> CHR 0x5C" | "c \<noteq> q" "c = CHR 0x5C" "r = []" | e r' where "c \<noteq> q" "c = CHR 0x5C" "r = e # r'"
      by (cases r) auto
    then show ?thesis
    proof cases
      case 1
      then show ?thesis using Cons literal_Nil [of q] by (metis append_Nil)
    next
      case 2
      then show ?thesis using "1.IH" [rule_format, of r] Cons literal_char [OF 2] by (metis append_Cons lessI length_Cons)
    next
      case 3
      then show ?thesis using Cons literal_Nil [of q] by (metis append_Nil)
    next
      case 4
      then show ?thesis using "1.IH" [rule_format, of r'] Cons literal_escape [of q]
        by (metis append_Cons length_Cons less_Suc_eq)
    qed
  qed
qed

lemma block_comment_ends:
  "contains_str s ''*/'' \<Longrightarrow> \<exists>b u. s = b @ ''*/'' @ u \<and> \<not> contains_str (b @ ''*'') ''*/''"
proof (induction s)
  case (Cons c s)
  show ?case
  proof (cases "starts_with (c # s) ''*/''")
    case True
    then obtain u where "c # s = [] @ ''*/'' @ u" by (auto simp: starts_with_iff)
    moreover have "\<not> contains_str ([] @ ''*'') ''*/''" by (simp add: starts_with_def)
    ultimately show ?thesis by blast
  next
    case False
    then obtain b u where b: "s = b @ ''*/'' @ u" "\<not> contains_str (b @ ''*'') ''*/''" using Cons by auto
    moreover have "\<not> starts_with (c # b @ ''*'') ''*/''"
      using False b(1) by (cases b) (auto simp: starts_with_def)
    ultimately have "c # s = (c # b) @ ''*/'' @ u" "\<not> contains_str ((c # b) @ ''*'') ''*/''" by auto
    then show ?thesis by blast
  qed
qed simp

lemma in_code_total: "\<exists>ts. in_code l s ts"
proof (induction s arbitrary: l rule: length_induct)
  case (1 s)
  have IH: "\<exists>ts. in_code l' u ts" if "length u < length s" for u l' using "1.IH" that by blast
  consider "s = []" | c r where "s = c # r" "\<not> is_quote c" "\<not> opens_comment c r" | q r where "s = q # r" "is_quote q"
    | r where "s = ''//'' @ r" | r where "s = ''/*'' @ r"
    by (cases s) (auto simp: starts_with_iff)
  then show ?case
  proof cases
    case 2
    then show ?thesis using IH [of r] code_char by (metis length_Cons lessI)
  next
    case 3
    consider b u where "r = b @ q # u" "literal_body q b" | b t where "r = b @ t" "literal_body q b" "t = [] \<or> t = [CHR 0x5C]"
      using literal_ends by blast
    then show ?thesis
    proof cases
      case 1
      then have "length u < length s" using 3(1) by simp
      then obtain ts where "in_code (behind l (q # b @ [q])) u ts" using IH by blast
      then show ?thesis using code_literal [OF 3(2) 1(2)] 1(1) 3(1) by blast
    next
      case 2
      then show ?thesis using 3 code_open_literal by blast
    qed
  next
    case 4
    show ?thesis
    proof (cases "CHR 0x0A \<in> set r")
      case True
      then obtain b u where b: "r = b @ CHR 0x0A # u" "CHR 0x0A \<notin> set b" using split_list_first by metis
      then have "length u < length s" using 4 by simp
      then obtain ts where "in_code (behind l (''//'' @ b @ [CHR 0x0A])) u ts" using IH by blast
      then show ?thesis using code_line_comment [OF b(2)] b(1) 4 by blast
    next
      case False
      then show ?thesis using 4 code_open_line_comment by blast
    qed
  next
    case 5
    show ?thesis
    proof (cases "contains_str r ''*/''")
      case True
      then obtain b u where b: "r = b @ ''*/'' @ u" "\<not> contains_str (b @ ''*'') ''*/''" using block_comment_ends by blast
      then have "length u < length s" using 5 by simp
      then obtain ts where "in_code (behind l (''/*'' @ b @ ''*/'')) u ts" using IH by blast
      then show ?thesis using code_block_comment [OF b(2)] b(1) 5 by blast
    next
      case False
      then show ?thesis using 5 code_open_block_comment by blast
    qed
  qed (use code_Nil in blast)
qed

text \<open>The places of the code are places of the text.\<close>

lemma in_code_places:
  "in_code l s ts \<Longrightarrow> (p, c) \<in> set ts \<Longrightarrow> \<exists>a b. s = a @ c # b \<and> p = behind l a"
proof (induction rule: in_code.induct)
  case (code_char x s l ts)
  show ?case
  proof (cases "(p, c) = (l, x)")
    case True
    then show ?thesis by (intro exI [of _ "[]"] exI [of _ s]) simp
  next
    case False
    then obtain a b where "s = a @ c # b" "p = behind (advance_place x l) a" using code_char by auto
    then show ?thesis by (intro exI [of _ "x # a"] exI [of _ b]) simp
  qed
next
  case (code_literal q b l s ts)
  then obtain a r where "s = a @ c # r" "p = behind (behind l (q # b @ [q])) a" by blast
  then show ?case by (intro exI [of _ "q # b @ q # a"] exI [of _ r]) simp
next
  case (code_line_comment b l s ts)
  then obtain a r where "s = a @ c # r" "p = behind (behind l (''//'' @ b @ [CHR 0x0A])) a" by blast
  then show ?case by (intro exI [of _ "''//'' @ b @ CHR 0x0A # a"] exI [of _ r]) simp
next
  case (code_block_comment b l s ts)
  then obtain a r where "s = a @ c # r" "p = behind (behind l (''/*'' @ b @ ''*/'')) a" by blast
  then show ?case by (intro exI [of _ "''/*'' @ b @ ''*/'' @ a"] exI [of _ r]) simp
qed simp_all

text \<open>C26: The place where a call returns is a closing parenthesis of the text, the one that closes the first
  parenthesis in the code behind the start of the call: comments and literals are no code, and what is between the two
  is balanced.\<close>

theorem function_return_location_exact:
  assumes "source_location_of d input i = Some (line, column)" "column > 0"
    and "text = before @ rest" "place before = (line, column)"
  shows "function_return_location d input (Some text) i = Some loc \<longleftrightarrow>
    (\<exists>pre p mid post. in_code (line, column) rest (pre @ (p, CHR ''('') # mid @ (loc, CHR '')'') # post) \<and>
       (\<forall>(q, c)\<in>set pre. c \<noteq> CHR ''('') \<and> balanced mid)"
proof -
  obtain u where "skip_lines line 1 text = (line, u @ rest)" "skip_columns column 1 (u @ rest) = Some (column, rest)"
    using skip_to_place [OF assms(4)] assms(3) by blast
  moreover have "max 1 column = column" using assms(2) by simp
  ultimately have run: "function_return_location d input (Some text) i = closing 0 False (code_chars InCode (line, column) rest)"
    using assms(1) by (simp add: function_return_location_def scan_call_closing)
  obtain ts where ts: "in_code (line, column) rest ts" using in_code_total by blast
  show ?thesis
  proof
    assume "function_return_location d input (Some text) i = Some loc"
    then have "closing 0 False ts = Some loc" using run in_code_closing [OF ts] by simp
    then show "\<exists>pre p mid post. in_code (line, column) rest (pre @ (p, CHR ''('') # mid @ (loc, CHR '')'') # post) \<and>
       (\<forall>(q, c)\<in>set pre. c \<noteq> CHR ''('') \<and> balanced mid"
      unfolding closing_exact using ts by metis
  next
    assume "\<exists>pre p mid post. in_code (line, column) rest (pre @ (p, CHR ''('') # mid @ (loc, CHR '')'') # post) \<and>
       (\<forall>(q, c)\<in>set pre. c \<noteq> CHR ''('') \<and> balanced mid"
    then obtain pre p mid post where us: "in_code (line, column) rest (pre @ (p, CHR ''('') # mid @ (loc, CHR '')'') # post)"
        "\<forall>(q, c)\<in>set pre. c \<noteq> CHR ''(''" "balanced mid"
      by (elim exE conjE)
    then have "closing 0 False (pre @ (p, CHR ''('') # mid @ (loc, CHR '')'') # post) = Some loc"
      unfolding closing_exact by (intro exI conjI) (rule refl)
    then show "function_return_location d input (Some text) i = Some loc"
      using run in_code_closing [OF us(1)] by simp
  qed
qed

text \<open>A call with a parenthesis in a character literal and one around an argument.\<close>

definition call_text :: string where
  "call_text = ''x=f('' @ [CHR 0x27, CHR '')'', CHR 0x27] @ '',(1));''"

definition call_debug :: debug_info where
  "call_debug = \<lparr>debug_loc_of = (\<lambda>_. Some ([], 1, 3)), loop_start_of = (\<lambda>_. None), subprogram_of = (\<lambda>_. None)\<rparr>"

theorem function_return_location_exact_witness:
  "function_return_location call_debug [] (Some call_text) 0 = Some (1, 12) \<and>
   (\<exists>pre p mid post. in_code (1, 3) (drop 2 call_text) (pre @ (p, CHR ''('') # mid @ ((1, 12), CHR '')'') # post) \<and>
      balanced mid)"
proof -
  have source: "source_location_of call_debug [] 0 = Some (1, 3)"
    by (simp add: source_location_of_def matching_location_def call_debug_def debug_file_matches_def)
  have returned: "function_return_location call_debug [] (Some call_text) 0 = Some (1, 12)"
    by (simp add: function_return_location_def source call_text_def scan_mode_step_def advance_place_def)
  have start: "call_text = ''x='' @ drop 2 call_text" "place ''x='' = (1, 3)"
    by (simp_all add: call_text_def place_def advance_place_def)
  have column: "(3 :: nat) > 0" by simp
  obtain pre p mid post where "in_code (1, 3) (drop 2 call_text) (pre @ (p, CHR ''('') # mid @ ((1, 12), CHR '')'') # post)"
      "balanced mid"
    using iffD1 [OF function_return_location_exact [OF source column start] returned] by (elim exE conjE)
  then show ?thesis using returned by (intro conjI exI)
qed

end
