(* ===== verification/Witness_Correctness.thy ===== *)
theory Witness_Correctness
  imports Witness_Text_Correctness
begin

text \<open>
  What the expressions of a witness mean.  The text of a term is the text of a C expression, fully in
  parentheses; its value in C is the value of the term when no dividend is negative and the
  names are signed.  The equations of a loop hold in every iteration when the closed forms are polynomials,
  also under the conversion to the unsigned type of the iteration counter; with conditionals they may not.
\<close>

section \<open>C expressions\<close>

datatype c_op = CAdd | CSub | CMul | CDiv | CMod | CLe | CLt | CGe | CGt | CEq | CAnd | COr

datatype c_expr = CLit int | CName string | CNary c_op "c_expr list" | CNegate c_expr | CNot c_expr
  | CCond c_expr c_expr c_expr

fun c_op_text :: "c_op \<Rightarrow> string" where
  "c_op_text CAdd = ''+''" | "c_op_text CSub = ''-''" | "c_op_text CMul = ''*''" | "c_op_text CDiv = ''/''"
| "c_op_text CMod = ''%''" | "c_op_text CLe = ''<=''" | "c_op_text CLt = ''<''" | "c_op_text CGe = ''>=''"
| "c_op_text CGt = ''>''" | "c_op_text CEq = ''==''" | "c_op_text CAnd = ''&&''" | "c_op_text COr = ''||''"

text \<open>The solver prints a negative number as an application of minus, in parentheses.\<close>

definition numeral_text :: "int \<Rightarrow> string" where
  "numeral_text n = (if n < 0 then ''(- '' @ nat_to_string (nat (- n)) @ '')'' else nat_to_string (nat n))"

definition prints_numerals :: "z3_api \<Rightarrow> bool" where
  "prints_numerals z \<longleftrightarrow> (\<forall>n. z_string z (z_int n) = numeral_text n)"

fun c_text :: "c_expr \<Rightarrow> string" where
  "c_text (CLit n) = numeral_text n"
| "c_text (CName x) = x"
| "c_text (CNary op es) = ''('' @ separated ('' '' @ c_op_text op @ '' '') (map c_text es) @ '')''"
| "c_text (CNegate e) = ''(-'' @ c_text e @ '')''"
| "c_text (CNot e) = ''(!'' @ c_text e @ '')''"
| "c_text (CCond c a b) = ''('' @ c_text c @ '' ? '' @ c_text a @ '' : '' @ c_text b @ '')''"

text \<open>
  The type and the value of an expression: an operand is signed, without bounds, or an unsigned number of 64
  bits, to which the other operand of an arithmetic operation is converted.  Division truncates; the right
  operand of a logical operation is not evaluated when the left one decides.
\<close>

definition c_wrap :: "bool \<Rightarrow> int \<Rightarrow> int" where
  "c_wrap u a = (if u then a mod 2 ^ 64 else a)"

definition c_quot :: "int \<Rightarrow> int \<Rightarrow> int" where
  "c_quot a b = sgn a * sgn b * (\<bar>a\<bar> div \<bar>b\<bar>)"

fun c_arith :: "c_op \<Rightarrow> bool \<Rightarrow> int \<Rightarrow> int \<Rightarrow> int option" where
  "c_arith CAdd u a b = Some (c_wrap u (a + b))"
| "c_arith CSub u a b = Some (c_wrap u (a - b))"
| "c_arith CMul u a b = Some (c_wrap u (a * b))"
| "c_arith CDiv u a b = (if b = 0 then None else Some (c_quot a b))"
| "c_arith CMod u a b = (if b = 0 then None else Some (a - b * c_quot a b))"
| "c_arith CLe u a b = Some (of_bool (a \<le> b))"
| "c_arith CLt u a b = Some (of_bool (a < b))"
| "c_arith CGe u a b = Some (of_bool (a \<ge> b))"
| "c_arith CGt u a b = Some (of_bool (a > b))"
| "c_arith CEq u a b = Some (of_bool (a = b))"
| "c_arith CAnd u a b = Some (of_bool (a \<noteq> 0 \<and> b \<noteq> 0))"
| "c_arith COr u a b = Some (of_bool (a \<noteq> 0 \<or> b \<noteq> 0))"

type_synonym c_result = "bool \<times> int option"

fun c_binary :: "c_op \<Rightarrow> c_result \<Rightarrow> c_result \<Rightarrow> c_result" where
  "c_binary CAnd (u, x) (v, y) =
     (False, Option.bind x (\<lambda>a. if a = 0 then Some 0 else map_option (\<lambda>b. of_bool (b \<noteq> 0)) y))"
| "c_binary COr (u, x) (v, y) =
     (False, Option.bind x (\<lambda>a. if a \<noteq> 0 then Some 1 else map_option (\<lambda>b. of_bool (b \<noteq> 0)) y))"
| "c_binary op (u, x) (v, y) =
     ((u \<or> v) \<and> op \<in> {CAdd, CSub, CMul, CDiv, CMod},
      Option.bind x (\<lambda>a. Option.bind y (\<lambda>b. c_arith op (u \<or> v) (c_wrap (u \<or> v) a) (c_wrap (u \<or> v) b))))"

fun c_typed :: "(string \<Rightarrow> bool) \<Rightarrow> (string \<Rightarrow> int) \<Rightarrow> c_expr \<Rightarrow> c_result" where
  "c_typed T env (CLit n) = (False, Some n)"
| "c_typed T env (CName x) = (T x, Some (env x))"
| "c_typed T env (CNary op es) =
     (case map (c_typed T env) es of [] \<Rightarrow> (False, None) | r # rs \<Rightarrow> foldl (c_binary op) r rs)"
| "c_typed T env (CNegate e) = (let (u, x) = c_typed T env e in (u, map_option (\<lambda>a. c_wrap u (- a)) x))"
| "c_typed T env (CNot e) = (False, map_option (\<lambda>a. of_bool (a = 0)) (snd (c_typed T env e)))"
| "c_typed T env (CCond c a b) =
     (let (u, x) = c_typed T env a; (v, y) = c_typed T env b
      in (u \<or> v, Option.bind (snd (c_typed T env c)) (\<lambda>k. map_option (c_wrap (u \<or> v)) (if k \<noteq> 0 then x else y))))"

definition c_value :: "(string \<Rightarrow> bool) \<Rightarrow> (string \<Rightarrow> int) \<Rightarrow> c_expr \<Rightarrow> int option" where
  "c_value T env e = snd (c_typed T env e)"

section \<open>The expression of a term\<close>

fun c_op_of :: "z3op \<Rightarrow> c_op option" where
  "c_op_of OAdd = Some CAdd" | "c_op_of OSub = Some CSub" | "c_op_of OMul = Some CMul"
| "c_op_of OIDiv = Some CDiv" | "c_op_of OMod = Some CMod" | "c_op_of ORem = Some CMod"
| "c_op_of OLe = Some CLe" | "c_op_of OLt = Some CLt" | "c_op_of OGe = Some CGe" | "c_op_of OGt = Some CGt"
| "c_op_of OEq = Some CEq" | "c_op_of OAnd = Some CAnd" | "c_op_of OOr = Some COr" | "c_op_of _ = None"

lemma operator_text_op: "operator_text f = map_option c_op_text (c_op_of f)"
  by (cases f) simp_all

fun c_of :: "(string \<rightharpoonup> string) \<Rightarrow> z3expr \<Rightarrow> c_expr option" where
  "c_of names (Quant q xs b) = None"
| "c_of names (App f es) =
     (if es = [] then (case f of
          OTrue \<Rightarrow> Some (CLit 1) | OFalse \<Rightarrow> Some (CLit 0) | ONum n \<Rightarrow> Some (CLit n)
        | OUninterp x s \<Rightarrow> map_option CName (names x) | _ \<Rightarrow> None)
      else case c_op_of f of
          Some op \<Rightarrow> map_option (CNary op) (those (map (c_of names) es))
        | None \<Rightarrow> (case (f, map (c_of names) es) of
              (OUMinus, e # _) \<Rightarrow> map_option CNegate e
            | (ONot, e # _) \<Rightarrow> map_option CNot e
            | (OIte, Some c # Some a # Some b # _) \<Rightarrow> Some (CCond c a b)
            | _ \<Rightarrow> None))"

text \<open>The sorts and numbers of arguments of the terms the solver builds; no numeral of a vector.\<close>

fun c_sorted :: "z3expr \<Rightarrow> bool" where
  "c_sorted (Quant q xs b) = False"
| "c_sorted (App f es) =
     (list_all c_sorted es \<and>
      (case f of
         OBvNum n w \<Rightarrow> False
       | OAnd \<Rightarrow> list_all is_bool es | OOr \<Rightarrow> list_all is_bool es
       | ONot \<Rightarrow> length es = 1 \<and> is_bool (hd es) | OUMinus \<Rightarrow> length es = 1
       | OIDiv \<Rightarrow> length es = 2 | OMod \<Rightarrow> length es = 2 | ORem \<Rightarrow> length es = 2
       | OLe \<Rightarrow> length es = 2 | OLt \<Rightarrow> length es = 2 | OGe \<Rightarrow> length es = 2 | OGt \<Rightarrow> length es = 2
       | OEq \<Rightarrow> length es = 2 \<and> sort_of (hd es) = sort_of (last es)
       | OIte \<Rightarrow> length es = 3 \<and> is_bool (hd es) \<and> sort_of (es ! 1) = sort_of (es ! 2)
       | _ \<Rightarrow> True))"

lemma join_supported: "join_expression z names e ok = Some (t, True) \<Longrightarrow> ok"
  and "join_arguments z names operator es out ok = Some (t, True) \<Longrightarrow> ok"
  and "join_prefix z names prefix es ok = Some (t, True) \<Longrightarrow> ok"
  and "join_conditional z names es ok = Some (t, True) \<Longrightarrow> ok"
  by (induction z names e ok and z names operator es out ok and z names prefix es ok and z names es ok
      arbitrary: t and t and t and t
      rule: join_expression_join_arguments_join_prefix_join_conditional.induct)
    (auto simp: constant_text_def split: if_splits option.splits z3op.splits, metis)


lemma join_text:
  assumes z: "prints_numerals z"
  shows "c_sorted e \<Longrightarrow> join_expression z names e True = Some (t, True) \<Longrightarrow> \<exists>c. c_of names e = Some c \<and> t = c_text c"
proof (induction e arbitrary: t)
  case (App f es)
  have args: "join_arguments z names operator es' out True = Some (t', True) \<Longrightarrow> set es' \<subseteq> set es \<Longrightarrow>
      \<exists>cs. those (map (c_of names) es') = Some cs \<and> t' = out @ separated ('' '' @ operator @ '' '') (map c_text cs) @ '')''"
    for operator es' out t'
  proof (induction es' arbitrary: out)
    case (Cons e es')
    obtain s where s: "join_expression z names e True = Some (s, True)"
        "join_arguments z names operator es' (out @ s @ (if es' = [] then [] else '' '' @ operator @ '' '')) True = Some (t', True)"
      using Cons.prems(1) by (auto split: option.splits if_splits)
    have e: "e \<in> set es" "c_sorted e" using Cons.prems(2) App.prems(1) by (auto simp: list_all_iff)
    obtain c where c: "c_of names e = Some c" "s = c_text c" using App.IH [OF e s(1)] by blast
    obtain cs where cs: "those (map (c_of names) es') = Some cs"
        "t' = (out @ s @ (if es' = [] then [] else '' '' @ operator @ '' '')) @ separated ('' '' @ operator @ '' '') (map c_text cs) @ '')''"
      using Cons.IH [OF s(2)] Cons.prems(2) by auto
    show ?case
    proof (cases es')
      case Nil
      then show ?thesis using c cs by simp
    next
      case (Cons e' es'')
      then obtain c' cs' where "cs = c' # cs'" using cs(1) by (auto split: option.splits)
      then show ?thesis using c cs Cons by simp
    qed
  qed simp
  have one: "\<exists>c. c_of names e = Some c \<and> s = c_text c"
    if "join_expression z names e ok = Some (s, True)" "ok" "e \<in> set es" for e s ok
    using App.IH [of e s] that App.prems(1) by (auto simp: list_all_iff)
  show ?case
  proof (cases "es = []")
    case True
    have "numeral_text 1 = ''1''" "numeral_text 0 = ''0''" by (simp_all add: numeral_text_def)
    then show ?thesis using App.prems z True
      by (auto simp: constant_text_def prints_numerals_def split: z3op.splits option.splits)
  next
    case False
    show ?thesis
    proof (cases "c_op_of f")
      case (Some op)
      then have "join_arguments z names (c_op_text op) es ''('' True = Some (t, True)"
        using App.prems(2) False by (simp add: operator_text_op)
      then obtain cs where "those (map (c_of names) es) = Some cs"
          "t = ''('' @ separated ('' '' @ c_op_text op @ '' '') (map c_text cs) @ '')''"
        using args by blast
      then show ?thesis using Some False by simp
    next
      case None
      then have "f = OUMinus \<and> join_prefix z names ''(-'' es True = Some (t, True) \<or>
          f = ONot \<and> join_prefix z names ''(!'' es True = Some (t, True) \<or>
          f = OIte \<and> join_conditional z names es True = Some (t, True)"
        using App.prems(2) False by (auto simp: operator_text_op split: z3op.splits)
      then show ?thesis
      proof (elim disjE conjE)
        assume f: "f = OUMinus" and run: "join_prefix z names ''(-'' es True = Some (t, True)"
        obtain e r where es: "es = e # r" using False by (cases es) auto
        obtain s where s: "join_expression z names e True = Some (s, True)" "t = ''(-'' @ s @ '')''" using run es by auto
        then show ?thesis using one [OF s(1)] f es by auto
      next
        assume f: "f = ONot" and run: "join_prefix z names ''(!'' es True = Some (t, True)"
        obtain e r where es: "es = e # r" using False by (cases es) auto
        obtain s where s: "join_expression z names e True = Some (s, True)" "t = ''(!'' @ s @ '')''" using run es by auto
        then show ?thesis using one [OF s(1)] f es by auto
      next
        assume f: "f = OIte" and run: "join_conditional z names es True = Some (t, True)"
        then obtain c a b where es: "es = [c, a, b]" using App.prems(1)
          by (auto simp: length_Suc_conv numeral_3_eq_3)
        obtain t1 ok1 t2 ok2 t3 where parts: "join_expression z names c True = Some (t1, ok1)"
            "join_expression z names a ok1 = Some (t2, ok2)" "join_expression z names b ok2 = Some (t3, True)"
            "t = ''('' @ t1 @ '' ? '' @ t2 @ '' : '' @ t3 @ '')''"
          using run es by (auto split: option.splits if_splits)
        have ok2: "ok2" using join_supported(1) [OF parts(3)] .
        have ok: "ok2" "ok1" using join_supported(1) [of z names a ok1 t2] parts(2) ok2 by simp_all
        show ?thesis
          using one [OF parts(1) [unfolded eqTrueI [OF ok(2)]]] one [OF parts(2) [unfolded eqTrueI [OF ok(1)]]]
            one [OF parts(3)] ok f es parts(4) by auto
      qed
    qed
  qed
qed simp


section \<open>The value of the text of a term\<close>

definition names_agree :: "interp \<Rightarrow> (string \<rightharpoonup> string) \<Rightarrow> (string \<Rightarrow> int) \<Rightarrow> z3expr \<Rightarrow> bool" where
  "names_agree I names env e \<longleftrightarrow>
     (\<forall>x s y. z_const x s \<in> set (subterms e) \<and> names x = Some y \<longrightarrow> env y = ival I (z_const x s))"

text \<open>Every dividend is at least zero and every divisor positive.\<close>

fun plain_divisions :: "interp \<Rightarrow> z3expr \<Rightarrow> bool" where
  "plain_divisions I (Quant q xs b) = False"
| "plain_divisions I (App f es) =
     (list_all (plain_divisions I) es \<and>
      (f \<in> {OIDiv, OMod, ORem} \<longrightarrow> ival I (hd es) \<ge> 0 \<and> ival I (last es) > 0))"

abbreviation signed_names :: "string \<Rightarrow> bool" where "signed_names \<equiv> \<lambda>x. False"

lemma c_quot_nonneg: "0 \<le> a \<Longrightarrow> 0 < b \<Longrightarrow> c_quot a b = a div b"
  by (cases "a = 0") (simp_all add: c_quot_def)

lemma fold_arith:
  "foldl (c_binary CAdd) (False, Some a) (map (\<lambda>v. (False, Some v)) vs) = (False, Some (a + sum_list vs))"
  "foldl (c_binary CMul) (False, Some a) (map (\<lambda>v. (False, Some v)) vs) = (False, Some (a * prod_list vs))"
  "foldl (c_binary CSub) (False, Some a) (map (\<lambda>v. (False, Some v)) vs) = (False, Some (foldl (-) a vs))"
  by (induction vs arbitrary: a) (simp_all add: c_wrap_def algebra_simps)

lemma fold_logic:
  "foldl (c_binary CAnd) (False, Some (of_bool p)) (map (\<lambda>q. (False, Some (of_bool q))) qs) =
     (False, Some (of_bool (p \<and> list_all (\<lambda>q. q) qs)))"
  "foldl (c_binary COr) (False, Some (of_bool p)) (map (\<lambda>q. (False, Some (of_bool q))) qs) =
     (False, Some (of_bool (p \<or> list_ex (\<lambda>q. q) qs)))"
proof -
  have step: "c_binary CAnd (False, Some (of_bool p)) (False, Some (of_bool q)) = (False, Some (of_bool (p \<and> q)))"
      "c_binary COr (False, Some (of_bool p)) (False, Some (of_bool q)) = (False, Some (of_bool (p \<or> q)))" for p q
    by (cases p; cases q; simp)+
  show "foldl (c_binary CAnd) (False, Some (of_bool p)) (map (\<lambda>q. (False, Some (of_bool q))) qs) =
      (False, Some (of_bool (p \<and> list_all (\<lambda>q. q) qs)))"
    by (induction qs arbitrary: p) (simp, simp only: list.map foldl_Cons step, simp add: conj_assoc)
  show "foldl (c_binary COr) (False, Some (of_bool p)) (map (\<lambda>q. (False, Some (of_bool q))) qs) =
      (False, Some (of_bool (p \<or> list_ex (\<lambda>q. q) qs)))"
    by (induction qs arbitrary: p) (simp, simp only: list.map foldl_Cons step, simp add: disj_assoc)
qed

lemma those_map_Some: "those (map f xs) = Some ys \<Longrightarrow> list_all2 (\<lambda>x y. f x = Some y) xs ys"
  by (induction xs arbitrary: ys) (auto split: option.splits)

lemma typed_operands:
  assumes "\<And>e c. e \<in> set es \<Longrightarrow> c_of names e = Some c \<Longrightarrow> c_typed signed_names env c = (False, Some (ival I e))"
    and "those (map (c_of names) es) = Some cs"
  shows "map (c_typed signed_names env) cs = map (\<lambda>e. (False, Some (ival I e))) es"
  using those_map_Some [OF assms(2)] assms(1) by (induction es cs rule: list_all2_induct) auto

lemma ival_binary:
  "ival I (App OIDiv [a, b]) = (if ival I b = 0 then int_of (I ''div0'' [VInt (ival I a)]) else smt_div (ival I a) (ival I b))"
  "ival I (App OMod [a, b]) = (if ival I b = 0 then int_of (I ''mod0'' [VInt (ival I a)]) else smt_mod (ival I a) (ival I b))"
  "ival I b > 0 \<Longrightarrow> ival I (App ORem [a, b]) = smt_mod (ival I a) (ival I b)"
  by (simp_all add: ival_def)

lemma operator_value:
  assumes op: "c_op_of f = Some op" and es: "es = e # r" "c_sorted (App f es)" "plain_divisions I (App f es)"
  shows "foldl (c_binary op) (False, Some (ival I e)) (map (\<lambda>e. (False, Some (ival I e))) r) = (False, Some (ival I (App f es)))"
proof -
  have two: "length es = 2 \<Longrightarrow> \<exists>b. es = [e, b]" using es(1) by (cases r) auto
  have bools: "map (\<lambda>e. (False, Some (ival I e))) r = map (\<lambda>q. (False, Some (of_bool q))) (map (holds I) r)"
      "ival I e = of_bool (holds I e)" if "list_all is_bool es"
    using that es(1) by (auto simp: list_all_iff holds_ival)
  have ints: "map (\<lambda>e. (False, Some (ival I e))) r = map (\<lambda>v. (False, Some v)) (map (ival I) r)" by simp
  have values_of: "ival I = (\<lambda>e. int_of (eval I e))" by (rule ext) (simp add: ival_def)
  note arith = fold_arith [of "ival I e" "map (ival I) r", folded ints]
  note logic = fold_logic [of "holds I e" "map (holds I) r"]
  consider "f = OAdd" | "f = OSub" | "f = OMul" | "f = OAnd" | "f = OOr" | "f = OIDiv \<or> f = OMod \<or> f = ORem"
    | "f = OEq" | "f \<in> {OLe, OLt, OGe, OGt}"
    using op by (cases f) auto
  then show ?thesis
  proof cases
    case 1
    then show ?thesis using op es(1) arith(1) by (simp del: map_map) (simp add: values_of comp_def)
  next
    case 2
    then show ?thesis using op es(1) arith(3) by (simp del: map_map) (simp add: values_of comp_def)
  next
    case 3
    then show ?thesis using op es(1) arith(2) by (simp del: map_map) (simp add: values_of comp_def)
  next
    case 4
    then have "list_all is_bool es" using es(2) by simp
    then show ?thesis using 4 op es(1) logic(1) [folded bools [OF \<open>list_all is_bool es\<close>]]
      by (simp del: map_map) (auto simp: ival_def holds_def list_all_iff)
  next
    case 5
    then have "list_all is_bool es" using es(2) by simp
    then show ?thesis using 5 op es(1) logic(2) [folded bools [OF \<open>list_all is_bool es\<close>]]
      by (simp del: map_map) (auto simp: ival_def holds_def list_ex_iff)
  next
    case 6
    then obtain b where b: "es = [e, b]" "ival I e \<ge> 0" "ival I b > 0" using two es by (auto split: z3op.splits)
    then show ?thesis using 6 op es(1)
      by (auto simp: ival_binary c_wrap_def c_quot_nonneg smt_div_def smt_mod_def minus_mult_div_eq_mod)
  next
    case 7
    then obtain b where b: "es = [e, b]" "sort_of e = sort_of b" using two es by auto
    have "eval I e = eval I b \<longleftrightarrow> ival I e = ival I b"
      using val_sort_eval [of I e] val_sort_eval [of I b] b(2)
      by (cases "eval I e"; cases "eval I b") (auto simp: ival_def, metis z3sort.inject)
    then show ?thesis using 7 op es(1) b by (auto simp: c_wrap_def) (simp_all add: ival_def)
  next
    case 8
    then obtain b where "es = [e, b]" using two es by auto
    then show ?thesis using 8 op es(1) by (auto simp: c_wrap_def) (auto simp: ival_def)
  qed
qed


lemma names_agree_args: "names_agree I names env (App f es) \<Longrightarrow> e \<in> set es \<Longrightarrow> names_agree I names env e"
  by (fastforce simp: names_agree_def)

lemma typed_value:
  "c_sorted e \<Longrightarrow> plain_divisions I e \<Longrightarrow> names_agree I names env e \<Longrightarrow> c_of names e = Some c \<Longrightarrow>
   c_typed signed_names env c = (False, Some (ival I e))"
proof (induction e arbitrary: c)
  case (App f es)
  have IH: "c_typed signed_names env c' = (False, Some (ival I e))" if "e \<in> set es" "c_of names e = Some c'" for e c'
    using App.IH [OF that(1) _ _ names_agree_args [OF App.prems(3) that(1)] that(2)] App.prems(1,2) that(1)
    by (auto simp: list_all_iff)
  show ?case
  proof (cases "es = []")
    case True
    then show ?thesis using App.prems(3,4)
      by (auto simp: names_agree_def ival_def split: z3op.splits)
  next
    case False
    then obtain e r where es: "es = e # r" by (cases es) auto
    show ?thesis
    proof (cases "c_op_of f")
      case (Some op)
      then obtain cs where cs: "those (map (c_of names) es) = Some cs" "c = CNary op cs" using App.prems(4) False by auto
      have "map (c_typed signed_names env) cs = map (\<lambda>e. (False, Some (ival I e))) es"
        by (rule typed_operands [OF IH cs(1)])
      then show ?thesis using operator_value [OF Some es App.prems(1,2)] cs(2) es by simp
    next
      case None
      consider "f = OUMinus" | "f = ONot" | "f = OIte" using None False App.prems(4) by (cases f) (auto split: list.splits)
      then show ?thesis
      proof cases
        case 1
        then obtain c' where "c_of names e = Some c'" "c = CNegate c'" "r = []" using App.prems(1,4) es by auto
        then show ?thesis using IH [of e c'] es 1 by (simp add: c_wrap_def) (simp add: ival_def)
      next
        case 2
        then obtain c' where "c_of names e = Some c'" "c = CNot c'" "r = []" "is_bool e" using App.prems(1,4) es by auto
        then show ?thesis using IH [of e c'] es 2 by (simp add: holds_ival holds_connectives)
      next
        case 3
        then obtain a b where ab: "r = [a, b]" "is_bool e" "sort_of a = sort_of b"
          using App.prems(1) es by (auto simp: length_Suc_conv numeral_3_eq_3)
        obtain k x y where "c_of names e = Some k" "c_of names a = Some x" "c_of names b = Some y" "c = CCond k x y"
          using App.prems(4) es 3 ab(1) by (auto split: option.splits)
        moreover have "ival I (App f es) = (if holds I e then ival I a else ival I b)"
          using eval_ite [OF ab(3), of I e] 3 es ab(1) by (simp add: ival_def)
        ultimately show ?thesis using IH [of e k] IH [of a x] IH [of b y] es ab(1,2)
          by (simp add: c_wrap_def holds_ival)
      qed
    qed
  qed
qed simp


definition printing_z3 :: z3_api where
  "printing_z3 = ideal_z3\<lparr>z_string := (\<lambda>e. case e of App (ONum n) [] \<Rightarrow> numeral_text n | _ \<Rightarrow> [])\<rparr>"

lemma printing_z3_numerals: "prints_numerals printing_z3"
  by (simp add: prints_numerals_def printing_z3_def)

abbreviation half_of :: "z3expr \<Rightarrow> z3expr" where "half_of e \<equiv> z_div e (z_int 2)"

lemma half_text: "join_expression printing_z3 [''ari_x'' \<mapsto> ''x''] (half_of (z_int_const ''ari_x'')) True = Some (''(x / 2)'', True)"
proof -
  have "nat_to_string 2 = ''2''" by simp
  then show ?thesis by (simp add: constant_text_def printing_z3_def numeral_text_def)
qed


text \<open>Of a negative number the solver takes the floor and C the part before the point.\<close>

theorem negative_dividend_differs:
  "\<exists>c. join_expression printing_z3 [''ari_x'' \<mapsto> ''x''] (half_of (z_int_const ''ari_x'')) True = Some (c_text c, True) \<and>
     ival (\<lambda>f vs. VInt (- 7)) (half_of (z_int_const ''ari_x'')) = - 4 \<and> c_value signed_names (\<lambda>_. - 7) c = Some (- 3)"
proof -
  have "join_expression printing_z3 [''ari_x'' \<mapsto> ''x''] (half_of (z_int_const ''ari_x'')) True =
      Some (c_text (CNary CDiv [CName ''x'', CLit 2]), True)"
    unfolding half_text by (simp add: numeral_text_def)
  moreover have "c_value signed_names (\<lambda>_. - 7) (CNary CDiv [CName ''x'', CLit 2]) = Some (- 3)"
    by (simp add: c_value_def c_wrap_def c_quot_def)
  ultimately show ?thesis by (intro exI conjI) (assumption, simp add: ival_def smt_div_def)
qed


section \<open>The invariants of loops\<close>

text \<open>Polynomials over the constants, and what the simplifier is expected to do with them.\<close>

fun polynomial :: "z3expr \<Rightarrow> bool" where
  "polynomial (Quant q xs b) = False"
| "polynomial (App f es) =
     (list_all polynomial es \<and>
      (case f of
         ONum n \<Rightarrow> es = [] | OUninterp x s \<Rightarrow> es = [] \<and> s = IntSort
       | OAdd \<Rightarrow> es \<noteq> [] | OSub \<Rightarrow> es \<noteq> [] | OMul \<Rightarrow> es \<noteq> [] | OUMinus \<Rightarrow> length es = 1
       | _ \<Rightarrow> False))"

definition keeps_polynomials :: "z3_api \<Rightarrow> bool" where
  "keeps_polynomials z \<longleftrightarrow> (\<forall>e. polynomial e \<longrightarrow> polynomial (z_simplify z e))"

lemma polynomial_sorted: "polynomial e \<Longrightarrow> c_sorted e"
  by (induction e) (auto simp: list_all_iff split: z3op.splits)

lemma polynomial_cong:
  "polynomial e \<Longrightarrow> (\<And>x. z_int_const x \<in> set (subterms e) \<Longrightarrow> I x [] = J x []) \<Longrightarrow> eval I e = eval J e"
proof (induction e)
  case (App f es)
  have "map (eval I) es = map (eval J) es" using App by (auto simp: list_all_iff)
  moreover have "apply_op I f vs = apply_op J f vs" if "vs = map (eval J) es" for vs
    using App.prems that by (cases f) auto
  ultimately show ?case by (simp del: map_eq_conv)
qed simp

lemma polynomial_substitute:
  "polynomial e \<Longrightarrow> eval I base = eval I d \<Longrightarrow> eval I (substitute [(base, d)] e) = eval I e"
proof (induction e)
  case (App f es)
  have "map (eval I) (map (substitute [(base, d)]) es) = map (eval I) es" using App by (auto simp: list_all_iff)
  then show ?case using App.prems(2) by (auto simp del: map_map)
qed simp

lemma polynomial_replaced: "polynomial e \<Longrightarrow> polynomial (substitute [(base, z_int_const x)] e)"
  by (induction e) (auto simp: list_all_iff split: z3op.splits)

lemma polynomial_at:
  "polynomial e \<Longrightarrow> eval I (substitute [(iteration_symbol, z_int k)] e) = eval (bind_ints I [''ari_loop_n''] [k]) e"
proof (induction e)
  case (App f es)
  let ?J = "bind_ints I [''ari_loop_n''] [k]"
  have args: "map (eval I) (map (substitute [(iteration_symbol, z_int k)]) es) = map (eval ?J) es"
    using App by (auto simp: list_all_iff)
  show ?case
  proof (cases "App f es = iteration_symbol")
    case True
    then show ?thesis by (simp add: iteration_symbol_def bind_ints_def)
  next
    case False
    have "apply_op I f vs = apply_op ?J f vs" if "vs = map (eval ?J) es" for vs
      using App.prems False that by (cases f) (auto simp: bind_ints_def iteration_symbol_def)
    then show ?thesis using args False by (simp del: map_map)
  qed
qed simp

text \<open>The value in C of a polynomial with names of both types: its value, modulo the unsigned range where it is unsigned.\<close>

definition typed_names :: "interp \<Rightarrow> (string \<rightharpoonup> string) \<Rightarrow> (string \<Rightarrow> bool) \<Rightarrow> (string \<Rightarrow> int) \<Rightarrow> z3expr \<Rightarrow> bool" where
  "typed_names I names T env e \<longleftrightarrow>
     (\<forall>x y. z_int_const x \<in> set (subterms e) \<and> names x = Some y \<longrightarrow>
        env y = ival I (z_int_const x) \<and> (T y \<longrightarrow> 0 \<le> env y \<and> env y < 2 ^ 64))"

definition reading :: "bool \<Rightarrow> int \<Rightarrow> c_result" where
  "reading u a = (u, Some (c_wrap u a))"

lemma c_wrap_again: "c_wrap w (c_wrap u a) = c_wrap w a" if "u \<Longrightarrow> w"
  using that by (auto simp: c_wrap_def)

lemma binary_reading:
  "c_binary CAdd (reading u a) (reading v b) = reading (u \<or> v) (a + b)"
  "c_binary CSub (reading u a) (reading v b) = reading (u \<or> v) (a - b)"
  "c_binary CMul (reading u a) (reading v b) = reading (u \<or> v) (a * b)"
  by (auto simp: reading_def c_wrap_def mod_simps)

lemma fold_reading:
  "\<exists>w. foldl (c_binary CAdd) (reading u a) (map (\<lambda>(v, b). reading v b) ps) = reading w (a + sum_list (map snd ps))"
  "\<exists>w. foldl (c_binary CSub) (reading u a) (map (\<lambda>(v, b). reading v b) ps) = reading w (foldl (-) a (map snd ps))"
  "\<exists>w. foldl (c_binary CMul) (reading u a) (map (\<lambda>(v, b). reading v b) ps) = reading w (a * prod_list (map snd ps))"
proof (induction ps arbitrary: u a)
  case (Cons p ps)
  obtain v b where p: "p = (v, b)" by fastforce
  { case 1 show ?case using Cons(1) [of "u \<or> v" "a + b"] p by (simp add: binary_reading add.assoc) }
  { case 2 show ?case using Cons(2) [of "u \<or> v" "a - b"] p by (simp add: binary_reading) }
  { case 3 show ?case using Cons(3) [of "u \<or> v" "a * b"] p by (simp add: binary_reading mult.assoc) }
qed auto

lemma typed_names_args: "typed_names I names T env (App f es) \<Longrightarrow> e \<in> set es \<Longrightarrow> typed_names I names T env e"
  by (fastforce simp: typed_names_def)

lemma readings_of:
  assumes "\<And>e c. e \<in> set es \<Longrightarrow> c_of names e = Some c \<Longrightarrow> \<exists>u. c_typed T env c = reading u (ival I e)"
    and "those (map (c_of names) es) = Some cs"
  shows "\<exists>ps. map (c_typed T env) cs = map (\<lambda>(u, a). reading u a) ps \<and> map snd ps = map (ival I) es"
  using those_map_Some [OF assms(2)] assms(1)
proof (induction es cs rule: list_all2_induct)
  case (Cons e es c cs)
  then obtain ps u where "map (c_typed T env) cs = map (\<lambda>(u, a). reading u a) ps" "map snd ps = map (ival I) es"
      "c_typed T env c = reading u (ival I e)"
    by (metis list.set_intros)
  then show ?case by (intro exI [of _ "(u, ival I e) # ps"]) simp
qed simp

lemma polynomial_typed:
  "polynomial e \<Longrightarrow> typed_names I names T env e \<Longrightarrow> c_of names e = Some c \<Longrightarrow>
   \<exists>u. c_typed T env c = reading u (ival I e)"
proof (induction e arbitrary: c)
  case (App f es)
  have values_of: "ival I = (\<lambda>e. int_of (eval I e))" by (rule ext) (simp add: ival_def)
  have IH: "\<exists>u. c_typed T env c' = reading u (ival I e)" if "e \<in> set es" "c_of names e = Some c'" for e c'
    using App.IH [OF that(1) _ typed_names_args [OF App.prems(2) that(1)] that(2)] App.prems(1) that(1)
    by (auto simp: list_all_iff)
  consider n where "f = ONum n" "es = []" | x where "f = OUninterp x IntSort" "es = []"
    | e where "f = OUMinus" "es = [e]" | e r op where "es = e # r" "c_op_of f = Some op" "f = OAdd \<or> f = OSub \<or> f = OMul"
    using App.prems(1) by (cases f; cases es) (auto simp: length_Suc_conv)
  then show ?case
  proof cases
    case 1
    then have "c = CLit n" using App.prems(3) by simp
    moreover have "ival I (App f es) = n" using 1 by (simp add: ival_def)
    ultimately show ?thesis by (intro exI [of _ False]) (simp add: reading_def c_wrap_def)
  next
    case 2
    then obtain y where y: "names x = Some y" "c = CName y" using App.prems(3) by auto
    then have "env y = ival I (z_int_const x)" "T y \<longrightarrow> 0 \<le> env y \<and> env y < 2 ^ 64"
      using App.prems(2) 2 by (auto simp: typed_names_def)
    then show ?thesis using y 2 by (intro exI [of _ "T y"]) (auto simp: reading_def c_wrap_def)
  next
    case 3
    then obtain c' where "c_of names e = Some c'" "c = CNegate c'" using App.prems(3) by auto
    moreover obtain u where "c_typed T env c' = reading u (ival I e)" using IH calculation(1) 3 by auto
    ultimately show ?thesis using 3
      by (intro exI [of _ u]) (auto simp: reading_def c_wrap_def values_of mod_minus_eq)
  next
    case 4
    obtain cs where cs: "those (map (c_of names) es) = Some cs" "c = CNary op cs" using App.prems(3) 4 by auto
    obtain ps where ps: "map (c_typed T env) cs = map (\<lambda>(u, a). reading u a) ps" "map snd ps = map (ival I) es"
      using readings_of [OF IH cs(1)] by blast
    obtain p qs where p: "ps = p # qs" using ps(2) 4(1) by (cases ps) simp_all
    then obtain u where q: "ps = (u, ival I e) # qs" "map snd qs = map (ival I) r"
      using ps(2) 4(1) by (cases p) simp
    have typed: "c_typed T env c = foldl (c_binary op) (reading u (ival I e)) (map (\<lambda>(u, a). reading u a) qs)"
      using cs(2) ps(1) q(1) by simp
    show ?thesis
      using 4 fold_reading [of u "ival I e" qs] q(2) unfolding typed by (auto simp: values_of comp_def)
  qed
qed simp


lemma polynomial_text:
  assumes z: "prints_numerals z" and e: "polynomial e" and t: "c_text_of z names e = Some (Some t)"
    and env: "typed_names I names T env e" and x: "\<not> T x" "env x = ival I e"
  shows "\<exists>c. ''('' @ x @ '' == '' @ t @ '')'' = c_text c \<and> c_value T env c = Some 1"
proof -
  have "join_expression z names e True = Some (t, True)"
    using t by (auto simp: c_text_of_def split: prod.splits if_splits)
  then obtain c where c: "c_of names e = Some c" "t = c_text c"
    using join_text [OF z polynomial_sorted [OF e]] by blast
  obtain u where u: "c_typed T env c = reading u (ival I e)" using polynomial_typed [OF e env c(1)] by blast
  have "''('' @ x @ '' == '' @ t @ '')'' = c_text (CNary CEq [CName x, c])" using c(2) by simp
  moreover have "c_value T env (CNary CEq [CName x, c]) = Some 1"
    using u x by (simp add: c_value_def reading_def c_wrap_def)
  ultimately show ?thesis by blast
qed

lemma candidate_prefix: "starts_with p q \<Longrightarrow> starts_with (candidate_name (p @ r) k) q"
  by (auto simp: candidate_name_def starts_with_iff)

text \<open>The symbols of the program begin with \<open>ari_\<close>.\<close>

definition program_symbols :: "z3expr \<Rightarrow> bool" where
  "program_symbols e \<longleftrightarrow> (\<forall>x. z_int_const x \<in> set (subterms e) \<longrightarrow> starts_with x ''ari_'')"

text \<open>The state of a loop in the iteration \<open>k\<close>: the values of the closed forms there.\<close>

definition at_iteration :: "interp \<Rightarrow> int \<Rightarrow> interp" where
  "at_iteration I k = bind_ints I [''ari_loop_n''] [k]"

definition ghosts_hold :: "string \<Rightarrow> (string \<Rightarrow> int) \<Rightarrow> (string \<Rightarrow> int) \<Rightarrow> loop_ghosts \<Rightarrow> bool" where
  "ghosts_hold iteration entry env g \<longleftrightarrow>
     (\<forall>(ghost, name)\<in>set (initial_values g). ghost \<noteq> iteration \<longrightarrow> env ghost = entry name)"

lemma ghost_form_text:
  assumes z: "simplify_ok z" "prints_numerals z" "keeps_polynomials z"
    and e: "polynomial e" "program_symbols e"
    and ghost: "starts_with ghost ''arithexe_loop_''" "ghost \<noteq> iteration"
    and env: "env iteration = n" "0 \<le> n" "n < 2 ^ 64" "env ghost = ival (at_iteration I 0) e"
      "name \<noteq> iteration" "env name = ival (at_iteration I n) e"
    and t: "c_text_of z [''ari_loop_n'' \<mapsto> iteration, ghost \<mapsto> ghost]
      (normalized_form z ghost (z_simplify z (substitute [(iteration_symbol, z_int 0)] e)) e) = Some (Some t)"
  shows "\<exists>c. ''('' @ name @ '' == '' @ t @ '')'' = c_text c \<and> c_value (\<lambda>y. y = iteration) env c = Some 1"
proof -
  let ?base = "z_simplify z (substitute [(iteration_symbol, z_int 0)] e)" and ?k = "ival (at_iteration I 0) e"
  let ?J = "bind_ints (at_iteration I n) [ghost] [?k]"
  have fresh: "ghost \<noteq> x" if "z_int_const x \<in> set (subterms e)" for x
    using e(2) that ghost(1) by (auto simp: program_symbols_def starts_with_iff)
  have int: "is_int e" using e(1) by (cases e) (auto simp: is_int_def split: z3op.splits)
  have same: "eval ?J e = eval (at_iteration I n) e"
    using fresh by (intro polynomial_cong [OF e(1)]) (auto simp: bind_ints_def)
  have "eval ?J ?base = eval (bind_ints ?J [''ari_loop_n''] [0]) e"
    by (simp add: simplify_okD [OF z(1)] polynomial_at [OF e(1)])
  also have "\<dots> = eval (at_iteration I 0) e"
    using fresh by (intro polynomial_cong [OF e(1)]) (auto simp: bind_ints_def at_iteration_def)
  also have "\<dots> = eval ?J (z_int_const ghost)" using eval_int [OF int] by (simp add: bind_ints_def)
  finally have base: "eval ?J ?base = eval ?J (z_int_const ghost)" .
  have "eval ?J (normalized_form z ghost ?base e) = eval ?J e"
    by (simp only: normalized_form_def simplify_okD [OF z(1)] polynomial_substitute [OF e(1) base])
  then have form: "ival ?J (normalized_form z ghost ?base e) = ival (at_iteration I n) e" using same by (simp add: ival_def)
  have poly: "polynomial (normalized_form z ghost ?base e)"
    using z(3) polynomial_replaced [OF e(1)] by (simp add: normalized_form_def keeps_polynomials_def)
  have "ghost \<noteq> ''ari_loop_n''" using ghost(1) by (auto simp: starts_with_iff)
  then have "ival ?J (z_int_const ''ari_loop_n'') = n" "ival ?J (z_int_const ghost) = ?k"
    by (simp_all add: ival_def bind_ints_def at_iteration_def)
  then have "typed_names ?J [''ari_loop_n'' \<mapsto> iteration, ghost \<mapsto> ghost] (\<lambda>y. y = iteration) env (normalized_form z ghost ?base e)"
    using env(1-4) ghost(2) by (auto simp: typed_names_def)
  then show ?thesis using polynomial_text [OF z(2) poly t] env(5,6) form by simp
qed

lemma add_variable_holds:
  assumes z: "simplify_ok z" "prints_numerals z" "keeps_polynomials z"
    and e: "polynomial e" "program_symbols e" and prefix: "starts_with prefix ''arithexe_loop_''"
    and used: "iteration \<in> set (used_names g)"
    and env: "env iteration = n" "0 \<le> n" "n < 2 ^ 64" "name \<noteq> iteration" "env name = ival (at_iteration I n) e"
      "entry name = ival (at_iteration I 0) e"
    and run: "add_variable z prefix iteration (v, name, ty, e) g = Some g'" and ghosts: "ghosts_hold iteration entry env g'"
  shows "iteration \<in> set (used_names g')" "set (initial_values g) \<subseteq> set (initial_values g')"
    "\<exists>ts. conjuncts g' = conjuncts g @ ts \<and>
       (\<forall>t\<in>set ts. \<exists>c. t = c_text c \<and> c_value (\<lambda>y. y = iteration) env c = Some 1)"
proof -
  let ?base = "z_simplify z (substitute [(iteration_symbol, z_int 0)] e)"
  define ghost where "ghost = unique_from (initial_ghost_name prefix name) (used_names g) 0"
  have new: "ghost \<noteq> iteration" using used unique_from_fresh unfolding ghost_def by metis
  have start: "starts_with ghost ''arithexe_loop_''"
    using unique_from_first candidate_prefix [OF prefix] unfolding ghost_def initial_ghost_name_def by metis
  consider r where "closed_constant ?base" "c_text_of z [''ari_loop_n'' \<mapsto> iteration] e = Some r"
      "g' = add_conjunct name r g"
    | r g0 where "\<not> closed_constant ?base"
      "c_text_of z [''ari_loop_n'' \<mapsto> iteration, ghost \<mapsto> ghost] (normalized_form z ghost ?base e) = Some r"
      "g0 = g\<lparr>used_names := ghost # used_names g, new_ghosts := new_ghosts g @ [(ghost, ty)],
         initial_values := initial_values g @ [(ghost, name)]\<rparr>"
      "g' = add_conjunct name r g0"
    using run by (cases "closed_constant ?base")
      (auto simp: add_variable_def unique_identifier_def Let_def ghost_def [symmetric])
  then have "iteration \<in> set (used_names g') \<and> set (initial_values g) \<subseteq> set (initial_values g') \<and>
    (\<exists>ts. conjuncts g' = conjuncts g @ ts \<and>
       (\<forall>t\<in>set ts. \<exists>c. t = c_text c \<and> c_value (\<lambda>y. y = iteration) env c = Some 1))"
  proof cases
    case 1
    show ?thesis
    proof (cases r)
      case (Some t)
      have "ival (at_iteration I n) (z_int_const ''ari_loop_n'') = n"
        by (simp add: ival_def bind_ints_def at_iteration_def)
      then have "typed_names (at_iteration I n) [''ari_loop_n'' \<mapsto> iteration] (\<lambda>y. y = iteration) env e"
        using env(1-3) by (auto simp: typed_names_def)
      then have "\<exists>c. ''('' @ name @ '' == '' @ t @ '')'' = c_text c \<and> c_value (\<lambda>y. y = iteration) env c = Some 1"
        using polynomial_text [OF z(2) e(1) 1(2) [unfolded Some]] env(4,5) by simp
      then show ?thesis using used 1(3) Some by (auto simp: add_conjunct_def)
    qed (use used 1(3) in \<open>simp add: add_conjunct_def\<close>)
  next
    case 2
    have "(ghost, name) \<in> set (initial_values g')" using 2(3,4) by (cases r) (simp_all add: add_conjunct_def)
    then have entry: "env ghost = ival (at_iteration I 0) e" using ghosts new env(6) by (auto simp: ghosts_hold_def)
    show ?thesis
    proof (cases r)
      case (Some t)
      have "\<exists>c. ''('' @ name @ '' == '' @ t @ '')'' = c_text c \<and> c_value (\<lambda>y. y = iteration) env c = Some 1"
        by (rule ghost_form_text [OF z e start new env(1-3) entry env(4,5) 2(2) [unfolded Some]])
      then show ?thesis using used 2(3,4) Some by (auto simp: add_conjunct_def)
    qed (use used 2(3,4) in \<open>auto simp: add_conjunct_def\<close>)
  qed
  then show "iteration \<in> set (used_names g')" "set (initial_values g) \<subseteq> set (initial_values g')"
    "\<exists>ts. conjuncts g' = conjuncts g @ ts \<and>
       (\<forall>t\<in>set ts. \<exists>c. t = c_text c \<and> c_value (\<lambda>y. y = iteration) env c = Some 1)"
    by blast+
qed


lemma add_variable_grows:
  assumes "add_variable z prefix iteration v g = Some g'"
  shows "set (initial_values g) \<subseteq> set (initial_values g')"
  using assms by (cases v) (auto simp: add_variable_def Let_def add_conjunct_def split: prod.splits if_splits option.splits)

lemma add_variables_grow:
  "add_variables z prefix iteration vs g = Some g' \<Longrightarrow> set (initial_values g) \<subseteq> set (initial_values g')"
  by (induction vs arbitrary: g) (use add_variable_grows in \<open>fastforce split: Option.bind_splits\<close>)+

lemma ghosts_hold_mono:
  "ghosts_hold iteration entry env g' \<Longrightarrow> set (initial_values g) \<subseteq> set (initial_values g') \<Longrightarrow> ghosts_hold iteration entry env g"
  by (auto simp: ghosts_hold_def)

text \<open>The variables of a loop in one iteration, and at its entry.\<close>

definition loop_state ::
    "interp \<Rightarrow> int \<Rightarrow> string \<Rightarrow> (value_id \<times> string \<times> string \<times> z3expr) list \<Rightarrow> (string \<Rightarrow> int) \<Rightarrow> (string \<Rightarrow> int) \<Rightarrow> bool" where
  "loop_state I n iteration vs entry env \<longleftrightarrow>
     env iteration = n \<and> 0 \<le> n \<and> n < 2 ^ 64 \<and>
     (\<forall>(v, name, ty, e)\<in>set vs. name \<noteq> iteration \<and> env name = ival (at_iteration I n) e \<and>
        entry name = ival (at_iteration I 0) e)"

lemma add_variables_hold:
  assumes z: "simplify_ok z" "prints_numerals z" "keeps_polynomials z" and prefix: "starts_with prefix ''arithexe_loop_''"
  shows "\<forall>(v, name, ty, e)\<in>set vs. polynomial e \<and> program_symbols e \<Longrightarrow> iteration \<in> set (used_names g) \<Longrightarrow>
    loop_state I n iteration vs entry env \<Longrightarrow> add_variables z prefix iteration vs g = Some g' \<Longrightarrow>
    ghosts_hold iteration entry env g' \<Longrightarrow>
    \<exists>ts. conjuncts g' = conjuncts g @ ts \<and>
      (\<forall>t\<in>set ts. \<exists>c. t = c_text c \<and> c_value (\<lambda>y. y = iteration) env c = Some 1)"
proof (induction vs arbitrary: g)
  case (Cons var vs)
  obtain v name ty e where var: "var = (v, name, ty, e)" by (cases var) auto
  obtain g1 where run: "add_variable z prefix iteration (v, name, ty, e) g = Some g1"
      "add_variables z prefix iteration vs g1 = Some g'"
    using Cons.prems(4) var by (auto split: Option.bind_splits)
  have e: "polynomial e" "program_symbols e" using Cons.prems(1) var by auto
  have env: "env iteration = n" "0 \<le> n" "n < 2 ^ 64" "name \<noteq> iteration" "env name = ival (at_iteration I n) e"
      "entry name = ival (at_iteration I 0) e"
    using Cons.prems(3) var by (auto simp: loop_state_def)
  have ghosts: "ghosts_hold iteration entry env g1"
    using Cons.prems(5) add_variables_grow [OF run(2)] ghosts_hold_mono by blast
  note first = add_variable_holds [OF z e prefix Cons.prems(2) env run(1) ghosts]
  obtain ts where ts: "conjuncts g1 = conjuncts g @ ts"
      "\<forall>t\<in>set ts. \<exists>c. t = c_text c \<and> c_value (\<lambda>y. y = iteration) env c = Some 1"
    using first(3) by blast
  have "\<forall>(v, name, ty, e)\<in>set vs. polynomial e \<and> program_symbols e" "loop_state I n iteration vs entry env"
    using Cons.prems(1,3) by (auto simp: loop_state_def)
  then obtain us where us: "conjuncts g' = conjuncts g1 @ us"
      "\<forall>t\<in>set us. \<exists>c. t = c_text c \<and> c_value (\<lambda>y. y = iteration) env c = Some 1"
    using Cons.IH [OF _ first(1) _ run(2) Cons.prems(5)] by blast
  then have "conjuncts g' = conjuncts g @ (ts @ us)"
      "\<forall>t\<in>set (ts @ us). \<exists>c. t = c_text c \<and> c_value (\<lambda>y. y = iteration) env c = Some 1"
    using ts by auto
  then show ?case by blast
qed simp


text \<open>A variable that counts from the value of a parameter.\<close>

abbreviation counted_form :: z3expr where "counted_form \<equiv> z_add (z_int_const ''ari_a'') iteration_symbol"

definition rewriting_z3 :: "z3expr \<Rightarrow> z3expr \<Rightarrow> z3_api" where
  "rewriting_z3 a b = printing_z3\<lparr>z_simplify := (\<lambda>e. if e = a then b else e)\<rparr>"

abbreviation counted_z3 :: z3_api where
  "counted_z3 \<equiv> rewriting_z3 (z_add (z_int_const ''ari_a'') (z_int 0)) (z_int_const ''ari_a'')"

lemma rewriting_z3_ok:
  "(\<And>I. eval I a = eval I b) \<Longrightarrow> simplify_ok (rewriting_z3 a b)" "prints_numerals (rewriting_z3 a b)"
  "polynomial b \<Longrightarrow> keeps_polynomials (rewriting_z3 a b)"
  using printing_z3_numerals
  by (simp_all add: simplify_ok_def rewriting_z3_def prints_numerals_def keeps_polynomials_def)



text \<open>
  The counter is unsigned, and it makes the other side of a comparison unsigned: a variable that counts down from 5
  and stays at 0 has an invariant that is false in C after the sixth iteration.
\<close>

abbreviation clamped_form :: z3expr where
  "clamped_form \<equiv> z_ite (z_ge (z_sub (z_int 5) iteration_symbol) (z_int 0)) (z_sub (z_int 5) iteration_symbol) (z_int 0)"

abbreviation clamped_start :: z3expr where
  "clamped_start \<equiv> z_ite (z_ge (z_sub (z_int 5) (z_int 0)) (z_int 0)) (z_sub (z_int 5) (z_int 0)) (z_int 0)"

definition clamped_text :: c_expr where
  "clamped_text = CNary CEq [CName ''x'',
     CCond (CNary CGe [CNary CSub [CLit 5, CName ''it''], CLit 0]) (CNary CSub [CLit 5, CName ''it'']) (CLit 0)]"

theorem conditional_invariant_fails:
  "simplify_ok (rewriting_z3 clamped_start (z_int 5)) \<and>
   (\<exists>g. add_variables (rewriting_z3 clamped_start (z_int 5)) ''arithexe_loop_0'' ''it''
      [(0, ''x'', ''int'', clamped_form)] (start_ghosts ''it'' [''it'']) = Some g \<and>
      conjuncts g = [''it >= 0'', c_text clamped_text]) \<and>
   ival (at_iteration zero_interp 6) clamped_form = 0 \<and>
   c_value (\<lambda>y. y = ''it'') (\<lambda>y. if y = ''it'' then 6 else 0) clamped_text = Some 0"
proof (intro conjI)
  let ?z = "rewriting_z3 clamped_start (z_int 5)"
  show "simplify_ok ?z" by (rule rewriting_z3_ok(1)) simp
  have digits: "nat_to_string 5 = ''5''" "nat_to_string 0 = ''0''" by code_simp+
  have start: "substitute [(iteration_symbol, z_int 0)] clamped_form = clamped_start"
    by (simp add: iteration_symbol_def)
  have rendered: "c_text_of ?z [''ari_loop_n'' \<mapsto> ''it''] clamped_form =
      Some (Some (c_text (CCond (CNary CGe [CNary CSub [CLit 5, CName ''it''], CLit 0]) (CNary CSub [CLit 5, CName ''it'']) (CLit 0))))"
    by (simp add: c_text_of_def constant_text_def iteration_symbol_def rewriting_z3_def printing_z3_def numeral_text_def digits)
  have simplified: "z_simplify ?z clamped_start = z_int 5" by (simp add: rewriting_z3_def)
  show "\<exists>g. add_variables ?z ''arithexe_loop_0'' ''it'' [(0, ''x'', ''int'', clamped_form)] (start_ghosts ''it'' [''it'']) = Some g \<and>
      conjuncts g = [''it >= 0'', c_text clamped_text]"
    unfolding add_variables.simps add_variable_def Let_def prod.case start simplified
    by (simp add: closed_constant_def unique_identifier_def Let_def rendered add_conjunct_def start_ghosts_def clamped_text_def
        split: prod.splits)
  show "ival (at_iteration zero_interp 6) clamped_form = 0"
    by (simp add: ival_def at_iteration_def bind_ints_def iteration_symbol_def)
  show "c_value (\<lambda>y. y = ''it'') (\<lambda>y. if y = ''it'' then 6 else 0) clamped_text = Some 0"
    by (simp add: clamped_text_def c_value_def c_wrap_def)
qed

section \<open>The names of ghost variables\<close>

definition names_apart :: "string list \<Rightarrow> string list \<Rightarrow> string list \<Rightarrow> bool" where
  "names_apart source used ghosts \<longleftrightarrow>
     set source \<union> set ghosts \<subseteq> set used \<and> distinct ghosts \<and> set ghosts \<inter> set source = {}"

lemma names_apart_new:
  assumes "names_apart source used ghosts" "unique_identifier base used = (name, used')"
  shows "names_apart source used' (ghosts @ [name])" "names_apart source used' ghosts"
  using assms unique_from_fresh [of base used 0]
  by (auto simp: names_apart_def unique_identifier_def Let_def)

lemma add_variable_names:
  assumes "add_variable z prefix iteration v g = Some g'" "names_apart source (used_names g) (ghosts @ map fst (new_ghosts g))"
  shows "names_apart source (used_names g') (ghosts @ map fst (new_ghosts g'))"
proof -
  obtain i name ty e where v: "v = (i, name, ty, e)" by (cases v) auto
  obtain ghost used where new: "unique_identifier (initial_ghost_name prefix name) (used_names g) = (ghost, used)" by fastforce
  show ?thesis
    using assms names_apart_new(1) [OF assms(2) new] new
    by (auto simp: v add_variable_def Let_def add_conjunct_def split: if_splits option.splits)
qed

lemma add_variables_names:
  "add_variables z prefix iteration vs g = Some g' \<Longrightarrow> names_apart source (used_names g) (ghosts @ map fst (new_ghosts g)) \<Longrightarrow>
   names_apart source (used_names g') (ghosts @ map fst (new_ghosts g'))"
  by (induction vs arbitrary: g) (use add_variable_names in \<open>fastforce split: Option.bind_splits\<close>)+

lemma names_apart_fewer: "names_apart source used (ghosts @ others) \<Longrightarrow> names_apart source used ghosts"
  by (auto simp: names_apart_def)

lemma add_loop_names:
  assumes run: "add_loop z d m input ls c (index, used, r) = Some (index', used', r')"
    and apart: "names_apart source used (map fst (ghost_variables r))"
  shows "names_apart source used' (map fst (ghost_variables r'))"
proof -
  let ?base = "(''arithexe_loop_'' @ nat_to_string index) @ ''_iteration''"
  obtain iteration used1 where new: "unique_identifier ?base used = (iteration, used1)" by fastforce
  have start: "names_apart source (used_names (start_ghosts iteration used1))
      (map fst (ghost_variables r) @ map fst (new_ghosts (start_ghosts iteration used1)))"
    using names_apart_new(1) [OF apart new] by (simp add: start_ghosts_def)
  consider "used' = used" "r' = r"
    | g where "add_variables z (''arithexe_loop_'' @ nat_to_string index) iteration (cert_variables c)
        (start_ghosts iteration used1) = Some g" "used' = used_names g"
        "ghost_variables r' = ghost_variables r \<or> ghost_variables r' = ghost_variables r @ new_ghosts g"
    using run new
    by (auto simp: add_loop_def Let_def split: option.splits bool.splits Option.bind_splits if_splits)
  then show ?thesis
  proof cases
    case 2
    note all = add_variables_names [OF 2(1) start]
    show ?thesis using 2(2,3) all names_apart_fewer [OF all] by auto
  qed (use apart in simp)
qed

lemma add_loops_names:
  "add_loops z d m input ls cs (index, used, r) = Some r' \<Longrightarrow> names_apart source used (map fst (ghost_variables r)) \<Longrightarrow>
   \<exists>used'. names_apart source used' (map fst (ghost_variables r'))"
proof (induction cs arbitrary: index used r)
  case (Cons c cs)
  then obtain index1 used1 r1 where "add_loop z d m input ls c (index, used, r) = Some (index1, used1, r1)"
      "add_loops z d m input ls cs (index1, used1, r1) = Some r'"
    by (auto split: Option.bind_splits)
  then show ?case using Cons.IH add_loop_names Cons.prems(2) by blast
qed auto

text \<open>C29: The ghost variables of a witness have different names, and none of them is a name of the source.\<close>

theorem ghost_names_apart:
  assumes "build_correctness_certificate z d m input file loops functions = Some r"
  shows "distinct (map fst (ghost_variables r)) \<and>
    set (map fst (ghost_variables r)) \<inter> set (source_identifiers (read_source_lines file)) = {}"
proof -
  obtain contracts where "add_loops z d m input (read_source_lines file) loops
      (0, source_identifiers (read_source_lines file), empty_certificate\<lparr>generated_contracts := contracts\<rparr>) = Some r"
    using assms by (auto simp: build_correctness_certificate_def Let_def split: Option.bind_splits)
  moreover have "names_apart (source_identifiers (read_source_lines file)) (source_identifiers (read_source_lines file))
      (map fst (ghost_variables (empty_certificate\<lparr>generated_contracts := contracts\<rparr>)))"
    by (simp add: names_apart_def empty_certificate_def)
  ultimately show ?thesis using add_loops_names by (fastforce simp: names_apart_def)
qed

text \<open>A loop of a program of two lines.\<close>

definition two_lines :: "string list" where
  "two_lines = [''x=a;'', ''while(1){x;}'']"

definition two_line_debug :: debug_info where
  "two_line_debug = \<lparr>debug_loc_of = (\<lambda>_. None), loop_start_of = (\<lambda>_. Some ([], 2, 1)), subprogram_of = (\<lambda>_. None)\<rparr>"

definition counted_certificate :: loop_certificate where
  "counted_certificate = \<lparr>cert_loop = 0, cert_variables = [(0, ''x'', ''int'', counted_form)]\<rparr>"

lemma two_lines_locations:
  "read_source_lines (Some (''x=a;'' @ CHR 0x0A # ''while(1){x;}'')) = two_lines"
  "source_identifiers two_lines = [''x'', ''a'', ''while'', ''x'']"
  "loop_keyword_location two_line_debug m 0 [] two_lines = Some (2, 1)"
  "loop_body_location (2, 1) two_lines = Some (2, 9)"
  "pre_loop_statement_location (2, 1) two_lines = Some (1, 1)"
proof -
  have "matching_location [] (Some ([], 2, 1)) = Some (2, 1)" by code_simp
  moreover have "map_option (\<lambda>p. (2 :: nat, p + 1)) (loop_keyword_position (two_lines ! (2 - 1)) 1) = Some (2, 1)"
    "length two_lines = 2" by code_simp+
  ultimately show "loop_keyword_location two_line_debug m 0 [] two_lines = Some (2, 1)"
    by (simp add: loop_keyword_location_def two_line_debug_def Let_def)
qed code_simp+

lemma two_lines_names:
  "unique_identifier ((''arithexe_loop_'' @ nat_to_string 0) @ ''_iteration'') [''x'', ''a'', ''while'', ''x''] =
     (''arithexe_loop_0_iteration'', [''arithexe_loop_0_iteration'', ''x'', ''a'', ''while'', ''x''])"
  "unique_identifier (initial_ghost_name (''arithexe_loop_'' @ nat_to_string 0) ''x'')
     [''arithexe_loop_0_iteration'', ''x'', ''a'', ''while'', ''x''] =
     (''arithexe_loop_0_x_initial'', [''arithexe_loop_0_x_initial'', ''arithexe_loop_0_iteration'', ''x'', ''a'', ''while'', ''x''])"
  by code_simp+

theorem ghost_names_apart_witness:
  "\<forall>m. \<exists>r. build_correctness_certificate counted_z3 two_line_debug m [] (Some (''x=a;'' @ CHR 0x0A # ''while(1){x;}''))
      [counted_certificate] [] = Some r \<and>
     map fst (ghost_variables r) = [''arithexe_loop_0_iteration'', ''arithexe_loop_0_x_initial''] \<and>
     distinct (map fst (ghost_variables r)) \<and> set (map fst (ghost_variables r)) \<inter> {''x'', ''a'', ''while''} = {}"
proof
  fix m :: llvm_module
  obtain g where g: "add_variables counted_z3 (''arithexe_loop_'' @ nat_to_string 0) ''arithexe_loop_0_iteration''
        [(0, ''x'', ''int'', counted_form)]
        (start_ghosts ''arithexe_loop_0_iteration'' [''arithexe_loop_0_iteration'', ''x'', ''a'', ''while'', ''x'']) = Some g"
      "map fst (new_ghosts g) = [''arithexe_loop_0_iteration'', ''arithexe_loop_0_x_initial'']" "length (conjuncts g) = 2"
    using two_lines_names(2)
    by (simp add: add_variable_def start_ghosts_def Let_def rewriting_z3_def printing_z3_def iteration_symbol_def
        closed_constant_def normalized_form_def c_text_of_def constant_text_def add_conjunct_def)
  obtain r where r: "build_correctness_certificate counted_z3 two_line_debug m []
        (Some (''x=a;'' @ CHR 0x0A # ''while(1){x;}'')) [counted_certificate] [] = Some r" "ghost_variables r = new_ghosts g"
    unfolding build_correctness_certificate_def two_lines_locations Let_def add_loops.simps add_loop_def
    by (simp add: two_lines_locations two_lines_locations [unfolded One_nat_def] two_lines_names(1)
        counted_certificate_def g empty_certificate_def
        del: append.simps append_assoc nat_to_string_digits add_variables.simps)
  have "map fst (ghost_variables r) = [''arithexe_loop_0_iteration'', ''arithexe_loop_0_x_initial'']"
    using r(2) g(2) by simp
  moreover have "set [''x'', ''a'', ''while'', ''x''] = {''x'', ''a'', ''while''}" by auto
  moreover note ghost_names_apart [OF r(1), unfolded two_lines_locations]
  ultimately show "\<exists>r. build_correctness_certificate counted_z3 two_line_debug m [] (Some (''x=a;'' @ CHR 0x0A # ''while(1){x;}''))
      [counted_certificate] [] = Some r \<and>
     map fst (ghost_variables r) = [''arithexe_loop_0_iteration'', ''arithexe_loop_0_x_initial''] \<and>
     distinct (map fst (ghost_variables r)) \<and> set (map fst (ghost_variables r)) \<inter> {''x'', ''a'', ''while''} = {}"
    using r(1) by (intro exI [of _ r] conjI) (assumption | simp only:)+
qed

text \<open>
  The header of an enclosing \<open>for\<close> loop has semicolons, so it counts as the statement before an inner loop, whose
  ghosts are then set before the outer loop only.
\<close>

lemma outer_header_counts_as_statement:
  "pre_loop_statement_location (2, 3) [''for (i=0; i<n; i++) {'', ''  while (x < i) {''] = Some (1, 1)"
  by code_simp

text \<open>A parenthesis in a comment moves the body of a loop: the search for it does not skip comments.\<close>

lemma comment_moves_body:
  "loop_body_location (1, 1) [''while (x /* ( */ < i) { x; }''] = None"
  by code_simp

section \<open>The inputs of a violation\<close>

text \<open>The cache changes nothing.\<close>

lemma locate_inputs_cached:
  "\<forall>(i, loc)\<in>set cache. loc = find_location i \<Longrightarrow>
   locate_inputs find_location cache inputs = those (map (\<lambda>(i, val). map_option (Pair val) (find_location i)) inputs)"
proof (induction inputs arbitrary: cache)
  case (Cons p inputs)
  obtain i val where p: "p = (i, val)" by fastforce
  define cache' where "cache' = (case map_of cache i of Some _ \<Rightarrow> cache | None \<Rightarrow> (i, find_location i) # cache)"
  have ok: "\<forall>(i, loc)\<in>set cache'. loc = find_location i" using Cons.prems by (auto simp: cache'_def split: option.splits)
  have "map_of cache' i = Some (find_location i)"
    using Cons.prems map_of_SomeD [of cache i] by (auto simp: cache'_def split: option.splits)
  then show ?case using Cons.IH [OF ok]
    by (simp add: p cache'_def [symmetric] Let_def split: option.splits)
qed simp

end
