(* ===== verification/Driver.thy ===== *)
theory Driver
  imports Witness_Writer Rec_Worker
begin

text \<open>
  The command line (tools/arith_exe.cpp): the options, the specification, the settings of the environment, one
  verification and its answer.  The frontend that compiles the source and builds the engine's environment is a
  parameter (\<open>driver_env\<close>), as are the files.  Logging is left out.
\<close>

section \<open>Options\<close>

record options =
  bounded_cfinite_enabled :: bool
  poly_expr_strategy :: string
  poly_expr_degree :: "int option"
  poly_expr_order :: int
  witness_enabled :: bool
  verbose :: bool
  ignore_constraints :: bool
  witness_path :: string
  property_file :: string
  opt_data_model :: string
  source_file :: string

definition default_options :: options where
  "default_options = \<lparr>bounded_cfinite_enabled = True, poly_expr_strategy = ''general'', poly_expr_degree = None,
     poly_expr_order = 4, witness_enabled = True, verbose = False, ignore_constraints = False,
     witness_path = ''witness.yml'', property_file = [], opt_data_model = ''LP64'', source_file = []\<rparr>"

definition is_poly_expr_strategy :: "string \<Rightarrow> bool" where
  "is_poly_expr_strategy s = (s \<in> set [''auto'', ''special'', ''algorithm2'', ''algorithm-2'', ''nested'', ''nondet'',
     ''spectral'', ''spectral-nd'', ''general''])"

text \<open>What is behind the given prefix.\<close>

definition option_value :: "string \<Rightarrow> string \<Rightarrow> string option" where
  "option_value prefix arg = (if starts_with arg prefix then Some (drop (length prefix) arg) else None)"

datatype 'a parsed = Parsed 'a | Exit nat

text \<open>An argument that stands alone.\<close>

definition parse_argument :: "string \<Rightarrow> options \<Rightarrow> options parsed" where
  "parse_argument arg o' =
     (if arg = ''--enable-bounded-cfinite'' then Parsed (o'\<lparr>bounded_cfinite_enabled := True\<rparr>)
      else if arg = ''--verbose'' \<or> arg = ''-v'' then Parsed (o'\<lparr>verbose := True\<rparr>)
      else if arg = ''--ignore-bitwidth-constraints'' \<or> arg = ''--ignore-32bit-constraints''
      then Parsed (o'\<lparr>ignore_constraints := True\<rparr>)
      else if arg = ''--disable-bounded-cfinite'' then Parsed (o'\<lparr>bounded_cfinite_enabled := False\<rparr>)
      else case option_value ''--poly-expr-strategy='' arg of
        Some v \<Rightarrow> if is_poly_expr_strategy v then Parsed (o'\<lparr>poly_expr_strategy := v\<rparr>) else Exit 1
      | None \<Rightarrow>
      (case option_value ''--poly-expr-degree='' arg of
        Some v \<Rightarrow> (case stoi v of
            Some n \<Rightarrow> if n < 0 then Exit 1 else Parsed (o'\<lparr>poly_expr_degree := Some n\<rparr>)
          | None \<Rightarrow> Exit 1)
      | None \<Rightarrow>
      (case option_value ''--poly-expr-order='' arg of
        Some v \<Rightarrow> (case stoi v of
            Some n \<Rightarrow> if n < 1 then Exit 1 else Parsed (o'\<lparr>poly_expr_order := n\<rparr>)
          | None \<Rightarrow> Exit 1)
      | None \<Rightarrow>
      if arg = ''--no-witness'' then Parsed (o'\<lparr>witness_enabled := False\<rparr>)
      else case option_value ''--witness='' arg of
        Some v \<Rightarrow> if v = [] then Exit 1 else Parsed (o'\<lparr>witness_path := v\<rparr>)
      | None \<Rightarrow>
      (case option_value ''--property-file='' arg of
        Some v \<Rightarrow> Parsed (o'\<lparr>property_file := v\<rparr>)
      | None \<Rightarrow>
      (case option_value ''--data-model='' arg of
        Some v \<Rightarrow> if v = ''ILP32'' \<or> v = ''LP64'' then Parsed (o'\<lparr>opt_data_model := v\<rparr>) else Exit 1
      | None \<Rightarrow>
      if arg = ''--help'' \<or> arg = ''-h'' then Exit 0
      else if starts_with arg ''-'' then Exit 1
      else if source_file o' = [] then Parsed (o'\<lparr>source_file := arg\<rparr>)
      else Exit 1)))))"

text \<open>Two options take the next argument for their value, whatever it is.\<close>

fun parse_arguments :: "string list \<Rightarrow> options \<Rightarrow> options parsed" where
  "parse_arguments [] o' = (if source_file o' = [] then Exit 1 else Parsed o')"
| "parse_arguments (arg # rest) o' =
     (if arg = ''--witness''
      then (case rest of [] \<Rightarrow> Exit 1 | v # vs \<Rightarrow> parse_arguments vs (o'\<lparr>witness_path := v\<rparr>))
      else if arg = ''--property-file''
      then (case rest of [] \<Rightarrow> Exit 1 | v # vs \<Rightarrow> parse_arguments vs (o'\<lparr>property_file := v\<rparr>))
      else case parse_argument arg o' of
          Exit n \<Rightarrow> Exit n
        | Parsed o'' \<Rightarrow> parse_arguments rest o'')"

definition parse_options :: "string list \<Rightarrow> options parsed" where
  "parse_options arguments = (if arguments = [] then Exit 1 else parse_arguments arguments default_options)"

text \<open>The variables that are set for the recurrence solver; a degree that is not given is removed.\<close>

definition environment_settings :: "options \<Rightarrow> (string \<times> string option) list" where
  "environment_settings o' =
     [(''ARITHEXE_ENABLE_BOUNDED_CFINITE'', Some (if bounded_cfinite_enabled o' then ''1'' else ''0'')),
      (''ARITHEXE_POLY_EXPR_STRATEGY'', Some (poly_expr_strategy o')),
      (''ARITHEXE_POLY_EXPR_DEGREE'', map_option int_to_string (poly_expr_degree o')),
      (''ARITHEXE_POLY_EXPR_ORDER'', Some (int_to_string (poly_expr_order o'))),
      (''ARITHEXE_DATA_MODEL'', Some (opt_data_model o'))]"

section \<open>The specification\<close>

text \<open>Runs of white space become one blank, and there is none at either end.\<close>

fun normalize_spaces :: "string \<Rightarrow> bool \<Rightarrow> string \<Rightarrow> string" where
  "normalize_spaces normalized pending [] = normalized"
| "normalize_spaces normalized pending (c # s) =
     (if is_space c then normalize_spaces normalized (normalized \<noteq> []) s
      else normalize_spaces (normalized @ (if pending then [CHR '' ''] else []) @ [c]) False s)"

definition read_specification :: "string option \<Rightarrow> string option" where
  "read_specification file =
     (case file of
        None \<Rightarrow> None
      | Some raw \<Rightarrow> let normalized = normalize_spaces [] False raw in if normalized = [] then None else Some normalized)"

definition is_supported_specification :: "string \<Rightarrow> bool" where
  "is_supported_specification s =
     (contains_str s ''G ! call(reach_error())'' \<or> contains_str s ''G ! call(__VERIFIER_error())'')"

definition default_specification :: string where
  "default_specification = ''CHECK( init(main()), LTL(G ! call(reach_error())) )''"

definition specification_of :: "(string \<Rightarrow> string option) \<Rightarrow> options \<Rightarrow> string option" where
  "specification_of files o' =
     (if property_file o' = [] then Some default_specification
      else case read_specification (files (property_file o')) of
          None \<Rightarrow> None
        | Some s \<Rightarrow> if is_supported_specification s then Some s else None)"

section \<open>One run\<close>

text \<open>
  The files, what the frontend makes of a source under the settings of the environment, the fuel of an instruction
  and of the engine, and what the writer of witnesses is given.
\<close>

record driver_env =
  de_file :: "string \<Rightarrow> string option"
  de_frontend :: "(string \<times> string option) list \<Rightarrow> string \<Rightarrow> exec_error + exec_env"
  de_depth :: nat
  de_fuel :: nat
  de_witness :: "exec_env \<Rightarrow> witness_env"

text \<open>The exit code, what is printed and the witness with its path, or the error that ends the program.\<close>

datatype driver_outcome = Exited nat string "(string \<times> string) option" | Aborted exec_error

definition line_of :: "string \<Rightarrow> string" where "line_of s = s @ [CHR 0x0A]"

fun verdict_text :: "bool \<Rightarrow> veri_result \<Rightarrow> string" where
  "verdict_text relaxed HOLD = (if relaxed then ''TRUE(integer-relaxed)'' else ''TRUE'')"
| "verdict_text relaxed FAIL = (if relaxed then ''FALSE(integer-relaxed)'' else ''FALSE(unreach-call)'')"
| "verdict_text relaxed VERIUNKNOWN = ''UNKNOWN''"

definition witness_options_of :: "options \<Rightarrow> string \<Rightarrow> witness_options" where
  "witness_options_of o' spec =
     \<lparr>output_path = witness_path o', input_file = source_file o', specification_text = spec,
      data_model = opt_data_model o', producer_name = ''ArithExe'', producer_version = ''development'',
      integer_relaxed_32bit = ignore_constraints o'\<rparr>"

definition relaxed_engine :: "options \<Rightarrow> engine" where
  "relaxed_engine o' = new_engine\<lparr>eng_session := set_ignore_bitwidth_constraints (ignore_constraints o') (eng_session new_engine)\<rparr>"

text \<open>An exception of the verifier and any other standard exception stop the verification with the answer
  unknown; the witness is written outside of that.\<close>

definition report :: "driver_env \<Rightarrow> options \<Rightarrow> string \<Rightarrow> exec_env \<Rightarrow> veri_result \<Rightarrow> engine \<Rightarrow> driver_outcome" where
  "report D o' spec E result e =
     (let answer = line_of (verdict_text (ignore_constraints o') result)
      in if witness_enabled o' \<and> result \<noteq> VERIUNKNOWN
         then (case write_witness (de_witness D E) (witness_options_of o' spec) result (eng_violation e) (eng_inputs e)
                 (eng_loop_certificates e) (eng_function_certificates e) of
                 Inr contents \<Rightarrow> Exited 0 answer (Some (witness_path o', contents))
               | Inl (WitnessError message) \<Rightarrow> Exited 2 answer None
               | Inl SolverException \<Rightarrow> Aborted RuntimeError)
         else Exited 0 answer None)"

definition stopped :: "exec_error \<Rightarrow> driver_outcome" where
  "stopped err =
     (case err of
        VerifierError k \<Rightarrow> Exited 1 (line_of ''UNKNOWN'') None
      | RuntimeError \<Rightarrow> Exited 1 (line_of ''UNKNOWN'') None
      | _ \<Rightarrow> Aborted err)"

definition main_program :: "driver_env \<Rightarrow> string list \<Rightarrow> driver_outcome" where
  "main_program D arguments =
     (case parse_options arguments of
        Exit n \<Rightarrow> Exited n [] None
      | Parsed o' \<Rightarrow>
          (case specification_of (de_file D) o' of
             None \<Rightarrow> Exited 1 [] None
           | Some spec \<Rightarrow>
               (case de_frontend D (environment_settings o') (source_file o') of
                  Inl err \<Rightarrow> stopped err
                | Inr E \<Rightarrow>
                    (case verify E (de_depth D) (de_fuel D) (relaxed_engine o') of
                       Inl err \<Rightarrow> stopped err
                     | Inr (result, e) \<Rightarrow> report D o' spec E result e))))"

end
