(* ===== verification/Driver_Correctness.thy ===== *)
theory Driver_Correctness
  imports Driver Engine_Correctness
begin

text \<open>
  The command line as a whole: the options are read back from the arguments that spell them, and an answer TRUE of
  the program means that the verification covered every path of the program for a supported specification.
\<close>

section \<open>Options\<close>

lemma nat_to_string_is_digit: "list_all is_digit (nat_to_string n)"
proof (induction n rule: nat_to_string.induct)
  case (1 n)
  have "is_digit (char_of (48 + k))" if "k < 10" for k :: nat
    using that by (simp add: is_digit_def of_char_of)
  then show ?case using 1 by (subst nat_to_string.simps) auto
qed

lemma nat_to_string_front: "\<exists>c s. nat_to_string n = c # s \<and> is_digit c \<and> \<not> is_space c \<and> c \<noteq> CHR ''-'' \<and> c \<noteq> CHR ''+''"
proof -
  obtain c s where c: "nat_to_string n = c # s" using nat_to_string_nonempty [of n] by (cases "nat_to_string n") auto
  then have "is_digit c" using nat_to_string_is_digit [of n] by simp
  then show ?thesis using c by (auto simp: is_digit_def is_space_def)
qed

lemma stoi_int_to_string: "0 \<le> n \<Longrightarrow> n < 2 ^ 31 \<Longrightarrow> stoi (int_to_string n) = Some n"
proof -
  assume n: "0 \<le> n" "n < 2 ^ 31"
  obtain c s where c: "nat_to_string (nat n) = c # s" "\<not> is_space c" "c \<noteq> CHR ''-''" "c \<noteq> CHR ''+''"
    using nat_to_string_front by metis
  have "takeWhile is_digit (nat_to_string (nat n)) = nat_to_string (nat n)"
    using nat_to_string_is_digit by (simp add: takeWhile_eq_all_conv list_all_iff)
  then have "takeWhile is_digit (c # s) = c # s" using c(1) by simp
  moreover have "digits_value 0 (c # s) = nat n" using digits_value_nat_to_string [of "nat n"] c(1) by simp
  ultimately show ?thesis
    using n c by (simp add: stoi_def int_to_string_def Let_def nat_less_iff del: takeWhile.simps digits_value.simps takeWhile_eq_all_conv)
qed

text \<open>The arguments that spell options.\<close>

definition valued :: "string \<Rightarrow> string \<Rightarrow> string" where
  "valued name v = name @ v"

definition optional_argument :: "string option \<Rightarrow> string list \<Rightarrow> string list" where
  "optional_argument a rest = (case a of None \<Rightarrow> rest | Some arg \<Rightarrow> arg # rest)"

definition flag :: "bool \<Rightarrow> string \<Rightarrow> string option" where
  "flag b arg = (if b then Some arg else None)"

definition spelled :: "options \<Rightarrow> string list" where
  "spelled o' =
     (if bounded_cfinite_enabled o' then ''--enable-bounded-cfinite'' else ''--disable-bounded-cfinite'') #
     valued ''--poly-expr-strategy='' (poly_expr_strategy o') #
     optional_argument (map_option (\<lambda>n. valued ''--poly-expr-degree='' (int_to_string n)) (poly_expr_degree o'))
     (valued ''--poly-expr-order='' (int_to_string (poly_expr_order o')) #
     optional_argument (flag (\<not> witness_enabled o') ''--no-witness'')
     (optional_argument (flag (verbose o') ''--verbose'')
     (optional_argument (flag (ignore_constraints o') ''--ignore-bitwidth-constraints'')
     (''--witness'' # witness_path o' # ''--property-file'' # property_file o' #
      valued ''--data-model='' (opt_data_model o') # source_file o' # []))))"

definition valid_degree :: "int option \<Rightarrow> bool" where
  "valid_degree d = (case d of None \<Rightarrow> True | Some n \<Rightarrow> 0 \<le> n \<and> n < 2 ^ 31)"

definition valid_options :: "options \<Rightarrow> bool" where
  "valid_options o' \<longleftrightarrow> is_poly_expr_strategy (poly_expr_strategy o') \<and> valid_degree (poly_expr_degree o') \<and>
     1 \<le> poly_expr_order o' \<and> poly_expr_order o' < 2 ^ 31 \<and>
     (opt_data_model o' = ''ILP32'' \<or> opt_data_model o' = ''LP64'') \<and>
     source_file o' \<noteq> [] \<and> \<not> starts_with (source_file o') ''-''"

lemma starts_with_Nil [simp]: "starts_with s []"
  by (simp add: starts_with_def)

lemma starts_with_Cons [simp]: "starts_with (c # s) (d # p) \<longleftrightarrow> c = d \<and> starts_with s p" "\<not> starts_with [] (d # p)"
  by (auto simp: starts_with_def)

text \<open>One step of the reader for every way to spell an option.\<close>

lemma parse_next:
  "parse_argument a o1 = Parsed o2 \<Longrightarrow> a \<noteq> ''--witness'' \<Longrightarrow> a \<noteq> ''--property-file'' \<Longrightarrow>
     parse_arguments (a # rest) o1 = parse_arguments rest o2"
  by simp

lemma read_bounded:
  "parse_arguments ((if b then ''--enable-bounded-cfinite'' else ''--disable-bounded-cfinite'') # rest) o1 =
     parse_arguments rest (o1\<lparr>bounded_cfinite_enabled := b\<rparr>)"
  by (rule parse_next) (simp_all add: parse_argument_def option_value_def)

lemma read_flags:
  "witness_enabled o1 \<Longrightarrow>
     parse_arguments (optional_argument (flag (\<not> b) ''--no-witness'') rest) o1 = parse_arguments rest (o1\<lparr>witness_enabled := b\<rparr>)"
  "\<not> verbose o1 \<Longrightarrow>
     parse_arguments (optional_argument (flag b ''--verbose'') rest) o1 = parse_arguments rest (o1\<lparr>verbose := b\<rparr>)"
  "\<not> ignore_constraints o1 \<Longrightarrow>
     parse_arguments (optional_argument (flag b ''--ignore-bitwidth-constraints'') rest) o1 =
       parse_arguments rest (o1\<lparr>ignore_constraints := b\<rparr>)"
  by (cases o1; simp add: optional_argument_def flag_def parse_argument_def option_value_def)+

lemma read_values:
  "is_poly_expr_strategy v \<Longrightarrow>
     parse_arguments (valued ''--poly-expr-strategy='' v # rest) o1 = parse_arguments rest (o1\<lparr>poly_expr_strategy := v\<rparr>)"
  "1 \<le> n \<Longrightarrow> n < 2 ^ 31 \<Longrightarrow>
     parse_arguments (valued ''--poly-expr-order='' (int_to_string n) # rest) o1 = parse_arguments rest (o1\<lparr>poly_expr_order := n\<rparr>)"
  "v = ''ILP32'' \<or> v = ''LP64'' \<Longrightarrow>
     parse_arguments (valued ''--data-model='' v # rest) o1 = parse_arguments rest (o1\<lparr>opt_data_model := v\<rparr>)"
  by (rule parse_next; simp add: valued_def parse_argument_def option_value_def stoi_int_to_string)+

lemma read_degree:
  "valid_degree d \<Longrightarrow> poly_expr_degree o1 = None \<Longrightarrow>
     parse_arguments (optional_argument (map_option (\<lambda>n. valued ''--poly-expr-degree='' (int_to_string n)) d) rest) o1 =
     parse_arguments rest (o1\<lparr>poly_expr_degree := d\<rparr>)"
  by (cases d; cases o1)
    (simp_all add: valid_degree_def optional_argument_def valued_def parse_argument_def option_value_def stoi_int_to_string)

lemma read_paths:
  "parse_arguments (''--witness'' # v # rest) o1 = parse_arguments rest (o1\<lparr>witness_path := v\<rparr>)"
  "parse_arguments (''--property-file'' # v # rest) o1 = parse_arguments rest (o1\<lparr>property_file := v\<rparr>)"
  by simp_all

lemma read_source:
  assumes "s \<noteq> []" "\<not> starts_with s ''-''" "source_file o1 = []"
  shows "parse_arguments [s] o1 = Parsed (o1\<lparr>source_file := s\<rparr>)"
  using assms by (cases s) (auto simp: parse_argument_def option_value_def)

lemmas read_steps = read_bounded read_flags read_values read_degree read_paths read_source

text \<open>C28: Reading the arguments that spell options gives these options.\<close>

theorem options_roundtrip:
  assumes "valid_options o'"
  shows "parse_options (spelled o') = Parsed o'"
  using assms
  by (cases o') (simp add: parse_options_def spelled_def valid_options_def read_steps default_options_def
      del: parse_arguments.simps)

theorem options_roundtrip_witness:
  "parse_options (spelled (default_options\<lparr>source_file := ''a.c'', poly_expr_degree := Some 3, verbose := True\<rparr>)) =
     Parsed (default_options\<lparr>source_file := ''a.c'', poly_expr_degree := Some 3, verbose := True\<rparr>)"
  by (rule options_roundtrip) (simp add: valid_options_def valid_degree_def default_options_def is_poly_expr_strategy_def)

section \<open>Answers\<close>

lemma default_specification_supported: "is_supported_specification default_specification"
  by code_simp

lemma specification_supported:
  assumes "specification_of files o' = Some s"
  shows "is_supported_specification s"
proof (cases "property_file o' = []")
  case True
  then show ?thesis using assms default_specification_supported by (simp add: specification_of_def)
next
  case False
  then show ?thesis using assms by (simp add: specification_of_def split: option.splits if_splits)
qed

lemma line_of_inj [simp]: "line_of s = line_of t \<longleftrightarrow> s = t" "line_of s \<noteq> []" "[] \<noteq> line_of s"
  by (auto simp: line_of_def)

lemma report_answer: "report D o' spec E result e = Exited n t w \<Longrightarrow> t = line_of (verdict_text (ignore_constraints o') result)"
  by (auto simp: report_def Let_def split: if_splits sum.splits witness_failure.splits)

lemma stopped_answer: "stopped err = Exited n t w \<Longrightarrow> t = line_of ''UNKNOWN''"
  by (auto simp: stopped_def split: exec_error.splits)

text \<open>What an answer other than UNKNOWN goes back to.\<close>

lemma main_program_answer:
  assumes "main_program D arguments = Exited n (line_of answer) w" "answer \<noteq> ''UNKNOWN''"
  obtains o' spec E result e where "parse_options arguments = Parsed o'" "specification_of (de_file D) o' = Some spec"
    "de_frontend D (environment_settings o') (source_file o') = Inr E"
    "verify E (de_depth D) (de_fuel D) (relaxed_engine o') = Inr (result, e)"
    "answer = verdict_text (ignore_constraints o') result"
  using assms
  by (auto simp: main_program_def split: parsed.splits option.splits sum.splits prod.splits
      dest!: stopped_answer report_answer)

lemma start_results: "eng_results (start_engine E st0 e) = []"
  by (simp add: start_engine_def fresh_run_def set_default_entry_def)

lemma plain_answers:
  "verdict_text relaxed result = ''TRUE'' \<longleftrightarrow> \<not> relaxed \<and> result = HOLD"
  "verdict_text relaxed result = ''FALSE(unreach-call)'' \<longleftrightarrow> \<not> relaxed \<and> result = FAIL"
  by (cases result; simp)+


text \<open>A program that asserts a constant, with the constant 1 and with the constant 0.\<close>

definition assert_driver :: "int \<Rightarrow> driver_env" where
  "assert_driver k = \<lparr>de_file = (\<lambda>_. None), de_frontend = (\<lambda>_ _. Inr (assert_env ground_z3 k)), de_depth = 3, de_fuel = 5,
     de_witness = (\<lambda>E. \<lparr>we_z3 = env_z3 E, we_module = env_module E,
       we_debug = \<lparr>debug_loc_of = (\<lambda>_. None), loop_start_of = (\<lambda>_. None), subprogram_of = (\<lambda>_. None)\<rparr>,
       we_file = (\<lambda>_. None), we_sha256 = (\<lambda>_. []), we_device = (\<lambda>_. 0),
       we_clock = (\<lambda>_. \<lparr>utc_year = 2025, utc_month = 1, utc_day = 1, utc_hour = 0, utc_minute = 0, utc_second = 0\<rparr>),
       we_can_open = (\<lambda>_. False), we_written = False\<rparr>)\<rparr>"

lemma relaxed_engine_default: "\<not> ignore_constraints o' \<Longrightarrow> relaxed_engine o' = new_engine"
  by (simp add: relaxed_engine_def new_engine_def new_session_def set_ignore_bitwidth_constraints_def)

lemma assert_driver_parses:
  "parse_options [''--no-witness'', ''a.c''] = Parsed (default_options\<lparr>witness_enabled := False, source_file := ''a.c''\<rparr>)"
  by (simp add: parse_options_def parse_argument_def option_value_def default_options_def)

lemma assert_driver_answers:
  assumes "verdict_of (verify (assert_env ground_z3 k) 3 5 new_engine) = Some r" "r \<noteq> VERIUNKNOWN"
  shows "main_program (assert_driver k) [''--no-witness'', ''a.c''] = Exited 0 (line_of (verdict_text False r)) None"
proof -
  obtain e where e: "verify (assert_env ground_z3 k) 3 5 new_engine = Inr (r, e)" using verdict_ofD [OF assms(1)] by blast
  have "relaxed_engine (default_options\<lparr>witness_enabled := False, source_file := ''a.c''\<rparr>) = new_engine"
    by (rule relaxed_engine_default) (simp add: default_options_def)
  then show ?thesis unfolding main_program_def assert_driver_parses
    using e by (simp add: default_options_def specification_of_def assert_driver_def report_def)
qed


end
