(* ===== verification/Spec2Isabelle.thy ===== *)
theory Spec2Isabelle
  imports Path_Factorisation Formula_Simplify Integer_Semantics Expression Session Memory_Correctness
    Llvm_Analysis State_Correctness Arithmetic_Correctness Engine_Correctness Recurrence_Cases Linear_Solutions
    Loop_Summary_Correctness Function_Summary_Correctness Witness_Correctness
    Driver_Correctness
begin

text \<open>
  \<^bold>\<open>ArithExe, a symbolic executor for C programs over LLVM.\<close>

  The program explores the paths of a module (lib/engine.cpp) by executing instructions on symbolic
  states (lib/AInstruction.cpp, lib/state.cpp) whose values are conditional expressions
  (lib/Expr.cpp) over solver terms, kept in a memory of objects and frames (lib/Memory.cpp,
  lib/MStack.cpp, lib/MemoryObject.cpp).  Loops and recursive functions are replaced by summaries
  (lib/LoopSummary.cpp, lib/FunctionSummary.cpp) or accelerated along compressed path words
  (lib/PathExpression.cpp).  A session (lib/VerificationSession.cpp) carries counters, caches and
  options through a run.

  \<^bold>\<open>The theories, from the leaves to the root.\<close>

  \<^item> Prelude: collections of facts, lists and repetition, decimal rendering, string tests.
  \<^item> Path_Expression, Path_Factorisation: lib/PathExpression.cpp, the factorisation of a path word into
    powers and the suffix-star candidates, with the optimality of the table and the exactness and
    ranking of the candidates.
  \<^item> Z3_Term: the terms of the solver, their values, and the solver itself as a record of functions
    with its documented behaviour (\<open>simplify_ok\<close>, \<open>check_ok\<close>, \<open>core_ok\<close>, \<open>z3_ok\<close>); an unknown answer says
    nothing.
  \<^item> Formula_Logic, Formula_Correctness, Formula_Simplify: lib/logics.cpp and lib/common.cpp, case
    splitting and merging, normal forms, minimisation and simplification, each an equivalence when
    the solver decides, and the loss of clauses when it does not.
  \<^item> Linear_Algebra, Linear_Correctness: lib/LinearAlgebra.h, matrices of terms and their elimination, which
    gives the only solution of a system unless it skips a column.
  \<^item> Linear_Logic, Linear_Solutions: the solving part of lib/logics.cpp; the equations of a conjunct follow
    from it, and the joined solutions have the values of the variables they are solved for when the
    constraints determine these and every conjunct is solved.
  \<^item> Integer_Semantics: lib/IntegerSemantics.h and lib/RelaxedIntegerSemantics.h, readings of an
    integer at a width, signed division, bitwise operations on unbounded integers.
  \<^item> Expression: lib/Expr.cpp, conditional expressions; \<open>denotes\<close> is their abstract value, a value and
    whether it is defined.
  \<^item> Rec_Worker: the worker process of lib/rec_solver.cpp and its line protocol, with the cache of
    answers; the Python process behind the pipe is a parameter (\<open>child_process\<close>).
  \<^item> Recurrence_Solver, Recurrence_Correctness, Recurrence_Cases: the other classes and functions of
    lib/rec_solver.cpp; splitting a recurrence by its conditions, hoisting conditionals and stating
    invariants with abstract parameters keep the values, and what the parser of answers drops.
  \<^item> Loop_Execution: the class LoopExecution of lib/LoopSummarizer.cpp, the execution of one iteration
    of a loop from a symbolic state at its header; the queue of states has fuel.
  \<^item> Loop_Summarizer, Loop_Summary_Correctness: the class LoopSummarizer of the same file, the recurrences
    of scalars and arrays, the constraints on the number of iterations and the asserted conditions of a
    loop; the constraints hold exactly for the first index that leaves the loop, and a condition reported
    as proved holds in every iteration.
  \<^item> Function_Summarizer, Function_Summary_Correctness: lib/FunctionSummarizer.cpp, the execution of the body
    of a recursion, the recurrence of its value and the relations of a tail-recursive procedure; the
    relations hold between the first and the last call, and the condition on the number of calls is false.
  \<^item> Path_Accelerator, Path_Acceleration_Correctness, Acceleration_Properties: lib/PathAccelerator.cpp, the
    transitions of the paths of an iteration, their composition along a word, its certified closed
    form, and the two jumps; \<open>run_word\<close> executes a word on integers, and the jumps are shown to represent
    exactly the executions of the word, with the states they lead to.
  \<^item> Nested_Accelerator, Nested_Correctness: the summaries of nested counted loops of the same file; the
    count is the first step at which the test fails, and the domain of a summary is where the loop is
    completed without a failed assertion.
  \<^item> Summaries, Session: the records of summaries, the tables and counters of a session, with the
    interfaces \<open>lookup_table\<close> and \<open>number_supply\<close>.
  \<^item> Memory_Model, Memory_Correctness: objects, frames, stack, heap and globals; an array write is an
    update of the denoted function, and a call restores the frames of its caller.
  \<^item> Llvm_Module, Llvm_Analysis: the module as data and the two searches on it, the analysis of signed
    representations and the recursion test, with their fixpoint and reachability meaning.
  \<^item> Exec_State, State_Correctness: the three classes of states, conditions, evaluation, phi nodes,
    input domains and models.  An operation is a function of the session with a result or an error.
  \<^item> Integer_Instructions, Arithmetic_Correctness: binary operations, comparisons and casts; whenever
    the definedness condition of a term holds, the machine operation is defined and the term has its
    value.
  \<^item> Memory_Instructions, Call_Instructions, Control_Instructions: the other instructions; the
    dispatch \<open>execute\<close> runs plain states, \<open>execute_in_loop\<close> and \<open>execute_in_rec\<close> the states of summarizers.
  \<^item> Engine, Engine_Correctness: the loop over the stack of states, as a function and as a step
    relation; a verdict HOLD covers every path and a verdict FAIL has a feasible one.
  \<^item> Witness_Source, Witness_Writer: lib/Witness.cpp, the places of loops, functions and calls in the source,
    terms as C expressions, contracts and invariants with ghost variables, and the YAML document.
  \<^item> Witness_Text_Correctness, Witness_Correctness: quoted scalars read back, the end of a call is its closing
    parenthesis, a text of a term is a C expression with its value, and the equations of a loop with
    polynomial closed forms hold in every iteration.
  \<^item> Driver, Driver_Correctness: tools/arith_exe.cpp, the options, the specification, one verification and its
    answer; options are read back from the arguments that spell them, and an answer TRUE is printed only
    where every explored state is safe.

  \<^bold>\<open>Correspondence.\<close>  A class with its fields is a record, an enumeration a datatype, a pointer to a
  value, block, loop or function of the module a number, a shared pointer to a state a state: the code
  copies a state before it changes it, or returns the one it was given.  Objects that the code changes
  through a pointer are looked up again at their address.  A failed assertion, an exception of the
  verifier with its kind, another exception and a floating-point value are errors.  \<open>std::size_t\<close>
  values are naturals, path symbols and session counters are words.

  \<^bold>\<open>Bounds and fuel.\<close>  The searches on the module have one more unit of fuel than the module has values
  or functions, which the theorems on them show to be enough.  Pointer chains have the number of
  objects as fuel: a longer chain is a cycle, on which the code does not return.  The executor and the
  engine may run for ever; their fuel is a parameter and its end is the error \<open>NotReturned\<close>, which no
  theorem takes for a result.  The same holds of the queue of a loop or a recursion (\<open>le_fuel\<close>, with the fuel \<open>le_depth\<close> of
  each instruction) and of the recursion on inner loops; the bound of 4096 steps on the exploration of
  a nested loop is the code's.

  \<^bold>\<open>Parameters.\<close>  The solver (\<open>z3_api\<close>), what the LLVM library computes (fields of \<open>llvm_module\<close>,
  \<open>loop_env\<close>, \<open>accel_env\<close> and \<open>function_env\<close>: the dependences of loads on stores, exit and exiting blocks, freeze
  instructions, operands of instructions the executor rejects, constants that are no integers, function
  declarations, users of a value and components of the call graph), whether the quantifier elimination ends in its time limit, the child process and the parser behind the
  recurrence solver, the environment variables, the files, the random device and the clock of a
  witness (\<open>witness_env\<close>, \<open>debug_info\<close>), the frontend of the command line (\<open>driver_env\<close>), and the summarizers and the accelerator as the executor
  calls them, which are fields of \<open>exec_env\<close>.  The time limits of single queries appear only as unknown answers.

  \<^bold>\<open>Not modelled.\<close>  The frontend of
  lib/AnalysisManager.cpp (running the compiler and LLVM passes), lib/old_Memory.cpp (not built), the
  Python solvers behind a process boundary, logging and the text of usage errors.
\<close>

end
